(* ===== verification/Prelude.thy ===== *)
theory Prelude
  imports Main "HOL-Library.Monad_Syntax" "HOL-Library.Word" "HOL-Library.Signed_Division"
begin

text \<open>
  Shared vocabulary of the development.

  A Rust function that may panic (an index out of range, an unsigned subtraction below zero,
  a remainder by zero, a failed assertion) is a function into \<open>'a option\<close>: \<open>None\<close> is the
  panic, and the \<open>do\<close> notation sequences calls the way the source sequences statements.
  The semantics is the one of a build with overflow checks and debug assertions on, so a
  theorem that an operation returns \<open>Some\<close> also says that the optimised build, which
  drops the checks, computes the same value. Unsigned machine words (\<open>usize\<close>) are \<open>nat\<close>
  and line numbers (\<open>i32\<close>) are \<open>int\<close>.
\<close>

unbundle bit_operations_syntax

named_theorems panic_free \<open>evaluation of the panic-checked primitives under their side conditions\<close>
named_theorems unfold_model \<open>definitions of the model that proofs usually unfold together\<close>

type_synonym 'a result = "'a option"
type_synonym uchar = nat

section \<open>Panic-checked primitives of the standard library\<close>

text \<open>\<open>line.0 as usize\<close>: a negative line becomes a number no size reaches.\<close>

definition line_as_usize :: "int \<Rightarrow> nat" where
  "line_as_usize l = (if 0 \<le> l then nat l else nat (l + 2 ^ 64))"

text \<open>\<open>a - b\<close> on \<open>usize\<close>: underflow panics.\<close>

definition usize_sub :: "nat \<Rightarrow> nat \<Rightarrow> nat option" where
  "usize_sub a b = (if b \<le> a then Some (a - b) else None)"

text \<open>\<open>v[i]\<close> and \<open>v[i] = x\<close> on a \<open>Vec\<close>: an index out of range panics.\<close>

definition vec_get :: "'a list \<Rightarrow> nat \<Rightarrow> 'a option" where
  "vec_get xs i = (if i < length xs then Some (xs ! i) else None)"

definition vec_set :: "'a list \<Rightarrow> nat \<Rightarrow> 'a \<Rightarrow> 'a list option" where
  "vec_set xs i x = (if i < length xs then Some (xs[i := x]) else None)"

text \<open>\<open>assert!\<close> and \<open>debug_assert!\<close>.\<close>

definition assert_that :: "bool \<Rightarrow> unit option" where
  "assert_that b = (if b then Some () else None)"

text \<open>\<open>Vec::resize_with\<close> with a constant generator: truncates or pads.\<close>

definition resize_with :: "nat \<Rightarrow> 'a \<Rightarrow> 'a list \<Rightarrow> 'a list" where
  "resize_with n x xs = take n xs @ replicate (n - length xs) x"

text \<open>\<open>x as i32\<close> and the overflow-checked \<open>a + b\<close> on \<open>i32\<close>.\<close>

definition as_i32 :: "int \<Rightarrow> int" where
  "as_i32 x = (x + 2 ^ 31) mod 2 ^ 32 - 2 ^ 31"

definition i32_add :: "int \<Rightarrow> int \<Rightarrow> int option" where
  "i32_add a b = (if - (2 ^ 31) \<le> a + b \<and> a + b < 2 ^ 31 then Some (a + b) else None)"

text \<open>\<open>Iterator::rposition\<close>: index of the last element that satisfies the predicate.\<close>

fun rposition :: "('a \<Rightarrow> bool) \<Rightarrow> 'a list \<Rightarrow> nat option" where
  "rposition P [] = None"
| "rposition P (x # xs) =
     (case rposition P xs of
        Some i \<Rightarrow> Some (Suc i)
      | None \<Rightarrow> (if P x then Some 0 else None))"

text \<open>The half-open line range \<open>a..b\<close> of a \<open>for\<close> loop.\<close>

definition line_range :: "int \<Rightarrow> int \<Rightarrow> int list" where
  "line_range a b = [a..b - 1]"

text \<open>A \<open>for\<close> loop whose body updates a state and may panic.\<close>

primrec for_each :: "('a \<Rightarrow> 's \<Rightarrow> 's option) \<Rightarrow> 'a list \<Rightarrow> 's \<Rightarrow> 's option" where
  "for_each f [] s = Some s"
| "for_each f (x # xs) s = Option.bind (f x s) (for_each f xs)"

text \<open>\<open>char::len_utf8\<close>.\<close>

definition utf8_len :: "uchar \<Rightarrow> nat" where
  "utf8_len c = (if c < 0x80 then 1 else if c < 0x800 then 2 else if c < 0x10000 then 3 else 4)"

section \<open>Generic lemmas\<close>

lemma line_as_usize_nonneg [simp]: "0 \<le> l \<Longrightarrow> line_as_usize l = nat l"
  by (simp add: line_as_usize_def)

lemma usize_sub_Some [panic_free]: "b \<le> a \<Longrightarrow> usize_sub a b = Some (a - b)"
  by (simp add: usize_sub_def)

lemma usize_sub_eq_Some [simp]: "usize_sub a b = Some c \<longleftrightarrow> b \<le> a \<and> c = a - b"
  by (auto simp: usize_sub_def)

lemma vec_get_Some [panic_free]: "i < length xs \<Longrightarrow> vec_get xs i = Some (xs ! i)"
  by (simp add: vec_get_def)

lemma vec_get_eq_Some [simp]: "vec_get xs i = Some x \<longleftrightarrow> i < length xs \<and> x = xs ! i"
  by (auto simp: vec_get_def)

lemma vec_set_Some [panic_free]: "i < length xs \<Longrightarrow> vec_set xs i x = Some (xs[i := x])"
  by (simp add: vec_set_def)

lemma vec_set_eq_Some [simp]: "vec_set xs i x = Some ys \<longleftrightarrow> i < length xs \<and> ys = xs[i := x]"
  by (auto simp: vec_set_def)

lemma assert_that_Some [panic_free]: "b \<Longrightarrow> assert_that b = Some ()"
  by (simp add: assert_that_def)

lemma assert_that_eq_Some [simp]: "assert_that b = Some u \<longleftrightarrow> b"
  by (simp add: assert_that_def)

lemma as_i32_id [simp]: "- (2 ^ 31) \<le> x \<Longrightarrow> x < 2 ^ 31 \<Longrightarrow> as_i32 x = x"
  by (simp add: as_i32_def mod_pos_pos_trivial)

lemma as_i32_range: "- (2 ^ 31) \<le> as_i32 x \<and> as_i32 x < 2 ^ 31"
  using pos_mod_bound [of "2 ^ 32" "x + 2 ^ 31"] pos_mod_sign [of "2 ^ 32" "x + 2 ^ 31"]
  by (simp add: as_i32_def del: pos_mod_bound pos_mod_sign)

lemma i32_add_Some [panic_free]:
  "- (2 ^ 31) \<le> a + b \<Longrightarrow> a + b < 2 ^ 31 \<Longrightarrow> i32_add a b = Some (a + b)"
  by (simp add: i32_add_def)

lemma length_resize_with [simp]: "length (resize_with n x xs) = n"
  by (simp add: resize_with_def)

lemma resize_with_Nil [simp]: "resize_with n x xs = [] \<longleftrightarrow> n = 0"
  by (metis length_0_conv length_resize_with)

lemma nth_resize_with:
  "i < n \<Longrightarrow> resize_with n x xs ! i = (if i < length xs then xs ! i else x)"
  by (simp add: resize_with_def nth_append)

lemma rposition_None: "rposition P xs = None \<longleftrightarrow> (\<forall>x \<in> set xs. \<not> P x)"
  by (induction xs) (auto split: option.splits)

lemma rposition_Some:
  "rposition P xs = Some i \<Longrightarrow>
     i < length xs \<and> P (xs ! i) \<and> (\<forall>j. i < j \<and> j < length xs \<longrightarrow> \<not> P (xs ! j))"
proof (induction xs arbitrary: i)
  case Nil
  then show ?case by simp
next
  case (Cons x xs)
  show ?case
  proof (cases "rposition P xs")
    case None
    with Cons.prems have "i = 0" and "P x" by (auto split: if_splits)
    moreover have "\<forall>y \<in> set xs. \<not> P y" using None by (simp add: rposition_None)
    ultimately show ?thesis by (auto simp: nth_Cons split: nat.splits)
  next
    case (Some k)
    with Cons.prems have "i = Suc k" by simp
    with Cons.IH [OF Some] show ?thesis by (auto simp: nth_Cons split: nat.splits)
  qed
qed

lemma length_line_range [simp]: "length (line_range a b) = nat (b - a)"
  by (simp add: line_range_def)

lemma nth_line_range [simp]: "k < nat (b - a) \<Longrightarrow> line_range a b ! k = a + int k"
  by (simp add: line_range_def)

lemma set_line_range [simp]: "set (line_range a b) = {a..<b}"
  by (auto simp: line_range_def)

lemma nth_rev_line_range [simp]:
  "k < nat (b - a) \<Longrightarrow> rev (line_range a b) ! k = b - 1 - int k"
  by (simp add: rev_nth)

lemma for_each_append:
  "for_each f (xs @ ys) s = Option.bind (for_each f xs s) (for_each f ys)"
proof (induction xs arbitrary: s)
  case Nil
  then show ?case by simp
next
  case (Cons x xs)
  then show ?case by (cases "f x s") simp_all
qed

text \<open>
  Total correctness of a loop: an indexed invariant that every iteration re-establishes
  without panicking holds after the last one.
\<close>

lemma for_each_rule:
  assumes "I 0 s"
    and "\<And>k s. k < length xs \<Longrightarrow> I k s \<Longrightarrow> \<exists>s'. f (xs ! k) s = Some s' \<and> I (Suc k) s'"
  shows "\<exists>s'. for_each f xs s = Some s' \<and> I (length xs) s'"
  using assms
proof (induction xs arbitrary: s I)
  case Nil
  then show ?case by simp
next
  case (Cons x xs)
  from Cons.prems(2) [of 0 s] Cons.prems(1) obtain s1 where s1: "f x s = Some s1" "I 1 s1"
    by auto
  have "\<exists>s'. for_each f xs s1 = Some s' \<and> I (Suc (length xs)) s'"
  proof (rule Cons.IH [of "\<lambda>k. I (Suc k)"])
    show "I (Suc 0) s1" using s1 by simp
    show "\<exists>s'. f (xs ! k) t = Some s' \<and> I (Suc (Suc k)) s'"
      if "k < length xs" "I (Suc k) t" for k t
      using Cons.prems(2) [of "Suc k" t] that by simp
  qed
  with s1 show ?case by simp
qed

text \<open>
  Total correctness of a panicking computation: it returns, and what it returns satisfies the
  predicate. The rules of the collection \<open>returns_rules\<close> push the predicate through the \<open>do\<close> notation;
  what an operation guarantees is stated as a rule \<open>returns (op x) Q\<close> and used by monotonicity.
\<close>

definition returns :: "'a option \<Rightarrow> ('a \<Rightarrow> bool) \<Rightarrow> bool" where
  "returns m Q \<longleftrightarrow> (\<exists>x. m = Some x \<and> Q x)"

named_theorems returns_rules \<open>rules that push a postcondition through a computation\<close>

lemma returns_Some [simp]: "returns (Some x) Q \<longleftrightarrow> Q x"
  by (simp add: returns_def)

lemma returns_None [simp]: "\<not> returns None Q"
  by (simp add: returns_def)

lemma returns_bind [returns_rules]: "returns (Option.bind m f) Q \<longleftrightarrow> returns m (\<lambda>x. returns (f x) Q)"
  by (cases m) simp_all

lemma returns_if [returns_rules]:
  "returns (if b then m else n) Q \<longleftrightarrow> (b \<longrightarrow> returns m Q) \<and> (\<not> b \<longrightarrow> returns n Q)"
  by simp

lemma returns_Let [returns_rules]: "returns (Let x f) Q \<longleftrightarrow> returns (f x) Q"
  by (simp add: Let_def)

lemma returns_case_option [returns_rules]:
  "returns (case x of None \<Rightarrow> m | Some y \<Rightarrow> f y) Q \<longleftrightarrow>
     (x = None \<longrightarrow> returns m Q) \<and> (\<forall>y. x = Some y \<longrightarrow> returns (f y) Q)"
  by (cases x) simp_all

lemma returns_mono: "returns m P \<Longrightarrow> (\<And>x. P x \<Longrightarrow> Q x) \<Longrightarrow> returns m Q"
  by (auto simp: returns_def)

lemma returns_conj: "returns m P \<Longrightarrow> returns m Q \<Longrightarrow> returns m (\<lambda>x. P x \<and> Q x)"
  by (auto simp: returns_def)

lemma returnsE: "returns m Q \<Longrightarrow> (\<And>x. m = Some x \<Longrightarrow> Q x \<Longrightarrow> R) \<Longrightarrow> R"
  by (auto simp: returns_def)

lemma returns_for_each:
  assumes "I s" and "\<And>x s. x \<in> set xs \<Longrightarrow> I s \<Longrightarrow> returns (f x s) I"
  shows "returns (for_each f xs s) I"
  using assms
proof (induction xs arbitrary: s)
  case Nil
  then show ?case by simp
next
  case (Cons x xs)
  have "returns (f x s) I" using Cons.prems by simp
  then show ?case
    by (simp add: returns_bind) (erule returns_mono, use Cons in auto)
qed

text \<open>Rust's \<open>%\<close> on signed integers truncates towards zero.\<close>

definition rem_i32 :: "int \<Rightarrow> int \<Rightarrow> int option" where
  "rem_i32 a b = (if b = 0 then None else Some (a smod b))"

lemma smod_nonneg: "0 \<le> a \<Longrightarrow> 0 < b \<Longrightarrow> a smod b = a mod (b :: int)"
  by (simp add: signed_modulo_int_def signed_divide_int_def sgn_if minus_div_mult_eq_mod)

lemma smod_nonpos: "a \<le> 0 \<Longrightarrow> 0 < b \<Longrightarrow> a smod b = - ((- a) mod (b :: int))"
  using div_mult_mod_eq [of "- a" b]
  by (auto simp: signed_modulo_int_def signed_divide_int_def sgn_if)

end
