(* ===== verification/Zmodem.thy ===== *)
theory Zmodem
  imports Prelude
begin

text \<open>
  The ZMODEM session sniffer (\<open>nebula_terminal/src/zmodem.rs\<close>): an incremental matcher that
  recognises the two session-opening hex headers in the output of a remote program. The
  lemmas show that its block-wise skipping is an optimisation only, that chunk boundaries do
  not matter, that the checksum is the remainder of a polynomial division, and that a header is
  found whatever came before it, with the offer its digits encode.
\<close>

section \<open>Data\<close>

type_synonym byte = "8 word"

datatype zmodem_offer = Upload | Download

abbreviation ZPAD :: byte where "ZPAD \<equiv> 42"
abbreviation ZDLE :: byte where "ZDLE \<equiv> 24"
abbreviation ZHEX :: byte where "ZHEX \<equiv> 66"
abbreviation HEX_DIGITS :: nat where "HEX_DIGITS \<equiv> 14"

datatype zmodem_state = Z_Idle | Z_Pad | Z_Pads | Z_Zdle | Z_Hex nat

record sniffer =
  zs_state :: zmodem_state
  zs_digits :: "byte list"

definition default_sniffer :: sniffer where
  "default_sniffer = \<lparr>zs_state = Z_Idle, zs_digits = replicate HEX_DIGITS 0\<rparr>"

section \<open>Operations\<close>

definition is_ascii_hexdigit :: "byte \<Rightarrow> bool" where
  "is_ascii_hexdigit b \<longleftrightarrow> 48 \<le> b \<and> b \<le> 57 \<or> 65 \<le> b \<and> b \<le> 70 \<or> 97 \<le> b \<and> b \<le> 102"

text \<open>\<open>char::from(digit).to_digit(16)\<close>.\<close>

definition hex_value :: "byte \<Rightarrow> byte option" where
  "hex_value d =
     (if 48 \<le> d \<and> d \<le> 57 then Some (d - 48)
      else if 97 \<le> d \<and> d \<le> 102 then Some (d - 87)
      else if 65 \<le> d \<and> d \<le> 70 then Some (d - 55)
      else None)"

definition crc16_bit :: "16 word \<Rightarrow> 16 word" where
  "crc16_bit crc = (if crc AND 0x8000 = 0 then push_bit 1 crc else push_bit 1 crc XOR 0x1021)"

definition crc16_byte :: "byte \<Rightarrow> 16 word \<Rightarrow> 16 word" where
  "crc16_byte b crc = (crc16_bit ^^ 8) (crc XOR push_bit 8 (ucast b))"

definition crc16 :: "byte list \<Rightarrow> 16 word" where
  "crc16 bytes = fold crc16_byte bytes 0"

text \<open>\<open>digits.chunks_exact(2)\<close>, each pair decoded to a byte.\<close>

fun decode_pairs :: "byte list \<Rightarrow> byte list option" where
  "decode_pairs (a # b # rest) = do {
     hi \<leftarrow> hex_value a;
     lo \<leftarrow> hex_value b;
     tail \<leftarrow> decode_pairs rest;
     Some ((push_bit 4 hi OR lo) # tail)
   }"
| "decode_pairs _ = Some []"

text \<open>The inner \<open>Option\<close> of \<open>header\<close>; a digit that does not decode is no header.\<close>

definition zmodem_header :: "byte list \<Rightarrow> zmodem_offer option" where
  "zmodem_header digits =
     (case decode_pairs digits of
        None \<Rightarrow> None
      | Some decoded \<Rightarrow>
          (let frame = take 5 decoded; crc = drop 5 decoded in
           if crc16 frame \<noteq> (push_bit 8 (ucast (crc ! 0)) OR ucast (crc ! 1)) then None
           else if frame ! 0 = 0 then Some Download
           else if frame ! 0 = 1 then Some Upload
           else None))"

text \<open>One transition; \<open>None\<close> is the panic of an index past the digit buffer.\<close>

definition sniffer_step :: "byte \<Rightarrow> sniffer \<Rightarrow> (zmodem_offer option \<times> sniffer) option" where
  "sniffer_step b s =
     (let goto = \<lambda>st. Some (None, s\<lparr>zs_state := st\<rparr>);
          other = (if b = ZPAD then goto Z_Pad else goto Z_Idle)
      in case zs_state s of
           Z_Idle \<Rightarrow> other
         | Z_Pad \<Rightarrow> (if b = ZPAD then goto Z_Pads else other)
         | Z_Pads \<Rightarrow>
             (if b = ZPAD then goto Z_Pads
              else if b = ZDLE then goto Z_Zdle
              else if b = ZHEX then goto (Z_Hex 0)
              else other)
         | Z_Zdle \<Rightarrow> (if b = ZHEX then goto (Z_Hex 0) else other)
         | Z_Hex count \<Rightarrow>
             (if is_ascii_hexdigit b
              then do {
                digits \<leftarrow> vec_set (zs_digits s) count b;
                let s = s\<lparr>zs_digits := digits\<rparr>;
                if count + 1 < HEX_DIGITS
                then Some (None, s\<lparr>zs_state := Z_Hex (count + 1)\<rparr>)
                else Some (zmodem_header digits, s\<lparr>zs_state := Z_Idle\<rparr>)
              }
              else other))"

function chunks_exact :: "nat \<Rightarrow> 'a list \<Rightarrow> 'a list list" where
  "chunks_exact n xs =
     (if n = 0 \<or> length xs < n then [] else take n xs # chunks_exact n (drop n xs))"
  by pat_completeness auto
termination
  by (relation "measure (length \<circ> snd)") auto

declare chunks_exact.simps [simp del]

text \<open>\<open>Iterator::position\<close>.\<close>

fun position :: "('a \<Rightarrow> bool) \<Rightarrow> 'a list \<Rightarrow> nat option" where
  "position P [] = None"
| "position P (x # xs) = (if P x then Some 0 else map_option Suc (position P xs))"

definition find_pad :: "byte list \<Rightarrow> nat option" where
  "find_pad bytes =
     (let clean = takeWhile (\<lambda>block. \<not> fold (\<lambda>b hit. hit \<or> b = ZPAD) block False)
                    (chunks_exact 16 bytes);
          skipped = length clean * 16
      in map_option (\<lambda>index. skipped + index) (position (\<lambda>b. b = ZPAD) (drop skipped bytes)))"

function sniffer_feed_loop ::
    "byte list \<Rightarrow> zmodem_offer option \<Rightarrow> sniffer \<Rightarrow> (zmodem_offer option \<times> sniffer) option" where
  "sniffer_feed_loop rest offer s =
     (if rest = [] then Some (offer, s)
      else
        (case (if zs_state s = Z_Idle then find_pad rest else Some 0) of
           None \<Rightarrow> Some (offer, s)
         | Some start \<Rightarrow>
             (case drop start rest of
                [] \<Rightarrow> None
              | b # rest' \<Rightarrow>
                  (case sniffer_step b s of
                     None \<Rightarrow> None
                   | Some (found, s') \<Rightarrow>
                       sniffer_feed_loop rest' (case found of None \<Rightarrow> offer | Some _ \<Rightarrow> found) s'))))"
  by pat_completeness auto
termination
proof (relation "measure (\<lambda>(rest, _, _). length rest)", simp)
  fix rest :: "byte list" and start b rest'
  assume "drop start rest = b # rest'"
  then have "length (b # rest') \<le> length rest" by (metis length_drop diff_le_self)
  then show "((rest', a, c), (rest, d, e)) \<in> measure (\<lambda>(rest, _, _). length rest)" for a c d e
    by simp
qed

declare sniffer_feed_loop.simps [simp del]

definition sniffer_feed :: "byte list \<Rightarrow> sniffer \<Rightarrow> (zmodem_offer option \<times> sniffer) option" where
  "sniffer_feed bytes s = sniffer_feed_loop bytes None s"

section \<open>Skipping is transparent\<close>

text \<open>The reference: every byte goes through the state machine, the last offer wins.\<close>

fun step_all :: "byte list \<Rightarrow> zmodem_offer option \<Rightarrow> sniffer \<Rightarrow> (zmodem_offer option \<times> sniffer) option" where
  "step_all [] offer s = Some (offer, s)"
| "step_all (b # bs) offer s =
     (case sniffer_step b s of
        None \<Rightarrow> None
      | Some (found, s') \<Rightarrow> step_all bs (case found of None \<Rightarrow> offer | Some _ \<Rightarrow> found) s')"

definition sniffer_ok :: "sniffer \<Rightarrow> bool" where
  "sniffer_ok s \<longleftrightarrow> length (zs_digits s) = HEX_DIGITS \<and>
     (case zs_state s of Z_Hex count \<Rightarrow> count < HEX_DIGITS | _ \<Rightarrow> True)"

lemma fold_hit: "fold (\<lambda>b hit. hit \<or> b = p) xs acc \<longleftrightarrow> acc \<or> p \<in> set xs"
  by (induction xs arbitrary: acc) auto

lemma position_None: "position P xs = None \<longleftrightarrow> (\<forall>x \<in> set xs. \<not> P x)"
  by (induction xs) auto

lemma position_append:
  "\<forall>x \<in> set xs. \<not> P x \<Longrightarrow> position P (xs @ ys) = map_option (\<lambda>i. length xs + i) (position P ys)"
  by (induction xs) (cases "position P ys"; simp)+

lemma clean_blocks_prefix:
  "length (takeWhile (\<lambda>block. p \<notin> set block) (chunks_exact 16 bytes)) * 16 \<le> length bytes \<and>
   p \<notin> set (take (length (takeWhile (\<lambda>block. p \<notin> set block) (chunks_exact 16 bytes)) * 16) bytes)"
proof (induction "16 :: nat" bytes rule: chunks_exact.induct)
  case (1 bytes)
  show ?case
  proof (cases "length bytes < 16 \<or> p \<in> set (take 16 bytes)")
    case True
    then show ?thesis by (subst (1 2) chunks_exact.simps) auto
  next
    case False
    let ?k = "length (takeWhile (\<lambda>block. p \<notin> set block) (chunks_exact 16 (drop 16 bytes))) * 16"
    have eq: "length (takeWhile (\<lambda>block. p \<notin> set block) (chunks_exact 16 bytes)) * 16 = 16 + ?k"
      using False by (subst chunks_exact.simps) simp
    have "?k \<le> length (drop 16 bytes) \<and> p \<notin> set (take ?k (drop 16 bytes))"
      using 1 False by simp
    then show ?thesis
      using False unfolding eq take_add by auto
  qed
qed

lemma find_pad_position: "find_pad bytes = position (\<lambda>b. b = ZPAD) bytes"
proof -
  let ?k = "length (takeWhile (\<lambda>block. ZPAD \<notin> set block) (chunks_exact 16 bytes)) * 16"
  have k: "?k \<le> length bytes" "ZPAD \<notin> set (take ?k bytes)"
    using clean_blocks_prefix [of ZPAD bytes] by auto
  have "position (\<lambda>b. b = ZPAD) bytes = position (\<lambda>b. b = ZPAD) (take ?k bytes @ drop ?k bytes)" by simp
  also have "\<dots> = map_option (\<lambda>i. ?k + i) (position (\<lambda>b. b = ZPAD) (drop ?k bytes))"
    using k by (subst position_append) auto
  finally show ?thesis by (simp add: find_pad_def fold_hit Let_def)
qed

lemma step_idle:
  "zs_state s = Z_Idle \<Longrightarrow> b \<noteq> ZPAD \<Longrightarrow> sniffer_step b s = Some (None, s)"
  by (cases s) (simp add: sniffer_step_def)

lemma step_all_skip:
  "zs_state s = Z_Idle \<Longrightarrow> ZPAD \<notin> set bs \<Longrightarrow> step_all (bs @ cs) offer s = step_all cs offer s"
  by (induction bs) (auto simp: step_idle)

lemma position_split:
  "position P xs = Some i \<Longrightarrow>
     \<exists>b. xs = take i xs @ b # drop (Suc i) xs \<and> drop i xs = b # drop (Suc i) xs \<and> P b \<and>
       (\<forall>x \<in> set (take i xs). \<not> P x)"
  by (induction xs arbitrary: i) (auto split: if_splits)

lemma feed_loop_step_all: "sniffer_feed_loop rest offer s = step_all rest offer s"
proof (induction rest offer s rule: sniffer_feed_loop.induct)
  case (1 rest offer s)
  show ?case
  proof (cases "rest = [] \<or> zs_state s = Z_Idle \<and> find_pad rest = None")
    case True
    then show ?thesis
    proof
      assume "zs_state s = Z_Idle \<and> find_pad rest = None"
      moreover from this have "ZPAD \<notin> set rest" by (auto simp: find_pad_position position_None)
      ultimately show ?thesis
        using step_all_skip [of s rest "[]" offer] by (subst sniffer_feed_loop.simps) simp
    qed (simp add: sniffer_feed_loop.simps)
  next
    case False
    let ?start = "if zs_state s = Z_Idle then find_pad rest else Some 0"
    obtain start b where start: "?start = Some start" "rest = take start rest @ b # drop (Suc start) rest"
      "drop start rest = b # drop (Suc start) rest"
      "zs_state s = Z_Idle \<longrightarrow> ZPAD \<notin> set (take start rest)" "zs_state s \<noteq> Z_Idle \<longrightarrow> start = 0"
    proof (cases "zs_state s = Z_Idle")
      case True
      then obtain i where "find_pad rest = Some i" using False by auto
      then show thesis using that [of i] True position_split [of "\<lambda>b. b = ZPAD" rest i]
        by (auto simp: find_pad_position)
    next
      case n: False
      then show thesis using that [of 0 "hd rest"] False by (cases rest) auto
    qed
    have skip: "step_all rest offer s = step_all (b # drop (Suc start) rest) offer s"
      using start(2,4,5) step_all_skip [of s "take start rest" "b # drop (Suc start) rest" offer]
      by (cases "zs_state s = Z_Idle") auto
    show ?thesis
      using False 1 [OF _ start(1) start(3)] unfolding skip
      by (subst sniffer_feed_loop.simps) (auto simp: start(1,3) split: option.splits)
  qed
qed

lemma sniffer_step_ok:
  assumes "sniffer_ok s"
  shows "\<exists>found s'. sniffer_step b s = Some (found, s') \<and> sniffer_ok s'"
  using assms by (cases "zs_state s") (auto simp: sniffer_ok_def sniffer_step_def panic_free Let_def)

lemma step_all_ok:
  "sniffer_ok s \<Longrightarrow> \<exists>found s'. step_all bs offer s = Some (found, s') \<and> sniffer_ok s'"
proof (induction bs arbitrary: offer s)
  case Nil
  then show ?case by simp
next
  case (Cons b bs)
  then show ?case using sniffer_step_ok [OF Cons.prems, of b] by auto
qed

lemma step_all_append:
  "step_all (xs @ ys) offer s =
     Option.bind (step_all xs offer s) (\<lambda>(found, s'). step_all ys found s')"
  by (induction xs arbitrary: offer s) (auto split: option.splits)

lemma step_all_offer:
  "step_all bs offer s = map_option (\<lambda>(found, s'). (case found of None \<Rightarrow> offer | Some _ \<Rightarrow> found, s'))
     (step_all bs None s)"
proof (induction bs arbitrary: offer s)
  case Nil
  then show ?case by simp
next
  case (Cons b bs)
  show ?case
  proof (cases "sniffer_step b s")
    case (Some r)
    obtain found s' where r: "r = (found, s')" by (cases r)
    show ?thesis
    proof (cases found)
      case None
      then show ?thesis using Some r Cons.IH [of offer s'] by simp
    next
      case (Some f)
      then show ?thesis
        using \<open>sniffer_step b s = Some r\<close> r Cons.IH [of "Some f" s']
        by (cases "step_all bs None s'") (auto split: option.splits)
    qed
  qed simp
qed

section \<open>Recognising a header\<close>

lemma hex_run:
  assumes "\<forall>d \<in> set ds. is_ascii_hexdigit d" "length ds + count = HEX_DIGITS" "count < HEX_DIGITS"
    "length (zs_digits s) = HEX_DIGITS" "zs_state s = Z_Hex count"
  shows "step_all ds None s = Some (zmodem_header (take count (zs_digits s) @ ds),
    \<lparr>zs_state = Z_Idle, zs_digits = take count (zs_digits s) @ ds\<rparr>)"
  using assms
proof (induction ds arbitrary: count s)
  case Nil
  then show ?case by simp
next
  case (Cons d ds)
  let ?ds = "(zs_digits s)[count := d]"
  have pre: "take (Suc count) ?ds = take count (zs_digits s) @ [d]"
    using Cons.prems by (simp add: take_Suc_conv_app_nth)
  show ?case
  proof (cases "count + 1 < HEX_DIGITS")
    case True
    let ?s = "s\<lparr>zs_digits := ?ds, zs_state := Z_Hex (count + 1)\<rparr>"
    have "sniffer_step d s = Some (None, ?s)"
      using Cons.prems True by (simp add: sniffer_step_def panic_free)
    moreover have "step_all ds None ?s = Some (zmodem_header (take (count + 1) ?ds @ ds),
        \<lparr>zs_state = Z_Idle, zs_digits = take (count + 1) ?ds @ ds\<rparr>)"
      using Cons.IH [of "count + 1" ?s] Cons.prems True by simp
    ultimately show ?thesis using pre by simp
  next
    case False
    have "length ds = 13 - count" using Cons.prems(2) by simp
    with False have "length ds = 0" by linarith
    then have "ds = []" "?ds = take count (zs_digits s) @ [d]" using Cons.prems pre by auto
    then show ?thesis
      using Cons.prems False by (simp add: sniffer_step_def panic_free split: option.splits)
  qed
qed

section \<open>The checksum is a polynomial remainder\<close>

text \<open>
  The reference of the checksum: long division of the message, followed by sixteen zero bits, by the
  polynomial \<open>x^16 + x^12 + x^5 + 1\<close> over the bits, one bit after the other.
\<close>

definition divide_bit :: "bool \<Rightarrow> 16 word \<Rightarrow> 16 word" where
  "divide_bit b r = push_bit 1 r XOR of_bool b XOR (if bit r 15 then 0x1021 else 0)"

definition byte_bits :: "byte \<Rightarrow> bool list" where
  "byte_bits b = map (bit b) (rev [0..<8])"

definition crc_remainder :: "byte list \<Rightarrow> 16 word" where
  "crc_remainder bytes = fold divide_bit (concat (map byte_bits bytes) @ replicate 16 False) 0"

lemma crc16_bit_divides: "crc16_bit = divide_bit False"
proof
  fix r :: "16 word"
  have "r AND 0x8000 = 0 \<longleftrightarrow> \<not> bit r 15"
    using and_exp_eq_0_iff_not_bit [of r 15] by simp
  then show "crc16_bit r = divide_bit False r" by (simp add: crc16_bit_def divide_bit_def)
qed

lemma divide_bit_linear: "divide_bit (b = (\<not> c)) (x XOR y) = divide_bit b x XOR divide_bit c y"
proof -
  have "of_bool (b = (\<not> c)) = (of_bool b XOR of_bool c :: 16 word)" by (cases b; cases c) simp_all
  moreover have "(if bit (x XOR y) 15 then 0x1021 else 0) = (if bit x 15 then 0x1021 else 0) XOR (if bit y 15 then 0x1021 else (0 :: 16 word))"
    by (simp add: bit_xor_iff)
  ultimately show ?thesis
    unfolding divide_bit_def push_bit_xor by (simp only: ac_simps)
qed

lemma divide_bits_linear:
  "length bs = length cs \<Longrightarrow> fold divide_bit (map2 (\<lambda>b c. b = (\<not> c)) bs cs) (x XOR y) = fold divide_bit bs x XOR fold divide_bit cs y"
  by (induction bs cs arbitrary: x y rule: list_induct2) (simp_all add: divide_bit_linear)

abbreviation shift_zeros :: "nat \<Rightarrow> 16 word \<Rightarrow> 16 word" where
  "shift_zeros n \<equiv> divide_bit False ^^ n"

lemma shift_zeros_linear: "shift_zeros n (x XOR y) = shift_zeros n x XOR shift_zeros n y"
  using divide_bit_linear [of False False] by (induction n) simp_all

lemma shift_zeros_add: "shift_zeros n (shift_zeros m x) = shift_zeros (n + m) x"
  by (simp add: funpow_add)

lemma feed_byte: "fold divide_bit (byte_bits b) r = shift_zeros 8 r XOR fold divide_bit (byte_bits b) 0"
proof -
  have len: "length (byte_bits b) = 8" by (simp add: byte_bits_def)
  have "map2 (\<lambda>b c. b = (\<not> c)) (replicate (length bs) False) bs = bs" for bs by (induction bs) simp_all
  from this [of "byte_bits b"] have "map2 (\<lambda>b c. b = (\<not> c)) (replicate 8 False) (byte_bits b) = byte_bits b"
    unfolding len .
  with divide_bits_linear [of "replicate 8 False" "byte_bits b" r 0]
  show ?thesis by (simp only: fold_replicate length_replicate len xor.right_neutral)
qed

text \<open>As long as it is not full, the register holds the bits shifted in.\<close>

lemma register_bits:
  "length bs \<le> 16 \<Longrightarrow> bit (fold divide_bit bs 0) i \<longleftrightarrow> i < length bs \<and> bs ! (length bs - 1 - i)"
proof (induction bs arbitrary: i rule: rev_induct)
  case (snoc b bs)
  let ?r = "fold divide_bit bs 0"
  have "\<not> bit ?r 15" using snoc by simp
  then have step: "fold divide_bit (bs @ [b]) 0 = push_bit 1 ?r XOR of_bool b" by (simp add: divide_bit_def)
  have r: "bit ?r j \<longleftrightarrow> j < length bs \<and> bs ! (length bs - 1 - j)" for j using snoc by simp
  show ?case
  proof (cases i)
    case 0
    have "bit (push_bit 1 ?r XOR of_bool b) 0 \<longleftrightarrow> b"
      by (simp only: bit_xor_iff bit_push_bit_iff bit_of_bool_iff) simp
    then show ?thesis unfolding step 0 by simp
  next
    case (Suc j)
    have "bit (fold divide_bit (bs @ [b]) 0) (Suc j) \<longleftrightarrow> Suc j < 16 \<and> bit ?r j"
      unfolding step by (simp only: bit_xor_iff bit_push_bit_iff bit_of_bool_iff) auto
    moreover have "Suc j < 16 \<and> j < length bs \<longleftrightarrow> Suc j < length (bs @ [b])" using snoc.prems by auto
    moreover have "j < length bs \<Longrightarrow> (bs @ [b]) ! (length (bs @ [b]) - 1 - Suc j) = bs ! (length bs - 1 - j)"
      by (auto simp: nth_append)
    ultimately show ?thesis unfolding Suc r [of j] by auto
  qed
qed simp

lemma nth_byte_bits: "i < 8 \<Longrightarrow> byte_bits b ! (7 - i) = bit b i"
  by (simp add: byte_bits_def rev_nth)

lemma one_byte: "fold divide_bit (byte_bits b) 0 = ucast b" "shift_zeros 8 (ucast b) = push_bit 8 (ucast b)"
proof -
  have len: "length (byte_bits b) = 8" by (simp add: byte_bits_def)
  show first: "fold divide_bit (byte_bits b) 0 = ucast b"
  proof (rule bit_word_eqI)
    fix i assume "i < LENGTH(16)"
    show "bit (fold divide_bit (byte_bits b) 0) i = bit (ucast b :: 16 word) i"
      using register_bits [of "byte_bits b" i] len nth_byte_bits [of i b] bit_imp_le_length [of b i]
      by (auto simp: bit_ucast_iff)
  qed
  have "shift_zeros 8 (ucast b) = fold divide_bit (byte_bits b @ replicate 8 False) 0"
    by (simp add: fold_replicate first)
  also have "\<dots> = push_bit 8 (ucast b)"
  proof (rule bit_word_eqI)
    fix i assume i: "i < LENGTH(16)"
    have "bit (fold divide_bit (byte_bits b @ replicate 8 False) 0) i \<longleftrightarrow> (byte_bits b @ replicate 8 False) ! (15 - i)"
      using register_bits [of "byte_bits b @ replicate 8 False" i] len i by simp
    also have "\<dots> \<longleftrightarrow> 8 \<le> i \<and> bit b (i - 8)"
    proof (cases "8 \<le> i")
      case True
      then have "7 - (i - 8) = 15 - i" using i by simp
      with nth_byte_bits [of "i - 8" b] True i have "byte_bits b ! (15 - i) = bit b (i - 8)" by simp
      moreover have "15 - i < length (byte_bits b)" using True len by simp
      ultimately show ?thesis using True by (simp only: nth_append if_True simp_thms)
    next
      case False
      then have "\<not> 15 - i < 8" "15 - i - 8 < 8" using i by auto
      then show ?thesis using False by (simp only: nth_append len if_False nth_replicate simp_thms)
    qed
    finally show "bit (fold divide_bit (byte_bits b @ replicate 8 False) 0) i = bit (push_bit 8 (ucast b :: 16 word)) i"
      using i bit_imp_le_length [of b "i - 8"] by (auto simp: bit_push_bit_iff bit_ucast_iff)
  qed
  finally show "shift_zeros 8 (ucast b) = push_bit 8 (ucast b)" .
qed

lemma crc16_remainder: "crc16 bytes = crc_remainder bytes"
proof (induction bytes rule: rev_induct)
  case Nil
  then show ?case by code_simp
next
  case (snoc b bytes)
  let ?r = "fold divide_bit (concat (map byte_bits bytes)) 0"
  have "crc_remainder (bytes @ [b]) = shift_zeros 16 (shift_zeros 8 ?r XOR ucast b)"
    by (simp only: crc_remainder_def fold_append fold_replicate comp_apply map_append concat_append list.map concat.simps append_Nil2 feed_byte [of b ?r] one_byte)
  also have "\<dots> = shift_zeros 8 (shift_zeros 16 ?r) XOR shift_zeros 8 (shift_zeros 8 (ucast b))"
    by (simp only: shift_zeros_linear shift_zeros_add) simp
  also have "\<dots> = shift_zeros 8 (crc_remainder bytes XOR push_bit 8 (ucast b))"
    by (simp only: shift_zeros_linear one_byte crc_remainder_def fold_append fold_replicate comp_apply)
  finally show ?case using snoc by (simp only: crc16_def crc16_byte_def crc16_bit_divides fold_append fold.simps comp_apply id_apply)
qed

section \<open>The digits of a header\<close>

definition hex_chars :: "byte \<Rightarrow> byte set" where
  "hex_chars n = (if n < 10 then {48 + n} else {87 + n, 55 + n})"

text \<open>Two digits per byte, the upper half first, in small or capital letters.\<close>

definition hex_encodes :: "byte list \<Rightarrow> byte list \<Rightarrow> bool" where
  "hex_encodes bytes ds \<longleftrightarrow> list_all2 (\<lambda>n d. d \<in> hex_chars n) (concat (map (\<lambda>b. [drop_bit 4 b, b AND 15]) bytes)) ds"

lemma hex_value_chars:
  assumes "n < 16" "d \<in> hex_chars n"
  shows "hex_value d = Some n" "is_ascii_hexdigit d"
proof -
  have "unat n < 16" "n = word_of_nat (unat n)" using assms(1) by (simp_all add: word_less_nat_alt)
  then have "n \<in> set (map word_of_nat [0..<16])" by (metis atLeastLessThan_iff imageI set_map set_upt zero_le)
  moreover have "\<forall>n \<in> set (map word_of_nat [0..<16]). \<forall>d \<in> hex_chars n. hex_value d = Some n \<and> is_ascii_hexdigit d" by code_simp
  ultimately show "hex_value d = Some n" "is_ascii_hexdigit d" using assms(2) by blast+
qed

lemma nibbles: "drop_bit 4 b < 16" "b AND 15 < 16" "push_bit 4 (drop_bit 4 b) OR (b AND 15) = (b :: byte)"
proof -
  have "unat b < 256" using unsigned_less [of b] by simp
  then have "unat b div 2 ^ 4 < 16" by simp
  moreover have "unat (drop_bit 4 b) = unat b div 2 ^ 4" by (simp add: unat_drop_bit_eq drop_bit_eq_div unat_div)
  ultimately have "unat (drop_bit 4 b) < unat (16 :: byte)" by simp
  then show "drop_bit 4 b < 16" unfolding word_less_nat_alt .
  have "b AND 15 \<le> 15" by (rule word_and_le1)
  then show "b AND 15 < 16" by (simp add: word_le_nat_alt word_less_nat_alt)
  have "b AND 15 = take_bit 4 b" using take_bit_eq_mask [of 4 b] by (simp add: mask_eq_exp_minus_1)
  then show "push_bit 4 (drop_bit 4 b) OR (b AND 15) = b"
    by (intro bit_word_eqI) (auto simp: bit_simps)
qed

lemma decode_encoded:
  "hex_encodes bytes ds \<Longrightarrow> decode_pairs ds = Some bytes \<and> (\<forall>d \<in> set ds. is_ascii_hexdigit d) \<and> length ds = 2 * length bytes"
proof (induction bytes arbitrary: ds)
  case (Cons b bytes)
  then obtain hi lo rest where ds: "ds = hi # lo # rest" "hi \<in> hex_chars (drop_bit 4 b)" "lo \<in> hex_chars (b AND 15)" "hex_encodes bytes rest"
    by (auto simp: hex_encodes_def list_all2_Cons1)
  then show ?case
    using Cons.IH [OF ds(4)] hex_value_chars [OF nibbles(1) ds(2)] hex_value_chars [OF nibbles(2) ds(3)] nibbles(3) [of b] by simp
qed (simp add: hex_encodes_def)
lemma join_bytes:
  "(r :: 16 word) = push_bit 8 (ucast c0) OR ucast c1 \<longleftrightarrow> c0 = (ucast (drop_bit 8 r) :: byte) \<and> c1 = (ucast r :: byte)"
proof
  assume r: "r = push_bit 8 (ucast c0) OR ucast c1"
  have "bit (ucast (drop_bit 8 r) :: byte) i = bit c0 i" "bit (ucast r :: byte) i = bit c1 i" if "i < 8" for i
    using that bit_imp_le_length [of c1 "8 + i"] unfolding r by (auto simp: bit_simps)
  then show "c0 = ucast (drop_bit 8 r) \<and> c1 = ucast r" by (auto intro!: bit_word_eqI)
next
  assume c: "c0 = ucast (drop_bit 8 r) \<and> c1 = ucast r"
  show "r = push_bit 8 (ucast c0) OR ucast c1"
  proof (rule bit_word_eqI)
    fix i assume "i < LENGTH(16)"
    then show "bit r i = bit (push_bit 8 (ucast c0) OR ucast c1 :: 16 word) i"
      using c by (cases "i < 8") (auto simp: bit_simps)
  qed
qed

lemma zmodem_header_encoded:
  assumes frame: "length frame = 5" and ds: "hex_encodes (frame @ [c0, c1]) ds"
  shows "zmodem_header ds =
    (if c0 = ucast (drop_bit 8 (crc_remainder frame)) \<and> c1 = ucast (crc_remainder frame)
     then (if hd frame = 0 then Some Download else if hd frame = 1 then Some Upload else None)
     else None)"
proof -
  have "frame \<noteq> []" using frame by auto
  then have "(frame @ [c0, c1]) ! 0 = hd frame" by (cases frame) simp_all
  moreover have "take 5 (frame @ [c0, c1]) = frame" "drop 5 (frame @ [c0, c1]) = [c0, c1]" using frame by simp_all
  ultimately show ?thesis
    using decode_encoded [OF ds] frame \<open>frame \<noteq> []\<close>
    by (simp add: zmodem_header_def Let_def crc16_remainder join_bytes hd_conv_nth)
qed

section \<open>Properties\<close>

text \<open>
  C36: the sniffer never indexes past its digit buffer, skipping ahead to the next pad in
  blocks of sixteen bytes is equivalent to running every byte through the state machine, and
  splitting the output into chunks at any place changes neither the final state nor the last
  offer found.
\<close>

theorem sniffer_feed_chunks:
  assumes ok: "sniffer_ok s"
  shows "sniffer_feed bs s = step_all bs None s \<and>
    (\<exists>a s1 b s2. sniffer_feed xs s = Some (a, s1) \<and> sniffer_ok s1 \<and>
       sniffer_feed ys s1 = Some (b, s2) \<and> sniffer_ok s2 \<and>
       sniffer_feed (xs @ ys) s = Some (case b of None \<Rightarrow> a | Some _ \<Rightarrow> b, s2))"
proof -
  obtain a s1 where a: "step_all xs None s = Some (a, s1)" "sniffer_ok s1"
    using step_all_ok [OF ok] by blast
  obtain b s2 where b: "step_all ys None s1 = Some (b, s2)" "sniffer_ok s2"
    using step_all_ok [OF a(2)] by blast
  have "step_all (xs @ ys) None s = Some (case b of None \<Rightarrow> a | Some _ \<Rightarrow> b, s2)"
    using a b step_all_offer [of ys a s1] by (simp add: step_all_append)
  then show ?thesis using a b by (simp add: sniffer_feed_def feed_loop_step_all)
qed

lemma default_sniffer_ok: "sniffer_ok default_sniffer"
  by (simp add: sniffer_ok_def default_sniffer_def)

theorem sniffer_feed_chunks_witness:
  "\<exists>a s1. sniffer_feed [ZPAD, ZPAD] default_sniffer = Some (a, s1) \<and> sniffer_ok s1"
  using sniffer_feed_chunks [OF default_sniffer_ok, where xs = "[ZPAD, ZPAD]" and ys = "[]"] by blast

text \<open>The digits \<open>0100000023be50\<close> that \<open>rz\<close> prints.\<close>

definition rz_digits :: "byte list" where
  "rz_digits = [48, 49, 48, 48, 48, 48, 48, 48, 50, 51, 98, 101, 53, 48]"

text \<open>
  C37: whatever was seen before, a hex header, with or without the escape byte after the two pads,
  is decided by its fourteen digits, which encode five bytes and two check bytes: it is an offer
  exactly if the check bytes are the remainder of the five bytes divided by the polynomial, a
  download when the first byte is 0 and an upload when it is 1. The sniffer is idle again.
\<close>

theorem sniffer_recognises_headers:
  assumes ok: "sniffer_ok s" and frame: "length frame = 5" and ds: "hex_encodes (frame @ [c0, c1]) ds"
    and pre: "pre = [ZPAD, ZPAD, ZDLE, ZHEX] \<or> pre = [ZPAD, ZPAD, ZHEX]"
  shows "sniffer_feed (pre @ ds) s =
    Some (if c0 = ucast (drop_bit 8 (crc_remainder frame)) \<and> c1 = ucast (crc_remainder frame)
          then (if hd frame = 0 then Some Download else if hd frame = 1 then Some Upload else None)
          else None,
          \<lparr>zs_state = Z_Idle, zs_digits = ds\<rparr>)"
proof -
  have digits: "\<forall>d \<in> set ds. is_ascii_hexdigit d" "length ds = HEX_DIGITS"
    using decode_encoded [OF ds] frame by auto
  have "\<not> is_ascii_hexdigit ZPAD" by (simp add: is_ascii_hexdigit_def)
  then have "step_all pre None s = Some (None, s\<lparr>zs_state := Z_Hex 0\<rparr>)"
    using pre by (cases "zs_state s") (auto simp: sniffer_step_def)
  moreover have "step_all ds None (s\<lparr>zs_state := Z_Hex 0\<rparr>) =
      Some (zmodem_header ds, \<lparr>zs_state = Z_Idle, zs_digits = ds\<rparr>)"
    using hex_run [OF digits(1), of 0 "s\<lparr>zs_state := Z_Hex 0\<rparr>"] digits(2) ok by (simp add: sniffer_ok_def)
  ultimately show ?thesis
    by (simp add: sniffer_feed_def feed_loop_step_all step_all_append zmodem_header_encoded [OF frame ds])
qed

theorem sniffer_recognises_headers_witness:
  "map_option fst (sniffer_feed ([ZPAD, ZPAD, ZDLE, ZHEX] @ rz_digits) default_sniffer) = Some (Some Upload)"
proof -
  have "hex_encodes ([1, 0, 0, 0, 0x23] @ [0xbe, 0x50]) rz_digits" by code_simp
  moreover have "crc_remainder [1, 0, 0, 0, 0x23] = 0xbe50" by code_simp
  ultimately show ?thesis
    using sniffer_recognises_headers [OF default_sniffer_ok, of "[1, 0, 0, 0, 0x23]" "0xbe" "0x50" rz_digits "[ZPAD, ZPAD, ZDLE, ZHEX]"]
    by simp
qed

end
