(* ===== verification/Index.thy ===== *)
theory Index
  imports Prelude
begin

text \<open>
  Lines, columns and points (\<open>nebula_terminal/src/index.rs\<close>), the \<open>Dimensions\<close>
  interface the point arithmetic is written against (\<open>grid/mod.rs\<close>), and the
  conversions between grid and viewport coordinates (\<open>term/mod.rs\<close>).

  The lemmas show that adding and subtracting columns is arithmetic on row-major cell
  numbers, saturating at the grid's corners under \<open>Boundary::Grid\<close> and
  \<open>Boundary::Cursor\<close> and wrapping around under \<open>Boundary::None\<close>.
\<close>

section \<open>Data\<close>

datatype direction = Left | Right

fun opposite :: "direction \<Rightarrow> direction" where
  "opposite Right = Left"
| "opposite Left = Right"

datatype boundary = Boundary_Cursor | Boundary_Grid | Boundary_None

datatype point = Point (line: int) (column: nat)

text \<open>\<open>impl Ord for Point\<close>: lines first, then columns.\<close>

definition point_le :: "point \<Rightarrow> point \<Rightarrow> bool" where
  "point_le p q \<longleftrightarrow> line p < line q \<or> line p = line q \<and> column p \<le> column q"

definition point_less :: "point \<Rightarrow> point \<Rightarrow> bool" where
  "point_less p q \<longleftrightarrow> line p < line q \<or> line p = line q \<and> column p < column q"

instantiation point :: linorder
begin

definition less_eq_point :: "point \<Rightarrow> point \<Rightarrow> bool" where
  "less_eq_point = point_le"

definition less_point :: "point \<Rightarrow> point \<Rightarrow> bool" where
  "less_point = point_less"

instance
  by standard (auto simp: less_eq_point_def less_point_def point_le_def point_less_def intro: point.expand)

end

lemma less_eq_point_iff: "p \<le> q \<longleftrightarrow> line p < line q \<or> line p = line q \<and> column p \<le> column (q :: point)"
  by (simp add: less_eq_point_def point_le_def)

lemma less_point_iff: "p < q \<longleftrightarrow> line p < line q \<or> line p = line q \<and> column p < column (q :: point)"
  by (simp add: less_point_def point_less_def)

lemmas point_ord_defs = less_eq_point_iff less_point_iff

text \<open>The required methods of the trait \<open>Dimensions\<close>, and its provided ones.\<close>

record dims =
  total_lines :: nat
  screen_lines :: nat
  columns :: nat

definition last_column :: "dims \<Rightarrow> nat option" where
  "last_column d = usize_sub (columns d) 1"

definition history_size :: "dims \<Rightarrow> nat" where
  "history_size d = total_lines d - screen_lines d"

definition topmost_line :: "dims \<Rightarrow> int" where
  "topmost_line d = - int (history_size d)"

definition bottommost_line :: "dims \<Rightarrow> int" where
  "bottommost_line d = int (screen_lines d) - 1"

section \<open>Operations\<close>

fun line_grid_clamp :: "dims \<Rightarrow> boundary \<Rightarrow> int \<Rightarrow> int option" where
  "line_grid_clamp d Boundary_Cursor l = Some (max 0 (min (bottommost_line d) l))"
| "line_grid_clamp d Boundary_Grid l =
     Some (max (topmost_line d) (min (bottommost_line d) l))"
| "line_grid_clamp d Boundary_None l =
     (let screen = int (screen_lines d); total = int (total_lines d)
      in if l \<ge> screen
         then do {
           extra \<leftarrow> rem_i32 (l - screen) total;
           Some (topmost_line d + extra)
         }
         else do {
           extra \<leftarrow> rem_i32 (l - screen + 1) total;
           Some (bottommost_line d + extra)
         })"

definition point_grid_clamp :: "dims \<Rightarrow> boundary \<Rightarrow> point \<Rightarrow> point option" where
  "point_grid_clamp d b p =
     do {
       last \<leftarrow> last_column d;
       let p = Point (line p) (min (column p) last);
       if b = Boundary_Cursor \<and> line p < 0 then Some (Point 0 0)
       else if b = Boundary_Grid \<and> line p < topmost_line d then Some (Point (topmost_line d) 0)
       else if b \<noteq> Boundary_None \<and> line p > bottommost_line d
       then Some (Point (bottommost_line d) last)
       else if b = Boundary_None
       then do {
         l \<leftarrow> line_grid_clamp d b (line p);
         Some (Point l (column p))
       }
       else Some p
     }"

definition point_sub :: "dims \<Rightarrow> boundary \<Rightarrow> nat \<Rightarrow> point \<Rightarrow> point option" where
  "point_sub d b rhs p =
     (let cols = columns d
      in if cols = 0 then None
         else let line_changes = ((rhs + cols - 1) - column p) div cols;
                  l = line p - int line_changes;
                  c = (cols + column p - rhs mod cols) mod cols
              in point_grid_clamp d b (Point l c))"

definition point_add :: "dims \<Rightarrow> boundary \<Rightarrow> nat \<Rightarrow> point \<Rightarrow> point option" where
  "point_add d b rhs p =
     (let cols = columns d
      in if cols = 0 then None
         else let l = line p + int ((rhs + column p) div cols);
                  c = (column p + rhs) mod cols
              in point_grid_clamp d b (Point l c))"

text \<open>Viewport coordinates: a point whose line counts from the top displayed row.\<close>

datatype viewport_point = Viewport_Point (vline: nat) (vcolumn: nat)

definition point_to_viewport_from :: "int \<Rightarrow> point \<Rightarrow> viewport_point option" where
  "point_to_viewport_from origin p =
     (let viewport_line = line p - origin
      in if viewport_line \<ge> 0 then Some (Viewport_Point (nat viewport_line) (column p)) else None)"

definition point_to_viewport :: "nat \<Rightarrow> point \<Rightarrow> viewport_point option" where
  "point_to_viewport display_offset p = point_to_viewport_from (- int display_offset) p"

definition viewport_to_point_from :: "int \<Rightarrow> viewport_point \<Rightarrow> point" where
  "viewport_to_point_from origin v = Point (origin + int (vline v)) (vcolumn v)"

definition viewport_to_point :: "nat \<Rightarrow> viewport_point \<Rightarrow> point" where
  "viewport_to_point display_offset v = viewport_to_point_from (- int display_offset) v"

section \<open>Well-formed dimensions and points of the grid\<close>

text \<open>What every implementor of \<open>Dimensions\<close> provides: a non-empty screen inside its buffer.\<close>

definition dims_ok :: "dims \<Rightarrow> bool" where
  "dims_ok d \<longleftrightarrow> 1 \<le> columns d \<and> 1 \<le> screen_lines d \<and> screen_lines d \<le> total_lines d"

definition in_grid :: "dims \<Rightarrow> point \<Rightarrow> bool" where
  "in_grid d p \<longleftrightarrow>
     topmost_line d \<le> line p \<and> line p \<le> bottommost_line d \<and> column p < columns d"

definition in_screen :: "dims \<Rightarrow> point \<Rightarrow> bool" where
  "in_screen d p \<longleftrightarrow> 0 \<le> line p \<and> line p \<le> bottommost_line d \<and> column p < columns d"

text \<open>Row-major number of a cell, 0 for the first cell of line 0.\<close>

definition cell_number :: "dims \<Rightarrow> point \<Rightarrow> int" where
  "cell_number d p = line p * int (columns d) + int (column p)"

definition first_number :: "dims \<Rightarrow> int" where
  "first_number d = topmost_line d * int (columns d)"

definition final_number :: "dims \<Rightarrow> int" where
  "final_number d = int (screen_lines d) * int (columns d) - 1"

lemmas line_defs = topmost_line_def bottommost_line_def history_size_def

section \<open>Point arithmetic is arithmetic on cell numbers\<close>

lemma cell_number_less_iff:
  assumes "column p < columns d" and "column q < columns d"
  shows "cell_number d p < cell_number d q \<longleftrightarrow> p < q"
proof -
  have *: "cell_number d p < cell_number d q"
    if "line p < line q" "column p < columns d" for p q
  proof -
    have "cell_number d p < (line p + 1) * int (columns d)"
      using that by (simp add: cell_number_def algebra_simps)
    also have "\<dots> \<le> line q * int (columns d)"
      using that by (intro mult_right_mono) auto
    also have "\<dots> \<le> cell_number d q" by (simp add: cell_number_def)
    finally show ?thesis .
  qed
  consider "line p < line q" | "line p = line q" | "line q < line p" by linarith
  then show ?thesis
  proof cases
    case 1
    then show ?thesis using * [of p q] assms by (simp add: less_point_iff)
  next
    case 2
    then show ?thesis by (simp add: less_point_iff cell_number_def)
  next
    case 3
    then show ?thesis using * [of q p] assms by (auto simp: less_point_iff)
  qed
qed

lemma cell_number_shift_down:
  assumes "0 < columns d"
  shows "cell_number d (Point (line p + int ((n + column p) div columns d))
           ((column p + n) mod columns d)) = cell_number d p + int n"
proof -
  have "int ((n + column p) div columns d) * int (columns d)
      + int ((column p + n) mod columns d) = int (column p + n)"
    using div_mult_mod_eq [of "column p + n" "columns d"]
    by (metis add.commute of_nat_add of_nat_mult)
  then show ?thesis by (simp add: cell_number_def algebra_simps)
qed

lemma cell_number_shift_up:
  assumes "column p < columns d"
  shows "cell_number d (Point (line p - int (((n + columns d - 1) - column p) div columns d))
           ((columns d + column p - n mod columns d) mod columns d)) = cell_number d p - int n"
proof -
  define w where "w = columns d"
  define c where "c = column p"
  define q where "q = n div w"
  define r where "r = n mod w"
  have c: "c < w" using assms by (simp add: c_def w_def)
  have n: "n = q * w + r" by (simp add: q_def r_def)
  have r: "r < w" using c by (simp add: r_def)
  have D: "(a + k * w) div w = k" if "a < w" for a k using that by simp
  have "int (((n + w - 1) - c) div w) * int w = int ((w + c - r) mod w) + int n - int c"
  proof (cases "r \<le> c")
    case True
    have "(n + w - 1) - c = (w - 1 - (c - r)) + q * w" using n c r True by simp
    then have "((n + w - 1) - c) div w = q"
      using D [of "w - 1 - (c - r)" q] c by (simp only:)
    moreover have "(w + c - r) mod w = c - r"
      using True c by (metis Nat.add_diff_assoc less_imp_diff_less mod_add_self1 mod_less)
    ultimately show ?thesis using True n by simp
  next
    case False
    have "(n + w - 1) - c = (r - 1 - c) + Suc q * w" using n c r False by simp
    then have "((n + w - 1) - c) div w = Suc q"
      using D [of "r - 1 - c" "Suc q"] r by (simp only:)
    moreover have "(w + c - r) mod w = w + c - r" using False r by simp
    ultimately show ?thesis using False n r by (simp add: algebra_simps)
  qed
  then show ?thesis
    by (simp add: cell_number_def w_def [symmetric] c_def [symmetric] r_def [symmetric]
        algebra_simps)
qed

text \<open>A point is determined by its number.\<close>
lemma cell_number_inject:
  assumes "column p < columns d" "column q < columns d" "cell_number d p = cell_number d q"
  shows "p = q"
  using assms cell_number_less_iff [of p d q] cell_number_less_iff [of q d p]
  by (metis less_irrefl linorder_cases)

lemma line_number_bounds:
  assumes "column p < columns d"
  shows "line p < k \<longleftrightarrow> cell_number d p < k * int (columns d)"
proof -
  have "line p < k \<longleftrightarrow> p < Point k 0" by (auto simp: less_point_iff)
  also have "\<dots> \<longleftrightarrow> cell_number d p < cell_number d (Point k 0)"
    using assms by (subst cell_number_less_iff) auto
  finally show ?thesis by (simp add: cell_number_def)
qed

lemma in_grid_iff_number:
  assumes "column p < columns d"
  shows "in_grid d p \<longleftrightarrow> first_number d \<le> cell_number d p \<and> cell_number d p \<le> final_number d"
  using line_number_bounds [OF assms, of "topmost_line d"]
    line_number_bounds [OF assms, of "int (screen_lines d)"] assms
  by (auto simp: in_grid_def first_number_def final_number_def bottommost_line_def)

lemma first_le_final:
  assumes "dims_ok d"
  shows "first_number d \<le> final_number d"
proof -
  have "topmost_line d * int (columns d) \<le> 0" by (simp add: line_defs mult_nonpos_nonneg)
  moreover have "1 \<le> screen_lines d * columns d" using assms by (simp add: dims_ok_def)
  then have "1 \<le> int (screen_lines d) * int (columns d)" by (metis of_nat_1 of_nat_le_iff of_nat_mult)
  ultimately show ?thesis by (simp add: first_number_def final_number_def)
qed

text \<open>
  The saturating boundaries, seen on cell numbers: the clamp is the nearest number between
  the first cell of the boundary's top line and the last cell of the screen.
\<close>

definition lower_line :: "dims \<Rightarrow> boundary \<Rightarrow> int" where
  "lower_line d b = (if b = Boundary_Cursor then 0 else topmost_line d)"

definition within :: "dims \<Rightarrow> boundary \<Rightarrow> point \<Rightarrow> bool" where
  "within d b p \<longleftrightarrow>
     lower_line d b \<le> line p \<and> line p \<le> bottommost_line d \<and> column p < columns d"

lemma lower_le_final:
  assumes "dims_ok d"
  shows "lower_line d b * int (columns d) \<le> final_number d"
proof -
  have "lower_line d b * int (columns d) \<le> 0"
    by (simp add: line_defs lower_line_def mult_nonpos_nonneg)
  moreover have "1 \<le> screen_lines d * columns d" using assms by (simp add: dims_ok_def)
  then have "1 \<le> int (screen_lines d) * int (columns d)"
    by (metis of_nat_1 of_nat_le_iff of_nat_mult)
  ultimately show ?thesis by (simp add: final_number_def)
qed

lemma last_column_Some [panic_free]: "dims_ok d \<Longrightarrow> last_column d = Some (columns d - 1)"
  by (simp add: last_column_def dims_ok_def panic_free)

lemma point_grid_clamp_saturates:
  assumes "dims_ok d" "column p < columns d" "b \<noteq> Boundary_None"
  shows "\<exists>q. point_grid_clamp d b p = Some q \<and> within d b q \<and>
     cell_number d q =
       max (lower_line d b * int (columns d)) (min (cell_number d p) (final_number d))"
proof -
  note number = line_number_bounds [OF assms(2)]
  note simps = point_grid_clamp_def panic_free assms(1,3) min_absorb1 [of "column p" "columns d - 1"]
  have c: "column p \<le> columns d - 1" using assms(2) by simp
  consider "line p < lower_line d b" | "line p > bottommost_line d" "lower_line d b \<le> line p"
    | "within d b p"
    using assms(2) unfolding within_def by linarith
  then show ?thesis
  proof cases
    case 1
    have "point_grid_clamp d b p = Some (Point (lower_line d b) 0)"
      using 1 assms(3) c by (cases b) (auto simp: simps lower_line_def)
    moreover have "within d b (Point (lower_line d b) 0)"
      using assms by (auto simp: within_def dims_ok_def lower_line_def line_defs)
    moreover have "cell_number d p < lower_line d b * int (columns d)" using 1 number by simp
    ultimately show ?thesis using lower_le_final [OF assms(1), of b]
      by (auto simp: cell_number_def)
  next
    case 2
    let ?q = "Point (bottommost_line d) (columns d - 1)"
    have "point_grid_clamp d b p = Some ?q"
      using 2 assms(3) c by (cases b) (auto simp: simps lower_line_def)
    moreover have "within d b ?q"
      using assms by (auto simp: within_def dims_ok_def lower_line_def line_defs)
    moreover have "final_number d < cell_number d p"
      using 2 number [of "int (screen_lines d)"] by (simp add: final_number_def bottommost_line_def)
    moreover have "cell_number d ?q = final_number d" using assms
      by (simp add: cell_number_def final_number_def bottommost_line_def dims_ok_def algebra_simps)
    ultimately show ?thesis using lower_le_final [OF assms(1), of b] by auto
  next
    case 3
    then have "point_grid_clamp d b p = Some p"
      using assms(3) c by (cases b) (auto simp: simps within_def lower_line_def)
    moreover have "lower_line d b * int (columns d) \<le> cell_number d p"
      using 3 number [of "lower_line d b"] by (auto simp: within_def)
    moreover have "cell_number d p \<le> final_number d"
      using 3 number [of "int (screen_lines d)"]
      by (auto simp: within_def final_number_def bottommost_line_def)
    ultimately show ?thesis using 3 by auto
  qed
qed

text \<open>\<open>Boundary::None\<close> wraps lines around the whole buffer.\<close>

lemma line_grid_clamp_wraps:
  assumes "dims_ok d"
  shows "line_grid_clamp d Boundary_None l =
    Some (topmost_line d + (l - topmost_line d) mod int (total_lines d))"
proof -
  let ?t = "int (total_lines d)"
  have t: "0 < ?t" and top: "topmost_line d = int (screen_lines d) - ?t"
    using assms by (auto simp: dims_ok_def line_defs)
  show ?thesis
  proof (cases "l \<ge> int (screen_lines d)")
    case True
    have "l - topmost_line d = (l - int (screen_lines d)) + ?t" by (simp add: top)
    then have "(l - topmost_line d) mod ?t = (l - int (screen_lines d)) mod ?t"
      by (metis mod_add_self2)
    then show ?thesis using True t by (simp add: rem_i32_def smod_nonneg)
  next
    case False
    let ?x = "int (screen_lines d) - 1 - l"
    have "l - topmost_line d = ?t - 1 - ?x" by (simp add: top)
    then have "(l - topmost_line d) mod ?t = (?t - 1 - ?x mod ?t) mod ?t"
      by (simp only: mod_diff_right_eq)
    moreover have "0 \<le> ?x mod ?t" "?x mod ?t < ?t" using t by simp_all
    then have "(?t - 1 - ?x mod ?t) mod ?t = ?t - 1 - ?x mod ?t"
      by (intro mod_pos_pos_trivial) auto
    ultimately have "(l - topmost_line d) mod ?t = ?t - 1 - ?x mod ?t" by (simp only:)
    then have "topmost_line d + (l - topmost_line d) mod ?t = bottommost_line d - ?x mod ?t"
      by (simp add: bottommost_line_def top)
    moreover have "(l - int (screen_lines d) + 1) smod ?t = - (?x mod ?t)"
      using False t smod_nonpos [of "l - int (screen_lines d) + 1" ?t] by (simp add: algebra_simps)
    ultimately show ?thesis using False t by (simp add: rem_i32_def Let_def)
  qed
qed

lemma point_grid_clamp_wraps:
  assumes "dims_ok d" "column p < columns d"
  shows "point_grid_clamp d Boundary_None p =
    Some (Point (topmost_line d + (line p - topmost_line d) mod int (total_lines d)) (column p))"
proof -
  have "min (column p) (columns d - 1) = column p" using assms(2) by simp
  then show ?thesis
    using line_grid_clamp_wraps [OF assms(1)]
    by (simp add: point_grid_clamp_def panic_free assms(1) del: line_grid_clamp.simps)
qed

lemma scaled_mod:
  fixes x t w c :: int
  assumes "0 < t" "0 \<le> c" "c < w"
  shows "(x mod t) * w + c = (x * w + c) mod (t * w)"
proof -
  have "x * w + c = (x mod t) * w + c + (x div t) * (t * w)"
    using div_mult_mod_eq [of x t] by (metis (no_types, opaque_lifting) add.assoc add.commute
        distrib_right mult.assoc)
  then have "(x * w + c) mod (t * w) = ((x mod t) * w + c) mod (t * w)"
    by (simp only: mod_mult_self1)
  moreover have "(x mod t) * w + c < t * w"
  proof -
    have "x mod t \<le> t - 1" using assms(1) by (simp add: zle_diff1_eq)
    then have "(x mod t) * w \<le> (t - 1) * w" using assms by (intro mult_right_mono) auto
    then show ?thesis using assms(3) by (simp add: algebra_simps)
  qed
  moreover have "0 \<le> (x mod t) * w + c" using assms by simp
  ultimately show ?thesis by simp
qed

lemma wrapped_cell_number:
  assumes "dims_ok d" "column p < columns d" "point_grid_clamp d Boundary_None p = Some q"
  shows "in_grid d q \<and> cell_number d q - first_number d =
    (cell_number d p - first_number d) mod (int (total_lines d) * int (columns d))"
proof -
  let ?t = "int (total_lines d)" and ?w = "int (columns d)" and ?x = "line p - topmost_line d"
  have t: "0 < ?t" "topmost_line d = int (screen_lines d) - ?t" "0 \<le> ?x mod ?t" "?x mod ?t < ?t"
    using assms(1) by (auto simp: dims_ok_def line_defs)
  have q: "q = Point (topmost_line d + ?x mod ?t) (column p)"
    using assms(3) point_grid_clamp_wraps [OF assms(1,2)] by simp
  have "in_grid d q" using q t assms(2) by (simp add: in_grid_def bottommost_line_def)
  moreover have "cell_number d q - first_number d = (?x mod ?t) * ?w + int (column p)"
    by (simp add: q cell_number_def first_number_def algebra_simps)
  moreover have "cell_number d p - first_number d = ?x * ?w + int (column p)"
    by (simp add: cell_number_def first_number_def algebra_simps)
  ultimately show ?thesis using scaled_mod [of ?t "int (column p)" ?w ?x] t(1) assms(2) by simp
qed

section \<open>The interface \<open>Dimensions\<close>\<close>

text \<open>
  Clients of the trait see an object only through its dimensions. The locale states what
  they rely on; its lemmas are the point arithmetic on any such object.
\<close>

locale dimensions =
  fixes dims_of :: "'g \<Rightarrow> dims"
    and ok :: "'g \<Rightarrow> bool"
  assumes dims_valid: "ok g \<Longrightarrow> dims_ok (dims_of g)"
begin

lemma columns_pos: "ok g \<Longrightarrow> 0 < columns (dims_of g)"
  using dims_valid [of g] by (simp add: dims_ok_def)

lemma add_saturates:
  assumes "ok g" "column p < columns (dims_of g)" "b \<noteq> Boundary_None"
  shows "\<exists>q. point_add (dims_of g) b n p = Some q \<and> within (dims_of g) b q \<and>
    cell_number (dims_of g) q =
      max (lower_line (dims_of g) b * int (columns (dims_of g)))
        (min (cell_number (dims_of g) p + int n) (final_number (dims_of g)))"
  using point_grid_clamp_saturates [OF dims_valid [OF assms(1)] _ assms(3),
      of "Point (line p + int ((n + column p) div columns (dims_of g)))
            ((column p + n) mod columns (dims_of g))"]
    cell_number_shift_down [OF columns_pos [OF assms(1)], of p n] columns_pos [OF assms(1)]
  by (simp add: point_add_def Let_def)

lemma sub_saturates:
  assumes "ok g" "column p < columns (dims_of g)" "b \<noteq> Boundary_None"
  shows "\<exists>q. point_sub (dims_of g) b n p = Some q \<and> within (dims_of g) b q \<and>
    cell_number (dims_of g) q =
      max (lower_line (dims_of g) b * int (columns (dims_of g)))
        (min (cell_number (dims_of g) p - int n) (final_number (dims_of g)))"
  using point_grid_clamp_saturates [OF dims_valid [OF assms(1)] _ assms(3),
      of "Point (line p - int (((n + columns (dims_of g) - 1) - column p) div columns (dims_of g)))
            ((columns (dims_of g) + column p - n mod columns (dims_of g)) mod columns (dims_of g))"]
    cell_number_shift_up [OF assms(2), of n] columns_pos [OF assms(1)]
  by (simp add: point_sub_def Let_def)

lemma add_wraps:
  assumes "ok g" "column p < columns (dims_of g)"
  shows "\<exists>q. point_add (dims_of g) Boundary_None n p = Some q \<and> in_grid (dims_of g) q \<and>
    cell_number (dims_of g) q - first_number (dims_of g) =
      (cell_number (dims_of g) p + int n - first_number (dims_of g))
        mod (int (total_lines (dims_of g)) * int (columns (dims_of g)))"
proof -
  let ?p = "Point (line p + int ((n + column p) div columns (dims_of g)))
              ((column p + n) mod columns (dims_of g))"
  have c: "column ?p < columns (dims_of g)" using columns_pos [OF assms(1)] by simp
  show ?thesis
    using wrapped_cell_number [OF dims_valid [OF assms(1)] c point_grid_clamp_wraps]
      point_grid_clamp_wraps [OF dims_valid [OF assms(1)] c] dims_valid [OF assms(1)] c
      cell_number_shift_down [OF columns_pos [OF assms(1)], of p n] columns_pos [OF assms(1)]
    by (simp add: point_add_def Let_def)
qed

lemma sub_wraps:
  assumes "ok g" "column p < columns (dims_of g)"
  shows "\<exists>q. point_sub (dims_of g) Boundary_None n p = Some q \<and> in_grid (dims_of g) q \<and>
    cell_number (dims_of g) q - first_number (dims_of g) =
      (cell_number (dims_of g) p - int n - first_number (dims_of g))
        mod (int (total_lines (dims_of g)) * int (columns (dims_of g)))"
proof -
  let ?p = "Point (line p - int (((n + columns (dims_of g) - 1) - column p) div columns (dims_of g)))
      ((columns (dims_of g) + column p - n mod columns (dims_of g)) mod columns (dims_of g))"
  have c: "column ?p < columns (dims_of g)" using columns_pos [OF assms(1)] by simp
  show ?thesis
    using wrapped_cell_number [OF dims_valid [OF assms(1)] c point_grid_clamp_wraps]
      point_grid_clamp_wraps [OF dims_valid [OF assms(1)] c] dims_valid [OF assms(1)] c
      cell_number_shift_up [OF assms(2), of n] columns_pos [OF assms(1)]
    by (simp add: point_sub_def Let_def)
qed

end

interpretation raw_dims: dimensions "\<lambda>d. d" dims_ok
  by unfold_locales

section \<open>Properties\<close>

text \<open>
  Moving a point by \<open>n\<close> columns under \<open>Boundary::Cursor\<close> or \<open>Boundary::Grid\<close> never
  panics on a non-empty grid, stays inside the boundary, and moves by exactly \<open>n\<close> cells in
  reading order unless it reaches the boundary's first or last cell, where it stops.
\<close>

lemma point_arith_saturates:
  assumes "dims_ok d" "column p < columns d" "b \<noteq> Boundary_None"
  shows "(\<exists>q. point_add d b n p = Some q \<and> within d b q \<and>
      cell_number d q =
        max (lower_line d b * int (columns d)) (min (cell_number d p + int n) (final_number d))) \<and>
    (\<exists>q. point_sub d b n p = Some q \<and> within d b q \<and>
      cell_number d q =
        max (lower_line d b * int (columns d)) (min (cell_number d p - int n) (final_number d)))"
  using raw_dims.add_saturates [OF assms] raw_dims.sub_saturates [OF assms] by blast

theorem point_arith_saturates_witness:
  "\<exists>q. point_sub \<lparr>total_lines = 12, screen_lines = 10, columns = 42\<rparr> Boundary_Grid 100 (Point 1 3)
      = Some q \<and> cell_number \<lparr>total_lines = 12, screen_lines = 10, columns = 42\<rparr> q = - 55"
  using point_arith_saturates [of "\<lparr>total_lines = 12, screen_lines = 10, columns = 42\<rparr>"
      "Point 1 3" Boundary_Grid 100]
  by (auto simp: dims_ok_def lower_line_def cell_number_def final_number_def line_defs)

text \<open>
  Under \<open>Boundary::None\<close> moving by \<open>n\<close> columns wraps around the whole buffer: cell
  numbers counted from the top of the history are added modulo the number of cells.
\<close>

lemma point_arith_wraps:
  assumes "dims_ok d" "column p < columns d"
  shows "(\<exists>q. point_add d Boundary_None n p = Some q \<and> in_grid d q \<and>
      cell_number d q - first_number d = (cell_number d p + int n - first_number d)
        mod (int (total_lines d) * int (columns d))) \<and>
    (\<exists>q. point_sub d Boundary_None n p = Some q \<and> in_grid d q \<and>
      cell_number d q - first_number d = (cell_number d p - int n - first_number d)
        mod (int (total_lines d) * int (columns d)))"
  using raw_dims.add_wraps [OF assms] raw_dims.sub_wraps [OF assms] by blast

theorem point_arith_wraps_witness:
  "\<exists>q. point_sub \<lparr>total_lines = 10, screen_lines = 10, columns = 42\<rparr> Boundary_None 1 (Point 0 0)
      = Some q \<and> cell_number \<lparr>total_lines = 10, screen_lines = 10, columns = 42\<rparr> q = 419"
  using point_arith_wraps [of "\<lparr>total_lines = 10, screen_lines = 10, columns = 42\<rparr>" "Point 0 0" 1]
  by (auto simp: dims_ok_def cell_number_def first_number_def line_defs)

text \<open>
  A point and a viewport-relative point correspond exactly when the conversions between
  the two coordinate systems map one to the other, whatever the display offset.
\<close>

lemma viewport_conversions_inverse:
  "point_to_viewport off p = Some v \<longleftrightarrow> viewport_to_point off v = p"
  by (cases p; cases v)
    (auto simp: point_to_viewport_def viewport_to_point_def point_to_viewport_from_def
      viewport_to_point_from_def Let_def)

end
