(* ===== verification/Cell.thy ===== *)
theory Cell
  imports Prelude
begin

text \<open>
  The terminal cell (\<open>nebula_terminal/src/term/cell.rs\<close>) and the image identities its
  tiles refer to (\<open>inline_image.rs\<close>).

  A cell owns its optional \<open>CellExtra\<close> through a copy-on-write \<open>Arc\<close>, which is the value
  itself here. Characters are code points. The liveness flag of an image identity is an
  atomic shared with the renderer; the model carries its value at the time of the call. The
  geometry fields of a placement (\<open>f32\<close>) play no part in any cell operation and are left out.
  \<open>Color\<close> is the enum of the terminal parser crate, with the constructors the sources use.
\<close>

section \<open>Data\<close>

type_synonym flags = "16 word"

abbreviation INVERSE :: flags where "INVERSE \<equiv> 0x0001"
abbreviation BOLD :: flags where "BOLD \<equiv> 0x0002"
abbreviation ITALIC :: flags where "ITALIC \<equiv> 0x0004"
abbreviation UNDERLINE :: flags where "UNDERLINE \<equiv> 0x0008"
abbreviation WRAPLINE :: flags where "WRAPLINE \<equiv> 0x0010"
abbreviation WIDE_CHAR :: flags where "WIDE_CHAR \<equiv> 0x0020"
abbreviation WIDE_CHAR_SPACER :: flags where "WIDE_CHAR_SPACER \<equiv> 0x0040"
abbreviation DIM :: flags where "DIM \<equiv> 0x0080"
abbreviation HIDDEN :: flags where "HIDDEN \<equiv> 0x0100"
abbreviation STRIKEOUT :: flags where "STRIKEOUT \<equiv> 0x0200"
abbreviation LEADING_WIDE_CHAR_SPACER :: flags where "LEADING_WIDE_CHAR_SPACER \<equiv> 0x0400"
abbreviation DOUBLE_UNDERLINE :: flags where "DOUBLE_UNDERLINE \<equiv> 0x0800"
abbreviation UNDERCURL :: flags where "UNDERCURL \<equiv> 0x1000"
abbreviation DOTTED_UNDERLINE :: flags where "DOTTED_UNDERLINE \<equiv> 0x2000"
abbreviation DASHED_UNDERLINE :: flags where "DASHED_UNDERLINE \<equiv> 0x4000"

definition ALL_UNDERLINES :: flags where
  "ALL_UNDERLINES =
     UNDERLINE OR DOUBLE_UNDERLINE OR UNDERCURL OR DOTTED_UNDERLINE OR DASHED_UNDERLINE"

text \<open>The operations of the \<open>bitflags\<close> type.\<close>

definition flags_contains :: "flags \<Rightarrow> flags \<Rightarrow> bool" where
  "flags_contains f x \<longleftrightarrow> f AND x = x"

definition flags_intersects :: "flags \<Rightarrow> flags \<Rightarrow> bool" where
  "flags_intersects f x \<longleftrightarrow> f AND x \<noteq> 0"

definition flags_insert :: "flags \<Rightarrow> flags \<Rightarrow> flags" where
  "flags_insert x f = f OR x"

definition flags_remove :: "flags \<Rightarrow> flags \<Rightarrow> flags" where
  "flags_remove x f = f AND NOT x"

datatype named_color = Foreground | Background | Cursor_Color | Palette nat

datatype color = Named named_color | Spec "8 word" "8 word" "8 word" | Indexed "8 word"

record hyperlink_data =
  hyperlink_id :: string
  hyperlink_uri :: string

record image_identity =
  image_id :: nat
  image_valid :: bool

record kitty_placement =
  placement_id :: nat
  placement_identity :: "image_identity option"
  placement_resource :: image_identity

record image_cell =
  tile_image :: image_identity
  tile_column :: nat
  tile_row :: nat
  tile_placement :: "kitty_placement option"

record surface =
  surface_id :: nat
  source_hashes :: "nat list"

record marker =
  marker_surface :: surface
  marker_row :: nat

record text_extra =
  te_zerowidth :: "uchar list"
  te_underline_color :: "color option"
  te_hyperlink :: "hyperlink_data option"
  te_inline_marker :: "marker option"

datatype extra =
    Extra_Text text_extra
  | Extra_Image image_cell "text_extra option"

record cell =
  cell_c :: uchar
  cell_fg :: color
  cell_bg :: color
  cell_flags :: flags
  cell_extra :: "extra option"

section \<open>Operations\<close>

definition image_is_alive :: "image_identity \<Rightarrow> bool" where
  "image_is_alive i = image_valid i"

definition placement_is_alive :: "kitty_placement \<Rightarrow> bool" where
  "placement_is_alive p =
     (image_is_alive (placement_resource p) \<and>
      (case placement_identity p of None \<Rightarrow> False | Some i \<Rightarrow> image_is_alive i))"

definition has_grid_source :: "surface \<Rightarrow> bool" where
  "has_grid_source s \<longleftrightarrow> source_hashes s \<noteq> []"

definition default_text :: text_extra where
  "default_text = \<lparr>te_zerowidth = [], te_underline_color = None, te_hyperlink = None,
     te_inline_marker = None\<rparr>"

definition text_is_empty :: "text_extra \<Rightarrow> bool" where
  "text_is_empty t \<longleftrightarrow>
     te_zerowidth t = [] \<and> te_underline_color t = None \<and> te_hyperlink t = None \<and>
     te_inline_marker t = None"

definition default_extra :: extra where
  "default_extra = Extra_Text default_text"

fun extra_text :: "extra \<Rightarrow> text_extra" where
  "extra_text (Extra_Text t) = t"
| "extra_text (Extra_Image _ (Some t)) = t"
| "extra_text (Extra_Image _ None) = default_text"

text \<open>\<open>text_mut\<close>: the text part, created on demand, modified in place.\<close>

fun extra_text_mut :: "(text_extra \<Rightarrow> text_extra) \<Rightarrow> extra \<Rightarrow> extra" where
  "extra_text_mut f (Extra_Text t) = Extra_Text (f t)"
| "extra_text_mut f (Extra_Image tile t) =
     Extra_Image tile (Some (f (case t of None \<Rightarrow> default_text | Some t \<Rightarrow> t)))"

fun prune_empty_text :: "extra \<Rightarrow> extra" where
  "prune_empty_text (Extra_Image tile (Some t)) =
     (if text_is_empty t then Extra_Image tile None else Extra_Image tile (Some t))"
| "prune_empty_text e = e"

definition default_cell :: cell where
  "default_cell = \<lparr>cell_c = 32, cell_fg = Named Foreground, cell_bg = Named Background,
     cell_flags = 0, cell_extra = None\<rparr>"

definition cell_inline_marker :: "cell \<Rightarrow> marker option" where
  "cell_inline_marker c = Option.bind (cell_extra c) (\<lambda>e. te_inline_marker (extra_text e))"

text \<open>\<open>self.extra.get_or_insert(Default::default())\<close>.\<close>

definition extra_or_default :: "cell \<Rightarrow> extra" where
  "extra_or_default c = (case cell_extra c of None \<Rightarrow> default_extra | Some e \<Rightarrow> e)"

definition set_inline_marker :: "marker \<Rightarrow> cell \<Rightarrow> cell" where
  "set_inline_marker m c =
     c\<lparr>cell_extra :=
        Some (extra_text_mut (te_inline_marker_update (\<lambda>_. Some m)) (extra_or_default c))\<rparr>"

definition zerowidth :: "cell \<Rightarrow> uchar list option" where
  "zerowidth c = map_option (\<lambda>e. te_zerowidth (extra_text e)) (cell_extra c)"

definition push_zerowidth :: "uchar \<Rightarrow> cell \<Rightarrow> cell" where
  "push_zerowidth ch c =
     c\<lparr>cell_extra :=
        Some (extra_text_mut (te_zerowidth_update (\<lambda>zs. zs @ [ch])) (extra_or_default c))\<rparr>"

definition underline_color :: "cell \<Rightarrow> color option" where
  "underline_color c = Option.bind (cell_extra c) (\<lambda>e. te_underline_color (extra_text e))"

definition hyperlink :: "cell \<Rightarrow> hyperlink_data option" where
  "hyperlink c = Option.bind (cell_extra c) (\<lambda>e. te_hyperlink (extra_text e))"

definition cell_image :: "cell \<Rightarrow> image_cell option" where
  "cell_image c =
     (case cell_extra c of
        Some (Extra_Image tile _) \<Rightarrow>
          (if image_is_alive (tile_image tile) \<and>
              (case tile_placement tile of None \<Rightarrow> True | Some p \<Rightarrow> placement_is_alive p)
           then Some tile else None)
      | _ \<Rightarrow> None)"

definition set_underline_color :: "color option \<Rightarrow> cell \<Rightarrow> cell" where
  "set_underline_color col c =
     (if col = None \<and> cell_image c = None \<and>
         (case cell_extra c of None \<Rightarrow> True
          | Some e \<Rightarrow> te_zerowidth (extra_text e) = [] \<and> te_hyperlink (extra_text e) = None \<and>
              te_inline_marker (extra_text e) = None)
      then c\<lparr>cell_extra := None\<rparr>
      else c\<lparr>cell_extra :=
             Some (prune_empty_text
               (extra_text_mut (te_underline_color_update (\<lambda>_. col)) (extra_or_default c)))\<rparr>)"

definition set_hyperlink :: "hyperlink_data option \<Rightarrow> cell \<Rightarrow> cell" where
  "set_hyperlink h c =
     (if h = None \<and> cell_image c = None \<and>
         (case cell_extra c of None \<Rightarrow> True
          | Some e \<Rightarrow> te_zerowidth (extra_text e) = [] \<and> te_underline_color (extra_text e) = None \<and>
              te_inline_marker (extra_text e) = None)
      then c\<lparr>cell_extra := None\<rparr>
      else c\<lparr>cell_extra :=
             Some (prune_empty_text
               (extra_text_mut (te_hyperlink_update (\<lambda>_. h)) (extra_or_default c)))\<rparr>)"

definition set_image :: "image_cell \<Rightarrow> cell \<Rightarrow> cell" where
  "set_image img c =
     (case cell_extra c of
        Some (Extra_Image _ t) \<Rightarrow> c\<lparr>cell_extra := Some (Extra_Image img t)\<rparr>
      | Some (Extra_Text t) \<Rightarrow>
          c\<lparr>cell_extra := Some (Extra_Image img (if text_is_empty t then None else Some t))\<rparr>
      | None \<Rightarrow> c\<lparr>cell_extra := Some (Extra_Image img None)\<rparr>)"

text \<open>\<open>GridCell::discard\<close>: drop the image tile, then the inline marker.\<close>

definition discard_image :: "cell \<Rightarrow> cell" where
  "discard_image c =
     (case cell_extra c of
        Some (Extra_Image _ None) \<Rightarrow> c\<lparr>cell_extra := None\<rparr>
      | Some (Extra_Image _ (Some t)) \<Rightarrow> c\<lparr>cell_extra := Some (Extra_Text t)\<rparr>
      | _ \<Rightarrow> c)"

definition discard_marker :: "cell \<Rightarrow> cell" where
  "discard_marker c =
     (case cell_inline_marker c of
        None \<Rightarrow> c
      | Some _ \<Rightarrow>
          (let e = extra_text_mut (te_inline_marker_update (\<lambda>_. None)) (the (cell_extra c))
           in if text_is_empty (extra_text e) then c\<lparr>cell_extra := None\<rparr>
              else c\<lparr>cell_extra := Some e\<rparr>))"

definition cell_discard :: "cell \<Rightarrow> cell" where
  "cell_discard c = discard_marker (discard_image c)"

definition clear_wide :: "cell \<Rightarrow> cell" where
  "clear_wide c =
     (let c = cell_discard (c\<lparr>cell_flags := flags_remove WIDE_CHAR (cell_flags c)\<rparr>);
          c = (case cell_extra c of
                 None \<Rightarrow> c
               | Some e \<Rightarrow> c\<lparr>cell_extra := Some (extra_text_mut (te_zerowidth_update (\<lambda>_. [])) e)\<rparr>)
      in c\<lparr>cell_c := 32\<rparr>)"

definition cell_is_empty :: "cell \<Rightarrow> bool" where
  "cell_is_empty c \<longleftrightarrow>
     (cell_c c = 32 \<or> cell_c c = 9) \<and>
     cell_inline_marker c = None \<and>
     cell_bg c = Named Background \<and>
     cell_fg c = Named Foreground \<and>
     \<not> flags_intersects (cell_flags c)
         (INVERSE OR ALL_UNDERLINES OR STRIKEOUT OR WRAPLINE OR WIDE_CHAR_SPACER OR
          LEADING_WIDE_CHAR_SPACER) \<and>
     map_option (\<lambda>e. te_zerowidth (extra_text e) = []) (cell_extra c) \<noteq> Some False \<and>
     cell_image c = None"

definition cell_reset :: "cell \<Rightarrow> cell \<Rightarrow> cell" where
  "cell_reset template c = default_cell\<lparr>cell_bg := cell_bg template\<rparr>"

definition cell_of_color :: "color \<Rightarrow> cell" where
  "cell_of_color col = default_cell\<lparr>cell_bg := col\<rparr>"

definition discriminant :: "cell \<Rightarrow> color" where
  "discriminant c = cell_bg c"

section \<open>What a cell shows\<close>

text \<open>The attributes other code reads, independently of how the extra storage is laid out.\<close>

definition zerowidth_chars :: "cell \<Rightarrow> uchar list" where
  "zerowidth_chars c = (case zerowidth c of None \<Rightarrow> [] | Some zs \<Rightarrow> zs)"

lemmas cell_attr_defs = zerowidth_chars_def zerowidth_def underline_color_def hyperlink_def
  cell_inline_marker_def cell_image_def

lemma extra_text_mut_text [simp]: "extra_text (extra_text_mut f e) = f (extra_text e)"
  by (cases e) (auto split: option.splits)

lemma prune_empty_text_text [simp]: "extra_text (prune_empty_text e) = extra_text e"
  by (induction e rule: prune_empty_text.induct) (auto simp: text_is_empty_def default_text_def)

lemma default_text_fields [simp]:
  "te_zerowidth default_text = []" "te_underline_color default_text = None"
  "te_hyperlink default_text = None" "te_inline_marker default_text = None"
  by (simp_all add: default_text_def)

lemma default_extra_text [simp]: "extra_text default_extra = default_text"
  by (simp add: default_extra_def)

text \<open>Setting text attributes never touches the tile.\<close>

fun extra_tile :: "extra \<Rightarrow> image_cell option" where
  "extra_tile (Extra_Image tile _) = Some tile"
| "extra_tile (Extra_Text _) = None"

lemma extra_tile_mut [simp]: "extra_tile (extra_text_mut f e) = extra_tile e"
  by (cases e) auto

lemma extra_tile_prune [simp]: "extra_tile (prune_empty_text e) = extra_tile e"
  by (induction e rule: prune_empty_text.induct) auto

lemma cell_image_tile:
  "cell_image c =
     (case Option.bind (cell_extra c) extra_tile of
        Some tile \<Rightarrow>
          (if image_is_alive (tile_image tile) \<and>
              (case tile_placement tile of None \<Rightarrow> True | Some p \<Rightarrow> placement_is_alive p)
           then Some tile else None)
      | None \<Rightarrow> None)"
  by (auto simp: cell_image_def split: option.splits extra.splits)

section \<open>Properties\<close>

text \<open>
  Setting the underline colour of a cell is read back, and leaves its hyperlink,
  combining characters, inline marker and live image as they were, on the branch that drops
  the extra storage as well as on the one that keeps it.
\<close>

lemma set_underline_color_spec:
  "underline_color (set_underline_color col c) = col \<and>
   hyperlink (set_underline_color col c) = hyperlink c \<and>
   zerowidth_chars (set_underline_color col c) = zerowidth_chars c \<and>
   cell_inline_marker (set_underline_color col c) = cell_inline_marker c \<and>
   cell_image (set_underline_color col c) = cell_image c"
  by (cases "cell_extra c")
    (auto simp: set_underline_color_def cell_image_tile underline_color_def hyperlink_def
      zerowidth_chars_def zerowidth_def cell_inline_marker_def extra_or_default_def default_extra_def)

text \<open>
  The same for the hyperlink of a cell.
\<close>

lemma set_hyperlink_spec:
  "hyperlink (set_hyperlink h c) = h \<and>
   underline_color (set_hyperlink h c) = underline_color c \<and>
   zerowidth_chars (set_hyperlink h c) = zerowidth_chars c \<and>
   cell_inline_marker (set_hyperlink h c) = cell_inline_marker c \<and>
   cell_image (set_hyperlink h c) = cell_image c"
  by (cases "cell_extra c")
    (auto simp: set_hyperlink_def cell_image_tile underline_color_def hyperlink_def
      zerowidth_chars_def zerowidth_def cell_inline_marker_def extra_or_default_def default_extra_def)

text \<open>The cells a row cleanup has to look at: those that carry a tile or a marker.\<close>

definition transient_cell :: "cell \<Rightarrow> bool" where
  "transient_cell c \<longleftrightarrow>
     Option.bind (cell_extra c) extra_tile \<noteq> None \<or> cell_inline_marker c \<noteq> None"

lemma cell_discard_id: "\<not> transient_cell c \<Longrightarrow> cell_discard c = c"
  by (cases "cell_extra c")
    (auto simp: transient_cell_def cell_discard_def discard_image_def discard_marker_def
      split: extra.splits option.splits)

lemma cell_discard_basic [simp]:
  "cell_c (cell_discard c) = cell_c c" "cell_fg (cell_discard c) = cell_fg c"
  "cell_bg (cell_discard c) = cell_bg c" "cell_flags (cell_discard c) = cell_flags c"
  by (auto simp: cell_discard_def discard_image_def discard_marker_def Let_def
      split: option.splits extra.splits)

lemma transient_cell_discard: "\<not> transient_cell (cell_discard c)"
  by (auto simp: transient_cell_def cell_discard_def discard_image_def discard_marker_def Let_def
      cell_inline_marker_def split: option.splits extra.splits)

lemma transient_cell_of_color [simp]: "\<not> transient_cell (cell_of_color col)"
  by (simp add: transient_cell_def cell_of_color_def default_cell_def cell_inline_marker_def)

lemma cell_reset_eq [simp]: "cell_reset t c = cell_of_color (cell_bg t)"
  by (simp add: cell_reset_def cell_of_color_def)

lemma cell_bg_of_color [simp]: "cell_bg (cell_of_color col) = col"
  by (simp add: cell_of_color_def)

lemma cell_discard_text [simp]:
  "zerowidth_chars (cell_discard c) = zerowidth_chars c"
  "underline_color (cell_discard c) = underline_color c"
  "hyperlink (cell_discard c) = hyperlink c"
  by (auto simp: zerowidth_chars_def zerowidth_def underline_color_def hyperlink_def
      cell_discard_def discard_image_def discard_marker_def Let_def cell_inline_marker_def
      text_is_empty_def split: option.splits extra.splits)

text \<open>
  Discarding the transient content of a cell removes its image and its inline marker and
  nothing else: character, colours, flags, combining characters, underline colour and
  hyperlink stay, a second discard changes nothing, and a cell without tile and marker is
  left alone.
\<close>

lemma cell_discard_spec:
  "cell_image (cell_discard c) = None \<and> cell_inline_marker (cell_discard c) = None \<and>
   cell_c (cell_discard c) = cell_c c \<and> cell_fg (cell_discard c) = cell_fg c \<and>
   cell_bg (cell_discard c) = cell_bg c \<and> cell_flags (cell_discard c) = cell_flags c \<and>
   zerowidth_chars (cell_discard c) = zerowidth_chars c \<and>
   underline_color (cell_discard c) = underline_color c \<and>
   hyperlink (cell_discard c) = hyperlink c \<and>
   cell_discard (cell_discard c) = cell_discard c"
proof -
  have "cell_discard (cell_discard c) = cell_discard c"
    by (rule cell_discard_id [OF transient_cell_discard])
  moreover have "cell_image (cell_discard c) = None" "cell_inline_marker (cell_discard c) = None"
    using transient_cell_discard [of c] by (auto simp: cell_image_tile transient_cell_def)
  ultimately show ?thesis by simp
qed

lemma cell_is_empty_of_color: "cell_is_empty (cell_of_color col) \<longleftrightarrow> col = Named Background"
  by (simp add: cell_is_empty_def cell_of_color_def default_cell_def cell_inline_marker_def
      cell_image_def flags_intersects_def)

text \<open>Clearing a wide character leaves a blank of the same colours.\<close>

lemma clear_wide_shows:
  "cell_c (clear_wide c) = 32 \<and> zerowidth_chars (clear_wide c) = [] \<and>
   cell_image (clear_wide c) = None \<and> cell_bg (clear_wide c) = cell_bg c \<and>
   hyperlink (clear_wide c) = hyperlink c"
proof -
  define d where "d = cell_discard (c\<lparr>cell_flags := flags_remove WIDE_CHAR (cell_flags c)\<rparr>)"
  have d: "\<not> transient_cell d" "cell_bg d = cell_bg c" "hyperlink d = hyperlink c"
    by (auto simp: d_def transient_cell_discard) (simp add: hyperlink_def)
  have "clear_wide c = (case cell_extra d of None \<Rightarrow> d
      | Some e \<Rightarrow> d\<lparr>cell_extra := Some (extra_text_mut (te_zerowidth_update (\<lambda>_. [])) e)\<rparr>)
        \<lparr>cell_c := 32\<rparr>"
    by (simp add: clear_wide_def d_def [symmetric] Let_def)
  then show ?thesis using d
    by (cases "cell_extra d")
      (auto simp: transient_cell_def zerowidth_chars_def zerowidth_def cell_image_tile hyperlink_def)
qed

end
