(* ===== verification/Row.thy ===== *)
theory Row
  imports Cell
begin

text \<open>
  A row of the grid (\<open>nebula_terminal/src/grid/row.rs\<close>) at its instance \<open>Row<Cell>\<close>, and
  \<open>LineLength\<close> (\<open>term/cell.rs\<close>). A row is a vector of cells and the bound \<open>occ\<close> on the cells
  written since the last reset. Vector capacities, and with them
  \<open>reclaim_excess_capacity\<close>, do not change any value and are not modelled.

  The lemmas show that the optimised \<open>reset\<close>, which skips the cells past \<open>occ\<close>, clears the
  whole row whenever \<open>occ\<close> is sound, which operations keep it sound, and that shrinking
  loses blank cells only.
\<close>

record row =
  row_inner :: "cell list"
  row_occ :: nat

section \<open>Operations\<close>

definition row_new :: "nat \<Rightarrow> row option" where
  "row_new columns = do {
     assert_that (columns \<ge> 1);
     Some \<lparr>row_inner = replicate columns default_cell, row_occ = 0\<rparr>
   }"

definition row_grow :: "nat \<Rightarrow> row \<Rightarrow> row" where
  "row_grow columns r =
     (if length (row_inner r) \<ge> columns then r
      else r\<lparr>row_inner := resize_with columns default_cell (row_inner r)\<rparr>)"

definition row_shrink_with_minimum :: "nat \<Rightarrow> nat \<Rightarrow> row \<Rightarrow> cell list option \<times> row" where
  "row_shrink_with_minimum columns minimum r =
     (if length (row_inner r) \<le> columns then (None, r)
      else let new_row = drop columns (row_inner r);
               content = (case rposition (\<lambda>c. \<not> cell_is_empty c) new_row of
                            None \<Rightarrow> 0 | Some i \<Rightarrow> i + 1);
               cursor = min (minimum - columns) (length new_row);
               index = max content cursor;
               new_row = take index new_row;
               r' = r\<lparr>row_inner := take columns (row_inner r),
                      row_occ := min (row_occ r) columns\<rparr>
           in if new_row = [] then (None, r') else (Some new_row, r'))"

definition row_shrink :: "nat \<Rightarrow> row \<Rightarrow> cell list option \<times> row" where
  "row_shrink columns r = row_shrink_with_minimum columns 0 r"

definition row_reset :: "cell \<Rightarrow> row \<Rightarrow> row option" where
  "row_reset template r = do {
     assert_that (row_inner r \<noteq> []);
     let len = length (row_inner r);
     last \<leftarrow> vec_get (row_inner r) (len - 1);
     let occ = (if discriminant last \<noteq> discriminant template then len else row_occ r);
     assert_that (occ \<le> len);
     Some \<lparr>row_inner = map (cell_reset template) (take occ (row_inner r)) @ drop occ (row_inner r),
           row_occ = 0\<rparr>
   }"

definition row_discard :: "row \<Rightarrow> row option" where
  "row_discard r = do {
     assert_that (row_occ r \<le> length (row_inner r));
     Some (r\<lparr>row_inner := map cell_discard (take (row_occ r) (row_inner r)) @
                          drop (row_occ r) (row_inner r)\<rparr>)
   }"

definition row_from_vec :: "cell list \<Rightarrow> nat \<Rightarrow> row" where
  "row_from_vec vec occ = \<lparr>row_inner = vec, row_occ = occ\<rparr>"

definition row_len :: "row \<Rightarrow> nat" where
  "row_len r = length (row_inner r)"

definition row_last :: "row \<Rightarrow> cell option" where
  "row_last r = (if row_inner r = [] then None else Some (last (row_inner r)))"

text \<open>\<open>last_mut\<close> followed by a write through the reference, when there is a last cell.\<close>

definition row_last_mut :: "(cell \<Rightarrow> cell) \<Rightarrow> row \<Rightarrow> row" where
  "row_last_mut f r =
     (let r = r\<lparr>row_occ := length (row_inner r)\<rparr>
      in if row_inner r = [] then r
         else r\<lparr>row_inner := butlast (row_inner r) @ [f (last (row_inner r))]\<rparr>)"

definition row_append :: "cell list \<Rightarrow> row \<Rightarrow> row" where
  "row_append vec r =
     \<lparr>row_inner = row_inner r @ vec, row_occ = row_occ r + length vec\<rparr>"

definition row_append_front :: "cell list \<Rightarrow> row \<Rightarrow> row" where
  "row_append_front vec r =
     \<lparr>row_inner = vec @ row_inner r, row_occ = row_occ r + length vec\<rparr>"

definition row_is_clear :: "row \<Rightarrow> bool" where
  "row_is_clear r \<longleftrightarrow> list_all cell_is_empty (row_inner r)"

definition row_front_split_off :: "nat \<Rightarrow> row \<Rightarrow> (cell list \<times> row) option" where
  "row_front_split_off at r = do {
     assert_that (at \<le> length (row_inner r));
     Some (take at (row_inner r),
           \<lparr>row_inner = drop at (row_inner r), row_occ = row_occ r - at\<rparr>)
   }"

text \<open>\<open>Index<Column>\<close> and \<open>IndexMut<Column>\<close>, the latter with the write through the reference.\<close>

definition row_index :: "nat \<Rightarrow> row \<Rightarrow> cell option" where
  "row_index i r = vec_get (row_inner r) i"

definition row_index_mut :: "(cell \<Rightarrow> cell) \<Rightarrow> nat \<Rightarrow> row \<Rightarrow> row option" where
  "row_index_mut f i r = do {
     c \<leftarrow> vec_get (row_inner r) i;
     cs \<leftarrow> vec_set (row_inner r) i (f c);
     Some \<lparr>row_inner = cs, row_occ = max (row_occ r) (i + 1)\<rparr>
   }"

text \<open>
  The slice forms of \<open>IndexMut\<close>: the slice is rewritten by a function on its cells. The range
  \<open>a..b\<close> panics when it is reversed or ends past the row.
\<close>

definition row_slice_mut :: "nat \<Rightarrow> (cell list \<Rightarrow> cell list) \<Rightarrow> nat \<Rightarrow> nat \<Rightarrow> row \<Rightarrow> row option" where
  "row_slice_mut occ f a b r = do {
     assert_that (a \<le> b \<and> b \<le> length (row_inner r));
     Some \<lparr>row_inner = take a (row_inner r) @ f (drop a (take b (row_inner r))) @
                        drop b (row_inner r),
           row_occ = occ\<rparr>
   }"

definition row_range_mut :: "(cell list \<Rightarrow> cell list) \<Rightarrow> nat \<Rightarrow> nat \<Rightarrow> row \<Rightarrow> row option" where
  "row_range_mut f a b r = row_slice_mut (max (row_occ r) b) f a b r"

definition row_range_to_mut :: "(cell list \<Rightarrow> cell list) \<Rightarrow> nat \<Rightarrow> row \<Rightarrow> row option" where
  "row_range_to_mut f b r = row_slice_mut (max (row_occ r) b) f 0 b r"

definition row_range_from_mut :: "(cell list \<Rightarrow> cell list) \<Rightarrow> nat \<Rightarrow> row \<Rightarrow> row option" where
  "row_range_from_mut f a r = row_slice_mut (row_len r) f a (row_len r) r"

definition row_range_full_mut :: "(cell list \<Rightarrow> cell list) \<Rightarrow> row \<Rightarrow> row option" where
  "row_range_full_mut f r = row_slice_mut (row_len r) f 0 (row_len r) r"

definition row_range_to_inclusive_mut :: "(cell list \<Rightarrow> cell list) \<Rightarrow> nat \<Rightarrow> row \<Rightarrow> row option" where
  "row_range_to_inclusive_mut f b r = row_slice_mut (max (row_occ r) (b + 1)) f 0 (b + 1) r"

text \<open>\<open>LineLength\<close>: columns up to the last cell with content, or all of a wrapped row.\<close>

definition has_line_content :: "cell \<Rightarrow> bool" where
  "has_line_content c \<longleftrightarrow>
     cell_c c \<noteq> 32 \<or>
     (case cell_inline_marker c of None \<Rightarrow> False
      | Some m \<Rightarrow> \<not> has_grid_source (marker_surface m)) \<or>
     map_option (\<lambda>e. te_zerowidth (extra_text e) = []) (cell_extra c) = Some False"

definition line_length :: "row \<Rightarrow> nat option" where
  "line_length r = do {
     l \<leftarrow> usize_sub (row_len r) 1;
     last \<leftarrow> row_index l r;
     if flags_contains (cell_flags last) WRAPLINE then Some (row_len r)
     else (case List.find (\<lambda>(i, c). has_line_content c)
                  (List.enumerate 0 (rev (row_inner r))) of
             None \<Rightarrow> Some 0
           | Some (index, _) \<Rightarrow> usize_sub (row_len r) index)
   }"

section \<open>The occupancy invariant\<close>

text \<open>
  All cells from \<open>occ\<close> on are blanks of one colour, the colour of the last cell.
\<close>

definition row_ok :: "row \<Rightarrow> bool" where
  "row_ok r \<longleftrightarrow> row_occ r \<le> length (row_inner r) \<and>
     list_all (\<lambda>c. c = cell_of_color (cell_bg (last (row_inner r)))) (drop (row_occ r) (row_inner r))"

lemma row_okI:
  assumes "row_occ r \<le> length (row_inner r)"
    and "\<And>i. row_occ r \<le> i \<Longrightarrow> i < length (row_inner r) \<Longrightarrow> row_inner r ! i = cell_of_color col"
  shows "row_ok r"
proof (cases "row_occ r = length (row_inner r)")
  case True
  then show ?thesis by (simp add: row_ok_def)
next
  case False
  then have "row_inner r \<noteq> []" "row_occ r \<le> length (row_inner r) - 1" using assms(1) by auto
  then have "last (row_inner r) = cell_of_color col"
    using assms(2) [of "length (row_inner r) - 1"] by (simp add: last_conv_nth)
  then show ?thesis using assms by (auto simp: row_ok_def list_all_length)
qed

lemma row_ok_nth:
  "row_ok r \<Longrightarrow> row_occ r \<le> i \<Longrightarrow> i < length (row_inner r) \<Longrightarrow>
     row_inner r ! i = cell_of_color (cell_bg (last (row_inner r)))"
  by (auto simp: row_ok_def list_all_length dest!: spec [of _ "i - row_occ r"])

lemma row_ok_full: "row_occ r = length (row_inner r) \<Longrightarrow> row_ok r"
  by (simp add: row_ok_def)

lemma row_ok_occ: "row_ok r \<Longrightarrow> row_occ r \<le> length (row_inner r)"
  by (simp add: row_ok_def)

lemma row_new_ok: "row_new n = Some r \<Longrightarrow> row_ok r \<and> length (row_inner r) = n"
proof -
  assume "row_new n = Some r"
  then have "r = \<lparr>row_inner = replicate n default_cell, row_occ = 0\<rparr>"
    by (auto simp: row_new_def assert_that_def split: if_splits)
  moreover have "default_cell = cell_of_color (Named Background)"
    by (simp add: cell_of_color_def default_cell_def)
  ultimately show ?thesis by (auto intro!: row_okI)
qed

text \<open>The reference behaviour of \<open>reset\<close>: a blank row of the template's background.\<close>

definition blank_row :: "nat \<Rightarrow> color \<Rightarrow> row" where
  "blank_row n col = \<lparr>row_inner = replicate n (cell_of_color col), row_occ = 0\<rparr>"

lemma blank_row_ok: "row_ok (blank_row n col)"
  by (auto simp: blank_row_def intro!: row_okI)

lemma row_reset_blank:
  assumes "row_ok r" "row_inner r \<noteq> []"
  shows "row_reset t r = Some (blank_row (row_len r) (cell_bg t))"
proof -
  let ?cs = "row_inner r"
  let ?occ = "if cell_bg (last ?cs) \<noteq> cell_bg t then length ?cs else row_occ r"
  have occ: "?occ \<le> length ?cs" using assms by (simp add: row_ok_def)
  have "map (cell_reset t) (take ?occ ?cs) @ drop ?occ ?cs
      = replicate (length ?cs) (cell_of_color (cell_bg t))"
  proof (rule nth_equalityI)
    show "(map (cell_reset t) (take ?occ ?cs) @ drop ?occ ?cs) ! i
        = replicate (length ?cs) (cell_of_color (cell_bg t)) ! i"
      if "i < length (map (cell_reset t) (take ?occ ?cs) @ drop ?occ ?cs)" for i
      using that occ row_ok_nth [OF assms(1), of i] by (auto simp: nth_append min_def)
  qed (use occ in simp)
  then show ?thesis using assms occ
    by (auto simp: row_reset_def panic_free discriminant_def last_conv_nth blank_row_def row_len_def)
qed

lemma row_index_mut_ok:
  "row_ok r \<Longrightarrow> row_index_mut f i r = Some r' \<Longrightarrow> row_ok r' \<and> row_len r' = row_len r"
  by (auto simp: row_index_mut_def row_len_def bind_eq_Some_conv row_ok_occ
      intro!: row_okI [where col = "cell_bg (last (row_inner r))"] dest: row_ok_nth)

lemma row_slice_mut_ok:
  assumes "row_ok r" "\<And>cs. length (f cs) = length cs" "row_slice_mut occ f a b r = Some r'"
    "max (row_occ r) b \<le> occ" "occ \<le> row_len r"
  shows "row_ok r' \<and> row_len r' = row_len r"
proof -
  let ?cs = "row_inner r"
  from assms(3) have ab: "a \<le> b" "b \<le> length ?cs"
    and r': "r' = \<lparr>row_inner = take a ?cs @ f (drop a (take b ?cs)) @ drop b ?cs, row_occ = occ\<rparr>"
    by (auto simp: row_slice_mut_def bind_eq_Some_conv)
  have len: "length (row_inner r') = length ?cs" using ab r' assms(2) by simp
  have "row_ok r'"
  proof (rule row_okI)
    show "row_occ r' \<le> length (row_inner r')" using assms(5) len r' by (simp add: row_len_def)
    show "row_inner r' ! i = cell_of_color (cell_bg (last ?cs))"
      if "row_occ r' \<le> i" "i < length (row_inner r')" for i
    proof -
      have "b \<le> i" "row_occ r \<le> i" "i < length ?cs" using that assms(4) r' len by auto
      then show ?thesis using r' ab assms(2) row_ok_nth [OF assms(1), of i] by (simp add: nth_append)
    qed
  qed
  with len show ?thesis by (simp add: row_len_def)
qed

lemma row_discard_Some [panic_free]:
  "row_ok r \<Longrightarrow> row_discard r =
     Some (r\<lparr>row_inner := map cell_discard (take (row_occ r) (row_inner r)) @
                          drop (row_occ r) (row_inner r)\<rparr>)"
  by (simp add: row_discard_def panic_free row_ok_occ)

lemma row_discard_nth:
  assumes "row_ok r" "row_discard r = Some r'"
  shows "length (row_inner r') = length (row_inner r) \<and> row_occ r' = row_occ r \<and>
    (\<forall>i < length (row_inner r). row_inner r' ! i =
       (if i < row_occ r then cell_discard (row_inner r ! i)
        else cell_of_color (cell_bg (last (row_inner r)))))"
  using assms row_ok_occ [OF assms(1)] row_ok_nth [OF assms(1)]
  by (auto simp: row_discard_Some nth_append min_absorb2)

lemma row_discard_ok:
  assumes "row_ok r" "row_discard r = Some r'"
  shows "row_ok r' \<and> row_len r' = row_len r"
  using row_discard_nth [OF assms] row_ok_occ [OF assms(1)]
  by (auto simp: row_len_def intro!: row_okI [where col = "cell_bg (last (row_inner r))"])

text \<open>A row that \<open>discard\<close> has visited carries no tile and no marker any more.\<close>

lemma row_discard_clean:
  assumes "row_ok r" "row_discard r = Some r'" "c \<in> set (row_inner r')"
  shows "\<not> transient_cell c"
proof -
  from assms(3) obtain i where i: "i < length (row_inner r')" "c = row_inner r' ! i"
    by (auto simp: in_set_conv_nth)
  with row_discard_nth [OF assms(1,2)]
  have "c = cell_discard (row_inner r ! i) \<or> c = cell_of_color (cell_bg (last (row_inner r)))"
    by auto
  then show ?thesis by (auto simp: transient_cell_discard)
qed

lemma row_last_mut_ok: "row_ok (row_last_mut f r)" "row_len (row_last_mut f r) = row_len r"
  by (auto simp: row_last_mut_def Let_def row_len_def intro!: row_ok_full)

lemma row_append_front_ok: "row_ok r \<Longrightarrow> row_ok (row_append_front vec r)"
proof (rule row_okI)
  assume ok: "row_ok r"
  show "row_occ (row_append_front vec r) \<le> length (row_inner (row_append_front vec r))"
    using row_ok_occ [OF ok] by (simp add: row_append_front_def)
  show "row_inner (row_append_front vec r) ! i = cell_of_color (cell_bg (last (row_inner r)))"
    if "row_occ (row_append_front vec r) \<le> i" "i < length (row_inner (row_append_front vec r))" for i
    using that row_ok_nth [OF ok, of "i - length vec"] by (simp add: row_append_front_def nth_append)
qed

lemma row_front_split_off_ok:
  assumes "row_ok r" "row_front_split_off n r = Some (vec, r')"
  shows "row_ok r'"
proof (rule row_okI)
  have r': "n \<le> length (row_inner r)" "r' = \<lparr>row_inner = drop n (row_inner r), row_occ = row_occ r - n\<rparr>"
    using assms(2) by (auto simp: row_front_split_off_def bind_eq_Some_conv)
  show "row_occ r' \<le> length (row_inner r')" using r' row_ok_occ [OF assms(1)] by simp
  show "row_inner r' ! i = cell_of_color (cell_bg (last (row_inner r)))"
    if "row_occ r' \<le> i" "i < length (row_inner r')" for i
    using that r' row_ok_nth [OF assms(1), of "n + i"] by simp
qed

lemma row_shrink_with_minimum_ok:
  assumes "row_ok r"
  shows "row_ok (snd (row_shrink_with_minimum columns minimum r))"
proof (cases "length (row_inner r) \<le> columns")
  case True
  then show ?thesis using assms by (simp add: row_shrink_with_minimum_def)
next
  case False
  let ?r = "r\<lparr>row_inner := take columns (row_inner r), row_occ := min (row_occ r) columns\<rparr>"
  have "snd (row_shrink_with_minimum columns minimum r) = ?r"
    using False by (simp add: row_shrink_with_minimum_def Let_def)
  moreover have "row_ok ?r" using False row_ok_occ [OF assms]
    by (intro row_okI [where col = "cell_bg (last (row_inner r))"])
      (auto simp: min_def intro: row_ok_nth [OF assms] split: if_splits)
  ultimately show ?thesis by simp
qed

lemma row_grow_ok:
  assumes "row_ok r" "row_occ r = row_len r \<or> cell_bg (last (row_inner r)) = Named Background"
  shows "row_ok (row_grow columns r)"
proof (cases "columns \<le> length (row_inner r)")
  case True
  then show ?thesis using assms by (simp add: row_grow_def)
next
  case False
  have d: "default_cell = cell_of_color (Named Background)"
    by (simp add: cell_of_color_def default_cell_def)
  show ?thesis
    using False row_ok_occ [OF assms(1)] row_ok_nth [OF assms(1)] assms(2)
    by (intro row_okI [where col = "Named Background"])
      (auto simp: row_grow_def nth_resize_with d row_len_def)
qed

lemma row_append_ok: "row_occ r = row_len r \<Longrightarrow> row_ok (row_append vec r)"
  by (rule row_ok_full) (simp add: row_append_def row_len_def)

section \<open>Well-formed rows of a grid\<close>

text \<open>
  What every row of a grid of \<open>n\<close> columns satisfies, also after a resize has left \<open>occ\<close>
  unsound for colours: the width, the bound, and that images and markers lie below the bound.
\<close>

definition row_clean :: "row \<Rightarrow> bool" where
  "row_clean r \<longleftrightarrow> list_all (\<lambda>c. \<not> transient_cell c) (row_inner r)"

definition row_wf :: "nat \<Rightarrow> row \<Rightarrow> bool" where
  "row_wf n r \<longleftrightarrow> length (row_inner r) = n \<and> row_occ r \<le> n \<and>
     list_all (\<lambda>c. \<not> transient_cell c) (drop (row_occ r) (row_inner r))"

lemma transient_default_cell [simp]: "\<not> transient_cell default_cell"
  by (simp add: transient_cell_def default_cell_def cell_inline_marker_def)

lemma row_ok_wf: "row_ok r \<Longrightarrow> row_wf (row_len r) r"
  by (auto simp: row_ok_def row_wf_def row_len_def list_all_iff)

lemma row_new_Some [panic_free]:
  "1 \<le> n \<Longrightarrow> row_new n = Some (blank_row n (Named Background))"
  by (simp add: row_new_def panic_free blank_row_def cell_of_color_def default_cell_def)

lemma blank_row_wf [simp]: "row_wf n (blank_row n col)" "row_clean (blank_row n col)"
  by (auto simp: row_wf_def row_clean_def blank_row_def list_all_iff)

lemma row_discard_wf:
  assumes "row_wf n r"
  shows "\<exists>r'. row_discard r = Some r' \<and> row_wf n r' \<and> row_clean r'"
proof -
  have "row_occ r \<le> length (row_inner r)" using assms by (simp add: row_wf_def)
  then show ?thesis using assms
    by (auto simp: row_discard_def panic_free row_wf_def row_clean_def list_all_iff
        transient_cell_discard min_absorb2)
qed

lemma row_reset_wf:
  assumes "row_wf n r" "1 \<le> n"
  shows "\<exists>r'. row_reset t r = Some r' \<and> row_wf n r' \<and> row_clean r' \<and> row_occ r' = 0"
proof -
  have "row_inner r \<noteq> []" "row_occ r \<le> length (row_inner r)" "length (row_inner r) = n"
    using assms by (auto simp: row_wf_def)
  then show ?thesis using assms
    by (auto simp: row_reset_def Let_def panic_free row_wf_def row_clean_def list_all_iff
        min_absorb2)
qed

lemma row_index_mut_wf:
  assumes "row_wf n r" "i < n"
  shows "\<exists>r'. row_index_mut f i r = Some r' \<and> row_wf n r' \<and> row_inner r' = (row_inner r)[i := f (row_inner r ! i)]"
proof -
  have "drop (max (row_occ r) (Suc i)) ((row_inner r)[i := f (row_inner r ! i)])
      = drop (max (row_occ r) (Suc i)) (row_inner r)"
    by (rule drop_update_cancel) auto
  moreover have "set (drop (max (row_occ r) (Suc i)) (row_inner r)) \<subseteq> set (drop (row_occ r) (row_inner r))"
    by (rule set_drop_subset_set_drop) simp
  ultimately show ?thesis using assms
    by (auto simp: row_index_mut_def panic_free row_wf_def list_all_iff)
qed

text \<open>
  The rows of a grid that has not been widened also have a sound occupancy bound; the flag
  says which of the two forms is meant, so that one proof serves both.
\<close>

definition row_std :: "bool \<Rightarrow> nat \<Rightarrow> row \<Rightarrow> bool" where
  "row_std strict n r \<longleftrightarrow> row_wf n r \<and> (strict \<longrightarrow> row_ok r)"

lemma blank_row_std [simp]: "row_std strict n (blank_row n col)"
  by (simp add: row_std_def blank_row_ok)

lemma row_discard_std:
  assumes "row_std strict n r"
  shows "\<exists>r'. row_discard r = Some r' \<and> row_std strict n r' \<and> row_clean r'"
  using assms row_discard_wf [of n r] row_discard_ok [of r] by (auto simp: row_std_def)

lemma row_reset_std:
  assumes "row_std strict n r" "1 \<le> n"
  shows "\<exists>r'. row_reset t r = Some r' \<and> row_std strict n r' \<and> row_clean r' \<and>
    (strict \<longrightarrow> r' = blank_row n (cell_bg t))"
proof (cases strict)
  case True
  with assms have "row_ok r" "row_len r = n" "row_inner r \<noteq> []"
    by (auto simp: row_std_def row_wf_def row_len_def)
  then have "row_reset t r = Some (blank_row n (cell_bg t))" using row_reset_blank [of r t] by simp
  then show ?thesis by simp
next
  case False
  then show ?thesis using assms row_reset_wf [of n r t] by (auto simp: row_std_def)
qed

lemma row_index_mut_std:
  assumes "row_std strict n r" "i < n"
  shows "\<exists>r'. row_index_mut f i r = Some r' \<and> row_std strict n r' \<and>
    row_inner r' = (row_inner r)[i := f (row_inner r ! i)]"
  using assms row_index_mut_wf [of n r i f] row_index_mut_ok [of r f i] by (auto simp: row_std_def)

section \<open>Properties\<close>

text \<open>
  C31: as long as the occupancy bound is sound, resetting a row, which visits only the cells
  below the bound unless the background changed, equals clearing every cell to a blank of
  the template's background.
\<close>

theorem row_reset_clears:
  assumes "row_ok r" "row_inner r \<noteq> []"
  shows "row_reset t r = Some (blank_row (row_len r) (cell_bg t))"
  by (rule row_reset_blank [OF assms])

theorem row_reset_clears_witness:
  "row_reset default_cell \<lparr>row_inner = [default_cell\<lparr>cell_c := 65\<rparr>, cell_of_color (Indexed 1)],
     row_occ = 1\<rparr> = Some (blank_row 2 (Named Background))"
proof -
  have ok: "row_ok \<lparr>row_inner = [default_cell\<lparr>cell_c := 65\<rparr>, cell_of_color (Indexed 1)], row_occ = 1\<rparr>"
    by (simp add: row_ok_def)
  show ?thesis using row_reset_clears [OF ok, of default_cell]
    by (simp add: row_len_def default_cell_def numeral_2_eq_2)
qed

text \<open>
  The occupancy bound stays sound under every operation of a row: writing cells through
  any of the index forms, discarding, splitting, prepending and shrinking, always; growing
  and appending under the condition their callers establish (a full row, or blank default
  cells at its end).
\<close>

lemma row_operations_keep_occ:
  assumes "row_ok r"
  shows "row_ok (snd (row_shrink_with_minimum columns minimum r)) \<and>
    row_ok (row_last_mut g r) \<and> row_ok (row_append_front vec r) \<and>
    (\<forall>r'. row_discard r = Some r' \<longrightarrow> row_ok r') \<and>
    (\<forall>n v r'. row_front_split_off n r = Some (v, r') \<longrightarrow> row_ok r') \<and>
    (\<forall>i r'. row_index_mut g i r = Some r' \<longrightarrow> row_ok r') \<and>
    (row_occ r = row_len r \<longrightarrow> row_ok (row_append vec r)) \<and>
    (row_occ r = row_len r \<or> cell_bg (last (row_inner r)) = Named Background \<longrightarrow>
       row_ok (row_grow n r))"
  using assms row_discard_ok [OF assms] row_front_split_off_ok [OF assms]
    row_index_mut_ok [OF assms] row_last_mut_ok(1)
  by (auto intro: row_shrink_with_minimum_ok row_append_front_ok row_append_ok row_grow_ok)

theorem row_operations_keep_occ_witness:
  "row_ok (row_grow 3 (blank_row 2 (Named Background)))"
  using row_operations_keep_occ [OF blank_row_ok [of 2 "Named Background"]]
  by (simp add: blank_row_def)

text \<open>
  Shrinking a row to \<open>columns\<close> splits its cells into the kept prefix, the returned tail
  and a rest that holds empty cells only; with a cursor minimum the tail also covers the
  cells up to the minimum.
\<close>

lemma row_shrink_loses_blanks_only:
  assumes "row_shrink_with_minimum columns minimum r = (wrapped, r')"
  shows "\<exists>rest. row_inner r =
      row_inner r' @ (case wrapped of None \<Rightarrow> [] | Some tail \<Rightarrow> tail) @ rest \<and>
    list_all cell_is_empty rest \<and> row_len r' = min columns (row_len r) \<and>
    (\<forall>tail. wrapped = Some tail \<longrightarrow> tail \<noteq> []) \<and>
    min minimum (row_len r) \<le>
      row_len r' + (case wrapped of None \<Rightarrow> 0 | Some tail \<Rightarrow> length tail)"
proof (cases "length (row_inner r) \<le> columns")
  case True
  then show ?thesis using assms by (auto simp: row_shrink_with_minimum_def row_len_def)
next
  case False
  define tail where "tail = drop columns (row_inner r)"
  define k where "k = (case rposition (\<lambda>c. \<not> cell_is_empty c) tail of None \<Rightarrow> 0 | Some i \<Rightarrow> i + 1)"
  define index where "index = max k (min (minimum - columns) (length tail))"
  have r': "row_inner r' = take columns (row_inner r)"
    and w: "wrapped = (if take index tail = [] then None else Some (take index tail))"
    using False assms by (auto simp: row_shrink_with_minimum_def tail_def k_def index_def Let_def
        split: if_splits)
  have w': "(case wrapped of None \<Rightarrow> [] | Some tail \<Rightarrow> tail) = take index tail"
    "(case wrapped of None \<Rightarrow> 0 | Some tail \<Rightarrow> length tail) = length (take index tail)"
    using w by (simp_all split: if_splits)
  have "cell_is_empty (tail ! j)" if "k \<le> j" "j < length tail" for j
    using that rposition_None [of "\<lambda>c. \<not> cell_is_empty c" tail]
      rposition_Some [of "\<lambda>c. \<not> cell_is_empty c" tail]
    by (fastforce simp: k_def split: option.splits)
  moreover have "k \<le> index" by (simp add: index_def)
  ultimately have "list_all cell_is_empty (drop index tail)" by (simp add: list_all_length)
  moreover have "row_inner r = row_inner r' @ take index tail @ drop index tail"
    by (simp add: r' tail_def del: drop_drop)
  moreover have "min minimum (row_len r) \<le> row_len r' + length (take index tail)"
    using False by (simp add: row_len_def r' tail_def index_def) linarith
  moreover have "row_len r' = min columns (row_len r)" using r' by (simp add: row_len_def)
  moreover have "\<forall>t. wrapped = Some t \<longrightarrow> t \<noteq> []" using w by (auto split: if_splits)
  ultimately show ?thesis unfolding w' by (intro exI [of _ "drop index tail"]) simp
qed

theorem row_shrink_loses_blanks_only_witness:
  "\<exists>rest. row_inner \<lparr>row_inner = [default_cell\<lparr>cell_c := 65\<rparr>, default_cell, default_cell], row_occ = 1\<rparr>
     = [default_cell\<lparr>cell_c := 65\<rparr>] @ [default_cell] @ rest \<and> list_all cell_is_empty rest"
proof -
  have h: "row_shrink_with_minimum 1 2
      \<lparr>row_inner = [default_cell\<lparr>cell_c := 65\<rparr>, default_cell, default_cell], row_occ = 1\<rparr> =
    (Some [default_cell], \<lparr>row_inner = [default_cell\<lparr>cell_c := 65\<rparr>], row_occ = 1\<rparr>)"
    by (simp add: row_shrink_with_minimum_def cell_is_empty_def default_cell_def
        cell_inline_marker_def cell_image_def flags_intersects_def)
  show ?thesis using row_shrink_loses_blanks_only [OF h] by auto
qed

text \<open>
  Splitting cells off the front of a row and prepending them again restores the row,
  and a bound that covered the split restores too.
\<close>

lemma row_split_append_roundtrip:
  assumes "row_front_split_off n r = Some (vec, r')"
  shows "row_inner (row_append_front vec r') = row_inner r \<and> length vec = n \<and>
    row_occ (row_append_front vec r') = max n (row_occ r)"
  using assms by (auto simp: row_front_split_off_def row_append_front_def bind_eq_Some_conv)

theorem row_split_append_roundtrip_witness:
  "row_inner (row_append_front [default_cell] (blank_row 1 (Indexed 3)))
    = [default_cell, cell_of_color (Indexed 3)]"
proof -
  have h: "row_front_split_off 1 \<lparr>row_inner = [default_cell, cell_of_color (Indexed 3)], row_occ = 1\<rparr>
      = Some ([default_cell], blank_row 1 (Indexed 3))"
    by (simp add: row_front_split_off_def assert_that_def blank_row_def)
  show ?thesis using row_split_append_roundtrip [OF h] by simp
qed

lemma find_enumerate_rev:
  "List.find (\<lambda>(i, c). P c) (List.enumerate n (rev xs)) =
     map_option (\<lambda>i. (n + (length xs - 1 - i), xs ! i)) (rposition P xs)"
proof (induction xs arbitrary: n)
  case Nil
  then show ?case by simp
next
  case (Cons x xs)
  have *: "List.find Q (as @ bs) = (case List.find Q as of None \<Rightarrow> List.find Q bs | r \<Rightarrow> r)"
    for Q :: "nat \<times> 'a \<Rightarrow> bool" and as bs
    by (induction as) auto
  show ?case
    using Cons.IH [of n] rposition_Some [of P xs]
    by (auto simp: enumerate_append_eq * split: option.splits)
qed

text \<open>
  The length of an unwrapped line is the position after its last cell with content:
  every cell from there on is blank, and the cell before it is not.
\<close>

lemma line_length_spec:
  assumes "row_inner r \<noteq> []" "\<not> flags_contains (cell_flags (last (row_inner r))) WRAPLINE"
  shows "\<exists>n. line_length r = Some n \<and> n \<le> row_len r \<and>
    (\<forall>i. n \<le> i \<and> i < row_len r \<longrightarrow> \<not> has_line_content (row_inner r ! i)) \<and>
    (0 < n \<longrightarrow> has_line_content (row_inner r ! (n - 1)))"
proof -
  let ?n = "case rposition has_line_content (row_inner r) of None \<Rightarrow> 0 | Some i \<Rightarrow> i + 1"
  have "line_length r = Some ?n"
    using assms rposition_Some [of has_line_content "row_inner r"]
    by (auto simp: line_length_def row_len_def row_index_def panic_free last_conv_nth
        find_enumerate_rev Suc_le_eq split: option.splits)
  then show ?thesis
    using rposition_None [of has_line_content "row_inner r"]
      rposition_Some [of has_line_content "row_inner r"]
    by (fastforce simp: row_len_def split: option.splits)
qed

theorem line_length_spec_witness:
  "\<exists>n. line_length \<lparr>row_inner = [default_cell\<lparr>cell_c := 65\<rparr>, default_cell], row_occ = 1\<rparr> = Some n
     \<and> n \<le> 2"
  using line_length_spec [of "\<lparr>row_inner = [default_cell\<lparr>cell_c := 65\<rparr>, default_cell], row_occ = 1\<rparr>"]
  by (auto simp: row_len_def default_cell_def flags_contains_def)

text \<open>
  C32: growing any row that was cleared to a coloured background leaves \<open>occ\<close> unsound, so a later
  reset to the default background changes nothing: \<open>grow\<close> pads with default cells without
  raising \<open>occ\<close>, and \<open>reset\<close> looks at the last cell only. All cells the clear had coloured stay
  coloured, only the padding is blank.
\<close>

theorem row_grow_defeats_reset:
  assumes "row_ok r" "row_inner r \<noteq> []" "cell_bg t \<noteq> Named Background" "row_len r < m" "cell_bg u = Named Background"
  shows "\<exists>r1 r2. row_reset t r = Some r1 \<and> row_ok r1 \<and> \<not> row_ok (row_grow m r1) \<and>
    row_reset u (row_grow m r1) = Some r2 \<and>
    row_inner r2 = replicate (row_len r) (cell_of_color (cell_bg t)) @ replicate (m - row_len r) (cell_of_color (cell_bg u))"
proof -
  let ?r1 = "blank_row (row_len r) (cell_bg t)"
  let ?cs = "replicate (row_len r) (cell_of_color (cell_bg t)) @ replicate (m - row_len r) default_cell"
  have d: "default_cell = cell_of_color (Named Background)" by (simp add: cell_of_color_def default_cell_def)
  have grown: "row_grow m ?r1 = \<lparr>row_inner = ?cs, row_occ = 0\<rparr>"
    using assms(4) by (simp add: row_grow_def blank_row_def resize_with_def)
  have n: "m - row_len r \<noteq> 0" "0 < row_len r" using assms(2,4) by (simp_all add: row_len_def)
  then have last: "last ?cs = default_cell" "?cs ! (length ?cs - 1) = default_cell"
    by (simp_all add: last_append nth_append)
  have "cell_of_color (cell_bg t) \<noteq> default_cell" using assms(3) unfolding d by (metis cell_bg_of_color)
  then have "\<not> row_ok (row_grow m ?r1)"
    using n(2) last(1) by (auto simp: grown row_ok_def d list_all_iff)
  moreover have "row_reset u (row_grow m ?r1) = Some \<lparr>row_inner = ?cs, row_occ = 0\<rparr>"
    using n(2) last(2) assms(5) by (simp add: grown row_reset_def panic_free discriminant_def d)
  ultimately show ?thesis
    using row_reset_blank [OF assms(1,2), of t] blank_row_ok assms(5) d by auto
qed

theorem row_grow_defeats_reset_witness:
  "\<exists>r1 r2. row_reset (cell_of_color (Indexed 1)) (blank_row 2 (Named Background)) = Some r1 \<and>
     row_reset default_cell (row_grow 3 r1) = Some r2 \<and> row_inner r2 ! 0 = cell_of_color (Indexed 1)"
proof -
  have "row_len (blank_row 2 (Named Background)) = 2" "row_inner (blank_row 2 (Named Background)) \<noteq> []"
    by (simp_all add: row_len_def blank_row_def)
  then show ?thesis
    using row_grow_defeats_reset [OF blank_row_ok, of 2 "Named Background" "cell_of_color (Indexed 1)" 3 default_cell]
    by (auto simp: default_cell_def nth_append)
qed

end
