(* ===== verification/Storage.thy ===== *)
theory Storage
  imports Row
begin

text \<open>
  The ring buffer of rows (\<open>nebula_terminal/src/grid/storage.rs\<close>). Lines are numbered from
  the top of the viewport; line \<open>l\<close> lives \<open>visible_lines - 1 - l\<close> places after \<open>zero\<close> in the
  ring, so history has negative numbers. Rows past \<open>len\<close> are a cache.

  The lemmas state every operation on the line-indexed contents: rotation renumbers lines,
  a swap exchanges two, growing and shrinking the buffer keep the others, and rows that
  leave the active part are the only ones whose transient content is discarded.
\<close>

record storage =
  st_inner :: "row list"
  st_zero :: nat
  st_visible_lines :: nat
  st_len :: nat
  st_transient :: bool
  st_images :: bool

abbreviation MIN_CACHE_SIZE :: nat where "MIN_CACHE_SIZE \<equiv> 32"
abbreviation MAX_CACHE_SIZE :: nat where "MAX_CACHE_SIZE \<equiv> 128"

section \<open>Operations\<close>

definition storage_with_capacity :: "nat \<Rightarrow> nat \<Rightarrow> storage option" where
  "storage_with_capacity visible_lines columns = do {
     row \<leftarrow> (if visible_lines = 0 then Some \<lparr>row_inner = [], row_occ = 0\<rparr> else row_new columns);
     Some \<lparr>st_inner = replicate visible_lines row, st_zero = 0,
       st_visible_lines = visible_lines, st_len = visible_lines,
       st_transient = True, st_images = True\<rparr>
   }"

definition storage_clone :: "storage \<Rightarrow> storage" where
  "storage_clone s = s\<lparr>st_transient := True, st_images := True\<rparr>"

definition cache_size :: "storage \<Rightarrow> nat" where
  "cache_size s = max MIN_CACHE_SIZE (min (st_visible_lines s) MAX_CACHE_SIZE)"

definition rezero :: "storage \<Rightarrow> storage option" where
  "rezero s =
     (if st_zero s = 0 then Some s
      else do {
        assert_that (st_zero s \<le> length (st_inner s));
        Some (s\<lparr>st_inner := rotate (st_zero s) (st_inner s), st_zero := 0\<rparr>)
      })"

definition storage_truncate :: "storage \<Rightarrow> storage option" where
  "storage_truncate s = do {
     s \<leftarrow> rezero s;
     Some (s\<lparr>st_inner := take (st_len s) (st_inner s)\<rparr>)
   }"

definition storage_initialize :: "nat \<Rightarrow> nat \<Rightarrow> storage \<Rightarrow> storage option" where
  "storage_initialize additional_rows columns s = do {
     s \<leftarrow> (if st_len s + additional_rows > length (st_inner s)
          then do {
            s \<leftarrow> rezero s;
            row \<leftarrow> row_new columns;
            let realloc_size = length (st_inner s) + max additional_rows (cache_size s);
            Some (s\<lparr>st_inner := resize_with realloc_size row (st_inner s)\<rparr>)
          }
          else Some s);
     Some (s\<lparr>st_len := st_len s + additional_rows\<rparr>)
   }"

text \<open>\<open>self.inner[index].discard()\<close>.\<close>

definition discard_at :: "nat \<Rightarrow> row list \<Rightarrow> row list option" where
  "discard_at i rows = do {
     r \<leftarrow> vec_get rows i;
     r' \<leftarrow> row_discard r;
     vec_set rows i r'
   }"

definition storage_shrink_lines :: "nat \<Rightarrow> storage \<Rightarrow> storage option" where
  "storage_shrink_lines shrinkage s = do {
     start \<leftarrow> usize_sub (st_len s) shrinkage;
     let len = length (st_inner s);
     rows \<leftarrow> (if st_transient s
             then for_each (\<lambda>logical rows. do {
                      assert_that (len \<noteq> 0);
                      discard_at ((st_zero s + logical) mod len) rows
                    }) [start..<st_len s] (st_inner s)
             else Some (st_inner s));
     let s = s\<lparr>st_inner := rows, st_len := start\<rparr>;
     if length (st_inner s) > st_len s + cache_size s then storage_truncate s else Some s
   }"

definition compute_index :: "int \<Rightarrow> storage \<Rightarrow> nat option" where
  "compute_index requested s = do {
     assert_that (requested < int (st_visible_lines s));
     positive \<leftarrow> usize_sub (nat (- (requested - int (st_visible_lines s)))) 1;
     assert_that (positive < st_len s);
     let zeroed = st_zero s + positive;
     if zeroed \<ge> length (st_inner s) then Some (zeroed - length (st_inner s)) else Some zeroed
   }"

definition storage_index :: "int \<Rightarrow> storage \<Rightarrow> row option" where
  "storage_index l s = do {
     i \<leftarrow> compute_index l s;
     vec_get (st_inner s) i
   }"

definition storage_index_mut :: "(row \<Rightarrow> row option) \<Rightarrow> int \<Rightarrow> storage \<Rightarrow> storage option" where
  "storage_index_mut f l s = do {
     i \<leftarrow> compute_index l s;
     r \<leftarrow> vec_get (st_inner s) i;
     r' \<leftarrow> f r;
     rows \<leftarrow> vec_set (st_inner s) i r';
     Some (s\<lparr>st_inner := rows\<rparr>)
   }"

definition grow_visible_lines :: "nat \<Rightarrow> storage \<Rightarrow> storage option" where
  "grow_visible_lines next_lines s = do {
     additional_lines \<leftarrow> usize_sub next_lines (st_visible_lines s);
     r \<leftarrow> storage_index 0 s;
     s \<leftarrow> storage_initialize additional_lines (row_len r) s;
     Some (s\<lparr>st_visible_lines := next_lines\<rparr>)
   }"

definition shrink_visible_lines :: "nat \<Rightarrow> storage \<Rightarrow> storage option" where
  "shrink_visible_lines next_lines s = do {
     shrinkage \<leftarrow> usize_sub (st_visible_lines s) next_lines;
     storage_shrink_lines shrinkage (s\<lparr>st_visible_lines := next_lines\<rparr>)
   }"

text \<open>The word-by-word exchange of two rows.\<close>

definition storage_swap :: "int \<Rightarrow> int \<Rightarrow> storage \<Rightarrow> storage option" where
  "storage_swap a b s = do {
     i \<leftarrow> compute_index a s;
     j \<leftarrow> compute_index b s;
     x \<leftarrow> vec_get (st_inner s) i;
     y \<leftarrow> vec_get (st_inner s) j;
     rows \<leftarrow> vec_set (st_inner s) i y;
     rows \<leftarrow> vec_set rows j x;
     Some (s\<lparr>st_inner := rows\<rparr>)
   }"

definition storage_rotate :: "int \<Rightarrow> storage \<Rightarrow> storage option" where
  "storage_rotate count s = do {
     let len = length (st_inner s);
     assert_that (nat \<bar>count\<bar> \<le> len);
     assert_that (len \<noteq> 0);
     let new_zero = nat (int (st_zero s) + count + int len) mod len;
     rows \<leftarrow> (if st_transient s
             then do {
               let candidates = min (nat \<bar>count\<bar>) (st_len s);
               let start = (if count < 0 then st_len s - candidates else 0);
               for_each (\<lambda>logical rows.
                   (let index = (st_zero s + logical) mod len
                    in if (index + len - new_zero) mod len \<ge> st_len s
                       then discard_at index rows else Some rows))
                 [start..<start + candidates] (st_inner s)
             }
             else Some (st_inner s));
     Some (s\<lparr>st_inner := rows, st_zero := new_zero\<rparr>)
   }"

definition storage_rotate_down :: "nat \<Rightarrow> storage \<Rightarrow> storage option" where
  "storage_rotate_down count s = storage_rotate (int count) s"

definition storage_replace_inner :: "row list \<Rightarrow> storage \<Rightarrow> storage" where
  "storage_replace_inner vec s = s\<lparr>st_len := length vec, st_inner := vec, st_zero := 0\<rparr>"

definition storage_take_all :: "storage \<Rightarrow> (row list \<times> storage) option" where
  "storage_take_all s = do {
     s \<leftarrow> storage_truncate s;
     Some (st_inner s, s\<lparr>st_inner := [], st_len := 0\<rparr>)
   }"

definition storage_eq :: "storage \<Rightarrow> storage \<Rightarrow> bool option" where
  "storage_eq s t = do {
     assert_that (st_zero s = 0);
     assert_that (st_zero t = 0);
     Some (map row_inner (st_inner s) = map row_inner (st_inner t) \<and> st_len s = st_len t)
   }"

section \<open>Contents by ring position and by line\<close>

definition ring_at :: "storage \<Rightarrow> nat \<Rightarrow> row" where
  "ring_at s k = st_inner s ! ((st_zero s + k) mod length (st_inner s))"

definition line_at :: "storage \<Rightarrow> int \<Rightarrow> row" where
  "line_at s l = ring_at s (nat (int (st_visible_lines s) - 1 - l))"

definition top_line :: "storage \<Rightarrow> int" where
  "top_line s = int (st_visible_lines s) - int (st_len s)"

definition valid_line :: "storage \<Rightarrow> int \<Rightarrow> bool" where
  "valid_line s l \<longleftrightarrow> top_line s \<le> l \<and> l < int (st_visible_lines s)"

text \<open>
  The invariant for rows of \<open>n\<close> columns; the strict form also asks for sound occupancy bounds
  (\<open>row_std\<close>).
\<close>

definition storage_ok :: "bool \<Rightarrow> nat \<Rightarrow> storage \<Rightarrow> bool" where
  "storage_ok strict n s \<longleftrightarrow>
     1 \<le> n \<and> st_inner s \<noteq> [] \<and> st_zero s < length (st_inner s) \<and>
     1 \<le> st_visible_lines s \<and> st_visible_lines s \<le> st_len s \<and> st_len s \<le> length (st_inner s) \<and>
     list_all (row_std strict n) (st_inner s) \<and>
     (\<not> st_transient s \<longrightarrow> list_all row_clean (st_inner s)) \<and>
     (\<forall>k < length (st_inner s). st_len s \<le> k \<longrightarrow> row_clean (ring_at s k))"

text \<open>The part of the state an in-place update of rows leaves alone.\<close>

definition storage_frame :: "storage \<Rightarrow> nat \<times> nat \<times> nat \<times> nat \<times> bool \<times> bool" where
  "storage_frame s =
     (length (st_inner s), st_zero s, st_visible_lines s, st_len s, st_transient s, st_images s)"

definition row_good :: "bool \<Rightarrow> nat \<Rightarrow> storage \<Rightarrow> row \<Rightarrow> bool" where
  "row_good strict n s r \<longleftrightarrow> row_std strict n r \<and> (\<not> st_transient s \<longrightarrow> row_clean r)"

text \<open>What a reset leaves behind: a blank row when the occupancy bounds are sound.\<close>

definition reset_row :: "bool \<Rightarrow> nat \<Rightarrow> color \<Rightarrow> row \<Rightarrow> bool" where
  "reset_row strict n col r \<longleftrightarrow> row_std strict n r \<and> row_clean r \<and> (strict \<longrightarrow> r = blank_row n col)"

text \<open>A concrete buffer for the witnesses: three lines of two columns, one in history.\<close>

definition sample_storage :: storage where
  "sample_storage = \<lparr>st_inner = [blank_row 2 (Named Background), blank_row 2 (Indexed 1),
     blank_row 2 (Indexed 2), blank_row 2 (Indexed 3)], st_zero = 3, st_visible_lines = 2,
     st_len = 3, st_transient = True, st_images = True\<rparr>"

section \<open>The ring\<close>

lemmas storage_okD = storage_ok_def [THEN iffD1]

lemma ring_index_inj:
  fixes z n :: nat
  assumes "i < n" "j < n" "(z + i) mod n = (z + j) mod n"
  shows "i = j"
proof -
  have "a = b" if "a \<le> b" "b < n" "(z + a) mod n = (z + b) mod n" for a b
  proof -
    have "n dvd b - a" using that mod_eq_dvd_iff_nat [of "z + a" "z + b" n] by simp
    then show ?thesis using that by (auto dest: dvd_imp_le)
  qed
  then show ?thesis using assms by (metis nat_le_linear)
qed

lemma ring_index_less: "n \<noteq> 0 \<Longrightarrow> (z + k) mod n < (n :: nat)"
  by simp

text \<open>Overwriting the row at one ring position.\<close>

lemma ring_at_update:
  assumes "st_inner s \<noteq> []" "j < length (st_inner s)" "k < length (st_inner s)"
  shows "ring_at (s\<lparr>st_inner := (st_inner s)[(st_zero s + j) mod length (st_inner s) := r]\<rparr>) k
    = (if k = j then r else ring_at s k)"
proof (cases "k = j")
  case False
  then have "(st_zero s + j) mod length (st_inner s) \<noteq> (st_zero s + k) mod length (st_inner s)"
    using assms ring_index_inj [of j "length (st_inner s)" k "st_zero s"] by auto
  with False show ?thesis by (simp add: ring_at_def)
qed (use assms in \<open>simp add: ring_at_def\<close>)

text \<open>Every element of the buffer is at some ring position.\<close>

lemma ring_position:
  assumes "i < n" "z < n"
  shows "(z + (i + n - z) mod n) mod n = (i :: nat)"
proof -
  have "(z + (i + n - z) mod n) mod n = (z + (i + n - z)) mod n" by (simp add: mod_add_right_eq)
  also have "\<dots> = i" using assms by simp
  finally show ?thesis .
qed

lemma set_inner_ring:
  assumes "st_inner s \<noteq> []" "st_zero s < length (st_inner s)"
  shows "set (st_inner s) = ring_at s ` {..<length (st_inner s)}"
proof
  show "ring_at s ` {..<length (st_inner s)} \<subseteq> set (st_inner s)"
    using assms(1) by (auto simp: ring_at_def)
  show "set (st_inner s) \<subseteq> ring_at s ` {..<length (st_inner s)}"
  proof
    fix r assume "r \<in> set (st_inner s)"
    then obtain i where i: "i < length (st_inner s)" "r = st_inner s ! i"
      by (auto simp: in_set_conv_nth)
    let ?k = "(i + length (st_inner s) - st_zero s) mod length (st_inner s)"
    have "r = ring_at s ?k" using ring_position [OF i(1) assms(2)] i(2) by (simp add: ring_at_def)
    moreover have "?k < length (st_inner s)" using assms(1) by simp
    ultimately show "r \<in> ring_at s ` {..<length (st_inner s)}" by blast
  qed
qed

text \<open>\<open>storage_ok\<close> in terms of ring positions.\<close>

lemma storage_ok_ring:
  "storage_ok strict n s \<longleftrightarrow>
     1 \<le> n \<and> st_inner s \<noteq> [] \<and> st_zero s < length (st_inner s) \<and>
     1 \<le> st_visible_lines s \<and> st_visible_lines s \<le> st_len s \<and> st_len s \<le> length (st_inner s) \<and>
     (\<forall>k < length (st_inner s). row_std strict n (ring_at s k) \<and>
        (\<not> st_transient s \<or> st_len s \<le> k \<longrightarrow> row_clean (ring_at s k)))"
proof (cases "st_inner s \<noteq> [] \<and> st_zero s < length (st_inner s)")
  case True
  then show ?thesis
    using set_inner_ring [of s] by (auto simp: storage_ok_def list_all_iff)
next
  case False
  then show ?thesis by (auto simp: storage_ok_def)
qed

lemma ring_at_wf: "storage_ok strict n s \<Longrightarrow> k < length (st_inner s) \<Longrightarrow> row_std strict n (ring_at s k)"
  by (simp add: storage_ok_ring)

section \<open>Indexing\<close>

lemma valid_position:
  assumes "storage_ok strict n s" "valid_line s l"
  shows "nat (int (st_visible_lines s) - 1 - l) < st_len s"
    "nat (int (st_visible_lines s) - 1 - l) < length (st_inner s)"
  using assms by (auto simp: valid_line_def top_line_def storage_ok_def)

lemma compute_index_ring:
  assumes "storage_ok strict n s" "valid_line s l"
  shows "compute_index l s = Some
    ((st_zero s + nat (int (st_visible_lines s) - 1 - l)) mod length (st_inner s))"
proof -
  let ?k = "nat (int (st_visible_lines s) - 1 - l)"
  have k: "nat (- (l - int (st_visible_lines s))) - 1 = ?k"
    "1 \<le> nat (- (l - int (st_visible_lines s)))"
    using assms(2) by (auto simp: valid_line_def)
  have z: "st_zero s < length (st_inner s)" using assms(1) by (simp add: storage_ok_def)
  have "(st_zero s + ?k) mod length (st_inner s) =
      (if st_zero s + ?k \<ge> length (st_inner s) then st_zero s + ?k - length (st_inner s)
       else st_zero s + ?k)"
    using z valid_position(2) [OF assms] by (auto simp: mod_if)
  then show ?thesis
    using assms(2) k valid_position(1) [OF assms]
    by (simp add: compute_index_def valid_line_def usize_sub_def assert_that_def)
qed

lemma storage_index_line [panic_free]:
  "storage_ok strict n s \<Longrightarrow> valid_line s l \<Longrightarrow> storage_index l s = Some (line_at s l)"
  using ring_index_less [of "length (st_inner s)" "st_zero s"]
  by (auto simp: storage_index_def compute_index_ring panic_free line_at_def ring_at_def storage_ok_def)

lemma storage_index_None: "\<not> valid_line s l \<Longrightarrow> storage_index l s = None"
  by (auto simp: storage_index_def compute_index_def valid_line_def top_line_def
      usize_sub_def assert_that_def)

lemma storage_frame_lines:
  "storage_frame s' = storage_frame s \<Longrightarrow>
     valid_line s' = valid_line s \<and> row_good strict n s' = row_good strict n s"
  by (auto simp: storage_frame_def valid_line_def top_line_def row_good_def fun_eq_iff)

lemma line_at_good: "storage_ok strict n s \<Longrightarrow> valid_line s l \<Longrightarrow> row_good strict n s (line_at s l)"
  using valid_position [of strict n s l] by (auto simp: line_at_def row_good_def storage_ok_ring)

lemma storage_index_mut_line:
  assumes ok: "storage_ok strict n s" and l: "valid_line s l"
    and f: "f (line_at s l) = Some r" and r: "row_good strict n s r"
  shows "\<exists>s'. storage_index_mut f l s = Some s' \<and> storage_ok strict n s' \<and>
    storage_frame s' = storage_frame s \<and>
    (\<forall>m. valid_line s m \<longrightarrow> line_at s' m = (if m = l then r else line_at s m))"
proof -
  let ?n = "length (st_inner s)" and ?k = "\<lambda>m. nat (int (st_visible_lines s) - 1 - m)"
  let ?s = "s\<lparr>st_inner := (st_inner s)[(st_zero s + ?k l) mod ?n := r]\<rparr>"
  have ne: "st_inner s \<noteq> []" using ok by (simp add: storage_ok_def)
  have ring: "ring_at ?s k = (if k = ?k l then r else ring_at s k)" if "k < ?n" for k
    by (rule ring_at_update [OF ne valid_position(2) [OF ok l] that])
  have eq: "storage_index_mut f l s = Some ?s"
    using ne f by (simp add: storage_index_mut_def compute_index_ring [OF ok l] panic_free
        line_at_def ring_at_def)
  moreover have "storage_ok strict n ?s"
    using ok r valid_position(1) [OF ok l] by (auto simp: storage_ok_ring ring row_good_def)
  moreover have "storage_frame ?s = storage_frame s" by (simp add: storage_frame_def)
  moreover have "line_at ?s m = (if m = l then r else line_at s m)" if "valid_line s m" for m
  proof -
    have "?k m = ?k l \<longleftrightarrow> m = l" using that l by (auto simp: valid_line_def)
    then show ?thesis using ring [OF valid_position(2) [OF ok that]] by (simp add: line_at_def)
  qed
  ultimately show ?thesis by blast
qed

lemma storage_swap_line:
  assumes ok: "storage_ok strict n s" and a: "valid_line s a" and b: "valid_line s b"
  shows "\<exists>s'. storage_swap a b s = Some s' \<and> storage_ok strict n s' \<and>
    storage_frame s' = storage_frame s \<and>
    (\<forall>m. valid_line s m \<longrightarrow>
       line_at s' m = line_at s (if m = a then b else if m = b then a else m))"
proof -
  obtain s1 where s1: "storage_index_mut (\<lambda>_. Some (line_at s b)) a s = Some s1"
    "storage_ok strict n s1" "storage_frame s1 = storage_frame s"
    "\<And>m. valid_line s m \<Longrightarrow> line_at s1 m = (if m = a then line_at s b else line_at s m)"
    using storage_index_mut_line [OF ok a _ line_at_good [OF ok b], of "\<lambda>_. Some (line_at s b)"]
    by auto
  have v1: "valid_line s1 = valid_line s" "row_good strict n s1 = row_good strict n s"
    using storage_frame_lines [OF s1(3)] by auto
  obtain s2 where s2: "storage_index_mut (\<lambda>_. Some (line_at s a)) b s1 = Some s2"
    "storage_ok strict n s2" "storage_frame s2 = storage_frame s1"
    "\<And>m. valid_line s1 m \<Longrightarrow> line_at s2 m = (if m = b then line_at s a else line_at s1 m)"
    using storage_index_mut_line [OF s1(2), of b "\<lambda>_. Some (line_at s a)" "line_at s a"]
      line_at_good [OF ok a] b v1 by auto
  let ?i = "\<lambda>l. (st_zero s + nat (int (st_visible_lines s) - 1 - l)) mod length (st_inner s)"
  have ne: "st_inner s \<noteq> []" using ok by (simp add: storage_ok_def)
  have e1: "s1 = s\<lparr>st_inner := (st_inner s)[?i a := line_at s b]\<rparr>"
    using s1(1) ne by (simp add: storage_index_mut_def compute_index_ring [OF ok a] panic_free)
  have "valid_line s1 b" using v1 b by simp
  then have c: "compute_index b s1 = Some (?i b)" "length (st_inner s1) = length (st_inner s)"
    using compute_index_ring [OF s1(2), of b] e1 by simp_all
  then have "s2 = s1\<lparr>st_inner := (st_inner s1)[?i b := line_at s a]\<rparr>"
    using s2(1) ne by (simp add: storage_index_mut_def panic_free)
  then have "storage_swap a b s = Some s2"
    using ne e1 by (simp add: storage_swap_def compute_index_ring [OF ok a]
        compute_index_ring [OF ok b] panic_free line_at_def ring_at_def)
  then show ?thesis using s1 s2 v1 by (auto split: if_splits)
qed

section \<open>Growing, shrinking and rotating\<close>

lemma rezero_ring:
  assumes "st_inner s \<noteq> []" "st_zero s < length (st_inner s)"
  shows "\<exists>s'. rezero s = Some s' \<and> st_zero s' = 0 \<and> length (st_inner s') = length (st_inner s) \<and>
    st_visible_lines s' = st_visible_lines s \<and> st_len s' = st_len s \<and>
    st_transient s' = st_transient s \<and> st_images s' = st_images s \<and>
    (\<forall>k < length (st_inner s). st_inner s' ! k = ring_at s k)"
proof (cases "st_zero s = 0")
  case True
  then show ?thesis by (simp add: rezero_def ring_at_def)
next
  case False
  then show ?thesis using assms by (simp add: rezero_def panic_free ring_at_def nth_rotate)
qed

lemma storage_truncate_ring:
  assumes "storage_ok strict n s"
  shows "\<exists>s'. storage_truncate s = Some s' \<and> storage_ok strict n s' \<and> st_zero s' = 0 \<and>
    length (st_inner s') = st_len s \<and> st_len s' = st_len s \<and>
    st_visible_lines s' = st_visible_lines s \<and> st_transient s' = st_transient s \<and>
    st_images s' = st_images s \<and> (\<forall>k < st_len s. ring_at s' k = ring_at s k)"
proof -
  obtain s1 where s1: "rezero s = Some s1" "st_zero s1 = 0"
    "length (st_inner s1) = length (st_inner s)" "st_visible_lines s1 = st_visible_lines s"
    "st_len s1 = st_len s" "st_transient s1 = st_transient s" "st_images s1 = st_images s"
    "\<And>k. k < length (st_inner s) \<Longrightarrow> st_inner s1 ! k = ring_at s k"
    using rezero_ring [of s] assms by (auto simp: storage_ok_def)
  let ?s = "s1\<lparr>st_inner := take (st_len s1) (st_inner s1)\<rparr>"
  have len: "1 \<le> st_len s" "st_len s \<le> length (st_inner s)"
    using assms by (auto simp: storage_ok_def)
  have ring: "ring_at ?s k = ring_at s k" if "k < st_len s" for k
    using that s1 len by (simp add: ring_at_def)
  have "storage_ok strict n ?s"
    using assms s1 len ring by (auto simp: storage_ok_ring)
  then show ?thesis using s1 len ring by (auto simp: storage_truncate_def)
qed

text \<open>Ring positions past the old end of the buffer hold fresh rows after a reallocation.\<close>

lemma storage_initialize_ring:
  assumes "storage_ok strict n s"
  shows "\<exists>s'. storage_initialize m n s = Some s' \<and> storage_ok strict n s' \<and> st_len s' = st_len s + m \<and>
    st_visible_lines s' = st_visible_lines s \<and> st_transient s' = st_transient s \<and>
    st_images s' = st_images s \<and> length (st_inner s) \<le> length (st_inner s') \<and>
    (\<forall>k < length (st_inner s). ring_at s' k = ring_at s k) \<and>
    (\<forall>k < length (st_inner s'). length (st_inner s) \<le> k \<longrightarrow>
       ring_at s' k = blank_row n (Named Background))"
proof (cases "st_len s + m > length (st_inner s)")
  case False
  then show ?thesis using assms
    by (auto simp: storage_initialize_def storage_ok_ring ring_at_def)
next
  case True
  have n: "1 \<le> n" using assms by (simp add: storage_ok_def)
  obtain s1 where s1: "rezero s = Some s1" "st_zero s1 = 0"
    "length (st_inner s1) = length (st_inner s)" "st_visible_lines s1 = st_visible_lines s"
    "st_len s1 = st_len s" "st_transient s1 = st_transient s" "st_images s1 = st_images s"
    "\<And>k. k < length (st_inner s) \<Longrightarrow> st_inner s1 ! k = ring_at s k"
    using rezero_ring [of s] assms by (auto simp: storage_ok_def)
  define size where "size = length (st_inner s1) + max m (cache_size s1)"
  let ?rows = "resize_with size (blank_row n (Named Background)) (st_inner s1)"
  let ?s = "s1\<lparr>st_inner := ?rows, st_len := st_len s1 + m\<rparr>"
  have eq: "storage_initialize m n s = Some ?s"
    using True s1(1) n by (simp add: storage_initialize_def panic_free size_def)
  have size: "length (st_inner s) < size" "st_len s + m \<le> size"
    using assms s1(3) by (auto simp: size_def storage_ok_def cache_size_def)
  have ring: "ring_at ?s k =
      (if k < length (st_inner s) then ring_at s k else blank_row n (Named Background))"
    if "k < size" for k
    using that s1 by (simp add: ring_at_def nth_resize_with)
  have ok: "storage_ok strict n ?s"
    using assms s1 size ring by (auto simp: storage_ok_ring)
  show ?thesis
    unfolding eq using ok s1 size ring by auto
qed

text \<open>The cleanup loops: visited rows end up clean, the others are untouched.\<close>

lemma discard_at_row:
  assumes "list_all (row_std strict n) rows" "i < length rows"
  shows "\<exists>r'. discard_at i rows = Some (rows[i := r']) \<and> row_std strict n r' \<and> row_clean r'"
  using assms row_discard_std [of strict n "rows ! i"]
  by (fastforce simp: discard_at_def panic_free list_all_length)

lemma discard_loop:
  assumes "list_all (row_std strict n) rows" "\<forall>x \<in> set xs. P x \<longrightarrow> idx x < length rows"
  shows "\<exists>rows'. for_each (\<lambda>x rows. if P x then discard_at (idx x) rows else Some rows) xs rows
      = Some rows' \<and> length rows' = length rows \<and> list_all (row_std strict n) rows' \<and>
    (\<forall>i < length rows.
       (i \<notin> idx ` {x \<in> set xs. P x} \<longrightarrow> rows' ! i = rows ! i) \<and>
       (i \<in> idx ` {x \<in> set xs. P x} \<or> row_clean (rows ! i) \<longrightarrow> row_clean (rows' ! i)))"
  using assms
proof (induction xs arbitrary: rows)
  case Nil
  then show ?case by simp
next
  case (Cons x xs)
  show ?case
  proof (cases "P x")
    case False
    then have "{y \<in> set (x # xs). P y} = {y \<in> set xs. P y}" by auto
    with False show ?thesis using Cons.IH [of rows] Cons.prems by simp
  next
    case True
    then obtain r' where r': "discard_at (idx x) rows = Some (rows[idx x := r'])" "row_std strict n r'"
      "row_clean r'"
      using discard_at_row [of strict n rows "idx x"] Cons.prems by auto
    let ?rows = "rows[idx x := r']"
    have "list_all (row_std strict n) ?rows"
      using Cons.prems(1) r'(2)
      by (auto simp: list_all_iff dest!: set_update_subset_insert [THEN subsetD])
    then obtain rows' where rows': "for_each (\<lambda>x rows. if P x then discard_at (idx x) rows else Some rows)
          xs ?rows = Some rows'" "length rows' = length rows" "list_all (row_std strict n) rows'"
      "\<And>i. i < length rows \<Longrightarrow> i \<notin> idx ` {x \<in> set xs. P x} \<Longrightarrow> rows' ! i = ?rows ! i"
      "\<And>i. i < length rows \<Longrightarrow> i \<in> idx ` {x \<in> set xs. P x} \<or> row_clean (?rows ! i) \<Longrightarrow>
         row_clean (rows' ! i)"
      using Cons.IH [of ?rows] Cons.prems(2) by auto
    have img: "idx ` {y \<in> set (x # xs). P y} = insert (idx x) (idx ` {y \<in> set xs. P y})"
      using True by auto
    have "(i \<notin> idx ` {y \<in> set (x # xs). P y} \<longrightarrow> rows' ! i = rows ! i) \<and>
        (i \<in> idx ` {y \<in> set (x # xs). P y} \<or> row_clean (rows ! i) \<longrightarrow> row_clean (rows' ! i))"
      if "i < length rows" for i
      using that rows'(4) [of i] rows'(5) [of i] r'(3) unfolding img
      by (cases "i = idx x") auto
    then show ?thesis using True r'(1) rows' by auto
  qed
qed

lemma storage_shrink_lines_ring:
  assumes ok: "storage_ok strict n s" and m: "m \<le> st_len s" "st_visible_lines s \<le> st_len s - m"
  shows "\<exists>s'. storage_shrink_lines m s = Some s' \<and> storage_ok strict n s' \<and> st_len s' = st_len s - m \<and>
    st_visible_lines s' = st_visible_lines s \<and> st_transient s' = st_transient s \<and>
    st_images s' = st_images s \<and> (\<forall>k < st_len s - m. ring_at s' k = ring_at s k)"
proof -
  let ?N = "length (st_inner s)" and ?idx = "\<lambda>k. (st_zero s + k) mod length (st_inner s)"
  let ?start = "st_len s - m"
  have N: "?N \<noteq> 0" "st_len s \<le> ?N" using ok by (auto simp: storage_ok_def)
  have idx: "?idx k < ?N" for k using N by simp
  define rows where "rows = (if st_transient s
      then the (for_each (\<lambda>k rows. if True then discard_at (?idx k) rows else Some rows)
             [?start..<st_len s] (st_inner s))
      else st_inner s)"
  have wf: "list_all (row_std strict n) (st_inner s)" using ok by (simp add: storage_ok_def)
  have range: "{k \<in> set [?start..<st_len s]. True} = {?start..<st_len s}" by auto
  obtain rows' where loop: "for_each (\<lambda>k rows. if True then discard_at (?idx k) rows else Some rows)
        [?start..<st_len s] (st_inner s) = Some rows'"
    "length rows' = ?N" "list_all (row_std strict n) rows'"
    "\<And>i. i < ?N \<Longrightarrow> i \<notin> ?idx ` {?start..<st_len s} \<Longrightarrow> rows' ! i = st_inner s ! i"
    "\<And>i. i < ?N \<Longrightarrow> i \<in> ?idx ` {?start..<st_len s} \<or> row_clean (st_inner s ! i) \<Longrightarrow> row_clean (rows' ! i)"
    using discard_loop [OF wf, of "[?start..<st_len s]" "\<lambda>_. True" ?idx] idx unfolding range by auto
  let ?s = "s\<lparr>st_inner := rows, st_len := ?start\<rparr>"
  have len: "length rows = ?N" using loop(1,2) by (simp add: rows_def)
  have mem: "?idx k \<in> ?idx ` {?start..<st_len s} \<longleftrightarrow> ?start \<le> k \<and> k < st_len s"
    if "k < ?N" for k
  proof
    assume "?idx k \<in> ?idx ` {?start..<st_len s}"
    then obtain j where j: "?idx k = ?idx j" "?start \<le> j" "j < st_len s" by auto
    then have "k = j" using that N(2) by (intro ring_index_inj [OF _ _ j(1)]) auto
    with j show "?start \<le> k \<and> k < st_len s" by simp
  qed auto
  have keep: "ring_at ?s k = ring_at s k" if "k < ?start" for k
  proof -
    have "k < ?N" using that N by simp
    then have "rows ! ?idx k = st_inner s ! ?idx k"
      using that loop(1) loop(4) [OF idx, of k] mem [of k] by (simp add: rows_def)
    then show ?thesis using len by (simp add: ring_at_def)
  qed
  have ok': "storage_ok strict n ?s"
  proof -
    have "row_std strict n (ring_at ?s k)" if "k < ?N" for k
      using loop(1,3) wf idx [of k] len by (auto simp: rows_def ring_at_def list_all_length)
    moreover have "row_clean (ring_at ?s k)" if "k < ?N" "?start \<le> k \<or> \<not> st_transient s" for k
    proof (cases "st_transient s")
      case False
      then show ?thesis using ok that by (simp add: storage_ok_ring rows_def ring_at_def)
    next
      case True
      have "row_clean (st_inner s ! ?idx k)" if "st_len s \<le> k"
        using ok that \<open>k < ?N\<close> by (auto simp: storage_ok_ring ring_at_def)
      then show ?thesis
        using True that loop(1,2) loop(5) [OF idx, of k] mem [of k] by (force simp: rows_def ring_at_def)
    qed
    ultimately show ?thesis using ok m len N by (auto simp: storage_ok_ring)
  qed
  have eq: "storage_shrink_lines m s =
      (if ?N > st_len ?s + cache_size ?s then storage_truncate ?s else Some ?s)"
    using m(1) N(1) loop(1,2)
    by (simp add: storage_shrink_lines_def panic_free rows_def Let_def)
  show ?thesis
    using eq ok' keep storage_truncate_ring [OF ok'] by (cases "?N > st_len ?s + cache_size ?s") auto
qed

lemma mod_shift:
  fixes x :: int
  shows "0 \<le> x \<Longrightarrow> x < m \<Longrightarrow> x mod m = x"
    and "- m \<le> x \<Longrightarrow> x < 0 \<Longrightarrow> x mod m = x + m"
    and "m \<le> x \<Longrightarrow> x < 2 * m \<Longrightarrow> x mod m = x - m"
proof -
  show "x mod m = x + m" if "- m \<le> x" "x < 0"
  proof -
    have "x mod m = (x + m) mod m" by simp
    also have "\<dots> = x + m" by (rule mod_pos_pos_trivial) (use that in auto)
    finally show ?thesis .
  qed
  show "x mod m = x - m" if "m \<le> x" "x < 2 * m"
  proof -
    have "x mod m = (x - m) mod m" by simp
    also have "\<dots> = x - m" by (rule mod_pos_pos_trivial) (use that in auto)
    finally show ?thesis .
  qed
qed simp

text \<open>Where a ring position comes from under a rotation.\<close>

lemma rotated_index:
  fixes z k n :: nat and count :: int
  assumes "z < n" "\<bar>count\<bar> \<le> int n"
  defines "z' \<equiv> nat (int z + count + int n) mod n"
  shows "(z' + k) mod n = (z + nat ((int k + count) mod int n)) mod n"
proof -
  have "int z' = (int z + count + int n) mod int n"
    using assms(2) by (simp add: z'_def zmod_int)
  then have "int ((z' + k) mod n) = ((int z + count) mod int n + int k) mod int n"
    by (simp add: zmod_int)
  also have "\<dots> = (int z + count + int k) mod int n" by (rule mod_add_left_eq)
  also have "\<dots> = (int z + (int k + count)) mod int n" by (simp only: ac_simps)
  also have "\<dots> = (int z + (int k + count) mod int n) mod int n" by (simp add: mod_add_right_eq)
  also have "\<dots> = int ((z + nat ((int k + count) mod int n)) mod n)"
    using assms(1) by (simp add: zmod_int)
  finally show ?thesis by simp
qed

lemma storage_rotate_ring:
  assumes ok: "storage_ok strict n s" and c: "\<bar>count\<bar> \<le> int (length (st_inner s))"
  shows "\<exists>s'. storage_rotate count s = Some s' \<and> storage_ok strict n s' \<and>
    length (st_inner s') = length (st_inner s) \<and> st_len s' = st_len s \<and>
    st_visible_lines s' = st_visible_lines s \<and> st_transient s' = st_transient s \<and>
    st_images s' = st_images s \<and>
    (\<forall>k < st_len s.
       ring_at s' k = ring_at s (nat ((int k + count) mod int (length (st_inner s)))))"
proof -
  let ?N = "length (st_inner s)" and ?idx = "\<lambda>k. (st_zero s + k) mod length (st_inner s)"
  define z where "z = nat (int (st_zero s) + count + int ?N) mod ?N"
  define old where "old = (\<lambda>k. nat ((int k + count) mod int ?N))"
  define cand where "cand = min (nat \<bar>count\<bar>) (st_len s)"
  define start where "start = (if count < 0 then st_len s - cand else 0)"
  define P where "P = (\<lambda>k. st_len s \<le> (?idx k + ?N - z) mod ?N)"
  let ?body = "\<lambda>k rows. if P k then discard_at (?idx k) rows else Some rows"
  have N: "?N \<noteq> 0" "st_len s \<le> ?N" "st_zero s < ?N" using ok by (auto simp: storage_ok_def)
  have idx: "?idx k < ?N" for k using N by simp
  have old: "old k < ?N" for k using N by (simp add: old_def nat_less_iff)
  have zN: "z < ?N" using N by (simp add: z_def)
  have from_old: "(z + k) mod ?N = ?idx (old k)" for k
    using rotated_index [OF N(3) c] by (simp add: z_def old_def)
  have new_pos: "(?idx (old k) + ?N - z) mod ?N = k" if "k < ?N" for k
  proof -
    have "(z + (?idx (old k) + ?N - z) mod ?N) mod ?N = (z + k) mod ?N"
      using ring_position [OF idx zN, of "old k"] from_old by simp
    then show ?thesis using ring_index_inj [of "(?idx (old k) + ?N - z) mod ?N" ?N k z] that N by simp
  qed
  have wf: "list_all (row_std strict n) (st_inner s)" using ok by (simp add: storage_ok_def)
  define V where "V = ?idx ` {k \<in> set [start..<start + cand]. P k}"
  obtain rows' where loop: "for_each ?body [start..<start + cand] (st_inner s) = Some rows'"
    "length rows' = ?N" "list_all (row_std strict n) rows'"
    "\<And>i. i < ?N \<Longrightarrow> i \<notin> V \<Longrightarrow> rows' ! i = st_inner s ! i"
    "\<And>i. i < ?N \<Longrightarrow> i \<in> V \<or> row_clean (st_inner s ! i) \<Longrightarrow> row_clean (rows' ! i)"
    using discard_loop [OF wf, of "[start..<start + cand]" P ?idx] idx unfolding V_def [symmetric]
    by auto
  have stays: "?idx (old k) \<notin> V" if "k < st_len s" for k
  proof
    assume "?idx (old k) \<in> V"
    then obtain j where "?idx (old k) = ?idx j" "P j" by (auto simp: V_def)
    then have "st_len s \<le> (?idx (old k) + ?N - z) mod ?N" by (simp add: P_def)
    then show False using new_pos [of k] that N(2) by simp
  qed
  have leaves: "?idx (old k) \<in> V" if "st_len s \<le> k" "k < ?N" "old k < st_len s" for k
  proof -
    have "old k \<in> set [start..<start + cand]"
    proof -
      have b: "- int ?N \<le> int k + count" "int k + count < 2 * int ?N" using c that(2) by auto
      consider "0 \<le> int k + count" "int k + count < int ?N" | "int k + count < 0"
        | "int ?N \<le> int k + count" by linarith
      then show ?thesis
        by cases (use that b c N mod_shift [where x = "int k + count" and m = "int ?N"] in
          \<open>auto simp: old_def start_def cand_def\<close>)
    qed
    moreover have "P (old k)" using new_pos [OF that(2)] that(1) by (simp add: P_def)
    ultimately show ?thesis by (auto simp: V_def)
  qed
  define rows where "rows = (if st_transient s then rows' else st_inner s)"
  let ?s = "s\<lparr>st_inner := rows, st_zero := z\<rparr>"
  have len: "length rows = ?N" using loop(2) by (simp add: rows_def)
  have ring: "ring_at ?s k = rows ! ?idx (old k)" for k
    using from_old len by (simp add: ring_at_def)
  have "storage_rotate count s = Some ?s"
    using c N(1) loop(1)
    by (simp add: storage_rotate_def panic_free Let_def z_def [symmetric] cand_def [symmetric]
        start_def [symmetric] P_def rows_def nat_le_iff)
  moreover have "storage_ok strict n ?s"
  proof -
    have "row_std strict n (ring_at ?s k)" if "k < ?N" for k
      using loop(2,3) wf idx [of "old k"] unfolding ring by (simp add: rows_def list_all_length)
    moreover have "row_clean (ring_at ?s k)" if "k < ?N" "\<not> st_transient s \<or> st_len s \<le> k" for k
    proof (cases "st_transient s")
      case False
      then show ?thesis using ok old [of k] by (simp add: storage_ok_ring from_old rows_def ring_at_def)
    next
      case True
      have "row_clean (st_inner s ! ?idx (old k))" if "st_len s \<le> old k"
        using ok that old [of k] by (auto simp: storage_ok_ring ring_at_def)
      then show ?thesis
        using True that leaves [of k] loop(5) [OF idx, of "old k"] len
        by (cases "old k < st_len s") (auto simp: from_old rows_def ring_at_def)
    qed
    ultimately show ?thesis using ok zN len by (auto simp: storage_ok_ring)
  qed
  moreover have "ring_at ?s k = ring_at s (old k)" if "k < st_len s" for k
    using stays [OF that] loop(2) loop(4) [OF idx, of "old k"]
    by (simp add: from_old rows_def ring_at_def)
  ultimately show ?thesis using len by (auto simp: old_def)
qed

section \<open>The operations by line number\<close>

lemma line_at_cong:
  assumes "ring_at s = ring_at t" "int (st_visible_lines s) - l = int (st_visible_lines t) - m"
  shows "line_at s l = line_at t m"
proof -
  have "int (st_visible_lines s) - 1 - l = int (st_visible_lines t) - 1 - m" using assms(2) by simp
  then show ?thesis using assms(1) unfolding line_at_def by (simp only:)
qed

text \<open>
  A rotation renumbers the lines: the row at line \<open>m\<close> moves to line \<open>m + count\<close>. Lines that the
  rotation brings in from outside the active part are not specified beyond being well formed.
\<close>

lemma storage_rotate_lines:
  assumes ok: "storage_ok strict n s" and c: "\<bar>count\<bar> \<le> int (length (st_inner s))"
  shows "\<exists>s'. storage_rotate count s = Some s' \<and> storage_ok strict n s' \<and>
    st_len s' = st_len s \<and> length (st_inner s') = length (st_inner s) \<and>
    st_visible_lines s' = st_visible_lines s \<and> st_transient s' = st_transient s \<and>
    st_images s' = st_images s \<and>
    (\<forall>l. valid_line s l \<longrightarrow> valid_line s (l - count) \<longrightarrow> line_at s' l = line_at s (l - count))"
proof -
  obtain s' where s': "storage_rotate count s = Some s'" "storage_ok strict n s'"
    "st_len s' = st_len s" "length (st_inner s') = length (st_inner s)"
    "st_visible_lines s' = st_visible_lines s" "st_transient s' = st_transient s"
    "st_images s' = st_images s"
    "\<And>k. k < st_len s \<Longrightarrow>
       ring_at s' k = ring_at s (nat ((int k + count) mod int (length (st_inner s))))"
    using storage_rotate_ring [OF ok c] by blast
  have "line_at s' l = line_at s (l - count)" if "valid_line s l" "valid_line s (l - count)" for l
  proof -
    let ?k = "int (st_visible_lines s) - 1 - l"
    have "(?k + count) mod int (length (st_inner s)) = ?k + count"
      using valid_position(2) [OF ok that(2)] that(2)
      by (intro mod_pos_pos_trivial) (auto simp: valid_line_def)
    moreover have "int (nat ?k) = ?k" using that(1) by (simp add: valid_line_def)
    moreover have "int (st_visible_lines s) - 1 - (l - count) = ?k + count" by simp
    ultimately show ?thesis
      using s'(8) [OF valid_position(1) [OF ok that(1)]] unfolding line_at_def s'(5) by (simp only:)
  qed
  with s' show ?thesis by blast
qed

text \<open>
  Growing by \<open>m\<close> rows adds \<open>m\<close> history lines and keeps the numbered lines, shrinking removes the
  oldest ones.
\<close>

lemma storage_initialize_lines:
  assumes "storage_ok strict n s"
  shows "\<exists>s'. storage_initialize m n s = Some s' \<and> storage_ok strict n s' \<and> st_len s' = st_len s + m \<and>
    st_visible_lines s' = st_visible_lines s \<and> st_transient s' = st_transient s \<and>
    st_images s' = st_images s \<and> (\<forall>l. valid_line s l \<longrightarrow> line_at s' l = line_at s l)"
  using storage_initialize_ring [OF assms, of m] valid_position [OF assms]
  by (fastforce simp: line_at_def)

lemma storage_shrink_lines_lines:
  assumes "storage_ok strict n s" "m \<le> st_len s" "st_visible_lines s \<le> st_len s - m"
  shows "\<exists>s'. storage_shrink_lines m s = Some s' \<and> storage_ok strict n s' \<and> st_len s' = st_len s - m \<and>
    st_visible_lines s' = st_visible_lines s \<and> st_transient s' = st_transient s \<and>
    st_images s' = st_images s \<and> (\<forall>l. valid_line s' l \<longrightarrow> line_at s' l = line_at s l)"
proof -
  obtain s' where s': "storage_shrink_lines m s = Some s'" "storage_ok strict n s'"
    "st_len s' = st_len s - m" "st_visible_lines s' = st_visible_lines s"
    "st_transient s' = st_transient s" "st_images s' = st_images s"
    "\<And>k. k < st_len s - m \<Longrightarrow> ring_at s' k = ring_at s k"
    using storage_shrink_lines_ring [OF assms] by blast
  have "line_at s' l = line_at s l" if "valid_line s' l" for l
    using s'(7) [of "nat (int (st_visible_lines s) - 1 - l)"] valid_position(1) [OF s'(2) that] s'(3,4)
    by (simp add: line_at_def)
  with s' show ?thesis by blast
qed

lemma storage_truncate_lines:
  assumes "storage_ok strict n s"
  shows "\<exists>s'. storage_truncate s = Some s' \<and> storage_ok strict n s' \<and> st_len s' = st_len s \<and>
    st_visible_lines s' = st_visible_lines s \<and> st_transient s' = st_transient s \<and>
    st_images s' = st_images s \<and> length (st_inner s') = st_len s \<and> st_zero s' = 0 \<and>
    (\<forall>l. valid_line s l \<longrightarrow> line_at s' l = line_at s l)"
  using storage_truncate_ring [OF assms] valid_position [OF assms]
  by (fastforce simp: line_at_def)

text \<open>A change of the viewport height renumbers every line by the difference.\<close>

lemma grow_visible_lines_lines:
  assumes ok: "storage_ok strict n s" and m: "st_visible_lines s \<le> m"
  shows "\<exists>s'. grow_visible_lines m s = Some s' \<and> storage_ok strict n s' \<and>
    st_len s' = st_len s + (m - st_visible_lines s) \<and>
    st_visible_lines s' = m \<and> st_transient s' = st_transient s \<and> st_images s' = st_images s \<and>
    (\<forall>l. valid_line s l \<longrightarrow>
       line_at s' (l + int (m - st_visible_lines s)) = line_at s l)"
proof -
  have v0: "valid_line s 0" using ok by (auto simp: valid_line_def top_line_def storage_ok_def)
  obtain s1 where s1: "storage_initialize (m - st_visible_lines s) n s = Some s1"
    "storage_ok strict n s1" "st_len s1 = st_len s + (m - st_visible_lines s)"
    "st_visible_lines s1 = st_visible_lines s" "st_transient s1 = st_transient s"
    "st_images s1 = st_images s" "\<And>l. valid_line s l \<Longrightarrow> line_at s1 l = line_at s l"
    using storage_initialize_lines [OF ok, of "m - st_visible_lines s"] by blast
  let ?s = "s1\<lparr>st_visible_lines := m\<rparr>"
  have "row_len (line_at s 0) = n"
    using line_at_good [OF ok v0] by (simp add: row_good_def row_std_def row_wf_def row_len_def)
  then have "grow_visible_lines m s = Some ?s"
    using m s1(1) by (simp add: grow_visible_lines_def panic_free storage_index_line [OF ok v0])
  moreover have "storage_ok strict n ?s"
    using s1(2,3,4) m ok by (auto simp: storage_ok_ring ring_at_def)
  moreover have "line_at ?s (l + int (m - st_visible_lines s)) = line_at s l"
    if "valid_line s l" for l
    using s1(7) [OF that] s1(4) m
      line_at_cong [of ?s s1 "l + int (m - st_visible_lines s)" l]
    by (simp add: ring_at_def fun_eq_iff)
  ultimately show ?thesis using s1 by (intro exI [of _ ?s]) simp
qed

lemma shrink_visible_lines_lines:
  assumes ok: "storage_ok strict n s" and m: "1 \<le> m" "m \<le> st_visible_lines s"
  shows "\<exists>s'. shrink_visible_lines m s = Some s' \<and> storage_ok strict n s' \<and>
    st_len s' = st_len s - (st_visible_lines s - m) \<and>
    st_visible_lines s' = m \<and> st_transient s' = st_transient s \<and> st_images s' = st_images s \<and>
    (\<forall>l. valid_line s' l \<longrightarrow>
       line_at s' l = line_at s (l + int (st_visible_lines s - m)))"
proof -
  let ?s = "s\<lparr>st_visible_lines := m\<rparr>"
  have ok': "storage_ok strict n ?s" using ok m by (auto simp: storage_ok_ring ring_at_def)
  obtain s' where s': "storage_shrink_lines (st_visible_lines s - m) ?s = Some s'"
    "storage_ok strict n s'" "st_len s' = st_len s - (st_visible_lines s - m)" "st_visible_lines s' = m"
    "st_transient s' = st_transient s" "st_images s' = st_images s"
    "\<And>l. valid_line s' l \<Longrightarrow> line_at s' l = line_at ?s l"
  proof -
    have "st_visible_lines s - m \<le> st_len ?s" "st_visible_lines ?s \<le> st_len ?s - (st_visible_lines s - m)"
      using ok m by (auto simp: storage_ok_def)
    then show thesis using storage_shrink_lines_lines [OF ok'] that by auto
  qed
  have "line_at ?s l = line_at s (l + int (st_visible_lines s - m))" for l
    using m by (intro line_at_cong) (auto simp: ring_at_def fun_eq_iff)
  then show ?thesis using s' m by (simp add: shrink_visible_lines_def panic_free)
qed

text \<open>
  The resize code takes all rows out, bottom line first, and puts back a list of the same
  form.
\<close>

lemma storage_take_all_rows:
  assumes ok: "storage_ok strict n s"
  shows "\<exists>s'. storage_take_all s = Some (map (ring_at s) [0..<st_len s], s') \<and>
    st_inner s' = [] \<and> st_len s' = 0 \<and> st_zero s' = 0 \<and> st_visible_lines s' = st_visible_lines s \<and>
    st_transient s' = st_transient s \<and> st_images s' = st_images s"
proof -
  obtain s1 where s1: "storage_truncate s = Some s1" "st_zero s1 = 0"
    "length (st_inner s1) = st_len s" "st_len s1 = st_len s"
    "st_visible_lines s1 = st_visible_lines s" "st_transient s1 = st_transient s"
    "st_images s1 = st_images s" "\<And>k. k < st_len s \<Longrightarrow> ring_at s1 k = ring_at s k"
    using storage_truncate_ring [OF ok] by blast
  have "st_inner s1 = map (ring_at s) [0..<st_len s]"
    using s1 by (intro nth_equalityI) (auto simp: ring_at_def)
  then show ?thesis using s1 by (simp add: storage_take_all_def)
qed

lemma ring_at_replace: "k < length rows \<Longrightarrow> ring_at (storage_replace_inner rows s) k = rows ! k"
  by (simp add: ring_at_def storage_replace_inner_def)

lemma storage_replace_inner_ok:
  assumes "1 \<le> n" "1 \<le> st_visible_lines s" "st_visible_lines s \<le> length rows"
    "\<forall>r \<in> set rows. row_good strict n s r"
  shows "storage_ok strict n (storage_replace_inner rows s)"
  using assms by (auto simp: storage_ok_def storage_replace_inner_def row_good_def list_all_iff)

lemma storage_with_capacity_ok:
  assumes "1 \<le> n" "1 \<le> v"
  shows "\<exists>s. storage_with_capacity v n = Some s \<and> storage_ok strict n s \<and> st_visible_lines s = v \<and>
    st_len s = v \<and> st_transient s \<and> (\<forall>k < v. ring_at s k = blank_row n (Named Background))"
  using assms by (auto simp: storage_with_capacity_def panic_free storage_ok_ring ring_at_def)

section \<open>The contract of the line buffer\<close>

text \<open>
  What the grid relies on when it scrolls: rows are read, replaced and exchanged by line
  number, and nothing else changes. The three loops of the scrolling code are proved here
  once, against the contract.
\<close>

locale line_buffer =
  fixes ok :: "'s \<Rightarrow> bool"
    and valid :: "'s \<Rightarrow> int \<Rightarrow> bool"
    and at :: "'s \<Rightarrow> int \<Rightarrow> 'r"
    and frame :: "'s \<Rightarrow> 'f"
    and good :: "'s \<Rightarrow> 'r \<Rightarrow> bool"
    and update :: "('r \<Rightarrow> 'r option) \<Rightarrow> int \<Rightarrow> 's \<Rightarrow> 's option"
    and swap :: "int \<Rightarrow> int \<Rightarrow> 's \<Rightarrow> 's option"
  assumes frame_valid: "frame s' = frame s \<Longrightarrow> valid s' = valid s"
    and frame_good: "frame s' = frame s \<Longrightarrow> good s' = good s"
    and at_good: "ok s \<Longrightarrow> valid s l \<Longrightarrow> good s (at s l)"
    and update_at: "ok s \<Longrightarrow> valid s l \<Longrightarrow> f (at s l) = Some r \<Longrightarrow> good s r \<Longrightarrow>
      \<exists>s'. update f l s = Some s' \<and> ok s' \<and> frame s' = frame s \<and>
        (\<forall>m. valid s m \<longrightarrow> at s' m = (if m = l then r else at s m))"
    and swap_at: "ok s \<Longrightarrow> valid s a \<Longrightarrow> valid s b \<Longrightarrow>
      \<exists>s'. swap a b s = Some s' \<and> ok s' \<and> frame s' = frame s \<and>
        (\<forall>m. valid s m \<longrightarrow> at s' m = at s (if m = a then b else if m = b then a else m))"
begin

lemma overwrite_loop:
  assumes ok: "ok s" and ls: "\<forall>l \<in> set ls. valid s l"
    and f: "\<And>r. good s r \<Longrightarrow> \<exists>r'. f r = Some r' \<and> good s r' \<and> Q r'"
  shows "\<exists>s'. for_each (update f) ls s = Some s' \<and> ok s' \<and> frame s' = frame s \<and>
    (\<forall>m. valid s m \<longrightarrow> (if m \<in> set ls then Q (at s' m) else at s' m = at s m))"
proof -
  let ?I = "\<lambda>k t. ok t \<and> frame t = frame s \<and>
    (\<forall>m. valid s m \<longrightarrow> (if m \<in> set (take k ls) then Q (at t m) else at t m = at s m))"
  have "\<exists>s'. for_each (update f) ls s = Some s' \<and> ?I (length ls) s'"
  proof (rule for_each_rule)
    show "?I 0 s" using ok by simp
    fix k t assume k: "k < length ls" and I: "?I k t"
    have v: "valid t (ls ! k)" "valid t = valid s" "good t = good s"
      using I k ls frame_valid [of t s] frame_good [of t s] by auto
    then obtain r where r: "f (at t (ls ! k)) = Some r" "good t r" "Q r"
      using I f [of "at t (ls ! k)"] at_good [of t "ls ! k"] by auto
    then obtain t' where "update f (ls ! k) t = Some t'" "ok t'" "frame t' = frame t"
      "\<forall>m. valid t m \<longrightarrow> at t' m = (if m = ls ! k then r else at t m)"
      using update_at [of t "ls ! k" f r] I v by auto
    then show "\<exists>t'. update f (ls ! k) t = Some t' \<and> ?I (Suc k) t'"
      using I v k r(3) by (auto simp: take_Suc_conv_app_nth)
  qed
  then show ?thesis by simp
qed

text \<open>
  Ascending exchange with a line \<open>p\<close> below: the lines move up by \<open>p\<close>, and the \<open>p\<close> lines that
  were in their way end up, in some order, behind them.
\<close>

lemma exchange_up_loop:
  assumes ok: "ok s" and ab: "a \<le> b" "0 \<le> p" and len: "length ls = nat (b - a)"
    and f: "\<And>k. k < length ls \<Longrightarrow> f (ls ! k) = swap (a + int k) (a + int k + p) \<or>
      f (ls ! k) = swap (a + int k + p) (a + int k)"
    and v: "\<forall>m. a \<le> m \<and> m < b + p \<longrightarrow> valid s m"
  shows "\<exists>s'. for_each f ls s = Some s' \<and> ok s' \<and>
    frame s' = frame s \<and>
    (\<forall>m. valid s m \<longrightarrow> (a \<le> m \<and> m < b \<longrightarrow> at s' m = at s (m + p)) \<and>
       (m < a \<or> b + p \<le> m \<longrightarrow> at s' m = at s m) \<and>
       (b \<le> m \<and> m < b + p \<longrightarrow> (\<exists>q. a \<le> q \<and> q < a + p \<and> at s' m = at s q)))"
proof -
  let ?I = "\<lambda>k t. ok t \<and> frame t = frame s \<and> (\<forall>m. valid s m \<longrightarrow>
       (a \<le> m \<and> m < a + int k \<longrightarrow> at t m = at s (m + p)) \<and>
       (m < a \<or> a + int k + p \<le> m \<longrightarrow> at t m = at s m) \<and>
       (a + int k \<le> m \<and> m < a + int k + p \<longrightarrow> (\<exists>q. a \<le> q \<and> q < a + p \<and> at t m = at s q)))"
  have "\<exists>s'. for_each f ls s = Some s' \<and>
      ?I (length ls) s'"
  proof (rule for_each_rule)
    show "?I 0 s" using ok by auto
    fix k t assume k: "k < length ls" and I: "?I k t"
    let ?i = "a + int k"
    have vt: "valid t = valid s" using I frame_valid [of t s] by auto
    have vi: "valid s ?i" "valid s (?i + p)" using v k ab len by auto
    have old: "at t (?i + p) = at s (?i + p)"
      "0 < p \<Longrightarrow> \<exists>q. a \<le> q \<and> q < a + p \<and> at t ?i = at s q"
      using I vi ab by auto
    from vi I obtain t' where t': "f (ls ! k) t = Some t'" "ok t'" "frame t' = frame t"
      "\<And>m. valid s m \<Longrightarrow> at t' m = at t (if m = ?i then ?i + p else if m = ?i + p then ?i else m)"
      using swap_at [of t ?i "?i + p"] swap_at [of t "?i + p" ?i] f [OF k] unfolding vt
      by (elim disjE) (fastforce split: if_splits)+
    have "(a \<le> m \<and> m < a + int (Suc k) \<longrightarrow> at t' m = at s (m + p)) \<and>
       (m < a \<or> a + int (Suc k) + p \<le> m \<longrightarrow> at t' m = at s m) \<and>
       (a + int (Suc k) \<le> m \<and> m < a + int (Suc k) + p \<longrightarrow>
          (\<exists>q. a \<le> q \<and> q < a + p \<and> at t' m = at s q))" if m: "valid s m" for m
    proof -
      consider "m = ?i" | "m = ?i + p" "0 < p" | "m \<noteq> ?i" "m \<noteq> ?i + p" using ab by linarith
      then show ?thesis
      proof cases
        case 3
        then show ?thesis using t'(4) [OF m] I m by auto
      qed (use t'(4) [OF m] old ab(2) in auto)
    qed
    with t' I show "\<exists>t'. f (ls ! k) t = Some t' \<and> ?I (Suc k) t'" by auto
  qed
  with ab len show ?thesis by simp
qed

text \<open>The mirror image: descending exchange with a line \<open>p\<close> above.\<close>

lemma swap_down_loop:
  assumes ok: "ok s" and ab: "a \<le> b" "0 \<le> p" and v: "\<forall>m. a - p \<le> m \<and> m < b \<longrightarrow> valid s m"
  shows "\<exists>s'. for_each (\<lambda>i. swap i (i - p)) (rev (line_range a b)) s = Some s' \<and> ok s' \<and>
    frame s' = frame s \<and>
    (\<forall>m. valid s m \<longrightarrow> (a \<le> m \<and> m < b \<longrightarrow> at s' m = at s (m - p)) \<and>
       (m < a - p \<or> b \<le> m \<longrightarrow> at s' m = at s m) \<and>
       (a - p \<le> m \<and> m < a \<longrightarrow> (\<exists>q. b - p \<le> q \<and> q < b \<and> at s' m = at s q)))"
proof -
  let ?I = "\<lambda>k t. ok t \<and> frame t = frame s \<and> (\<forall>m. valid s m \<longrightarrow>
       (b - int k \<le> m \<and> m < b \<longrightarrow> at t m = at s (m - p)) \<and>
       (m < b - int k - p \<or> b \<le> m \<longrightarrow> at t m = at s m) \<and>
       (b - int k - p \<le> m \<and> m < b - int k \<longrightarrow> (\<exists>q. b - p \<le> q \<and> q < b \<and> at t m = at s q)))"
  let ?ls = "rev (line_range a b)"
  have "\<exists>s'. for_each (\<lambda>i. swap i (i - p)) ?ls s = Some s' \<and> ?I (length ?ls) s'"
  proof (rule for_each_rule)
    show "?I 0 s" using ok by auto
    fix k t assume k: "k < length ?ls" and I: "?I k t"
    let ?i = "b - 1 - int k"
    have i: "?ls ! k = ?i" using k by simp
    have vt: "valid t = valid s" using I frame_valid [of t s] by auto
    have vi: "valid s ?i" "valid s (?i - p)" using v k ab by auto
    have old: "at t (?i - p) = at s (?i - p)"
      "0 < p \<Longrightarrow> \<exists>q. b - p \<le> q \<and> q < b \<and> at t ?i = at s q"
      using I vi ab by auto
    from vi I obtain t' where t': "swap ?i (?i - p) t = Some t'" "ok t'" "frame t' = frame t"
      "\<And>m. valid s m \<Longrightarrow> at t' m = at t (if m = ?i then ?i - p else if m = ?i - p then ?i else m)"
      using swap_at [of t ?i "?i - p"] unfolding vt by auto
    have "(b - int (Suc k) \<le> m \<and> m < b \<longrightarrow> at t' m = at s (m - p)) \<and>
       (m < b - int (Suc k) - p \<or> b \<le> m \<longrightarrow> at t' m = at s m) \<and>
       (b - int (Suc k) - p \<le> m \<and> m < b - int (Suc k) \<longrightarrow>
          (\<exists>q. b - p \<le> q \<and> q < b \<and> at t' m = at s q))" if m: "valid s m" for m
    proof -
      consider "m = ?i" | "m = ?i - p" "0 < p" | "m \<noteq> ?i" "m \<noteq> ?i - p" using ab by linarith
      then show ?thesis
      proof cases
        case 3
        then show ?thesis using t'(4) [OF m] I m by auto
      qed (use t'(4) [OF m] old ab(2) in auto)
    qed
    with t' I show "\<exists>t'. swap (?ls ! k) (?ls ! k - p) t = Some t' \<and> ?I (Suc k) t'"
      unfolding i by auto
  qed
  with ab show ?thesis by simp
qed

end

interpretation lines: line_buffer "storage_ok strict n" valid_line line_at storage_frame
    "row_good strict n" storage_index_mut storage_swap for strict n
proof unfold_locales
qed (rule storage_frame_lines [THEN conjunct1] storage_frame_lines [THEN conjunct2] line_at_good
    storage_index_mut_line storage_swap_line; assumption)+

lemma reset_loop:
  assumes ok: "storage_ok strict n s" and ls: "\<forall>l \<in> set ls. valid_line s l"
  shows "\<exists>s'. for_each (storage_index_mut (row_reset t)) ls s = Some s' \<and> storage_ok strict n s' \<and>
    storage_frame s' = storage_frame s \<and>
    (\<forall>m. valid_line s m \<longrightarrow>
       (if m \<in> set ls then reset_row strict n (cell_bg t) (line_at s' m)
        else line_at s' m = line_at s m))"
proof (rule lines.overwrite_loop [OF ok ls])
  show "\<exists>r'. row_reset t r = Some r' \<and> row_good strict n s r' \<and> reset_row strict n (cell_bg t) r'"
    if "row_good strict n s r" for r
    using that row_reset_std [of strict n r t] ok
    by (auto simp: row_good_def reset_row_def storage_ok_def)
qed

section \<open>Properties\<close>

lemma sample_storage_ok: "storage_ok True 2 sample_storage"
  by (auto simp: storage_ok_def sample_storage_def ring_at_def less_Suc_eq)

text \<open>
  C25: indexing the ring buffer by line returns the row of that line exactly for the lines of
  the scrollback and the viewport, panics for every other line, and never maps two lines to
  the same slot.
\<close>

theorem storage_index_total:
  assumes "storage_ok strict n s"
  shows "storage_index l s = (if valid_line s l then Some (line_at s l) else None) \<and>
    (valid_line s l \<and> valid_line s m \<and> compute_index l s = compute_index m s \<longrightarrow> l = m)"
proof (intro conjI impI)
  show "storage_index l s = (if valid_line s l then Some (line_at s l) else None)"
    using storage_index_line [OF assms] storage_index_None by simp
  assume "valid_line s l \<and> valid_line s m \<and> compute_index l s = compute_index m s"
  then have v: "valid_line s l" "valid_line s m" and eq: "compute_index l s = compute_index m s"
    by auto
  have "nat (int (st_visible_lines s) - 1 - l) = nat (int (st_visible_lines s) - 1 - m)"
    using eq compute_index_ring [OF assms v(1)] compute_index_ring [OF assms v(2)]
    by (intro ring_index_inj [OF valid_position(2) [OF assms v(1)] valid_position(2) [OF assms v(2)]])
      simp
  then show "l = m" using v by (auto simp: valid_line_def)
qed

theorem storage_index_total_witness:
  "storage_index (- 1) sample_storage = Some (blank_row 2 (Indexed 1)) \<and>
   storage_index (- 2) sample_storage = None"
  using storage_index_total [OF sample_storage_ok, of "- 1"]
    storage_index_total [OF sample_storage_ok, of "- 2"]
  by (simp add: sample_storage_def valid_line_def top_line_def line_at_def ring_at_def)

text \<open>
  C26: rotating the ring by \<open>count\<close> never panics within the buffer's length, moves the row of
  every line \<open>m\<close> to line \<open>m + count\<close>, keeps the number of rows and the invariant, and leaves no
  image tile and no marker in the rows that drop out of the active part into the cache.
\<close>

theorem storage_rotate_renumbers:
  assumes ok: "storage_ok strict n s" and "\<bar>count\<bar> \<le> int (length (st_inner s))"
  shows "\<exists>s'. storage_rotate count s = Some s' \<and> storage_ok strict n s' \<and> st_len s' = st_len s \<and>
    (\<forall>m. valid_line s m \<longrightarrow> valid_line s (m + count) \<longrightarrow> line_at s' (m + count) = line_at s m) \<and>
    (\<forall>k. st_len s' \<le> k \<longrightarrow> k < length (st_inner s') \<longrightarrow> row_clean (ring_at s' k))"
proof -
  obtain s' where s': "storage_rotate count s = Some s'" "storage_ok strict n s'"
    "st_len s' = st_len s"
    "\<And>l. valid_line s l \<Longrightarrow> valid_line s (l - count) \<Longrightarrow> line_at s' l = line_at s (l - count)"
    using storage_rotate_lines [OF assms] by blast
  have "line_at s' (m + count) = line_at s m" if "valid_line s m" "valid_line s (m + count)" for m
    using s'(4) [of "m + count"] that by simp
  moreover have "row_clean (ring_at s' k)" if "st_len s' \<le> k" "k < length (st_inner s')" for k
    using s'(2) that by (auto simp: storage_ok_ring)
  ultimately show ?thesis using s' by blast
qed

theorem storage_rotate_renumbers_witness:
  "\<exists>s'. storage_rotate (- 1) sample_storage = Some s' \<and>
     line_at s' (- 1) = blank_row 2 (Named Background)"
proof -
  have "\<bar>- 1\<bar> \<le> int (length (st_inner sample_storage))" by (simp add: sample_storage_def)
  from storage_rotate_renumbers [OF sample_storage_ok this] obtain s' where
    s': "storage_rotate (- 1) sample_storage = Some s'"
    "\<forall>m. valid_line sample_storage m \<longrightarrow> valid_line sample_storage (m + - 1) \<longrightarrow>
       line_at s' (m + - 1) = line_at sample_storage m"
    by blast
  moreover have "valid_line sample_storage 0" "valid_line sample_storage (- 1)"
    "line_at sample_storage 0 = blank_row 2 (Named Background)"
    by (simp_all add: sample_storage_def valid_line_def top_line_def line_at_def ring_at_def)
  ultimately show ?thesis by (metis add_0)
qed

text \<open>
  Growing the buffer, dropping history rows and changing the height of the viewport never
  panic on a well-formed buffer and keep every surviving row: the first two keep its line
  number, the other two renumber it by the change of height.
\<close>

lemma storage_resizing_keeps_lines:
  assumes "storage_ok strict n s" "m \<le> st_len s - st_visible_lines s"
    "1 \<le> lo" "lo \<le> st_visible_lines s" "st_visible_lines s \<le> hi"
  shows "(\<exists>s'. storage_initialize m n s = Some s' \<and> storage_ok strict n s' \<and>
      st_len s' = st_len s + m \<and> (\<forall>l. valid_line s l \<longrightarrow> line_at s' l = line_at s l)) \<and>
    (\<exists>s'. storage_shrink_lines m s = Some s' \<and> storage_ok strict n s' \<and>
      st_len s' = st_len s - m \<and> (\<forall>l. valid_line s' l \<longrightarrow> line_at s' l = line_at s l)) \<and>
    (\<exists>s'. grow_visible_lines hi s = Some s' \<and> storage_ok strict n s' \<and>
      st_visible_lines s' = hi \<and>
      (\<forall>l. valid_line s l \<longrightarrow> line_at s' (l + int (hi - st_visible_lines s)) = line_at s l)) \<and>
    (\<exists>s'. shrink_visible_lines lo s = Some s' \<and> storage_ok strict n s' \<and>
      st_visible_lines s' = lo \<and>
      (\<forall>l. valid_line s' l \<longrightarrow> line_at s' l = line_at s (l + int (st_visible_lines s - lo))))"
proof (intro conjI)
  show "\<exists>s'. storage_initialize m n s = Some s' \<and> storage_ok strict n s' \<and>
      st_len s' = st_len s + m \<and> (\<forall>l. valid_line s l \<longrightarrow> line_at s' l = line_at s l)"
    using storage_initialize_lines [OF assms(1), of m] by blast
  have "m \<le> st_len s" "st_visible_lines s \<le> st_len s - m"
    using assms by (auto simp: storage_ok_def)
  then show "\<exists>s'. storage_shrink_lines m s = Some s' \<and> storage_ok strict n s' \<and>
      st_len s' = st_len s - m \<and> (\<forall>l. valid_line s' l \<longrightarrow> line_at s' l = line_at s l)"
    using storage_shrink_lines_lines [OF assms(1), of m] by blast
  show "\<exists>s'. grow_visible_lines hi s = Some s' \<and> storage_ok strict n s' \<and>
      st_visible_lines s' = hi \<and>
      (\<forall>l. valid_line s l \<longrightarrow> line_at s' (l + int (hi - st_visible_lines s)) = line_at s l)"
    using grow_visible_lines_lines [OF assms(1,5)] by blast
  show "\<exists>s'. shrink_visible_lines lo s = Some s' \<and> storage_ok strict n s' \<and>
      st_visible_lines s' = lo \<and>
      (\<forall>l. valid_line s' l \<longrightarrow> line_at s' l = line_at s (l + int (st_visible_lines s - lo)))"
    using shrink_visible_lines_lines [OF assms(1,3,4)] by blast
qed

theorem storage_resizing_keeps_lines_witness:
  "\<exists>s'. shrink_visible_lines 1 sample_storage = Some s' \<and> storage_ok True 2 s'"
  using storage_resizing_keeps_lines [OF sample_storage_ok, of 1 1 2]
  by (auto simp: sample_storage_def)

text \<open>
  Taking all rows out of the buffer yields the rows of all lines, the bottom one first,
  without the cache, and putting them back restores every line.
\<close>

lemma storage_take_replace_roundtrip:
  assumes ok: "storage_ok strict n s"
  shows "\<exists>rows s'. storage_take_all s = Some (rows, s') \<and>
    rows = map (\<lambda>k. line_at s (int (st_visible_lines s) - 1 - int k)) [0..<st_len s] \<and>
    storage_ok strict n (storage_replace_inner rows s') \<and>
    (\<forall>l. valid_line s l \<longrightarrow> line_at (storage_replace_inner rows s') l = line_at s l)"
proof -
  obtain s' where s': "storage_take_all s = Some (map (ring_at s) [0..<st_len s], s')"
    "st_visible_lines s' = st_visible_lines s" "st_transient s' = st_transient s"
    using storage_take_all_rows [OF ok] by blast
  let ?rows = "map (ring_at s) [0..<st_len s]"
  have "?rows = map (\<lambda>k. line_at s (int (st_visible_lines s) - 1 - int k)) [0..<st_len s]"
    by (simp add: line_at_def)
  moreover have "storage_ok strict n (storage_replace_inner ?rows s')"
    using ok s' by (intro storage_replace_inner_ok) (auto simp: storage_ok_ring row_good_def)
  moreover have "line_at (storage_replace_inner ?rows s') l = line_at s l" if "valid_line s l" for l
    using valid_position(1) [OF ok that] ring_at_replace [of _ ?rows s'] s'(2)
    by (simp add: line_at_def storage_replace_inner_def)
  ultimately show ?thesis using s'(1) by blast
qed

theorem storage_take_replace_roundtrip_witness:
  "\<exists>rows s'. storage_take_all sample_storage = Some (rows, s') \<and> length rows = 3 \<and>
     storage_ok True 2 (storage_replace_inner rows s')"
  using storage_take_replace_roundtrip [OF sample_storage_ok]
  by (auto simp: sample_storage_def)

end
