(* ===== verification/Grid.thy ===== *)
theory Grid
  imports Index Storage
begin

text \<open>
  The terminal grid (\<open>nebula_terminal/src/grid/mod.rs\<close>): the cursors, the ring buffer of rows,
  the scrollback limit and the display offset, with scrolling, clearing, resetting and the
  cell iterators.

  The invariant \<open>grid_ok\<close> ties the grid to its storage. The scrolling lemmas state where every
  row goes: into the history with a stable absolute number, over the edge of the region, or
  nowhere. Lines and positions stay below \<open>2^31\<close> in every grid, so the casts between \<open>usize\<close>
  and \<open>i32\<close> are exact except in \<open>scroll_display\<close>, where the caller's delta is added.
\<close>

section \<open>Data\<close>

datatype standard_charset = Ascii | SpecialCharacterAndLineDrawing

datatype charset_index = G0 | G1 | G2 | G3

type_synonym charsets = "standard_charset list"

primrec charset_slot :: "charset_index \<Rightarrow> nat" where
  "charset_slot G0 = 0"
| "charset_slot G1 = 1"
| "charset_slot G2 = 2"
| "charset_slot G3 = 3"

definition charsets_index :: "charsets \<Rightarrow> charset_index \<Rightarrow> standard_charset option" where
  "charsets_index cs i = vec_get cs (charset_slot i)"

definition charsets_index_mut ::
    "standard_charset \<Rightarrow> charset_index \<Rightarrow> charsets \<Rightarrow> charsets option" where
  "charsets_index_mut c i cs = vec_set cs (charset_slot i) c"

record cursor =
  cur_point :: point
  cur_template :: cell
  cur_charsets :: charsets
  cur_input_needs_wrap :: bool

definition default_cursor :: cursor where
  "default_cursor = \<lparr>cur_point = Point 0 0, cur_template = default_cell,
     cur_charsets = replicate 4 Ascii, cur_input_needs_wrap = False\<rparr>"

datatype scroll = Delta int | PageUp | PageDown | ScrollTop | ScrollBottom

record grid =
  g_cursor :: cursor
  g_saved_cursor :: cursor
  g_raw :: storage
  g_columns :: nat
  g_lines :: nat
  g_display_offset :: nat
  g_max_scroll_limit :: nat
  g_scrolled_out :: nat
  g_reflow_on_grow :: bool

type_synonym line_region = "int \<times> int"

text \<open>The \<open>Dimensions\<close> of a grid.\<close>

definition grid_dims :: "grid \<Rightarrow> dims" where
  "grid_dims g = \<lparr>total_lines = st_len (g_raw g), screen_lines = g_lines g, columns = g_columns g\<rparr>"

abbreviation grid_history :: "grid \<Rightarrow> nat" where
  "grid_history g \<equiv> history_size (grid_dims g)"

section \<open>Operations\<close>

definition grid_new :: "nat \<Rightarrow> nat \<Rightarrow> nat \<Rightarrow> grid option" where
  "grid_new lines cols max_scroll_limit = do {
     raw \<leftarrow> storage_with_capacity lines cols;
     Some \<lparr>g_cursor = default_cursor, g_saved_cursor = default_cursor, g_raw = raw,
       g_columns = cols, g_lines = lines, g_display_offset = 0,
       g_max_scroll_limit = max_scroll_limit, g_scrolled_out = 0, g_reflow_on_grow = True\<rparr>
   }"

definition set_reflow_on_grow :: "bool \<Rightarrow> grid \<Rightarrow> grid" where
  "set_reflow_on_grow enabled g = g\<lparr>g_reflow_on_grow := enabled\<rparr>"

definition update_history :: "nat \<Rightarrow> grid \<Rightarrow> grid option" where
  "update_history history g = do {
     let current = grid_history g;
     g \<leftarrow> (if current > history
          then do {
            raw \<leftarrow> storage_shrink_lines (current - history) (g_raw g);
            Some (g\<lparr>g_scrolled_out := g_scrolled_out g + (current - history), g_raw := raw\<rparr>)
          }
          else Some g);
     Some (g\<lparr>g_display_offset := min (g_display_offset g) history, g_max_scroll_limit := history\<rparr>)
   }"

definition scroll_display :: "scroll \<Rightarrow> grid \<Rightarrow> grid option" where
  "scroll_display scroll g = do {
     offset \<leftarrow> (case scroll of
         Delta count \<Rightarrow> do {
           moved \<leftarrow> i32_add (as_i32 (int (g_display_offset g))) count;
           Some (min (nat (max moved 0)) (grid_history g))
         }
       | PageUp \<Rightarrow> Some (min (g_display_offset g + g_lines g) (grid_history g))
       | PageDown \<Rightarrow> Some (g_display_offset g - g_lines g)
       | ScrollTop \<Rightarrow> Some (grid_history g)
       | ScrollBottom \<Rightarrow> Some 0);
     Some (g\<lparr>g_display_offset := offset\<rparr>)
   }"

definition increase_scroll_limit :: "nat \<Rightarrow> grid \<Rightarrow> grid option" where
  "increase_scroll_limit count g = do {
     left \<leftarrow> usize_sub (g_max_scroll_limit g) (grid_history g);
     let count = min count left;
     if count \<noteq> 0
     then do {
       raw \<leftarrow> storage_initialize count (g_columns g) (g_raw g);
       Some (g\<lparr>g_raw := raw\<rparr>)
     }
     else Some g
   }"

definition decrease_scroll_limit :: "nat \<Rightarrow> grid \<Rightarrow> grid option" where
  "decrease_scroll_limit count g =
     (let count = min count (grid_history g) in
      if count \<noteq> 0
      then do {
        let g = g\<lparr>g_scrolled_out := g_scrolled_out g + count\<rparr>;
        raw \<leftarrow> storage_shrink_lines (min count (grid_history g)) (g_raw g);
        let g = g\<lparr>g_raw := raw\<rparr>;
        Some (g\<lparr>g_display_offset := min (g_display_offset g) (grid_history g)\<rparr>)
      }
      else Some g)"

text \<open>\<open>self.raw[i].reset(&self.cursor.template)\<close> for every line of a loop.\<close>

definition reset_lines :: "int list \<Rightarrow> grid \<Rightarrow> grid option" where
  "reset_lines ls g = do {
     raw \<leftarrow> for_each (storage_index_mut (row_reset (cur_template (g_cursor g)))) ls (g_raw g);
     Some (g\<lparr>g_raw := raw\<rparr>)
   }"

definition swap_lines :: "(int \<Rightarrow> int) \<Rightarrow> int list \<Rightarrow> grid \<Rightarrow> grid option" where
  "swap_lines target ls g = do {
     raw \<leftarrow> for_each (\<lambda>i. storage_swap i (target i)) ls (g_raw g);
     Some (g\<lparr>g_raw := raw\<rparr>)
   }"

definition grid_scroll_down :: "line_region \<Rightarrow> nat \<Rightarrow> grid \<Rightarrow> grid option" where
  "grid_scroll_down region positions g =
     (let start = fst region; end = snd region; p = int positions in
      if end - start \<le> p then reset_lines (line_range start end) g
      else if g_max_scroll_limit g = 0
      then do {
        g \<leftarrow> swap_lines (\<lambda>i. i - p) (line_range end (int (g_lines g))) g;
        raw \<leftarrow> storage_rotate_down positions (g_raw g);
        g \<leftarrow> reset_lines (line_range 0 p) (g\<lparr>g_raw := raw\<rparr>);
        swap_lines (\<lambda>i. i + p) (line_range 0 start) g
      }
      else do {
        g \<leftarrow> swap_lines (\<lambda>i. i - p) (rev (line_range (start + p) end)) g;
        reset_lines (rev (line_range start (start + p))) g
      })"

definition grid_scroll_up :: "line_region \<Rightarrow> nat \<Rightarrow> grid \<Rightarrow> grid option" where
  "grid_scroll_up region positions g =
     (let start = fst region; end = snd region; p = int positions in
      if end - start \<le> p \<and> start \<noteq> 0 then reset_lines (line_range start end) g
      else do {
        let g = (if g_display_offset g \<noteq> 0
                 then g\<lparr>g_display_offset :=
                          min (g_display_offset g + positions) (g_max_scroll_limit g)\<rparr>
                 else g);
        g \<leftarrow> (if start = 0
             then do {
               capacity_left \<leftarrow> usize_sub (g_max_scroll_limit g) (grid_history g);
               let g = g\<lparr>g_scrolled_out := g_scrolled_out g + (positions - capacity_left)\<rparr>;
               g \<leftarrow> increase_scroll_limit positions g;
               g \<leftarrow> swap_lines (\<lambda>i. i + p) (rev (line_range 0 start)) g;
               raw \<leftarrow> storage_rotate (- p) (g_raw g);
               swap_lines (\<lambda>i. i - p) (rev (line_range end (int (g_lines g)))) (g\<lparr>g_raw := raw\<rparr>)
             }
             else swap_lines (\<lambda>i. i + p) (line_range start (end - p)) g);
        reset_lines (line_range (end - p) end) g
      })"

text \<open>Access by line, by point and through the cursor.\<close>

definition grid_index_line :: "int \<Rightarrow> grid \<Rightarrow> row option" where
  "grid_index_line l g = storage_index l (g_raw g)"

definition grid_index_line_mut :: "(row \<Rightarrow> row option) \<Rightarrow> int \<Rightarrow> grid \<Rightarrow> grid option" where
  "grid_index_line_mut f l g = do {
     raw \<leftarrow> storage_index_mut f l (g_raw g);
     Some (g\<lparr>g_raw := raw\<rparr>)
   }"

definition grid_index :: "point \<Rightarrow> grid \<Rightarrow> cell option" where
  "grid_index pt g = do {
     r \<leftarrow> grid_index_line (line pt) g;
     row_index (column pt) r
   }"

definition grid_index_mut :: "(cell \<Rightarrow> cell) \<Rightarrow> point \<Rightarrow> grid \<Rightarrow> grid option" where
  "grid_index_mut f pt g = grid_index_line_mut (row_index_mut f (column pt)) (line pt) g"

definition cursor_cell :: "(cell \<Rightarrow> cell) \<Rightarrow> grid \<Rightarrow> grid option" where
  "cursor_cell f g = grid_index_mut f (cur_point (g_cursor g)) g"

text \<open>The cell iterators; the iterator keeps its grid, which is passed beside it.\<close>

record grid_iterator =
  gi_point :: point
  gi_end :: point
  gi_last_column :: nat

definition iter_from :: "point \<Rightarrow> grid \<Rightarrow> grid_iterator option" where
  "iter_from pt g = do {
     lc \<leftarrow> usize_sub (g_columns g) 1;
     Some \<lparr>gi_point = pt, gi_end = Point (bottommost_line (grid_dims g)) lc, gi_last_column = lc\<rparr>
   }"

definition display_iter :: "grid \<Rightarrow> grid_iterator option" where
  "display_iter g = do {
     lc \<leftarrow> usize_sub (g_columns g) 1;
     let start = Point (- int (g_display_offset g) - 1) lc;
     let end_line = min (line start + int (g_lines g)) (bottommost_line (grid_dims g));
     Some \<lparr>gi_point = start, gi_end = Point end_line lc, gi_last_column = lc\<rparr>
   }"

definition display_iter_from :: "int \<Rightarrow> nat \<Rightarrow> nat \<Rightarrow> grid \<Rightarrow> grid_iterator option" where
  "display_iter_from first lines cols g = do {
     assert_that (lines > 0);
     assert_that (cols > 0);
     let cols = min cols (g_columns g);
     let lines = min lines (nat (max (bottommost_line (grid_dims g) - first) 0) + 1);
     lc \<leftarrow> usize_sub cols 1;
     let start = Point (first - 1) lc;
     Some \<lparr>gi_point = start, gi_end = Point (line start + int lines) lc, gi_last_column = lc\<rparr>
   }"

definition grid_iterator_next ::
    "grid \<Rightarrow> grid_iterator \<Rightarrow> ((point \<times> cell) option \<times> grid_iterator) option" where
  "grid_iterator_next g it =
     (if gi_point it \<ge> gi_end it then Some (None, it)
      else do {
        let pt = (if column (gi_point it) \<ge> gi_last_column it
                  then Point (line (gi_point it) + 1) 0
                  else Point (line (gi_point it)) (column (gi_point it) + 1));
        c \<leftarrow> grid_index pt g;
        Some (Some (pt, c), it\<lparr>gi_point := pt\<rparr>)
      })"

definition grid_iterator_prev ::
    "grid \<Rightarrow> grid_iterator \<Rightarrow> ((point \<times> cell) option \<times> grid_iterator) option" where
  "grid_iterator_prev g it =
     (if gi_point it \<le> Point (topmost_line (grid_dims g)) 0 then Some (None, it)
      else do {
        let pt = (if column (gi_point it) = 0
                  then Point (line (gi_point it) - 1) (gi_last_column it)
                  else Point (line (gi_point it)) (column (gi_point it) - 1));
        c \<leftarrow> grid_index pt g;
        Some (Some (pt, c), it\<lparr>gi_point := pt\<rparr>)
      })"


text \<open>
  The backwards search of \<open>clear_viewport\<close>; every step takes the iterator one cell back, so the
  loop ends at the top of the history at the latest.
\<close>

definition iterator_position :: "grid \<Rightarrow> grid_iterator \<Rightarrow> nat" where
  "iterator_position g it =
     nat ((line (gi_point it) - topmost_line (grid_dims g)) * (int (gi_last_column it) + 1)
       + int (column (gi_point it)))"

lemma grid_iterator_prev_position:
  assumes "grid_iterator_prev g it = Some (Some pc, it')"
  shows "iterator_position g it = Suc (iterator_position g it') \<and> gi_last_column it' = gi_last_column it \<and>
    gi_end it' = gi_end it \<and> fst pc = gi_point it'"
proof -
  let ?l = "line (gi_point it)" and ?c = "column (gi_point it)" and ?w = "int (gi_last_column it) + 1"
  let ?t = "topmost_line (grid_dims g)"
  have gt: "\<not> gi_point it \<le> Point ?t 0"
    using assms by (auto simp: grid_iterator_prev_def)
  then have l: "?t \<le> ?l" "?c = 0 \<Longrightarrow> ?t < ?l"
    by (cases "gi_point it"; auto simp: less_eq_point_iff less_point_iff)+
  let ?pt = "if ?c = 0 then Point (?l - 1) (gi_last_column it) else Point ?l (?c - 1)"
  have it': "it' = it\<lparr>gi_point := ?pt\<rparr>" "fst pc = ?pt"
    using assms gt by (auto simp: grid_iterator_prev_def bind_eq_Some_conv Let_def)
  have pos: "0 \<le> (?l - ?t) * ?w" using l(1) by simp
  show ?thesis
  proof (cases "?c = 0")
    case True
    have "?w \<le> (?l - ?t) * ?w" using l(2) [OF True] by simp
    then show ?thesis using True it' by (simp add: iterator_position_def algebra_simps)
  next
    case False
    then show ?thesis using pos it' by (simp add: iterator_position_def)
  qed
qed

function last_content :: "grid \<Rightarrow> grid_iterator \<Rightarrow> grid_iterator option" where
  "last_content g it =
     (case grid_iterator_prev g it of
        None \<Rightarrow> None
      | Some (None, it) \<Rightarrow> Some it
      | Some (Some (pt, c), it) \<Rightarrow>
          if \<not> cell_is_empty c \<or> line pt < 0 then Some it else last_content g it)"
  by pat_completeness auto
termination
  by (relation "measure (\<lambda>(g, it). iterator_position g it)")
    (auto dest: grid_iterator_prev_position)

definition clear_viewport :: "grid \<Rightarrow> grid option" where
  "clear_viewport g = do {
     it \<leftarrow> iter_from (Point (int (g_lines g) - 1) (g_columns g)) g;
     it \<leftarrow> last_content g it;
     assert_that (line (gi_point it) \<ge> - 1);
     let positions = nat (line (gi_point it) + 1);
     g \<leftarrow> grid_scroll_up (0, int (g_lines g)) positions g;
     rest \<leftarrow> usize_sub (g_lines g) positions;
     reset_lines (line_range 0 (int rest)) g
   }"

definition clear_history :: "grid \<Rightarrow> grid option" where
  "clear_history g = do {
     let g = g\<lparr>g_scrolled_out := g_scrolled_out g + grid_history g\<rparr>;
     raw \<leftarrow> storage_shrink_lines (grid_history g) (g_raw g);
     Some (g\<lparr>g_raw := raw, g_display_offset := 0\<rparr>)
   }"

definition grid_reset :: "grid \<Rightarrow> grid option" where
  "grid_reset g = do {
     g \<leftarrow> clear_history g;
     let g = g\<lparr>g_saved_cursor := default_cursor, g_cursor := default_cursor, g_display_offset := 0\<rparr>;
     reset_lines (line_range (topmost_line (grid_dims g)) (int (g_lines g))) g
   }"

definition track_inline_content :: "grid \<Rightarrow> grid" where
  "track_inline_content g = g\<lparr>g_raw := (g_raw g)\<lparr>st_transient := True\<rparr>\<rparr>"

definition track_transient_content :: "grid \<Rightarrow> grid" where
  "track_transient_content g = track_inline_content (g\<lparr>g_raw := (g_raw g)\<lparr>st_images := True\<rparr>\<rparr>)"

definition may_have_images :: "grid \<Rightarrow> bool" where
  "may_have_images g = st_images (g_raw g)"

datatype line_bound = Included int | Excluded int | Unbounded

definition bound_start :: "line_bound \<Rightarrow> int" where
  "bound_start b = (case b of Included l \<Rightarrow> l | Excluded l \<Rightarrow> l + 1 | Unbounded \<Rightarrow> 0)"

definition bound_end :: "line_bound \<Rightarrow> grid \<Rightarrow> int" where
  "bound_end b g = (case b of Included l \<Rightarrow> l + 1 | Excluded l \<Rightarrow> l | Unbounded \<Rightarrow> int (g_lines g))"

definition reset_region :: "line_bound \<Rightarrow> line_bound \<Rightarrow> grid \<Rightarrow> grid option" where
  "reset_region lo hi g = do {
     assert_that (bound_start lo < int (g_lines g));
     assert_that (bound_end hi g \<le> int (g_lines g));
     reset_lines (line_range (bound_start lo) (bound_end hi g)) g
   }"

definition grid_truncate :: "grid \<Rightarrow> grid option" where
  "grid_truncate g = do {
     raw \<leftarrow> storage_truncate (g_raw g);
     Some (g\<lparr>g_raw := raw\<rparr>)
   }"

definition initialize_all :: "grid \<Rightarrow> grid option" where
  "initialize_all g = do {
     g \<leftarrow> grid_truncate g;
     missing \<leftarrow> usize_sub (g_max_scroll_limit g) (grid_history g);
     raw \<leftarrow> storage_initialize missing (g_columns g) (g_raw g);
     Some (g\<lparr>g_raw := raw\<rparr>)
   }"

definition grid_eq :: "grid \<Rightarrow> grid \<Rightarrow> bool option" where
  "grid_eq g h = do {
     same \<leftarrow> storage_eq (g_raw g) (g_raw h);
     Some (same \<and> g_columns g = g_columns h \<and> g_lines g = g_lines h \<and>
       g_display_offset g = g_display_offset h)
   }"

definition copy_cursor_from :: "grid \<Rightarrow> grid \<Rightarrow> grid" where
  "copy_cursor_from source g =
     (let template = cur_template (g_cursor source);
          g = (if cell_image template \<noteq> None then track_transient_content g
               else if cell_inline_marker template \<noteq> None then track_inline_content g
               else g)
      in g\<lparr>g_cursor := g_cursor source\<rparr>)"

definition new_for_terminal :: "nat \<Rightarrow> nat \<Rightarrow> nat \<Rightarrow> grid option" where
  "new_for_terminal lines cols history = do {
     g \<leftarrow> grid_new lines cols history;
     Some (g\<lparr>g_raw := (g_raw g)\<lparr>st_transient := False, st_images := False\<rparr>\<rparr>)
   }"

section \<open>The grid invariant\<close>

definition grid_ok :: "bool \<Rightarrow> grid \<Rightarrow> bool" where
  "grid_ok strict g \<longleftrightarrow> storage_ok strict (g_columns g) (g_raw g) \<and>
     st_visible_lines (g_raw g) = g_lines g \<and> grid_history g \<le> g_max_scroll_limit g"

definition display_ok :: "grid \<Rightarrow> bool" where
  "display_ok g \<longleftrightarrow> g_display_offset g \<le> grid_history g"

abbreviation row_at :: "grid \<Rightarrow> int \<Rightarrow> row" where
  "row_at g l \<equiv> line_at (g_raw g) l"

text \<open>The absolute number of a line, stable while the row stays in the buffer.\<close>

definition absolute_line :: "grid \<Rightarrow> int \<Rightarrow> int" where
  "absolute_line g l = int (g_scrolled_out g) + int (grid_history g) + l"

text \<open>The blank rows an erasing operation of the grid leaves.\<close>

definition erased :: "bool \<Rightarrow> grid \<Rightarrow> row \<Rightarrow> bool" where
  "erased strict g r = reset_row strict (g_columns g) (cell_bg (cur_template (g_cursor g))) r"

lemma grid_history_len:
  "grid_ok strict g \<Longrightarrow> st_len (g_raw g) = g_lines g + grid_history g"
  by (auto simp: grid_ok_def storage_ok_def history_size_def grid_dims_def)

lemma valid_line_grid:
  "grid_ok strict g \<Longrightarrow>
     valid_line (g_raw g) l \<longleftrightarrow> - int (grid_history g) \<le> l \<and> l < int (g_lines g)"
  using grid_history_len [of strict g] by (auto simp: valid_line_def top_line_def grid_ok_def)

lemma storage_frameD:
  assumes "storage_frame s' = storage_frame s"
  shows "st_visible_lines s' = st_visible_lines s" "st_len s' = st_len s"
    "length (st_inner s') = length (st_inner s)" "st_transient s' = st_transient s"
    "st_images s' = st_images s" "valid_line s' = valid_line s"
  using assms storage_frame_lines [OF assms] by (auto simp: storage_frame_def)

text \<open>A grid whose storage was replaced by one of the same shape.\<close>

lemma grid_ok_raw:
  assumes "grid_ok strict g" "storage_ok strict (g_columns g) raw"
    "st_visible_lines raw = g_lines g" "st_len raw = st_len (g_raw g)"
  shows "grid_ok strict (g\<lparr>g_raw := raw\<rparr>)" "grid_dims (g\<lparr>g_raw := raw\<rparr>) = grid_dims g"
  using assms by (auto simp: grid_ok_def grid_dims_def)

lemma grid_raw_inject [simp]: "g\<lparr>g_raw := a\<rparr> = g\<lparr>g_raw := b\<rparr> \<longleftrightarrow> a = b"
  by (cases g) simp

lemma line_range_empty [simp]: "b \<le> a \<Longrightarrow> line_range a b = []"
  by (simp add: line_range_def)

text \<open>
  What the loops do to the lines: erase some, lift the lines of a range by \<open>p\<close>, or lower
  them. The \<open>p\<close> lines in the way of a lifted range end up below it, in some order.
\<close>

definition lines_erased :: "bool \<Rightarrow> grid \<Rightarrow> int set \<Rightarrow> storage \<Rightarrow> storage \<Rightarrow> bool" where
  "lines_erased strict g L s s' \<longleftrightarrow> (\<forall>m. valid_line s m \<longrightarrow>
     (if m \<in> L then erased strict g (line_at s' m) else line_at s' m = line_at s m))"

definition lines_lifted :: "int \<Rightarrow> int \<Rightarrow> int \<Rightarrow> storage \<Rightarrow> storage \<Rightarrow> bool" where
  "lines_lifted a b p s s' \<longleftrightarrow> (\<forall>m. valid_line s m \<longrightarrow>
     (a \<le> m \<and> m < b \<longrightarrow> line_at s' m = line_at s (m + p)) \<and>
     (m < a \<or> b + p \<le> m \<longrightarrow> line_at s' m = line_at s m) \<and>
     (b \<le> m \<and> m < b + p \<longrightarrow> (\<exists>q. a \<le> q \<and> q < a + p \<and> line_at s' m = line_at s q)))"

definition lines_lowered :: "int \<Rightarrow> int \<Rightarrow> int \<Rightarrow> storage \<Rightarrow> storage \<Rightarrow> bool" where
  "lines_lowered a b p s s' \<longleftrightarrow> (\<forall>m. valid_line s m \<longrightarrow>
     (a \<le> m \<and> m < b \<longrightarrow> line_at s' m = line_at s (m - p)) \<and>
     (m < a - p \<or> b \<le> m \<longrightarrow> line_at s' m = line_at s m))"

lemma lines_erasedD:
  assumes "lines_erased strict g L s s'" "valid_line s m"
  shows "m \<in> L \<Longrightarrow> erased strict g (line_at s' m)" "m \<notin> L \<Longrightarrow> line_at s' m = line_at s m"
  using assms unfolding lines_erased_def by metis+

lemma lines_liftedD:
  assumes "lines_lifted a b p s s'" "valid_line s m"
  shows "a \<le> m \<Longrightarrow> m < b \<Longrightarrow> line_at s' m = line_at s (m + p)"
    "m < a \<or> b + p \<le> m \<Longrightarrow> line_at s' m = line_at s m"
    "b \<le> m \<Longrightarrow> m < b + p \<Longrightarrow> \<exists>q. a \<le> q \<and> q < a + p \<and> line_at s' m = line_at s q"
  using assms unfolding lines_lifted_def by blast+

lemma lines_loweredD:
  assumes "lines_lowered a b p s s'" "valid_line s m"
  shows "a \<le> m \<Longrightarrow> m < b \<Longrightarrow> line_at s' m = line_at s (m - p)"
    "m < a - p \<or> b \<le> m \<Longrightarrow> line_at s' m = line_at s m"
  using assms unfolding lines_lowered_def by blast+

lemma erased_raw [simp]: "erased strict (g\<lparr>g_raw := raw\<rparr>) = erased strict g"
  by (simp add: erased_def fun_eq_iff)

lemma reset_lines_raw:
  assumes "storage_ok strict (g_columns g) raw" "\<forall>l \<in> set ls. valid_line raw l"
  shows "\<exists>raw'. reset_lines ls (g\<lparr>g_raw := raw\<rparr>) = Some (g\<lparr>g_raw := raw'\<rparr>) \<and>
    storage_ok strict (g_columns g) raw' \<and> storage_frame raw' = storage_frame raw \<and>
    lines_erased strict g (set ls) raw raw'"
  using reset_loop [OF assms, of "cur_template (g_cursor g)"]
  by (auto simp: reset_lines_def erased_def lines_erased_def)

lemma swap_up_raw:
  assumes "storage_ok strict n raw" "a \<le> b" "0 \<le> p" "\<forall>m. a \<le> m \<and> m < b + p \<longrightarrow> valid_line raw m"
    "(ls = line_range a b \<and> f = (\<lambda>i. i + p)) \<or> (ls = line_range (a + p) (b + p) \<and> f = (\<lambda>i. i - p))"
  shows "\<exists>raw'. swap_lines f ls (g\<lparr>g_raw := raw\<rparr>) = Some (g\<lparr>g_raw := raw'\<rparr>) \<and>
    storage_ok strict n raw' \<and> storage_frame raw' = storage_frame raw \<and> lines_lifted a b p raw raw'"
proof -
  have "\<exists>raw'. for_each (\<lambda>i. storage_swap i (f i)) ls raw = Some raw' \<and>
    storage_ok strict n raw' \<and> storage_frame raw' = storage_frame raw \<and> lines_lifted a b p raw raw'"
    unfolding lines_lifted_def
    by (rule lines.exchange_up_loop) (use assms in \<open>auto simp: add.assoc add.commute [of p]\<close>)
  then show ?thesis by (auto simp: swap_lines_def)
qed

lemma swap_down_raw:
  assumes "storage_ok strict n raw" "a \<le> b" "0 \<le> p" "\<forall>m. a - p \<le> m \<and> m < b \<longrightarrow> valid_line raw m"
  shows "\<exists>raw'. swap_lines (\<lambda>i. i - p) (rev (line_range a b)) (g\<lparr>g_raw := raw\<rparr>) = Some (g\<lparr>g_raw := raw'\<rparr>) \<and>
    storage_ok strict n raw' \<and> storage_frame raw' = storage_frame raw \<and> lines_lowered a b p raw raw'"
  using lines.swap_down_loop [OF assms] unfolding swap_lines_def lines_lowered_def
  by (elim exE conjE) simp

lemma increase_scroll_limit_raw:
  assumes ok: "grid_ok strict g"
  shows "\<exists>raw. increase_scroll_limit p g = Some (g\<lparr>g_raw := raw\<rparr>) \<and>
    storage_ok strict (g_columns g) raw \<and> st_visible_lines raw = g_lines g \<and>
    st_len raw = g_lines g + min (grid_history g + p) (g_max_scroll_limit g) \<and>
    (\<forall>l. valid_line (g_raw g) l \<longrightarrow> line_at raw l = row_at g l)"
proof -
  let ?c = "min p (g_max_scroll_limit g - grid_history g)"
  have h: "grid_history g \<le> g_max_scroll_limit g" "storage_ok strict (g_columns g) (g_raw g)"
    "st_visible_lines (g_raw g) = g_lines g" using ok by (auto simp: grid_ok_def)
  have len: "st_len (g_raw g) + ?c = g_lines g + min (grid_history g + p) (g_max_scroll_limit g)"
    using grid_history_len [OF ok] h(1) by auto
  show ?thesis
  proof (cases "?c = 0")
    case True
    then have "increase_scroll_limit p g = Some (g\<lparr>g_raw := g_raw g\<rparr>)"
      using h by (auto simp: increase_scroll_limit_def panic_free)
    then show ?thesis using True h len by (metis add_0_right)
  next
    case False
    then show ?thesis
      using storage_initialize_lines [OF h(2), of ?c] h len
      by (auto simp: increase_scroll_limit_def panic_free)
  qed
qed

section \<open>Scrolling\<close>

text \<open>Scrolling a region that starts at the top pushes its first lines into the history.\<close>

lemma grid_scroll_up_top:
  assumes ok: "grid_ok strict g" and e: "e \<le> int (g_lines g)" "int p \<le> e"
  shows "\<exists>raw. grid_scroll_up (0, e) p g = Some (g\<lparr>g_raw := raw,
      g_display_offset := (if g_display_offset g = 0 then 0
                           else min (g_display_offset g + p) (g_max_scroll_limit g)),
      g_scrolled_out := g_scrolled_out g + (p - (g_max_scroll_limit g - grid_history g))\<rparr>) \<and>
    storage_ok strict (g_columns g) raw \<and> st_visible_lines raw = g_lines g \<and>
    st_len raw = g_lines g + min (grid_history g + p) (g_max_scroll_limit g) \<and>
    (\<forall>l. valid_line raw l \<longrightarrow>
       (l < e - int p \<longrightarrow> line_at raw l = row_at g (l + int p)) \<and>
       (e - int p \<le> l \<and> l < e \<longrightarrow> erased strict g (line_at raw l)) \<and>
       (e \<le> l \<longrightarrow> line_at raw l = row_at g l))"
proof -
  let ?P = "int p" and ?n = "g_columns g" and ?H = "min (grid_history g + p) (g_max_scroll_limit g)"
  define g1 where "g1 = g\<lparr>g_display_offset := (if g_display_offset g = 0 then 0
                           else min (g_display_offset g + p) (g_max_scroll_limit g)),
      g_scrolled_out := g_scrolled_out g + (p - (g_max_scroll_limit g - grid_history g))\<rparr>"
  have dims: "grid_dims g1 = grid_dims g" by (simp add: g1_def grid_dims_def)
  have g1: "grid_ok strict g1" "g_columns g1 = ?n" "g_raw g1 = g_raw g" "g_lines g1 = g_lines g"
    "g_max_scroll_limit g1 = g_max_scroll_limit g"
    using ok unfolding grid_ok_def dims by (auto simp: g1_def)
  have h: "grid_history g \<le> g_max_scroll_limit g" using ok by (simp add: grid_ok_def)
  obtain raw1 where raw1: "increase_scroll_limit p g1 = Some (g1\<lparr>g_raw := raw1\<rparr>)"
    "storage_ok strict ?n raw1" "st_visible_lines raw1 = g_lines g" "st_len raw1 = g_lines g + ?H"
    "\<And>l. valid_line (g_raw g) l \<Longrightarrow> line_at raw1 l = row_at g l"
    using increase_scroll_limit_raw [OF g1(1), of p] unfolding g1(2-5) dims by blast
  have "?P \<le> int (length (st_inner raw1))" using raw1(2,4) e by (auto simp: storage_ok_def)
  then obtain raw2 where raw2: "storage_rotate (- ?P) raw1 = Some raw2" "storage_ok strict ?n raw2"
    "st_len raw2 = st_len raw1" "st_visible_lines raw2 = st_visible_lines raw1"
    "\<And>l. valid_line raw1 l \<Longrightarrow> valid_line raw1 (l + ?P) \<Longrightarrow> line_at raw2 l = line_at raw1 (l + ?P)"
    using storage_rotate_lines [OF raw1(2), of "- ?P"] by auto
  have v2: "valid_line raw2 l \<longleftrightarrow> - int ?H \<le> l \<and> l < int (g_lines g)" for l
    using raw1 raw2 by (auto simp: valid_line_def top_line_def)
  have v1: "valid_line raw1 = valid_line raw2"
    using raw1 raw2 by (auto simp: valid_line_def top_line_def fun_eq_iff)
  have moved: "line_at raw2 l = row_at g (l + ?P)" if "- int ?H \<le> l" "l + ?P < int (g_lines g)" for l
  proof -
    have "valid_line (g_raw g) (l + ?P)" using that h valid_line_grid [OF ok] by auto
    moreover have "valid_line raw1 l" "valid_line raw1 (l + ?P)" using that v1 v2 by auto
    ultimately show ?thesis using raw2(5) raw1(5) by simp
  qed
  obtain raw3 where raw3:
    "swap_lines (\<lambda>i. i - ?P) (rev (line_range e (int (g_lines g)))) (g1\<lparr>g_raw := raw2\<rparr>) = Some (g1\<lparr>g_raw := raw3\<rparr>)"
    "storage_ok strict ?n raw3" "storage_frame raw3 = storage_frame raw2"
    "lines_lowered e (int (g_lines g)) ?P raw2 raw3"
    using swap_down_raw [OF raw2(2), of e "int (g_lines g)" ?P g1] v2 e by auto
  note f3 = storage_frameD [OF raw3(3)]
  obtain raw where raw: "reset_lines (line_range (e - ?P) e) (g1\<lparr>g_raw := raw3\<rparr>) = Some (g1\<lparr>g_raw := raw\<rparr>)"
    "storage_ok strict ?n raw" "storage_frame raw = storage_frame raw3"
    "lines_erased strict g1 (set (line_range (e - ?P) e)) raw3 raw"
    using reset_lines_raw [of strict g1 raw3 "line_range (e - ?P) e"] raw3(2) f3(6) v2 e g1(2) by auto
  note f = storage_frameD [OF raw(3)]
  define g0 where "g0 = (if g_display_offset g \<noteq> 0
    then g\<lparr>g_display_offset := min (g_display_offset g + p) (g_max_scroll_limit g)\<rparr> else g)"
  have g0: "g_max_scroll_limit g0 = g_max_scroll_limit g" "grid_dims g0 = grid_dims g"
    "g0\<lparr>g_scrolled_out := g_scrolled_out g0 + (p - (g_max_scroll_limit g - grid_history g))\<rparr> = g1"
    by (cases g; simp add: g1_def g0_def grid_dims_def)+
  have "grid_scroll_up (0, e) p g = Some (g1\<lparr>g_raw := raw\<rparr>)"
    using h raw1(1) raw2(1) raw3(1) raw(1) g1(4) g0
    unfolding grid_scroll_up_def Let_def fst_conv snd_conv g0_def [symmetric]
    by (simp add: panic_free swap_lines_def [of _ "[]"])
  moreover have "line_at raw l = row_at g (l + ?P)" if "valid_line raw l" "l < e - ?P" for l
    using that lines_erasedD(2) [OF raw(4), of l] lines_loweredD(2) [OF raw3(4), of l] moved [of l]
      f(6) f3(6) v2 e by auto
  moreover have "line_at raw l = row_at g l" if "valid_line raw l" "e \<le> l" for l
    using that lines_erasedD(2) [OF raw(4), of l] lines_loweredD(1) [OF raw3(4), of l]
      moved [of "l - ?P"] f(6) f3(6) v2 e by auto
  moreover have "erased strict g (line_at raw l)" if "valid_line raw l" "e - ?P \<le> l" "l < e" for l
    using that lines_erasedD(1) [OF raw(4), of l] f(6) by (auto simp: erased_def g1_def)
  ultimately show ?thesis
    using raw(2) f f3 raw2(3,4) raw1(3,4) by (intro exI [of _ raw]) (auto simp: g1_def)
qed

text \<open>Scrolling a region below the top line moves nothing into the history.\<close>

definition scrolled_up :: "bool \<Rightarrow> line_region \<Rightarrow> nat \<Rightarrow> grid \<Rightarrow> storage \<Rightarrow> bool" where
  "scrolled_up strict region p g raw \<longleftrightarrow>
     storage_ok strict (g_columns g) raw \<and> st_visible_lines raw = st_visible_lines (g_raw g) \<and>
     st_len raw = st_len (g_raw g) \<and>
     (\<forall>l. valid_line (g_raw g) l \<longrightarrow>
       (l < fst region \<or> snd region \<le> l \<longrightarrow> line_at raw l = row_at g l) \<and>
       (fst region \<le> l \<and> l < snd region - int p \<longrightarrow> line_at raw l = row_at g (l + int p)) \<and>
       (fst region \<le> l \<and> snd region - int p \<le> l \<and> l < snd region \<longrightarrow> erased strict g (line_at raw l)))"

lemma reset_lines_grid:
  assumes "grid_ok strict g" "\<forall>l \<in> set ls. valid_line (g_raw g) l"
  shows "\<exists>raw'. reset_lines ls g = Some (g\<lparr>g_raw := raw'\<rparr>) \<and>
    storage_ok strict (g_columns g) raw' \<and> storage_frame raw' = storage_frame (g_raw g) \<and>
    lines_erased strict g (set ls) (g_raw g) raw'"
  using reset_lines_raw [of strict g "g_raw g" ls] assms by (simp add: grid_ok_def)

lemma grid_scroll_up_region:
  assumes ok: "grid_ok strict g" and r: "0 < s" "s \<le> e" "e \<le> int (g_lines g)"
  shows "\<exists>raw. grid_scroll_up (s, e) p g = Some (g\<lparr>g_raw := raw,
      g_display_offset := (if g_display_offset g = 0 \<or> e - s \<le> int p then g_display_offset g
                           else min (g_display_offset g + p) (g_max_scroll_limit g))\<rparr>) \<and>
    scrolled_up strict (s, e) p g raw"
proof -
  have v: "valid_line (g_raw g) l" if "s \<le> l" "l < e" for l using that r valid_line_grid [OF ok] by auto
  show ?thesis
  proof (cases "e - s \<le> int p")
    case True
    obtain raw where raw: "reset_lines (line_range s e) g = Some (g\<lparr>g_raw := raw\<rparr>)"
      "storage_ok strict (g_columns g) raw" "storage_frame raw = storage_frame (g_raw g)"
      "lines_erased strict g (set (line_range s e)) (g_raw g) raw"
      using reset_lines_grid [OF ok, of "line_range s e"] v by auto
    have "scrolled_up strict (s, e) p g raw"
      using raw(2) storage_frameD [OF raw(3)] lines_erasedD [OF raw(4)] True
      by (auto simp: scrolled_up_def)
    moreover have "grid_scroll_up (s, e) p g = Some (g\<lparr>g_raw := raw, g_display_offset := g_display_offset g\<rparr>)"
      using True r raw(1) by (simp add: grid_scroll_up_def)
    ultimately show ?thesis using True by auto
  next
    case False
    define g1 where "g1 = g\<lparr>g_display_offset := (if g_display_offset g = 0 then g_display_offset g
                           else min (g_display_offset g + p) (g_max_scroll_limit g))\<rparr>"
    have g1: "g1\<lparr>g_raw := g_raw g\<rparr> = g1" "g_columns g1 = g_columns g" "erased strict g1 = erased strict g"
      "(if g_display_offset g \<noteq> 0
        then g\<lparr>g_display_offset := min (g_display_offset g + p) (g_max_scroll_limit g)\<rparr> else g) = g1"
      by (auto simp: g1_def erased_def fun_eq_iff)
    have st: "storage_ok strict (g_columns g) (g_raw g)" using ok by (simp add: grid_ok_def)
    obtain raw1 where raw1: "swap_lines (\<lambda>i. i + int p) (line_range s (e - int p)) g1 = Some (g1\<lparr>g_raw := raw1\<rparr>)"
      "storage_ok strict (g_columns g) raw1" "storage_frame raw1 = storage_frame (g_raw g)"
      "lines_lifted s (e - int p) (int p) (g_raw g) raw1"
      using swap_up_raw [OF st, of s "e - int p" "int p" "line_range s (e - int p)" "\<lambda>i. i + int p" g1]
        v g1(1) False by auto
    note f1 = storage_frameD [OF raw1(3)]
    obtain raw where raw: "reset_lines (line_range (e - int p) e) (g1\<lparr>g_raw := raw1\<rparr>) = Some (g1\<lparr>g_raw := raw\<rparr>)"
      "storage_ok strict (g_columns g) raw" "storage_frame raw = storage_frame raw1"
      "lines_erased strict g1 (set (line_range (e - int p) e)) raw1 raw"
      using reset_lines_raw [of strict g1 raw1 "line_range (e - int p) e"] raw1(2) f1(6) v g1(2) False
      by auto
    have "grid_scroll_up (s, e) p g = Some (g1\<lparr>g_raw := raw\<rparr>)"
      using False r raw1(1) raw(1) unfolding grid_scroll_up_def Let_def fst_conv snd_conv g1(4) by simp
    moreover have "scrolled_up strict (s, e) p g raw"
      using raw(2) storage_frameD [OF raw(3)] f1 lines_erasedD [OF raw(4)] lines_liftedD(1,2) [OF raw1(4)] False
      by (auto simp: scrolled_up_def g1(3))
    ultimately show ?thesis using False by (intro exI [of _ raw]) (simp add: g1_def)
  qed
qed

text \<open>
  Scrolling down moves the lines of the region and erases the first ones, whichever of the
  two implementations runs.
\<close>

definition scrolled_down :: "bool \<Rightarrow> line_region \<Rightarrow> nat \<Rightarrow> grid \<Rightarrow> storage \<Rightarrow> bool" where
  "scrolled_down strict region p g raw \<longleftrightarrow>
     storage_ok strict (g_columns g) raw \<and> st_visible_lines raw = st_visible_lines (g_raw g) \<and>
     st_len raw = st_len (g_raw g) \<and>
     (\<forall>l. valid_line (g_raw g) l \<longrightarrow>
       (l < fst region \<or> snd region \<le> l \<longrightarrow> line_at raw l = row_at g l) \<and>
       (fst region \<le> l \<and> l < snd region \<and> l < fst region + int p \<longrightarrow> erased strict g (line_at raw l)) \<and>
       (fst region + int p \<le> l \<and> l < snd region \<longrightarrow> line_at raw l = row_at g (l - int p)))"

lemma grid_scroll_down_swaps:
  assumes ok: "grid_ok strict g" and r: "0 \<le> s" "e \<le> int (g_lines g)" "int p < e - s"
    and m: "g_max_scroll_limit g \<noteq> 0"
  shows "\<exists>raw. grid_scroll_down (s, e) p g = Some (g\<lparr>g_raw := raw\<rparr>) \<and> scrolled_down strict (s, e) p g raw"
proof -
  have st: "storage_ok strict (g_columns g) (g_raw g)" using ok by (simp add: grid_ok_def)
  have v: "valid_line (g_raw g) l" if "s \<le> l" "l < e" for l using that r valid_line_grid [OF ok] by auto
  obtain raw1 where raw1: "swap_lines (\<lambda>i. i - int p) (rev (line_range (s + int p) e)) g = Some (g\<lparr>g_raw := raw1\<rparr>)"
    "storage_ok strict (g_columns g) raw1" "storage_frame raw1 = storage_frame (g_raw g)"
    "lines_lowered (s + int p) e (int p) (g_raw g) raw1"
    using swap_down_raw [OF st, of "s + int p" e "int p" g] v r by auto
  note f1 = storage_frameD [OF raw1(3)]
  obtain raw where raw: "reset_lines (rev (line_range s (s + int p))) (g\<lparr>g_raw := raw1\<rparr>) = Some (g\<lparr>g_raw := raw\<rparr>)"
    "storage_ok strict (g_columns g) raw" "storage_frame raw = storage_frame raw1"
    "lines_erased strict g {s..<s + int p} raw1 raw"
    using reset_lines_raw [OF raw1(2), of "rev (line_range s (s + int p))"] f1(6) v r by auto
  have "grid_scroll_down (s, e) p g = Some (g\<lparr>g_raw := raw\<rparr>)"
    using r m raw1(1) raw(1) by (simp add: grid_scroll_down_def)
  moreover have "scrolled_down strict (s, e) p g raw"
    using raw(2) storage_frameD [OF raw(3)] f1 lines_erasedD [OF raw(4)] lines_loweredD [OF raw1(4)] r
    by (auto simp: scrolled_down_def)
  ultimately show ?thesis by blast
qed

lemma grid_scroll_down_rotates:
  assumes ok: "grid_ok strict g" and r: "0 \<le> s" "e \<le> int (g_lines g)" "int p < e - s"
    and m: "g_max_scroll_limit g = 0"
  shows "\<exists>raw. grid_scroll_down (s, e) p g = Some (g\<lparr>g_raw := raw\<rparr>) \<and> scrolled_down strict (s, e) p g raw"
proof -
  let ?P = "int p" and ?n = "g_columns g" and ?L = "int (g_lines g)"
  have st: "storage_ok strict ?n (g_raw g)" using ok by (simp add: grid_ok_def)
  have v: "valid_line (g_raw g) l \<longleftrightarrow> 0 \<le> l \<and> l < ?L" for l
    using valid_line_grid [OF ok] ok m by (auto simp: grid_ok_def)
  obtain raw1 where raw1: "swap_lines (\<lambda>i. i - ?P) (line_range e ?L) g = Some (g\<lparr>g_raw := raw1\<rparr>)"
    "storage_ok strict ?n raw1" "storage_frame raw1 = storage_frame (g_raw g)"
    "lines_lifted (e - ?P) (?L - ?P) ?P (g_raw g) raw1"
    using swap_up_raw [OF st, of "e - ?P" "?L - ?P" ?P "line_range e ?L" "\<lambda>i. i - ?P" g] v r by auto
  note f1 = storage_frameD [OF raw1(3)]
  have "\<bar>?P\<bar> \<le> int (length (st_inner raw1))" using raw1(2) f1(1) ok r by (auto simp: storage_ok_def grid_ok_def)
  then obtain raw2 where raw2: "storage_rotate ?P raw1 = Some raw2" "storage_ok strict ?n raw2"
    "st_len raw2 = st_len raw1" "st_visible_lines raw2 = st_visible_lines raw1"
    "\<And>l. valid_line raw1 l \<Longrightarrow> valid_line raw1 (l - ?P) \<Longrightarrow> line_at raw2 l = line_at raw1 (l - ?P)"
    using storage_rotate_lines [OF raw1(2), of ?P] by blast
  have v2: "valid_line raw2 = valid_line (g_raw g)"
    using raw2(3,4) f1 by (simp add: valid_line_def top_line_def fun_eq_iff)
  obtain raw3 where raw3: "reset_lines (line_range 0 ?P) (g\<lparr>g_raw := raw2\<rparr>) = Some (g\<lparr>g_raw := raw3\<rparr>)"
    "storage_ok strict ?n raw3" "storage_frame raw3 = storage_frame raw2"
    "lines_erased strict g {0..<?P} raw2 raw3"
    using reset_lines_raw [OF raw2(2), of "line_range 0 ?P"] v2 v r by auto
  note f3 = storage_frameD [OF raw3(3)]
  have v3: "valid_line raw3 = valid_line (g_raw g)" using f3(6) v2 by simp
  obtain raw where raw: "swap_lines (\<lambda>i. i + ?P) (line_range 0 s) (g\<lparr>g_raw := raw3\<rparr>) = Some (g\<lparr>g_raw := raw\<rparr>)"
    "storage_ok strict ?n raw" "storage_frame raw = storage_frame raw3"
    "lines_lifted 0 s ?P raw3 raw"
    using swap_up_raw [OF raw3(2), of 0 s ?P "line_range 0 s" "\<lambda>i. i + ?P" g] v3 v r by auto
  note f = storage_frameD [OF raw(3)]
  have shifted: "line_at raw3 l = line_at raw1 (l - ?P)" if "?P \<le> l" "l < ?L" for l
    using lines_erasedD(2) [OF raw3(4), of l] raw2(5) [of l] f1(6) v2 v that by auto
  have "grid_scroll_down (s, e) p g = Some (g\<lparr>g_raw := raw\<rparr>)"
    using r m raw1(1) raw2(1) raw3(1) raw(1)
    by (simp add: grid_scroll_down_def storage_rotate_down_def)
  moreover have "line_at raw l = row_at g l" if "valid_line (g_raw g) l" "l < s \<or> e \<le> l" for l
  proof (cases "l < s")
    case True
    then show ?thesis
      using lines_liftedD(1) [OF raw(4), of l] shifted [of "l + ?P"] lines_liftedD(2) [OF raw1(4) that(1)]
        that v3 v r by auto
  next
    case False
    then show ?thesis
      using lines_liftedD(2) [OF raw(4), of l] shifted [of l] lines_liftedD(1) [OF raw1(4), of "l - ?P"]
        that v3 v r by auto
  qed
  moreover have "erased strict g (line_at raw l)" if l: "valid_line (g_raw g) l" "s \<le> l" "l < s + ?P" for l
  proof -
    obtain q where "0 \<le> q" "q < ?P" "line_at raw l = line_at raw3 q"
      using lines_liftedD(3) [OF raw(4), of l] v3 l by auto
    then show ?thesis using lines_erasedD(1) [OF raw3(4), of q] v2 v r by auto
  qed
  moreover have "line_at raw l = row_at g (l - ?P)" if "valid_line (g_raw g) l" "s + ?P \<le> l" "l < e" for l
    using lines_liftedD(2) [OF raw(4), of l] shifted [of l] lines_liftedD(2) [OF raw1(4), of "l - ?P"]
      that v3 v r by auto
  ultimately show ?thesis using raw(2) f f3 f1 raw2(3,4) by (auto simp: scrolled_down_def)
qed

lemma grid_scroll_down_rows:
  assumes ok: "grid_ok strict g" and r: "0 \<le> s" "s \<le> e" "e \<le> int (g_lines g)"
  shows "\<exists>raw. grid_scroll_down (s, e) p g = Some (g\<lparr>g_raw := raw\<rparr>) \<and> scrolled_down strict (s, e) p g raw"
proof (cases "e - s \<le> int p")
  case False
  then show ?thesis
    using grid_scroll_down_swaps [OF ok r(1,3), of p] grid_scroll_down_rotates [OF ok r(1,3), of p]
    by (cases "g_max_scroll_limit g = 0") auto
next
  case True
  have v: "\<forall>l \<in> set (line_range s e). valid_line (g_raw g) l" using r valid_line_grid [OF ok] by auto
  obtain raw where raw: "reset_lines (line_range s e) g = Some (g\<lparr>g_raw := raw\<rparr>)"
    "storage_ok strict (g_columns g) raw" "storage_frame raw = storage_frame (g_raw g)"
    "lines_erased strict g {s..<e} (g_raw g) raw"
    using reset_lines_grid [OF ok v] by auto
  then have "scrolled_down strict (s, e) p g raw"
    using True storage_frameD [OF raw(3)] lines_erasedD [OF raw(4)] by (auto simp: scrolled_down_def)
  then show ?thesis using True raw(1) by (simp add: grid_scroll_down_def)
qed

section \<open>History, display offset and clearing\<close>

lemma grid_okI:
  assumes "storage_ok strict (g_columns g) (g_raw g)" "st_visible_lines (g_raw g) = g_lines g"
    "st_len (g_raw g) = g_lines g + h" "h \<le> g_max_scroll_limit g"
  shows "grid_ok strict g" "grid_history g = h"
  using assms by (auto simp: grid_ok_def grid_dims_def history_size_def)

lemma grid_shrink:
  assumes ok: "grid_ok strict g" and m: "m \<le> grid_history g"
  shows "\<exists>raw. storage_shrink_lines m (g_raw g) = Some raw \<and> storage_ok strict (g_columns g) raw \<and>
    st_visible_lines raw = g_lines g \<and> st_len raw = g_lines g + (grid_history g - m) \<and>
    (\<forall>l. valid_line raw l \<longrightarrow> line_at raw l = row_at g l)"
proof -
  have "m \<le> st_len (g_raw g)" "st_visible_lines (g_raw g) \<le> st_len (g_raw g) - m"
    "st_len (g_raw g) - m = g_lines g + (grid_history g - m)"
    using ok m grid_history_len [OF ok] by (auto simp: grid_ok_def)
  then show ?thesis
    using storage_shrink_lines_lines [of strict "g_columns g" "g_raw g" m] ok
    by (auto simp: grid_ok_def)
qed

text \<open>What dropping the oldest lines down to a history of \<open>h\<close> does.\<close>

definition history_cut :: "bool \<Rightarrow> nat \<Rightarrow> grid \<Rightarrow> grid \<Rightarrow> bool" where
  "history_cut strict h g g' \<longleftrightarrow> grid_ok strict g' \<and> display_ok g' \<and> grid_history g' = h \<and>
     g_cursor g' = g_cursor g \<and> g_lines g' = g_lines g \<and> g_columns g' = g_columns g \<and>
     (\<forall>l. valid_line (g_raw g') l \<longrightarrow>
        row_at g' l = row_at g l \<and> absolute_line g' l = absolute_line g l)"

lemma update_history_cut:
  assumes ok: "grid_ok strict g" and d: "display_ok g"
  shows "\<exists>g'. update_history m g = Some g' \<and> g_max_scroll_limit g' = m \<and>
    history_cut strict (min (grid_history g) m) g g'"
proof (cases "grid_history g > m")
  case True
  then obtain raw where raw: "storage_shrink_lines (grid_history g - m) (g_raw g) = Some raw"
    "storage_ok strict (g_columns g) raw" "st_visible_lines raw = g_lines g"
    "st_len raw = g_lines g + m" "\<forall>l. valid_line raw l \<longrightarrow> line_at raw l = row_at g l"
    using grid_shrink [OF ok, of "grid_history g - m"] by auto
  let ?g = "g\<lparr>g_scrolled_out := g_scrolled_out g + (grid_history g - m), g_raw := raw,
    g_display_offset := min (g_display_offset g) m, g_max_scroll_limit := m\<rparr>"
  have "grid_ok strict ?g" "grid_history ?g = m"
    using grid_okI [of strict ?g m] raw by auto
  moreover have "update_history m g = Some ?g" using True raw(1) by (simp add: update_history_def)
  ultimately show ?thesis
    using True raw(5) by (auto simp: history_cut_def display_ok_def absolute_line_def)
next
  case False
  let ?g = "g\<lparr>g_display_offset := min (g_display_offset g) m, g_max_scroll_limit := m\<rparr>"
  have "grid_dims ?g = grid_dims g" by (simp add: grid_dims_def)
  then show ?thesis
    using False ok d
    by (auto simp: update_history_def history_cut_def display_ok_def absolute_line_def grid_ok_def)
qed

lemma decrease_scroll_limit_cut:
  assumes ok: "grid_ok strict g" and d: "display_ok g"
  shows "\<exists>g'. decrease_scroll_limit m g = Some g' \<and> history_cut strict (grid_history g - m) g g'"
proof (cases "min m (grid_history g) = 0")
  case True
  then show ?thesis using ok d by (auto simp: decrease_scroll_limit_def history_cut_def)
next
  case False
  let ?c = "min m (grid_history g)"
  obtain raw where raw: "storage_shrink_lines ?c (g_raw g) = Some raw"
    "storage_ok strict (g_columns g) raw" "st_visible_lines raw = g_lines g"
    "st_len raw = g_lines g + (grid_history g - ?c)" "\<forall>l. valid_line raw l \<longrightarrow> line_at raw l = row_at g l"
    using grid_shrink [OF ok, of ?c] by auto
  let ?h = "grid_history g - m"
  let ?g = "g\<lparr>g_scrolled_out := g_scrolled_out g + ?c, g_raw := raw,
    g_display_offset := min (g_display_offset g) ?h\<rparr>"
  have len: "st_len raw = g_lines g + ?h" using raw(4) by auto
  have g: "grid_ok strict ?g" "grid_history ?g = ?h"
    using grid_okI [of strict ?g ?h] raw(2,3) len ok by (auto simp: grid_ok_def)
  have "decrease_scroll_limit m g = Some ?g"
    using False raw(1) len by (simp add: decrease_scroll_limit_def Let_def grid_dims_def history_size_def)
  then show ?thesis
    using g raw(5) by (auto simp: history_cut_def display_ok_def absolute_line_def)
qed

lemma clear_history_cut:
  assumes ok: "grid_ok strict g"
  shows "\<exists>g'. clear_history g = Some g' \<and> g_display_offset g' = 0 \<and> history_cut strict 0 g g'"
proof -
  obtain raw where raw: "storage_shrink_lines (grid_history g) (g_raw g) = Some raw"
    "storage_ok strict (g_columns g) raw" "st_visible_lines raw = g_lines g" "st_len raw = g_lines g"
    "\<forall>l. valid_line raw l \<longrightarrow> line_at raw l = row_at g l"
    using grid_shrink [OF ok, of "grid_history g"] by auto
  let ?g = "g\<lparr>g_scrolled_out := g_scrolled_out g + grid_history g, g_raw := raw, g_display_offset := 0\<rparr>"
  have g: "grid_ok strict ?g" "grid_history ?g = 0" using grid_okI [of strict ?g 0] raw(2-4) by auto
  have "clear_history g = Some ?g" using raw(1) by (simp add: clear_history_def grid_dims_def)
  then show ?thesis
    using g raw(5) by (auto simp: history_cut_def display_ok_def absolute_line_def)
qed

lemma grid_ok_frame:
  assumes "grid_ok strict g" "storage_ok strict (g_columns g) raw"
    "storage_frame raw = storage_frame (g_raw g)"
  shows "grid_ok strict (g\<lparr>g_raw := raw\<rparr>)" "grid_dims (g\<lparr>g_raw := raw\<rparr>) = grid_dims g"
  using grid_ok_raw [OF assms(1,2)] storage_frameD [OF assms(3)] assms(1) by (auto simp: grid_ok_def)

text \<open>A full reset: no history, default cursors, and every line blank.\<close>

lemma grid_reset_blank:
  assumes ok: "grid_ok strict g"
  shows "\<exists>g'. grid_reset g = Some g' \<and> grid_ok strict g' \<and> display_ok g' \<and> grid_history g' = 0 \<and>
    g_cursor g' = default_cursor \<and> g_saved_cursor g' = default_cursor \<and> g_display_offset g' = 0 \<and>
    g_lines g' = g_lines g \<and> g_columns g' = g_columns g \<and>
    (\<forall>l. 0 \<le> l \<longrightarrow> l < int (g_lines g) \<longrightarrow>
       reset_row strict (g_columns g) (Named Background) (row_at g' l))"
proof -
  obtain g1 where g1: "clear_history g = Some g1" "g_display_offset g1 = 0" "history_cut strict 0 g g1"
    using clear_history_cut [OF ok] by blast
  let ?g = "g1\<lparr>g_saved_cursor := default_cursor, g_cursor := default_cursor, g_display_offset := 0\<rparr>"
  have d: "grid_dims ?g = grid_dims g1" by (simp add: grid_dims_def)
  have ok': "grid_ok strict ?g" and h: "grid_history ?g = 0"
    and same: "g_lines g1 = g_lines g" "g_columns g1 = g_columns g"
    using g1(3) unfolding history_cut_def grid_ok_def d by auto
  have top: "topmost_line (grid_dims ?g) = 0" using h by (simp add: topmost_line_def)
  have v: "valid_line (g_raw ?g) l \<longleftrightarrow> 0 \<le> l \<and> l < int (g_lines g)" for l
    using valid_line_grid [OF ok'] h same by simp
  obtain raw where raw: "reset_lines (line_range 0 (int (g_lines g))) ?g = Some (?g\<lparr>g_raw := raw\<rparr>)"
    "storage_ok strict (g_columns ?g) raw" "storage_frame raw = storage_frame (g_raw ?g)"
    "lines_erased strict ?g (set (line_range 0 (int (g_lines g)))) (g_raw ?g) raw"
    using reset_lines_grid [OF ok', of "line_range 0 (int (g_lines g))"] v by auto
  note final = grid_ok_frame [OF ok' raw(2,3)]
  have "grid_reset g = Some (?g\<lparr>g_raw := raw\<rparr>)"
    using g1(1) raw(1) top same by (simp add: grid_reset_def)
  moreover have "reset_row strict (g_columns g) (Named Background) (line_at raw l)"
    if "0 \<le> l" "l < int (g_lines g)" for l
    using lines_erasedD(1) [OF raw(4), of l] v that same
    by (simp add: erased_def default_cursor_def default_cell_def)
  ultimately show ?thesis
    using final h same unfolding display_ok_def by (intro exI [of _ "?g\<lparr>g_raw := raw\<rparr>"]) simp
qed

section \<open>Cells and iterators\<close>

lemma line_at_length:
  "storage_ok strict n s \<Longrightarrow> valid_line s l \<Longrightarrow> length (row_inner (line_at s l)) = n"
  using line_at_good [of strict n s l] by (simp add: row_good_def row_std_def row_wf_def)

definition cell_at :: "grid \<Rightarrow> point \<Rightarrow> cell" where
  "cell_at g pt = row_inner (row_at g (line pt)) ! column pt"

lemma grid_index_cell:
  assumes "grid_ok strict g" "- int (grid_history g) \<le> line pt" "line pt < int (g_lines g)"
    "column pt < g_columns g"
  shows "grid_index pt g = Some (cell_at g pt)"
proof -
  have st: "storage_ok strict (g_columns g) (g_raw g)" and v: "valid_line (g_raw g) (line pt)"
    using assms valid_line_grid [OF assms(1)] by (auto simp: grid_ok_def)
  show ?thesis
    using storage_index_line [OF st v] line_at_length [OF st v] assms(4)
    by (simp add: grid_index_def grid_index_line_def row_index_def panic_free cell_at_def)
qed

lemma topmost_line_history: "topmost_line d = - int (history_size d)"
  by (simp add: topmost_line_def)

text \<open>The backwards search stops at the last line with content.\<close>

lemma last_content_stops:
  assumes ok: "grid_ok strict g" and "gi_last_column it = g_columns g - 1"
    "0 \<le> line (gi_point it)" "line (gi_point it) < int (g_lines g)" "column (gi_point it) \<le> g_columns g"
  shows "\<exists>it'. last_content g it = Some it' \<and> - 1 \<le> line (gi_point it') \<and>
    line (gi_point it') < int (g_lines g) \<and> - int (grid_history g) \<le> line (gi_point it') \<and>
    (\<forall>pt. line (gi_point it') < line pt \<longrightarrow> pt < gi_point it \<longrightarrow> column pt < g_columns g \<longrightarrow>
       cell_is_empty (cell_at g pt)) \<and>
    (0 \<le> line (gi_point it') \<longrightarrow>
       (\<exists>c < g_columns g. \<not> cell_is_empty (cell_at g (Point (line (gi_point it')) c))) \<or>
       grid_history g = 0 \<and> line (gi_point it') = 0)"
  using assms(2-5)
proof (induction "iterator_position g it" arbitrary: it rule: less_induct)
  case (less it)
  let ?pt = "gi_point it" and ?n = "g_columns g"
  have n: "1 \<le> ?n" using ok by (simp add: grid_ok_def storage_ok_def)
  have stop: "?pt \<le> Point (topmost_line (grid_dims g)) 0 \<longleftrightarrow>
      grid_history g = 0 \<and> line ?pt = 0 \<and> column ?pt = 0"
    using less.prems(2) by (auto simp: point_ord_defs topmost_line_history)
  show ?case
  proof (cases "?pt \<le> Point (topmost_line (grid_dims g)) 0")
    case True
    then have "last_content g it = Some it" by (subst last_content.simps) (simp add: grid_iterator_prev_def)
    then show ?thesis using True stop less.prems by (auto simp: point_ord_defs)
  next
    case False
    define q where "q = (if column ?pt = 0 then Point (line ?pt - 1) (gi_last_column it)
      else Point (line ?pt) (column ?pt - 1))"
    let ?it = "it\<lparr>gi_point := q\<rparr>"
    have q: "column q < ?n" "line q < int (g_lines g)" "- 1 \<le> line q" "- int (grid_history g) \<le> line q"
      using False stop less.prems n by (auto simp: q_def)
    have before: "pt < ?pt \<longleftrightarrow> pt < q \<or> pt = q" if "column pt < ?n" for pt
      using that less.prems(1) n by (cases pt) (auto simp: q_def point_ord_defs)
    have prev: "grid_iterator_prev g it = Some (Some (q, cell_at g q), ?it)"
      using False grid_index_cell [OF ok q(4,2,1)]
      unfolding grid_iterator_prev_def q_def [symmetric] Let_def by simp
    have step: "last_content g it =
        (if \<not> cell_is_empty (cell_at g q) \<or> line q < 0 then Some ?it else last_content g ?it)"
      by (subst last_content.simps) (simp add: prev)
    show ?thesis
    proof (cases "\<not> cell_is_empty (cell_at g q) \<or> line q < 0")
      case True
      have "\<exists>c < ?n. \<not> cell_is_empty (cell_at g (Point (line q) c))" if "0 \<le> line q"
        using True that q(1) by (metis linorder_not_less point.collapse)
      moreover have "cell_is_empty (cell_at g pt)"
        if "line q < line pt" "pt < ?pt" "column pt < ?n" for pt
        using before [OF that(3)] that(1,2) by (auto simp: point_ord_defs)
      ultimately show ?thesis using True step q by auto
    next
      case go: False
      have "iterator_position g ?it < iterator_position g it"
        using grid_iterator_prev_position [OF prev] by simp
      then obtain it' where it': "last_content g ?it = Some it'" "- 1 \<le> line (gi_point it')"
        "line (gi_point it') < int (g_lines g)" "- int (grid_history g) \<le> line (gi_point it')"
        "\<forall>pt. line (gi_point it') < line pt \<longrightarrow> pt < q \<longrightarrow> column pt < ?n \<longrightarrow> cell_is_empty (cell_at g pt)"
        "0 \<le> line (gi_point it') \<longrightarrow>
          (\<exists>c < ?n. \<not> cell_is_empty (cell_at g (Point (line (gi_point it')) c))) \<or>
          grid_history g = 0 \<and> line (gi_point it') = 0"
        using less.hyps [of ?it] less.prems q go by auto
      then show ?thesis using step go before by auto
    qed
  qed
qed

text \<open>Running an iterator to its end, as a \<open>for\<close> loop over it does.\<close>

lemma grid_iterator_next_measure:
  assumes "grid_iterator_next g it = Some (Some pc, it')"
  shows "(it', it) \<in> measures [\<lambda>it. nat (line (gi_end it) + 1 - line (gi_point it)),
    \<lambda>it. gi_last_column it - column (gi_point it)]"
proof -
  have "gi_point it < gi_end it"
    using assms by (auto simp: grid_iterator_next_def not_le split: if_splits)
  then have "line (gi_point it) \<le> line (gi_end it)" by (auto simp: point_ord_defs)
  then show ?thesis
    using assms by (auto simp: grid_iterator_next_def bind_eq_Some_conv Let_def split: if_splits)
qed

function drain :: "grid \<Rightarrow> grid_iterator \<Rightarrow> (point \<times> cell) list option" where
  "drain g it =
     (case grid_iterator_next g it of
        None \<Rightarrow> None
      | Some (None, it) \<Rightarrow> Some []
      | Some (Some x, it) \<Rightarrow> map_option (Cons x) (drain g it))"
  by pat_completeness auto
termination
  by (relation "inv_image (measures [\<lambda>it. nat (line (gi_end it) + 1 - line (gi_point it)),
        \<lambda>it. gi_last_column it - column (gi_point it)]) snd")
    (auto dest: grid_iterator_next_measure)

declare drain.simps [simp del] last_content.simps [simp del]

definition row_points :: "nat \<Rightarrow> int \<Rightarrow> point list" where
  "row_points w l = map (Point l) [0..<w]"

definition area_points :: "nat \<Rightarrow> int \<Rightarrow> int \<Rightarrow> point list" where
  "area_points w from to = concat (map (row_points w) (line_range from (to + 1)))"


lemma area_points_Nil [simp]: "to < from \<Longrightarrow> area_points w from to = []"
  by (simp add: area_points_def)

lemma length_area_points: "length (area_points w from to) = nat (to + 1 - from) * w"
proof -
  have "map (length \<circ> row_points w) (line_range from (to + 1)) = replicate (nat (to + 1 - from)) w"
    by (intro nth_equalityI) (simp_all add: row_points_def)
  then show ?thesis by (simp add: area_points_def length_concat sum_list_replicate)
qed




lemma clear_viewport_rows:
  assumes ok: "grid_ok strict g"
  shows "\<exists>p g'. clear_viewport g = Some g' \<and> grid_ok strict g' \<and> p \<le> g_lines g \<and>
    g_cursor g' = g_cursor g \<and> (display_ok g \<longrightarrow> display_ok g') \<and>
    g_columns g' = g_columns g \<and> g_lines g' = g_lines g \<and>
    grid_history g' = min (grid_history g + p) (g_max_scroll_limit g) \<and>
    g_display_offset g' = (if g_display_offset g = 0 then 0 else min (g_display_offset g + p) (g_max_scroll_limit g)) \<and>
    (\<forall>l. absolute_line g' (l - int p) = absolute_line g l) \<and>
    (\<forall>pt. int p \<le> line pt \<and> line pt < int (g_lines g) \<and> column pt < g_columns g \<longrightarrow>
       cell_is_empty (cell_at g pt)) \<and>
    (0 < p \<longrightarrow> (\<exists>c < g_columns g. \<not> cell_is_empty (cell_at g (Point (int p - 1) c))) \<or> grid_history g = 0 \<and> p = 1) \<and>
    (p = 0 \<longrightarrow> 0 < grid_history g) \<and>
    (\<forall>l. 0 \<le> l \<and> l < int (g_lines g) \<longrightarrow> erased strict g (row_at g' l)) \<and>
    (\<forall>l. valid_line (g_raw g') l \<and> l < 0 \<longrightarrow> row_at g' l = row_at g (l + int p))"
proof -
  let ?L = "int (g_lines g)" and ?lc = "g_columns g - 1"
  have n: "1 \<le> g_columns g" "1 \<le> g_lines g" using ok by (auto simp: grid_ok_def storage_ok_def)
  let ?it = "\<lparr>gi_point = Point (?L - 1) (g_columns g), gi_end = Point (?L - 1) ?lc, gi_last_column = ?lc\<rparr>"
  have start: "iter_from (Point (?L - 1) (g_columns g)) g = Some ?it"
    using n by (simp add: iter_from_def panic_free bottommost_line_def grid_dims_def)
  obtain it where it: "last_content g ?it = Some it" "- 1 \<le> line (gi_point it)" "line (gi_point it) < ?L"
    "\<forall>pt. line (gi_point it) < line pt \<longrightarrow> pt < Point (?L - 1) (g_columns g) \<longrightarrow> column pt < g_columns g \<longrightarrow>
       cell_is_empty (cell_at g pt)"
    and last: "- int (grid_history g) \<le> line (gi_point it)"
    "0 \<le> line (gi_point it) \<Longrightarrow> (\<exists>c < g_columns g. \<not> cell_is_empty (cell_at g (Point (line (gi_point it)) c))) \<or>
       grid_history g = 0 \<and> line (gi_point it) = 0"
    using last_content_stops [OF ok, of ?it] n by auto
  define p where "p = nat (line (gi_point it) + 1)"
  have p: "int p = line (gi_point it) + 1" "int p \<le> ?L" using it(2,3) by (auto simp: p_def)
  obtain raw1 g1 where g1: "grid_scroll_up (0, ?L) p g = Some g1" "g1 = g\<lparr>g_raw := raw1,
      g_display_offset := (if g_display_offset g = 0 then 0
                           else min (g_display_offset g + p) (g_max_scroll_limit g)),
      g_scrolled_out := g_scrolled_out g + (p - (g_max_scroll_limit g - grid_history g))\<rparr>"
    "storage_ok strict (g_columns g) raw1" "st_visible_lines raw1 = g_lines g"
    "st_len raw1 = g_lines g + min (grid_history g + p) (g_max_scroll_limit g)"
    "\<And>l. valid_line raw1 l \<Longrightarrow> l < ?L - int p \<Longrightarrow> line_at raw1 l = row_at g (l + int p)"
    "\<And>l. valid_line raw1 l \<Longrightarrow> ?L - int p \<le> l \<Longrightarrow> l < ?L \<Longrightarrow> erased strict g (line_at raw1 l)"
    using grid_scroll_up_top [OF ok _ p(2)] by blast
  have ok1: "grid_ok strict g1" and h1: "grid_history g1 = min (grid_history g + p) (g_max_scroll_limit g)"
    using grid_okI [of strict g1] g1(2-5) by auto
  have v1: "valid_line raw1 l \<longleftrightarrow> - int (grid_history g1) \<le> l \<and> l < ?L" for l
    using valid_line_grid [OF ok1] g1(2) by simp
  have e1: "erased strict g1 = erased strict g" by (simp add: g1(2) erased_def fun_eq_iff)
  obtain raw where raw: "reset_lines (line_range 0 (?L - int p)) g1 = Some (g1\<lparr>g_raw := raw\<rparr>)"
    "storage_ok strict (g_columns g1) raw" "storage_frame raw = storage_frame (g_raw g1)"
    "lines_erased strict g1 {0..<?L - int p} raw1 raw"
    using reset_lines_grid [OF ok1, of "line_range 0 (?L - int p)"] v1 g1(2) by auto
  let ?g = "g1\<lparr>g_raw := raw\<rparr>"
  note final = grid_ok_frame [OF ok1 raw(2,3)]
  have vf: "valid_line raw = valid_line raw1" using storage_frameD(6) [OF raw(3)] g1(2) by simp
  have h: "grid_history g \<le> g_max_scroll_limit g" using ok by (simp add: grid_ok_def)
  have "clear_viewport g = Some ?g"
    using it(1,2) start g1(1) raw(1) p n
    by (simp add: clear_viewport_def panic_free p_def [symmetric] g1(2) of_nat_diff)
  moreover have "display_ok g \<longrightarrow> display_ok ?g"
    using h unfolding display_ok_def final(2) h1 by (auto simp: g1(2))
  moreover have "absolute_line ?g (l - int p) = absolute_line g l" for l
    using h unfolding absolute_line_def final(2) h1 by (auto simp: g1(2) min_def)
  moreover have "cell_is_empty (cell_at g pt)"
    if "int p \<le> line pt" "line pt < ?L" "column pt < g_columns g" for pt
  proof -
    have "line pt < ?L - 1 \<or> line pt = ?L - 1" using that(2) by linarith
    then show ?thesis using it(4) [rule_format, of pt] that p(1) by (auto simp: point_ord_defs)
  qed
  moreover have "(\<exists>c < g_columns g. \<not> cell_is_empty (cell_at g (Point (int p - 1) c))) \<or> grid_history g = 0 \<and> p = 1" if "0 < p"
    using last(2) that p(1) by (cases "grid_history g = 0 \<and> line (gi_point it) = 0") auto
  moreover have "p = 0 \<longrightarrow> 0 < grid_history g" using last(1) p(1) by linarith
  moreover have "erased strict g (line_at raw l)" if "0 \<le> l" "l < ?L" for l
    using lines_erasedD [OF raw(4), of l] g1(7) [of l] v1 that e1 by (cases "l < ?L - int p") auto
  moreover have "line_at raw l = row_at g (l + int p)" if "valid_line raw l" "l < 0" for l
    using lines_erasedD(2) [OF raw(4), of l] g1(6) [of l] vf that p by auto
  ultimately show ?thesis
    using final(1) p(2) h1 unfolding final(2) [symmetric]
    by (intro exI [of _ p] exI [of _ ?g]) (simp add: g1(2))
qed

section \<open>Properties\<close>

text \<open>A grid for the witnesses: three lines of two columns, room for two lines of history.\<close>

definition sample_grid :: grid where
  "sample_grid = \<lparr>g_cursor = default_cursor, g_saved_cursor = default_cursor,
     g_raw = \<lparr>st_inner = [blank_row 2 (Indexed 2), blank_row 2 (Indexed 1), blank_row 2 (Indexed 0)],
       st_zero = 0, st_visible_lines = 3, st_len = 3, st_transient = True, st_images = True\<rparr>,
     g_columns = 2, g_lines = 3, g_display_offset = 0, g_max_scroll_limit = 2,
     g_scrolled_out = 0, g_reflow_on_grow = True\<rparr>"

lemma sample_grid_ok: "grid_ok True sample_grid" "display_ok sample_grid" "grid_history sample_grid = 0"
  by (auto simp: grid_ok_def display_ok_def storage_ok_def sample_grid_def grid_dims_def
      history_size_def less_Suc_eq)

text \<open>
  C22: scrolling up a region that starts at the top of the screen never panics. It pushes the
  first \<open>p\<close> lines into the history, which grows up to its limit; every row above the region's
  end that is still in the buffer keeps its absolute line number (lines dropped so far, plus
  history, plus line), the lines below the region stay, the \<open>p\<close> lines at its end are blank; and
  a view that is scrolled back stays on the same absolute line as long as the limit allows.
\<close>

theorem grid_scroll_up_keeps_absolute_lines:
  assumes ok: "grid_ok strict g" and e: "e \<le> int (g_lines g)" "int p \<le> e"
  shows "\<exists>g'. grid_scroll_up (0, e) p g = Some g' \<and> grid_ok strict g' \<and>
    (display_ok g \<longrightarrow> display_ok g') \<and> g_cursor g' = g_cursor g \<and>
    grid_history g' = min (grid_history g + p) (g_max_scroll_limit g) \<and>
    (\<forall>l. valid_line (g_raw g) l \<and> l < e \<and> int (g_scrolled_out g') \<le> absolute_line g l \<longrightarrow>
       valid_line (g_raw g') (l - int p) \<and> absolute_line g' (l - int p) = absolute_line g l \<and>
       row_at g' (l - int p) = row_at g l) \<and>
    (\<forall>l. e \<le> l \<and> l < int (g_lines g) \<longrightarrow> row_at g' l = row_at g l) \<and>
    (\<forall>l. e - int p \<le> l \<and> l < e \<longrightarrow> erased strict g (row_at g' l)) \<and>
    (0 < g_display_offset g \<and> g_display_offset g + p \<le> g_max_scroll_limit g \<longrightarrow>
       absolute_line g' (- int (g_display_offset g')) = absolute_line g (- int (g_display_offset g)))"
proof -
  obtain raw g' where g': "grid_scroll_up (0, e) p g = Some g'" "g' = g\<lparr>g_raw := raw,
      g_display_offset := (if g_display_offset g = 0 then 0
                           else min (g_display_offset g + p) (g_max_scroll_limit g)),
      g_scrolled_out := g_scrolled_out g + (p - (g_max_scroll_limit g - grid_history g))\<rparr>"
    "storage_ok strict (g_columns g) raw" "st_visible_lines raw = g_lines g"
    "st_len raw = g_lines g + min (grid_history g + p) (g_max_scroll_limit g)"
    "\<And>l. valid_line raw l \<Longrightarrow> l < e - int p \<Longrightarrow> line_at raw l = row_at g (l + int p)"
    "\<And>l. valid_line raw l \<Longrightarrow> e - int p \<le> l \<Longrightarrow> l < e \<Longrightarrow> erased strict g (line_at raw l)"
    "\<And>l. valid_line raw l \<Longrightarrow> e \<le> l \<Longrightarrow> line_at raw l = row_at g l"
    using grid_scroll_up_top [OF ok e] by blast
  have g: "grid_history g \<le> g_max_scroll_limit g" using ok by (simp add: grid_ok_def)
  have ok': "grid_ok strict g'" and h: "grid_history g' = min (grid_history g + p) (g_max_scroll_limit g)"
    using grid_okI [of strict g'] g'(2-5) by auto
  have v: "valid_line raw l \<longleftrightarrow> - int (grid_history g') \<le> l \<and> l < int (g_lines g)" for l
    using valid_line_grid [OF ok'] g'(2) by simp
  have abs: "absolute_line g' (l - int p) = absolute_line g l" for l
    using g unfolding absolute_line_def h by (auto simp: g'(2) min_def)
  have "display_ok g \<longrightarrow> display_ok g'" using g unfolding display_ok_def h by (auto simp: g'(2))
  moreover have "valid_line (g_raw g') (l - int p) \<and> row_at g' (l - int p) = row_at g l"
    if "valid_line (g_raw g) l" "l < e" "int (g_scrolled_out g') \<le> absolute_line g l" for l
  proof -
    have "- int (grid_history g') \<le> l - int p" using that(3) abs [of l] by (simp add: absolute_line_def)
    then have "valid_line raw (l - int p)" using v that(2) e by auto
    then show ?thesis using g'(6) [of "l - int p"] that(2) by (simp add: g'(2))
  qed
  moreover have "row_at g' l = row_at g l" if "e \<le> l" "l < int (g_lines g)" for l
    using g'(8) [of l] v that e by (simp add: g'(2))
  moreover have "erased strict g (row_at g' l)" if "e - int p \<le> l" "l < e" for l
    using g'(7) [of l] v that e by (simp add: g'(2))
  moreover have "absolute_line g' (- int (g_display_offset g')) = absolute_line g (- int (g_display_offset g))"
    if "0 < g_display_offset g \<and> g_display_offset g + p \<le> g_max_scroll_limit g"
  proof -
    have "- int (g_display_offset g') = - int (g_display_offset g) - int p"
      using that by (simp add: g'(2))
    then show ?thesis using abs by (simp only:)
  qed
  ultimately show ?thesis using g'(1,2) ok' h abs by (intro exI [of _ g']) simp
qed

theorem grid_scroll_up_keeps_absolute_lines_witness:
  "\<exists>g'. grid_scroll_up (0, 2) 1 sample_grid = Some g' \<and> grid_history g' = 1 \<and>
     row_at g' (- 1) = blank_row 2 (Indexed 0) \<and> row_at g' 2 = blank_row 2 (Indexed 2)"
proof -
  have e: "2 \<le> int (g_lines sample_grid)" "int 1 \<le> 2" by (simp_all add: sample_grid_def)
  obtain g' where g': "grid_scroll_up (0, 2) 1 sample_grid = Some g'"
    "grid_history g' = min (grid_history sample_grid + 1) (g_max_scroll_limit sample_grid)"
    "\<forall>l. valid_line (g_raw sample_grid) l \<and> l < 2 \<and> int (g_scrolled_out g') \<le> absolute_line sample_grid l \<longrightarrow>
       valid_line (g_raw g') (l - int 1) \<and> absolute_line g' (l - int 1) = absolute_line sample_grid l \<and>
       row_at g' (l - int 1) = row_at sample_grid l"
    "\<forall>l. 2 \<le> l \<and> l < int (g_lines sample_grid) \<longrightarrow> row_at g' l = row_at sample_grid l"
    using grid_scroll_up_keeps_absolute_lines [OF sample_grid_ok(1) e] by blast
  have "g_scrolled_out g' = 0" using g'(1)
    by (auto simp: grid_scroll_up_def sample_grid_def grid_dims_def history_size_def bind_eq_Some_conv
        increase_scroll_limit_def usize_sub_def swap_lines_def reset_lines_def Let_def)
  then show ?thesis
    using g'(1,2) g'(3) [rule_format, of 0] g'(4) [rule_format, of 2]
    by (simp add: sample_grid_def valid_line_def top_line_def line_at_def ring_at_def grid_dims_def
        history_size_def absolute_line_def)
qed

text \<open>
  C23: scrolling down a region never panics and has one meaning for both implementations, the
  rotating one without scrollback and the swapping one with it: lines of the region move down
  by \<open>p\<close>, the first \<open>p\<close> are blank, nothing else changes; scrolling up a region below the top line
  is the mirror image and leaves the history alone.
\<close>

theorem grid_region_scrolling:
  assumes ok: "grid_ok strict g" and r: "0 \<le> s" "s \<le> e" "e \<le> int (g_lines g)"
  shows "(\<exists>raw. grid_scroll_down (s, e) p g = Some (g\<lparr>g_raw := raw\<rparr>) \<and>
      scrolled_down strict (s, e) p g raw \<and> grid_ok strict (g\<lparr>g_raw := raw\<rparr>)) \<and>
    (0 < s \<longrightarrow> (\<exists>raw d. grid_scroll_up (s, e) p g = Some (g\<lparr>g_raw := raw, g_display_offset := d\<rparr>) \<and>
      scrolled_up strict (s, e) p g raw \<and> grid_ok strict (g\<lparr>g_raw := raw, g_display_offset := d\<rparr>)))"
proof -
  have d: "grid_ok strict (h\<lparr>g_display_offset := d\<rparr>) = grid_ok strict h" for h d
    by (simp add: grid_ok_def grid_dims_def)
  have "grid_ok strict (g\<lparr>g_raw := raw\<rparr>)"
    if "scrolled_down strict (s, e) p g raw \<or> scrolled_up strict (s, e) p g raw" for raw
    using that ok grid_ok_raw(1) [OF ok, of raw]
    by (auto simp: scrolled_down_def scrolled_up_def grid_ok_def)
  note keeps = this
  obtain raw where "grid_scroll_down (s, e) p g = Some (g\<lparr>g_raw := raw\<rparr>)"
    "scrolled_down strict (s, e) p g raw"
    using grid_scroll_down_rows [OF ok r] by blast
  moreover have "\<exists>raw d. grid_scroll_up (s, e) p g = Some (g\<lparr>g_raw := raw, g_display_offset := d\<rparr>) \<and>
      scrolled_up strict (s, e) p g raw \<and> grid_ok strict (g\<lparr>g_raw := raw, g_display_offset := d\<rparr>)"
    if "0 < s"
    using grid_scroll_up_region [OF ok that r(2,3), of p] keeps unfolding d by blast
  ultimately show ?thesis using keeps by blast
qed

theorem grid_region_scrolling_witness:
  "(\<exists>raw. grid_scroll_down (1, 3) 1 sample_grid = Some (sample_grid\<lparr>g_raw := raw\<rparr>) \<and>
     line_at raw 2 = blank_row 2 (Indexed 1)) \<and>
   (\<exists>raw d. grid_scroll_up (1, 3) 1 sample_grid = Some (sample_grid\<lparr>g_raw := raw, g_display_offset := d\<rparr>) \<and>
     line_at raw 1 = blank_row 2 (Indexed 2))"
proof -
  have e: "0 \<le> (1 :: int)" "(1 :: int) \<le> 3" "3 \<le> int (g_lines sample_grid)" by (simp_all add: sample_grid_def)
  have v: "valid_line (g_raw sample_grid) 1" "valid_line (g_raw sample_grid) 2"
    "row_at sample_grid 1 = blank_row 2 (Indexed 1)" "row_at sample_grid 2 = blank_row 2 (Indexed 2)"
    by (simp_all add: sample_grid_def valid_line_def top_line_def line_at_def ring_at_def)
  obtain down up d where "grid_scroll_down (1, 3) 1 sample_grid = Some (sample_grid\<lparr>g_raw := down\<rparr>)"
    "scrolled_down True (1, 3) 1 sample_grid down"
    "grid_scroll_up (1, 3) 1 sample_grid = Some (sample_grid\<lparr>g_raw := up, g_display_offset := d\<rparr>)"
    "scrolled_up True (1, 3) 1 sample_grid up"
    using grid_region_scrolling [OF sample_grid_ok(1) e, of 1] by auto
  moreover have "line_at down 2 = blank_row 2 (Indexed 1)" "line_at up 1 = blank_row 2 (Indexed 2)"
    using calculation(2,4) v by (auto simp: scrolled_down_def scrolled_up_def)
  ultimately show ?thesis by blast
qed

definition written_grid :: grid where
  "written_grid = sample_grid\<lparr>g_raw := (g_raw sample_grid)\<lparr>st_inner :=
     [blank_row 2 (Named Background),
      \<lparr>row_inner = [default_cell\<lparr>cell_c := 65\<rparr>, default_cell], row_occ = 1\<rparr>,
      blank_row 2 (Named Background)]\<rparr>\<rparr>"

text \<open>
  C24: clearing the viewport never panics and leaves a blank screen. The screen and the history move up
  by exactly \<open>p\<close> lines, the number of lines up to the last one with content: the history grows by
  \<open>p\<close> up to its limit, every line keeps its absolute number, all rows still in the history are
  unchanged, and a view that is scrolled back moves along. With no history at all at least one line
  is moved, even from a blank screen.
\<close>

theorem clear_viewport_preserves_content:
  assumes ok: "grid_ok strict g"
  shows "\<exists>p g'. clear_viewport g = Some g' \<and> grid_ok strict g' \<and> (display_ok g \<longrightarrow> display_ok g') \<and>
    p \<le> g_lines g \<and>
    (\<forall>pt. int p \<le> line pt \<and> line pt < int (g_lines g) \<and> column pt < g_columns g \<longrightarrow> cell_is_empty (cell_at g pt)) \<and>
    (0 < p \<longrightarrow> (\<exists>c < g_columns g. \<not> cell_is_empty (cell_at g (Point (int p - 1) c))) \<or> grid_history g = 0 \<and> p = 1) \<and>
    (p = 0 \<longrightarrow> 0 < grid_history g) \<and>
    grid_history g' = min (grid_history g + p) (g_max_scroll_limit g) \<and>
    (\<forall>l. absolute_line g' (l - int p) = absolute_line g l) \<and>
    (\<forall>l. - int (grid_history g') \<le> l \<and> l < 0 \<longrightarrow> row_at g' l = row_at g (l + int p)) \<and>
    (\<forall>l. 0 \<le> l \<and> l < int (g_lines g) \<longrightarrow> erased strict g (row_at g' l)) \<and>
    g_cursor g' = g_cursor g \<and> g_lines g' = g_lines g \<and>
    g_display_offset g' = (if g_display_offset g = 0 then 0 else min (g_display_offset g + p) (g_max_scroll_limit g))"
proof -
  obtain p g' where g': "clear_viewport g = Some g'" "grid_ok strict g'" "display_ok g \<longrightarrow> display_ok g'"
    "p \<le> g_lines g" "\<forall>l. absolute_line g' (l - int p) = absolute_line g l"
    and content:
    "\<forall>pt. int p \<le> line pt \<and> line pt < int (g_lines g) \<and> column pt < g_columns g \<longrightarrow> cell_is_empty (cell_at g pt)"
    "0 < p \<longrightarrow> (\<exists>c < g_columns g. \<not> cell_is_empty (cell_at g (Point (int p - 1) c))) \<or> grid_history g = 0 \<and> p = 1"
    "p = 0 \<longrightarrow> 0 < grid_history g"
    and same: "g_cursor g' = g_cursor g" "g_lines g' = g_lines g" "grid_history g' = min (grid_history g + p) (g_max_scroll_limit g)"
    "g_display_offset g' = (if g_display_offset g = 0 then 0 else min (g_display_offset g + p) (g_max_scroll_limit g))"
    and rows: "\<forall>l. 0 \<le> l \<and> l < int (g_lines g) \<longrightarrow> erased strict g (row_at g' l)"
    "\<forall>l. valid_line (g_raw g') l \<and> l < 0 \<longrightarrow> row_at g' l = row_at g (l + int p)"
    using clear_viewport_rows [OF ok] by (elim exE conjE) (rule that)
  have "\<forall>l. - int (grid_history g') \<le> l \<and> l < 0 \<longrightarrow> row_at g' l = row_at g (l + int p)"
    using rows(2) valid_line_grid [OF g'(2)] same(2) by auto
  then show ?thesis
    by (intro exI [of _ p] exI [of _ g'] conjI) (rule g' content same rows(1) | assumption)+
qed

theorem clear_viewport_preserves_content_witness:
  "\<exists>g'. clear_viewport written_grid = Some g' \<and> cell_c (row_inner (row_at g' (- 1)) ! 0) = 65"
proof -
  have "row_std True 2 \<lparr>row_inner = [default_cell\<lparr>cell_c := 65\<rparr>, default_cell], row_occ = 1\<rparr>"
    by (simp add: row_std_def row_wf_def row_ok_def cell_of_color_def default_cell_def transient_cell_def
        cell_inline_marker_def)
  then have ok: "grid_ok True written_grid"
    by (simp add: grid_ok_def storage_ok_def written_grid_def sample_grid_def grid_dims_def history_size_def)
  obtain p g' where g': "clear_viewport written_grid = Some g'" "p \<le> g_lines written_grid"
    "\<forall>pt. int p \<le> line pt \<and> line pt < int (g_lines written_grid) \<and> column pt < g_columns written_grid \<longrightarrow>
       cell_is_empty (cell_at written_grid pt)"
    "0 < p \<longrightarrow> (\<exists>c < g_columns written_grid. \<not> cell_is_empty (cell_at written_grid (Point (int p - 1) c))) \<or>
       grid_history written_grid = 0 \<and> p = 1"
    "grid_history g' = min (grid_history written_grid + p) (g_max_scroll_limit written_grid)"
    "\<forall>l. - int (grid_history g') \<le> l \<and> l < 0 \<longrightarrow> row_at g' l = row_at written_grid (l + int p)"
    using clear_viewport_preserves_content [OF ok] by blast
  have "2 \<le> p" using g'(3) [rule_format, of "Point 1 0"]
    by (cases "2 \<le> p") (auto simp: written_grid_def sample_grid_def cell_at_def line_at_def ring_at_def cell_is_empty_def)
  moreover have "p \<noteq> 3"
  proof
    assume "p = 3"
    then show False using g'(4)
      by (auto simp: written_grid_def sample_grid_def cell_at_def line_at_def ring_at_def less_Suc_eq numeral_2_eq_2
          blank_row_def cell_is_empty_of_color)
  qed
  ultimately have p: "p = 2" using g'(2) by (simp add: written_grid_def sample_grid_def)
  have "grid_history g' = 2" using g'(5) p
    by (simp add: written_grid_def sample_grid_def grid_dims_def history_size_def)
  then have "row_at g' (- 1) = row_at written_grid 1" using g'(6) p by simp
  then show ?thesis using g'(1) by (simp add: written_grid_def sample_grid_def line_at_def ring_at_def)
qed



text \<open>
  Changing the scrollback limit, dropping history lines and clearing the history keep the
  invariant, never leave the display offset beyond the history, and keep the content and the
  absolute number of every remaining line.
\<close>

lemma history_operations_keep_lines:
  assumes "grid_ok strict g" "display_ok g"
  shows "(\<exists>g'. update_history m g = Some g' \<and> g_max_scroll_limit g' = m \<and>
      history_cut strict (min (grid_history g) m) g g') \<and>
    (\<exists>g'. decrease_scroll_limit m g = Some g' \<and> history_cut strict (grid_history g - m) g g') \<and>
    (\<exists>g'. clear_history g = Some g' \<and> g_display_offset g' = 0 \<and> history_cut strict 0 g g')"
  using update_history_cut [OF assms] decrease_scroll_limit_cut [OF assms]
    clear_history_cut [OF assms(1)] by blast

theorem history_operations_keep_lines_witness:
  "\<exists>g'. update_history 1 sample_grid = Some g' \<and> g_max_scroll_limit g' = 1 \<and> display_ok g'"
  using history_operations_keep_lines [OF sample_grid_ok(1,2), of 1] by (auto simp: history_cut_def)

text \<open>
  Scrolling the display moves the offset by the requested amount, clamped to the history;
  it can only panic for a delta that overflows \<open>i32\<close>.
\<close>

lemma scroll_display_clamps:
  assumes d: "display_ok g" and b: "g_display_offset g < 2 ^ 31"
    and i: "- (2 ^ 31) \<le> int (g_display_offset g) + count" "int (g_display_offset g) + count < 2 ^ 31"
  shows "scroll_display (Delta count) g = Some (g\<lparr>g_display_offset :=
      nat (max 0 (min (int (g_display_offset g) + count) (int (grid_history g))))\<rparr>) \<and>
    (\<exists>o'. scroll_display PageUp g = Some (g\<lparr>g_display_offset := o'\<rparr>) \<and>
       o' = min (g_display_offset g + g_lines g) (grid_history g)) \<and>
    (\<forall>s g'. scroll_display s g = Some g' \<longrightarrow> display_ok g')"
proof -
  have "as_i32 (int (g_display_offset g)) = int (g_display_offset g)" using b by simp
  then have "scroll_display (Delta count) g = Some (g\<lparr>g_display_offset :=
      nat (max 0 (min (int (g_display_offset g) + count) (int (grid_history g))))\<rparr>)"
    using i by (simp add: scroll_display_def panic_free min_def max_def)
  moreover have "display_ok g'" if "scroll_display s g = Some g'" for s g'
    using that d by (cases s)
      (auto simp: scroll_display_def display_ok_def grid_dims_def bind_eq_Some_conv)
  ultimately show ?thesis by (auto simp: scroll_display_def)
qed

theorem scroll_display_clamps_witness:
  "scroll_display (Delta (- 5)) sample_grid = Some (sample_grid\<lparr>g_display_offset := 0\<rparr>)"
  using scroll_display_clamps [OF sample_grid_ok(2), of "- 5"] by (simp add: sample_grid_def)

text \<open>
  C30: scrolling a region below the top line while the view is scrolled back to the oldest
  line moves the display offset although no line enters the history. The offset then exceeds
  the history, and iterating over the displayed area leaves the grid.
\<close>

theorem region_scroll_outruns_history:
  assumes ok: "grid_ok strict g" and r: "0 < s" "e \<le> int (g_lines g)" "0 < p" "int p < e - s"
    and d: "0 < g_display_offset g" "g_display_offset g = grid_history g"
      "grid_history g < g_max_scroll_limit g"
  shows "\<exists>g' it. grid_scroll_up (s, e) p g = Some g' \<and> \<not> display_ok g' \<and>
    display_iter g' = Some it \<and> drain g' it = None"
proof -
  have se: "s \<le> e" using r by linarith
  obtain raw g' where g': "grid_scroll_up (s, e) p g = Some g'"
    "g' = g\<lparr>g_raw := raw, g_display_offset := min (g_display_offset g + p) (g_max_scroll_limit g)\<rparr>"
    "scrolled_up strict (s, e) p g raw"
    using grid_scroll_up_region [OF ok r(1) se r(2), of p] r(4) d(1) by auto
  have raw: "st_len raw = st_len (g_raw g)" "st_visible_lines raw = g_lines g"
    using g'(3) ok by (auto simp: scrolled_up_def grid_ok_def)
  have dims: "grid_dims g' = grid_dims g" using raw by (simp add: g'(2) grid_dims_def)
  have out: "grid_history g < g_display_offset g'" using r(3) d by (simp add: g'(2))
  have n: "1 \<le> g_columns g" "1 \<le> g_lines g" using ok by (auto simp: grid_ok_def storage_ok_def)
  let ?lc = "g_columns g - 1" and ?o = "int (g_display_offset g')" and ?L = "int (g_lines g)"
  let ?it = "\<lparr>gi_point = Point (- ?o - 1) ?lc, gi_end = Point (?L - 1 - ?o) ?lc, gi_last_column = ?lc\<rparr>"
  have it: "display_iter g' = Some ?it"
    using n by (simp add: display_iter_def panic_free bottommost_line_def grid_dims_def Let_def min_def g'(2))
  have "\<not> valid_line (g_raw g') (- ?o)"
    using out raw grid_history_len [OF ok] by (auto simp: valid_line_def top_line_def g'(2))
  then have "grid_index (Point (- ?o) 0) g' = None"
    by (simp add: grid_index_def grid_index_line_def storage_index_None)
  then have "grid_iterator_next g' ?it = None"
    using n by (simp add: grid_iterator_next_def point_ord_defs Let_def)
  then have "drain g' ?it = None" by (subst drain.simps) simp
  moreover have "\<not> display_ok g'" using out unfolding display_ok_def dims by simp
  ultimately show ?thesis using g'(1) it by blast
qed

definition scrolled_back_grid :: grid where
  "scrolled_back_grid = sample_grid\<lparr>g_raw := (g_raw sample_grid)\<lparr>
     st_inner := replicate 4 (blank_row 2 (Named Background)), st_len := 4\<rparr>, g_display_offset := 1\<rparr>"

theorem region_scroll_outruns_history_witness:
  "\<exists>g' it. grid_scroll_up (1, 3) 1 scrolled_back_grid = Some g' \<and> \<not> display_ok g' \<and>
    display_iter g' = Some it \<and> drain g' it = None"
proof -
  have "grid_ok True scrolled_back_grid"
    by (simp add: grid_ok_def storage_ok_def scrolled_back_grid_def sample_grid_def grid_dims_def
        history_size_def list_all_iff)
  then show ?thesis
    by (rule region_scroll_outruns_history)
      (simp_all add: scrolled_back_grid_def sample_grid_def grid_dims_def history_size_def)
qed

text \<open>
  A full reset never panics and leaves an empty history, default cursors and a blank
  screen with the default background.
\<close>

lemma grid_reset_blanks:
  assumes "grid_ok strict g"
  shows "\<exists>g'. grid_reset g = Some g' \<and> grid_ok strict g' \<and> display_ok g' \<and> grid_history g' = 0 \<and>
    g_cursor g' = default_cursor \<and> g_saved_cursor g' = default_cursor \<and> g_display_offset g' = 0 \<and>
    g_lines g' = g_lines g \<and> g_columns g' = g_columns g \<and>
    (\<forall>l. 0 \<le> l \<longrightarrow> l < int (g_lines g) \<longrightarrow>
       reset_row strict (g_columns g) (Named Background) (row_at g' l))"
  by (rule grid_reset_blank [OF assms])

theorem grid_reset_blanks_witness:
  "\<exists>g'. grid_reset sample_grid = Some g' \<and> row_at g' 1 = blank_row 2 (Named Background)"
proof -
  have "g_lines sample_grid = 3" "g_columns sample_grid = 2" by (simp_all add: sample_grid_def)
  then show ?thesis
    using grid_reset_blanks [OF sample_grid_ok(1)] by (auto simp: reset_row_def)
qed

end
