(* ===== verification/Search.thy ===== *)
theory Search
  imports Grid
begin

text \<open>
  The text searches of \<open>nebula_terminal/src/term/search.rs\<close> that do not involve the regex engine:
  the ends of a logical line across soft wraps, the nearest character out of a set on the same
  logical line, the ends of a semantic block and the partner of a bracket. The searches read the
  terminal only through its grid, so they take the grid (and the escape characters of the
  configuration) as arguments. A \<open>Result<Point, Point>\<close> is a sum with \<open>Ok\<close> on the right.
\<close>

section \<open>The searches\<close>

definition flags_of :: "point \<Rightarrow> grid \<Rightarrow> flags option" where
  "flags_of pt g = map_option cell_flags (grid_index pt g)"

abbreviation wide_spacer :: flags where
  "wide_spacer \<equiv> WIDE_CHAR_SPACER OR LEADING_WIDE_CHAR_SPACER"

text \<open>Lines that continue on the next one carry \<open>WRAPLINE\<close> in their last cell.\<close>

function line_search_left :: "point \<Rightarrow> grid \<Rightarrow> point option" where
  "line_search_left pt g =
     (if line pt > topmost_line (grid_dims g)
      then do {
        lc \<leftarrow> last_column (grid_dims g);
        fl \<leftarrow> flags_of (Point (line pt - 1) lc) g;
        if flags_contains fl WRAPLINE
        then line_search_left (Point (line pt - 1) (column pt)) g
        else Some (Point (line pt) 0)
      }
      else Some (Point (line pt) 0))"
  by pat_completeness auto
termination
  by (relation "measure (\<lambda>(pt, g). nat (line pt - topmost_line (grid_dims g)))") auto

function line_search_right :: "point \<Rightarrow> grid \<Rightarrow> point option" where
  "line_search_right pt g = do {
     lc \<leftarrow> last_column (grid_dims g);
     if line pt + 1 < int (g_lines g)
     then do {
       fl \<leftarrow> flags_of (Point (line pt) lc) g;
       if flags_contains fl WRAPLINE
       then line_search_right (Point (line pt + 1) (column pt)) g
       else Some (Point (line pt) lc)
     }
     else Some (Point (line pt) lc)
   }"
  by pat_completeness auto
termination
  by (relation "measure (\<lambda>(pt, g). nat (int (g_lines g) - line pt))") auto

text \<open>The character searches walk the cell iterator one cell at a time.\<close>

definition needle :: "uchar list \<Rightarrow> cell \<Rightarrow> bool" where
  "needle needles c \<longleftrightarrow> \<not> flags_intersects (cell_flags c) wide_spacer \<and> cell_c c \<in> set needles"

function inline_left_loop :: "uchar list \<Rightarrow> nat \<Rightarrow> grid \<Rightarrow> point \<Rightarrow> grid_iterator \<Rightarrow> (point + point) option" where
  "inline_left_loop needles lc g pt it =
     (case grid_iterator_prev g it of
        None \<Rightarrow> None
      | Some (None, it) \<Rightarrow> Some (Inl pt)
      | Some (Some (p, c), it) \<Rightarrow>
          if column p = lc \<and> \<not> flags_contains (cell_flags c) WRAPLINE then Some (Inl pt)
          else if needle needles c then Some (Inr p)
          else inline_left_loop needles lc g p it)"
  by pat_completeness auto
termination
  by (relation "measure (\<lambda>(needles, lc, g, pt, it). iterator_position g it)")
    (auto dest: grid_iterator_prev_position)

definition inline_search_left :: "uchar list \<Rightarrow> point \<Rightarrow> grid \<Rightarrow> (point + point) option" where
  "inline_search_left needles pt g = do {
     let pt = Point (max (line pt) (topmost_line (grid_dims g))) (column pt);
     it \<leftarrow> iter_from pt g;
     lc \<leftarrow> usize_sub (g_columns g) 1;
     inline_left_loop needles lc g pt it
   }"

function inline_right_loop :: "uchar list \<Rightarrow> nat \<Rightarrow> grid \<Rightarrow> point \<Rightarrow> grid_iterator \<Rightarrow> (point + point) option" where
  "inline_right_loop needles lc g pt it =
     (case grid_iterator_next g it of
        None \<Rightarrow> None
      | Some (None, it) \<Rightarrow> Some (Inl pt)
      | Some (Some (p, c), it) \<Rightarrow>
          if needle needles c then Some (Inr p)
          else if column p = lc \<and> \<not> flags_contains (cell_flags c) WRAPLINE then Some (Inl p)
          else inline_right_loop needles lc g p it)"
  by pat_completeness auto
termination
  by (relation "inv_image (measures [\<lambda>it. nat (line (gi_end it) + 1 - line (gi_point it)),
        \<lambda>it. gi_last_column it - column (gi_point it)]) (\<lambda>(needles, lc, g, pt, it). it)")
    (auto dest: grid_iterator_next_measure)

definition inline_search_right :: "uchar list \<Rightarrow> point \<Rightarrow> grid \<Rightarrow> (point + point) option" where
  "inline_search_right needles pt g = do {
     let pt = Point (max (line pt) (topmost_line (grid_dims g))) (column pt);
     lc \<leftarrow> usize_sub (g_columns g) 1;
     at_break \<leftarrow> (if column pt = lc
                   then do { fl \<leftarrow> flags_of pt g; Some (\<not> flags_contains fl WRAPLINE) }
                   else Some False);
     if at_break then Some (Inl pt)
     else do {
       it \<leftarrow> iter_from pt g;
       inline_right_loop needles lc g pt it
     }
   }"

text \<open>\<open>iter.find(|cell| !cell.flags.intersects(wide_spacer))\<close>\<close>

function find_visible :: "grid \<Rightarrow> grid_iterator \<Rightarrow> point option option" where
  "find_visible g it =
     (case grid_iterator_next g it of
        None \<Rightarrow> None
      | Some (None, it) \<Rightarrow> Some None
      | Some (Some (p, c), it) \<Rightarrow>
          if \<not> flags_intersects (cell_flags c) wide_spacer then Some (Some p) else find_visible g it)"
  by pat_completeness auto
termination
  by (relation "inv_image (measures [\<lambda>it. nat (line (gi_end it) + 1 - line (gi_point it)),
        \<lambda>it. gi_last_column it - column (gi_point it)]) snd")
    (auto dest: grid_iterator_next_measure)

definition semantic_search_left :: "uchar list \<Rightarrow> point \<Rightarrow> grid \<Rightarrow> point option" where
  "semantic_search_left escape pt g = do {
     r \<leftarrow> inline_search_left escape pt g;
     (case r of
        Inr p \<Rightarrow> do {
          it \<leftarrow> iter_from p g;
          found \<leftarrow> find_visible g it;
          Some (case found of None \<Rightarrow> p | Some q \<Rightarrow> q)
        }
      | Inl p \<Rightarrow> Some p)
   }"

definition semantic_search_right :: "uchar list \<Rightarrow> point \<Rightarrow> grid \<Rightarrow> point option" where
  "semantic_search_right escape pt g = do {
     r \<leftarrow> inline_search_right escape pt g;
     (case r of
        Inr p \<Rightarrow> do {
          it \<leftarrow> iter_from p g;
          (before, it) \<leftarrow> grid_iterator_prev g it;
          Some (case before of None \<Rightarrow> p | Some (q, c) \<Rightarrow> q)
        }
      | Inl p \<Rightarrow> Some p)
   }"

text \<open>Brackets: \<open>skip_pairs\<close> counts the nested pairs still open.\<close>

definition BRACKET_PAIRS :: "(uchar \<times> uchar) list" where
  "BRACKET_PAIRS = [(40, 41), (91, 93), (123, 125), (60, 62)]"

fun find_bracket :: "uchar \<Rightarrow> (uchar \<times> uchar) list \<Rightarrow> (bool \<times> uchar) option" where
  "find_bracket c [] = None"
| "find_bracket c ((opening, closing) # pairs) =
     (if opening = c then Some (True, closing)
      else if closing = c then Some (False, opening)
      else find_bracket c pairs)"

definition iterator_step ::
    "bool \<Rightarrow> grid \<Rightarrow> grid_iterator \<Rightarrow> ((point \<times> cell) option \<times> grid_iterator) option" where
  "iterator_step forward g it = (if forward then grid_iterator_next g it else grid_iterator_prev g it)"

function bracket_loop ::
    "bool \<Rightarrow> uchar \<Rightarrow> uchar \<Rightarrow> grid \<Rightarrow> int \<Rightarrow> grid_iterator \<Rightarrow> point option option" where
  "bracket_loop forward start_char end_char g skip_pairs it =
     (case iterator_step forward g it of
        None \<Rightarrow> None
      | Some (None, it) \<Rightarrow> Some None
      | Some (Some (p, c), it) \<Rightarrow>
          if cell_c c = end_char \<and> skip_pairs = 0 then Some (Some p)
          else bracket_loop forward start_char end_char g
            (if cell_c c = start_char then skip_pairs + 1
             else if cell_c c = end_char then skip_pairs - 1 else skip_pairs) it)"
  by pat_completeness auto
termination
proof (relation "measures [\<lambda>(fw, s, e, g, k, it). if fw then nat (line (gi_end it) + 1 - line (gi_point it)) else 0,
    \<lambda>(fw, s, e, g, k, it). if fw then gi_last_column it - column (gi_point it) else iterator_position g it]")
qed (auto simp: iterator_step_def split: if_splits
    dest: grid_iterator_next_measure grid_iterator_prev_position)

definition bracket_search :: "point \<Rightarrow> grid \<Rightarrow> point option option" where
  "bracket_search pt g = do {
     c \<leftarrow> grid_index pt g;
     (case find_bracket (cell_c c) BRACKET_PAIRS of
        None \<Rightarrow> Some None
      | Some (forward, end_char) \<Rightarrow> do {
          it \<leftarrow> iter_from pt g;
          bracket_loop forward (cell_c c) end_char g 0 it
        })
   }"

declare line_search_left.simps [simp del] line_search_right.simps [simp del]
  inline_left_loop.simps [simp del] inline_right_loop.simps [simp del] find_visible.simps [simp del]
  bracket_loop.simps [simp del]

section \<open>Walking the cells\<close>

text \<open>The neighbours of a point in reading order on rows of \<open>w\<close> columns.\<close>

definition pred_point :: "nat \<Rightarrow> point \<Rightarrow> point" where
  "pred_point w p = (if column p = 0 then Point (line p - 1) (w - 1) else Point (line p) (column p - 1))"

definition succ_point :: "nat \<Rightarrow> point \<Rightarrow> point" where
  "succ_point w p = (if w - 1 \<le> column p then Point (line p + 1) 0 else Point (line p) (column p + 1))"

abbreviation inside :: "grid \<Rightarrow> point \<Rightarrow> bool" where
  "inside g \<equiv> in_grid (grid_dims g)"

abbreviation first_point :: "grid \<Rightarrow> point" where
  "first_point g \<equiv> Point (- int (grid_history g)) 0"

abbreviation final_point :: "grid \<Rightarrow> point" where
  "final_point g \<equiv> Point (int (g_lines g) - 1) (g_columns g - 1)"

lemma inside_iff:
  "inside g p \<longleftrightarrow> - int (grid_history g) \<le> line p \<and> line p < int (g_lines g) \<and> column p < g_columns g"
  by (auto simp: in_grid_def topmost_line_def bottommost_line_def grid_dims_def)

lemma grid_ok_columns: "grid_ok strict g \<Longrightarrow> 1 \<le> g_columns g"
  by (simp add: grid_ok_def storage_ok_def)

lemma grid_index_inside: "grid_ok strict g \<Longrightarrow> inside g p \<Longrightarrow> grid_index p g = Some (cell_at g p)"
  by (auto simp: inside_iff intro: grid_index_cell)

lemma last_column_grid:
  "grid_ok strict g \<Longrightarrow> last_column (grid_dims g) = Some (g_columns g - 1)"
  using grid_ok_columns [of strict g] by (simp add: last_column_def grid_dims_def panic_free)

lemma pred_point_order:
  assumes "inside g p" "p \<noteq> first_point g"
  shows "inside g (pred_point (g_columns g) p)" "pred_point (g_columns g) p < p"
    "inside g x \<Longrightarrow> x < p \<longleftrightarrow> x \<le> pred_point (g_columns g) p"
  using assms by (cases p; cases x; auto simp: inside_iff pred_point_def point_ord_defs)+

lemma succ_point_order:
  assumes "inside g p" "p \<noteq> final_point g"
  shows "inside g (succ_point (g_columns g) p)" "p < succ_point (g_columns g) p"
    "inside g x \<Longrightarrow> p < x \<longleftrightarrow> succ_point (g_columns g) p \<le> x"
  using assms by (cases p; cases x; auto simp: inside_iff succ_point_def point_ord_defs)+

lemma first_point_least: "inside g p \<Longrightarrow> first_point g \<le> p"
  by (cases p) (auto simp: inside_iff point_ord_defs)

lemma final_point_greatest: "inside g p \<Longrightarrow> p \<le> final_point g"
  by (cases p) (auto simp: inside_iff point_ord_defs)

text \<open>An iterator over the whole grid, as \<open>iter_from\<close> makes it.\<close>

definition walks :: "grid \<Rightarrow> grid_iterator \<Rightarrow> bool" where
  "walks g it \<longleftrightarrow> gi_last_column it = g_columns g - 1 \<and> gi_end it = final_point g \<and> inside g (gi_point it)"

lemma iter_from_walks:
  assumes "grid_ok strict g" "inside g p"
  shows "\<exists>it. iter_from p g = Some it \<and> gi_point it = p \<and> walks g it"
  using assms grid_ok_columns [OF assms(1)]
  by (simp add: iter_from_def panic_free walks_def bottommost_line_def grid_dims_def)

lemma iterator_prev_step:
  assumes ok: "grid_ok strict g" and it: "walks g it"
  defines "q \<equiv> pred_point (g_columns g) (gi_point it)"
  shows "grid_iterator_prev g it =
    (if gi_point it = first_point g then Some (None, it)
     else Some (Some (q, cell_at g q), it\<lparr>gi_point := q\<rparr>))"
proof (cases "gi_point it = first_point g")
  case True
  then show ?thesis by (simp add: grid_iterator_prev_def topmost_line_def)
next
  case False
  then have "\<not> gi_point it \<le> Point (topmost_line (grid_dims g)) 0"
    using it first_point_least [of g "gi_point it"] by (auto simp: walks_def topmost_line_def)
  moreover have "grid_index q g = Some (cell_at g q)"
    using it False pred_point_order(1) [of g "gi_point it"]
    by (auto simp: q_def walks_def intro: grid_index_inside [OF ok])
  ultimately show ?thesis using False it
    by (auto simp: grid_iterator_prev_def q_def pred_point_def walks_def Let_def)
qed

lemma iterator_next_step:
  assumes ok: "grid_ok strict g" and it: "walks g it"
  defines "q \<equiv> succ_point (g_columns g) (gi_point it)"
  shows "grid_iterator_next g it =
    (if gi_point it = final_point g then Some (None, it)
     else Some (Some (q, cell_at g q), it\<lparr>gi_point := q\<rparr>))"
proof (cases "gi_point it = final_point g")
  case True
  then show ?thesis using it by (simp add: grid_iterator_next_def walks_def)
next
  case False
  then have "\<not> gi_end it \<le> gi_point it"
    using it final_point_greatest [of g "gi_point it"] by (auto simp: walks_def)
  moreover have "grid_index q g = Some (cell_at g q)"
    using it False succ_point_order(1) [of g "gi_point it"]
    by (auto simp: q_def walks_def intro: grid_index_inside [OF ok])
  ultimately show ?thesis using False it
    by (auto simp: grid_iterator_next_def q_def succ_point_def walks_def Let_def)
qed

lemma walks_move:
  "walks g it \<Longrightarrow> inside g q \<Longrightarrow> walks g (it\<lparr>gi_point := q\<rparr>)"
  by (simp add: walks_def)

section \<open>Logical lines\<close>

text \<open>A cell at which a logical line ends, and points on one logical line.\<close>

definition hard_end :: "grid \<Rightarrow> point \<Rightarrow> bool" where
  "hard_end g p \<longleftrightarrow> column p = g_columns g - 1 \<and> \<not> flags_contains (cell_flags (cell_at g p)) WRAPLINE"

definition joined :: "grid \<Rightarrow> point \<Rightarrow> point \<Rightarrow> bool" where
  "joined g p q \<longleftrightarrow> p \<le> q \<and> (\<forall>x. inside g x \<and> p \<le> x \<and> x < q \<longrightarrow> \<not> hard_end g x)"

definition left_found :: "uchar list \<Rightarrow> grid \<Rightarrow> point \<Rightarrow> point + point \<Rightarrow> bool" where
  "left_found needles g pt r \<longleftrightarrow> (case r of
     Inr q \<Rightarrow> inside g q \<and> q < pt \<and> joined g q pt \<and> needle needles (cell_at g q) \<and>
       (\<forall>x. inside g x \<and> q < x \<and> x < pt \<longrightarrow> \<not> needle needles (cell_at g x))
   | Inl q \<Rightarrow> inside g q \<and> joined g q pt \<and> (\<forall>x. inside g x \<and> joined g x q \<longrightarrow> x = q) \<and>
       (\<forall>x. inside g x \<and> q \<le> x \<and> x < pt \<longrightarrow> \<not> needle needles (cell_at g x)))"

definition right_found :: "uchar list \<Rightarrow> grid \<Rightarrow> point \<Rightarrow> point + point \<Rightarrow> bool" where
  "right_found needles g pt r \<longleftrightarrow> (case r of
     Inr q \<Rightarrow> inside g q \<and> pt < q \<and> joined g pt q \<and> needle needles (cell_at g q) \<and>
       (\<forall>x. inside g x \<and> pt < x \<and> x < q \<longrightarrow> \<not> needle needles (cell_at g x))
   | Inl q \<Rightarrow> inside g q \<and> joined g pt q \<and> (\<forall>x. inside g x \<and> joined g q x \<longrightarrow> x = q) \<and>
       (\<forall>x. inside g x \<and> pt < x \<and> x \<le> q \<longrightarrow> \<not> needle needles (cell_at g x)))"

lemma joined_refl [simp]: "joined g p p"
  by (auto simp: joined_def)

lemma joined_extend_right:
  assumes "joined g x q" "\<not> hard_end g q" "q < p" "\<And>y. inside g y \<Longrightarrow> y < p \<longleftrightarrow> y \<le> q"
  shows "joined g x p"
  using assms by (auto simp: joined_def order_less_le)

lemma joined_extend_left:
  assumes "joined g q x" "\<not> hard_end g p" "p < q" "\<And>y. inside g y \<Longrightarrow> p < y \<longleftrightarrow> q \<le> y"
  shows "joined g p x"
  using assms unfolding joined_def by (metis order_le_less order_less_le_trans order_less_imp_le)

lemma inline_left_loop_found:
  assumes ok: "grid_ok strict g" and it: "walks g it" "pt = gi_point it"
  shows "\<exists>r. inline_left_loop needles (g_columns g - 1) g pt it = Some r \<and> left_found needles g pt r"
  using it
proof (induction "iterator_position g it" arbitrary: it pt rule: less_induct)
  case (less it pt)
  let ?q = "pred_point (g_columns g) pt" and ?lc = "g_columns g - 1"
  let ?it = "it\<lparr>gi_point := ?q\<rparr>"
  have p: "inside g pt" using less.prems by (simp add: walks_def)
  note step = iterator_prev_step [OF ok less.prems(1), folded less.prems(2)]
  show ?case
  proof (cases "pt = first_point g")
    case True
    then have "inline_left_loop needles ?lc g pt it = Some (Inl pt)"
      using step by (subst inline_left_loop.simps) simp
    moreover have "left_found needles g pt (Inl pt)"
      using True p by (auto simp: left_found_def joined_def dest!: first_point_least intro: antisym)
    ultimately show ?thesis by blast
  next
    case False
    note q = pred_point_order [OF p False]
    have loop: "inline_left_loop needles ?lc g pt it =
        (if hard_end g ?q then Some (Inl pt) else if needle needles (cell_at g ?q) then Some (Inr ?q)
         else inline_left_loop needles ?lc g ?q ?it)"
      using step False by (subst inline_left_loop.simps) (simp add: hard_end_def)
    consider "hard_end g ?q" | "\<not> hard_end g ?q" "needle needles (cell_at g ?q)"
      | "\<not> hard_end g ?q" "\<not> needle needles (cell_at g ?q)" by blast
    then show ?thesis
    proof cases
      case 1
      have "x = pt" if "inside g x" "joined g x pt" for x
      proof (rule ccontr)
        assume "x \<noteq> pt"
        then have "x \<le> ?q" using that q(3) [of x] by (auto simp: joined_def)
        then show False using that(2) 1 q(1,2) by (auto simp: joined_def)
      qed
      then have "left_found needles g pt (Inl pt)" using p by (auto simp: left_found_def)
      then show ?thesis using loop 1 by simp
    next
      case 2
      have "joined g ?q pt" using joined_extend_right [OF joined_refl 2(1) q(2) q(3)] .
      then have "left_found needles g pt (Inr ?q)"
        using 2 q by (auto simp: left_found_def)
      then show ?thesis using loop 2 by simp
    next
      case 3
      have "iterator_position g ?it < iterator_position g it"
        using grid_iterator_prev_position [of g it] step False by simp
      then obtain r where r: "inline_left_loop needles ?lc g ?q ?it = Some r" "left_found needles g ?q r"
        using less.hyps [of ?it ?q] walks_move [OF less.prems(1) q(1)] by auto
      have "left_found needles g pt r"
      proof (cases r)
        case (Inl u)
        then show ?thesis using r(2) 3 q(2,3) joined_extend_right [OF _ 3(1) q(2) q(3), of u]
          by (auto simp: left_found_def order_le_less)
      next
        case (Inr u)
        then show ?thesis using r(2) 3 q(2,3) joined_extend_right [OF _ 3(1) q(2) q(3), of u]
          by (auto simp: left_found_def order_le_less)
      qed
      then show ?thesis using loop 3 r(1) by simp
    qed
  qed
qed


lemma inline_right_loop_found:
  assumes ok: "grid_ok strict g" and it: "walks g it" "pt = gi_point it" and "\<not> hard_end g pt"
  shows "\<exists>r. inline_right_loop needles (g_columns g - 1) g pt it = Some r \<and> right_found needles g pt r"
  using it assms(4)
proof (induction it arbitrary: pt rule: wf_induct_rule
    [OF wf_measures [of "[\<lambda>it. nat (line (gi_end it) + 1 - line (gi_point it)),
      \<lambda>it. gi_last_column it - column (gi_point it)]"]])
  case (1 it pt)
  let ?q = "succ_point (g_columns g) pt" and ?lc = "g_columns g - 1"
  let ?it = "it\<lparr>gi_point := ?q\<rparr>"
  have p: "inside g pt" using 1 by (simp add: walks_def)
  note step = iterator_next_step [OF ok 1(2), folded 1(3)]
  show ?case
  proof (cases "pt = final_point g")
    case True
    then have "inline_right_loop needles ?lc g pt it = Some (Inl pt)"
      using step by (subst inline_right_loop.simps) simp
    moreover have "right_found needles g pt (Inl pt)"
      using True p by (auto simp: right_found_def joined_def dest!: final_point_greatest intro: antisym)
    ultimately show ?thesis by blast
  next
    case False
    note q = succ_point_order [OF p False]
    have loop: "inline_right_loop needles ?lc g pt it =
        (if needle needles (cell_at g ?q) then Some (Inr ?q) else if hard_end g ?q then Some (Inl ?q)
         else inline_right_loop needles ?lc g ?q ?it)"
      using step False by (subst inline_right_loop.simps) (simp add: hard_end_def)
    have pq: "joined g pt ?q" using joined_extend_left [OF joined_refl 1(4) q(2) q(3)] .
    consider "needle needles (cell_at g ?q)" | "\<not> needle needles (cell_at g ?q)" "hard_end g ?q"
      | "\<not> hard_end g ?q" "\<not> needle needles (cell_at g ?q)" by blast
    then show ?thesis
    proof cases
      case a: 1
      then have "right_found needles g pt (Inr ?q)" using pq q by (auto simp: right_found_def)
      then show ?thesis using loop a by simp
    next
      case 2
      have "x = ?q" if "inside g x" "joined g ?q x" for x
        using that 2 q(1) by (auto simp: joined_def order_le_less)
      then have "right_found needles g pt (Inl ?q)"
        using 2 q pq by (auto simp: right_found_def intro: antisym)
      then show ?thesis using loop 2 by simp
    next
      case 3
      have "grid_iterator_next g it = Some (Some (?q, cell_at g ?q), ?it)" using step False by simp
      from grid_iterator_next_measure [OF this]
      obtain r where r: "inline_right_loop needles ?lc g ?q ?it = Some r" "right_found needles g ?q r"
        using 1(1) [of ?it ?q] walks_move [OF 1(2) q(1)] 3(1) by auto
      have "right_found needles g pt r"
      proof (cases r)
        case (Inl u)
        then show ?thesis using r(2) 3 q(2,3) joined_extend_left [OF _ 1(4) q(2) q(3), of u]
          by (auto simp: right_found_def order_le_less)
      next
        case (Inr u)
        then show ?thesis using r(2) 3 q(2,3) joined_extend_left [OF _ 1(4) q(2) q(3), of u]
          by (auto simp: right_found_def order_le_less)
      qed
      then show ?thesis using loop 3 r(1) by simp
    qed
  qed
qed

lemma inside_clamp: "inside g pt \<Longrightarrow> Point (max (line pt) (topmost_line (grid_dims g))) (column pt) = pt"
  by (cases pt) (simp add: in_grid_def)

lemma inline_search_left_found:
  assumes ok: "grid_ok strict g" and pt: "inside g pt"
  shows "\<exists>r. inline_search_left needles pt g = Some r \<and> left_found needles g pt r"
  using iter_from_walks [OF ok pt] inline_left_loop_found [OF ok] grid_ok_columns [OF ok]
  by (auto simp: inline_search_left_def inside_clamp [OF pt] panic_free)

lemma inline_search_right_found:
  assumes ok: "grid_ok strict g" and pt: "inside g pt"
  shows "\<exists>r. inline_search_right needles pt g = Some r \<and> right_found needles g pt r"
proof -
  have fl: "flags_of pt g = Some (cell_flags (cell_at g pt))"
    using grid_index_inside [OF ok pt] by (simp add: flags_of_def)
  have n: "1 \<le> g_columns g" by (rule grid_ok_columns [OF ok])
  show ?thesis
  proof (cases "hard_end g pt")
    case True
    then have "inline_search_right needles pt g = Some (Inl pt)"
      using fl n unfolding inline_search_right_def inside_clamp [OF pt] Let_def
      by (simp add: panic_free hard_end_def)
    moreover have "right_found needles g pt (Inl pt)"
      using True pt by (auto simp: right_found_def joined_def order_le_less)
    ultimately show ?thesis by blast
  next
    case False
    obtain it where it: "iter_from pt g = Some it" "gi_point it = pt" "walks g it"
      using iter_from_walks [OF ok pt] by blast
    have "inline_search_right needles pt g = inline_right_loop needles (g_columns g - 1) g pt it"
      using fl n it False unfolding inline_search_right_def inside_clamp [OF pt] Let_def
      by (auto simp: panic_free hard_end_def)
    then show ?thesis using inline_right_loop_found [OF ok it(3) it(2) [symmetric] False] by simp
  qed
qed


section \<open>The ends of a logical line\<close>

lemma line_search_left_found:
  assumes ok: "grid_ok strict g" and pt: "- int (grid_history g) \<le> line pt" "line pt < int (g_lines g)"
  shows "\<exists>l. line_search_left pt g = Some (Point l 0) \<and> - int (grid_history g) \<le> l \<and> l \<le> line pt \<and>
    (\<forall>k. l \<le> k \<and> k < line pt \<longrightarrow> \<not> hard_end g (Point k (g_columns g - 1))) \<and>
    (l = - int (grid_history g) \<or> hard_end g (Point (l - 1) (g_columns g - 1)))"
  using pt
proof (induction "nat (line pt + int (grid_history g))" arbitrary: pt rule: less_induct)
  case (less pt)
  let ?up = "Point (line pt - 1) (g_columns g - 1)"
  show ?case
  proof (cases "line pt = - int (grid_history g)")
    case True
    then have "line_search_left pt g = Some (Point (line pt) 0)"
      by (subst line_search_left.simps) (simp add: topmost_line_def)
    then show ?thesis using True by auto
  next
    case False
    then have "inside g ?up" using less.prems grid_ok_columns [OF ok] by (simp add: inside_iff)
    then have fl: "flags_of ?up g = Some (cell_flags (cell_at g ?up))"
      using grid_index_inside [OF ok] by (simp add: flags_of_def)
    have loop: "line_search_left pt g = (if hard_end g ?up then Some (Point (line pt) 0)
        else line_search_left (Point (line pt - 1) (column pt)) g)"
      using False less.prems fl last_column_grid [OF ok]
      by (subst line_search_left.simps) (simp add: topmost_line_def hard_end_def)
    show ?thesis
    proof (cases "hard_end g ?up")
      case True
      then show ?thesis using loop less.prems by auto
    next
      case go: False
      obtain l where l: "line_search_left (Point (line pt - 1) (column pt)) g = Some (Point l 0)"
        "- int (grid_history g) \<le> l" "l \<le> line pt - 1"
        "\<forall>k. l \<le> k \<and> k < line pt - 1 \<longrightarrow> \<not> hard_end g (Point k (g_columns g - 1))"
        "l = - int (grid_history g) \<or> hard_end g (Point (l - 1) (g_columns g - 1))"
        using less.hyps [of "Point (line pt - 1) (column pt)"] less.prems False by auto
      have "\<not> hard_end g (Point k (g_columns g - 1))" if "l \<le> k" "k < line pt" for k
        using that l(4) go by (cases "k = line pt - 1") auto
      then show ?thesis using l loop go by auto
    qed
  qed
qed

lemma line_search_right_found:
  assumes ok: "grid_ok strict g" and pt: "- int (grid_history g) \<le> line pt" "line pt < int (g_lines g)"
  shows "\<exists>l. line_search_right pt g = Some (Point l (g_columns g - 1)) \<and> line pt \<le> l \<and> l < int (g_lines g) \<and>
    (\<forall>k. line pt \<le> k \<and> k < l \<longrightarrow> \<not> hard_end g (Point k (g_columns g - 1))) \<and>
    (l = int (g_lines g) - 1 \<or> hard_end g (Point l (g_columns g - 1)))"
  using pt
proof (induction "nat (int (g_lines g) - line pt)" arbitrary: pt rule: less_induct)
  case (less pt)
  let ?here = "Point (line pt) (g_columns g - 1)"
  have "inside g ?here" using less.prems grid_ok_columns [OF ok] by (simp add: inside_iff)
  then have fl: "flags_of ?here g = Some (cell_flags (cell_at g ?here))"
    using grid_index_inside [OF ok] by (simp add: flags_of_def)
  have loop: "line_search_right pt g = (if line pt + 1 = int (g_lines g) \<or> hard_end g ?here then Some ?here
      else line_search_right (Point (line pt + 1) (column pt)) g)"
    using less.prems fl last_column_grid [OF ok]
    by (subst line_search_right.simps) (auto simp: hard_end_def)
  show ?case
  proof (cases "line pt + 1 = int (g_lines g) \<or> hard_end g ?here")
    case True
    then show ?thesis using loop less.prems by auto
  next
    case go: False
    obtain l where l: "line_search_right (Point (line pt + 1) (column pt)) g = Some (Point l (g_columns g - 1))"
      "line pt + 1 \<le> l" "l < int (g_lines g)"
      "\<forall>k. line pt + 1 \<le> k \<and> k < l \<longrightarrow> \<not> hard_end g (Point k (g_columns g - 1))"
      "l = int (g_lines g) - 1 \<or> hard_end g (Point l (g_columns g - 1))"
      using less.hyps [of "Point (line pt + 1) (column pt)"] less.prems go by auto
    have "\<not> hard_end g (Point k (g_columns g - 1))" if "line pt \<le> k" "k < l" for k
      using that l(4) go by (cases "k = line pt") auto
    then show ?thesis using l loop go by auto
  qed
qed

text \<open>Between the ends no cell of the logical line is a hard end, so the whole stretch is joined.\<close>

lemma joined_lines:
  assumes "\<And>k. a \<le> k \<Longrightarrow> k < b \<Longrightarrow> \<not> hard_end g (Point k (g_columns g - 1))" "a \<le> b"
  shows "joined g (Point a 0) (Point b (g_columns g - 1))"
proof -
  have "\<not> hard_end g x" if "inside g x" "Point a 0 \<le> x" "x < Point b (g_columns g - 1)" for x
    using that assms(1) [of "line x"] by (cases x) (auto simp: point_ord_defs hard_end_def)
  then show ?thesis using assms(2) by (auto simp: joined_def point_ord_defs)
qed

lemma line_start_maximal:
  assumes "l = - int (grid_history g) \<or> hard_end g (Point (l - 1) (g_columns g - 1))"
    "1 \<le> g_columns g" "l < int (g_lines g)" "- int (grid_history g) \<le> l"
    "inside g x" "joined g x (Point l 0)"
  shows "x = Point l 0"
proof (rule ccontr)
  assume "x \<noteq> Point l 0"
  then have lt: "x < Point l 0" using assms(6) by (auto simp: joined_def)
  let ?e = "Point (l - 1) (g_columns g - 1)"
  have "inside g ?e" "x \<le> ?e" "?e < Point l 0"
    using lt assms(2-5) by (cases x; auto simp: inside_iff point_ord_defs)+
  moreover have "hard_end g ?e"
    using assms(1) lt assms(5) by (cases x) (auto simp: inside_iff point_ord_defs)
  ultimately show False using assms(6) by (auto simp: joined_def)
qed

lemma line_end_maximal:
  assumes "l = int (g_lines g) - 1 \<or> hard_end g (Point l (g_columns g - 1))"
    "inside g (Point l (g_columns g - 1))" "inside g x" "joined g (Point l (g_columns g - 1)) x"
  shows "x = Point l (g_columns g - 1)"
proof -
  have "x \<le> final_point g" by (rule final_point_greatest [OF assms(3)])
  then show ?thesis using assms by (auto simp: joined_def order_le_less)
qed

section \<open>Semantic blocks\<close>

text \<open>The first cell after a point that is not a spacer, when there is one.\<close>

lemma find_visible_found:
  assumes ok: "grid_ok strict g" and it: "walks g it"
    and q: "inside g q" "gi_point it < q" "\<not> flags_intersects (cell_flags (cell_at g q)) wide_spacer"
  shows "\<exists>p. find_visible g it = Some (Some p) \<and> inside g p \<and> gi_point it < p \<and> p \<le> q \<and>
    (\<forall>x. inside g x \<and> gi_point it < x \<and> x < p \<longrightarrow> flags_intersects (cell_flags (cell_at g x)) wide_spacer)"
  using it q(2)
proof (induction it rule: wf_induct_rule
    [OF wf_measures [of "[\<lambda>it. nat (line (gi_end it) + 1 - line (gi_point it)),
      \<lambda>it. gi_last_column it - column (gi_point it)]"]])
  case (1 it)
  let ?n = "succ_point (g_columns g) (gi_point it)"
  let ?it = "it\<lparr>gi_point := ?n\<rparr>"
  have p: "inside g (gi_point it)" using 1 by (simp add: walks_def)
  have not_final: "gi_point it \<noteq> final_point g"
    using final_point_greatest [OF q(1)] 1(3) by auto
  note n = succ_point_order [OF p not_final]
  have step: "grid_iterator_next g it = Some (Some (?n, cell_at g ?n), ?it)"
    using iterator_next_step [OF ok 1(2)] not_final by simp
  show ?case
  proof (cases "flags_intersects (cell_flags (cell_at g ?n)) wide_spacer")
    case True
    then have lt: "?n < q" using n(3) [OF q(1)] 1(3) q(3) by (cases "?n = q") auto
    obtain r where r: "find_visible g ?it = Some (Some r)" "inside g r" "?n < r" "r \<le> q"
      "\<forall>x. inside g x \<and> ?n < x \<and> x < r \<longrightarrow> flags_intersects (cell_flags (cell_at g x)) wide_spacer"
      using 1(1) [of ?it] grid_iterator_next_measure [OF step] walks_move [OF 1(2) n(1)] lt by auto
    have "find_visible g it = find_visible g ?it"
      using step True by (subst find_visible.simps) simp
    moreover have "flags_intersects (cell_flags (cell_at g x)) wide_spacer"
      if "inside g x" "gi_point it < x" "x < r" for x
      using that n(3) [OF that(1)] r(5) True by (cases "x = ?n") auto
    ultimately show ?thesis using r n(2) by (intro exI [of _ r]) auto
  next
    case False
    then have "find_visible g it = Some (Some ?n)"
      using step by (subst find_visible.simps) simp
    moreover have "?n \<le> q" using n(3) [OF q(1)] 1(3) by simp
    ultimately show ?thesis using n by (intro exI [of _ ?n]) auto
  qed
qed


lemma not_needle_joined:
  "left_found needles g pt r \<Longrightarrow> case r of Inr q \<Rightarrow> q < pt | Inl q \<Rightarrow> q \<le> pt"
  by (auto simp: left_found_def joined_def split: sum.splits)

text \<open>
  The block a search from a visible cell finds: it contains the cell, lies on one logical line,
  holds no escape character, and cannot be extended: on the left it starts at the logical line's
  start or right after an escape character and its spacers, on the right it stops at the logical
  line's end or right before an escape character.
\<close>

definition block_left :: "uchar list \<Rightarrow> grid \<Rightarrow> point \<Rightarrow> point \<Rightarrow> bool" where
  "block_left escape g pt l \<longleftrightarrow> inside g l \<and> joined g l pt \<and>
     (\<forall>x. inside g x \<and> l \<le> x \<and> x < pt \<longrightarrow> \<not> needle escape (cell_at g x)) \<and>
     ((\<forall>x. inside g x \<and> joined g x l \<longrightarrow> x = l) \<or>
      (\<exists>q. inside g q \<and> q < l \<and> joined g q l \<and> needle escape (cell_at g q) \<and>
         (\<forall>x. inside g x \<and> q < x \<and> x < l \<longrightarrow> flags_intersects (cell_flags (cell_at g x)) wide_spacer)))"

definition block_right :: "uchar list \<Rightarrow> grid \<Rightarrow> point \<Rightarrow> point \<Rightarrow> bool" where
  "block_right escape g pt r \<longleftrightarrow> inside g r \<and> joined g pt r \<and>
     (\<forall>x. inside g x \<and> pt < x \<and> x \<le> r \<longrightarrow> \<not> needle escape (cell_at g x)) \<and>
     ((\<forall>x. inside g x \<and> joined g r x \<longrightarrow> x = r) \<or>
      r \<noteq> final_point g \<and> needle escape (cell_at g (succ_point (g_columns g) r)))"

lemma joined_sub: "joined g a d \<Longrightarrow> a \<le> b \<Longrightarrow> b \<le> c \<Longrightarrow> c \<le> d \<Longrightarrow> joined g b c"
  unfolding joined_def by (meson order_less_le_trans order_trans)

lemma semantic_search_left_block:
  assumes ok: "grid_ok strict g" and pt: "inside g pt"
    and vis: "\<not> flags_intersects (cell_flags (cell_at g pt)) wide_spacer"
  shows "\<exists>l. semantic_search_left escape pt g = Some l \<and> block_left escape g pt l"
proof -
  obtain r where r: "inline_search_left escape pt g = Some r" "left_found escape g pt r"
    using inline_search_left_found [OF ok pt] by blast
  show ?thesis
  proof (cases r)
    case (Inl q)
    then show ?thesis using r by (auto simp: semantic_search_left_def left_found_def block_left_def)
  next
    case (Inr q)
    then have q: "inside g q" "q < pt" "joined g q pt" "needle escape (cell_at g q)"
      "\<forall>x. inside g x \<and> q < x \<and> x < pt \<longrightarrow> \<not> needle escape (cell_at g x)"
      using r(2) by (auto simp: left_found_def)
    obtain it where it: "iter_from q g = Some it" "gi_point it = q" "walks g it"
      using iter_from_walks [OF ok q(1)] by blast
    obtain l where l: "find_visible g it = Some (Some l)" "inside g l" "q < l" "l \<le> pt"
      "\<forall>x. inside g x \<and> q < x \<and> x < l \<longrightarrow> flags_intersects (cell_flags (cell_at g x)) wide_spacer"
      using find_visible_found [OF ok it(3) pt] it(2) q(2) vis by auto
    have "joined g l pt" "joined g q l"
      using joined_sub [OF q(3), of l pt] joined_sub [OF q(3), of q l] l(3,4) by auto
    then have "block_left escape g pt l"
      using q l unfolding block_left_def by (meson order_less_le_trans)
    then show ?thesis using r(1) Inr it l(1) by (simp add: semantic_search_left_def)
  qed
qed

lemma succ_pred:
  assumes "inside g p" "p \<noteq> first_point g"
  shows "succ_point (g_columns g) (pred_point (g_columns g) p) = p"
    "pred_point (g_columns g) p \<noteq> final_point g"
  using assms by (cases p; auto simp: succ_point_def pred_point_def inside_iff)+

lemma semantic_search_right_block:
  assumes ok: "grid_ok strict g" and pt: "inside g pt"
  shows "\<exists>r. semantic_search_right escape pt g = Some r \<and> block_right escape g pt r"
proof -
  obtain r where r: "inline_search_right escape pt g = Some r" "right_found escape g pt r"
    using inline_search_right_found [OF ok pt] by blast
  show ?thesis
  proof (cases r)
    case (Inl q)
    then show ?thesis using r by (auto simp: semantic_search_right_def right_found_def block_right_def)
  next
    case (Inr q)
    then have q: "inside g q" "pt < q" "joined g pt q" "needle escape (cell_at g q)"
      "\<forall>x. inside g x \<and> pt < x \<and> x < q \<longrightarrow> \<not> needle escape (cell_at g x)"
      using r(2) by (auto simp: right_found_def)
    obtain it where it: "iter_from q g = Some it" "gi_point it = q" "walks g it"
      using iter_from_walks [OF ok q(1)] by blast
    have nf: "q \<noteq> first_point g" using first_point_least [OF pt] q(2) by auto
    let ?p = "pred_point (g_columns g) q"
    note p = pred_point_order [OF q(1) nf]
    have res: "semantic_search_right escape pt g = Some ?p"
      using r(1) Inr it nf iterator_prev_step [OF ok it(3)] by (simp add: semantic_search_right_def)
    have "pt \<le> ?p" using p(3) [OF pt] q(2) by simp
    then have "joined g pt ?p" using joined_sub [OF q(3), of pt ?p] p(2) by simp
    then have "block_right escape g pt ?p"
      using q p succ_pred [OF q(1) nf] unfolding block_right_def by (metis order_le_less_trans)
    then show ?thesis using res by blast
  qed
qed


section \<open>Properties\<close>

text \<open>
  The line searches find the whole logical line around a point. They never panic; the stretch
  from the first column of the start to the last column of the end contains the point's line and
  no hard line break, and no cell before the start or after the end belongs to the same
  logical line.
\<close>

lemma line_search_spans_logical_line:
  assumes ok: "grid_ok strict g" and pt: "inside g pt"
  shows "\<exists>a b. line_search_left pt g = Some (Point a 0) \<and>
    line_search_right pt g = Some (Point b (g_columns g - 1)) \<and> a \<le> line pt \<and> line pt \<le> b \<and>
    joined g (Point a 0) (Point b (g_columns g - 1)) \<and>
    (\<forall>x. inside g x \<and> joined g x (Point a 0) \<longrightarrow> x = Point a 0) \<and>
    (\<forall>x. inside g x \<and> joined g (Point b (g_columns g - 1)) x \<longrightarrow> x = Point b (g_columns g - 1))"
proof -
  have range: "- int (grid_history g) \<le> line pt" "line pt < int (g_lines g)"
    using pt by (auto simp: inside_iff)
  obtain a where a: "line_search_left pt g = Some (Point a 0)" "- int (grid_history g) \<le> a" "a \<le> line pt"
    "\<forall>k. a \<le> k \<and> k < line pt \<longrightarrow> \<not> hard_end g (Point k (g_columns g - 1))"
    "a = - int (grid_history g) \<or> hard_end g (Point (a - 1) (g_columns g - 1))"
    using line_search_left_found [OF ok range] by blast
  obtain b where b: "line_search_right pt g = Some (Point b (g_columns g - 1))" "line pt \<le> b" "b < int (g_lines g)"
    "\<forall>k. line pt \<le> k \<and> k < b \<longrightarrow> \<not> hard_end g (Point k (g_columns g - 1))"
    "b = int (g_lines g) - 1 \<or> hard_end g (Point b (g_columns g - 1))"
    using line_search_right_found [OF ok range] by blast
  have n: "1 \<le> g_columns g" by (rule grid_ok_columns [OF ok])
  have wrapped: "\<not> hard_end g (Point k (g_columns g - 1))" if "a \<le> k" "k < b" for k
    using that a(4) b(4) by (cases "k < line pt") auto
  have "joined g (Point a 0) (Point b (g_columns g - 1))"
    using joined_lines [OF wrapped] a(3) b(2) by auto
  moreover have "inside g (Point b (g_columns g - 1))" using a b n range by (simp add: inside_iff)
  ultimately show ?thesis
    using a b n range line_start_maximal [OF a(5) n _ a(2)] line_end_maximal [OF b(5)]
    by (intro exI [of _ a] exI [of _ b]) auto
qed

theorem line_search_spans_logical_line_witness:
  "line_search_left (Point 1 1) sample_grid = Some (Point 1 0) \<and>
   line_search_right (Point 1 1) sample_grid = Some (Point 1 1) \<and>
   joined sample_grid (Point 1 0) (Point 1 1)"
proof -
  have "inside sample_grid (Point 1 1)"
    by code_simp
  note * = line_search_spans_logical_line [OF sample_grid_ok(1) this]
  have "line_search_left (Point 1 1) sample_grid = Some (Point 1 0)"
    "line_search_right (Point 1 1) sample_grid = Some (Point 1 1)" "g_columns sample_grid = 2"
    by code_simp+
  with * show ?thesis by auto
qed

text \<open>
  C38: a semantic selection covers exactly one word. From any visible cell the two searches
  succeed; the block between their results lies on one logical line, contains no escape
  character apart from possibly the cell itself, and is maximal: it ends at the end of the
  logical line or next to an escape character (on the left possibly with that character's
  spacer cells in between).
\<close>

theorem semantic_search_finds_block:
  assumes ok: "grid_ok strict g" and pt: "inside g pt"
    and vis: "\<not> flags_intersects (cell_flags (cell_at g pt)) wide_spacer"
  shows "\<exists>l r. semantic_search_left escape pt g = Some l \<and> semantic_search_right escape pt g = Some r \<and>
    block_left escape g pt l \<and> block_right escape g pt r"
  using semantic_search_left_block [OF assms] semantic_search_right_block [OF ok pt] by blast

theorem semantic_search_finds_block_witness:
  "block_left [32] sample_grid (Point 1 1) (Point 1 1) \<and> block_right [32] sample_grid (Point 1 1) (Point 1 1)"
proof -
  have "inside sample_grid (Point 1 1)"
    by code_simp
  moreover have "\<not> flags_intersects (cell_flags (cell_at sample_grid (Point 1 1))) wide_spacer"
    by code_simp
  ultimately have "\<exists>l r. semantic_search_left [32] (Point 1 1) sample_grid = Some l \<and>
      semantic_search_right [32] (Point 1 1) sample_grid = Some r \<and>
      block_left [32] sample_grid (Point 1 1) l \<and> block_right [32] sample_grid (Point 1 1) r"
    by (rule semantic_search_finds_block [OF sample_grid_ok(1)])
  moreover have "semantic_search_left [32] (Point 1 1) sample_grid = Some (Point 1 1)"
    "semantic_search_right [32] (Point 1 1) sample_grid = Some (Point 1 1)"
    by code_simp+
  ultimately show ?thesis by simp
qed

end
