(* ===== verification/Selection.thy ===== *)
theory Selection
  imports Search
begin

text \<open>
  Selections (\<open>nebula_terminal/src/selection.rs\<close>): two anchors, each a cell and the half of it the
  pointer was on, and their conversion to a range of cells. A selection follows its content when
  the terminal scrolls (\<open>rotate\<close>) and is dropped when an erased line touches it
  (\<open>intersects_range\<close>). The terminal argument of the source is used only for its grid and its
  semantic escape characters.
\<close>

section \<open>Data\<close>

record anchor =
  a_point :: point
  a_side :: direction

record selection_range =
  sr_start :: point
  sr_end :: point
  sr_is_block :: bool

datatype selection_type = Simple | Block | Semantic | Lines

record selection =
  sel_ty :: selection_type
  sel_start :: anchor
  sel_end :: anchor

datatype cursor_shape = Shape_Block | Shape_Underline | Shape_Beam | Shape_HollowBlock | Shape_Hidden

section \<open>Operations\<close>

definition range_new :: "point \<Rightarrow> point \<Rightarrow> bool \<Rightarrow> selection_range option" where
  "range_new s e is_block = do {
     assert_that (s \<le> e);
     Some \<lparr>sr_start = s, sr_end = e, sr_is_block = is_block\<rparr>
   }"

definition range_contains :: "selection_range \<Rightarrow> point \<Rightarrow> bool" where
  "range_contains r p \<longleftrightarrow> line (sr_start r) \<le> line p \<and> line (sr_end r) \<ge> line p \<and>
     (column (sr_start r) \<le> column p \<or> line (sr_start r) \<noteq> line p \<and> \<not> sr_is_block r) \<and>
     (column (sr_end r) \<ge> column p \<or> line (sr_end r) \<noteq> line p \<and> \<not> sr_is_block r)"

definition contains_cell :: "selection_range \<Rightarrow> point \<times> cell \<Rightarrow> point \<Rightarrow> cursor_shape \<Rightarrow> bool" where
  "contains_cell r indexed p shape =
     (case indexed of (ip, c) \<Rightarrow>
        if shape = Shape_Block \<and> p = ip \<and>
             (sr_start r = ip \<or> sr_end r = ip \<or>
              sr_is_block r \<and>
                (line (sr_start r) = line ip \<and> column (sr_end r) = column ip \<or>
                 line (sr_end r) = line ip \<and> column (sr_start r) = column ip))
        then False
        else if range_contains r ip then True
        else flags_contains (cell_flags c) WIDE_CHAR \<and> range_contains r (Point (line ip) (column ip + 1)))"

definition selection_new :: "selection_type \<Rightarrow> point \<Rightarrow> direction \<Rightarrow> selection" where
  "selection_new ty location side =
     \<lparr>sel_ty = ty, sel_start = \<lparr>a_point = location, a_side = side\<rparr>,
      sel_end = \<lparr>a_point = location, a_side = side\<rparr>\<rparr>"

definition selection_update :: "point \<Rightarrow> direction \<Rightarrow> selection \<Rightarrow> selection" where
  "selection_update p side sel = sel\<lparr>sel_end := \<lparr>a_point = p, a_side = side\<rparr>\<rparr>"

definition with_line :: "int \<Rightarrow> anchor \<Rightarrow> anchor" where
  "with_line l a = a\<lparr>a_point := Point l (column (a_point a))\<rparr>"

text \<open>The two halves of \<open>rotate\<close>, on the anchors in reading order; \<open>None\<close> drops the selection.\<close>

definition in_region :: "int \<Rightarrow> int \<Rightarrow> anchor \<Rightarrow> bool" where
  "in_region range_top range_bottom a \<longleftrightarrow>
     (line (a_point a) \<ge> range_top \<or> range_top = 0) \<and> line (a_point a) < range_bottom"

definition rotate_start ::
    "dims \<Rightarrow> int \<Rightarrow> int \<Rightarrow> int \<Rightarrow> selection_type \<Rightarrow> anchor \<Rightarrow> anchor \<Rightarrow> anchor option" where
  "rotate_start d range_top range_bottom delta ty s e =
     (if in_region range_top range_bottom s
      then
        (let s = with_line (min (line (a_point s) - delta) (bottommost_line d)) s in
         if line (a_point s) \<ge> range_bottom \<and> line (a_point e) < range_bottom then None
         else if line (a_point s) < range_top \<and> range_top \<noteq> 0
         then Some (with_line range_top
                (if ty \<noteq> Block then \<lparr>a_point = Point (line (a_point s)) 0, a_side = Left\<rparr> else s))
         else Some s)
      else Some s)"

definition rotate_end ::
    "dims \<Rightarrow> int \<Rightarrow> int \<Rightarrow> int \<Rightarrow> selection_type \<Rightarrow> anchor \<Rightarrow> anchor \<Rightarrow> anchor option option" where
  "rotate_end d range_top range_bottom delta ty s e =
     (if in_region range_top range_bottom e
      then
        (let e = with_line (min (line (a_point e) - delta) (bottommost_line d)) e in
         if line (a_point e) < line (a_point s) then Some None
         else if line (a_point e) \<ge> range_bottom
         then do {
           e \<leftarrow> (if ty \<noteq> Block
                then do {
                  lc \<leftarrow> last_column d;
                  Some \<lparr>a_point = Point (line (a_point e)) lc, a_side = Right\<rparr>
                }
                else Some e);
           Some (Some (with_line (range_bottom - 1) e))
         }
         else Some (Some e))
      else Some (Some e))"

definition selection_rotate :: "dims \<Rightarrow> line_region \<Rightarrow> int \<Rightarrow> selection \<Rightarrow> selection option option" where
  "selection_rotate d region delta sel =
     (let swapped = a_point (sel_start sel) > a_point (sel_end sel);
          s = (if swapped then sel_end sel else sel_start sel);
          e = (if swapped then sel_start sel else sel_end sel) in
      case rotate_start d (fst region) (snd region) delta (sel_ty sel) s e of
        None \<Rightarrow> Some None
      | Some s \<Rightarrow> do {
          r \<leftarrow> rotate_end d (fst region) (snd region) delta (sel_ty sel) s e;
          Some (case r of
              None \<Rightarrow> None
            | Some e \<Rightarrow> Some (if swapped then sel\<lparr>sel_start := e, sel_end := s\<rparr>
                              else sel\<lparr>sel_start := s, sel_end := e\<rparr>))
        })"

definition selection_is_empty :: "selection \<Rightarrow> bool" where
  "selection_is_empty sel =
     (case sel_ty sel of
        Simple \<Rightarrow>
          (let swapped = a_point (sel_start sel) > a_point (sel_end sel);
               s = (if swapped then sel_end sel else sel_start sel);
               e = (if swapped then sel_start sel else sel_end sel) in
           s = e \<or>
           a_side s = Right \<and> a_side e = Left \<and> line (a_point s) = line (a_point e) \<and>
             column (a_point s) + 1 = column (a_point e))
      | Block \<Rightarrow>
          (let s = sel_start sel; e = sel_end sel in
           column (a_point s) = column (a_point e) \<and> a_side s = a_side e \<or>
           column (a_point s) + 1 = column (a_point e) \<and> a_side s = Right \<and> a_side e = Left \<or>
           column (a_point e) + 1 = column (a_point s) \<and> a_side s = Left \<and> a_side e = Right)
      | Semantic \<Rightarrow> False
      | Lines \<Rightarrow> False)"

definition intersects_range :: "line_bound \<Rightarrow> line_bound \<Rightarrow> selection \<Rightarrow> bool" where
  "intersects_range lo hi sel =
     (let a = line (a_point (sel_start sel)); b = line (a_point (sel_end sel));
          s = min a b; e = max a b;
          range_top = (case lo of Included l \<Rightarrow> l | Excluded l \<Rightarrow> l + 1 | Unbounded \<Rightarrow> - (2 ^ 31));
          range_bottom = (case hi of Included l \<Rightarrow> l | Excluded l \<Rightarrow> l - 1 | Unbounded \<Rightarrow> 2 ^ 31 - 1) in
      range_bottom \<ge> s \<and> range_top \<le> e)"

definition include_all :: "selection \<Rightarrow> selection" where
  "include_all sel =
     (let s = a_point (sel_start sel); e = a_point (sel_end sel);
          backwards = (if sel_ty sel = Block
            then column s > column e \<or> column s = column e \<and> line s > line e
            else s > e) in
      sel\<lparr>sel_start := (sel_start sel)\<lparr>a_side := (if backwards then Right else Left)\<rparr>,
          sel_end := (sel_end sel)\<lparr>a_side := (if backwards then Left else Right)\<rparr>\<rparr>)"

definition range_simple :: "selection \<Rightarrow> anchor \<Rightarrow> anchor \<Rightarrow> nat \<Rightarrow> selection_range option option" where
  "range_simple sel s e cols =
     (if selection_is_empty sel then Some None
      else do {
        let sp = a_point s; let ep = a_point e;
        ep \<leftarrow> (if a_side e = Left \<and> sp \<noteq> ep
              then (if column ep = 0
                    then do { lc \<leftarrow> usize_sub cols 1; Some (Point (line ep - 1) lc) }
                    else Some (Point (line ep) (column ep - 1)))
              else Some ep);
        let sp = (if a_side s = Right \<and> sp \<noteq> ep
                  then (if column sp + 1 = cols then Point (line sp + 1) 0
                        else Point (line sp) (column sp + 1))
                  else sp);
        Some (Some \<lparr>sr_start = sp, sr_end = ep, sr_is_block = False\<rparr>)
      })"

definition range_block :: "selection \<Rightarrow> anchor \<Rightarrow> anchor \<Rightarrow> selection_range option" where
  "range_block sel s e =
     (if selection_is_empty sel then None
      else
        (let flip = column (a_point s) > column (a_point e);
             s_side = (if flip then a_side e else a_side s);
             e_side = (if flip then a_side s else a_side e);
             sp = (if flip then Point (line (a_point s)) (column (a_point e)) else a_point s);
             ep = (if flip then Point (line (a_point e)) (column (a_point s)) else a_point e);
             ep = (if e_side = Left \<and> sp \<noteq> ep \<and> column ep > 0 then Point (line ep) (column ep - 1) else ep);
             sp = (if s_side = Right \<and> sp \<noteq> ep then Point (line sp) (column sp + 1) else sp) in
         Some \<lparr>sr_start = sp, sr_end = ep, sr_is_block = True\<rparr>))"

definition range_semantic :: "uchar list \<Rightarrow> point \<Rightarrow> point \<Rightarrow> grid \<Rightarrow> selection_range option" where
  "range_semantic escape s e g = do {
     matching \<leftarrow> (if s = e then bracket_search s g else Some None);
     (case matching of
        Some p \<Rightarrow>
          if line p = line s \<and> column p < column s \<or> line p < line s
          then Some \<lparr>sr_start = p, sr_end = e, sr_is_block = False\<rparr>
          else Some \<lparr>sr_start = s, sr_end = p, sr_is_block = False\<rparr>
      | None \<Rightarrow> do {
          l \<leftarrow> semantic_search_left escape s g;
          r \<leftarrow> semantic_search_right escape e g;
          Some \<lparr>sr_start = l, sr_end = r, sr_is_block = False\<rparr>
        })
   }"

definition range_lines :: "point \<Rightarrow> point \<Rightarrow> grid \<Rightarrow> selection_range option" where
  "range_lines s e g = do {
     l \<leftarrow> line_search_left s g;
     r \<leftarrow> line_search_right e g;
     Some \<lparr>sr_start = l, sr_end = r, sr_is_block = False\<rparr>
   }"

definition to_range :: "uchar list \<Rightarrow> selection \<Rightarrow> grid \<Rightarrow> selection_range option option" where
  "to_range escape sel g =
     (let swapped = a_point (sel_start sel) > a_point (sel_end sel);
          s = (if swapped then sel_end sel else sel_start sel);
          e = (if swapped then sel_start sel else sel_end sel) in
      if line (a_point e) < topmost_line (grid_dims g) then Some None
      else do {
        sp \<leftarrow> point_grid_clamp (grid_dims g) Boundary_Grid (a_point s);
        ep \<leftarrow> point_grid_clamp (grid_dims g) Boundary_Grid (a_point e);
        let s = s\<lparr>a_point := sp\<rparr>; let e = e\<lparr>a_point := ep\<rparr>;
        (case sel_ty sel of
           Simple \<Rightarrow> range_simple sel s e (g_columns g)
         | Block \<Rightarrow> Some (range_block sel s e)
         | Semantic \<Rightarrow> do { r \<leftarrow> range_semantic escape sp ep g; Some (Some r) }
         | Lines \<Rightarrow> do { r \<leftarrow> range_lines sp ep g; Some (Some r) })
      })"


section \<open>What a selection covers\<close>

text \<open>
  The specification: an anchor sits on an edge between cells, the left or the right edge of its
  cell, and a selection consists of the cells that lie completely between its two edges, in
  reading order for a simple selection and per column for a block.
\<close>

definition edge :: "nat \<Rightarrow> anchor \<Rightarrow> int" where
  "edge w a = line (a_point a) * int w + int (column (a_point a)) + (if a_side a = Right then 1 else 0)"

definition column_edge :: "anchor \<Rightarrow> nat" where
  "column_edge a = column (a_point a) + (if a_side a = Right then 1 else 0)"

definition covered_simple :: "nat \<Rightarrow> anchor \<Rightarrow> anchor \<Rightarrow> point \<Rightarrow> bool" where
  "covered_simple w a b x \<longleftrightarrow>
     (let k = line x * int w + int (column x) in
      min (edge w a) (edge w b) \<le> k \<and> k + 1 \<le> max (edge w a) (edge w b))"

definition covered_block :: "anchor \<Rightarrow> anchor \<Rightarrow> point \<Rightarrow> bool" where
  "covered_block a b x \<longleftrightarrow>
     min (line (a_point a)) (line (a_point b)) \<le> line x \<and> line x \<le> max (line (a_point a)) (line (a_point b)) \<and>
     min (column_edge a) (column_edge b) \<le> column x \<and> column x + 1 \<le> max (column_edge a) (column_edge b)"



lemma position_less_iff:
  assumes "column p < w" "column q < w"
  shows "line p * int w + int (column p) < line q * int w + int (column q) \<longleftrightarrow> p < q"
  using cell_number_less_iff [of p "\<lparr>total_lines = 0, screen_lines = 0, columns = w\<rparr>" q] assms
  by (simp add: cell_number_def)

lemma succ_le_iff: "column p < w \<Longrightarrow> column x < w \<Longrightarrow> succ_point w p \<le> x \<longleftrightarrow> p < x"
  by (cases p; cases x) (auto simp: succ_point_def point_ord_defs)


lemma covered_simple_ordered:
  assumes "column (a_point s) < w" "column (a_point e) < w" "column x < w" "a_point s < a_point e"
  shows "covered_simple w s e x \<longleftrightarrow>
    (if a_side s = Right then a_point s < x else a_point s \<le> x) \<and>
    (if a_side e = Left then x < a_point e else x \<le> a_point e)"
proof -
  let ?n = "\<lambda>p. line p * int w + int (column p)"
  note less = position_less_iff [OF assms(1,2)] position_less_iff [OF assms(1,3)]
    position_less_iff [OF assms(3,1)] position_less_iff [OF assms(3,2)] position_less_iff [OF assms(2,3)]
  have "?n (a_point s) < ?n (a_point e)" using less(1) assms(4) by simp
  then have edges: "min (edge w s) (edge w e) = edge w s" "max (edge w s) (edge w e) = edge w e"
    by (auto simp: edge_def)
  have "edge w s \<le> ?n x \<longleftrightarrow> (if a_side s = Right then a_point s < x else a_point s \<le> x)"
    using less(2,3) by (auto simp: edge_def not_less [symmetric])
  moreover have "?n x + 1 \<le> edge w e \<longleftrightarrow> (if a_side e = Left then x < a_point e else x \<le> a_point e)"
    using less(4,5) by (cases "a_side e") (auto simp: edge_def not_less [symmetric])
  ultimately show ?thesis by (simp add: covered_simple_def Let_def edges)
qed


text \<open>The anchors of a selection in reading order.\<close>

definition first_anchor :: "selection \<Rightarrow> anchor" where
  "first_anchor sel = (if a_point (sel_start sel) > a_point (sel_end sel) then sel_end sel else sel_start sel)"

definition second_anchor :: "selection \<Rightarrow> anchor" where
  "second_anchor sel = (if a_point (sel_start sel) > a_point (sel_end sel) then sel_start sel else sel_end sel)"

lemmas anchor_defs = first_anchor_def second_anchor_def

lemma anchors_ordered: "a_point (first_anchor sel) \<le> a_point (second_anchor sel)"
  by (auto simp: anchor_defs)






lemma clamp_inside: "grid_ok strict g \<Longrightarrow> inside g p \<Longrightarrow> point_grid_clamp (grid_dims g) Boundary_Grid p = Some p"
  using last_column_grid [of strict g]
  by (cases p) (auto simp: point_grid_clamp_def in_grid_def bottommost_line_def grid_dims_def)

lemma to_range_inside:
  assumes ok: "grid_ok strict g" and ins: "inside g (a_point (sel_start sel))" "inside g (a_point (sel_end sel))"
  shows "to_range escape sel g = (case sel_ty sel of
      Simple \<Rightarrow> range_simple sel (first_anchor sel) (second_anchor sel) (g_columns g)
    | Block \<Rightarrow> Some (range_block sel (first_anchor sel) (second_anchor sel))
    | Semantic \<Rightarrow> map_option Some (range_semantic escape (a_point (first_anchor sel)) (a_point (second_anchor sel)) g)
    | Lines \<Rightarrow> map_option Some (range_lines (a_point (first_anchor sel)) (a_point (second_anchor sel)) g))"
proof -
  have ins': "inside g (a_point (first_anchor sel))" "inside g (a_point (second_anchor sel))"
    using ins by (auto simp: anchor_defs)
  have "to_range escape sel g =
      (if line (a_point (second_anchor sel)) < topmost_line (grid_dims g) then Some None
       else do {
         sp \<leftarrow> point_grid_clamp (grid_dims g) Boundary_Grid (a_point (first_anchor sel));
         ep \<leftarrow> point_grid_clamp (grid_dims g) Boundary_Grid (a_point (second_anchor sel));
         let s = (first_anchor sel)\<lparr>a_point := sp\<rparr>; let e = (second_anchor sel)\<lparr>a_point := ep\<rparr>;
         (case sel_ty sel of
            Simple \<Rightarrow> range_simple sel s e (g_columns g)
          | Block \<Rightarrow> Some (range_block sel s e)
          | Semantic \<Rightarrow> do { r \<leftarrow> range_semantic escape sp ep g; Some (Some r) }
          | Lines \<Rightarrow> do { r \<leftarrow> range_lines sp ep g; Some (Some r) })
       })"
    unfolding to_range_def anchor_defs Let_def by (rule refl)
  moreover have "topmost_line (grid_dims g) \<le> line (a_point (second_anchor sel))"
    using ins'(2) by (simp add: in_grid_def)
  ultimately show ?thesis
    using clamp_inside [OF ok ins'(1)] clamp_inside [OF ok ins'(2)]
    by (simp add: map_conv_bind_option comp_def Let_def split: selection_type.splits)
qed

section \<open>Rotation\<close>

lemma selection_rotate_anchors:
  "selection_rotate d region delta sel =
     (case rotate_start d (fst region) (snd region) delta (sel_ty sel) (first_anchor sel) (second_anchor sel) of
        None \<Rightarrow> Some None
      | Some s \<Rightarrow> do {
          r \<leftarrow> rotate_end d (fst region) (snd region) delta (sel_ty sel) s (second_anchor sel);
          Some (map_option (\<lambda>e. if a_point (sel_start sel) > a_point (sel_end sel)
            then sel\<lparr>sel_start := e, sel_end := s\<rparr> else sel\<lparr>sel_start := s, sel_end := e\<rparr>) r)
        })"
  unfolding selection_rotate_def anchor_defs Let_def
  by (rule arg_cong [where f = "\<lambda>k. case_option (Some None) k _"])
    (auto simp: fun_eq_iff intro!: arg_cong [where f = "Option.bind _"] split: option.splits)

text \<open>The lines between the anchors of a selection.\<close>

definition selection_lines :: "selection \<Rightarrow> int set" where
  "selection_lines sel =
     {min (line (a_point (sel_start sel))) (line (a_point (sel_end sel)))..
      max (line (a_point (sel_start sel))) (line (a_point (sel_end sel)))}"

lemma selection_lines_anchors:
  "selection_lines sel = {line (a_point (first_anchor sel))..line (a_point (second_anchor sel))}"
  by (auto simp: selection_lines_def anchor_defs point_ord_defs)


lemma interval_subset: "lo \<le> hi \<Longrightarrow> {lo..hi} \<subseteq> {t..<b} \<longleftrightarrow> t \<le> lo \<and> hi < (b :: int)"
  by (meson atLeastAtMost_iff atLeastLessThan_iff order_le_less_trans order_refl order_trans subset_iff)

lemma selection_lines_put:
  "selection_lines (if c then sel\<lparr>sel_start := e, sel_end := s\<rparr> else sel\<lparr>sel_start := s, sel_end := e\<rparr>) =
     {min (line (a_point s)) (line (a_point e))..max (line (a_point s)) (line (a_point e))}"
  by (simp add: selection_lines_def min.commute max.commute)

lemma rotate_region:
  fixes sel :: selection and d :: dims and delta :: int
  defines "s \<equiv> first_anchor sel" and "e \<equiv> second_anchor sel"
  assumes d: "dims_ok d" and region: "0 < t" "t \<le> line (a_point s)" "line (a_point e) < b"
    "b < int (screen_lines d)"
  defines "lo \<equiv> line (a_point s) - delta" and "hi \<equiv> line (a_point e) - delta"
  shows "\<exists>r. selection_rotate d (t, b) delta sel = Some r \<and>
    (r = None \<longleftrightarrow> hi < t \<or> b \<le> lo) \<and>
    (\<forall>sel'. r = Some sel' \<longrightarrow> sel_ty sel' = sel_ty sel \<and>
       selection_lines sel' = {lo..hi} \<inter> {t..<b} \<and>
       (t \<le> lo \<and> hi < b \<longrightarrow>
          sel_start sel' = with_line (line (a_point (sel_start sel)) - delta) (sel_start sel) \<and>
          sel_end sel' = with_line (line (a_point (sel_end sel)) - delta) (sel_end sel)))"
proof -
  have le: "a_point s \<le> a_point e" using anchors_ordered by (simp add: s_def e_def)
  then have lines: "line (a_point s) \<le> line (a_point e)" by (auto simp: point_ord_defs)
  have in_r: "in_region t b s" "in_region t b e"
    using region lines by (auto simp: in_region_def)
  have bot: "b \<le> bottommost_line d" using region by (simp add: bottommost_line_def)
  have lc: "last_column d = Some (columns d - 1)" using d by (simp add: panic_free)
  let ?s = "if lo < t then with_line t (if sel_ty sel \<noteq> Block then \<lparr>a_point = Point lo 0, a_side = Left\<rparr> else s)
    else with_line lo s"
  let ?e = "if b \<le> hi then with_line (b - 1) (if sel_ty sel \<noteq> Block
      then \<lparr>a_point = Point (min hi (bottommost_line d)) (columns d - 1), a_side = Right\<rparr> else e)
    else with_line hi e"
  have start: "rotate_start d t b delta (sel_ty sel) s e = (if b \<le> lo then None else Some ?s)"
    using in_r region bot lines
    by (auto simp: rotate_start_def Let_def with_line_def lo_def min_def)
  have ls: "line (a_point ?s) = max t lo" by (auto simp: with_line_def max_def)
  have le': "line (a_point ?e) = min (b - 1) hi" by (auto simp: with_line_def min_def)
  have fin: "rotate_end d t b delta (sel_ty sel) ?s e = Some (if hi < max t lo then None else Some ?e)"
    if "lo < b"
    unfolding rotate_end_def ls using in_r region bot lines that lc
    by (auto simp: Let_def with_line_def hi_def lo_def min_def max_def)
  have lohi: "lo \<le> hi" using lines by (simp add: lo_def hi_def)
  show ?thesis
  proof (cases "b \<le> lo \<or> hi < max t lo")
    case True
    then have "selection_rotate d (t, b) delta sel = Some None"
      using start fin by (auto simp: selection_rotate_anchors s_def [symmetric] e_def [symmetric])
    moreover have "hi < t \<or> b \<le> lo" using True lohi by auto
    ultimately show ?thesis by simp
  next
    case False
    let ?sel = "if a_point (sel_start sel) > a_point (sel_end sel)
      then sel\<lparr>sel_start := ?e, sel_end := ?s\<rparr> else sel\<lparr>sel_start := ?s, sel_end := ?e\<rparr>"
    have res: "selection_rotate d (t, b) delta sel = Some (Some ?sel)"
      using start fin False by (simp add: selection_rotate_anchors s_def [symmetric] e_def [symmetric])
    have cut: "{min (max t lo) (min (b - 1) hi)..max (max t lo) (min (b - 1) hi)} = {lo..hi} \<inter> {t..<b}"
      using False lohi region lines by auto
    have ln: "selection_lines ?sel = {lo..hi} \<inter> {t..<b}"
      unfolding selection_lines_put ls le' by (rule cut)
    have shift: "sel_start ?sel = with_line (line (a_point (sel_start sel)) - delta) (sel_start sel)"
      "sel_end ?sel = with_line (line (a_point (sel_end sel)) - delta) (sel_end sel)" if "t \<le> lo" "hi < b"
      using that by (auto simp: s_def e_def anchor_defs lo_def hi_def)
    have ty: "sel_ty ?sel = sel_ty sel" by simp
    obtain sel' where "selection_rotate d (t, b) delta sel = Some (Some sel')" "sel_ty sel' = sel_ty sel"
      "selection_lines sel' = {lo..hi} \<inter> {t..<b}"
      "t \<le> lo \<Longrightarrow> hi < b \<Longrightarrow> sel_start sel' = with_line (line (a_point (sel_start sel)) - delta) (sel_start sel) \<and>
        sel_end sel' = with_line (line (a_point (sel_end sel)) - delta) (sel_end sel)"
      using res ty ln shift by blast
    then show ?thesis using False by auto
  qed
qed

lemma rotate_screen:
  assumes d: "dims_ok d" and up: "0 \<le> delta"
    and lines: "line (a_point (sel_start sel)) < int (screen_lines d)" "line (a_point (sel_end sel)) < int (screen_lines d)"
  shows "selection_rotate d (0, int (screen_lines d)) delta sel =
    Some (Some (sel\<lparr>sel_start := with_line (line (a_point (sel_start sel)) - delta) (sel_start sel),
                    sel_end := with_line (line (a_point (sel_end sel)) - delta) (sel_end sel)\<rparr>))"
proof -
  have *: "min (l - delta) (bottommost_line d) = l - delta" "l - delta < int (screen_lines d)"
    if "l < int (screen_lines d)" for l
    using that up by (auto simp: bottommost_line_def)
  have le: "line (a_point (first_anchor sel)) \<le> line (a_point (second_anchor sel))"
    using anchors_ordered [of sel] by (auto simp: point_ord_defs)
  have l: "line (a_point (first_anchor sel)) < int (screen_lines d)" "line (a_point (second_anchor sel)) < int (screen_lines d)"
    using lines by (auto simp: anchor_defs)
  have "rotate_start d 0 (int (screen_lines d)) delta (sel_ty sel) (first_anchor sel) (second_anchor sel) =
      Some (with_line (line (a_point (first_anchor sel)) - delta) (first_anchor sel))"
    using * [OF l(1)] l by (simp add: rotate_start_def in_region_def Let_def with_line_def)
  moreover have "rotate_end d 0 (int (screen_lines d)) delta (sel_ty sel)
      (with_line (line (a_point (first_anchor sel)) - delta) (first_anchor sel)) (second_anchor sel) =
      Some (Some (with_line (line (a_point (second_anchor sel)) - delta) (second_anchor sel)))"
    using * [OF l(2)] l le by (simp add: rotate_end_def in_region_def Let_def with_line_def)
  ultimately show ?thesis
    by (cases sel) (auto simp: selection_rotate_anchors anchor_defs)
qed


section \<open>Properties\<close>


definition sample_selection :: "selection_type \<Rightarrow> selection" where
  "sample_selection ty = \<lparr>sel_ty = ty, sel_start = \<lparr>a_point = Point 1 0, a_side = Right\<rparr>,
     sel_end = \<lparr>a_point = Point 2 1, a_side = Left\<rparr>\<rparr>"


text \<open>
  C20: the two constellations in which a selection is not what lies between its edges. A simple
  selection from the right half of the last column to the left half of the next line's first
  column covers nothing, but the conversion selects the last column's cell. A block selection
  from the right half of a column to the left half of the same column some lines below covers
  that column, but the conversion yields a range whose start column is right of its end column,
  which selects nothing and may start one column past the grid.
\<close>

theorem selection_misjudges_half_cells:
  assumes ok: "grid_ok strict g"
    and ins: "inside g (a_point (sel_start sel))" "inside g (a_point (sel_end sel))"
    and order: "line (a_point (sel_start sel)) < line (a_point (sel_end sel))"
    and sides: "a_side (sel_start sel) = Right" "a_side (sel_end sel) = Left"
  shows "(sel_ty sel = Simple \<and> a_point (sel_end sel) = succ_point (g_columns g) (a_point (sel_start sel)) \<longrightarrow>
      to_range escape sel g = Some (Some \<lparr>sr_start = a_point (sel_start sel), sr_end = a_point (sel_start sel),
        sr_is_block = False\<rparr>) \<and>
      (\<forall>x. inside g x \<longrightarrow> \<not> covered_simple (g_columns g) (sel_start sel) (sel_end sel) x)) \<and>
    (sel_ty sel = Block \<and> column (a_point (sel_end sel)) = column (a_point (sel_start sel)) \<longrightarrow>
      (\<exists>r. to_range escape sel g = Some (Some r) \<and>
        column (sr_start r) = column (a_point (sel_start sel)) + 1 \<and> column (sr_end r) < column (sr_start r) \<and>
        (\<forall>x. \<not> range_contains r x) \<and>
        covered_block (sel_start sel) (sel_end sel) (a_point (sel_start sel))))"
proof -
  have anchors: "first_anchor sel = sel_start sel" "second_anchor sel = sel_end sel"
    using order by (auto simp: anchor_defs point_ord_defs)
  have cols: "column (a_point (sel_start sel)) < g_columns g" "column (a_point (sel_end sel)) < g_columns g"
    using ins by (auto simp: inside_iff)
  obtain sl sc where sp: "a_point (sel_start sel) = Point sl sc" by (cases "a_point (sel_start sel)")
  obtain el ec where ep: "a_point (sel_end sel) = Point el ec" by (cases "a_point (sel_end sel)")
  show ?thesis
  proof (intro conjI impI)
    assume h: "sel_ty sel = Simple \<and> a_point (sel_end sel) = succ_point (g_columns g) (a_point (sel_start sel))"
    then have wrap: "sc = g_columns g - 1" "ec = 0" "el = sl + 1"
      using sp ep order cols by (auto simp: succ_point_def split: if_splits)
    have "\<not> selection_is_empty sel"
      using h sp ep order by (auto simp: selection_is_empty_def Let_def point_ord_defs)
    then show "to_range escape sel g = Some (Some \<lparr>sr_start = a_point (sel_start sel), sr_end = a_point (sel_start sel),
        sr_is_block = False\<rparr>)"
      using conjunct1 [OF h] sp ep wrap sides cols grid_ok_columns [OF ok]
      by (simp add: to_range_inside [OF ok ins] range_simple_def anchors panic_free Let_def)
    have lt: "a_point (sel_start sel) < a_point (sel_end sel)" using order by (simp add: less_point_iff)
    have "\<not> covered_simple (g_columns g) (sel_start sel) (sel_end sel) x" if "inside g x" for x
    proof -
      have c: "column x < g_columns g" using that by (simp add: inside_iff)
      show ?thesis
        using covered_simple_ordered [OF cols c lt] succ_le_iff [OF cols(1) c] h sides by auto
    qed
    then show "\<forall>x. inside g x \<longrightarrow> \<not> covered_simple (g_columns g) (sel_start sel) (sel_end sel) x" by blast
  next
    assume h: "sel_ty sel = Block \<and> column (a_point (sel_end sel)) = column (a_point (sel_start sel))"
    have "\<not> selection_is_empty sel" using h sides by (simp add: selection_is_empty_def Let_def)
    then have "to_range escape sel g = Some (Some \<lparr>sr_start = Point sl (sc + 1),
        sr_end = Point el (if sc > 0 then sc - 1 else sc), sr_is_block = True\<rparr>)"
      using h sp ep sides order by (auto simp: to_range_inside [OF ok ins] range_block_def anchors Let_def)
    moreover have "covered_block (sel_start sel) (sel_end sel) (a_point (sel_start sel))"
      using h sp ep sides order by (simp add: covered_block_def column_edge_def)
    ultimately show "\<exists>r. to_range escape sel g = Some (Some r) \<and>
        column (sr_start r) = column (a_point (sel_start sel)) + 1 \<and> column (sr_end r) < column (sr_start r) \<and>
        (\<forall>x. \<not> range_contains r x) \<and>
        covered_block (sel_start sel) (sel_end sel) (a_point (sel_start sel))"
      using sp by (auto simp: range_contains_def)
  qed
qed

theorem selection_misjudges_half_cells_witness:
  "\<exists>r. to_range [] \<lparr>sel_ty = Block, sel_start = \<lparr>a_point = Point 0 1, a_side = Right\<rparr>,
       sel_end = \<lparr>a_point = Point 2 1, a_side = Left\<rparr>\<rparr> sample_grid = Some (Some r) \<and>
     column (sr_start r) = 2 \<and> (\<forall>x. \<not> range_contains r x)"
proof -
  let ?sel = "\<lparr>sel_ty = Block, sel_start = \<lparr>a_point = Point 0 1, a_side = Right\<rparr>,
       sel_end = \<lparr>a_point = Point 2 1, a_side = Left\<rparr>\<rparr>"
  have "inside sample_grid (a_point (sel_start ?sel))" "inside sample_grid (a_point (sel_end ?sel))"
    by code_simp+
  then show ?thesis
    using selection_misjudges_half_cells [OF sample_grid_ok(1), of ?sel "[]"] by auto
qed

text \<open>
  C40: a selection moves with its text, in two cases. In a scrolled region that touches neither the top
  nor the bottom of the screen and contains the selection, the rotated selection spans exactly the
  lines the shifted selection has inside the region, it is dropped exactly when none is left, and
  if nothing had to be cut off both anchors keep their column and side. When the whole screen
  scrolls up, both anchors move by exactly the scrolled lines, into the history if need be.
\<close>

theorem selection_rotate_follows_content:
  assumes d: "dims_ok d"
  shows "(0 < t \<and> t \<le> line (a_point (first_anchor sel)) \<and> line (a_point (second_anchor sel)) < b \<and>
      b < int (screen_lines d) \<longrightarrow>
      (\<exists>r. selection_rotate d (t, b) delta sel = Some r \<and>
        (r = None \<longleftrightarrow> line (a_point (second_anchor sel)) - delta < t \<or> b \<le> line (a_point (first_anchor sel)) - delta) \<and>
        (\<forall>sel'. r = Some sel' \<longrightarrow> sel_ty sel' = sel_ty sel \<and>
          selection_lines sel' = (\<lambda>l. l - delta) ` selection_lines sel \<inter> {t..<b} \<and>
          ((\<lambda>l. l - delta) ` selection_lines sel \<subseteq> {t..<b} \<longrightarrow>
            sel_start sel' = with_line (line (a_point (sel_start sel)) - delta) (sel_start sel) \<and>
            sel_end sel' = with_line (line (a_point (sel_end sel)) - delta) (sel_end sel))))) \<and>
    (0 \<le> delta \<and> line (a_point (sel_start sel)) < int (screen_lines d) \<and>
      line (a_point (sel_end sel)) < int (screen_lines d) \<longrightarrow>
      selection_rotate d (0, int (screen_lines d)) delta sel =
        Some (Some (sel\<lparr>sel_start := with_line (line (a_point (sel_start sel)) - delta) (sel_start sel),
                        sel_end := with_line (line (a_point (sel_end sel)) - delta) (sel_end sel)\<rparr>)))"
proof (intro conjI impI)
  assume h: "0 < t \<and> t \<le> line (a_point (first_anchor sel)) \<and> line (a_point (second_anchor sel)) < b \<and>
      b < int (screen_lines d)"
  let ?lo = "line (a_point (first_anchor sel)) - delta" and ?hi = "line (a_point (second_anchor sel)) - delta"
  have le: "?lo \<le> ?hi" using anchors_ordered [of sel] by (auto simp: point_ord_defs)
  have shifted: "(\<lambda>l. l - delta) ` selection_lines sel = {?lo..?hi}"
    by (simp add: selection_lines_anchors)
  have "{?lo..?hi} \<subseteq> {t..<b} \<longleftrightarrow> t \<le> ?lo \<and> ?hi < b"
    by (rule interval_subset [OF le])
  then show "\<exists>r. selection_rotate d (t, b) delta sel = Some r \<and> (r = None \<longleftrightarrow> ?hi < t \<or> b \<le> ?lo) \<and>
      (\<forall>sel'. r = Some sel' \<longrightarrow> sel_ty sel' = sel_ty sel \<and>
        selection_lines sel' = (\<lambda>l. l - delta) ` selection_lines sel \<inter> {t..<b} \<and>
        ((\<lambda>l. l - delta) ` selection_lines sel \<subseteq> {t..<b} \<longrightarrow>
          sel_start sel' = with_line (line (a_point (sel_start sel)) - delta) (sel_start sel) \<and>
          sel_end sel' = with_line (line (a_point (sel_end sel)) - delta) (sel_end sel)))"
    using rotate_region [OF d, of t sel b delta] h unfolding shifted by simp
next
  assume "0 \<le> delta \<and> line (a_point (sel_start sel)) < int (screen_lines d) \<and>
      line (a_point (sel_end sel)) < int (screen_lines d)"
  then show "selection_rotate d (0, int (screen_lines d)) delta sel =
        Some (Some (sel\<lparr>sel_start := with_line (line (a_point (sel_start sel)) - delta) (sel_start sel),
                        sel_end := with_line (line (a_point (sel_end sel)) - delta) (sel_end sel)\<rparr>))"
    by (intro rotate_screen [OF d]) auto
qed

theorem selection_rotate_follows_content_witness:
  "selection_rotate (grid_dims sample_grid) (0, 3) 1 (sample_selection Simple) =
     Some (Some \<lparr>sel_ty = Simple, sel_start = \<lparr>a_point = Point 0 0, a_side = Right\<rparr>,
       sel_end = \<lparr>a_point = Point 1 1, a_side = Left\<rparr>\<rparr>)"
proof -
  have "dims_ok (grid_dims sample_grid)" by code_simp
  from conjunct2 [OF selection_rotate_follows_content [OF this, of 1 "sample_selection Simple" 1 1]]
  show ?thesis by (simp add: sample_selection_def sample_grid_def grid_dims_def with_line_def)
qed

text \<open>
  In a region that reaches the bottom of the screen the start is clamped to the last line before
  the test that should drop a selection scrolled out at the bottom, so such a selection stays,
  on the last line, over other text.
\<close>

lemma selection_rotate_keeps_scrolled_out:
  assumes d: "dims_ok d" and region: "0 \<le> t" "t \<le> line (a_point (first_anchor sel))"
      "line (a_point (second_anchor sel)) < int (screen_lines d)"
    and out: "int (screen_lines d) \<le> line (a_point (first_anchor sel)) + n"
  shows "\<exists>sel'. selection_rotate d (t, int (screen_lines d)) (- n) sel = Some (Some sel') \<and>
    selection_lines sel' = {int (screen_lines d) - 1}"
proof -
  let ?s = "first_anchor sel" and ?e = "second_anchor sel" and ?b = "bottommost_line d"
  have le: "line (a_point ?s) \<le> line (a_point ?e)"
    using anchors_ordered [of sel] by (auto simp: point_ord_defs)
  have start: "rotate_start d t (int (screen_lines d)) (- n) (sel_ty sel) ?s ?e = Some (with_line ?b ?s)"
    using region out le by (auto simp: rotate_start_def in_region_def Let_def with_line_def bottommost_line_def)
  have "rotate_end d t (int (screen_lines d)) (- n) (sel_ty sel) (with_line ?b ?s) ?e = Some (Some (with_line ?b ?e))"
    using region out le by (auto simp: rotate_end_def in_region_def Let_def with_line_def bottommost_line_def)
  with start show ?thesis
    by (auto simp: selection_rotate_anchors selection_lines_def with_line_def bottommost_line_def)
qed

end
