(* ===== verification/Damage.thy ===== *)
theory Damage
  imports Index
begin

text \<open>
  Incremental damage tracking (\<open>nebula_terminal/src/term/damage.rs\<close>): per viewport line the
  interval of columns that changed since the last reset, a flag for a full redraw, and the
  iterator over the damaged lines that are visible at a display offset.
\<close>

section \<open>Data\<close>

record line_damage =
  ld_line :: nat
  ld_left :: nat
  ld_right :: nat

record damage_state =
  ds_full :: bool
  ds_lines :: "line_damage list"
  ds_last_cursor :: point

section \<open>Operations\<close>

definition undamaged :: "nat \<Rightarrow> nat \<Rightarrow> line_damage" where
  "undamaged l num_cols = \<lparr>ld_line = l, ld_left = num_cols, ld_right = 0\<rparr>"

definition bounds_reset :: "nat \<Rightarrow> line_damage \<Rightarrow> line_damage" where
  "bounds_reset num_cols b = undamaged (ld_line b) num_cols"

definition expand :: "nat \<Rightarrow> nat \<Rightarrow> line_damage \<Rightarrow> line_damage" where
  "expand left right b = b\<lparr>ld_left := min (ld_left b) left, ld_right := max (ld_right b) right\<rparr>"

definition is_damaged :: "line_damage \<Rightarrow> bool" where
  "is_damaged b \<longleftrightarrow> ld_left b \<le> ld_right b"

definition damage_new :: "nat \<Rightarrow> nat \<Rightarrow> damage_state" where
  "damage_new num_cols num_lines =
     \<lparr>ds_full = True, ds_lines = map (\<lambda>l. undamaged l num_cols) [0..<num_lines],
      ds_last_cursor = Point 0 0\<rparr>"

definition damage_resize :: "nat \<Rightarrow> nat \<Rightarrow> damage_state \<Rightarrow> damage_state" where
  "damage_resize num_cols num_lines d =
     d\<lparr>ds_last_cursor := Point 0 0, ds_full := True,
       ds_lines := map (\<lambda>l. undamaged l num_cols) [0..<num_lines]\<rparr>"

definition damage_line :: "nat \<Rightarrow> nat \<Rightarrow> nat \<Rightarrow> damage_state \<Rightarrow> damage_state option" where
  "damage_line l left right d = do {
     b \<leftarrow> vec_get (ds_lines d) l;
     lines \<leftarrow> vec_set (ds_lines d) l (expand left right b);
     Some (d\<lparr>ds_lines := lines\<rparr>)
   }"

definition damage_point :: "viewport_point \<Rightarrow> damage_state \<Rightarrow> damage_state option" where
  "damage_point p d = damage_line (vline p) (vcolumn p) (vcolumn p) d"

definition damage_reset :: "nat \<Rightarrow> damage_state \<Rightarrow> damage_state" where
  "damage_reset num_cols d = d\<lparr>ds_full := False, ds_lines := map (bounds_reset num_cols) (ds_lines d)\<rparr>"

text \<open>
  The iterator keeps a slice of the lines; \<open>next\<close> returns the first damaged line of the rest,
  moved down by the display offset.
\<close>

record damage_iterator =
  di_lines :: "line_damage list"
  di_display_offset :: nat

definition damage_iterator_new :: "line_damage list \<Rightarrow> nat \<Rightarrow> damage_iterator" where
  "damage_iterator_new lines display_offset =
     \<lparr>di_lines = take (length lines - display_offset) lines, di_display_offset = display_offset\<rparr>"

fun damage_iterator_next ::
    "line_damage list \<Rightarrow> nat \<Rightarrow> line_damage option \<times> line_damage list" where
  "damage_iterator_next [] display_offset = (None, [])"
| "damage_iterator_next (b # bs) display_offset =
     (if is_damaged b
      then (Some \<lparr>ld_line = ld_line b + display_offset, ld_left = ld_left b, ld_right = ld_right b\<rparr>, bs)
      else damage_iterator_next bs display_offset)"

section \<open>What the bookkeeping promises\<close>

definition damage_ok :: "nat \<Rightarrow> nat \<Rightarrow> damage_state \<Rightarrow> bool" where
  "damage_ok num_cols num_lines d \<longleftrightarrow> length (ds_lines d) = num_lines \<and>
     (\<forall>l < num_lines. ld_line (ds_lines d ! l) = l \<and> ld_left (ds_lines d ! l) \<le> num_cols)"

definition damaged :: "damage_state \<Rightarrow> nat \<Rightarrow> nat \<Rightarrow> bool" where
  "damaged d l c \<longleftrightarrow> ds_full d \<or>
     l < length (ds_lines d) \<and> ld_left (ds_lines d ! l) \<le> c \<and> c \<le> ld_right (ds_lines d ! l)"

text \<open>A loop over the iterator, up to the first \<open>None\<close>.\<close>

lemma damage_iterator_next_shorter:
  "damage_iterator_next bs off = (Some b, bs') \<Longrightarrow> length bs' < length bs"
  by (induction bs) (auto split: if_splits)

function damage_items :: "line_damage list \<Rightarrow> nat \<Rightarrow> line_damage list" where
  "damage_items bs off =
     (case damage_iterator_next bs off of
        (None, _) \<Rightarrow> []
      | (Some b, bs') \<Rightarrow> b # damage_items bs' off)"
  by pat_completeness auto
termination
  by (relation "measure (length \<circ> fst)") (auto dest: damage_iterator_next_shorter [OF sym])

declare damage_items.simps [simp del]

lemma damage_items_filter:
  "damage_items bs off =
     map (\<lambda>b. \<lparr>ld_line = ld_line b + off, ld_left = ld_left b, ld_right = ld_right b\<rparr>) (filter is_damaged bs)"
  by (induction bs) (subst damage_items.simps, simp add: damage_items.simps)+

lemma damage_line_Some [panic_free]:
  "l < length (ds_lines d) \<Longrightarrow> damage_line l a b d =
     Some (d\<lparr>ds_lines := (ds_lines d)[l := expand a b (ds_lines d ! l)]\<rparr>)"
  by (simp add: damage_line_def panic_free)

lemma damage_line_ok:
  assumes "damage_ok n m d" "l < m"
  shows "\<exists>d'. damage_line l a b d = Some d' \<and> damage_ok n m d' \<and> ds_full d' = ds_full d \<and>
    ds_last_cursor d' = ds_last_cursor d"
  using assms by (auto simp: damage_ok_def damage_line_Some expand_def nth_list_update min_def)

lemma damage_new_ok: "damage_ok n m (damage_new n m)"
  by (simp add: damage_ok_def damage_new_def undamaged_def)

lemma damage_resize_ok: "damage_ok n m (damage_resize n m d)"
  by (simp add: damage_ok_def damage_resize_def undamaged_def)

lemma damage_reset_ok: "damage_ok n m d \<Longrightarrow> damage_ok n m (damage_reset n d)"
  by (simp add: damage_ok_def damage_reset_def bounds_reset_def undamaged_def)

lemma damage_full_ok [simp]: "damage_ok n m (d\<lparr>ds_full := b\<rparr>) = damage_ok n m d"
  by (simp add: damage_ok_def)

section \<open>Properties\<close>

text \<open>
  Damage never gets lost. Damaging columns of a line of the viewport never panics; the damage of
  that line becomes the smallest interval around its old bounds and the new columns, the other lines
  keep theirs, and after a reset nothing is damaged.
\<close>

lemma damage_line_covers:
  assumes ok: "damage_ok n m d" and l: "l < m"
  shows "\<exists>d'. damage_line l a b d = Some d' \<and> damage_ok n m d' \<and>
    (\<forall>i c. damaged d i c \<longrightarrow> damaged d' i c) \<and>
    (\<forall>c. damaged d' l c \<longleftrightarrow> ds_full d \<or>
       min a (ld_left (ds_lines d ! l)) \<le> c \<and> c \<le> max b (ld_right (ds_lines d ! l))) \<and>
    (\<forall>i c. i \<noteq> l \<longrightarrow> damaged d' i c = damaged d i c) \<and>
    (0 < n \<longrightarrow> (\<forall>i c. \<not> damaged (damage_reset n d') i c))"
proof -
  obtain d' where d': "damage_line l a b d = Some d'" "damage_ok n m d'"
    using damage_line_ok [OF ok l] by blast
  have len: "l < length (ds_lines d)" using ok l by (simp add: damage_ok_def)
  then have eq: "d' = d\<lparr>ds_lines := (ds_lines d)[l := expand a b (ds_lines d ! l)]\<rparr>"
    using d'(1) by (simp add: damage_line_Some)
  have "\<not> damaged (damage_reset n d') i c" if "0 < n" for i c
    using that by (auto simp: damaged_def damage_reset_def bounds_reset_def undamaged_def)
  moreover have "damaged d' i c" if "damaged d i c" for i c
    using that len unfolding eq by (cases "i = l") (auto simp: damaged_def expand_def)
  moreover have "damaged d' l c \<longleftrightarrow> ds_full d \<or>
      min a (ld_left (ds_lines d ! l)) \<le> c \<and> c \<le> max b (ld_right (ds_lines d ! l))" for c
    using len unfolding eq by (auto simp: damaged_def expand_def min_def max_def)
  moreover have "damaged d' i c = damaged d i c" if "i \<noteq> l" for i c
    using that unfolding eq by (auto simp: damaged_def)
  ultimately show ?thesis using d' by blast
qed

theorem damage_line_covers_witness:
  "\<exists>d'. damage_line 1 2 4 (damage_reset 5 (damage_new 5 3)) = Some d' \<and> damaged d' 1 3 \<and> \<not> damaged d' 1 1"
  using damage_line_covers [OF damage_reset_ok [OF damage_new_ok [of 5 3]], of 1 2 4]
  by (fastforce simp: damage_reset_def damage_new_def bounds_reset_def undamaged_def)

text \<open>
  A loop over the damage iterator sees exactly the damaged lines that are still inside the
  viewport when it is scrolled back by the display offset, each once, from top to bottom, at
  the place where the line is displayed and with its damaged columns.
\<close>

lemma damage_iterator_reports_visible:
  assumes ok: "damage_ok n m d"
  shows "damage_items (di_lines (damage_iterator_new (ds_lines d) off)) off =
      map (\<lambda>l. \<lparr>ld_line = l + off, ld_left = ld_left (ds_lines d ! l), ld_right = ld_right (ds_lines d ! l)\<rparr>)
        (filter (\<lambda>l. is_damaged (ds_lines d ! l)) [0..<m - off])"
proof -
  have len: "length (ds_lines d) = m" and line: "\<And>l. l < m \<Longrightarrow> ld_line (ds_lines d ! l) = l"
    using ok by (auto simp: damage_ok_def)
  have bs: "take (m - off) (ds_lines d) = map (\<lambda>l. ds_lines d ! l) [0..<m - off]"
    using len by (intro nth_equalityI) auto
  show ?thesis
    using len line by (auto simp: damage_items_filter damage_iterator_new_def bs filter_map comp_def)
qed

definition sample_damage :: damage_state where
  "sample_damage = (damage_new 5 3)\<lparr>ds_full := False, ds_lines := [undamaged 0 5, \<lparr>ld_line = 1, ld_left = 2, ld_right = 4\<rparr>,
     \<lparr>ld_line = 2, ld_left = 0, ld_right = 0\<rparr>]\<rparr>"

theorem damage_iterator_reports_visible_witness:
  "damage_ok 5 3 sample_damage \<and>
   damage_items (di_lines (damage_iterator_new (ds_lines sample_damage) 1)) 1 = [\<lparr>ld_line = 2, ld_left = 2, ld_right = 4\<rparr>]"
proof -
  have ok: "damage_ok 5 3 sample_damage"
    by (auto simp: damage_ok_def sample_damage_def undamaged_def less_Suc_eq numeral_3_eq_3)
  then show ?thesis
    using damage_iterator_reports_visible [OF ok, of 1]
    by (simp add: sample_damage_def is_damaged_def undamaged_def numeral_2_eq_2)
qed

end
