(* ===== verification/Program_Status.thy ===== *)
theory Program_Status
  imports Prelude "HOL-Library.Sublist"
begin

text \<open>
  The per-terminal program records of OSC 7501 (\<open>nebula_terminal/src/program_status.rs\<close>): a
  bounded queue of records, the oldest update first, addressed by hierarchical identifiers.
\<close>

section \<open>Data\<close>

datatype program_state = PS_Idle | PS_Working | PS_Done | PS_Blocked | PS_Error

datatype blocked_kind = Permission | Question | Auth

record program_record =
  pr_id :: string
  pr_state :: program_state
  pr_app :: "string option"
  pr_kind :: "blocked_kind option"
  pr_progress :: "nat option"
  pr_title :: "string option"
  pr_message :: "string option"
  pr_result_acknowledged :: bool

datatype report = Query | Clear string | Replace program_record

record records =
  rs_entries :: "program_record list"
  rs_seen :: bool

abbreviation MAX_RECORDS :: nat where "MAX_RECORDS \<equiv> 256"

definition default_records :: records where
  "default_records = \<lparr>rs_entries = [], rs_seen = False\<rparr>"

section \<open>Operations\<close>

text \<open>\<open>id.rsplit_once('/').map_or("", ...)\<close>: the parent of an identifier.\<close>

definition parent_id :: "string \<Rightarrow> string" where
  "parent_id i = rev (tl (dropWhile (\<lambda>c. c \<noteq> CHR ''/'') (rev i)))"

lemma length_parent_id:
  assumes "i \<noteq> []"
  shows "length (parent_id i) < length i"
proof -
  have "length (dropWhile (\<lambda>c. c \<noteq> CHR ''/'') (rev i)) \<le> length i"
    by (rule le_trans [OF length_dropWhile_le]) simp
  moreover have "0 < length i" using assms by simp
  ultimately show ?thesis unfolding parent_id_def length_rev length_tl by linarith
qed

function inherited_app :: "program_record list \<Rightarrow> string \<Rightarrow> string option" where
  "inherited_app entries i =
     (if i = [] then None
      else (let p = parent_id i in
            case Option.bind (List.find (\<lambda>e. pr_id e = p) entries) pr_app of
              Some app \<Rightarrow> Some app
            | None \<Rightarrow> inherited_app entries p))"
  by pat_completeness auto
termination
  by (relation "measure (length \<circ> snd)") (auto simp: length_parent_id)

definition app_for :: "records \<Rightarrow> program_record \<Rightarrow> string option" where
  "app_for rs r =
     (case pr_app r of Some app \<Rightarrow> Some app | None \<Rightarrow> inherited_app (rs_entries rs) (pr_id r))"

text \<open>\<open>entry.id\<close> is \<open>id\<close> or lies below it; the empty identifier is the root.\<close>

definition below :: "string \<Rightarrow> string \<Rightarrow> bool" where
  "below i j \<longleftrightarrow> i = [] \<or> j = i \<or> prefix (i @ ''/'') j"

definition records_apply :: "report \<Rightarrow> records \<Rightarrow> bool \<times> records" where
  "records_apply report rs =
     (case report of
        Query \<Rightarrow> (False, rs)
      | Clear i \<Rightarrow>
          (let first = \<not> rs_seen rs;
               kept = filter (\<lambda>e. \<not> below i (pr_id e)) (rs_entries rs)
           in (first \<or> length (rs_entries rs) \<noteq> length kept,
               rs\<lparr>rs_seen := True, rs_entries := kept\<rparr>))
      | Replace r \<Rightarrow>
          (let first = \<not> rs_seen rs; rs = rs\<lparr>rs_seen := True\<rparr>; entries = rs_entries rs in
           if entries \<noteq> [] \<and> last entries = r then (first, rs)
           else
             (let entries =
                    (if \<exists>e \<in> set entries. pr_id e = pr_id r
                     then (let i = length (takeWhile (\<lambda>e. pr_id e \<noteq> pr_id r) entries)
                           in take i entries @ drop (Suc i) entries)
                     else if length entries = MAX_RECORDS then tl entries
                     else entries)
              in (True, rs\<lparr>rs_entries := entries @ [r]\<rparr>))))"

definition is_result :: "program_record \<Rightarrow> bool" where
  "is_result e \<longleftrightarrow> pr_state e = PS_Done \<or> pr_state e = PS_Error"

definition command_ended :: "records \<Rightarrow> bool \<times> records" where
  "command_ended rs =
     (let kept = filter is_result (rs_entries rs)
      in (length (rs_entries rs) \<noteq> length kept, rs\<lparr>rs_entries := kept\<rparr>))"

definition acknowledge_results :: "records \<Rightarrow> bool \<times> records" where
  "acknowledge_results rs =
     (list_ex (\<lambda>e. is_result e \<and> \<not> pr_result_acknowledged e) (rs_entries rs),
      rs\<lparr>rs_entries := map (\<lambda>e. if is_result e \<and> \<not> pr_result_acknowledged e
                                then e\<lparr>pr_result_acknowledged := True\<rparr> else e) (rs_entries rs)\<rparr>)"

definition records_reset :: "records \<Rightarrow> bool \<times> records" where
  "records_reset rs = (rs_seen rs, default_records)"

section \<open>The invariant\<close>

definition records_ok :: "records \<Rightarrow> bool" where
  "records_ok rs \<longleftrightarrow> length (rs_entries rs) \<le> MAX_RECORDS \<and> distinct (map pr_id (rs_entries rs)) \<and>
     (rs_entries rs \<noteq> [] \<longrightarrow> rs_seen rs)"

lemma remove_first_filter:
  assumes "distinct (map f xs)" "\<exists>x \<in> set xs. f x = k"
  shows "(let i = length (takeWhile (\<lambda>x. f x \<noteq> k) xs) in take i xs @ drop (Suc i) xs) =
    filter (\<lambda>x. f x \<noteq> k) xs"
  using assms
proof (induction xs)
  case Nil
  then show ?case by simp
next
  case (Cons x xs)
  show ?case
  proof (cases "f x = k")
    case True
    then have "filter (\<lambda>x. f x \<noteq> k) xs = xs" using Cons.prems(1)
      by (auto simp: filter_id_conv image_iff)
    then show ?thesis using True by simp
  next
    case False
    then show ?thesis using Cons by (simp add: Let_def)
  qed
qed

text \<open>
  The queue after a replacement: the other records in order, without the oldest one when a
  new identifier meets a full queue, and the record last.
\<close>

definition replaced :: "program_record \<Rightarrow> program_record list \<Rightarrow> program_record list" where
  "replaced r es =
     (let others = filter (\<lambda>e. pr_id e \<noteq> pr_id r) es
      in (if length others = MAX_RECORDS then tl others else others) @ [r])"

lemma records_apply_Replace:
  assumes ok: "records_ok rs"
  shows "records_apply (Replace r) rs =
    (\<not> rs_seen rs \<or> rs_entries rs \<noteq> replaced r (rs_entries rs),
     rs\<lparr>rs_seen := True, rs_entries := replaced r (rs_entries rs)\<rparr>)"
proof -
  let ?es = "rs_entries rs" and ?other = "\<lambda>e. pr_id e \<noteq> pr_id r"
  have d: "distinct (map pr_id ?es)" and len: "length ?es \<le> MAX_RECORDS"
    using ok by (auto simp: records_ok_def)
  show ?thesis
  proof (cases "?es \<noteq> [] \<and> last ?es = r")
    case True
    then obtain xs where es: "?es = xs @ [r]" by (metis append_butlast_last_id)
    then have "\<forall>e \<in> set xs. ?other e" using d by (auto simp: image_iff)
    then have "filter ?other ?es = xs" using es by simp
    moreover have "length xs \<noteq> MAX_RECORDS" using len es by simp
    ultimately have "replaced r ?es = ?es" using es by (simp add: replaced_def)
    then show ?thesis using True by (cases rs) (simp add: records_apply_def Let_def)
  next
    case False
    have "replaced r ?es \<noteq> [] \<and> last (replaced r ?es) = r" by (simp add: replaced_def Let_def)
    then have "replaced r ?es \<noteq> ?es" using False by metis
    moreover have "records_apply (Replace r) rs =
        (True, rs\<lparr>rs_seen := True, rs_entries := replaced r ?es\<rparr>)"
    proof (cases "\<exists>e \<in> set ?es. pr_id e = pr_id r")
      case True
      then have "length (filter ?other ?es) < MAX_RECORDS"
        using len length_filter_less [of _ ?es ?other] by fastforce
      then show ?thesis
        using False True remove_first_filter [OF d True] by (auto simp: records_apply_def Let_def replaced_def)
    next
      case none: False
      then have "filter ?other ?es = ?es" by (auto simp: filter_id_conv)
      then show ?thesis using False none by (auto simp: records_apply_def Let_def replaced_def)
    qed
    ultimately show ?thesis by auto
  qed
qed

lemma replaced_ok:
  assumes "distinct (map pr_id es)" "length es \<le> MAX_RECORDS"
  shows "distinct (map pr_id (replaced r es)) \<and> length (replaced r es) \<le> MAX_RECORDS"
proof -
  let ?others = "filter (\<lambda>e. pr_id e \<noteq> pr_id r) es"
  have o: "distinct (map pr_id ?others)" "pr_id r \<notin> pr_id ` set ?others" "length ?others \<le> length es"
    using assms(1) distinct_map_filter by auto
  show ?thesis
  proof (cases "length ?others = MAX_RECORDS")
    case True
    then show ?thesis using o assms(2)
      by (cases ?others) (auto simp: replaced_def Let_def)
  next
    case False
    then have "length ?others < MAX_RECORDS" using o(3) assms(2) by linarith
    then show ?thesis using o(1,2) by (auto simp: replaced_def Let_def)
  qed
qed

lemma records_keep:
  assumes ok: "records_ok rs" and a: "records_apply report rs = (changed, rs')"
  shows "records_ok rs' \<and> (changed \<longleftrightarrow> rs' \<noteq> rs) \<and>
    (case report of
       Query \<Rightarrow> rs' = rs
     | Clear i \<Rightarrow> rs_entries rs' = filter (\<lambda>e. \<not> below i (pr_id e)) (rs_entries rs)
     | Replace r \<Rightarrow> rs_entries rs' = replaced r (rs_entries rs)) \<and>
    records_ok (snd (command_ended rs)) \<and> records_ok (snd (acknowledge_results rs)) \<and>
    records_ok (snd (records_reset rs))"
proof -
  have es: "length (rs_entries rs) \<le> MAX_RECORDS" "distinct (map pr_id (rs_entries rs))"
    using ok by (auto simp: records_ok_def)
  have keep: "records_ok (rs\<lparr>rs_entries := filter P (rs_entries rs)\<rparr>)" for P
    using ok distinct_map_filter [OF es(2), of P] le_trans [OF length_filter_le [of P "rs_entries rs"] es(1)]
    by (auto simp: records_ok_def)
  have "pr_id \<circ> (\<lambda>e. if is_result e \<and> \<not> pr_result_acknowledged e
      then e\<lparr>pr_result_acknowledged := True\<rparr> else e) = pr_id"
    by (auto simp: fun_eq_iff)
  then have ack: "records_ok (snd (acknowledge_results rs))"
    using ok by (simp add: acknowledge_results_def records_ok_def)
  have rest: "records_ok (snd (command_ended rs))" "records_ok (snd (records_reset rs))"
    using keep by (simp_all add: command_ended_def Let_def records_reset_def default_records_def records_ok_def)
  have main: "records_ok rs' \<and> (changed \<longleftrightarrow> rs' \<noteq> rs) \<and>
    (case report of
       Query \<Rightarrow> rs' = rs
     | Clear i \<Rightarrow> rs_entries rs' = filter (\<lambda>e. \<not> below i (pr_id e)) (rs_entries rs)
     | Replace r \<Rightarrow> rs_entries rs' = replaced r (rs_entries rs))"
  proof (cases report)
    case Query
    then show ?thesis using a ok by (auto simp: records_apply_def)
  next
    case (Clear i)
    define kept where "kept = filter (\<lambda>e. \<not> below i (pr_id e)) (rs_entries rs)"
    have "length (rs_entries rs) \<noteq> length kept" if ne: "kept \<noteq> rs_entries rs"
    proof -
      obtain e where "e \<in> set (rs_entries rs)" "below i (pr_id e)"
        using ne by (auto simp: kept_def filter_id_conv)
      then show ?thesis
        using length_filter_less [of e "rs_entries rs" "\<lambda>e. \<not> below i (pr_id e)"] by (simp add: kept_def)
    qed
    moreover have "changed = (\<not> rs_seen rs \<or> length (rs_entries rs) \<noteq> length kept)"
      "rs' = rs\<lparr>rs_seen := True, rs_entries := kept\<rparr>"
      using Clear a by (auto simp: records_apply_def Let_def kept_def)
    moreover have "rs\<lparr>rs_seen := True, rs_entries := kept\<rparr> = rs \<longleftrightarrow> rs_seen rs \<and> kept = rs_entries rs"
      by (cases rs) auto
    moreover have "records_ok (rs\<lparr>rs_seen := True, rs_entries := kept\<rparr>)"
      using keep [of "\<lambda>e. \<not> below i (pr_id e)"] by (simp add: kept_def records_ok_def)
    ultimately show ?thesis using Clear by (auto simp: kept_def [symmetric])
  next
    case (Replace r)
    then show ?thesis using a replaced_ok [OF es(2,1), of r] records_apply_Replace [OF ok, of r]
      by (cases rs) (auto simp: records_ok_def)
  qed
  with ack rest show ?thesis by simp
qed

section \<open>Properties\<close>

text \<open>
  The record queue stays bounded by 256 entries with distinct identifiers under every
  operation. A replacement puts its record last, keeps the other records in order and drops
  the oldest one only for a new identifier in a full queue; clearing removes exactly the
  records at or below the identifier; and a change is announced exactly when the records
  changed.
\<close>

lemma records_apply_bounded:
  assumes ok: "records_ok rs" and a: "records_apply report rs = (changed, rs')"
  shows "records_ok rs' \<and> (changed \<longleftrightarrow> rs' \<noteq> rs) \<and>
    (case report of
       Query \<Rightarrow> rs' = rs
     | Clear i \<Rightarrow> rs_entries rs' = filter (\<lambda>e. \<not> below i (pr_id e)) (rs_entries rs)
     | Replace r \<Rightarrow> rs_entries rs' = replaced r (rs_entries rs)) \<and>
    records_ok (snd (command_ended rs)) \<and> records_ok (snd (acknowledge_results rs)) \<and>
    records_ok (snd (records_reset rs))"
  by (rule records_keep [OF assms])

theorem records_apply_bounded_witness:
  "records_ok (snd (records_apply (Clear ''a'') default_records)) \<and>
   fst (records_apply (Clear ''a'') default_records)"
proof -
  have "records_ok default_records" by (simp add: records_ok_def default_records_def)
  from records_apply_bounded [OF this, of "Clear ''a''"]
  show ?thesis by (auto simp: records_apply_def default_records_def Let_def)
qed

end
