(* ===== verification/Term_State.thy ===== *)
theory Term_State
  imports Selection Damage Program_Status
begin

text \<open>
  The state of a terminal (\<open>nebula_terminal/src/term/mod.rs\<close>): its mode bits, tab stops, keyboard
  mode stacks, configuration, the events it sends and the record of everything a \<open>Term\<close> owns, with
  the helpers that touch only that state (\<open>keyboard.rs\<close>, \<open>program_status.rs\<close>, \<open>title.rs\<close>,
  \<open>reading.rs\<close>).

  The enumerations of the escape-sequence parser (keyboard modes, cursor styles) come from a
  library; a bit-flag set of it is a set of its named flags. The event proxy is the list of the
  events sent so far.
\<close>

section \<open>Mode bits\<close>

type_synonym term_mode = "32 word"

abbreviation SHOW_CURSOR :: term_mode where "SHOW_CURSOR \<equiv> 0x1"
abbreviation APP_CURSOR :: term_mode where "APP_CURSOR \<equiv> 0x2"
abbreviation APP_KEYPAD :: term_mode where "APP_KEYPAD \<equiv> 0x4"
abbreviation MOUSE_REPORT_CLICK :: term_mode where "MOUSE_REPORT_CLICK \<equiv> 0x8"
abbreviation BRACKETED_PASTE :: term_mode where "BRACKETED_PASTE \<equiv> 0x10"
abbreviation SGR_MOUSE :: term_mode where "SGR_MOUSE \<equiv> 0x20"
abbreviation MOUSE_MOTION :: term_mode where "MOUSE_MOTION \<equiv> 0x40"
abbreviation LINE_WRAP :: term_mode where "LINE_WRAP \<equiv> 0x80"
abbreviation LINE_FEED_NEW_LINE :: term_mode where "LINE_FEED_NEW_LINE \<equiv> 0x100"
abbreviation ORIGIN :: term_mode where "ORIGIN \<equiv> 0x200"
abbreviation INSERT :: term_mode where "INSERT \<equiv> 0x400"
abbreviation FOCUS_IN_OUT :: term_mode where "FOCUS_IN_OUT \<equiv> 0x800"
abbreviation ALT_SCREEN :: term_mode where "ALT_SCREEN \<equiv> 0x1000"
abbreviation MOUSE_DRAG :: term_mode where "MOUSE_DRAG \<equiv> 0x2000"
abbreviation UTF8_MOUSE :: term_mode where "UTF8_MOUSE \<equiv> 0x4000"
abbreviation ALTERNATE_SCROLL :: term_mode where "ALTERNATE_SCROLL \<equiv> 0x8000"
abbreviation VI :: term_mode where "VI \<equiv> 0x10000"
abbreviation URGENCY_HINTS :: term_mode where "URGENCY_HINTS \<equiv> 0x20000"
abbreviation DISAMBIGUATE_ESC_CODES :: term_mode where "DISAMBIGUATE_ESC_CODES \<equiv> 0x40000"
abbreviation REPORT_EVENT_TYPES :: term_mode where "REPORT_EVENT_TYPES \<equiv> 0x80000"
abbreviation REPORT_ALTERNATE_KEYS :: term_mode where "REPORT_ALTERNATE_KEYS \<equiv> 0x100000"
abbreviation REPORT_ALL_KEYS_AS_ESC :: term_mode where "REPORT_ALL_KEYS_AS_ESC \<equiv> 0x200000"
abbreviation REPORT_ASSOCIATED_TEXT :: term_mode where "REPORT_ASSOCIATED_TEXT \<equiv> 0x400000"
abbreviation WIN32_INPUT_MODE :: term_mode where "WIN32_INPUT_MODE \<equiv> 0x800000"
abbreviation COLOR_SCHEME_UPDATES :: term_mode where "COLOR_SCHEME_UPDATES \<equiv> 0x1000000"

definition MOUSE_MODE :: term_mode where
  "MOUSE_MODE = MOUSE_REPORT_CLICK OR MOUSE_MOTION OR MOUSE_DRAG"

definition KITTY_KEYBOARD_PROTOCOL :: term_mode where
  "KITTY_KEYBOARD_PROTOCOL = DISAMBIGUATE_ESC_CODES OR REPORT_EVENT_TYPES OR REPORT_ALTERNATE_KEYS OR
     REPORT_ALL_KEYS_AS_ESC OR REPORT_ASSOCIATED_TEXT"

definition default_mode :: term_mode where
  "default_mode = SHOW_CURSOR OR LINE_WRAP OR ALTERNATE_SCROLL OR URGENCY_HINTS"

definition mode_contains :: "term_mode \<Rightarrow> term_mode \<Rightarrow> bool" where
  "mode_contains m f \<longleftrightarrow> m AND f = f"

definition mode_intersects :: "term_mode \<Rightarrow> term_mode \<Rightarrow> bool" where
  "mode_intersects m f \<longleftrightarrow> m AND f \<noteq> 0"

definition mode_insert :: "term_mode \<Rightarrow> term_mode \<Rightarrow> term_mode" where
  "mode_insert f m = m OR f"

definition mode_remove :: "term_mode \<Rightarrow> term_mode \<Rightarrow> term_mode" where
  "mode_remove f m = m AND NOT f"

section \<open>Keyboard modes\<close>

datatype keyboard_flag = K_Disambiguate | K_Event_Types | K_Alternate_Keys | K_All_Keys | K_Associated_Text

type_synonym keyboard_modes = "keyboard_flag set"

datatype apply_behavior = Apply_Replace | Apply_Union | Apply_Difference

definition KEYBOARD_FLAGS :: "(keyboard_flag \<times> term_mode) list" where
  "KEYBOARD_FLAGS =
     [(K_Disambiguate, DISAMBIGUATE_ESC_CODES), (K_Event_Types, REPORT_EVENT_TYPES),
      (K_Alternate_Keys, REPORT_ALTERNATE_KEYS), (K_All_Keys, REPORT_ALL_KEYS_AS_ESC),
      (K_Associated_Text, REPORT_ASSOCIATED_TEXT)]"

definition mode_of_keyboard :: "keyboard_modes \<Rightarrow> term_mode" where
  "mode_of_keyboard v =
     fold (\<lambda>(k, f) m. if k \<in> v then mode_insert f m else mode_remove f m) KEYBOARD_FLAGS 0"

definition keyboard_of_mode :: "term_mode \<Rightarrow> keyboard_modes" where
  "keyboard_of_mode v =
     fold (\<lambda>(k, f) m. if mode_contains v f then insert k m else m - {k}) KEYBOARD_FLAGS {}"

section \<open>Tab stops\<close>

abbreviation INITIAL_TABSTOPS :: nat where "INITIAL_TABSTOPS \<equiv> 8"

definition tabs_new :: "nat \<Rightarrow> bool list" where
  "tabs_new cols = map (\<lambda>i. i mod INITIAL_TABSTOPS = 0) [0..<cols]"

definition tabs_clear_all :: "bool list \<Rightarrow> bool list" where
  "tabs_clear_all ts = replicate (length ts) False"

definition tabs_resize :: "nat \<Rightarrow> bool list \<Rightarrow> bool list" where
  "tabs_resize cols ts = take cols ts @ map (\<lambda>i. i mod INITIAL_TABSTOPS = 0) [length ts..<cols]"

section \<open>Reports\<close>

text \<open>Decimal digits, as \<open>format!\<close> prints an unsigned number.\<close>

fun decimal :: "nat \<Rightarrow> string" where
  "decimal n = (if n < 10 then [char_of (48 + n)] else decimal (n div 10) @ [char_of (48 + n mod 10)])"

declare decimal.simps [simp del]

abbreviation ESC :: char where "ESC \<equiv> CHR 0x1B"

datatype mode_state = NotSupported | Mode_Set | Mode_Reset

primrec mode_state_number :: "mode_state \<Rightarrow> nat" where
  "mode_state_number NotSupported = 0"
| "mode_state_number Mode_Set = 1"
| "mode_state_number Mode_Reset = 2"

definition mode_state_of :: "bool \<Rightarrow> mode_state" where
  "mode_state_of b = (if b then Mode_Set else Mode_Reset)"

text \<open>
  The version number of a dotted version string. \<open>parse::<usize>\<close> accepts a non-empty string of
  digits (an optional \<open>+\<close> in front) whose value fits.
\<close>

fun split_on :: "char \<Rightarrow> string \<Rightarrow> string list" where
  "split_on d [] = [[]]"
| "split_on d (c # cs) =
     (if c = d then [] # split_on d cs
      else (case split_on d cs of [] \<Rightarrow> [[c]] | w # ws \<Rightarrow> (c # w) # ws))"

definition is_digit :: "char \<Rightarrow> bool" where
  "is_digit c \<longleftrightarrow> 48 \<le> (of_char c :: nat) \<and> (of_char c :: nat) \<le> 57"

definition parse_usize :: "string \<Rightarrow> nat option" where
  "parse_usize s =
     (let digits = (case s of CHR ''+'' # t \<Rightarrow> t | _ \<Rightarrow> s);
          value = foldl (\<lambda>n c. 10 * n + (of_char c - 48)) 0 digits in
      if digits = [] \<or> \<not> list_all is_digit digits \<or> 2 ^ 64 \<le> value then None else Some value)"

definition before_last :: "char \<Rightarrow> string \<Rightarrow> string" where
  "before_last d s = (case rposition (\<lambda>c. c = d) s of None \<Rightarrow> s | Some i \<Rightarrow> take i s)"

definition version_number :: "string \<Rightarrow> nat" where
  "version_number version =
     foldl (\<lambda>total (i, part). total + 100 ^ i * (case parse_usize part of None \<Rightarrow> 0 | Some n \<Rightarrow> n)) 0
       (List.enumerate 0 (rev (split_on CHR ''.'' (before_last CHR ''-'' version))))"

section \<open>Configuration and events\<close>

record cursor_style =
  cs_shape :: cursor_shape
  cs_blinking :: bool

datatype osc52 = Disabled | OnlyCopy | OnlyPaste | CopyPaste

record config =
  scrolling_history :: nat
  default_cursor_style :: cursor_style
  vi_mode_cursor_style :: "cursor_style option"
  semantic_escape_chars :: "uchar list"
  kitty_keyboard :: bool
  cfg_osc52 :: osc52
  suppress_bringup_da1 :: bool
  conpty_resize :: bool

datatype clipboard_type = Clipboard | Primary_Selection

type_synonym rgb = "8 word \<times> 8 word \<times> 8 word"

text \<open>
  The events the terminal itself sends. Where the source sends a closure that formats the reply,
  the event carries the data the closure captured.
\<close>

datatype event =
    MouseCursorDirty
  | Title string
  | ResetTitle
  | ProgramStatusChanged
  | ClipboardStore clipboard_type string
  | ClipboardLoad clipboard_type "8 word" string
  | ColorRequest string nat string
  | PtyWrite string
  | TextAreaSizeRequest
  | CursorBlinkingChange
  | Bell
  | Exit

section \<open>Reading state\<close>

record reading_point =
  rp_line :: nat
  rp_column :: nat

record reading_span =
  rs_epoch :: nat
  rs_start :: reading_point
  rs_end :: reading_point

record completed_command =
  cc_id :: nat
  cc_command :: "uchar list"
  cc_exit_code :: "int option"
  cc_output :: reading_span

record zero_run =
  zr_cell :: nat
  zr_start :: nat
  zr_len :: nat

record tail_guard =
  tg_span :: reading_span
  tg_columns :: nat
  tg_codes :: "32 word list"
  tg_zero_runs :: "zero_run list"
  tg_zero_chars :: "uchar list"
  tg_leading_break :: "bool option"

record command_record =
  cr_command :: completed_command
  cr_guard :: tail_guard
  cr_cost :: nat

datatype execution = Idle | Prompt | Input reading_point | Output reading_point "uchar list"

record reading_state =
  rd_prompt_marks :: "nat list"
  rd_prompt_active :: bool
  rd_prompt_input :: "(nat \<times> nat) option"
  rd_epoch :: nat
  rd_next_id :: nat
  rd_execution :: execution
  rd_commands :: "command_record list"
  rd_metadata :: nat

definition default_reading :: reading_state where
  "default_reading = \<lparr>rd_prompt_marks = [], rd_prompt_active = False, rd_prompt_input = None, rd_epoch = 0,
     rd_next_id = 0, rd_execution = Idle, rd_commands = [], rd_metadata = 0\<rparr>"

text \<open>\<open>checked_add(1).expect(..)\<close> on \<open>u64\<close>.\<close>

definition u64_increment :: "nat \<Rightarrow> nat option" where
  "u64_increment n = (if n + 1 < 2 ^ 64 then Some (n + 1) else None)"

definition reading_invalidate :: "reading_state \<Rightarrow> reading_state option" where
  "reading_invalidate r = do {
     e \<leftarrow> u64_increment (rd_epoch r);
     Some (r\<lparr>rd_epoch := e, rd_execution := Idle, rd_commands := [], rd_metadata := 0\<rparr>)
   }"

section \<open>The terminal\<close>

record redraw_anchor =
  ra_enabled :: bool
  ra_active :: bool
  ra_rows :: "uchar list list option"
  ra_cleared_viewport :: bool
  ra_cleared_history :: bool

definition default_redraw_anchor :: redraw_anchor where
  "default_redraw_anchor = \<lparr>ra_enabled = False, ra_active = False, ra_rows = None,
     ra_cleared_viewport = False, ra_cleared_history = False\<rparr>"

text \<open>
  The streaming state of an emoji cluster. The grapheme cursor of the segmentation library is the
  sequence of calls made on it, which determines what it answers next.
\<close>

datatype segment_call = Next_Boundary "uchar list" nat | Provide_Context "uchar list" nat

record emoji_input =
  ei_segmenter :: "segment_call list"
  ei_bytes :: nat
  ei_context :: "uchar list"
  ei_last :: uchar
  ei_graphic :: uchar
  ei_joined :: bool

record trm =
  t_redraw_anchor :: redraw_anchor
  t_input_cluster :: "emoji_input option"
  t_input_end :: "(point \<times> bool) option"
  t_vi_cursor :: point
  t_selection :: "selection option"
  t_grid :: grid
  t_inactive_grid :: grid
  t_active_charset :: charset_index
  t_tabs :: "bool list"
  t_mode :: term_mode
  t_scroll_region :: line_region
  t_colors :: "rgb option list"
  t_cursor_style :: "cursor_style option"
  t_cursor_blinking_override :: "bool option"
  t_title :: "string option"
  t_title_stack :: "string option list"
  t_keyboard_stack :: "keyboard_modes list"
  t_inactive_keyboard_stack :: "keyboard_modes list"
  t_damage :: damage_state
  t_reading :: reading_state
  t_program_statuses :: records
  t_presentation_origin :: "int option"
  t_presentation_scroll_generation :: "64 word"
  t_bringup_da1_pending :: bool
  t_color_scheme_dark :: bool
  t_config :: config
  t_events :: "event list"

abbreviation t_dims :: "trm \<Rightarrow> dims" where
  "t_dims t \<equiv> grid_dims (t_grid t)"

abbreviation t_columns :: "trm \<Rightarrow> nat" where
  "t_columns t \<equiv> g_columns (t_grid t)"

abbreviation t_lines :: "trm \<Rightarrow> nat" where
  "t_lines t \<equiv> g_lines (t_grid t)"

abbreviation t_cursor :: "trm \<Rightarrow> cursor" where
  "t_cursor t \<equiv> g_cursor (t_grid t)"

abbreviation t_point :: "trm \<Rightarrow> point" where
  "t_point t \<equiv> cur_point (t_cursor t)"

abbreviation has_mode :: "trm \<Rightarrow> term_mode \<Rightarrow> bool" where
  "has_mode t f \<equiv> mode_contains (t_mode t) f"

definition COLOR_COUNT :: nat where "COLOR_COUNT = 269"

definition KEYBOARD_MODE_STACK_MAX_DEPTH :: nat where "KEYBOARD_MODE_STACK_MAX_DEPTH = 4096"

definition TITLE_STACK_MAX_DEPTH :: nat where "TITLE_STACK_MAX_DEPTH = 4096"

definition term_new :: "config \<Rightarrow> nat \<Rightarrow> nat \<Rightarrow> trm option" where
  "term_new cfg num_cols num_lines = do {
     grid \<leftarrow> new_for_terminal num_lines num_cols (scrolling_history cfg);
     inactive_grid \<leftarrow> new_for_terminal num_lines num_cols 0;
     let grid = set_reflow_on_grow True grid;
     let inactive_grid = set_reflow_on_grow True inactive_grid;
     Some \<lparr>t_redraw_anchor = default_redraw_anchor, t_input_cluster = None, t_input_end = None,
       t_vi_cursor = Point 0 0, t_selection = None, t_grid = grid, t_inactive_grid = inactive_grid,
       t_active_charset = G0, t_tabs = tabs_new (g_columns grid), t_mode = default_mode,
       t_scroll_region = (0, int (g_lines grid)), t_colors = replicate COLOR_COUNT None,
       t_cursor_style = None, t_cursor_blinking_override = None, t_title = None, t_title_stack = [],
       t_keyboard_stack = [], t_inactive_keyboard_stack = [],
       t_damage = damage_new num_cols num_lines, t_reading = default_reading,
       t_program_statuses = default_records, t_presentation_origin = None,
       t_presentation_scroll_generation = 0, t_bringup_da1_pending = suppress_bringup_da1 cfg,
       t_color_scheme_dark = True, t_config = cfg, t_events = []\<rparr>
   }"

text \<open>Small accessors the handlers share.\<close>

definition send_event :: "event \<Rightarrow> trm \<Rightarrow> trm" where
  "send_event e t = t\<lparr>t_events := t_events t @ [e]\<rparr>"

definition mark_fully_damaged :: "trm \<Rightarrow> trm" where
  "mark_fully_damaged t = t\<lparr>t_damage := (t_damage t)\<lparr>ds_full := True\<rparr>\<rparr>"

definition reset_input_cluster :: "trm \<Rightarrow> trm" where
  "reset_input_cluster t = t\<lparr>t_input_cluster := None, t_input_end := None\<rparr>"

definition cancel_redraw_anchor :: "trm \<Rightarrow> trm" where
  "cancel_redraw_anchor t = t\<lparr>t_redraw_anchor := (t_redraw_anchor t)\<lparr>ra_rows := None\<rparr>\<rparr>"

definition set_redraw_anchor_enabled :: "bool \<Rightarrow> trm \<Rightarrow> trm" where
  "set_redraw_anchor_enabled enabled t =
     (if ra_enabled (t_redraw_anchor t) \<noteq> enabled
      then let t = cancel_redraw_anchor t in t\<lparr>t_redraw_anchor := (t_redraw_anchor t)\<lparr>ra_enabled := enabled\<rparr>\<rparr>
      else t)"

definition insert_mode :: "term_mode \<Rightarrow> trm \<Rightarrow> trm" where
  "insert_mode f t = t\<lparr>t_mode := mode_insert f (t_mode t)\<rparr>"

definition remove_mode :: "term_mode \<Rightarrow> trm \<Rightarrow> trm" where
  "remove_mode f t = t\<lparr>t_mode := mode_remove f (t_mode t)\<rparr>"

definition damage_cursor :: "trm \<Rightarrow> trm option" where
  "damage_cursor t = do {
     d \<leftarrow> damage_point (Viewport_Point (line_as_usize (line (t_point t))) (column (t_point t))) (t_damage t);
     Some (t\<lparr>t_damage := d\<rparr>)
   }"

definition term_damage_line :: "nat \<Rightarrow> nat \<Rightarrow> nat \<Rightarrow> trm \<Rightarrow> trm option" where
  "term_damage_line l a b t = do {
     d \<leftarrow> damage_line l a b (t_damage t);
     Some (t\<lparr>t_damage := d\<rparr>)
   }"

definition reset_damage :: "trm \<Rightarrow> trm" where
  "reset_damage t = t\<lparr>t_damage := damage_reset (t_columns t) (t_damage t)\<rparr>"

datatype term_damage = Full_Damage | Partial_Damage damage_iterator

definition term_damage :: "trm \<Rightarrow> (term_damage \<times> trm) option" where
  "term_damage t = do {
     let t = (if has_mode t INSERT then mark_fully_damaged t else t);
     let previous_cursor = ds_last_cursor (t_damage t);
     let t = t\<lparr>t_damage := (t_damage t)\<lparr>ds_last_cursor := t_point t\<rparr>\<rparr>;
     if ds_full (t_damage t) then Some (Full_Damage, t)
     else do {
       t \<leftarrow> (if ds_last_cursor (t_damage t) \<noteq> previous_cursor
            then do {
              d \<leftarrow> damage_point (Viewport_Point (line_as_usize (line previous_cursor)) (column previous_cursor)) (t_damage t);
              Some (t\<lparr>t_damage := d\<rparr>)
            }
            else Some t);
       t \<leftarrow> damage_cursor t;
       Some (Partial_Damage (damage_iterator_new (ds_lines (t_damage t)) (g_display_offset (t_grid t))), t)
     }
   }"

section \<open>Keyboard mode handlers\<close>

definition set_keyboard_mode :: "term_mode \<Rightarrow> apply_behavior \<Rightarrow> trm \<Rightarrow> trm" where
  "set_keyboard_mode mode apply t =
     (let active_mode = t_mode t AND KITTY_KEYBOARD_PROTOCOL;
          rest = t_mode t AND NOT KITTY_KEYBOARD_PROTOCOL;
          new_mode = (case apply of
              Apply_Replace \<Rightarrow> mode
            | Apply_Union \<Rightarrow> active_mode OR mode
            | Apply_Difference \<Rightarrow> active_mode AND NOT mode) in
      t\<lparr>t_mode := rest OR new_mode\<rparr>)"

definition last_keyboard_mode :: "keyboard_modes list \<Rightarrow> keyboard_modes" where
  "last_keyboard_mode stack = (if stack = [] then {} else last stack)"

definition report_keyboard_mode :: "(keyboard_modes \<Rightarrow> nat) \<Rightarrow> trm \<Rightarrow> trm" where
  "report_keyboard_mode bits t =
     (if \<not> kitty_keyboard (t_config t) then t
      else send_event (PtyWrite ([ESC] @ ''[?'' @ decimal (bits (keyboard_of_mode (t_mode t))) @ ''u'')) t)"

definition push_keyboard_mode :: "keyboard_modes \<Rightarrow> trm \<Rightarrow> trm" where
  "push_keyboard_mode mode t =
     (if \<not> kitty_keyboard (t_config t) then t
      else
        (let stack = (if length (t_keyboard_stack t) \<ge> KEYBOARD_MODE_STACK_MAX_DEPTH
                      then tl (t_keyboard_stack t) else t_keyboard_stack t) in
         set_keyboard_mode (mode_of_keyboard mode) Apply_Replace
           (t\<lparr>t_keyboard_stack := stack @ [mode]\<rparr>)))"

definition pop_keyboard_modes :: "nat \<Rightarrow> trm \<Rightarrow> trm" where
  "pop_keyboard_modes to_pop t =
     (if \<not> kitty_keyboard (t_config t) then t
      else
        (let stack = take (length (t_keyboard_stack t) - to_pop) (t_keyboard_stack t) in
         set_keyboard_mode (mode_of_keyboard (last_keyboard_mode stack)) Apply_Replace
           (t\<lparr>t_keyboard_stack := stack\<rparr>)))"

definition handle_set_keyboard_mode :: "keyboard_modes \<Rightarrow> apply_behavior \<Rightarrow> trm \<Rightarrow> trm" where
  "handle_set_keyboard_mode mode apply t =
     (if \<not> kitty_keyboard (t_config t) then t
      else
        (let t = set_keyboard_mode (mode_of_keyboard mode) apply t;
             active = keyboard_of_mode (t_mode t) in
         t\<lparr>t_keyboard_stack :=
             (if t_keyboard_stack t = [] then [active] else butlast (t_keyboard_stack t) @ [active])\<rparr>))"

section \<open>Program status and titles\<close>

definition FEATURE_REPLY :: string where
  "FEATURE_REPLY = [ESC] @
     '']7501;?:states=idle,working,done,blocked,error:kinds=permission,question,auth'' @ [ESC, CHR 0x5C]"

definition report_program_status :: "report \<Rightarrow> trm \<Rightarrow> trm" where
  "report_program_status r t =
     (if r = Query then send_event (PtyWrite FEATURE_REPLY) t
      else
        (let (changed, recs) = records_apply r (t_program_statuses t);
             t = t\<lparr>t_program_statuses := recs\<rparr> in
         if changed then send_event ProgramStatusChanged t else t))"

definition end_program_status_activity :: "trm \<Rightarrow> trm" where
  "end_program_status_activity t =
     (let (changed, recs) = command_ended (t_program_statuses t);
          t = t\<lparr>t_program_statuses := recs\<rparr> in
      if changed then send_event ProgramStatusChanged t else t)"

definition acknowledge_program_status_results :: "trm \<Rightarrow> bool \<times> trm" where
  "acknowledge_program_status_results t =
     (let (changed, recs) = acknowledge_results (t_program_statuses t);
          t = t\<lparr>t_program_statuses := recs\<rparr> in
      (changed, if changed then send_event ProgramStatusChanged t else t))"

definition reset_program_status :: "trm \<Rightarrow> trm" where
  "reset_program_status t =
     (let (changed, recs) = records_reset (t_program_statuses t);
          t = t\<lparr>t_program_statuses := recs\<rparr> in
      if changed then send_event ProgramStatusChanged t else t)"

definition term_exit :: "trm \<Rightarrow> trm" where
  "term_exit t = send_event Exit (end_program_status_activity t)"

definition with_program_status_preserved :: "(trm \<Rightarrow> trm option) \<Rightarrow> trm \<Rightarrow> trm option" where
  "with_program_status_preserved operation t = do {
     let records = t_program_statuses t;
     t \<leftarrow> operation (t\<lparr>t_program_statuses := default_records\<rparr>);
     Some (t\<lparr>t_program_statuses := records\<rparr>)
   }"

definition save_title :: "trm \<Rightarrow> trm" where
  "save_title t =
     (let stack = (if length (t_title_stack t) \<ge> TITLE_STACK_MAX_DEPTH then tl (t_title_stack t)
                   else t_title_stack t) in
      t\<lparr>t_title_stack := stack @ [t_title t]\<rparr>)"

end
