(* ===== verification/Term_Ops.thy ===== *)
theory Term_Ops
  imports Term_State
begin

text \<open>
  The operations of a terminal that its escape-sequence handlers are built from
  (\<open>nebula_terminal/src/term/mod.rs\<close>, \<open>input.rs\<close>, \<open>clear.rs\<close>, \<open>redraw_anchor.rs\<close>): scrolling, display
  scrolling, writing a cell, wrapping, and the input of characters with the streaming of emoji
  clusters.

  The Unicode tables are libraries: the width and the emoji property of a character, the width
  of a string, the mapping of a character set, and the answers of the grapheme segmenter are the
  fields of a record the operations take as an argument.
\<close>

section \<open>Library functions\<close>

datatype boundary_answer = Next_Chunk | Pre_Context nat | Found_Boundary | No_Boundary

record unicode =
  u_width :: "uchar \<Rightarrow> nat option"
  u_is_emoji :: "uchar \<Rightarrow> bool"
  u_str_width :: "uchar list \<Rightarrow> nat"
  u_charset_map :: "standard_charset \<Rightarrow> uchar \<Rightarrow> uchar"
  u_boundary :: "segment_call list \<Rightarrow> boundary_answer"

section \<open>Access to grid and cursor\<close>

definition with_grid :: "(grid \<Rightarrow> grid option) \<Rightarrow> trm \<Rightarrow> trm option" where
  "with_grid f t = do {
     g \<leftarrow> f (t_grid t);
     Some (t\<lparr>t_grid := g\<rparr>)
   }"

definition with_cursor :: "(cursor \<Rightarrow> cursor) \<Rightarrow> trm \<Rightarrow> trm" where
  "with_cursor f t = t\<lparr>t_grid := (t_grid t)\<lparr>g_cursor := f (t_cursor t)\<rparr>\<rparr>"

definition set_point :: "point \<Rightarrow> trm \<Rightarrow> trm" where
  "set_point p = with_cursor (\<lambda>c. c\<lparr>cur_point := p\<rparr>)"

definition set_column :: "nat \<Rightarrow> trm \<Rightarrow> trm" where
  "set_column col t = set_point (Point (line (t_point t)) col) t"

definition set_line :: "int \<Rightarrow> trm \<Rightarrow> trm" where
  "set_line l t = set_point (Point l (column (t_point t))) t"

definition set_needs_wrap :: "bool \<Rightarrow> trm \<Rightarrow> trm" where
  "set_needs_wrap b = with_cursor (\<lambda>c. c\<lparr>cur_input_needs_wrap := b\<rparr>)"

definition with_template :: "(cell \<Rightarrow> cell) \<Rightarrow> trm \<Rightarrow> trm" where
  "with_template f = with_cursor (\<lambda>c. c\<lparr>cur_template := f (cur_template c)\<rparr>)"

definition insert_flag :: "flags \<Rightarrow> cell \<Rightarrow> cell" where
  "insert_flag f c = c\<lparr>cell_flags := flags_insert f (cell_flags c)\<rparr>"

definition remove_flag :: "flags \<Rightarrow> cell \<Rightarrow> cell" where
  "remove_flag f c = c\<lparr>cell_flags := flags_remove f (cell_flags c)\<rparr>"

text \<open>Work on the cells of one row through the mutable slice \<open>&mut self.grid[line][..]\<close>.\<close>

definition with_cells :: "(cell list \<Rightarrow> cell list option) \<Rightarrow> int \<Rightarrow> trm \<Rightarrow> trm option" where
  "with_cells f l t = do {
     r \<leftarrow> grid_index_line l (t_grid t);
     cs \<leftarrow> f (row_inner r);
     with_grid (grid_index_line_mut (row_range_full_mut (\<lambda>_. cs)) l) t
   }"

definition swap_cells :: "nat \<Rightarrow> nat \<Rightarrow> cell list \<Rightarrow> cell list option" where
  "swap_cells a b cs = do {
     x \<leftarrow> vec_get cs a;
     y \<leftarrow> vec_get cs b;
     Some (cs[a := y, b := x])
   }"

definition fill_cells :: "nat \<Rightarrow> nat \<Rightarrow> cell \<Rightarrow> cell list \<Rightarrow> cell list option" where
  "fill_cells a b x cs = do {
     assert_that (a \<le> b \<and> b \<le> length cs);
     Some (take a cs @ replicate (b - a) x @ drop b cs)
   }"

section \<open>Display scrolling and the vi cursor\<close>

definition vi_mode_recompute_selection :: "trm \<Rightarrow> trm" where
  "vi_mode_recompute_selection t =
     (if \<not> has_mode t VI then t
      else (case t_selection t of
              None \<Rightarrow> t
            | Some s \<Rightarrow>
                if selection_is_empty s then t
                else t\<lparr>t_selection := Some (include_all (selection_update (t_vi_cursor t) Left s))\<rparr>))"

definition term_scroll_display :: "scroll \<Rightarrow> trm \<Rightarrow> trm option" where
  "term_scroll_display scroll t = do {
     let t = t\<lparr>t_presentation_origin := None\<rparr>;
     let t = (if \<not> has_mode t ALT_SCREEN
              then t\<lparr>t_presentation_scroll_generation := t_presentation_scroll_generation t + 1\<rparr> else t);
     let t = cancel_redraw_anchor t;
     let old_display_offset = g_display_offset (t_grid t);
     t \<leftarrow> with_grid (scroll_display scroll) t;
     let t = send_event MouseCursorDirty t;
     let viewport_start = - int (g_display_offset (t_grid t));
     let viewport_end = viewport_start + bottommost_line (t_dims t);
     let t = t\<lparr>t_vi_cursor := Point (min viewport_end (max viewport_start (line (t_vi_cursor t))))
                                   (column (t_vi_cursor t))\<rparr>;
     let t = vi_mode_recompute_selection t;
     Some (if old_display_offset \<noteq> g_display_offset (t_grid t) then mark_fully_damaged t else t)
   }"

definition toggle_vi_mode :: "trm \<Rightarrow> trm" where
  "toggle_vi_mode t =
     (let t = t\<lparr>t_mode := t_mode t XOR VI\<rparr>;
          off = int (g_display_offset (t_grid t));
          t = (if has_mode t VI
               then (if line (t_point t) > bottommost_line (t_dims t) - off
                     then t\<lparr>t_vi_cursor := Point (- off) 0\<rparr>
                     else t\<lparr>t_vi_cursor := t_point t\<rparr>)
               else t) in
      send_event CursorBlinkingChange t)"

definition scroll_to_point :: "point \<Rightarrow> trm \<Rightarrow> trm option" where
  "scroll_to_point p t =
     (let off = int (g_display_offset (t_grid t)); screen = int (t_lines t) in
      if line p < - off then term_scroll_display (Delta (- (line p + off))) t
      else if line p \<ge> screen - off then term_scroll_display (Delta (- (line p + off - screen + 1))) t
      else Some t)"

definition vi_goto_point :: "point \<Rightarrow> trm \<Rightarrow> trm option" where
  "vi_goto_point p t = do {
     t \<leftarrow> scroll_to_point p t;
     Some (vi_mode_recompute_selection (t\<lparr>t_vi_cursor := p\<rparr>))
   }"

definition expand_wide :: "point \<Rightarrow> direction \<Rightarrow> trm \<Rightarrow> point option" where
  "expand_wide p d t = do {
     fl \<leftarrow> flags_of p (t_grid t);
     (if d = Right \<and> flags_contains fl LEADING_WIDE_CHAR_SPACER then Some (Point (line p + 1) 1)
      else if d = Right \<and> flags_contains fl WIDE_CHAR
      then do { lc \<leftarrow> last_column (t_dims t); Some (Point (line p) (min (column p + 1) lc)) }
      else if d = Left \<and> flags_intersects fl (WIDE_CHAR OR WIDE_CHAR_SPACER)
      then do {
        p \<leftarrow> (if flags_contains fl WIDE_CHAR_SPACER
             then do { c \<leftarrow> usize_sub (column p) 1; Some (Point (line p) c) } else Some p);
        prev \<leftarrow> point_sub (t_dims t) Boundary_Grid 1 p;
        pf \<leftarrow> flags_of prev (t_grid t);
        Some (if flags_contains pf LEADING_WIDE_CHAR_SPACER then prev else p)
      }
      else Some p)
   }"

definition cursor_style_of :: "trm \<Rightarrow> cursor_style" where
  "cursor_style_of t =
     (let style = (case t_cursor_style t of None \<Rightarrow> default_cursor_style (t_config t) | Some s \<Rightarrow> s);
          style = (case t_cursor_blinking_override t of None \<Rightarrow> style | Some b \<Rightarrow> style\<lparr>cs_blinking := b\<rparr>) in
      if has_mode t VI
      then (case vi_mode_cursor_style (t_config t) of None \<Rightarrow> style | Some s \<Rightarrow> s)
      else style)"

definition set_default_cursor_style :: "cursor_style \<Rightarrow> trm \<Rightarrow> trm" where
  "set_default_cursor_style style t =
     (if default_cursor_style (t_config t) \<noteq> style
      then mark_fully_damaged (t\<lparr>t_config := (t_config t)\<lparr>default_cursor_style := style\<rparr>\<rparr>)
      else t)"

definition reset_cursor_style_override :: "trm \<Rightarrow> trm" where
  "reset_cursor_style_override t =
     (if t_cursor_style t \<noteq> None \<or> t_cursor_blinking_override t \<noteq> None
      then mark_fully_damaged (t\<lparr>t_cursor_style := None, t_cursor_blinking_override := None\<rparr>)
      else t)"

definition reset_dynamic_colors :: "trm \<Rightarrow> trm" where
  "reset_dynamic_colors t = mark_fully_damaged (t\<lparr>t_colors := replicate COLOR_COUNT None\<rparr>)"

definition report_color_scheme :: "trm \<Rightarrow> trm" where
  "report_color_scheme t =
     (if \<not> has_mode t COLOR_SCHEME_UPDATES then t
      else send_event (PtyWrite ([ESC] @ ''[?997;'' @ decimal (if t_color_scheme_dark t then 1 else 2) @ ''n'')) t)"

definition set_color_scheme :: "bool \<Rightarrow> trm \<Rightarrow> trm" where
  "set_color_scheme is_dark t =
     (if t_color_scheme_dark t = is_dark then t
      else report_color_scheme (t\<lparr>t_color_scheme_dark := is_dark\<rparr>))"

section \<open>Scrolling\<close>

definition rotate_selection :: "line_region \<Rightarrow> int \<Rightarrow> trm \<Rightarrow> trm option" where
  "rotate_selection region delta t =
     (case t_selection t of
        None \<Rightarrow> Some t
      | Some s \<Rightarrow> do {
          r \<leftarrow> selection_rotate (t_dims t) region delta s;
          Some (t\<lparr>t_selection := r\<rparr>)
        })"

definition scroll_down_relative :: "int \<Rightarrow> nat \<Rightarrow> trm \<Rightarrow> trm option" where
  "scroll_down_relative origin lines t = do {
     let t = reset_input_cluster t;
     let lines = min lines (line_as_usize (snd (t_scroll_region t) - fst (t_scroll_region t)));
     let lines = min lines (line_as_usize (snd (t_scroll_region t) - origin));
     let region = (origin, snd (t_scroll_region t));
     t \<leftarrow> rotate_selection region (- int lines) t;
     let l = line (t_vi_cursor t);
     let t = (if fst region \<le> l \<and> snd region > l
              then t\<lparr>t_vi_cursor := Point (min (l + int lines) (snd region - 1)) (column (t_vi_cursor t))\<rparr>
              else t);
     t \<leftarrow> with_grid (grid_scroll_down region lines) t;
     Some (mark_fully_damaged t)
   }"

definition scroll_up_relative :: "int \<Rightarrow> nat \<Rightarrow> trm \<Rightarrow> trm option" where
  "scroll_up_relative origin lines t = do {
     let t = reset_input_cluster t;
     let lines = min lines (line_as_usize (snd (t_scroll_region t) - fst (t_scroll_region t)));
     let region = (origin, snd (t_scroll_region t));
     t \<leftarrow> rotate_selection region (int lines) t;
     t \<leftarrow> with_grid (grid_scroll_up region lines) t;
     let viewport_top = - int (g_display_offset (t_grid t));
     let view_top = (if fst region = 0 then viewport_top else fst region);
     let l = line (t_vi_cursor t);
     let t = (if view_top \<le> l \<and> snd region > l
              then t\<lparr>t_vi_cursor := Point (max (l - int lines) view_top) (column (t_vi_cursor t))\<rparr>
              else t);
     Some (mark_fully_damaged t)
   }"

definition term_scroll_up :: "nat \<Rightarrow> trm \<Rightarrow> trm option" where
  "term_scroll_up lines t = scroll_up_relative (fst (t_scroll_region t)) lines t"

definition term_scroll_down :: "nat \<Rightarrow> trm \<Rightarrow> trm option" where
  "term_scroll_down lines t = scroll_down_relative (fst (t_scroll_region t)) lines t"

definition conpty_realign :: "nat \<Rightarrow> trm \<Rightarrow> trm option" where
  "conpty_realign target t =
     (if has_mode t ALT_SCREEN then Some t
      else if line (t_point t) < 0 then Some t
      else
        (let cursor = nat (line (t_point t));
             delta = (if cursor \<le> target then target - cursor else cursor - target) in
         if delta = 0 \<or> delta \<ge> t_lines t then Some t
         else do {
           let t = reset_input_cluster t;
           let region = (0, int (t_lines t));
           let rotation = (if target < cursor then int delta else - int delta);
           t \<leftarrow> rotate_selection region rotation t;
           t \<leftarrow> (if target < cursor
                then do {
                  t \<leftarrow> with_grid (grid_scroll_up region delta) t;
                  Some (set_line (line (t_point t) - int delta) t)
                }
                else do {
                  t \<leftarrow> with_grid (grid_scroll_down region delta) t;
                  Some (set_line (line (t_point t) + int delta) t)
                });
           Some (mark_fully_damaged t)
         }))"

definition linefeed :: "trm \<Rightarrow> trm option" where
  "linefeed t =
     (let t = reset_input_cluster t; next_line = line (t_point t) + 1 in
      if next_line = snd (t_scroll_region t) then term_scroll_up 1 t
      else if next_line < int (t_lines t)
      then do {
        t \<leftarrow> damage_cursor t;
        damage_cursor (set_line next_line t)
      }
      else Some t)"

definition wrapline :: "trm \<Rightarrow> trm option" where
  "wrapline t =
     (if \<not> has_mode t LINE_WRAP then Some t
      else do {
        let next_line = line (t_point t) + 1;
        t \<leftarrow> (if next_line < int (t_lines t) \<or> next_line = snd (t_scroll_region t)
             then with_grid (cursor_cell (insert_flag WRAPLINE)) t
             else with_grid (cursor_cell (remove_flag (WRAPLINE OR LEADING_WIDE_CHAR_SPACER))) t);
        t \<leftarrow> (if next_line \<ge> snd (t_scroll_region t) then linefeed t
             else do {
               t \<leftarrow> damage_cursor t;
               Some (set_line (line (t_point t) + 1) t)
             });
        let t = set_needs_wrap False (set_column 0 t);
        damage_cursor t
      })"

definition write_at_cursor :: "unicode \<Rightarrow> uchar \<Rightarrow> trm \<Rightarrow> trm option" where
  "write_at_cursor u c t = do {
     cs \<leftarrow> charsets_index (cur_charsets (t_cursor t)) (t_active_charset t);
     let c = u_charset_map u cs c;
     let template = cur_template (t_cursor t);
     t \<leftarrow> with_grid (cursor_cell (\<lambda>x. x)) t;
     cell \<leftarrow> grid_index (t_point t) (t_grid t);
     t \<leftarrow> (if flags_intersects (cell_flags cell) (WIDE_CHAR OR WIDE_CHAR_SPACER)
          then do {
            let wide = flags_contains (cell_flags cell) WIDE_CHAR;
            let p = t_point t;
            lc \<leftarrow> last_column (t_dims t);
            t \<leftarrow> (if wide \<and> column p < lc
                 then with_grid (grid_index_mut (remove_flag WIDE_CHAR_SPACER) (Point (line p) (column p + 1))) t
                 else if column p > 0
                 then with_grid (grid_index_mut clear_wide (Point (line p) (column p - 1))) t
                 else Some t);
            t \<leftarrow> (if column p \<le> 1 \<and> line p \<noteq> topmost_line (t_dims t)
                 then with_grid (grid_index_mut (remove_flag LEADING_WIDE_CHAR_SPACER) (Point (line p - 1) lc)) t
                 else Some t);
            with_grid (cursor_cell (\<lambda>x. x)) t
          }
          else Some t);
     with_grid (cursor_cell (\<lambda>x. x\<lparr>cell_c := c, cell_fg := cell_fg template, cell_bg := cell_bg template,
       cell_flags := cell_flags template, cell_extra := cell_extra template\<rparr>)) t
   }"

definition insert_blank :: "nat \<Rightarrow> trm \<Rightarrow> trm option" where
  "insert_blank count t = do {
     let t = reset_input_cluster t;
     let bg = cell_bg (cur_template (t_cursor t));
     room \<leftarrow> usize_sub (t_columns t) (column (t_point t));
     let count = min count room;
     let source = column (t_point t);
     let destination = column (t_point t) + count;
     num_cells \<leftarrow> usize_sub (t_columns t) destination;
     let l = line (t_point t);
     lc \<leftarrow> usize_sub (t_columns t) 1;
     t \<leftarrow> term_damage_line (line_as_usize l) 0 lc t;
     with_cells (\<lambda>cs. do {
       cs \<leftarrow> for_each (\<lambda>offset. swap_cells (destination + offset) (source + offset)) (rev [0..<num_cells]) cs;
       fill_cells source destination (cell_of_color bg) cs
     }) l t
   }"

definition delete_chars :: "nat \<Rightarrow> trm \<Rightarrow> trm option" where
  "delete_chars count t = do {
     let t = reset_input_cluster t;
     let cols = t_columns t;
     let bg = cell_bg (cur_template (t_cursor t));
     let count = min count cols;
     let start = column (t_point t);
     lc \<leftarrow> usize_sub cols 1;
     let end = min (start + count) lc;
     num_cells \<leftarrow> usize_sub cols end;
     let l = line (t_point t);
     t \<leftarrow> term_damage_line (line_as_usize l) 0 lc t;
     with_cells (\<lambda>cs. do {
       cs \<leftarrow> for_each (\<lambda>offset. swap_cells (start + offset) (end + offset)) [0..<num_cells] cs;
       first \<leftarrow> usize_sub cols count;
       fill_cells first (length cs) (cell_of_color bg) cs
     }) l t
   }"

section \<open>Emoji clusters\<close>

text \<open>\<open>&text[..end]\<close>: a byte index inside a character panics.\<close>

fun utf8_prefix :: "nat \<Rightarrow> uchar list \<Rightarrow> uchar list option" where
  "utf8_prefix n [] = (if n = 0 then Some [] else None)"
| "utf8_prefix n (c # cs) =
     (if n = 0 then Some []
      else if n < utf8_len c then None
      else map_option (Cons c) (utf8_prefix (n - utf8_len c) cs))"

definition emoji_input_new :: "unicode \<Rightarrow> uchar \<Rightarrow> emoji_input option option" where
  "emoji_input_new u c =
     (if c < 0x80 \<and> \<not> (c = 35 \<or> c = 42 \<or> 48 \<le> c \<and> c \<le> 57) \<or> \<not> u_is_emoji u c then Some None
      else do {
        let segmenter = [Next_Boundary [c] 0];
        assert_that (u_boundary u segmenter = Next_Chunk);
        Some (Some \<lparr>ei_segmenter = segmenter, ei_bytes = utf8_len c, ei_context = [], ei_last = c,
          ei_graphic = c, ei_joined = False\<rparr>)
      })"

text \<open>
  The segmenter asks for context until it can answer. Nothing in this code bounds how often, so
  the loop is a partial function: not answering is \<open>None\<close>, like the \<open>unreachable!\<close> branch.
\<close>

partial_function (option) continues_loop ::
    "unicode \<Rightarrow> uchar list \<Rightarrow> nat \<Rightarrow> uchar \<Rightarrow> uchar list \<Rightarrow> emoji_input \<Rightarrow> (bool \<times> emoji_input) option" where
  "continues_loop u text chunk_start c cluster_text ei =
     (let segmenter = ei_segmenter ei @ [Next_Boundary text chunk_start];
          ei = ei\<lparr>ei_segmenter := segmenter\<rparr> in
      case u_boundary u segmenter of
        Next_Chunk \<Rightarrow>
          Some (True, ei\<lparr>ei_bytes := ei_bytes ei + utf8_len c,
                         ei_context := (if ei_context ei \<noteq> [] then ei_context ei @ [c] else [])\<rparr>)
      | Pre_Context n \<Rightarrow> do {
          let ei = (if ei_context ei = [] then ei\<lparr>ei_context := cluster_text\<rparr> else ei);
          start \<leftarrow> utf8_prefix n (ei_context ei);
          continues_loop u text chunk_start c cluster_text
            (ei\<lparr>ei_segmenter := ei_segmenter ei @ [Provide_Context start 0]\<rparr>)
        }
      | Found_Boundary \<Rightarrow> Some (False, ei)
      | No_Boundary \<Rightarrow> None)"

definition continues :: "unicode \<Rightarrow> uchar \<Rightarrow> cell \<Rightarrow> emoji_input \<Rightarrow> (bool \<times> emoji_input) option" where
  "continues u c cell ei =
     (let alone = zerowidth_chars cell = [];
          text = (if alone then [cell_c cell, c] else [c]);
          chunk_start = (if alone then 0 else ei_bytes ei) in
      continues_loop u text chunk_start c (cell_c cell # zerowidth_chars cell) ei)"

definition sequence_width :: "unicode \<Rightarrow> uchar \<Rightarrow> uchar list \<Rightarrow> nat" where
  "sequence_width u first tail = u_str_width u (first # tail)"

definition resize_emoji_cell :: "unicode \<Rightarrow> point \<Rightarrow> nat \<Rightarrow> trm \<Rightarrow> (point \<times> trm) option" where
  "resize_emoji_cell u p width t = do {
     cell \<leftarrow> grid_index p (t_grid t);
     if width = 1
     then do {
       t \<leftarrow> with_grid (grid_index_mut (\<lambda>_. remove_flag WIDE_CHAR cell) p) t;
       let bg = cell_bg (cur_template (t_cursor t));
       t \<leftarrow> with_grid (grid_index_mut (\<lambda>_. cell_of_color bg) (Point (line p) (column p + 1))) t;
       let t = set_point (Point (line p) (column p + 1)) t;
       t \<leftarrow> (if has_mode t INSERT then delete_chars 1 t else Some t);
       Some (p, set_needs_wrap False t)
     }
     else do {
       lc \<leftarrow> last_column (t_dims t);
       if column p = lc \<and> \<not> has_mode t LINE_WRAP then Some (p, t)
       else do {
         (p, t) \<leftarrow>
           (if column p = lc
            then do {
              let placeholder = insert_flag LEADING_WIDE_CHAR_SPACER (cell_of_color (cell_bg cell));
              t \<leftarrow> with_grid (grid_index_mut (\<lambda>_. placeholder) p) t;
              t \<leftarrow> wrapline (set_point p t);
              let p = t_point t;
              t \<leftarrow> (if has_mode t INSERT then insert_blank 2 t else Some t);
              Some (p, t)
            }
            else if has_mode t INSERT
            then do {
              t \<leftarrow> insert_blank 1 (set_point (Point (line p) (column p + 1)) t);
              Some (p, t)
            }
            else Some (p, t));
         t \<leftarrow> write_at_cursor u 32 (set_point p t);
         t \<leftarrow> write_at_cursor u 32 (set_column (column (t_point t) + 1) t);
         let spacer = insert_flag WIDE_CHAR_SPACER (clear_wide cell);
         t \<leftarrow> with_grid (grid_index_mut (\<lambda>_. insert_flag WIDE_CHAR cell) p) t;
         t \<leftarrow> with_grid (grid_index_mut (\<lambda>_. spacer) (Point (line p) (column p + 1))) t;
         let t = set_column (column p + 1) t;
         lc \<leftarrow> last_column (t_dims t);
         let t = (if column (t_point t) < lc
                  then set_needs_wrap False (set_column (column (t_point t) + 1) t)
                  else set_needs_wrap True t);
         d \<leftarrow> damage_point (Viewport_Point (line_as_usize (line p)) (column p + 1)) (t_damage t);
         Some (p, t\<lparr>t_damage := d\<rparr>)
       }
     }
   }"

definition extend_emoji_input :: "unicode \<Rightarrow> uchar \<Rightarrow> nat \<Rightarrow> trm \<Rightarrow> (bool \<times> trm) option" where
  "extend_emoji_input u c char_width t =
     (case t_input_end t of
        None \<Rightarrow> Some (False, t)
      | Some (next_point, wrap) \<Rightarrow>
          if next_point \<noteq> t_point t \<or> wrap \<noteq> cur_input_needs_wrap (t_cursor t) then Some (False, t)
          else do {
            let p = t_point t;
            let p = (if \<not> wrap then Point (line p) (column p - 1) else p);
            fl \<leftarrow> flags_of p (t_grid t);
            let p = (if flags_contains fl WIDE_CHAR_SPACER then Point (line p) (column p - 1) else p);
            cell \<leftarrow> grid_index p (t_grid t);
            cl \<leftarrow> (case t_input_cluster t of
                    None \<Rightarrow> emoji_input_new u (cell_c cell)
                  | Some ei \<Rightarrow> Some (Some ei));
            let t = t\<lparr>t_input_cluster := cl\<rparr>;
            (case cl of
               None \<Rightarrow> Some (False, t)
             | Some ei \<Rightarrow>
                 (let old_width = (if flags_contains (cell_flags cell) WIDE_CHAR then 2 else 1);
                      pair = sequence_width u (ei_graphic ei) [c];
                      width = (if char_width > 0
                        then (if \<not> u_is_emoji u c then None
                              else if ei_last ei = 0x200d then Some 2
                              else if pair > 2 then None else Some (max old_width pair))
                        else if \<not> ei_joined ei \<and> zerowidth_chars cell = []
                        then Some (max (sequence_width u (cell_c cell) [c]) 1)
                        else if c = 0x20e3 \<and> zerowidth cell = Some [0xfe0f]
                        then Some (sequence_width u (cell_c cell) [0xfe0f, c])
                        else Some old_width) in
                  case width of
                    None \<Rightarrow> Some (False, t)
                  | Some width \<Rightarrow> do {
                      (goes_on, ei) \<leftarrow> continues u c cell ei;
                      if \<not> goes_on then Some (False, t\<lparr>t_input_cluster := Some ei\<rparr>)
                      else do {
                        let ei = (if char_width > 0 then ei\<lparr>ei_graphic := c, ei_joined := True\<rparr> else ei);
                        let ei = ei\<lparr>ei_last := c\<rparr>;
                        t \<leftarrow> with_grid (grid_index_mut (push_zerowidth c) p) (t\<lparr>t_input_cluster := Some ei\<rparr>);
                        (p, t) \<leftarrow>
                          (if width \<noteq> old_width
                           then do {
                             (p, t) \<leftarrow> resize_emoji_cell u p width (t\<lparr>t_input_cluster := None\<rparr>);
                             Some (p, t\<lparr>t_input_cluster := Some ei\<rparr>)
                           }
                           else Some (p, t));
                        d \<leftarrow> damage_point (Viewport_Point (line_as_usize (line p)) (column p)) (t_damage t);
                        Some (True, t\<lparr>t_damage := d,
                          t_input_end := Some (t_point t, cur_input_needs_wrap (t_cursor t))\<rparr>)
                      }
                    }))
          })"

section \<open>Character input\<close>

definition input_zero_width :: "uchar \<Rightarrow> trm \<Rightarrow> trm option" where
  "input_zero_width c t = do {
     let col = column (t_point t);
     let col = (if \<not> cur_input_needs_wrap (t_cursor t) then col - 1 else col);
     let l = line (t_point t);
     fl \<leftarrow> flags_of (Point l col) (t_grid t);
     let col = (if flags_contains fl WIDE_CHAR_SPACER then col - 1 else col);
     with_grid (grid_index_mut (push_zerowidth c) (Point l col)) t
   }"

definition shift_cells_right :: "nat \<Rightarrow> trm \<Rightarrow> trm option" where
  "shift_cells_right width t = do {
     let cols = t_columns t;
     let l = line (t_point t);
     let col = column (t_point t);
     last_source \<leftarrow> usize_sub cols width;
     with_cells (for_each (\<lambda>i. swap_cells (i + width) i) (rev [col..<last_source])) l t
   }"

text \<open>The wide glyph and its spacer; \<open>None\<close> inside is the early return at the right margin.\<close>

definition write_wide :: "unicode \<Rightarrow> uchar \<Rightarrow> trm \<Rightarrow> (bool \<times> trm) option" where
  "write_wide u c t = do {
     let cols = t_columns t;
     (fits, t) \<leftarrow>
       (if column (t_point t) + 1 \<ge> cols
        then (if has_mode t LINE_WRAP
              then do {
                t \<leftarrow> write_at_cursor u 32 (with_template (insert_flag LEADING_WIDE_CHAR_SPACER) t);
                t \<leftarrow> wrapline (with_template (remove_flag LEADING_WIDE_CHAR_SPACER) t);
                t \<leftarrow> (if has_mode t INSERT then insert_blank 2 t else Some t);
                Some (True, t)
              }
              else Some (False, set_needs_wrap True t))
        else Some (True, t));
     if \<not> fits then Some (False, t)
     else do {
       t \<leftarrow> write_at_cursor u c (with_template (insert_flag WIDE_CHAR) t);
       let t = with_template (remove_flag WIDE_CHAR) t;
       let t = set_column (column (t_point t) + 1) t;
       t \<leftarrow> write_at_cursor u 32 (with_template (insert_flag WIDE_CHAR_SPACER) t);
       Some (True, with_template (remove_flag WIDE_CHAR_SPACER) t)
     }
   }"

definition input_character :: "unicode \<Rightarrow> uchar \<Rightarrow> trm \<Rightarrow> trm option" where
  "input_character u c t =
     (case u_width u c of
        None \<Rightarrow> Some t
      | Some width \<Rightarrow> do {
          (extended, t) \<leftarrow>
            (if c \<ge> 0x80 \<and> (t_input_cluster t \<noteq> None \<or> width = 0 \<or> c > 0xffff)
             then extend_emoji_input u c width t else Some (False, t));
          if extended then Some t
          else do {
            let t = reset_input_cluster t;
            if width = 0 then input_zero_width c t
            else do {
              t \<leftarrow> (if cur_input_needs_wrap (t_cursor t) then wrapline t else Some t);
              let cols = t_columns t;
              t \<leftarrow> (if has_mode t INSERT \<and> column (t_point t) + width < cols
                   then shift_cells_right width t else Some t);
              (wrote, t) \<leftarrow>
                (if width = 1 then do { t \<leftarrow> write_at_cursor u c t; Some (True, t) } else write_wide u c t);
              if \<not> wrote then Some t
              else
                (let t = (if column (t_point t) + 1 < cols then set_column (column (t_point t) + 1) t
                          else set_needs_wrap True t) in
                 Some (t\<lparr>t_input_end := Some (t_point t, cur_input_needs_wrap (t_cursor t))\<rparr>))
            }
          }
        })"

end
