(* ===== verification/Term_Handler.thy ===== *)
theory Term_Handler
  imports Term_Ops
begin

text \<open>
  The escape-sequence handlers of a terminal (\<open>impl Handler for Term\<close> in
  \<open>nebula_terminal/src/term/mod.rs\<close>), one definition per handler, with the screen clearing of \<open>clear.rs\<close>
  and the reading anchor of \<open>redraw_anchor.rs\<close>, and \<open>handle\<close>, the dispatch of one parsed
  sequence. The parameters of the escape sequences are 16-bit numbers, so line arithmetic stays
  far below \<open>2^31\<close>.
\<close>

section \<open>Redraw anchor\<close>

definition BORDERS :: "uchar list" where
  "BORDERS = [0x2500, 0x250C, 0x252C, 0x2510, 0x251C, 0x253C, 0x2524, 0x2514, 0x2534, 0x2518]"

fun dedup_rule :: "uchar option \<Rightarrow> uchar list \<Rightarrow> uchar list" where
  "dedup_rule previous [] = []"
| "dedup_rule previous (c # cs) =
     (if c \<noteq> 0x2500 \<or> previous \<noteq> Some c then c # dedup_rule (Some c) cs else dedup_rule (Some c) cs)"

text \<open>The text of a row with runs of blanks collapsed; a soft-wrapped row has no key.\<close>

fun row_key_loop :: "cell list \<Rightarrow> uchar list \<Rightarrow> bool \<Rightarrow> uchar list option" where
  "row_key_loop [] text space = Some text"
| "row_key_loop (c # cs) text space =
     (if flags_contains (cell_flags c) WRAPLINE then None
      else if flags_intersects (cell_flags c) wide_spacer then row_key_loop cs text space
      else if cell_c c = 32 \<and> zerowidth c = None then row_key_loop cs text (text \<noteq> [])
      else row_key_loop cs (text @ (if space then [32] else []) @ [cell_c c] @ zerowidth_chars c) False)"

definition row_key :: "grid \<Rightarrow> int \<Rightarrow> uchar list option option" where
  "row_key g l = do {
     r \<leftarrow> grid_index_line l g;
     assert_that (g_columns g \<le> row_len r);
     Some (case row_key_loop (take (g_columns g) (row_inner r)) [] False of
         None \<Rightarrow> None
       | Some text \<Rightarrow>
           Some (if 0x2500 \<in> set text \<and> list_all (\<lambda>c. c \<in> set BORDERS) text then dedup_rule None text
                 else text))
   }"

abbreviation ANCHOR_ROWS :: nat where "ANCHOR_ROWS \<equiv> 3"
abbreviation MAX_COLUMNS :: nat where "MAX_COLUMNS \<equiv> 1024"
abbreviation MAX_SCAN_CELLS :: nat where "MAX_SCAN_CELLS \<equiv> 4 * 1024 * 1024"

text \<open>\<open>collect()\<close> of optional keys stops at the first row without one.\<close>

fun collect_keys :: "grid \<Rightarrow> int list \<Rightarrow> uchar list list option option" where
  "collect_keys g [] = Some (Some [])"
| "collect_keys g (l # ls) = do {
     k \<leftarrow> row_key g l;
     (case k of
        None \<Rightarrow> Some None
      | Some key \<Rightarrow> do {
          rest \<leftarrow> collect_keys g ls;
          Some (map_option (Cons key) rest)
        })
   }"

definition begin_redraw_anchor :: "trm \<Rightarrow> trm option" where
  "begin_redraw_anchor t = do {
     let previous_active = ra_active (t_redraw_anchor t);
     let t = t\<lparr>t_redraw_anchor :=
       default_redraw_anchor\<lparr>ra_enabled := ra_enabled (t_redraw_anchor t), ra_active := True\<rparr>\<rparr>;
     if previous_active \<or> \<not> ra_enabled (t_redraw_anchor t) \<or> g_display_offset (t_grid t) = 0 \<or>
        mode_intersects (t_mode t) (ALT_SCREEN OR VI) \<or> t_selection t \<noteq> None \<or>
        t_columns t > MAX_COLUMNS \<or> t_lines t < ANCHOR_ROWS
     then Some t
     else do {
       let start = - int (g_display_offset (t_grid t));
       rows \<leftarrow> collect_keys (t_grid t) (map (\<lambda>offset. start + int offset) [0..<ANCHOR_ROWS]);
       let rows = (case rows of None \<Rightarrow> None
                   | Some rs \<Rightarrow> if list_ex (\<lambda>r. r \<noteq> []) rs then Some rs else None);
       Some (t\<lparr>t_redraw_anchor := (t_redraw_anchor t)\<lparr>ra_rows := rows\<rparr>\<rparr>)
     }
   }"

datatype clear_mode = Clear_Below | Clear_Above | Clear_All | Clear_Saved

definition observe_redraw_clear :: "clear_mode \<Rightarrow> trm \<Rightarrow> trm" where
  "observe_redraw_clear mode t =
     (if \<not> ra_active (t_redraw_anchor t) then t
      else (case mode of
              Clear_All \<Rightarrow> t\<lparr>t_redraw_anchor := (t_redraw_anchor t)\<lparr>ra_cleared_viewport := True\<rparr>\<rparr>
            | Clear_Saved \<Rightarrow> t\<lparr>t_redraw_anchor := (t_redraw_anchor t)\<lparr>ra_cleared_history := True\<rparr>\<rparr>
            | _ \<Rightarrow> t))"

fun rows_match :: "grid \<Rightarrow> int \<Rightarrow> uchar list list \<Rightarrow> bool option" where
  "rows_match g l [] = Some True"
| "rows_match g l (r # rs) = do {
     k \<leftarrow> row_key g l;
     if k = Some r then rows_match g (l + 1) rs else Some False
   }"

text \<open>The scan for a unique match; \<open>Some None\<close> inside is the early return on a second one.\<close>

fun find_unique :: "grid \<Rightarrow> uchar list list \<Rightarrow> int list \<Rightarrow> int option \<Rightarrow> int option option option" where
  "find_unique g rows [] matched = Some (Some matched)"
| "find_unique g rows (l # ls) matched = do {
     here \<leftarrow> rows_match g l rows;
     if here then (if matched \<noteq> None then Some None else find_unique g rows ls (Some l))
     else find_unique g rows ls matched
   }"

definition finish_redraw_anchor :: "trm \<Rightarrow> trm option" where
  "finish_redraw_anchor t = do {
     let state = t_redraw_anchor t;
     let t = t\<lparr>t_redraw_anchor := default_redraw_anchor\<lparr>ra_enabled := ra_enabled state\<rparr>\<rparr>;
     (case ra_rows state of
        None \<Rightarrow> Some t
      | Some rows \<Rightarrow>
          if \<not> ra_cleared_viewport state \<or> \<not> ra_cleared_history state \<or>
             mode_intersects (t_mode t) (ALT_SCREEN OR VI) \<or> t_selection t \<noteq> None \<or>
             total_lines (t_dims t) * t_columns t > MAX_SCAN_CELLS
          then Some t
          else do {
            let start = - int (history_size (t_dims t));
            let end = int (t_lines t) - int ANCHOR_ROWS;
            found \<leftarrow> find_unique (t_grid t) rows (line_range start (end + 1)) None;
            (case found of
               Some (Some l) \<Rightarrow>
                 if l \<le> 0
                 then do {
                   t \<leftarrow> term_scroll_display ScrollBottom t;
                   term_scroll_display (Delta (- l)) t
                 }
                 else Some t
             | _ \<Rightarrow> Some t)
          })
   }"

section \<open>Cursor movement\<close>

definition goto :: "int \<Rightarrow> nat \<Rightarrow> trm \<Rightarrow> trm option" where
  "goto l col t = do {
     let t = reset_input_cluster t;
     let (y_offset, max_y) = (if has_mode t ORIGIN
         then (fst (t_scroll_region t), snd (t_scroll_region t) - 1)
         else (0, bottommost_line (t_dims t)));
     t \<leftarrow> damage_cursor t;
     lc \<leftarrow> last_column (t_dims t);
     let t = set_point (Point (max (min (l + y_offset) max_y) 0) (min col lc)) t;
     t \<leftarrow> damage_cursor t;
     Some (set_needs_wrap False t)
   }"

definition goto_line :: "int \<Rightarrow> trm \<Rightarrow> trm option" where
  "goto_line l t = goto l (column (t_point t)) t"

definition goto_col :: "nat \<Rightarrow> trm \<Rightarrow> trm option" where
  "goto_col col t = goto (line (t_point t)) col t"

definition move_up :: "nat \<Rightarrow> trm \<Rightarrow> trm option" where
  "move_up n t = goto (line (t_point t) - int n) (column (t_point t)) t"

definition move_down :: "nat \<Rightarrow> trm \<Rightarrow> trm option" where
  "move_down n t = goto (line (t_point t) + int n) (column (t_point t)) t"

definition move_down_and_cr :: "nat \<Rightarrow> trm \<Rightarrow> trm option" where
  "move_down_and_cr n t = goto (line (t_point t) + int n) 0 t"

definition move_up_and_cr :: "nat \<Rightarrow> trm \<Rightarrow> trm option" where
  "move_up_and_cr n t = goto (line (t_point t) - int n) 0 t"

definition move_forward :: "nat \<Rightarrow> trm \<Rightarrow> trm option" where
  "move_forward cols t = do {
     let t = reset_input_cluster t;
     lc \<leftarrow> last_column (t_dims t);
     let target = min (column (t_point t) + cols) lc;
     t \<leftarrow> term_damage_line (line_as_usize (line (t_point t))) (column (t_point t)) target t;
     Some (set_needs_wrap False (set_column target t))
   }"

definition move_backward :: "nat \<Rightarrow> trm \<Rightarrow> trm option" where
  "move_backward cols t = do {
     let t = reset_input_cluster t;
     let target = column (t_point t) - cols;
     t \<leftarrow> term_damage_line (line_as_usize (line (t_point t))) target (column (t_point t)) t;
     Some (set_needs_wrap False (set_column target t))
   }"

definition backspace :: "trm \<Rightarrow> trm option" where
  "backspace t =
     (let t = reset_input_cluster t in
      if column (t_point t) > 0
      then do {
        let l = line_as_usize (line (t_point t));
        let col = column (t_point t);
        term_damage_line l (col - 1) col (set_needs_wrap False (set_column (col - 1) t))
      }
      else Some t)"

definition carriage_return :: "trm \<Rightarrow> trm option" where
  "carriage_return t = do {
     let t = reset_input_cluster t;
     t \<leftarrow> term_damage_line (line_as_usize (line (t_point t))) 0 (column (t_point t)) t;
     Some (set_needs_wrap False (set_column 0 t))
   }"

definition newline :: "trm \<Rightarrow> trm option" where
  "newline t = do {
     t \<leftarrow> linefeed t;
     if has_mode t LINE_FEED_NEW_LINE then carriage_return t else Some t
   }"

definition reverse_index :: "trm \<Rightarrow> trm option" where
  "reverse_index t =
     (let t = reset_input_cluster t in
      if line (t_point t) = fst (t_scroll_region t) then term_scroll_down 1 t
      else do {
        t \<leftarrow> damage_cursor t;
        damage_cursor (set_line (max (line (t_point t) - 1) 0) t)
      })"

definition save_cursor_position :: "trm \<Rightarrow> trm" where
  "save_cursor_position t = t\<lparr>t_grid := (t_grid t)\<lparr>g_saved_cursor := t_cursor t\<rparr>\<rparr>"

definition restore_cursor_position :: "trm \<Rightarrow> trm option" where
  "restore_cursor_position t = do {
     t \<leftarrow> damage_cursor (reset_input_cluster t);
     damage_cursor (with_cursor (\<lambda>_. g_saved_cursor (t_grid t)) t)
   }"

section \<open>Tabs\<close>

text \<open>The inner loop of \<open>put_tab\<close>: to the next tab stop or the last column.\<close>

function advance_to_tab :: "trm \<Rightarrow> trm option" where
  "advance_to_tab t =
     (if column (t_point t) + 1 \<ge> t_columns t
      then (if column (t_point t) + 1 = t_columns t then Some t else None)
      else do {
        let t' = set_column (column (t_point t) + 1) t;
        stop \<leftarrow> vec_get (t_tabs t') (column (t_point t'));
        if stop then Some t' else advance_to_tab t'
      })"
  by pat_completeness auto
termination
  by (relation "measure (\<lambda>t. t_columns t - column (t_point t))")
    (auto simp: set_column_def set_point_def with_cursor_def)

primrec put_tab_loop :: "unicode \<Rightarrow> nat \<Rightarrow> trm \<Rightarrow> trm option" where
  "put_tab_loop u 0 t = Some t"
| "put_tab_loop u (Suc count) t =
     (if column (t_point t) < t_columns t
      then do {
        cs \<leftarrow> charsets_index (cur_charsets (t_cursor t)) (t_active_charset t);
        let c = u_charset_map u cs 9;
        t \<leftarrow> with_grid (cursor_cell (\<lambda>x. if cell_c x = 32 then x\<lparr>cell_c := c\<rparr> else x)) t;
        t \<leftarrow> advance_to_tab t;
        put_tab_loop u count t
      }
      else Some t)"

definition put_tab :: "unicode \<Rightarrow> nat \<Rightarrow> trm \<Rightarrow> trm option" where
  "put_tab u count t =
     (let t = reset_input_cluster t in
      if cur_input_needs_wrap (t_cursor t) then wrapline t else put_tab_loop u count t)"

definition set_horizontal_tabstop :: "trm \<Rightarrow> trm option" where
  "set_horizontal_tabstop t = do {
     ts \<leftarrow> vec_set (t_tabs t) (column (t_point t)) True;
     Some (t\<lparr>t_tabs := ts\<rparr>)
   }"

datatype tabulation_clear_mode = Tab_Current | Tab_All

definition clear_tabs :: "tabulation_clear_mode \<Rightarrow> trm \<Rightarrow> trm option" where
  "clear_tabs mode t =
     (case mode of
        Tab_Current \<Rightarrow> do {
          ts \<leftarrow> vec_set (t_tabs t) (column (t_point t)) False;
          Some (t\<lparr>t_tabs := ts\<rparr>)
        }
      | Tab_All \<Rightarrow> Some (t\<lparr>t_tabs := tabs_clear_all (t_tabs t)\<rparr>))"

text \<open>\<open>for i in is { if tabs[i] { break at i } }\<close>, with the column to keep when none is set.\<close>

fun find_tab :: "bool list \<Rightarrow> nat list \<Rightarrow> nat \<Rightarrow> nat option" where
  "find_tab ts [] col = Some col"
| "find_tab ts (i # is) col = do {
     stop \<leftarrow> vec_get ts i;
     if stop then Some i else find_tab ts is col
   }"

fun find_tab_forward :: "bool list \<Rightarrow> nat list \<Rightarrow> nat \<Rightarrow> nat option" where
  "find_tab_forward ts [] col = Some col"
| "find_tab_forward ts (i # is) col = do {
     stop \<leftarrow> vec_get ts i;
     if stop then Some i else find_tab_forward ts is i
   }"

primrec backward_tabs_loop :: "nat \<Rightarrow> trm \<Rightarrow> trm option" where
  "backward_tabs_loop 0 t = Some t"
| "backward_tabs_loop (Suc n) t =
     (let col = column (t_point t) in
      if col = 0 then Some t
      else do {
        col \<leftarrow> find_tab (t_tabs t) (rev [0..<col]) col;
        backward_tabs_loop n (set_column col t)
      })"

definition move_backward_tabs :: "nat \<Rightarrow> trm \<Rightarrow> trm option" where
  "move_backward_tabs count t = do {
     let t = reset_input_cluster t;
     let old_col = column (t_point t);
     t \<leftarrow> backward_tabs_loop count t;
     term_damage_line (line_as_usize (line (t_point t))) (column (t_point t)) old_col t
   }"

primrec forward_tabs_loop :: "nat \<Rightarrow> trm \<Rightarrow> trm option" where
  "forward_tabs_loop 0 t = Some t"
| "forward_tabs_loop (Suc n) t = do {
     let col = column (t_point t);
     lc \<leftarrow> usize_sub (t_columns t) 1;
     if col = lc then Some t
     else do {
       col \<leftarrow> find_tab_forward (t_tabs t) [col + 1..<t_columns t] col;
       forward_tabs_loop n (set_column col t)
     }
   }"

definition move_forward_tabs :: "nat \<Rightarrow> trm \<Rightarrow> trm option" where
  "move_forward_tabs count t = do {
     let t = reset_input_cluster t;
     let old_col = column (t_point t);
     t \<leftarrow> forward_tabs_loop count t;
     term_damage_line (line_as_usize (line (t_point t))) old_col (column (t_point t)) t
   }"

section \<open>Erasing and scrolling\<close>

definition region_contains :: "line_region \<Rightarrow> int \<Rightarrow> bool" where
  "region_contains r l \<longleftrightarrow> fst r \<le> l \<and> l < snd r"

definition insert_blank_lines :: "nat \<Rightarrow> trm \<Rightarrow> trm option" where
  "insert_blank_lines lines t =
     (if region_contains (t_scroll_region t) (line (t_point t))
      then scroll_down_relative (line (t_point t)) lines t else Some t)"

definition delete_lines :: "nat \<Rightarrow> trm \<Rightarrow> trm option" where
  "delete_lines lines t = do {
     let origin = line (t_point t);
     left \<leftarrow> usize_sub (t_lines t) (line_as_usize origin);
     let lines = min left lines;
     if lines > 0 \<and> region_contains (t_scroll_region t) origin
     then scroll_up_relative origin lines t else Some t
   }"

definition erase_chars :: "nat \<Rightarrow> trm \<Rightarrow> trm option" where
  "erase_chars count t = do {
     let t = reset_input_cluster t;
     let start = column (t_point t);
     let end = min (start + count) (t_columns t);
     let bg = cell_bg (cur_template (t_cursor t));
     let l = line (t_point t);
     t \<leftarrow> term_damage_line (line_as_usize l) start end t;
     with_grid (grid_index_line_mut (row_range_mut (map (\<lambda>_. cell_of_color bg)) start end) l) t
   }"

definition filter_selection :: "line_bound \<Rightarrow> line_bound \<Rightarrow> trm \<Rightarrow> trm" where
  "filter_selection lo hi t =
     (case t_selection t of
        None \<Rightarrow> t
      | Some s \<Rightarrow> if intersects_range lo hi s then t\<lparr>t_selection := None\<rparr> else t)"

datatype line_clear_mode = Line_Right | Line_Left | Line_All

definition clear_line :: "line_clear_mode \<Rightarrow> trm \<Rightarrow> trm option" where
  "clear_line mode t =
     (let t = reset_input_cluster t in
      if mode = Line_Right \<and> cur_input_needs_wrap (t_cursor t) then Some t
      else do {
        let bg = cell_bg (cur_template (t_cursor t));
        let p = t_point t;
        let (left, right) = (case mode of
            Line_Right \<Rightarrow> (column p, t_columns t)
          | Line_Left \<Rightarrow> (0, column p + 1)
          | Line_All \<Rightarrow> (0, t_columns t));
        last \<leftarrow> usize_sub right 1;
        t \<leftarrow> term_damage_line (line_as_usize (line p)) left last t;
        t \<leftarrow> with_grid (grid_index_line_mut (row_range_mut (map (\<lambda>_. cell_of_color bg)) left right) (line p)) t;
        Some (filter_selection (Included (line p)) (Included (line p)) t)
      })"

text \<open>The four modes of \<open>clear_screen_contents\<close>.\<close>

definition clear_above :: "trm \<Rightarrow> trm option" where
  "clear_above t = do {
     let bg = cell_bg (cur_template (t_cursor t));
     let p = t_point t;
     t \<leftarrow> (if line p > 1 then with_grid (reset_region Unbounded (Excluded (line p))) t else Some t);
     let end = min (column p + 1) (t_columns t);
     t \<leftarrow> with_grid (grid_index_line_mut (row_range_to_mut (map (\<lambda>_. cell_of_color bg)) end) (line p)) t;
     Some (filter_selection (Included 0) (Included (line p)) t)
   }"

definition clear_below :: "trm \<Rightarrow> trm option" where
  "clear_below t = do {
     let bg = cell_bg (cur_template (t_cursor t));
     let p = t_point t;
     t \<leftarrow> with_grid (grid_index_line_mut (row_range_from_mut (map (\<lambda>_. cell_of_color bg)) (column p)) (line p)) t;
     last \<leftarrow> usize_sub (t_lines t) 1;
     t \<leftarrow> (if line_as_usize (line p) < last then with_grid (reset_region (Included (line p + 1)) Unbounded) t else Some t);
     Some (filter_selection (Included (line p)) (Excluded (int (t_lines t))) t)
   }"

definition clear_all :: "trm \<Rightarrow> trm option" where
  "clear_all t = do {
     t \<leftarrow> (if has_mode t ALT_SCREEN then with_grid (reset_region Unbounded Unbounded) t
          else do {
            let old_offset = g_display_offset (t_grid t);
            t \<leftarrow> with_grid clear_viewport t;
            let lines = g_display_offset (t_grid t) - old_offset;
            l \<leftarrow> line_grid_clamp (t_dims t) Boundary_Grid (line (t_vi_cursor t) - int lines);
            Some (t\<lparr>t_vi_cursor := Point l (column (t_vi_cursor t))\<rparr>)
          });
     Some (t\<lparr>t_selection := None\<rparr>)
   }"

definition clear_saved :: "trm \<Rightarrow> trm option" where
  "clear_saved t =
     (if history_size (t_dims t) > 0
      then do {
        t \<leftarrow> with_grid clear_history t;
        l \<leftarrow> line_grid_clamp (t_dims t) Boundary_Cursor (line (t_vi_cursor t));
        Some (filter_selection Unbounded (Excluded 0)
          (t\<lparr>t_vi_cursor := Point l (column (t_vi_cursor t))\<rparr>))
      }
      else Some t)"

definition clear_screen_contents :: "clear_mode \<Rightarrow> trm \<Rightarrow> trm option" where
  "clear_screen_contents mode t = do {
     t \<leftarrow> (if mode = Clear_Saved
          then do { r \<leftarrow> reading_invalidate (t_reading t); Some (t\<lparr>t_reading := r\<rparr>) } else Some t);
     let t = observe_redraw_clear mode t;
     t \<leftarrow> (case mode of
         Clear_Above \<Rightarrow> clear_above t
       | Clear_Below \<Rightarrow> clear_below t
       | Clear_All \<Rightarrow> clear_all t
       | Clear_Saved \<Rightarrow> clear_saved t);
     Some (mark_fully_damaged t)
   }"

definition clear_screen :: "clear_mode \<Rightarrow> trm \<Rightarrow> trm option" where
  "clear_screen mode t = clear_screen_contents mode (reset_input_cluster t)"

definition decaln :: "trm \<Rightarrow> trm option" where
  "decaln t = do {
     let t = reset_input_cluster t;
     t \<leftarrow> for_each (\<lambda>l. for_each (\<lambda>col. with_grid (grid_index_mut (\<lambda>_. default_cell\<lparr>cell_c := 69\<rparr>) (Point l col)))
            [0..<t_columns t]) (line_range 0 (int (t_lines t))) t;
     Some (mark_fully_damaged t)
   }"

definition set_scrolling_region :: "nat \<Rightarrow> nat option \<Rightarrow> trm \<Rightarrow> trm option" where
  "set_scrolling_region first_line bottom t =
     (let bottom = (case bottom of None \<Rightarrow> t_lines t | Some b \<Rightarrow> b) in
      if first_line \<ge> bottom then Some t
      else
        (let start = int first_line - 1; end = int bottom; screen = int (t_lines t) in
         goto 0 0 (t\<lparr>t_scroll_region := (min start screen, min end screen)\<rparr>)))"

definition deccolm :: "trm \<Rightarrow> trm option" where
  "deccolm t = do {
     t \<leftarrow> set_scrolling_region 1 None t;
     t \<leftarrow> with_grid (reset_region Unbounded Unbounded) t;
     Some (mark_fully_damaged t)
   }"

section \<open>Screens and reset\<close>

definition invalidate_reading :: "trm \<Rightarrow> trm option" where
  "invalidate_reading t = do {
     r \<leftarrow> reading_invalidate (t_reading t);
     Some (t\<lparr>t_reading := r\<rparr>)
   }"

definition swap_alt :: "trm \<Rightarrow> trm option" where
  "swap_alt t = do {
     t \<leftarrow> invalidate_reading (reset_input_cluster t);
     let t = cancel_redraw_anchor t;
     t \<leftarrow> (if \<not> has_mode t ALT_SCREEN
          then do {
            let inactive = copy_cursor_from (t_grid t) (t_inactive_grid t);
            let grid = (t_grid t)\<lparr>g_saved_cursor := t_cursor t\<rparr>;
            inactive \<leftarrow> reset_region Unbounded Unbounded inactive;
            Some (t\<lparr>t_grid := grid, t_inactive_grid := inactive\<rparr>)
          }
          else Some t);
     let t = t\<lparr>t_keyboard_stack := t_inactive_keyboard_stack t, t_inactive_keyboard_stack := t_keyboard_stack t\<rparr>;
     let t = set_keyboard_mode (mode_of_keyboard (last_keyboard_mode (t_keyboard_stack t))) Apply_Replace t;
     let t = t\<lparr>t_grid := t_inactive_grid t, t_inactive_grid := t_grid t\<rparr>;
     Some (mark_fully_damaged (t\<lparr>t_mode := t_mode t XOR ALT_SCREEN, t_selection := None\<rparr>))
   }"

definition reset_state :: "trm \<Rightarrow> trm option" where
  "reset_state t = do {
     let t = cancel_redraw_anchor (reset_input_cluster (reset_program_status t));
     let t = (if has_mode t ALT_SCREEN
              then t\<lparr>t_grid := t_inactive_grid t, t_inactive_grid := t_grid t\<rparr> else t);
     let t = t\<lparr>t_active_charset := G0, t_cursor_style := None, t_cursor_blinking_override := None\<rparr>;
     t \<leftarrow> with_grid grid_reset t;
     inactive \<leftarrow> grid_reset (t_inactive_grid t);
     t \<leftarrow> invalidate_reading (t\<lparr>t_inactive_grid := inactive\<rparr>);
     let t = t\<lparr>t_reading := (t_reading t)\<lparr>rd_prompt_marks := [], rd_prompt_input := None, rd_prompt_active := False\<rparr>\<rparr>;
     let t = t\<lparr>t_scroll_region := (0, int (t_lines t)), t_tabs := tabs_new (t_columns t), t_title_stack := [],
       t_title := None, t_selection := None, t_vi_cursor := Point 0 0, t_keyboard_stack := [],
       t_inactive_keyboard_stack := [], t_mode := mode_insert default_mode (t_mode t AND VI)\<rparr>;
     Some (mark_fully_damaged (send_event CursorBlinkingChange t))
   }"

definition set_options :: "config \<Rightarrow> trm \<Rightarrow> trm option" where
  "set_options options t = do {
     let old_config = t_config t;
     let t = t\<lparr>t_config := options\<rparr>;
     let t = send_event (case t_title t of Some title \<Rightarrow> Title title | None \<Rightarrow> ResetTitle) t;
     t \<leftarrow> (if has_mode t ALT_SCREEN
          then do {
            g \<leftarrow> update_history (scrolling_history options) (t_inactive_grid t);
            Some (t\<lparr>t_inactive_grid := g\<rparr>)
          }
          else with_grid (update_history (scrolling_history options)) t);
     let t = (if kitty_keyboard options \<noteq> kitty_keyboard old_config
              then remove_mode KITTY_KEYBOARD_PROTOCOL
                (t\<lparr>t_keyboard_stack := [], t_inactive_keyboard_stack := []\<rparr>)
              else t);
     Some (mark_fully_damaged t)
   }"

section \<open>Attributes, colours and modes\<close>

datatype attr =
    A_Foreground color | A_Background color | A_UnderlineColor "color option" | A_Reset
  | A_Reverse | A_CancelReverse | A_Bold | A_CancelBold | A_Dim | A_CancelBoldDim | A_Italic | A_CancelItalic
  | A_Underline | A_DoubleUnderline | A_Undercurl | A_DottedUnderline | A_DashedUnderline | A_CancelUnderline
  | A_Hidden | A_CancelHidden | A_Strike | A_CancelStrike | A_Other

definition set_underline_style :: "flags \<Rightarrow> cell \<Rightarrow> cell" where
  "set_underline_style f c = insert_flag f (remove_flag ALL_UNDERLINES c)"

primrec apply_attr :: "attr \<Rightarrow> cell \<Rightarrow> cell" where
  "apply_attr (A_Foreground col) c = c\<lparr>cell_fg := col\<rparr>"
| "apply_attr (A_Background col) c = c\<lparr>cell_bg := col\<rparr>"
| "apply_attr (A_UnderlineColor col) c = set_underline_color col c"
| "apply_attr A_Reset c =
     set_underline_color None (c\<lparr>cell_fg := Named Foreground, cell_bg := Named Background, cell_flags := 0\<rparr>)"
| "apply_attr A_Reverse c = insert_flag INVERSE c"
| "apply_attr A_CancelReverse c = remove_flag INVERSE c"
| "apply_attr A_Bold c = insert_flag BOLD c"
| "apply_attr A_CancelBold c = remove_flag BOLD c"
| "apply_attr A_Dim c = insert_flag DIM c"
| "apply_attr A_CancelBoldDim c = remove_flag (BOLD OR DIM) c"
| "apply_attr A_Italic c = insert_flag ITALIC c"
| "apply_attr A_CancelItalic c = remove_flag ITALIC c"
| "apply_attr A_Underline c = set_underline_style UNDERLINE c"
| "apply_attr A_DoubleUnderline c = set_underline_style DOUBLE_UNDERLINE c"
| "apply_attr A_Undercurl c = set_underline_style UNDERCURL c"
| "apply_attr A_DottedUnderline c = set_underline_style DOTTED_UNDERLINE c"
| "apply_attr A_DashedUnderline c = set_underline_style DASHED_UNDERLINE c"
| "apply_attr A_CancelUnderline c = remove_flag ALL_UNDERLINES c"
| "apply_attr A_Hidden c = insert_flag HIDDEN c"
| "apply_attr A_CancelHidden c = remove_flag HIDDEN c"
| "apply_attr A_Strike c = insert_flag STRIKEOUT c"
| "apply_attr A_CancelStrike c = remove_flag STRIKEOUT c"
| "apply_attr A_Other c = c"

definition terminal_attribute :: "attr \<Rightarrow> trm \<Rightarrow> trm" where
  "terminal_attribute a t = with_template (apply_attr a) t"

definition term_set_hyperlink :: "hyperlink_data option \<Rightarrow> trm \<Rightarrow> trm" where
  "term_set_hyperlink h t = with_template (set_hyperlink h) t"

abbreviation CURSOR_COLOR :: nat where "CURSOR_COLOR \<equiv> 258"

definition set_color :: "nat \<Rightarrow> rgb \<Rightarrow> trm \<Rightarrow> trm option" where
  "set_color i col t = do {
     old \<leftarrow> vec_get (t_colors t) i;
     let t = (if i \<noteq> CURSOR_COLOR \<and> old \<noteq> Some col then mark_fully_damaged t else t);
     cs \<leftarrow> vec_set (t_colors t) i (Some col);
     Some (t\<lparr>t_colors := cs\<rparr>)
   }"

definition reset_color :: "nat \<Rightarrow> trm \<Rightarrow> trm option" where
  "reset_color i t = do {
     old \<leftarrow> vec_get (t_colors t) i;
     let t = (if i \<noteq> CURSOR_COLOR \<and> old \<noteq> None then mark_fully_damaged t else t);
     cs \<leftarrow> vec_set (t_colors t) i None;
     Some (t\<lparr>t_colors := cs\<rparr>)
   }"

definition dynamic_color_sequence :: "string \<Rightarrow> nat \<Rightarrow> string \<Rightarrow> trm \<Rightarrow> trm" where
  "dynamic_color_sequence code_prefix i terminator t = send_event (ColorRequest code_prefix i terminator) t"

definition clipboard_type_of :: "8 word \<Rightarrow> clipboard_type option" where
  "clipboard_type_of b =
     (if b = 0x63 then Some Clipboard
      else if b = 0x70 \<or> b = 0x73 then Some Primary_Selection
      else None)"

definition clipboard_store :: "('b \<Rightarrow> string option) \<Rightarrow> 8 word \<Rightarrow> 'b \<Rightarrow> trm \<Rightarrow> trm" where
  "clipboard_store decode clipboard payload t =
     (if \<not> (cfg_osc52 (t_config t) = OnlyCopy \<or> cfg_osc52 (t_config t) = CopyPaste) then t
      else (case clipboard_type_of clipboard of
              None \<Rightarrow> t
            | Some ty \<Rightarrow> (case decode payload of
                  None \<Rightarrow> t
                | Some text \<Rightarrow> send_event (ClipboardStore ty text) t)))"

definition clipboard_load :: "8 word \<Rightarrow> string \<Rightarrow> trm \<Rightarrow> trm" where
  "clipboard_load clipboard terminator t =
     (if \<not> (cfg_osc52 (t_config t) = OnlyPaste \<or> cfg_osc52 (t_config t) = CopyPaste) then t
      else (case clipboard_type_of clipboard of
              None \<Rightarrow> t
            | Some ty \<Rightarrow> send_event (ClipboardLoad ty clipboard terminator) t))"

datatype named_private_mode =
    PM_UrgencyHints | PM_SwapScreenAndSetRestoreCursor | PM_ShowCursor | PM_CursorKeys | PM_ReportMouseClicks
  | PM_ReportCellMouseMotion | PM_ReportAllMouseMotion | PM_ReportFocusInOut | PM_BracketedPaste | PM_SgrMouse
  | PM_Utf8Mouse | PM_AlternateScroll | PM_LineWrap | PM_Origin | PM_ColumnMode | PM_BlinkingCursor | PM_SyncUpdate

datatype private_mode = Named_Private named_private_mode | Unknown_Private nat

definition mouse_protocol :: "term_mode \<Rightarrow> trm \<Rightarrow> trm" where
  "mouse_protocol f t = send_event MouseCursorDirty (insert_mode f (remove_mode MOUSE_MODE t))"

primrec set_named_private_mode :: "named_private_mode \<Rightarrow> trm \<Rightarrow> trm option" where
  "set_named_private_mode PM_UrgencyHints t = Some (insert_mode URGENCY_HINTS t)"
| "set_named_private_mode PM_SwapScreenAndSetRestoreCursor t =
     (if \<not> has_mode t ALT_SCREEN then swap_alt t else Some t)"
| "set_named_private_mode PM_ShowCursor t = Some (insert_mode SHOW_CURSOR t)"
| "set_named_private_mode PM_CursorKeys t = Some (insert_mode APP_CURSOR t)"
| "set_named_private_mode PM_ReportMouseClicks t = Some (mouse_protocol MOUSE_REPORT_CLICK t)"
| "set_named_private_mode PM_ReportCellMouseMotion t = Some (mouse_protocol MOUSE_DRAG t)"
| "set_named_private_mode PM_ReportAllMouseMotion t = Some (mouse_protocol MOUSE_MOTION t)"
| "set_named_private_mode PM_ReportFocusInOut t = Some (insert_mode FOCUS_IN_OUT t)"
| "set_named_private_mode PM_BracketedPaste t = Some (insert_mode BRACKETED_PASTE t)"
| "set_named_private_mode PM_SgrMouse t = Some (insert_mode SGR_MOUSE (remove_mode UTF8_MOUSE t))"
| "set_named_private_mode PM_Utf8Mouse t = Some (insert_mode UTF8_MOUSE (remove_mode SGR_MOUSE t))"
| "set_named_private_mode PM_AlternateScroll t = Some (insert_mode ALTERNATE_SCROLL t)"
| "set_named_private_mode PM_LineWrap t = Some (insert_mode LINE_WRAP t)"
| "set_named_private_mode PM_Origin t = goto 0 0 (insert_mode ORIGIN t)"
| "set_named_private_mode PM_ColumnMode t = deccolm t"
| "set_named_private_mode PM_BlinkingCursor t =
     Some (send_event CursorBlinkingChange (t\<lparr>t_cursor_blinking_override := Some True\<rparr>))"
| "set_named_private_mode PM_SyncUpdate t = begin_redraw_anchor t"

definition set_private_mode :: "private_mode \<Rightarrow> trm \<Rightarrow> trm option" where
  "set_private_mode mode t =
     (if mode = Unknown_Private 9001 then Some (insert_mode WIN32_INPUT_MODE t)
      else if mode = Unknown_Private 2031 then Some (insert_mode COLOR_SCHEME_UPDATES t)
      else (case mode of Unknown_Private _ \<Rightarrow> Some t | Named_Private m \<Rightarrow> set_named_private_mode m t))"

primrec unset_named_private_mode :: "named_private_mode \<Rightarrow> trm \<Rightarrow> trm option" where
  "unset_named_private_mode PM_UrgencyHints t = Some (remove_mode URGENCY_HINTS t)"
| "unset_named_private_mode PM_SwapScreenAndSetRestoreCursor t =
     (if has_mode t ALT_SCREEN then swap_alt t else Some t)"
| "unset_named_private_mode PM_ShowCursor t = Some (remove_mode SHOW_CURSOR t)"
| "unset_named_private_mode PM_CursorKeys t = Some (remove_mode APP_CURSOR t)"
| "unset_named_private_mode PM_ReportMouseClicks t =
     Some (send_event MouseCursorDirty (remove_mode MOUSE_REPORT_CLICK t))"
| "unset_named_private_mode PM_ReportCellMouseMotion t =
     Some (send_event MouseCursorDirty (remove_mode MOUSE_DRAG t))"
| "unset_named_private_mode PM_ReportAllMouseMotion t =
     Some (send_event MouseCursorDirty (remove_mode MOUSE_MOTION t))"
| "unset_named_private_mode PM_ReportFocusInOut t = Some (remove_mode FOCUS_IN_OUT t)"
| "unset_named_private_mode PM_BracketedPaste t = Some (remove_mode BRACKETED_PASTE t)"
| "unset_named_private_mode PM_SgrMouse t = Some (remove_mode SGR_MOUSE t)"
| "unset_named_private_mode PM_Utf8Mouse t = Some (remove_mode UTF8_MOUSE t)"
| "unset_named_private_mode PM_AlternateScroll t = Some (remove_mode ALTERNATE_SCROLL t)"
| "unset_named_private_mode PM_LineWrap t = Some (remove_mode LINE_WRAP t)"
| "unset_named_private_mode PM_Origin t = Some (remove_mode ORIGIN t)"
| "unset_named_private_mode PM_ColumnMode t = deccolm t"
| "unset_named_private_mode PM_BlinkingCursor t =
     Some (send_event CursorBlinkingChange (t\<lparr>t_cursor_blinking_override := Some False\<rparr>))"
| "unset_named_private_mode PM_SyncUpdate t = finish_redraw_anchor t"

definition unset_private_mode :: "private_mode \<Rightarrow> trm \<Rightarrow> trm option" where
  "unset_private_mode mode t =
     (if mode = Unknown_Private 9001 then Some (remove_mode WIN32_INPUT_MODE t)
      else if mode = Unknown_Private 2031 then Some (remove_mode COLOR_SCHEME_UPDATES t)
      else (case mode of Unknown_Private _ \<Rightarrow> Some t | Named_Private m \<Rightarrow> unset_named_private_mode m t))"

primrec private_mode_state :: "named_private_mode \<Rightarrow> trm \<Rightarrow> mode_state" where
  "private_mode_state PM_CursorKeys t = mode_state_of (has_mode t APP_CURSOR)"
| "private_mode_state PM_Origin t = mode_state_of (has_mode t ORIGIN)"
| "private_mode_state PM_LineWrap t = mode_state_of (has_mode t LINE_WRAP)"
| "private_mode_state PM_BlinkingCursor t = mode_state_of
     (case t_cursor_blinking_override t of
        Some b \<Rightarrow> b
      | None \<Rightarrow> cs_blinking (case t_cursor_style t of Some s \<Rightarrow> s | None \<Rightarrow> default_cursor_style (t_config t)))"
| "private_mode_state PM_ShowCursor t = mode_state_of (has_mode t SHOW_CURSOR)"
| "private_mode_state PM_ReportMouseClicks t = mode_state_of (has_mode t MOUSE_REPORT_CLICK)"
| "private_mode_state PM_ReportCellMouseMotion t = mode_state_of (has_mode t MOUSE_DRAG)"
| "private_mode_state PM_ReportAllMouseMotion t = mode_state_of (has_mode t MOUSE_MOTION)"
| "private_mode_state PM_ReportFocusInOut t = mode_state_of (has_mode t FOCUS_IN_OUT)"
| "private_mode_state PM_Utf8Mouse t = mode_state_of (has_mode t UTF8_MOUSE)"
| "private_mode_state PM_SgrMouse t = mode_state_of (has_mode t SGR_MOUSE)"
| "private_mode_state PM_AlternateScroll t = mode_state_of (has_mode t ALTERNATE_SCROLL)"
| "private_mode_state PM_UrgencyHints t = mode_state_of (has_mode t URGENCY_HINTS)"
| "private_mode_state PM_SwapScreenAndSetRestoreCursor t = mode_state_of (has_mode t ALT_SCREEN)"
| "private_mode_state PM_BracketedPaste t = mode_state_of (has_mode t BRACKETED_PASTE)"
| "private_mode_state PM_SyncUpdate t = Mode_Reset"
| "private_mode_state PM_ColumnMode t = NotSupported"

definition report_private_mode :: "(private_mode \<Rightarrow> nat) \<Rightarrow> private_mode \<Rightarrow> trm \<Rightarrow> trm" where
  "report_private_mode raw mode t =
     (if mode = Unknown_Private 9001
      then send_event (PtyWrite ([ESC] @ ''[?9001;'' @
             decimal (if has_mode t WIN32_INPUT_MODE then 1 else 2) @ ''$y'')) t
      else
        (let state = (case mode of Unknown_Private _ \<Rightarrow> NotSupported | Named_Private m \<Rightarrow> private_mode_state m t) in
         send_event (PtyWrite ([ESC] @ ''[?'' @ decimal (raw mode) @ '';'' @
           decimal (mode_state_number state) @ ''$y'')) t))"

datatype named_mode = NM_Insert | NM_LineFeedNewLine

datatype ansi_mode = Named_Mode named_mode | Unknown_Mode nat

fun set_mode :: "ansi_mode \<Rightarrow> trm \<Rightarrow> trm" where
  "set_mode (Unknown_Mode _) t = reset_input_cluster t"
| "set_mode (Named_Mode NM_Insert) t = insert_mode INSERT (reset_input_cluster t)"
| "set_mode (Named_Mode NM_LineFeedNewLine) t = insert_mode LINE_FEED_NEW_LINE (reset_input_cluster t)"

fun unset_mode :: "ansi_mode \<Rightarrow> trm \<Rightarrow> trm" where
  "unset_mode (Unknown_Mode _) t = reset_input_cluster t"
| "unset_mode (Named_Mode NM_Insert) t = mark_fully_damaged (remove_mode INSERT (reset_input_cluster t))"
| "unset_mode (Named_Mode NM_LineFeedNewLine) t = remove_mode LINE_FEED_NEW_LINE (reset_input_cluster t)"

definition report_mode :: "(ansi_mode \<Rightarrow> nat) \<Rightarrow> ansi_mode \<Rightarrow> trm \<Rightarrow> trm" where
  "report_mode raw mode t =
     (let state = (case mode of
          Named_Mode NM_Insert \<Rightarrow> mode_state_of (has_mode t INSERT)
        | Named_Mode NM_LineFeedNewLine \<Rightarrow> mode_state_of (has_mode t LINE_FEED_NEW_LINE)
        | Unknown_Mode _ \<Rightarrow> NotSupported) in
      send_event (PtyWrite ([ESC] @ ''['' @ decimal (raw mode) @ '';'' @
        decimal (mode_state_number state) @ ''$y'')) t)"

definition configure_charset :: "charset_index \<Rightarrow> standard_charset \<Rightarrow> trm \<Rightarrow> trm option" where
  "configure_charset i cs t = do {
     css \<leftarrow> charsets_index_mut cs i (cur_charsets (t_cursor t));
     Some (with_cursor (\<lambda>c. c\<lparr>cur_charsets := css\<rparr>) t)
   }"

definition set_active_charset :: "charset_index \<Rightarrow> trm \<Rightarrow> trm" where
  "set_active_charset i t = t\<lparr>t_active_charset := i\<rparr>"

definition set_cursor_style :: "cursor_style option \<Rightarrow> trm \<Rightarrow> trm" where
  "set_cursor_style style t = send_event CursorBlinkingChange (t\<lparr>t_cursor_style := style\<rparr>)"

definition set_cursor_shape :: "cursor_shape \<Rightarrow> trm \<Rightarrow> trm" where
  "set_cursor_shape shape t =
     (let style = (case t_cursor_style t of Some s \<Rightarrow> s | None \<Rightarrow> default_cursor_style (t_config t)) in
      t\<lparr>t_cursor_style := Some (style\<lparr>cs_shape := shape\<rparr>)\<rparr>)"

section \<open>Reports\<close>

definition identify_terminal :: "string \<Rightarrow> uchar option \<Rightarrow> trm \<Rightarrow> trm" where
  "identify_terminal version intermediate t =
     (case intermediate of
        None \<Rightarrow>
          if t_bringup_da1_pending t then t\<lparr>t_bringup_da1_pending := False\<rparr>
          else send_event (PtyWrite ([ESC] @ ''[?6c'')) t
      | Some c \<Rightarrow>
          if c = 62 then send_event (PtyWrite ([ESC] @ ''[>0;'' @ decimal (version_number version) @ '';1c'')) t
          else t)"

definition device_status :: "nat \<Rightarrow> trm \<Rightarrow> trm" where
  "device_status arg t =
     (if arg = 5 then send_event (PtyWrite ([ESC] @ ''[0n'')) t
      else if arg = 6
      then send_event (PtyWrite ([ESC] @ ''['' @ decimal (nat (line (t_point t) + 1)) @ '';'' @
             decimal (column (t_point t) + 1) @ ''R'')) t
      else t)"

definition text_area_size_chars :: "trm \<Rightarrow> trm" where
  "text_area_size_chars t =
     send_event (PtyWrite ([ESC] @ ''[8;'' @ decimal (t_lines t) @ '';'' @ decimal (t_columns t) @ ''t'')) t"

section \<open>Dispatch\<close>

text \<open>The calls of the parser on its handler, with the values the library supplies.\<close>

datatype movement_call =
    H_Goto int nat | H_Goto_Line int | H_Goto_Col nat | H_Move_Up nat
  | H_Move_Down nat | H_Move_Forward nat | H_Move_Backward nat | H_Move_Down_And_Cr nat
  | H_Move_Up_And_Cr nat | H_Put_Tab nat | H_Backspace | H_Carriage_Return
  | H_Linefeed | H_Newline | H_Reverse_Index | H_Move_Backward_Tabs nat
  | H_Move_Forward_Tabs nat | H_Save_Cursor_Position | H_Restore_Cursor_Position

datatype edit_call =
    H_Input uchar | H_Insert_Blank nat | H_Scroll_Up nat | H_Scroll_Down nat
  | H_Insert_Blank_Lines nat | H_Delete_Lines nat | H_Erase_Chars nat | H_Delete_Chars nat
  | H_Clear_Line line_clear_mode | H_Clear_Screen clear_mode | H_Decaln | H_Reset_State
  | H_Set_Scrolling_Region nat "nat option" | H_Set_Horizontal_Tabstop | H_Clear_Tabs tabulation_clear_mode

datatype mode_call =
    H_Terminal_Attribute attr | H_Set_Mode ansi_mode | H_Unset_Mode ansi_mode | H_Set_Private_Mode private_mode
  | H_Unset_Private_Mode private_mode | H_Set_Keypad_Application_Mode | H_Unset_Keypad_Application_Mode | H_Set_Active_Charset charset_index
  | H_Configure_Charset charset_index standard_charset | H_Set_Hyperlink "hyperlink_data option" | H_Set_Cursor_Style "cursor_style option" | H_Set_Cursor_Shape cursor_shape
  | H_Push_Keyboard_Mode keyboard_modes | H_Pop_Keyboard_Modes nat | H_Set_Keyboard_Mode keyboard_modes apply_behavior

datatype report_call =
    H_Identify_Terminal "uchar option" | H_Device_Status nat | H_Report_Mode ansi_mode | H_Report_Private_Mode private_mode
  | H_Report_Keyboard_Mode | H_Set_Color nat rgb | H_Dynamic_Color_Sequence string nat string | H_Reset_Color nat
  | H_Clipboard_Store "8 word" "8 word list" | H_Clipboard_Load "8 word" string | H_Bell | H_Substitute
  | H_Push_Title | H_Text_Area_Size_Pixels | H_Text_Area_Size_Chars

datatype handler_call = Movement movement_call | Edit edit_call | Mode_Change mode_call | Report_Call report_call

text \<open>What the handlers take from libraries and the build.\<close>

record environment =
  env_unicode :: unicode
  env_version :: string
  env_base64_text :: "8 word list \<Rightarrow> string option"
  env_raw_mode :: "ansi_mode \<Rightarrow> nat"
  env_raw_private_mode :: "private_mode \<Rightarrow> nat"
  env_keyboard_bits :: "keyboard_modes \<Rightarrow> nat"

primrec handle_movement :: "environment \<Rightarrow> movement_call \<Rightarrow> trm \<Rightarrow> trm option" where
  "handle_movement env (H_Goto l col) = goto l col"
| "handle_movement env (H_Goto_Line l) = goto_line l"
| "handle_movement env (H_Goto_Col col) = goto_col col"
| "handle_movement env (H_Move_Up n) = move_up n"
| "handle_movement env (H_Move_Down n) = move_down n"
| "handle_movement env (H_Move_Forward n) = move_forward n"
| "handle_movement env (H_Move_Backward n) = move_backward n"
| "handle_movement env (H_Move_Down_And_Cr n) = move_down_and_cr n"
| "handle_movement env (H_Move_Up_And_Cr n) = move_up_and_cr n"
| "handle_movement env (H_Put_Tab n) = put_tab (env_unicode env) n"
| "handle_movement env H_Backspace = backspace"
| "handle_movement env H_Carriage_Return = carriage_return"
| "handle_movement env H_Linefeed = linefeed"
| "handle_movement env H_Newline = newline"
| "handle_movement env H_Reverse_Index = reverse_index"
| "handle_movement env (H_Move_Backward_Tabs n) = move_backward_tabs n"
| "handle_movement env (H_Move_Forward_Tabs n) = move_forward_tabs n"
| "handle_movement env H_Save_Cursor_Position = Some \<circ> save_cursor_position"
| "handle_movement env H_Restore_Cursor_Position = restore_cursor_position"

primrec handle_edit :: "environment \<Rightarrow> edit_call \<Rightarrow> trm \<Rightarrow> trm option" where
  "handle_edit env (H_Input c) = input_character (env_unicode env) c"
| "handle_edit env (H_Insert_Blank n) = insert_blank n"
| "handle_edit env (H_Scroll_Up n) = term_scroll_up n"
| "handle_edit env (H_Scroll_Down n) = term_scroll_down n"
| "handle_edit env (H_Insert_Blank_Lines n) = insert_blank_lines n"
| "handle_edit env (H_Delete_Lines n) = delete_lines n"
| "handle_edit env (H_Erase_Chars n) = erase_chars n"
| "handle_edit env (H_Delete_Chars n) = delete_chars n"
| "handle_edit env (H_Clear_Line m) = clear_line m"
| "handle_edit env (H_Clear_Screen m) = clear_screen m"
| "handle_edit env H_Decaln = decaln"
| "handle_edit env H_Reset_State = reset_state"
| "handle_edit env (H_Set_Scrolling_Region a b) = set_scrolling_region a b"
| "handle_edit env H_Set_Horizontal_Tabstop = set_horizontal_tabstop"
| "handle_edit env (H_Clear_Tabs m) = clear_tabs m"

primrec handle_mode :: "environment \<Rightarrow> mode_call \<Rightarrow> trm \<Rightarrow> trm option" where
  "handle_mode env (H_Terminal_Attribute a) = Some \<circ> terminal_attribute a"
| "handle_mode env (H_Set_Mode m) = Some \<circ> set_mode m"
| "handle_mode env (H_Unset_Mode m) = Some \<circ> unset_mode m"
| "handle_mode env (H_Set_Private_Mode m) = set_private_mode m"
| "handle_mode env (H_Unset_Private_Mode m) = unset_private_mode m"
| "handle_mode env H_Set_Keypad_Application_Mode = Some \<circ> insert_mode APP_KEYPAD"
| "handle_mode env H_Unset_Keypad_Application_Mode = Some \<circ> remove_mode APP_KEYPAD"
| "handle_mode env (H_Set_Active_Charset i) = Some \<circ> set_active_charset i"
| "handle_mode env (H_Configure_Charset i cs) = configure_charset i cs"
| "handle_mode env (H_Set_Hyperlink h) = Some \<circ> term_set_hyperlink h"
| "handle_mode env (H_Set_Cursor_Style s) = Some \<circ> set_cursor_style s"
| "handle_mode env (H_Set_Cursor_Shape s) = Some \<circ> set_cursor_shape s"
| "handle_mode env (H_Push_Keyboard_Mode m) = Some \<circ> push_keyboard_mode m"
| "handle_mode env (H_Pop_Keyboard_Modes n) = Some \<circ> pop_keyboard_modes n"
| "handle_mode env (H_Set_Keyboard_Mode m b) = Some \<circ> handle_set_keyboard_mode m b"

primrec handle_report :: "environment \<Rightarrow> report_call \<Rightarrow> trm \<Rightarrow> trm option" where
  "handle_report env (H_Identify_Terminal i) = Some \<circ> identify_terminal (env_version env) i"
| "handle_report env (H_Device_Status n) = Some \<circ> device_status n"
| "handle_report env (H_Report_Mode m) = Some \<circ> report_mode (env_raw_mode env) m"
| "handle_report env (H_Report_Private_Mode m) = Some \<circ> report_private_mode (env_raw_private_mode env) m"
| "handle_report env H_Report_Keyboard_Mode = Some \<circ> report_keyboard_mode (env_keyboard_bits env)"
| "handle_report env (H_Set_Color i col) = set_color i col"
| "handle_report env (H_Dynamic_Color_Sequence p i e) = Some \<circ> dynamic_color_sequence p i e"
| "handle_report env (H_Reset_Color i) = reset_color i"
| "handle_report env (H_Clipboard_Store b p) = Some \<circ> clipboard_store (env_base64_text env) b p"
| "handle_report env (H_Clipboard_Load b e) = Some \<circ> clipboard_load b e"
| "handle_report env H_Bell = Some \<circ> send_event Bell"
| "handle_report env H_Substitute = Some"
| "handle_report env H_Push_Title = Some \<circ> save_title"
| "handle_report env H_Text_Area_Size_Pixels = Some \<circ> send_event TextAreaSizeRequest"
| "handle_report env H_Text_Area_Size_Chars = Some \<circ> text_area_size_chars"

primrec handle :: "environment \<Rightarrow> handler_call \<Rightarrow> trm \<Rightarrow> trm option" where
  "handle env (Movement m) = handle_movement env m"
| "handle env (Edit m) = handle_edit env m"
| "handle env (Mode_Change m) = handle_mode env m"
| "handle env (Report_Call m) = handle_report env m"

text \<open>
  The operations the window calls on a terminal between two parsed sequences. The selection is a
  public field the window writes.
\<close>

datatype host_call =
    Scroll_Display scroll | Toggle_Vi_Mode | Conpty_Realign nat | Set_Options config | Set_Color_Scheme bool
  | Set_Default_Cursor_Style cursor_style | Reset_Cursor_Style_Override | Reset_Dynamic_Colors
  | Take_Damage | Reset_Damage | Report_Program_Status report | End_Program_Status_Activity
  | Acknowledge_Program_Status_Results | Set_Selection "selection option"

primrec handle_host :: "host_call \<Rightarrow> trm \<Rightarrow> trm option" where
  "handle_host (Scroll_Display s) = term_scroll_display s"
| "handle_host Toggle_Vi_Mode = Some \<circ> toggle_vi_mode"
| "handle_host (Conpty_Realign target) = conpty_realign target"
| "handle_host (Set_Options options) = set_options options"
| "handle_host (Set_Color_Scheme dark) = Some \<circ> set_color_scheme dark"
| "handle_host (Set_Default_Cursor_Style style) = Some \<circ> set_default_cursor_style style"
| "handle_host Reset_Cursor_Style_Override = Some \<circ> reset_cursor_style_override"
| "handle_host Reset_Dynamic_Colors = Some \<circ> reset_dynamic_colors"
| "handle_host Take_Damage = map_option snd \<circ> term_damage"
| "handle_host Reset_Damage = Some \<circ> reset_damage"
| "handle_host (Report_Program_Status r) = Some \<circ> report_program_status r"
| "handle_host End_Program_Status_Activity = Some \<circ> end_program_status_activity"
| "handle_host Acknowledge_Program_Status_Results = Some \<circ> snd \<circ> acknowledge_program_status_results"
| "handle_host (Set_Selection sel) = (\<lambda>t. Some (t\<lparr>t_selection := sel\<rparr>))"

declare advance_to_tab.simps [simp del]

end
