(* ===== verification/Grid_Frame.thy ===== *)
theory Grid_Frame
  imports Search
begin

text \<open>
  What the grid operations leave alone. The terminal's handlers keep its cursors inside the
  screen and its screens of equal size; here every grid operation they call is shown to
  return on a well-formed grid, to keep it well-formed and to keep its frame: size, cursors and
  scroll limit (\<open>keeps\<close>).
\<close>

section \<open>Whole lines\<close>

definition frame :: "grid \<Rightarrow> nat \<times> nat \<times> cursor \<times> cursor \<times> nat" where
  "frame g = (g_columns g, g_lines g, g_cursor g, g_saved_cursor g, g_max_scroll_limit g)"

definition keeps :: "bool \<Rightarrow> grid \<Rightarrow> grid \<Rightarrow> bool" where
  "keeps strict g g' \<longleftrightarrow> grid_ok strict g' \<and> frame g' = frame g"

lemma frame_simps [simp]:
  "frame (g\<lparr>g_raw := raw\<rparr>) = frame g" "frame (g\<lparr>g_display_offset := off\<rparr>) = frame g"
  "frame (g\<lparr>g_scrolled_out := k\<rparr>) = frame g"
  by (simp_all add: frame_def)

lemma grid_ok_cursors [simp]:
  "grid_ok strict (g\<lparr>g_cursor := c\<rparr>) = grid_ok strict g"
  "grid_ok strict (g\<lparr>g_saved_cursor := c\<rparr>) = grid_ok strict g"
  "grid_ok strict (g\<lparr>g_display_offset := off\<rparr>) = grid_ok strict g"
  "grid_ok strict (g\<lparr>g_reflow_on_grow := b\<rparr>) = grid_ok strict g"
  by (simp_all add: grid_ok_def grid_dims_def)

lemma keeps_refl: "grid_ok strict g \<Longrightarrow> keeps strict g g"
  by (simp add: keeps_def)

text \<open>Operations that only replace rows and counters keep the frame by construction.\<close>

lemma reset_lines_frame: "reset_lines ls g = Some g' \<Longrightarrow> frame g' = frame g"
  by (auto simp: reset_lines_def bind_eq_Some_conv)

lemma swap_lines_frame: "swap_lines f ls g = Some g' \<Longrightarrow> frame g' = frame g"
  by (auto simp: swap_lines_def bind_eq_Some_conv)

lemma increase_scroll_limit_frame: "increase_scroll_limit n g = Some g' \<Longrightarrow> frame g' = frame g"
  by (auto simp: increase_scroll_limit_def bind_eq_Some_conv Let_def split: if_splits)

lemma grid_scroll_up_frame:
  assumes "grid_scroll_up r p g = Some g'"
  shows "frame g' = frame g"
proof (cases "snd r - fst r \<le> int p \<and> fst r \<noteq> 0")
  case True
  then show ?thesis using assms by (auto simp: grid_scroll_up_def Let_def dest: reset_lines_frame)
next
  case False
  let ?g = "if g_display_offset g \<noteq> 0
    then g\<lparr>g_display_offset := min (g_display_offset g + p) (g_max_scroll_limit g)\<rparr> else g"
  have "frame ?g = frame g" by simp
  moreover have "\<exists>g1. frame g1 = frame ?g \<and> reset_lines (line_range (snd r - int p) (snd r)) g1 = Some g'"
  proof (cases "fst r = 0")
    case True
    then show ?thesis using assms False
      by (auto simp: grid_scroll_up_def Let_def bind_eq_Some_conv
          dest!: swap_lines_frame increase_scroll_limit_frame)
  next
    case nz: False
    obtain g1 where g1: "swap_lines (\<lambda>i. i + int p) (line_range (fst r) (snd r - int p)) ?g = Some g1"
      "reset_lines (line_range (snd r - int p) (snd r)) g1 = Some g'"
      using assms False nz unfolding grid_scroll_up_def Let_def by (auto simp: bind_eq_Some_conv)
    then show ?thesis using swap_lines_frame by blast
  qed
  ultimately show ?thesis using reset_lines_frame by fastforce
qed

lemma clear_viewport_frame: "clear_viewport g = Some g' \<Longrightarrow> frame g' = frame g"
  by (auto simp: clear_viewport_def bind_eq_Some_conv Let_def
      dest!: reset_lines_frame grid_scroll_up_frame)

lemma clear_history_frame: "clear_history g = Some g' \<Longrightarrow> frame g' = frame g"
  by (auto simp: clear_history_def bind_eq_Some_conv Let_def frame_def)

lemma clear_viewport_keeps: "grid_ok strict g \<Longrightarrow> returns (clear_viewport g) (keeps strict g)"
  using clear_viewport_rows [of strict g] clear_viewport_frame [of g]
  by (auto simp: returns_def keeps_def)

lemma clear_history_keeps: "grid_ok strict g \<Longrightarrow> returns (clear_history g) (keeps strict g)"
  using clear_history_cut [of strict g] clear_history_frame [of g]
  by (auto simp: returns_def keeps_def history_cut_def)

lemma grid_scroll_up_keeps:
  assumes ok: "grid_ok strict g" and r: "0 \<le> s" "s \<le> e" "e \<le> int (g_lines g)" "s = 0 \<Longrightarrow> int p \<le> e"
  shows "returns (grid_scroll_up (s, e) p g) (keeps strict g)"
proof (cases "s = 0")
  case True
  obtain raw where raw: "grid_scroll_up (0, e) p g = Some (g\<lparr>g_raw := raw,
      g_display_offset := (if g_display_offset g = 0 then 0
                           else min (g_display_offset g + p) (g_max_scroll_limit g)),
      g_scrolled_out := g_scrolled_out g + (p - (g_max_scroll_limit g - grid_history g))\<rparr>)"
    "storage_ok strict (g_columns g) raw" "st_visible_lines raw = g_lines g"
    "st_len raw = g_lines g + min (grid_history g + p) (g_max_scroll_limit g)"
    using grid_scroll_up_top [OF ok r(3) r(4) [OF True]] by blast
  then show ?thesis
    using True by (auto simp: returns_def keeps_def intro!: grid_okI(1))
next
  case False
  then have "0 < s" using r by simp
  then obtain raw off where raw: "grid_scroll_up (s, e) p g = Some (g\<lparr>g_raw := raw, g_display_offset := off\<rparr>)"
    "scrolled_up strict (s, e) p g raw"
    using grid_scroll_up_region [OF ok _ r(2,3)] by blast
  then show ?thesis
    using ok by (auto simp: returns_def keeps_def scrolled_up_def grid_ok_def grid_dims_def)
qed

lemma grid_scroll_down_keeps:
  assumes ok: "grid_ok strict g" and r: "0 \<le> s" "s \<le> e" "e \<le> int (g_lines g)"
  shows "returns (grid_scroll_down (s, e) p g) (keeps strict g)"
  using grid_scroll_down_rows [OF ok r, of p] ok
  by (auto simp: returns_def keeps_def scrolled_down_def grid_ok_def grid_dims_def)

lemma reset_lines_keeps:
  assumes "grid_ok strict g" "\<And>l. l \<in> set ls \<Longrightarrow> 0 \<le> l \<and> l < int (g_lines g)"
  shows "returns (reset_lines ls g) (keeps strict g)"
proof -
  have "\<forall>l \<in> set ls. valid_line (g_raw g) l"
    using assms valid_line_grid [OF assms(1)] by force
  then show ?thesis
    using reset_lines_grid [OF assms(1)] grid_ok_frame [OF assms(1)]
    by (fastforce simp: returns_def keeps_def)
qed

lemma reset_region_keeps:
  assumes "grid_ok strict g" "bound_start lo \<ge> 0" "bound_start lo < int (g_lines g)" "bound_end hi g \<le> int (g_lines g)"
  shows "returns (reset_region lo hi g) (keeps strict g)"
  using assms by (auto simp: reset_region_def returns_rules panic_free intro!: reset_lines_keeps)

lemma scroll_display_keeps:
  assumes "grid_ok strict g" "\<And>d. scroll = Delta d \<Longrightarrow> i32_add (as_i32 (int (g_display_offset g))) d \<noteq> None"
  shows "returns (scroll_display scroll g) (keeps strict g)"
proof -
  have "keeps strict g (g\<lparr>g_display_offset := off\<rparr>)" for off
    using assms(1) by (simp add: keeps_def grid_ok_def grid_dims_def)
  then show ?thesis
    using assms(2) by (cases scroll) (auto simp: scroll_display_def returns_rules returns_def)
qed

lemma update_history_keeps:
  assumes ok: "grid_ok strict g"
  shows "returns (update_history m g) (\<lambda>g'. grid_ok strict g' \<and> frame g' = frame (g\<lparr>g_max_scroll_limit := m\<rparr>))"
proof (cases "grid_history g > m")
  case True
  then obtain raw where raw: "storage_shrink_lines (grid_history g - m) (g_raw g) = Some raw"
    "storage_ok strict (g_columns g) raw" "st_visible_lines raw = g_lines g" "st_len raw = g_lines g + m"
    using grid_shrink [OF ok, of "grid_history g - m"] by auto
  then show ?thesis
    using True by (auto simp: update_history_def frame_def intro!: grid_okI(1))
next
  case False
  then show ?thesis
    using ok by (simp add: update_history_def frame_def grid_ok_def grid_dims_def)
qed

section \<open>Writing cells\<close>

text \<open>An update that does not introduce an image or a marker.\<close>

definition clean_update :: "(cell \<Rightarrow> cell) \<Rightarrow> bool" where
  "clean_update f \<longleftrightarrow> (\<forall>c. \<not> transient_cell c \<longrightarrow> \<not> transient_cell (f c))"

lemma grid_line_mut_keeps:
  assumes ok: "grid_ok strict g" and l: "- int (grid_history g) \<le> l" "l < int (g_lines g)"
    and f: "row_std strict (g_columns g) (row_at g l) \<Longrightarrow> \<exists>r'. f (row_at g l) = Some r' \<and>
      row_std strict (g_columns g) r' \<and> (row_clean (row_at g l) \<longrightarrow> row_clean r')"
  shows "returns (grid_index_line_mut f l g) (keeps strict g)"
proof -
  have st: "storage_ok strict (g_columns g) (g_raw g)" using ok by (simp add: grid_ok_def)
  have v: "valid_line (g_raw g) l" using valid_line_grid [OF ok] l by simp
  have good: "row_good strict (g_columns g) (g_raw g) (row_at g l)" by (rule line_at_good [OF st v])
  then obtain r' where r': "f (row_at g l) = Some r'" "row_std strict (g_columns g) r'"
    "row_clean (row_at g l) \<longrightarrow> row_clean r'"
    using f unfolding row_good_def by blast
  then have "row_good strict (g_columns g) (g_raw g) r'" using good by (auto simp: row_good_def)
  then obtain raw where "storage_index_mut f l (g_raw g) = Some raw" "storage_ok strict (g_columns g) raw"
    "storage_frame raw = storage_frame (g_raw g)"
    using storage_index_mut_line [of strict "g_columns g" "g_raw g" l f r'] st v r'(1) by blast
  then show ?thesis
    using grid_ok_frame [OF ok] by (auto simp: returns_def keeps_def grid_index_line_mut_def)
qed

lemma row_clean_update:
  "row_clean r \<Longrightarrow> clean_update f \<Longrightarrow> row_inner r' = (row_inner r)[i := f (row_inner r ! i)] \<Longrightarrow> row_clean r'"
proof (cases "i < length (row_inner r)")
  case True
  assume "row_clean r" "clean_update f" and r': "row_inner r' = (row_inner r)[i := f (row_inner r ! i)]"
  then have "\<not> transient_cell (f (row_inner r ! i))"
    using True by (auto simp: row_clean_def clean_update_def list_all_length)
  then show ?thesis
    using \<open>row_clean r\<close> r' set_update_subset_insert [of "row_inner r" i "f (row_inner r ! i)"]
    by (auto simp: row_clean_def list_all_iff)
qed (simp add: row_clean_def list_update_beyond)

lemma grid_index_mut_keeps:
  assumes ok: "grid_ok strict g" and p: "inside g p" and f: "clean_update f"
  shows "returns (grid_index_mut f p g) (keeps strict g)"
  unfolding grid_index_mut_def
proof (rule grid_line_mut_keeps [OF ok])
  show "- int (grid_history g) \<le> line p" "line p < int (g_lines g)" using p by (auto simp: inside_iff)
  let ?r = "row_at g (line p)"
  assume "row_std strict (g_columns g) ?r"
  then show "\<exists>r'. row_index_mut f (column p) ?r = Some r' \<and> row_std strict (g_columns g) r' \<and>
      (row_clean ?r \<longrightarrow> row_clean r')"
    using row_index_mut_std [of strict "g_columns g" ?r "column p" f] p f
    by (auto simp: inside_iff intro: row_clean_update)
qed

lemma row_slice_mut_std:
  assumes r: "row_std strict n r" and ab: "a \<le> b" "b \<le> n" and occ: "max (row_occ r) b \<le> occ" "occ \<le> n"
    and f: "\<And>cs. length (f cs) = length cs"
  shows "\<exists>r'. row_slice_mut occ f a b r = Some r' \<and> row_std strict n r' \<and>
    row_inner r' = take a (row_inner r) @ f (drop a (take b (row_inner r))) @ drop b (row_inner r)"
proof -
  let ?cs = "row_inner r"
  have len: "length ?cs = n" and clean: "list_all (\<lambda>c. \<not> transient_cell c) (drop (row_occ r) ?cs)"
    using r by (auto simp: row_std_def row_wf_def)
  let ?r = "\<lparr>row_inner = take a ?cs @ f (drop a (take b ?cs)) @ drop b ?cs, row_occ = occ\<rparr>"
  have eq: "row_slice_mut occ f a b r = Some ?r" using ab len by (simp add: row_slice_mut_def panic_free)
  have "drop occ (row_inner ?r) = drop occ ?cs" using ab occ len by (auto simp: f)
  moreover have "set (drop occ ?cs) \<subseteq> set (drop (row_occ r) ?cs)"
    by (rule set_drop_subset_set_drop) (use occ in simp)
  ultimately have "row_wf n ?r" using ab occ len f clean by (auto simp: row_wf_def list_all_iff)
  moreover have "row_ok ?r" if strict
    using row_slice_mut_ok [OF _ f eq] r that occ len by (auto simp: row_std_def row_len_def)
  ultimately show ?thesis using eq by (auto simp: row_std_def)
qed

text \<open>Blanking a stretch of cells, in the forms the handlers use.\<close>

lemma row_blank_clean:
  assumes "row_clean r" "row_inner r' = take a (row_inner r) @ map (\<lambda>_. cell_of_color bg) xs @ drop b (row_inner r)"
  shows "row_clean r'"
  using assms by (auto simp: row_clean_def list_all_iff dest: in_set_takeD in_set_dropD)

lemma row_blank_keeps:
  assumes "row_std strict n r"
  shows "a \<le> b \<Longrightarrow> b \<le> n \<Longrightarrow> \<exists>r'. row_range_mut (map (\<lambda>_. cell_of_color bg)) a b r = Some r' \<and> row_std strict n r' \<and>
      (row_clean r \<longrightarrow> row_clean r')"
    "b \<le> n \<Longrightarrow> \<exists>r'. row_range_to_mut (map (\<lambda>_. cell_of_color bg)) b r = Some r' \<and> row_std strict n r' \<and>
      (row_clean r \<longrightarrow> row_clean r')"
    "a \<le> n \<Longrightarrow> \<exists>r'. row_range_from_mut (map (\<lambda>_. cell_of_color bg)) a r = Some r' \<and> row_std strict n r' \<and>
      (row_clean r \<longrightarrow> row_clean r')"
proof -
  have occ: "row_occ r \<le> n" "row_len r = n" using assms by (auto simp: row_std_def row_wf_def row_len_def)
  have *: "\<exists>r'. row_slice_mut k (map (\<lambda>_. cell_of_color bg)) a b r = Some r' \<and> row_std strict n r' \<and>
      (row_clean r \<longrightarrow> row_clean r')" if "a \<le> b" "b \<le> n" "max (row_occ r) b \<le> k" "k \<le> n" for a b k
    using row_slice_mut_std [OF assms that, of "map (\<lambda>_. cell_of_color bg)"] row_blank_clean by fastforce
  show "a \<le> b \<Longrightarrow> b \<le> n \<Longrightarrow> \<exists>r'. row_range_mut (map (\<lambda>_. cell_of_color bg)) a b r = Some r' \<and> row_std strict n r' \<and>
      (row_clean r \<longrightarrow> row_clean r')"
    unfolding row_range_mut_def by (rule *) (use occ in auto)
  show "b \<le> n \<Longrightarrow> \<exists>r'. row_range_to_mut (map (\<lambda>_. cell_of_color bg)) b r = Some r' \<and> row_std strict n r' \<and>
      (row_clean r \<longrightarrow> row_clean r')"
    unfolding row_range_to_mut_def by (rule *) (use occ in auto)
  show "a \<le> n \<Longrightarrow> \<exists>r'. row_range_from_mut (map (\<lambda>_. cell_of_color bg)) a r = Some r' \<and> row_std strict n r' \<and>
      (row_clean r \<longrightarrow> row_clean r')"
    unfolding row_range_from_mut_def by (rule *) (use occ in auto)
qed

lemma grid_cells_keeps:
  assumes ok: "grid_ok strict g" and l: "- int (grid_history g) \<le> l" "l < int (g_lines g)"
    and cs: "length cs = g_columns g" "row_clean (row_at g l) \<Longrightarrow> list_all (\<lambda>c. \<not> transient_cell c) cs"
  shows "returns (grid_index_line_mut (row_range_full_mut (\<lambda>_. cs)) l g) (keeps strict g)"
proof (rule grid_line_mut_keeps [OF ok l])
  let ?r = "\<lparr>row_inner = cs, row_occ = length cs\<rparr>"
  assume "row_std strict (g_columns g) (row_at g l)"
  then have "row_range_full_mut (\<lambda>_. cs) (row_at g l) = Some ?r"
    using cs(1) by (simp add: row_range_full_mut_def row_slice_mut_def row_len_def row_std_def row_wf_def panic_free)
  moreover have "row_std strict (g_columns g) ?r"
    using cs(1) by (simp add: row_std_def row_wf_def row_ok_full)
  ultimately show "\<exists>r'. row_range_full_mut (\<lambda>_. cs) (row_at g l) = Some r' \<and> row_std strict (g_columns g) r' \<and>
      (row_clean (row_at g l) \<longrightarrow> row_clean r')"
    using cs(2) by (simp add: row_clean_def)
qed

lemma grid_index_line_Some:
  assumes "grid_ok strict g" "- int (grid_history g) \<le> l" "l < int (g_lines g)"
  shows "grid_index_line l g = Some (row_at g l)" "length (row_inner (row_at g l)) = g_columns g"
  using assms storage_index_line [of strict "g_columns g" "g_raw g" l] valid_line_grid [OF assms(1), of l]
    line_at_length [of strict "g_columns g" "g_raw g" l]
  by (auto simp: grid_index_line_def grid_ok_def)

section \<open>Reset\<close>

lemma grid_reset_frame:
  assumes "grid_reset g = Some g'"
  shows "frame g' = frame (g\<lparr>g_cursor := default_cursor, g_saved_cursor := default_cursor\<rparr>)"
proof -
  obtain g1 where g1: "clear_history g = Some g1" "frame g' = frame (g1\<lparr>g_cursor := default_cursor, g_saved_cursor := default_cursor\<rparr>)"
    using assms by (auto simp: grid_reset_def bind_eq_Some_conv Let_def frame_def dest!: reset_lines_frame)
  then show ?thesis using clear_history_frame [OF g1(1)] by (simp add: frame_def)
qed

lemma grid_reset_keeps:
  "grid_ok strict g \<Longrightarrow>
     returns (grid_reset g) (keeps strict (g\<lparr>g_cursor := default_cursor, g_saved_cursor := default_cursor\<rparr>))"
  using grid_reset_blank [of strict g] grid_reset_frame [of g] by (auto simp: returns_def keeps_def)

end
