(* ===== verification/Term_Safety.thy ===== *)
theory Term_Safety
  imports Term_Handler Grid_Frame
begin

text \<open>
  No escape sequence makes the terminal panic. The invariant \<open>term_ok\<close> says that both screens are
  well-formed grids of the terminal's size with their cursors inside, that the scroll region,
  tab stops, colours and damage fit that size, that the alternate screen keeps no history and
  that the stacks are bounded. Every handler returns and keeps it, so every sequence of
  handler calls on a fresh terminal does.
\<close>

section \<open>The invariant\<close>

text \<open>
  What a run of the terminal fixes: the strictness of the row invariant, the size of the screen, and
  a bound on the reading epoch.
\<close>

record shape =
  sh_strict :: bool
  sh_columns :: nat
  sh_lines :: nat
  sh_epoch :: nat

definition on_screen :: "shape \<Rightarrow> point \<Rightarrow> bool" where
  "on_screen k p \<longleftrightarrow> 0 \<le> line p \<and> line p < int (sh_lines k) \<and> column p < sh_columns k"

definition cursor_ok :: "shape \<Rightarrow> cursor \<Rightarrow> bool" where
  "cursor_ok k c \<longleftrightarrow> on_screen k (cur_point c) \<and> length (cur_charsets c) = 4 \<and> \<not> transient_cell (cur_template c)"

definition screen_ok :: "shape \<Rightarrow> grid \<Rightarrow> bool" where
  "screen_ok k g \<longleftrightarrow> grid_ok (sh_strict k) g \<and> g_columns g = sh_columns k \<and> g_lines g = sh_lines k \<and>
     cursor_ok k (g_cursor g) \<and> cursor_ok k (g_saved_cursor g)"

definition region_ok :: "shape \<Rightarrow> line_region \<Rightarrow> bool" where
  "region_ok k r \<longleftrightarrow> 0 \<le> fst r \<and> fst r \<le> snd r \<and> snd r \<le> int (sh_lines k)"

definition alternate :: "trm \<Rightarrow> grid" where
  "alternate t = (if has_mode t ALT_SCREEN then t_grid t else t_inactive_grid t)"

definition term_ok :: "shape \<Rightarrow> trm \<Rightarrow> bool" where
  "term_ok k t \<longleftrightarrow> 2 \<le> sh_columns k \<and> 1 \<le> sh_lines k \<and>
     screen_ok k (t_grid t) \<and> screen_ok k (t_inactive_grid t) \<and> g_max_scroll_limit (alternate t) = 0 \<and>
     region_ok k (t_scroll_region t) \<and> length (t_tabs t) = sh_columns k \<and> length (t_colors t) = COLOR_COUNT \<and>
     damage_ok (sh_columns k) (sh_lines k) (t_damage t) \<and>
     length (t_keyboard_stack t) \<le> KEYBOARD_MODE_STACK_MAX_DEPTH \<and>
     length (t_inactive_keyboard_stack t) \<le> KEYBOARD_MODE_STACK_MAX_DEPTH \<and>
     length (t_title_stack t) \<le> TITLE_STACK_MAX_DEPTH \<and>
     records_ok (t_program_statuses t) \<and> rd_epoch (t_reading t) \<le> sh_epoch k \<and>
     \<not> ra_enabled (t_redraw_anchor t) \<and> ra_rows (t_redraw_anchor t) = None \<and>
     t_input_cluster t = None \<and> on_screen k (ds_last_cursor (t_damage t))"

lemma term_okD:
  assumes "term_ok k t"
  shows "2 \<le> sh_columns k" "1 \<le> sh_lines k" "screen_ok k (t_grid t)" "screen_ok k (t_inactive_grid t)"
    "g_max_scroll_limit (alternate t) = 0" "region_ok k (t_scroll_region t)" "length (t_tabs t) = sh_columns k"
    "length (t_colors t) = COLOR_COUNT" "damage_ok (sh_columns k) (sh_lines k) (t_damage t)"
    "length (t_keyboard_stack t) \<le> KEYBOARD_MODE_STACK_MAX_DEPTH"
    "length (t_inactive_keyboard_stack t) \<le> KEYBOARD_MODE_STACK_MAX_DEPTH"
    "length (t_title_stack t) \<le> TITLE_STACK_MAX_DEPTH" "records_ok (t_program_statuses t)"
    "rd_epoch (t_reading t) \<le> sh_epoch k" "\<not> ra_enabled (t_redraw_anchor t)" "ra_rows (t_redraw_anchor t) = None"
    "on_screen k (ds_last_cursor (t_damage t))"
  using assms by (simp_all add: term_ok_def)

lemma screen_okD:
  assumes "term_ok k t"
  shows "grid_ok (sh_strict k) (t_grid t)" "t_columns t = sh_columns k" "t_lines t = sh_lines k"
    "cursor_ok k (t_cursor t)" "cursor_ok k (g_saved_cursor (t_grid t))"
    "0 \<le> line (t_point t)" "line (t_point t) < int (sh_lines k)" "column (t_point t) < sh_columns k"
  using term_okD(3) [OF assms] by (simp_all add: screen_ok_def cursor_ok_def on_screen_def)

lemma alternate_update [simp]:
  "alternate (t\<lparr>t_redraw_anchor := a\<rparr>) = alternate t" "alternate (t\<lparr>t_input_cluster := b\<rparr>) = alternate t"
  "alternate (t\<lparr>t_input_end := c\<rparr>) = alternate t" "alternate (t\<lparr>t_vi_cursor := d\<rparr>) = alternate t"
  "alternate (t\<lparr>t_selection := e\<rparr>) = alternate t" "alternate (t\<lparr>t_active_charset := f\<rparr>) = alternate t"
  "alternate (t\<lparr>t_tabs := h\<rparr>) = alternate t" "alternate (t\<lparr>t_scroll_region := i\<rparr>) = alternate t"
  "alternate (t\<lparr>t_colors := j\<rparr>) = alternate t" "alternate (t\<lparr>t_cursor_style := l\<rparr>) = alternate t"
  "alternate (t\<lparr>t_cursor_blinking_override := m\<rparr>) = alternate t" "alternate (t\<lparr>t_title := n\<rparr>) = alternate t"
  "alternate (t\<lparr>t_title_stack := p\<rparr>) = alternate t" "alternate (t\<lparr>t_keyboard_stack := q\<rparr>) = alternate t"
  "alternate (t\<lparr>t_inactive_keyboard_stack := q\<rparr>) = alternate t" "alternate (t\<lparr>t_damage := r\<rparr>) = alternate t"
  "alternate (t\<lparr>t_reading := s\<rparr>) = alternate t" "alternate (t\<lparr>t_program_statuses := u\<rparr>) = alternate t"
  "alternate (t\<lparr>t_presentation_origin := v\<rparr>) = alternate t"
  "alternate (t\<lparr>t_presentation_scroll_generation := w\<rparr>) = alternate t"
  "alternate (t\<lparr>t_bringup_da1_pending := x\<rparr>) = alternate t" "alternate (t\<lparr>t_color_scheme_dark := y\<rparr>) = alternate t"
  "alternate (t\<lparr>t_config := z\<rparr>) = alternate t" "alternate (t\<lparr>t_events := es\<rparr>) = alternate t"
  by (simp_all add: alternate_def)

text \<open>Fields the invariant does not mention.\<close>

lemma term_ok_update [simp]:
  "term_ok k (t\<lparr>t_vi_cursor := d\<rparr>) = term_ok k t" "term_ok k (t\<lparr>t_selection := e\<rparr>) = term_ok k t"
  "term_ok k (t\<lparr>t_active_charset := f\<rparr>) = term_ok k t" "term_ok k (t\<lparr>t_cursor_style := l\<rparr>) = term_ok k t"
  "term_ok k (t\<lparr>t_cursor_blinking_override := m\<rparr>) = term_ok k t" "term_ok k (t\<lparr>t_title := n\<rparr>) = term_ok k t"
  "term_ok k (t\<lparr>t_presentation_origin := v\<rparr>) = term_ok k t"
  "term_ok k (t\<lparr>t_presentation_scroll_generation := w\<rparr>) = term_ok k t"
  "term_ok k (t\<lparr>t_bringup_da1_pending := x\<rparr>) = term_ok k t" "term_ok k (t\<lparr>t_color_scheme_dark := y\<rparr>) = term_ok k t"
  "term_ok k (t\<lparr>t_config := z\<rparr>) = term_ok k t" "term_ok k (t\<lparr>t_input_end := c\<rparr>) = term_ok k t" "term_ok k (t\<lparr>t_events := es\<rparr>) = term_ok k t"
  by (simp_all add: term_ok_def)

lemma term_ok_send_event [simp]: "term_ok k (send_event e t) = term_ok k t"
  by (simp add: send_event_def)

lemma term_ok_damaged [simp]: "term_ok k (mark_fully_damaged t) = term_ok k t"
  by (simp add: mark_fully_damaged_def term_ok_def)

lemma term_ok_reset_input [simp]: "term_ok k t \<Longrightarrow> term_ok k (reset_input_cluster t)"
  by (simp add: reset_input_cluster_def term_ok_def)

lemma term_ok_cancel [simp]: "term_ok k (cancel_redraw_anchor t) = term_ok k t" if "ra_rows (t_redraw_anchor t) = None"
  using that by (simp add: cancel_redraw_anchor_def term_ok_def)

text \<open>The cursor.\<close>

lemma screen_ok_cursor: "screen_ok k g \<Longrightarrow> cursor_ok k c \<Longrightarrow> screen_ok k (g\<lparr>g_cursor := c\<rparr>)"
  by (simp add: screen_ok_def)

lemma term_ok_grid:
  "term_ok k t \<Longrightarrow> screen_ok k g \<Longrightarrow> g_max_scroll_limit g = g_max_scroll_limit (t_grid t) \<Longrightarrow> term_ok k (t\<lparr>t_grid := g\<rparr>)"
  by (simp add: term_ok_def alternate_def split: if_splits)

lemma term_ok_with_cursor:
  assumes "term_ok k t" "cursor_ok k (f (t_cursor t))"
  shows "term_ok k (with_cursor f t)"
  unfolding with_cursor_def
  by (rule term_ok_grid [OF assms(1)]) (use screen_ok_cursor [OF term_okD(3) [OF assms(1)] assms(2)] in simp_all)

lemma term_ok_set_point:
  assumes "term_ok k t" "on_screen k p"
  shows "term_ok k (set_point p t)"
  unfolding set_point_def
  by (rule term_ok_with_cursor [OF assms(1)]) (use screen_okD(4) [OF assms(1)] assms(2) in \<open>simp add: cursor_ok_def\<close>)

lemma term_ok_set_column: "term_ok k t \<Longrightarrow> c < sh_columns k \<Longrightarrow> term_ok k (set_column c t)"
  unfolding set_column_def using screen_okD(6,7) [of k t] by (intro term_ok_set_point) (simp_all add: on_screen_def)

lemma term_ok_set_line: "term_ok k t \<Longrightarrow> 0 \<le> l \<Longrightarrow> l < int (sh_lines k) \<Longrightarrow> term_ok k (set_line l t)"
  unfolding set_line_def using screen_okD(8) [of k t] by (intro term_ok_set_point) (simp_all add: on_screen_def)

lemma term_ok_set_needs_wrap [simp]:
  assumes "term_ok k t"
  shows "term_ok k (set_needs_wrap b t)"
  unfolding set_needs_wrap_def
  by (rule term_ok_with_cursor [OF assms]) (use screen_okD(4) [OF assms] in \<open>simp add: cursor_ok_def\<close>)

lemma term_ok_with_template:
  assumes "term_ok k t" "clean_update f"
  shows "term_ok k (with_template f t)"
  unfolding with_template_def
  by (rule term_ok_with_cursor [OF assms(1)])
    (use screen_okD(4) [OF assms(1)] assms(2) in \<open>simp add: cursor_ok_def clean_update_def\<close>)

lemmas cursor_updates = set_column_def set_line_def set_point_def set_needs_wrap_def with_template_def with_cursor_def

section \<open>Steps that leave the cursor alone\<close>

definition calm :: "shape \<Rightarrow> trm \<Rightarrow> trm \<Rightarrow> bool" where
  "calm k t t' \<longleftrightarrow> term_ok k t' \<and> t_cursor t' = t_cursor t \<and> t_scroll_region t' = t_scroll_region t \<and> t_mode t' = t_mode t"

lemma calm_ok: "calm k t t' \<Longrightarrow> term_ok k t'"
  by (simp add: calm_def)

lemma bind_step: "returns m P \<Longrightarrow> (\<And>t. P t \<Longrightarrow> returns (f t) Q) \<Longrightarrow> returns (Option.bind m f) Q"
  by (auto simp: returns_def)

lemma returns_ifI: "(b \<Longrightarrow> returns m Q) \<Longrightarrow> (\<not> b \<Longrightarrow> returns n Q) \<Longrightarrow> returns (if b then m else n) Q"
  by simp

lemma screen_ok_keeps:
  "screen_ok k g \<Longrightarrow> keeps (sh_strict k) g g' \<Longrightarrow> screen_ok k g'"
  "keeps strict g g' \<Longrightarrow> g_max_scroll_limit g' = g_max_scroll_limit g"
  by (simp_all add: screen_ok_def keeps_def frame_def)

lemma with_grid_calm:
  assumes t: "term_ok k t" and f: "returns (f (t_grid t)) (keeps (sh_strict k) (t_grid t))"
  shows "returns (with_grid f t) (calm k t)"
proof -
  obtain g where g: "f (t_grid t) = Some g" "keeps (sh_strict k) (t_grid t) g" using f by (rule returnsE)
  have "term_ok k (t\<lparr>t_grid := g\<rparr>)"
    using term_ok_grid [OF t] screen_ok_keeps(1) [OF term_okD(3) [OF t] g(2)] screen_ok_keeps(2) [OF g(2)] by blast
  then show ?thesis using g by (simp add: with_grid_def calm_def keeps_def frame_def)
qed

lemma damage_line_calm:
  assumes t: "term_ok k t" and l: "l < sh_lines k"
  shows "returns (term_damage_line l a b t) (calm k t)"
proof -
  obtain d where d: "damage_line l a b (t_damage t) = Some d" "damage_ok (sh_columns k) (sh_lines k) d"
    "ds_last_cursor d = ds_last_cursor (t_damage t)"
    using damage_line_ok [OF term_okD(9) [OF t] l] by blast
  have "term_ok k (t\<lparr>t_damage := d\<rparr>)" using t d(2,3) by (simp add: term_ok_def)
  then show ?thesis using d(1) by (simp add: term_damage_line_def calm_def)
qed

lemma cursor_line_less: "term_ok k t \<Longrightarrow> line_as_usize (line (t_point t)) < sh_lines k"
  using screen_okD(6,7) [of k t] by simp

lemma damage_cursor_calm: "term_ok k t \<Longrightarrow> returns (damage_cursor t) (calm k t)"
  using damage_line_calm [OF _ cursor_line_less, of k t]
  by (simp add: damage_cursor_def damage_point_def term_damage_line_def)

lemma in_grid_on_screen:
  assumes "term_ok k t" "on_screen k p"
  shows "inside (t_grid t) p"
  using assms screen_okD(2,3) [OF assms(1)] by (simp add: inside_iff on_screen_def)

lemma write_cell_calm:
  assumes "term_ok k t" "inside (t_grid t) p" "clean_update f"
  shows "returns (with_grid (grid_index_mut f p) t) (calm k t)"
  by (rule with_grid_calm [OF assms(1)], rule grid_index_mut_keeps [OF screen_okD(1) [OF assms(1)] assms(2,3)])

lemma cursor_cell_calm:
  assumes "term_ok k t" "clean_update f"
  shows "returns (with_grid (cursor_cell f) t) (calm k t)"
proof (rule with_grid_calm [OF assms(1)])
  have "inside (t_grid t) (t_point t)"
    using screen_okD [OF assms(1)] by (simp add: inside_iff)
  then show "returns (cursor_cell f (t_grid t)) (keeps (sh_strict k) (t_grid t))"
    unfolding cursor_cell_def by (rule grid_index_mut_keeps [OF screen_okD(1) [OF assms(1)] _ assms(2)])
qed

lemma selection_rotate_returns:
  assumes "0 < columns d"
  shows "\<exists>x. selection_rotate d r delta sel = Some x"
proof -
  obtain lc where "last_column d = Some lc" using assms by (simp add: last_column_def usize_sub_def)
  then have "\<exists>x. rotate_end d a b delta ty s e = Some x" for a b ty s e
    by (simp add: rotate_end_def Let_def)
  then show ?thesis
    unfolding selection_rotate_anchors by (metis (no_types, lifting) bind.bind_lunit option.case_eq_if)
qed

lemma rotate_selection_calm:
  assumes "term_ok k t"
  shows "returns (rotate_selection r d t) (calm k t)"
proof (cases "t_selection t")
  case None
  then show ?thesis using assms by (simp add: rotate_selection_def calm_def)
next
  case (Some s)
  obtain x where "selection_rotate (t_dims t) r d s = Some x"
    using selection_rotate_returns [of "t_dims t" r d s] screen_okD(2) [OF assms] term_okD(1) [OF assms]
    by (auto simp: grid_dims_def)
  then show ?thesis using Some assms by (simp add: rotate_selection_def calm_def)
qed

lemma bind_calm:
  "returns m (calm k t0) \<Longrightarrow> (\<And>t. calm k t0 t \<Longrightarrow> term_ok k t \<Longrightarrow> returns (f t) Q) \<Longrightarrow> returns (Option.bind m f) Q"
  by (auto simp: returns_def calm_def)

lemma returns_calm_ok: "returns m (calm k t) \<Longrightarrow> returns m (term_ok k)"
  by (auto simp: returns_def calm_def)

lemma scroll_down_calm:
  "term_ok k t \<Longrightarrow> 0 \<le> fst r \<Longrightarrow> fst r \<le> snd r \<Longrightarrow> snd r \<le> int (sh_lines k) \<Longrightarrow>
     returns (with_grid (grid_scroll_down r p) t) (calm k t)"
  by (cases r, rule with_grid_calm) (auto simp: screen_okD intro!: grid_scroll_down_keeps)

lemma scroll_up_calm:
  "term_ok k t \<Longrightarrow> 0 \<le> fst r \<Longrightarrow> fst r \<le> snd r \<Longrightarrow> snd r \<le> int (sh_lines k) \<Longrightarrow> fst r = 0 \<longrightarrow> int p \<le> snd r \<Longrightarrow>
     returns (with_grid (grid_scroll_up r p) t) (calm k t)"
  by (cases r, rule with_grid_calm) (auto simp: screen_okD intro!: grid_scroll_up_keeps)

section \<open>Scrolling and wrapping\<close>

text \<open>Every operation from here on returns a terminal that satisfies the invariant.\<close>

lemma reset_input_simps [simp]:
  "t_scroll_region (reset_input_cluster t) = t_scroll_region t" "t_grid (reset_input_cluster t) = t_grid t"
  "t_mode (reset_input_cluster t) = t_mode t" "t_tabs (reset_input_cluster t) = t_tabs t"
  by (simp_all add: reset_input_cluster_def)

lemma region_okD:
  assumes "term_ok k t"
  shows "0 \<le> fst (t_scroll_region t)" "fst (t_scroll_region t) \<le> snd (t_scroll_region t)"
    "snd (t_scroll_region t) \<le> int (sh_lines k)"
  using term_okD(6) [OF assms] by (simp_all add: region_ok_def)

lemma scroll_down_relative_ok:
  assumes t: "term_ok k t" and o: "fst (t_scroll_region t) \<le> origin" "origin \<le> snd (t_scroll_region t)"
  shows "returns (scroll_down_relative origin lines t) (term_ok k)"
  unfolding scroll_down_relative_def Let_def
  apply (rule bind_calm [OF rotate_selection_calm [OF term_ok_reset_input [OF t]]])
  apply (rule bind_calm, rule scroll_down_calm [where k = k])
  using o region_okD [OF t] by auto

lemma scroll_up_relative_ok:
  assumes t: "term_ok k t" and o: "fst (t_scroll_region t) \<le> origin" "origin \<le> snd (t_scroll_region t)"
  shows "returns (scroll_up_relative origin lines t) (term_ok k)"
  unfolding scroll_up_relative_def Let_def
  apply (rule bind_calm [OF rotate_selection_calm [OF term_ok_reset_input [OF t]]])
  apply (rule bind_calm, rule scroll_up_calm [where k = k])
  using o region_okD [OF t] by auto

lemma term_scroll_ok:
  assumes "term_ok k t"
  shows "returns (term_scroll_up lines t) (term_ok k)" "returns (term_scroll_down lines t) (term_ok k)"
  using scroll_up_relative_ok [OF assms] scroll_down_relative_ok [OF assms] region_okD [OF assms]
  by (simp_all add: term_scroll_up_def term_scroll_down_def)

lemma damage_set_line_ok:
  "term_ok k t \<Longrightarrow> 0 \<le> l \<Longrightarrow> l < int (sh_lines k) \<Longrightarrow> returns (damage_cursor (set_line l t)) (term_ok k)"
  by (rule returns_calm_ok, rule damage_cursor_calm, rule term_ok_set_line)

lemma linefeed_ok:
  assumes t: "term_ok k t"
  shows "returns (linefeed t) (term_ok k)"
proof -
  note s = term_ok_reset_input [OF t]
  show ?thesis
    using screen_okD(3,6) [OF t] s
    by (auto simp: linefeed_def Let_def intro!: bind_calm [OF damage_cursor_calm [OF s]]
        damage_set_line_ok term_scroll_ok(1) [OF s, simplified])
qed

lemma clean_flags [simp]: "clean_update (insert_flag f)" "clean_update (remove_flag f)" "clean_update (\<lambda>c. c)"
  by (simp_all add: clean_update_def insert_flag_def remove_flag_def transient_cell_def cell_image_def cell_inline_marker_def)

lemma wrap_down_ok:
  assumes t: "term_ok k t" and l: "l = line (t_point t)"
  shows "returns (if snd (t_scroll_region t) \<le> l + 1 then linefeed t
    else Option.bind (damage_cursor t) (\<lambda>t. Some (set_line (line (t_point t) + 1) t))) (term_ok k)"
proof (cases "snd (t_scroll_region t) \<le> l + 1")
  case False
  have "returns (Option.bind (damage_cursor t) (\<lambda>t. Some (set_line (line (t_point t) + 1) t))) (term_ok k)"
    by (rule bind_calm [OF damage_cursor_calm [OF t]])
      (use False l region_okD(3) [OF t] screen_okD(6) [OF t] in \<open>auto simp: calm_def intro!: term_ok_set_line\<close>)
  then show ?thesis using False by simp
qed (simp add: linefeed_ok [OF t])

lemma wrap_home_ok:
  assumes "term_ok k t"
  shows "returns (damage_cursor (set_needs_wrap False (set_column 0 t))) (\<lambda>t'. term_ok k t' \<and> column (t_point t') = 0)"
  by (rule returns_mono [OF damage_cursor_calm [OF term_ok_set_needs_wrap [OF term_ok_set_column [OF assms]]]])
    (use term_okD(1) [OF assms] in \<open>auto simp: calm_def cursor_updates\<close>)

lemma wrapline_ok:
  assumes t: "term_ok k t"
  shows "returns (wrapline t) (\<lambda>t'. term_ok k t' \<and> (has_mode t LINE_WRAP \<longrightarrow> column (t_point t') = 0))"
proof (cases "has_mode t LINE_WRAP")
  case True
  have flag: "returns (if b then with_grid (cursor_cell (insert_flag f)) t else with_grid (cursor_cell (remove_flag h)) t)
      (calm k t)" for b f h
    by (cases b) (simp_all add: cursor_cell_calm [OF t])
  have "returns (wrapline t) (\<lambda>t'. term_ok k t' \<and> column (t_point t') = 0)"
    unfolding wrapline_def Let_def eqTrueI [OF True] not_True_eq_False if_False
    by (rule bind_calm [OF flag], rule bind_step [OF wrap_down_ok wrap_home_ok]) (simp_all add: calm_def)
  then show ?thesis by (rule returns_mono) simp
qed (use t in \<open>simp add: wrapline_def\<close>)

section \<open>Writing\<close>

lemma charset_returns:
  assumes "term_ok k t"
  shows "\<exists>cs. charsets_index (cur_charsets (t_cursor t)) i = Some cs"
  using screen_okD(4) [OF assms] by (cases i) (auto simp: charsets_index_def cursor_ok_def vec_get_def)

lemma last_column_shape: "term_ok k t \<Longrightarrow> last_column (t_dims t) = Some (sh_columns k - 1)"
  using term_okD(1) [of k t] screen_okD(2) [of k t] by (simp add: last_column_def usize_sub_def grid_dims_def)

lemma cursor_cell_Some: "term_ok k t \<Longrightarrow> grid_index (t_point t) (t_grid t) = Some (cell_at (t_grid t) (t_point t))"
  using screen_okD [of k t] by (intro grid_index_cell) auto

lemma clean_template:
  "\<not> transient_cell c \<Longrightarrow> clean_update (\<lambda>x. x\<lparr>cell_c := ch, cell_fg := cell_fg c, cell_bg := cell_bg c,
       cell_flags := cell_flags c, cell_extra := cell_extra c\<rparr>)"
  by (simp add: clean_update_def transient_cell_def cell_image_def cell_inline_marker_def)

lemma clean_clear_wide [simp]: "clean_update clear_wide"
  unfolding clean_update_def
proof (intro allI impI)
  fix c assume "\<not> transient_cell c"
  then have c: "\<not> transient_cell (c\<lparr>cell_flags := f\<rparr>)" for f by (simp add: transient_cell_def cell_inline_marker_def)
  show "\<not> transient_cell (clear_wide c)"
    using c [of "flags_remove WIDE_CHAR (cell_flags c)"]
    by (cases "cell_extra c")
      (auto simp: clear_wide_def cell_discard_id Let_def transient_cell_def cell_inline_marker_def)
qed

text \<open>The removal of the other half of a wide character that is overwritten.\<close>

lemma split_neighbour_calm:
  assumes t: "term_ok k t" and p: "on_screen k p"
  shows "returns (if b \<and> column p < sh_columns k - 1
      then with_grid (grid_index_mut (remove_flag WIDE_CHAR_SPACER) (Point (line p) (column p + 1))) t
      else if column p > 0 then with_grid (grid_index_mut clear_wide (Point (line p) (column p - 1))) t
      else Some t) (calm k t)"
  using t p by (auto simp: calm_def on_screen_def intro!: write_cell_calm in_grid_on_screen)

lemma split_spacer_calm:
  assumes t: "term_ok k t" and p: "on_screen k p"
  shows "returns (if column p \<le> 1 \<and> line p \<noteq> topmost_line (t_dims t)
      then with_grid (grid_index_mut (remove_flag LEADING_WIDE_CHAR_SPACER) (Point (line p - 1) (sh_columns k - 1))) t
      else Some t) (calm k t)"
  using t p screen_okD(2,3) [OF t] term_okD(1) [OF t]
  by (auto simp: calm_def inside_iff topmost_line_history on_screen_def intro!: write_cell_calm)

lemma calm_trans: "calm k t t1 \<Longrightarrow> calm k t1 t2 \<Longrightarrow> calm k t t2"
  by (simp add: calm_def)

lemma bind_calm_trans:
  "returns m (calm k t1) \<Longrightarrow> calm k t t1 \<Longrightarrow> (\<And>t2. calm k t t2 \<Longrightarrow> term_ok k t2 \<Longrightarrow> returns (f t2) Q) \<Longrightarrow>
     returns (Option.bind m f) Q"
  by (auto simp: returns_def calm_def)

lemma write_at_cursor_calm:
  assumes t: "term_ok k t"
  shows "returns (write_at_cursor u c t) (calm k t)"
proof -
  obtain cs where cs: "charsets_index (cur_charsets (t_cursor t)) (t_active_charset t) = Some cs"
    using charset_returns [OF t] by blast
  have tpl: "\<not> transient_cell (cur_template (t_cursor t))" using screen_okD(4) [OF t] by (simp add: cursor_ok_def)
  have final: "returns (with_grid (cursor_cell (\<lambda>x. x\<lparr>cell_c := ch, cell_fg := cell_fg (cur_template (t_cursor t)),
      cell_bg := cell_bg (cur_template (t_cursor t)), cell_flags := cell_flags (cur_template (t_cursor t)),
      cell_extra := cell_extra (cur_template (t_cursor t))\<rparr>)) t1) (calm k t)" if "calm k t t1" for t1 ch
    using cursor_cell_calm [OF calm_ok [OF that] clean_template [OF tpl]] calm_trans [OF that] by (rule returns_mono)
  have touch: "returns (with_grid (cursor_cell (\<lambda>x. x)) t1) (calm k t1)" if "term_ok k t1" for t1
    using that by (rule cursor_cell_calm) simp
  show ?thesis
    unfolding write_at_cursor_def Let_def cs bind.bind_lunit
    apply (rule bind_calm [OF touch [OF t]])
    subgoal premises c for t1
    proof -
      have p: "on_screen k (t_point t1)" using screen_okD(4) [OF c(2)] by (simp add: cursor_ok_def)
      show ?thesis
        unfolding cursor_cell_Some [OF c(2)] last_column_shape [OF c(2)] bind.bind_lunit
        apply (rule bind_step [where P = "calm k t"])
        subgoal
          apply (cases "flags_intersects (cell_flags (cell_at (t_grid t1) (t_point t1))) (WIDE_CHAR OR WIDE_CHAR_SPACER)"; simp only: if_True if_False)
           apply (rule bind_calm_trans [OF split_neighbour_calm [OF c(2) p] c(1)])
           apply (rule bind_calm_trans [OF split_spacer_calm [OF _ p]], assumption, assumption)
           apply (rule returns_mono [OF touch], assumption, erule (1) calm_trans)
          using c(1) by simp
        by (rule final)
    qed
    done
qed

text \<open>Moving cells around inside a row and blanking some of them.\<close>

definition moves :: "nat \<Rightarrow> cell list \<Rightarrow> cell list \<Rightarrow> bool" where
  "moves n cs cs' \<longleftrightarrow> length cs' = n \<and> (\<forall>c \<in> set cs'. c \<in> set cs \<or> \<not> transient_cell c)"

lemma swap_cells_moves:
  assumes "moves n cs ds" "a < n" "b < n"
  shows "returns (swap_cells a b ds) (moves n cs)"
proof -
  have "set (ds[a := ds ! b, b := ds ! a]) = set ds" using assms by (simp add: moves_def set_swap)
  then show ?thesis using assms by (simp add: swap_cells_def moves_def vec_get_def)
qed

lemma fill_cells_moves:
  assumes "moves n cs ds" "a \<le> b" "b \<le> n" "\<not> transient_cell x"
  shows "returns (fill_cells a b x ds) (moves n cs)"
  using assms by (auto simp: fill_cells_def moves_def assert_that_def dest: in_set_takeD in_set_dropD)

lemma moves_length: "moves n cs ds \<Longrightarrow> length ds = n"
  by (simp add: moves_def)

lemma moves_refl: "length cs = n \<Longrightarrow> moves n cs cs"
  by (simp add: moves_def)

lemma with_cells_calm:
  assumes t: "term_ok k t" and l: "0 \<le> l" "l < int (sh_lines k)"
    and f: "\<And>cs. length cs = sh_columns k \<Longrightarrow> returns (f cs) (moves (sh_columns k) cs)"
  shows "returns (with_cells f l t) (calm k t)"
proof -
  let ?g = "t_grid t"
  have ok: "grid_ok (sh_strict k) ?g" and l': "- int (grid_history ?g) \<le> l" "l < int (g_lines ?g)"
    using screen_okD [OF t] l by auto
  note row = grid_index_line_Some [OF ok l']
  obtain cs where cs: "f (row_inner (row_at ?g l)) = Some cs" "moves (sh_columns k) (row_inner (row_at ?g l)) cs"
    using f [of "row_inner (row_at ?g l)"] row(2) screen_okD(2) [OF t] by (auto elim: returnsE)
  have "returns (with_grid (grid_index_line_mut (row_range_full_mut (\<lambda>_. cs)) l) t) (calm k t)"
    by (rule with_grid_calm [OF t], rule grid_cells_keeps [OF ok l'])
      (use cs(2) screen_okD(2) [OF t] in \<open>auto simp: moves_def row_clean_def list_all_iff\<close>)
  then show ?thesis by (simp add: with_cells_def row(1) cs(1))
qed

lemma insert_blank_calm:
  assumes t: "term_ok k t"
  shows "returns (insert_blank count t) (\<lambda>t'. calm k (reset_input_cluster t) t')"
proof -
  note s = term_ok_reset_input [OF t]
  let ?c = "column (t_point t)" and ?n = "sh_columns k"
  let ?d = "?c + min count (?n - ?c)"
  have c: "?c < ?n" "t_columns t = ?n" using screen_okD [OF t] by auto
  have body: "returns (Option.bind (for_each (\<lambda>offset. swap_cells (?d + offset) (?c + offset)) (rev [0..<?n - ?d]) cs)
      (fill_cells ?c ?d (cell_of_color bg))) (moves ?n cs)" if "length cs = ?n" for cs bg
    by (rule bind_step [OF returns_for_each [where I = "moves ?n cs"]], rule moves_refl [OF that])
      (use c in \<open>auto intro!: swap_cells_moves fill_cells_moves\<close>)
  show ?thesis
    unfolding insert_blank_def Let_def reset_input_simps c(2)
    using c term_okD(1) [OF t] screen_okD(6,7) [OF t] cursor_line_less [OF t]
    by (auto simp: usize_sub_def calm_def intro!: bind_calm [OF damage_line_calm [OF s]] returns_mono [OF with_cells_calm] body)
qed

lemma delete_chars_calm:
  assumes t: "term_ok k t"
  shows "returns (delete_chars count t) (\<lambda>t'. calm k (reset_input_cluster t) t')"
proof -
  note s = term_ok_reset_input [OF t]
  let ?c = "column (t_point t)" and ?n = "sh_columns k"
  let ?e = "min (?c + min count ?n) (?n - Suc 0)"
  have c: "?c < ?n" "t_columns t = ?n" using screen_okD [OF t] by auto
  have body: "returns (Option.bind (for_each (\<lambda>offset. swap_cells (?c + offset) (?e + offset)) [0..<?n - ?e] cs)
      (\<lambda>cs. fill_cells (?n - min count ?n) (length cs) (cell_of_color bg) cs)) (moves ?n cs)" if "length cs = ?n" for cs bg
    by (rule bind_step [OF returns_for_each [where I = "moves ?n cs"]], rule moves_refl [OF that])
      (use c in \<open>auto simp: usize_sub_def moves_length intro!: swap_cells_moves fill_cells_moves\<close>)
  show ?thesis
    unfolding delete_chars_def Let_def reset_input_simps c(2)
    using c term_okD(1) [OF t] screen_okD(6,7) [OF t] cursor_line_less [OF t]
    by (auto simp: usize_sub_def calm_def intro!: bind_calm [OF damage_line_calm [OF s]] returns_mono [OF with_cells_calm] body)
qed

section \<open>Character input\<close>

lemma shift_cells_right_calm:
  assumes t: "term_ok k t" and w: "column (t_point t) + width < sh_columns k"
  shows "returns (shift_cells_right width t) (calm k t)"
  unfolding shift_cells_right_def Let_def
  using w screen_okD(2,6,7) [OF t]
  by (auto simp: usize_sub_def intro!: with_cells_calm [OF t] returns_for_each moves_refl swap_cells_moves)

lemma clean_push_zerowidth [simp]: "clean_update (push_zerowidth c)"
  by (auto simp: clean_update_def push_zerowidth_def transient_cell_def cell_inline_marker_def
      extra_or_default_def default_extra_def split: option.splits)

lemma flags_of_Some: "term_ok k t \<Longrightarrow> on_screen k p \<Longrightarrow> flags_of p (t_grid t) = Some (cell_flags (cell_at (t_grid t) p))"
  using grid_index_inside [OF screen_okD(1) in_grid_on_screen] by (simp add: flags_of_def)

lemma input_zero_width_calm:
  assumes t: "term_ok k t"
  shows "returns (input_zero_width c t) (calm k t)"
proof -
  have p: "on_screen k (Point (line (t_point t)) x)" if "x \<le> column (t_point t)" for x
    using screen_okD [OF t] that by (simp add: on_screen_def)
  have w: "returns (with_grid (grid_index_mut (push_zerowidth c) (Point (line (t_point t)) x)) t) (calm k t)"
    if "x \<le> column (t_point t)" for x
    by (rule write_cell_calm [OF t in_grid_on_screen [OF t p [OF that]]]) simp
  show ?thesis
    unfolding input_zero_width_def Let_def
    by (simp add: flags_of_Some [OF t p] w)
qed

lemma template_ok: "term_ok k t \<Longrightarrow> term_ok k (with_template (insert_flag f) t)" "term_ok k t \<Longrightarrow> term_ok k (with_template (remove_flag f) t)"
  by (simp_all add: term_ok_with_template)

lemma with_template_simps [simp]:
  "t_point (with_template f t) = t_point t" "t_mode (with_template f t) = t_mode t"
  "t_columns (with_template f t) = t_columns t"
  by (simp_all add: with_template_def with_cursor_def)

text \<open>What a wide character needs: two columns from the cursor on.\<close>

lemma write_wide_body_ok:
  assumes t: "term_ok k t" and c: "column (t_point t) + 1 < sh_columns k"
  shows "returns (do {
      t \<leftarrow> write_at_cursor u c (with_template (insert_flag WIDE_CHAR) t);
      let t = with_template (remove_flag WIDE_CHAR) t;
      let t = set_column (column (t_point t) + 1) t;
      t \<leftarrow> write_at_cursor u 32 (with_template (insert_flag WIDE_CHAR_SPACER) t);
      Some (True, with_template (remove_flag WIDE_CHAR_SPACER) t) }) (\<lambda>(_, t'). term_ok k t')"
  unfolding Let_def
proof (rule bind_calm [OF write_at_cursor_calm [OF template_ok(1) [OF t]]])
  fix t1 assume t1: "calm k (with_template (insert_flag WIDE_CHAR) t) t1" "term_ok k t1"
  have "column (t_point t1) + 1 < sh_columns k" using t1(1) c by (simp add: calm_def with_template_def with_cursor_def)
  then have "term_ok k (with_template (insert_flag WIDE_CHAR_SPACER)
      (set_column (column (t_point (with_template (remove_flag WIDE_CHAR) t1)) + 1) (with_template (remove_flag WIDE_CHAR) t1)))"
    by (intro template_ok term_ok_set_column t1(2)) simp
  then show "returns (Option.bind (write_at_cursor u 32 (with_template (insert_flag WIDE_CHAR_SPACER)
      (set_column (column (t_point (with_template (remove_flag WIDE_CHAR) t1)) + 1) (with_template (remove_flag WIDE_CHAR) t1))))
      (\<lambda>t. Some (True, with_template (remove_flag WIDE_CHAR_SPACER) t))) (\<lambda>(_, t'). term_ok k t')"
    by (rule bind_calm [OF write_at_cursor_calm]) (simp add: template_ok)
qed

lemma write_wide_ok:
  assumes t: "term_ok k t"
  shows "returns (write_wide u c t) (\<lambda>(_, t'). term_ok k t')"
proof -
  let ?fits = "\<lambda>(fits, t'). term_ok k t' \<and> (fits \<longrightarrow> column (t_point t') + 1 < sh_columns k)"
  have blank: "returns (if has_mode t' INSERT then insert_blank 2 t' else Some t') (\<lambda>t'. term_ok k t' \<and> column (t_point t') = 0)"
    if "term_ok k t' \<and> column (t_point t') = 0" for t'
    using returns_mono [OF insert_blank_calm [of k t' 2]] that by (auto simp: calm_def)
  have wrap: "returns (do {
        t \<leftarrow> write_at_cursor u 32 (with_template (insert_flag LEADING_WIDE_CHAR_SPACER) t);
        t \<leftarrow> wrapline (with_template (remove_flag LEADING_WIDE_CHAR_SPACER) t);
        t \<leftarrow> (if has_mode t INSERT then insert_blank 2 t else Some t);
        Some (True, t) }) ?fits" if "has_mode t LINE_WRAP"
    apply (rule bind_calm [OF write_at_cursor_calm [OF template_ok(1) [OF t]]])
    apply (rule bind_step [OF wrapline_ok [OF template_ok(2)]], assumption)
    apply (rule bind_step [OF blank])
    using that term_okD(1) [OF t] by (auto simp: calm_def)
  have "returns (if column (t_point t) + 1 \<ge> t_columns t
      then (if has_mode t LINE_WRAP then do {
              t \<leftarrow> write_at_cursor u 32 (with_template (insert_flag LEADING_WIDE_CHAR_SPACER) t);
              t \<leftarrow> wrapline (with_template (remove_flag LEADING_WIDE_CHAR_SPACER) t);
              t \<leftarrow> (if has_mode t INSERT then insert_blank 2 t else Some t);
              Some (True, t) }
            else Some (False, set_needs_wrap True t))
      else Some (True, t)) ?fits"
    using wrap t screen_okD(2) [OF t] by simp
  then show ?thesis
    unfolding write_wide_def Let_def
    by (rule bind_step) (auto simp: write_wide_body_ok [unfolded Let_def, simplified])
qed

text \<open>The inputs that do not continue an emoji cluster.\<close>

definition plain_input :: "unicode \<Rightarrow> uchar \<Rightarrow> bool" where
  "plain_input u c \<longleftrightarrow> c < 0x80 \<or> u_width u c \<noteq> Some 0 \<and> c \<le> 0xffff"

lemma extend_emoji_input_none:
  assumes t: "term_ok k t" and u: "\<And>x. \<not> u_is_emoji u x"
  shows "returns (extend_emoji_input u c w t) (\<lambda>(b, t'). \<not> b \<and> term_ok k t')"
proof -
  have cl: "t_input_cluster t = None" using t by (simp add: term_ok_def)
  have p: "on_screen k (Point (line (t_point t)) x)" if "x \<le> column (t_point t)" for x
    using screen_okD [OF t] that by (simp add: on_screen_def)
  have cell: "grid_index (Point (line (t_point t)) x) (t_grid t) = Some (cell_at (t_grid t) (Point (line (t_point t)) x))"
    if "x \<le> column (t_point t)" for x
    by (rule grid_index_inside [OF screen_okD(1) [OF t] in_grid_on_screen [OF t p [OF that]]])
  have at: "flags_of (t_point t) (t_grid t) = Some (cell_flags (cell_at (t_grid t) (t_point t)))"
    using flags_of_Some [OF t] screen_okD(4) [OF t] by (simp add: cursor_ok_def)
  have none: "emoji_input_new u x = Some None" for x using u by (simp add: emoji_input_new_def)
  have ok: "term_ok k (t\<lparr>t_input_cluster := None\<rparr>)" using t by (simp add: term_ok_def)
  show ?thesis
  proof (cases "t_input_end t")
    case (Some e)
    obtain q w where e: "e = (q, w)" by fastforce
    show ?thesis
      unfolding extend_emoji_input_def Some e Let_def cl
      by (simp add: flags_of_Some [OF t p] cell at cursor_cell_Some [OF t] none ok t)
  qed (use t in \<open>simp add: extend_emoji_input_def\<close>)
qed

text \<open>The stages of the input after the attempt to continue a cluster.\<close>

lemma input_wrap_ok:
  "term_ok k t \<Longrightarrow> returns (if cur_input_needs_wrap (t_cursor t) then wrapline t else Some t) (term_ok k)"
  using returns_mono [OF wrapline_ok [of k t]] by simp

lemma input_shift_ok:
  "term_ok k t \<Longrightarrow> returns (if has_mode t INSERT \<and> column (t_point t) + width < t_columns t
     then shift_cells_right width t else Some t) (\<lambda>t'. term_ok k t')"
  using returns_calm_ok [OF shift_cells_right_calm [of k t]] screen_okD(2) [of k t] by simp

lemma input_glyph_ok:
  "term_ok k t \<Longrightarrow> returns (if width = 1 then do { t \<leftarrow> write_at_cursor u c t; Some (True, t) } else write_wide u c t)
     (\<lambda>(_, t'). term_ok k t')"
  using write_wide_ok [of k t] by (auto intro!: bind_calm [OF write_at_cursor_calm])

lemma input_character_ok:
  assumes t: "term_ok k t" and c: "plain_input u c \<or> (\<forall>x. \<not> u_is_emoji u x)"
  shows "returns (input_character u c t) (term_ok k)"
proof (cases "u_width u c")
  case (Some width)
  have cl: "t_input_cluster t = None" using t by (simp add: term_ok_def)
  have extend: "returns (if c \<ge> 0x80 \<and> (t_input_cluster t \<noteq> None \<or> width = 0 \<or> c > 0xffff)
      then extend_emoji_input u c width t else Some (False, t)) (\<lambda>(b, t'). \<not> b \<and> term_ok k t')"
    using extend_emoji_input_none [OF t, of u c width] c t cl Some by (auto simp: plain_input_def)
  have graphic: "returns (do {
      t \<leftarrow> (if cur_input_needs_wrap (t_cursor t1) then wrapline t1 else Some t1);
      let cols = t_columns t;
      t \<leftarrow> (if has_mode t INSERT \<and> column (t_point t) + width < cols then shift_cells_right width t else Some t);
      (wrote, t) \<leftarrow> (if width = 1 then do { t \<leftarrow> write_at_cursor u c t; Some (True, t) } else write_wide u c t);
      if \<not> wrote then Some t
      else (let t = (if column (t_point t) + 1 < cols then set_column (column (t_point t) + 1) t else set_needs_wrap True t) in
        Some (t\<lparr>t_input_end := Some (t_point t, cur_input_needs_wrap (t_cursor t))\<rparr>)) }) (term_ok k)"
    if t1: "term_ok k t1" for t1
    unfolding Let_def
    apply (rule bind_step [OF input_wrap_ok [OF t1]])
    apply (rule bind_step [OF input_shift_ok], assumption)
    apply (rule bind_step [OF input_glyph_ok], assumption)
    using screen_okD(2) [of k] by (auto intro: term_ok_set_column split: prod.splits)
  show ?thesis
    unfolding input_character_def Some option.case
    apply (rule bind_step [OF extend])
    subgoal premises p for x
    proof -
      obtain t1 where x: "x = (False, t1)" and t1: "term_ok k (reset_input_cluster t1)" using p by (cases x) auto
      show ?thesis
        unfolding x prod.case if_False Let_def
        by (rule returns_ifI, rule returns_calm_ok [OF input_zero_width_calm [OF t1]], rule graphic [OF t1, unfolded Let_def])
    qed
    done
qed (use t in \<open>simp add: input_character_def\<close>)

end
