(* ===== verification/Term_Calls.thy ===== *)
theory Term_Calls
  imports Term_Safety
begin

text \<open>
  Every escape-sequence handler returns and keeps the invariant of theory \<open>Term_Safety\<close>.
\<close>

section \<open>Cursor movement\<close>

lemma damage_cursor_ok: "term_ok k t \<Longrightarrow> returns (damage_cursor t) (term_ok k)"
  by (rule returns_calm_ok [OF damage_cursor_calm])

lemma goto_ok:
  assumes t: "term_ok k t"
  shows "returns (goto l col t) (term_ok k)"
proof -
  note s = term_ok_reset_input [OF t]
  have p: "on_screen k (Point (max (min (l + y) top) 0) (min col (sh_columns k - 1)))"
    if "top < int (sh_lines k)" for y top
    using that term_okD(1,2) [OF t] by (auto simp: on_screen_def)
  have y: "(if has_mode t ORIGIN then snd (t_scroll_region t) - 1 else bottommost_line (t_dims t)) < int (sh_lines k)"
    using region_okD(3) [OF t] screen_okD(3) [OF t] by (simp add: bottommost_line_def grid_dims_def)
  show ?thesis
    unfolding goto_def Let_def reset_input_simps
    apply (cases "has_mode t ORIGIN"; simp only: if_True if_False prod.case)
     apply (rule bind_calm [OF damage_cursor_calm [OF s]], simp only: last_column_shape bind.bind_lunit)
     apply (rule bind_calm [OF damage_cursor_calm [OF term_ok_set_point [OF _ p]]], assumption)
    using y apply simp
     apply simp
    apply (rule bind_calm [OF damage_cursor_calm [OF s]], simp only: last_column_shape bind.bind_lunit)
    apply (rule bind_calm [OF damage_cursor_calm [OF term_ok_set_point [OF _ p]]], assumption)
    using y by simp_all
qed

lemmas goto_calls = goto_line_def goto_col_def move_up_def move_down_def move_down_and_cr_def move_up_and_cr_def

lemma goto_calls_ok:
  assumes "term_ok k t"
  shows "returns (goto_line l t) (term_ok k)" "returns (goto_col c t) (term_ok k)" "returns (move_up n t) (term_ok k)"
    "returns (move_down n t) (term_ok k)" "returns (move_down_and_cr n t) (term_ok k)" "returns (move_up_and_cr n t) (term_ok k)"
  using goto_ok [OF assms] by (simp_all add: goto_calls)

text \<open>A damaged stretch of the cursor line and then a new column.\<close>

lemma damage_then_column_ok:
  assumes "term_ok k t" "c < sh_columns k"
  shows "returns (Option.bind (term_damage_line (line_as_usize (line (t_point t))) a b t) (\<lambda>t. Some (set_needs_wrap False (set_column c t))))
    (term_ok k)"
  by (rule bind_calm [OF damage_line_calm [OF assms(1) cursor_line_less [OF assms(1)]]])
    (simp add: term_ok_set_column assms(2))

lemma horizontal_ok:
  assumes t: "term_ok k t"
  shows "returns (move_forward n t) (term_ok k)" "returns (move_backward n t) (term_ok k)"
    "returns (carriage_return t) (term_ok k)"
proof -
  note s = term_ok_reset_input [OF t]
  have c: "column (t_point t) < sh_columns k" "2 \<le> sh_columns k" using screen_okD(8) [OF t] term_okD(1) [OF t] by auto
  show "returns (move_forward n t) (term_ok k)" "returns (move_backward n t) (term_ok k)" "returns (carriage_return t) (term_ok k)"
    using damage_then_column_ok [OF s, of "min (column (t_point t) + n) (sh_columns k - 1)"]
      damage_then_column_ok [OF s, of "column (t_point t) - n"] damage_then_column_ok [OF s, of 0] c
      last_column_shape [OF t]
    by (simp_all add: move_forward_def move_backward_def carriage_return_def Let_def)
qed

lemma term_damage_line_ok:
  "term_ok k t \<Longrightarrow> l < sh_lines k \<Longrightarrow> returns (term_damage_line l a b t) (term_ok k)"
  by (rule returns_calm_ok [OF damage_line_calm])

lemma set_simps [simp]:
  "t_point (set_needs_wrap b t) = t_point t" "t_point (set_column c t) = Point (line (t_point t)) c"
  "t_point (set_line l t) = Point l (column (t_point t))" "t_mode (set_column c t) = t_mode t"
  "t_columns (set_column c t) = t_columns t" "t_tabs (set_column c t) = t_tabs t"
  by (simp_all add: cursor_updates)

lemma backspace_ok: "term_ok k t \<Longrightarrow> returns (backspace t) (term_ok k)"
  using screen_okD(6-8) [of k t]
  by (auto simp: backspace_def Let_def intro!: term_damage_line_ok term_ok_set_needs_wrap term_ok_set_column)

lemma newline_ok: "term_ok k t \<Longrightarrow> returns (newline t) (term_ok k)"
  unfolding newline_def by (rule bind_step [OF linefeed_ok]) (auto intro: horizontal_ok)

lemma reverse_index_ok:
  assumes t: "term_ok k t"
  shows "returns (reverse_index t) (term_ok k)"
proof -
  note s = term_ok_reset_input [OF t]
  have "returns (Option.bind (damage_cursor (reset_input_cluster t)) (\<lambda>t. damage_cursor (set_line (max (line (t_point t) - 1) 0) t))) (term_ok k)"
    by (rule bind_calm [OF damage_cursor_calm [OF s]], rule damage_set_line_ok)
      (use screen_okD(7) [OF t] term_okD(2) [OF t] in \<open>auto simp: calm_def\<close>)
  then show ?thesis using term_scroll_ok(2) [OF s] by (simp add: reverse_index_def Let_def)
qed

lemma save_cursor_position_ok: "term_ok k t \<Longrightarrow> term_ok k (save_cursor_position t)"
  unfolding save_cursor_position_def using screen_okD(4) [of k t] term_okD(3) [of k t]
  by (intro term_ok_grid) (simp_all add: screen_ok_def)

lemma restore_cursor_position_ok:
  assumes "term_ok k t"
  shows "returns (restore_cursor_position t) (term_ok k)"
  unfolding restore_cursor_position_def
  by (rule bind_calm [OF damage_cursor_calm [OF term_ok_reset_input [OF assms]]], rule damage_cursor_ok, rule term_ok_with_cursor)
    (auto intro: screen_okD(5))

section \<open>Tabs\<close>

lemma advance_to_tab_ok: "term_ok k t \<Longrightarrow> returns (advance_to_tab t) (term_ok k)"
proof (induction t rule: advance_to_tab.induct)
  case (1 t)
  note c = screen_okD(2,8) [OF "1.prems"]
  show ?case
  proof (cases "column (t_point t) + 1 \<ge> t_columns t")
    case True
    then show ?thesis using c "1.prems" by (simp add: advance_to_tab.simps [of t])
  next
    case False
    let ?t = "set_column (column (t_point t) + 1) t"
    have ok: "term_ok k ?t" using "1.prems" False c by (simp add: term_ok_set_column)
    obtain b where b: "vec_get (t_tabs ?t) (column (t_point ?t)) = Some b"
      using term_okD(7) [OF "1.prems"] False c by (simp add: vec_get_def)
    show ?thesis
      using "1.IH" [OF False refl b] ok b False
      by (subst advance_to_tab.simps) (auto simp: Let_def vec_get_def split: if_splits)
  qed
qed

lemma put_tab_loop_ok: "term_ok k t \<Longrightarrow> returns (put_tab_loop u n t) (term_ok k)"
proof (induction n arbitrary: t)
  case (Suc n)
  obtain cs where cs: "charsets_index (cur_charsets (t_cursor t)) (t_active_charset t) = Some cs"
    using charset_returns [OF Suc.prems] by blast
  have clean: "clean_update (\<lambda>x. if cell_c x = 32 then x\<lparr>cell_c := ch\<rparr> else x)" for ch
    by (simp add: clean_update_def transient_cell_def cell_inline_marker_def)
  have "returns (do { t \<leftarrow> with_grid (cursor_cell (\<lambda>x. if cell_c x = 32 then x\<lparr>cell_c := ch\<rparr> else x)) t;
      t \<leftarrow> advance_to_tab t; put_tab_loop u n t }) (term_ok k)" for ch
    by (rule bind_calm [OF cursor_cell_calm [OF Suc.prems clean]], rule bind_step [OF advance_to_tab_ok]) (auto intro: Suc.IH)
  then show ?case using Suc.prems by (simp add: cs Let_def)
qed simp

lemma put_tab_ok: "term_ok k t \<Longrightarrow> returns (put_tab u n t) (term_ok k)"
  using put_tab_loop_ok [of k "reset_input_cluster t" u n] returns_mono [OF wrapline_ok [of k "reset_input_cluster t"]]
  by (simp add: put_tab_def Let_def)

lemma find_tab_less:
  "(\<And>i. i \<in> set is \<Longrightarrow> i < length ts) \<Longrightarrow> col < length ts \<Longrightarrow> returns (find_tab ts is col) (\<lambda>c. c < length ts)"
  "(\<And>i. i \<in> set is \<Longrightarrow> i < length ts) \<Longrightarrow> col < length ts \<Longrightarrow> returns (find_tab_forward ts is col) (\<lambda>c. c < length ts)"
  by (induction "is" arbitrary: col) (auto simp: vec_get_def)

lemma backward_tabs_loop_ok: "term_ok k t \<Longrightarrow> returns (backward_tabs_loop n t) (term_ok k)"
proof (induction n arbitrary: t)
  case (Suc n)
  have "returns (find_tab (t_tabs t) (rev [0..<column (t_point t)]) (column (t_point t))) (\<lambda>c. c < sh_columns k)"
    using find_tab_less(1) [of "rev [0..<column (t_point t)]" "t_tabs t"] screen_okD(8) [OF Suc.prems] term_okD(7) [OF Suc.prems]
    by simp
  then show ?case
    using Suc by (auto simp: Let_def intro!: bind_step Suc.IH term_ok_set_column)
qed simp

lemma forward_tabs_loop_ok: "term_ok k t \<Longrightarrow> returns (forward_tabs_loop n t) (term_ok k)"
proof (induction n arbitrary: t)
  case (Suc n)
  have "returns (find_tab_forward (t_tabs t) [column (t_point t) + 1..<t_columns t] (column (t_point t))) (\<lambda>c. c < sh_columns k)"
    using find_tab_less(2) [of "[column (t_point t) + 1..<t_columns t]" "t_tabs t"] screen_okD(2,8) [OF Suc.prems] term_okD(7) [OF Suc.prems]
    by simp
  then show ?case
    using Suc screen_okD(2) [OF Suc.prems] term_okD(1) [OF Suc.prems]
    by (auto simp: Let_def usize_sub_def intro!: bind_step Suc.IH term_ok_set_column)
qed simp

lemma tab_moves_ok:
  assumes t: "term_ok k t"
  shows "returns (move_backward_tabs n t) (term_ok k)" "returns (move_forward_tabs n t) (term_ok k)"
  unfolding move_backward_tabs_def move_forward_tabs_def Let_def
  by (auto intro!: bind_step [OF backward_tabs_loop_ok] bind_step [OF forward_tabs_loop_ok] term_ok_reset_input [OF t]
      term_damage_line_ok cursor_line_less)

lemma tab_stops_ok:
  assumes t: "term_ok k t"
  shows "returns (set_horizontal_tabstop t) (term_ok k)" "returns (clear_tabs mode t) (term_ok k)"
proof -
  have len: "length (t_tabs t) = sh_columns k" "column (t_point t) < sh_columns k"
    using term_okD(7) [OF t] screen_okD(8) [OF t] by auto
  have tabs: "term_ok k (t\<lparr>t_tabs := ts\<rparr>)" if "length ts = sh_columns k" for ts
    using t that by (simp add: term_ok_def)
  show "returns (set_horizontal_tabstop t) (term_ok k)" "returns (clear_tabs mode t) (term_ok k)"
    using len by (auto simp: set_horizontal_tabstop_def clear_tabs_def vec_set_def tabs_clear_all_def
        intro!: tabs split: tabulation_clear_mode.split)
qed

section \<open>Erasing\<close>

lemma line_edits_ok:
  assumes t: "term_ok k t"
  shows "returns (insert_blank_lines n t) (term_ok k)" "returns (delete_lines n t) (term_ok k)"
  using t scroll_down_relative_ok [OF t, of "line (t_point t)" n] scroll_up_relative_ok [OF t, of "line (t_point t)"]
    screen_okD(3,6,7) [OF t]
  by (auto simp: insert_blank_lines_def delete_lines_def region_contains_def usize_sub_def Let_def)

lemma blank_calm:
  assumes t: "term_ok k t" and l: "0 \<le> l" "l < int (sh_lines k)"
  shows "a \<le> b \<Longrightarrow> b \<le> sh_columns k \<Longrightarrow>
      returns (with_grid (grid_index_line_mut (row_range_mut (map (\<lambda>_. cell_of_color bg)) a b) l) t) (calm k t)"
    "b \<le> sh_columns k \<Longrightarrow>
      returns (with_grid (grid_index_line_mut (row_range_to_mut (map (\<lambda>_. cell_of_color bg)) b) l) t) (calm k t)"
    "a \<le> sh_columns k \<Longrightarrow>
      returns (with_grid (grid_index_line_mut (row_range_from_mut (map (\<lambda>_. cell_of_color bg)) a) l) t) (calm k t)"
proof -
  have g: "grid_ok (sh_strict k) (t_grid t)" "- int (grid_history (t_grid t)) \<le> l" "l < int (t_lines t)" "t_columns t = sh_columns k"
    using screen_okD [OF t] l by auto
  note row = with_grid_calm [OF t] grid_line_mut_keeps [OF g(1-3)]
  show "a \<le> b \<Longrightarrow> b \<le> sh_columns k \<Longrightarrow>
      returns (with_grid (grid_index_line_mut (row_range_mut (map (\<lambda>_. cell_of_color bg)) a b) l) t) (calm k t)"
    by (rule row(1), rule row(2), rule row_blank_keeps(1)) (use g(4) in auto)
  show "b \<le> sh_columns k \<Longrightarrow>
      returns (with_grid (grid_index_line_mut (row_range_to_mut (map (\<lambda>_. cell_of_color bg)) b) l) t) (calm k t)"
    by (rule row(1), rule row(2), rule row_blank_keeps(2)) (use g(4) in auto)
  show "a \<le> sh_columns k \<Longrightarrow>
      returns (with_grid (grid_index_line_mut (row_range_from_mut (map (\<lambda>_. cell_of_color bg)) a) l) t) (calm k t)"
    by (rule row(1), rule row(2), rule row_blank_keeps(3)) (use g(4) in auto)
qed

lemma erase_chars_ok:
  assumes t: "term_ok k t"
  shows "returns (erase_chars n t) (term_ok k)"
  unfolding erase_chars_def Let_def reset_input_simps
  by (rule bind_calm [OF damage_line_calm [OF term_ok_reset_input [OF t] cursor_line_less [OF t]]], rule returns_calm_ok,
      rule blank_calm) (use screen_okD [OF t] in auto)

lemma filter_selection_ok [simp]: "term_ok k (filter_selection lo hi t) = term_ok k t"
  by (simp add: filter_selection_def split: option.split)

lemma clear_line_ok:
  assumes t: "term_ok k t"
  shows "returns (clear_line mode t) (term_ok k)"
proof -
  note s = term_ok_reset_input [OF t]
  have c: "t_columns t = sh_columns k" "column (t_point t) < sh_columns k" "0 \<le> line (t_point t)"
    "line (t_point t) < int (sh_lines k)" using screen_okD [OF t] by auto
  have "returns (do { t \<leftarrow> term_damage_line (line_as_usize (line (t_point t))) a e (reset_input_cluster t);
      t1 \<leftarrow> with_grid (grid_index_line_mut (row_range_mut (map (\<lambda>_. cell_of_color bg)) a b) (line p)) t;
      Some (filter_selection lo hi t1) }) (term_ok k)"
    if "a \<le> b" "b \<le> sh_columns k" "p = t_point t" for a b e bg lo hi p
    by (rule bind_calm [OF damage_line_calm [OF s cursor_line_less [OF t]]], rule bind_calm [OF blank_calm(1)])
      (use that c in auto)
  then show ?thesis
    using c s by (cases mode) (auto simp: clear_line_def Let_def usize_sub_def)
qed

lemma reset_region_calm:
  assumes t: "term_ok k t" and b: "0 \<le> bound_start lo" "bound_start lo < int (sh_lines k)"
    "\<And>g. g_lines g = sh_lines k \<Longrightarrow> bound_end hi g \<le> int (sh_lines k)"
  shows "returns (with_grid (reset_region lo hi) t) (calm k t)"
  by (rule with_grid_calm [OF t], rule reset_region_keeps) (use b screen_okD(1,3) [OF t] in auto)

lemma reset_screen_calm: "term_ok k t \<Longrightarrow> returns (with_grid (reset_region Unbounded Unbounded) t) (calm k t)"
  using term_okD(2) [of k t] by (intro reset_region_calm) (simp_all add: bound_start_def bound_end_def)

lemma reading_invalidate_ok:
  assumes "term_ok k t" "sh_epoch k + 1 < 2 ^ 64"
  shows "\<exists>r. reading_invalidate (t_reading t) = Some r \<and> rd_epoch r = rd_epoch (t_reading t) + 1"
  using term_okD(14) [OF assms(1)] assms(2) by (simp add: reading_invalidate_def u64_increment_def)

definition next_epoch :: "shape \<Rightarrow> shape" where
  "next_epoch k = k\<lparr>sh_epoch := sh_epoch k + 1\<rparr>"

lemma next_epoch_simps [simp]:
  "sh_strict (next_epoch k) = sh_strict k" "sh_columns (next_epoch k) = sh_columns k" "sh_lines (next_epoch k) = sh_lines k"
  "sh_epoch (next_epoch k) = sh_epoch k + 1" "on_screen (next_epoch k) = on_screen k"
  "cursor_ok (next_epoch k) = cursor_ok k" "screen_ok (next_epoch k) = screen_ok k" "region_ok (next_epoch k) = region_ok k"
  by (auto simp: next_epoch_def on_screen_def cursor_ok_def screen_ok_def region_ok_def fun_eq_iff)

lemma next_epoch_ok: "term_ok k t \<Longrightarrow> term_ok (next_epoch k) t"
  by (simp add: term_ok_def)

lemma invalidate_ok:
  assumes t: "term_ok k t" and e: "sh_epoch k + 1 < 2 ^ 64"
  shows "returns (invalidate_reading t) (term_ok (next_epoch k))"
  using reading_invalidate_ok [OF assms] t by (auto simp: invalidate_reading_def term_ok_def)

lemma observe_redraw_clear_ok [simp]: "term_ok k t \<Longrightarrow> term_ok k (observe_redraw_clear mode t)"
  by (auto simp: observe_redraw_clear_def term_ok_def split: clear_mode.split)

lemma clear_above_ok:
  assumes t: "term_ok k t"
  shows "returns (clear_above t) (term_ok k)"
  unfolding clear_above_def Let_def
proof (rule bind_step [where P = "term_ok k"])
  show "returns (if line (t_point t) > 1 then with_grid (reset_region Unbounded (Excluded (line (t_point t)))) t else Some t) (term_ok k)"
    using t screen_okD(7) [OF t] by (auto simp: bound_start_def bound_end_def intro!: returns_calm_ok [OF reset_region_calm])
qed (rule bind_calm, rule blank_calm(2), use screen_okD [OF t] screen_okD(2) [of k] in auto)

lemma clear_below_ok:
  assumes t: "term_ok k t"
  shows "returns (clear_below t) (term_ok k)"
proof -
  have l: "1 \<le> sh_lines k" "0 \<le> line (t_point t)" using term_okD(2) [OF t] screen_okD(6) [OF t] by auto
  have rest: "returns (if line_as_usize (line (t_point t)) < t_lines t1 - 1
      then with_grid (reset_region (Included (line (t_point t) + 1)) Unbounded) t1 else Some t1) (term_ok k)"
    if "term_ok k t1" for t1
    using that l screen_okD(3) [OF that] by (auto simp: bound_start_def bound_end_def intro!: returns_calm_ok [OF reset_region_calm])
  have sub: "usize_sub (t_lines t1) 1 = Some (t_lines t1 - 1)" if "term_ok k t1" for t1
    using l screen_okD(3) [OF that] by (simp add: usize_sub_def)
  show ?thesis
    unfolding clear_below_def Let_def
    apply (rule bind_calm [OF blank_calm(3) [OF t]])
    using screen_okD(6-8) [OF t] apply simp_all [3]
    apply (simp only: sub bind.bind_lunit)
    by (rule bind_step [OF rest]) simp_all
qed

lemma clear_all_ok:
  assumes t: "term_ok k t"
  shows "returns (clear_all t) (term_ok k)"
proof -
  have "returns (with_grid clear_viewport t) (calm k t)"
    by (rule with_grid_calm [OF t], rule clear_viewport_keeps [OF screen_okD(1) [OF t]])
  then show ?thesis
    unfolding clear_all_def Let_def
    by (intro bind_step [where P = "term_ok k"])
      (auto intro!: bind_calm intro: returns_calm_ok [OF reset_screen_calm [OF t]])
qed

lemma clear_saved_ok:
  assumes t: "term_ok k t"
  shows "returns (clear_saved t) (term_ok k)"
proof -
  have "returns (with_grid clear_history t) (calm k t)"
    by (rule with_grid_calm [OF t], rule clear_history_keeps [OF screen_okD(1) [OF t]])
  then show ?thesis using t by (auto simp: clear_saved_def intro!: bind_calm)
qed

lemma clear_screen_ok:
  assumes t: "term_ok k t" and e: "mode = Clear_Saved \<Longrightarrow> sh_epoch k + 1 < 2 ^ 64"
  shows "returns (clear_screen mode t) (term_ok (next_epoch k))"
  unfolding clear_screen_def clear_screen_contents_def Let_def
proof (rule bind_step [where P = "term_ok (next_epoch k)"])
  note s = term_ok_reset_input [OF t]
  show "returns (if mode = Clear_Saved
      then do { r \<leftarrow> reading_invalidate (t_reading (reset_input_cluster t)); Some ((reset_input_cluster t)\<lparr>t_reading := r\<rparr>) }
      else Some (reset_input_cluster t)) (term_ok (next_epoch k))"
    using invalidate_ok [OF s e] next_epoch_ok [OF s] by (simp add: invalidate_reading_def)
qed (rule bind_step [where P = "term_ok (next_epoch k)"],
    auto intro!: clear_above_ok clear_below_ok clear_all_ok clear_saved_ok split: clear_mode.split)

lemma decaln_ok:
  assumes t: "term_ok k t"
  shows "returns (decaln t) (term_ok k)"
proof -
  have clean: "clean_update (\<lambda>_. default_cell\<lparr>cell_c := 69\<rparr>)"
    using transient_default_cell by (simp add: clean_update_def transient_cell_def cell_inline_marker_def)
  have "returns (for_each (\<lambda>l. for_each (\<lambda>col. with_grid (grid_index_mut (\<lambda>_. default_cell\<lparr>cell_c := 69\<rparr>) (Point l col)))
      [0..<sh_columns k]) (line_range 0 (int (sh_lines k))) (reset_input_cluster t)) (term_ok k)"
    by (intro returns_for_each returns_calm_ok [OF write_cell_calm] in_grid_on_screen)
      (auto simp: t clean on_screen_def)
  then show ?thesis
    using screen_okD(2,3) [OF t] by (auto simp: decaln_def Let_def intro!: bind_step)
qed

lemma term_ok_region: "term_ok k t \<Longrightarrow> region_ok k r \<Longrightarrow> term_ok k (t\<lparr>t_scroll_region := r\<rparr>)"
  by (simp add: term_ok_def)

lemma set_scrolling_region_ok:
  assumes t: "term_ok k t" and a: "1 \<le> a"
  shows "returns (set_scrolling_region a b t) (term_ok k)"
  using t a screen_okD(3) [OF t]
  by (auto simp: set_scrolling_region_def Let_def region_ok_def intro!: goto_ok term_ok_region split: option.split)

lemma deccolm_ok: "term_ok k t \<Longrightarrow> returns (deccolm t) (term_ok k)"
  unfolding deccolm_def
  by (rule bind_step [OF set_scrolling_region_ok], assumption, simp) (auto intro!: bind_calm [OF reset_screen_calm])

section \<open>Screens and modes\<close>

lemma alt_screen_bit: "mode_contains m ALT_SCREEN \<longleftrightarrow> bit m 12"
proof -
  have alt: "bit (ALT_SCREEN :: term_mode) n \<longleftrightarrow> n = 12" for n
    using bit_exp_iff [where 'a = "32 word", of 12 n] by auto
  have "mode_contains m ALT_SCREEN \<longleftrightarrow> (\<forall>n. bit (m AND ALT_SCREEN) n = bit (ALT_SCREEN :: term_mode) n)"
    by (simp only: mode_contains_def bit_eq_iff [of "m AND ALT_SCREEN"] possible_bit_word) (auto simp: bit_and_iff alt)
  then show ?thesis by (simp only: bit_and_iff alt) auto
qed

text \<open>Changing a mode other than the alternate screen.\<close>

lemma term_ok_mode:
  assumes "term_ok k t" "bit m 12 = bit (t_mode t) 12"
  shows "term_ok k (t\<lparr>t_mode := m\<rparr>)"
proof -
  have "alternate (t\<lparr>t_mode := m\<rparr>) = alternate t" using assms(2) by (simp add: alternate_def alt_screen_bit)
  then show ?thesis using assms(1) by (simp add: term_ok_def)
qed

lemma mode_bits_ok:
  assumes "term_ok k t" "\<not> bit f 12"
  shows "term_ok k (insert_mode f t)" "term_ok k (remove_mode f t)"
  using assms by (simp_all add: insert_mode_def remove_mode_def mode_insert_def mode_remove_def term_ok_mode bit_or_iff bit_and_iff bit_not_iff)

lemma mode_of_keyboard_bit: "\<not> bit (mode_of_keyboard v) 12"
  by (simp add: mode_of_keyboard_def KEYBOARD_FLAGS_def mode_insert_def mode_remove_def bit_or_iff bit_and_iff bit_not_iff)

lemma kitty_bit: "\<not> bit KITTY_KEYBOARD_PROTOCOL 12"
  by (simp add: KITTY_KEYBOARD_PROTOCOL_def bit_or_iff)

lemma set_keyboard_mode_ok:
  "term_ok k t \<Longrightarrow> term_ok k (set_keyboard_mode (mode_of_keyboard v) a t)"
  by (simp add: set_keyboard_mode_def Let_def term_ok_mode bit_or_iff bit_and_iff bit_not_iff mode_of_keyboard_bit kitty_bit
      split: apply_behavior.split)

lemma keyboard_handlers_ok:
  assumes t: "term_ok k t"
  shows "term_ok k (push_keyboard_mode m t)" "term_ok k (pop_keyboard_modes n t)" "term_ok k (handle_set_keyboard_mode m a t)"
    "term_ok k (report_keyboard_mode bits t)" "term_ok k (save_title t)"
proof -
  have stack: "term_ok k (t'\<lparr>t_keyboard_stack := st\<rparr>)"
    if "term_ok k t'" "length st \<le> KEYBOARD_MODE_STACK_MAX_DEPTH" for st t'
    using that by (simp add: term_ok_def)
  have len: "length (t_keyboard_stack t) \<le> KEYBOARD_MODE_STACK_MAX_DEPTH" "0 < KEYBOARD_MODE_STACK_MAX_DEPTH"
    using term_okD(10) [OF t] by (simp_all add: KEYBOARD_MODE_STACK_MAX_DEPTH_def)
  show "term_ok k (push_keyboard_mode m t)" "term_ok k (pop_keyboard_modes n t)" "term_ok k (report_keyboard_mode bits t)"
    using t len by (auto simp: push_keyboard_mode_def pop_keyboard_modes_def report_keyboard_mode_def Let_def
        intro!: set_keyboard_mode_ok stack)
  have same: "t_keyboard_stack (set_keyboard_mode x a t) = t_keyboard_stack t" for x
    by (simp add: set_keyboard_mode_def Let_def)
  show "term_ok k (handle_set_keyboard_mode m a t)"
    using t len by (auto simp: handle_set_keyboard_mode_def Let_def same intro!: set_keyboard_mode_ok stack)
  show "term_ok k (save_title t)"
    using t by (auto simp: save_title_def Let_def term_ok_def TITLE_STACK_MAX_DEPTH_def)
qed

lemma copy_cursor_clean:
  "\<not> transient_cell (cur_template (g_cursor g)) \<Longrightarrow> copy_cursor_from g h = h\<lparr>g_cursor := g_cursor g\<rparr>"
  by (simp add: copy_cursor_from_def Let_def transient_cell_def cell_image_tile)

lemma enter_alt_ok:
  assumes t: "term_ok k t" and m: "\<not> has_mode t ALT_SCREEN"
  shows "returns (do {
      inactive \<leftarrow> reset_region Unbounded Unbounded (copy_cursor_from (t_grid t) (t_inactive_grid t));
      Some (t\<lparr>t_grid := (t_grid t)\<lparr>g_saved_cursor := t_cursor t\<rparr>, t_inactive_grid := inactive\<rparr>) })
    (\<lambda>t'. term_ok k t' \<and> \<not> has_mode t' ALT_SCREEN)"
proof -
  let ?h = "(t_inactive_grid t)\<lparr>g_cursor := t_cursor t\<rparr>"
  have c: "cursor_ok k (t_cursor t)" by (rule screen_okD(4) [OF t])
  then have copy: "copy_cursor_from (t_grid t) (t_inactive_grid t) = ?h"
    by (intro copy_cursor_clean) (simp add: cursor_ok_def)
  have h: "screen_ok k ?h" "g_max_scroll_limit ?h = 0"
    using screen_ok_cursor [OF term_okD(4) [OF t] c] term_okD(5) [OF t] m by (simp_all add: alternate_def)
  have "returns (reset_region Unbounded Unbounded ?h) (keeps (sh_strict k) ?h)"
    by (rule reset_region_keeps) (use h term_okD(2) [OF t] in \<open>auto simp: screen_ok_def bound_start_def bound_end_def\<close>)
  then obtain h' where h': "reset_region Unbounded Unbounded ?h = Some h'" "screen_ok k h'" "g_max_scroll_limit h' = 0"
    using screen_ok_keeps(1) [OF h(1)] screen_ok_keeps(2) h(2) by (metis returnsE)
  have "screen_ok k ((t_grid t)\<lparr>g_saved_cursor := t_cursor t\<rparr>)"
    using term_okD(3) [OF t] c by (simp add: screen_ok_def)
  then show ?thesis
    using t h' m by (simp add: copy term_ok_def alternate_def)
qed

lemma swap_screens_ok:
  assumes t: "term_ok k t" and "bit m 12 \<noteq> bit (t_mode t) 12"
  shows "term_ok k (t\<lparr>t_grid := t_inactive_grid t, t_inactive_grid := t_grid t, t_mode := m\<rparr>)"
proof -
  have "alternate (t\<lparr>t_grid := t_inactive_grid t, t_inactive_grid := t_grid t, t_mode := m\<rparr>) = alternate t"
    using assms(2) by (simp add: alternate_def alt_screen_bit)
  then show ?thesis using t by (simp add: term_ok_def)
qed

lemma swap_alt_ok:
  assumes t: "term_ok k t" and e: "sh_epoch k + 1 < 2 ^ 64"
  shows "returns (swap_alt t) (term_ok (next_epoch k))"
proof -
  let ?k = "next_epoch k"
  have stacks: "term_ok ?k (t1\<lparr>t_keyboard_stack := t_inactive_keyboard_stack t1, t_inactive_keyboard_stack := t_keyboard_stack t1\<rparr>)"
    if "term_ok ?k t1" for t1
    using that by (simp add: term_ok_def)
  have alt: "returns (if \<not> has_mode t1 ALT_SCREEN then do {
      inactive \<leftarrow> reset_region Unbounded Unbounded (copy_cursor_from (t_grid t1) (t_inactive_grid t1));
      Some (t1\<lparr>t_grid := (t_grid t1)\<lparr>g_saved_cursor := t_cursor t1\<rparr>, t_inactive_grid := inactive\<rparr>) }
      else Some t1) (term_ok ?k)" if "term_ok ?k t1" for t1
    using returns_mono [OF enter_alt_ok [OF that]] that by simp
  have swap: "term_ok ?k (t1\<lparr>t_grid := t_inactive_grid t1, t_inactive_grid := t_grid t1, t_mode := t_mode t1 XOR ALT_SCREEN\<rparr>)"
    if "term_ok ?k t1" for t1
    by (rule swap_screens_ok [OF that]) (simp add: bit_xor_iff)
  show ?thesis
    unfolding swap_alt_def Let_def
    apply (rule bind_step [OF invalidate_ok [OF term_ok_reset_input [OF t] e]])
    apply (rule bind_step [OF alt])
     apply (simp add: term_okD(16))
    using swap [OF set_keyboard_mode_ok [OF stacks]] by simp
qed

lemma term_ok_records: "term_ok k t \<Longrightarrow> records_ok r \<Longrightarrow> term_ok k (t\<lparr>t_program_statuses := r\<rparr>)"
  by (simp add: term_ok_def)

lemma program_status_ok [simp]: "term_ok k t \<Longrightarrow> term_ok k (reset_program_status t)"
  by (auto simp: reset_program_status_def records_reset_def Let_def records_ok_def default_records_def
      intro!: term_ok_records)

lemma default_cursor_ok: "2 \<le> sh_columns k \<Longrightarrow> 1 \<le> sh_lines k \<Longrightarrow> cursor_ok k default_cursor"
  by (simp add: cursor_ok_def default_cursor_def on_screen_def)

lemma grid_reset_ok:
  assumes "screen_ok k g" "2 \<le> sh_columns k" "1 \<le> sh_lines k"
  shows "returns (grid_reset g) (\<lambda>g'. screen_ok k g' \<and> g_max_scroll_limit g' = g_max_scroll_limit g)"
  by (rule returns_mono [OF grid_reset_keeps [of "sh_strict k"]])
    (use assms default_cursor_ok [of k] in \<open>auto simp: screen_ok_def keeps_def frame_def\<close>)

lemma swap_if_alt_ok:
  assumes "term_ok k t"
  shows "\<exists>t'. (if has_mode t ALT_SCREEN then t\<lparr>t_grid := t_inactive_grid t, t_inactive_grid := t_grid t\<rparr> else t) = t' \<and>
    screen_ok k (t_grid t') \<and> screen_ok k (t_inactive_grid t') \<and> g_max_scroll_limit (t_inactive_grid t') = 0 \<and>
    t_mode t' = t_mode t \<and> term_ok k (t'\<lparr>t_mode := 0\<rparr>)"
proof -
  note sw = swap_screens_ok [OF assms, of 0] term_ok_mode [OF assms, of 0]
  show ?thesis
    using sw term_okD(3-5) [OF assms] by (auto simp: alternate_def alt_screen_bit)
qed

lemma tabs_new_length [simp]: "length (tabs_new n) = n"
  by (simp add: tabs_new_def)

lemma reset_mode_bit: "\<not> bit (mode_insert default_mode (m AND VI)) 12"
  by (simp add: mode_insert_def default_mode_def bit_or_iff bit_and_iff)

lemma reset_state_ok:
  assumes t: "term_ok k t" and e: "sh_epoch k + 1 < 2 ^ 64"
  shows "returns (reset_state t) (term_ok (next_epoch k))"
proof -
  let ?t = "cancel_redraw_anchor (reset_input_cluster (reset_program_status t))"
  have s: "term_ok k (reset_input_cluster (reset_program_status t))" using t by simp
  then have s: "term_ok k ?t" using term_okD(16) [OF s] by simp
  obtain t2 where t2: "(if has_mode ?t ALT_SCREEN then ?t\<lparr>t_grid := t_inactive_grid ?t, t_inactive_grid := t_grid ?t\<rparr> else ?t) = t2"
    "screen_ok k (t_grid t2)" "screen_ok k (t_inactive_grid t2)" "g_max_scroll_limit (t_inactive_grid t2) = 0"
    "term_ok k (t2\<lparr>t_mode := 0\<rparr>)"
    using swap_if_alt_ok [OF s] by blast
  have size: "2 \<le> sh_columns k" "1 \<le> sh_lines k" using term_okD(1,2) [OF t] by auto
  obtain g where g: "grid_reset (t_grid t2) = Some g" "screen_ok k g" by (rule returnsE [OF grid_reset_ok [OF t2(2) size]]) auto
  obtain h where h: "grid_reset (t_inactive_grid t2) = Some h" "screen_ok k h" "g_max_scroll_limit h = 0"
    by (rule returnsE [OF grid_reset_ok [OF t2(3) size]]) (use t2(4) in auto)
  obtain r where r: "reading_invalidate (t_reading t2) = Some r" "rd_epoch r = rd_epoch (t_reading t2) + 1"
    using reading_invalidate_ok [OF t2(5) e] by auto
  have "term_ok (next_epoch k) (t2\<lparr>t_active_charset := G0, t_cursor_style := None, t_cursor_blinking_override := None,
      t_grid := g, t_inactive_grid := h,
      t_reading := r\<lparr>rd_prompt_marks := [], rd_prompt_input := None, rd_prompt_active := False\<rparr>,
      t_scroll_region := (0, int (g_lines g)), t_tabs := tabs_new (g_columns g), t_title_stack := [],
      t_title := None, t_selection := None, t_vi_cursor := Point 0 0, t_keyboard_stack := [],
      t_inactive_keyboard_stack := [], t_mode := mode_insert default_mode (t_mode t2 AND VI)\<rparr>)"
    using t2(5) g(2) h(2,3) r(2)
    by (simp add: term_ok_def alternate_def alt_screen_bit reset_mode_bit screen_ok_def region_ok_def)
  then show ?thesis
    unfolding reset_state_def Let_def t2(1)
    using g(1) h(1) r(1) by (simp add: with_grid_def invalidate_reading_def)
qed

section \<open>Attributes, colours and reports\<close>

lemma clean_underline_color [simp]: "clean_update (set_underline_color col)"
  by (auto simp: clean_update_def transient_cell_def cell_inline_marker_def set_underline_color_def
      extra_or_default_def default_extra_def Let_def split: option.splits)

lemma clean_hyperlink [simp]: "clean_update (set_hyperlink h)"
  by (auto simp: clean_update_def transient_cell_def cell_inline_marker_def set_hyperlink_def
      extra_or_default_def default_extra_def Let_def split: option.splits)

lemma transient_updates [simp]:
  "transient_cell (c\<lparr>cell_fg := x\<rparr>) = transient_cell c" "transient_cell (c\<lparr>cell_bg := x\<rparr>) = transient_cell c"
  "transient_cell (c\<lparr>cell_flags := f\<rparr>) = transient_cell c"
  "transient_cell (insert_flag f c) = transient_cell c" "transient_cell (remove_flag f c) = transient_cell c"
  by (simp_all add: transient_cell_def cell_inline_marker_def insert_flag_def remove_flag_def)

lemma clean_apply_attr: "clean_update (apply_attr a)"
  using clean_underline_color
  by (cases a) (simp_all add: clean_update_def set_underline_style_def)

lemma template_handlers_ok:
  assumes "term_ok k t"
  shows "term_ok k (terminal_attribute a t)" "term_ok k (term_set_hyperlink h t)"
  using assms by (simp_all add: terminal_attribute_def term_set_hyperlink_def term_ok_with_template clean_apply_attr)

lemma color_handlers_ok:
  assumes t: "term_ok k t" and i: "i < COLOR_COUNT"
  shows "returns (set_color i col t) (term_ok k)" "returns (reset_color i t) (term_ok k)"
proof -
  have colors: "term_ok k (t'\<lparr>t_colors := cs\<rparr>)" if "term_ok k t'" "length cs = COLOR_COUNT" for t' cs
    using that by (simp add: term_ok_def)
  have len: "length (t_colors t) = COLOR_COUNT" "t_colors (mark_fully_damaged t) = t_colors t"
    using term_okD(8) [OF t] by (simp_all add: mark_fully_damaged_def)
  show "returns (set_color i col t) (term_ok k)" "returns (reset_color i t) (term_ok k)"
    using t len i by (auto simp: set_color_def reset_color_def vec_get_def vec_set_def Let_def intro!: colors)
qed

lemma configure_charset_ok:
  assumes "term_ok k t"
  shows "returns (configure_charset i cs t) (term_ok k)"
  using screen_okD(4) [OF assms]
  by (cases i) (auto simp: configure_charset_def charsets_index_mut_def vec_set_def cursor_ok_def
      intro!: term_ok_with_cursor [OF assms])

lemma plain_handlers_ok:
  assumes "term_ok k t"
  shows "term_ok k (set_active_charset i t)" "term_ok k (set_cursor_style st t)" "term_ok k (set_cursor_shape sh t)"
    "term_ok k (identify_terminal v c t)" "term_ok k (device_status n t)" "term_ok k (report_mode rw am t)"
    "term_ok k (report_private_mode rp pm t)" "term_ok k (dynamic_color_sequence p j e t)"
    "term_ok k (clipboard_store d b pl t)" "term_ok k (clipboard_load b e t)" "term_ok k (text_area_size_chars t)"
  using assms
  by (simp_all add: set_active_charset_def set_cursor_style_def set_cursor_shape_def identify_terminal_def device_status_def
      report_mode_def report_private_mode_def dynamic_color_sequence_def clipboard_store_def clipboard_load_def
      text_area_size_chars_def Let_def split: option.split)

lemma set_mode_ok:
  assumes "term_ok k t"
  shows "term_ok k (set_mode m t)" "term_ok k (unset_mode m t)"
proof -
  consider "\<exists>x. m = Unknown_Mode x" | "m = Named_Mode NM_Insert" | "m = Named_Mode NM_LineFeedNewLine"
    by (cases m) (use named_mode.exhaust in blast)+
  then show "term_ok k (set_mode m t)" "term_ok k (unset_mode m t)"
    using term_ok_reset_input [OF assms] by (cases; auto intro!: mode_bits_ok)+
qed

lemma redraw_anchor_ok:
  assumes t: "term_ok k t"
  shows "returns (begin_redraw_anchor t) (term_ok k)" "returns (finish_redraw_anchor t) (term_ok k)"
  using t term_okD(15,16) [OF t]
  by (simp_all add: begin_redraw_anchor_def finish_redraw_anchor_def default_redraw_anchor_def term_ok_def)

lemma mouse_mode_bit: "\<not> bit MOUSE_MODE 12"
  by (simp add: MOUSE_MODE_def bit_or_iff)

lemma named_private_mode_ok:
  assumes t: "term_ok k t" and e: "m = PM_SwapScreenAndSetRestoreCursor \<Longrightarrow> sh_epoch k + 1 < 2 ^ 64"
  shows "returns (set_named_private_mode m t) (term_ok (next_epoch k))"
    "returns (unset_named_private_mode m t) (term_ok (next_epoch k))"
proof -
  note t' = next_epoch_ok [OF t]
  show "returns (set_named_private_mode m t) (term_ok (next_epoch k))"
    using t' swap_alt_ok [OF t e] goto_ok deccolm_ok [OF t'] redraw_anchor_ok [OF t']
    by (cases m) (auto simp: mouse_protocol_def mouse_mode_bit intro!: mode_bits_ok goto_ok)
  show "returns (unset_named_private_mode m t) (term_ok (next_epoch k))"
    using t' swap_alt_ok [OF t e] deccolm_ok [OF t'] redraw_anchor_ok [OF t']
    by (cases m) (auto intro!: mode_bits_ok)
qed

lemma private_mode_ok:
  assumes t: "term_ok k t" and e: "sh_epoch k + 1 < 2 ^ 64"
  shows "returns (set_private_mode m t) (term_ok (next_epoch k))" "returns (unset_private_mode m t) (term_ok (next_epoch k))"
  using next_epoch_ok [OF t] named_private_mode_ok [OF t e]
  by (auto simp: set_private_mode_def unset_private_mode_def intro!: mode_bits_ok split: private_mode.split)

section \<open>Every handler\<close>

text \<open>
  What a call may ask: a colour index of the palette, a scroll region counted from one, and
  either an input that continues no emoji cluster (ASCII, or a character up to U+FFFF whose width is
  not zero) or a table without emoji.
\<close>

definition call_ok :: "environment \<Rightarrow> handler_call \<Rightarrow> bool" where
  "call_ok env c = (case c of
     Edit (H_Input ch) \<Rightarrow> plain_input (env_unicode env) ch \<or> (\<forall>x. \<not> u_is_emoji (env_unicode env) x)
   | Edit (H_Set_Scrolling_Region a _) \<Rightarrow> 1 \<le> a
   | Report_Call (H_Set_Color i _) \<Rightarrow> i < COLOR_COUNT
   | Report_Call (H_Reset_Color i) \<Rightarrow> i < COLOR_COUNT
   | _ \<Rightarrow> True)"

lemma handle_movement_ok: "term_ok k t \<Longrightarrow> returns (handle_movement env m t) (term_ok k)"
  by (cases m) (auto intro: goto_ok goto_calls_ok horizontal_ok put_tab_ok backspace_ok linefeed_ok newline_ok
      reverse_index_ok tab_moves_ok restore_cursor_position_ok save_cursor_position_ok)

lemma handle_edit_ok:
  assumes t: "term_ok k t" and c: "call_ok env (Edit m)" and e: "sh_epoch k + 1 < 2 ^ 64"
  shows "returns (handle_edit env m t) (term_ok (next_epoch k))"
  using next_epoch_ok [OF t] c clear_screen_ok [OF t e] reset_state_ok [OF t e]
  by (cases m) (auto simp: call_ok_def intro: input_character_ok returns_calm_ok [OF insert_blank_calm] term_scroll_ok
      line_edits_ok erase_chars_ok returns_calm_ok [OF delete_chars_calm] clear_line_ok decaln_ok
      set_scrolling_region_ok tab_stops_ok)

lemma handle_mode_ok:
  assumes t: "term_ok k t" and e: "sh_epoch k + 1 < 2 ^ 64"
  shows "returns (handle_mode env m t) (term_ok (next_epoch k))"
  using next_epoch_ok [OF t] private_mode_ok [OF t e]
  by (cases m) (auto intro!: template_handlers_ok set_mode_ok mode_bits_ok plain_handlers_ok keyboard_handlers_ok
      intro: configure_charset_ok)

lemma handle_report_ok:
  assumes t: "term_ok k t" and c: "call_ok env (Report_Call m)"
  shows "returns (handle_report env m t) (term_ok k)"
  using t c by (cases m) (auto simp: call_ok_def intro!: plain_handlers_ok keyboard_handlers_ok color_handlers_ok)

lemma handle_ok:
  assumes t: "term_ok k t" and c: "call_ok env c" and e: "sh_epoch k + 1 < 2 ^ 64"
  shows "returns (handle env c t) (term_ok (next_epoch k))"
  using handle_movement_ok [OF next_epoch_ok [OF t]] handle_edit_ok [OF t _ e] handle_mode_ok [OF t e]
    handle_report_ok [OF next_epoch_ok [OF t]] c
  by (cases c) auto

end
