(* ===== verification/Resize.thy ===== *)
theory Resize
  imports Grid_Frame
begin

text \<open>
  Resizing a grid (\<open>nebula_terminal/src/grid/resize.rs\<close>). A change of height pulls lines out of the
  history or pushes lines into it; a change of width splits and joins the rows of each logical
  line, the run of rows connected by the wrap flag. The cursor is carried through a change of width
  by an anchor: how many logical lines lie below it, and how far into its own line it is.

  The code takes the rows out of the storage, bottom line first, walks over them from the
  oldest row down while pushing rows to a vector, and reverses that vector in the end. Here the vector is
  a stack, its last element the head of the list, so that the finished stack is the new
  storage, bottom line first. A widening of a list at its end is a widening at the head of the
  stack. The inner loop of a narrowing need not end when the new width is one column, so it is
  a partial function.
\<close>

section \<open>Helpers\<close>

definition has_flag :: "flags \<Rightarrow> cell \<Rightarrow> bool" where
  "has_flag f c = flags_contains (cell_flags c) f"

definition add_flag :: "flags \<Rightarrow> cell \<Rightarrow> cell" where
  "add_flag f c = c\<lparr>cell_flags := flags_insert f (cell_flags c)\<rparr>"

definition strip_flag :: "flags \<Rightarrow> cell \<Rightarrow> cell" where
  "strip_flag f c = c\<lparr>cell_flags := flags_remove f (cell_flags c)\<rparr>"

definition spacer_cell :: cell where
  "spacer_cell = add_flag LEADING_WIDE_CHAR_SPACER default_cell"

definition map_cursor :: "(cursor \<Rightarrow> cursor) \<Rightarrow> grid \<Rightarrow> grid" where
  "map_cursor f g = g\<lparr>g_cursor := f (g_cursor g)\<rparr>"

abbreviation g_line :: "grid \<Rightarrow> int" where "g_line g \<equiv> line (cur_point (g_cursor g))"
abbreviation g_column :: "grid \<Rightarrow> nat" where "g_column g \<equiv> column (cur_point (g_cursor g))"

definition put_point :: "point \<Rightarrow> grid \<Rightarrow> grid" where
  "put_point p = map_cursor (\<lambda>c. c\<lparr>cur_point := p\<rparr>)"

definition put_line :: "int \<Rightarrow> grid \<Rightarrow> grid" where
  "put_line l g = put_point (Point l (g_column g)) g"

definition put_column :: "nat \<Rightarrow> grid \<Rightarrow> grid" where
  "put_column c g = put_point (Point (g_line g) c) g"

definition put_wrap :: "bool \<Rightarrow> grid \<Rightarrow> grid" where
  "put_wrap b = map_cursor (\<lambda>c. c\<lparr>cur_input_needs_wrap := b\<rparr>)"

definition map_saved_line :: "(int \<Rightarrow> int) \<Rightarrow> grid \<Rightarrow> grid" where
  "map_saved_line f g = g\<lparr>g_saved_cursor := (g_saved_cursor g)\<lparr>cur_point :=
     Point (f (line (cur_point (g_saved_cursor g)))) (column (cur_point (g_saved_cursor g)))\<rparr>\<rparr>"

text \<open>\<open>self.lines - self.cursor.point.line.0 as usize - 1\<close>.\<close>

definition cursor_buffer_line :: "grid \<Rightarrow> nat option" where
  "cursor_buffer_line g = do {
     n \<leftarrow> usize_sub (g_lines g) (line_as_usize (g_line g));
     usize_sub n 1
   }"

section \<open>Height\<close>

definition grow_lines :: "bool \<Rightarrow> nat \<Rightarrow> grid \<Rightarrow> grid option" where
  "grow_lines conpty target g = do {
     lines_added \<leftarrow> usize_sub target (g_lines g);
     raw \<leftarrow> grow_visible_lines target (g_raw g);
     let g = g\<lparr>g_raw := raw, g_lines := target\<rparr>;
     let from_history = (if conpty then 0 else min (grid_history g) lines_added);
     g \<leftarrow> (if from_history \<noteq> lines_added
          then grid_scroll_up (0, int target) (lines_added - from_history) g else Some g);
     let g = map_saved_line (\<lambda>l. l + int from_history) g;
     let g = put_line (g_line g + int from_history) g;
     decrease_scroll_limit lines_added (g\<lparr>g_display_offset := g_display_offset g - lines_added\<rparr>)
   }"

primrec first_occupied :: "storage \<Rightarrow> nat list \<Rightarrow> nat option" where
  "first_occupied s [] = Some 0"
| "first_occupied s (l # ls) = do {
     r \<leftarrow> storage_index (int l) s;
     if row_is_clear r then first_occupied s ls else Some l
   }"

definition bottommost_occupied_line :: "grid \<Rightarrow> nat option" where
  "bottommost_occupied_line g = first_occupied (g_raw g) (rev [0..<g_lines g])"

definition shrink_scroll_amount :: "bool \<Rightarrow> nat \<Rightarrow> grid \<Rightarrow> nat option" where
  "shrink_scroll_amount conpty target g = do {
     clamped \<leftarrow> line_grid_clamp (grid_dims g) Boundary_Cursor (g_line g);
     let cursor_line = line_as_usize clamped;
     let required_scrolling = (cursor_line + 1) - target;
     if conpty
     then do {
       occupied \<leftarrow> bottommost_occupied_line g;
       let last_written = max cursor_line occupied;
       let by_content = (last_written + 1) - target;
       Some (max required_scrolling (min by_content cursor_line))
     }
     else Some required_scrolling
   }"

definition shrink_lines :: "bool \<Rightarrow> nat \<Rightarrow> grid \<Rightarrow> grid option" where
  "shrink_lines conpty target g = do {
     let cursor_line = line_as_usize (g_line g);
     required_scrolling \<leftarrow> shrink_scroll_amount conpty target g;
     g \<leftarrow> (if required_scrolling > 0
          then do {
            g \<leftarrow> grid_scroll_up (0, int (g_lines g)) required_scrolling g;
            Some (put_line (min (int (cursor_line - min required_scrolling cursor_line)) (int target - 1)) g)
          }
          else Some g);
     let g = map_saved_line (\<lambda>l. min l (int target - 1)) g;
     removed \<leftarrow> usize_sub (g_lines g) target;
     raw \<leftarrow> storage_rotate (int removed) (g_raw g);
     raw \<leftarrow> shrink_visible_lines target raw;
     Some (g\<lparr>g_raw := raw, g_lines := target\<rparr>)
   }"

section \<open>Growing the width\<close>

definition should_reflow :: "bool \<Rightarrow> nat \<Rightarrow> row \<Rightarrow> bool" where
  "should_reflow reflow cols r \<longleftrightarrow> reflow \<and> row_len r > 0 \<and> row_len r < cols \<and>
     has_flag WRAPLINE (last (row_inner r))"

text \<open>
  Pulling cells of \<open>row\<close> to the end of \<open>last_row\<close>: the two rows and the number of columns that the
  row moved by.
\<close>

definition pull_cells :: "nat \<Rightarrow> row \<Rightarrow> row \<Rightarrow> (row \<times> row \<times> nat) option" where
  "pull_cells cols last_row row = do {
     let last_row = row_last_mut (strip_flag WRAPLINE) last_row;
     let last_len = row_len last_row;
     spacer \<leftarrow> (if last_len \<ge> 1
               then map_option (has_flag LEADING_WIDE_CHAR_SPACER) (row_index (last_len - 1) last_row)
               else Some False);
     let (last_row, last_len) =
       (if spacer then (snd (row_shrink (last_len - 1) last_row), last_len - 1) else (last_row, last_len));
     num_wrapped \<leftarrow> usize_sub cols last_len;
     let len = min (row_len row) num_wrapped;
     last_index \<leftarrow> usize_sub len 1;
     c \<leftarrow> row_index last_index row;
     if has_flag WIDE_CHAR c
     then do {
       num_wrapped \<leftarrow> usize_sub num_wrapped 1;
       (cells, row) \<leftarrow> row_front_split_off (len - 1) row;
       Some (row_append (cells @ [spacer_cell]) last_row, row, num_wrapped)
     }
     else do {
       (cells, row) \<leftarrow> row_front_split_off len row;
       Some (row_append cells last_row, row, num_wrapped)
     }
   }"

text \<open>The cursor of a row that lost \<open>num_wrapped\<close> columns to the row above: the lines it moved up.\<close>

definition reflow_cursor :: "nat \<Rightarrow> row \<Rightarrow> grid \<Rightarrow> (grid \<times> int) option" where
  "reflow_cursor num_wrapped row g = do {
     target \<leftarrow> point_sub (grid_dims g) Boundary_Cursor num_wrapped (cur_point (g_cursor g));
     (g, target) \<leftarrow> (if column target = 0 \<and> row_is_clear row
                    then do {
                      target \<leftarrow> point_sub (grid_dims g) Boundary_Cursor 1 target;
                      Some (put_wrap True g, target)
                    }
                    else Some (g, target));
     let g = put_column (column target) g;
     Some (g, g_line g - line target)
   }"

text \<open>The view moves along when a row inside it disappears.\<close>

definition row_removed :: "nat \<Rightarrow> grid \<Rightarrow> grid" where
  "row_removed i g = (if i < g_display_offset g then g\<lparr>g_display_offset := g_display_offset g - 1\<rparr> else g)"

text \<open>
  One round of the loop of \<open>grow_columns\<close>: the grid, the stack of finished rows and the lines
  the cursor moved up.
\<close>

type_synonym grow_state = "grid \<times> row list \<times> nat"

definition grow_join :: "bool \<Rightarrow> nat \<Rightarrow> nat \<Rightarrow> row \<Rightarrow> row \<Rightarrow> row list \<Rightarrow> nat \<Rightarrow> grid \<Rightarrow> grow_state option" where
  "grow_join reflow cols i row last_row upper cursor_line_delta g = do {
     (last_row, row, num_wrapped) \<leftarrow> pull_cells cols last_row row;
     buffer_line \<leftarrow> cursor_buffer_line g;
     if i = buffer_line \<and> reflow
     then do {
       (g, line_delta) \<leftarrow> reflow_cursor num_wrapped row g;
       if row_is_clear row
       then Some (row_removed i g, last_row # upper, cursor_line_delta)
       else Some (g, row # row_last_mut (add_flag WRAPLINE) last_row # upper,
                  cursor_line_delta + line_as_usize line_delta)
     }
     else if row_is_clear row
     then do {
       let g = row_removed i g;
       let g = (if i < buffer_line then put_line (g_line g + 1) g else g);
       Some (g, last_row # upper, cursor_line_delta)
     }
     else Some (g, row # row_last_mut (add_flag WRAPLINE) last_row # upper, cursor_line_delta)
   }"

definition grow_row :: "bool \<Rightarrow> nat \<Rightarrow> nat \<times> row \<Rightarrow> grow_state \<Rightarrow> grow_state option" where
  "grow_row reflow cols = (\<lambda>(i, row) (g, stack, cursor_line_delta).
     (case stack of
        last_row # upper \<Rightarrow>
          if should_reflow reflow cols last_row
          then grow_join reflow cols i row last_row upper cursor_line_delta g
          else Some (g, row # stack, cursor_line_delta)
      | [] \<Rightarrow> Some (g, [row], cursor_line_delta)))"

text \<open>The rows missing below, and the rows that make way for a cursor that moved up.\<close>

definition fill_viewport :: "nat \<Rightarrow> row list \<Rightarrow> grid \<Rightarrow> (row list \<times> grid) option" where
  "fill_viewport cols stack g =
     (if length stack < g_lines g
      then do {
        let delta = g_lines g - length stack;
        blank \<leftarrow> row_new cols;
        Some (replicate delta blank @ stack, put_line (max (g_line g - int delta) 0) g)
      }
      else Some (stack, g))"

definition pull_down :: "nat \<Rightarrow> row list \<Rightarrow> grid \<Rightarrow> (row list \<times> grid) option" where
  "pull_down cursor_line_delta stack g =
     (if cursor_line_delta \<noteq> 0
      then do {
        buffer_line \<leftarrow> cursor_buffer_line g;
        upper \<leftarrow> usize_sub (length stack) (g_lines g);
        let available = min buffer_line upper;
        let overflow = cursor_line_delta - available;
        kept \<leftarrow> usize_sub (length stack + overflow) cursor_line_delta;
        Some (drop (length stack - kept) stack, put_line (max (g_line g - int overflow) 0) g)
      }
      else Some (stack, g))"

text \<open>The pending wrap at the end of a row becomes a column outside of the grid.\<close>

definition unwrap_cursor :: "bool \<Rightarrow> grid \<Rightarrow> grid" where
  "unwrap_cursor reflow g =
     (if cur_input_needs_wrap (g_cursor g) \<and> reflow
      then put_column (g_column g + 1) (put_wrap False g) else g)"

definition grow_columns :: "bool \<Rightarrow> nat \<Rightarrow> grid \<Rightarrow> grid option" where
  "grow_columns reflow cols g = do {
     let g = unwrap_cursor reflow (g\<lparr>g_columns := cols\<rparr>);
     (rows, raw) \<leftarrow> storage_take_all (g_raw g);
     (g, stack, delta) \<leftarrow> for_each (grow_row reflow cols) (rev (List.enumerate 0 rows)) (g\<lparr>g_raw := raw\<rparr>, [], 0);
     (stack, g) \<leftarrow> fill_viewport cols stack g;
     (stack, g) \<leftarrow> pull_down delta stack g;
     let g = g\<lparr>g_raw := storage_replace_inner (map (row_grow cols) stack) (g_raw g)\<rparr>;
     Some (g\<lparr>g_display_offset := min (g_display_offset g) (grid_history g)\<rparr>)
   }"

section \<open>Shrinking the width\<close>

text \<open>
  One round of the inner loop of \<open>shrink_columns\<close>: either the row is finished, with the
  cells left over for the next row, or the rest of the row is the row of the next round.
\<close>

type_synonym shrink_state = "row \<times> row list \<times> grid"
type_synonym shrink_result = "cell list option \<times> row list \<times> grid"

text \<open>The cells cut off, if the row has to be wrapped at all.\<close>

definition cut_row :: "bool \<Rightarrow> nat \<Rightarrow> nat \<Rightarrow> row \<Rightarrow> grid \<Rightarrow> (cell list option \<times> row) option" where
  "cut_row reflow cols i row g = do {
     buffer_line \<leftarrow> cursor_buffer_line g;
     let minimum = (if reflow \<and> i = buffer_line then g_column g + 1 else 0);
     let (cut, row) = row_shrink_with_minimum cols minimum row;
     case (if reflow then cut else None) of
       Some wrapped \<Rightarrow> Some (Some wrapped, row)
     | None \<Rightarrow> if reflow \<and> i = buffer_line \<and> g_column g \<ge> cols then Some (Some [], row)
               else Some (None, row)
   }"

text \<open>A wide character must not be split: it moves to the next row.\<close>

definition move_wide :: "nat \<Rightarrow> cell list \<Rightarrow> row \<Rightarrow> (cell list \<times> row) option" where
  "move_wide cols wrapped row =
     (if row_len row \<ge> cols
      then do {
        n \<leftarrow> usize_sub cols 1;
        c \<leftarrow> row_index n row;
        if has_flag WIDE_CHAR c
        then do {
          row \<leftarrow> row_index_mut (\<lambda>_. spacer_cell) n row;
          Some (c # wrapped, row)
        }
        else Some (wrapped, row)
      }
      else Some (wrapped, row))"

text \<open>The cursor after the row \<open>i\<close> was split.\<close>

definition split_cursor :: "nat \<Rightarrow> nat \<Rightarrow> grid \<Rightarrow> grid option" where
  "split_cursor cols i g = do {
     buffer_line \<leftarrow> cursor_buffer_line g;
     let g = (if (i = buffer_line \<and> g_column g < cols) \<or> i < buffer_line
              then put_line (max (g_line g - 1) 0) g else g);
     if i = buffer_line \<and> g_column g \<ge> cols
     then do {
       c \<leftarrow> usize_sub (g_column g) cols;
       Some (put_column c g)
     }
     else Some g
   }"

definition next_row :: "nat \<Rightarrow> cell list \<Rightarrow> row" where
  "next_row cols wrapped = row_from_vec
     (if length wrapped < cols then resize_with cols default_cell wrapped else wrapped) (length wrapped)"

definition shrink_round ::
    "bool \<Rightarrow> nat \<Rightarrow> nat \<Rightarrow> shrink_state \<Rightarrow> (shrink_state + shrink_result) option" where
  "shrink_round reflow cols i = (\<lambda>(row, stack, g). do {
     (cut, row) \<leftarrow> cut_row reflow cols i row g;
     case cut of
       None \<Rightarrow> Some (Inr (None, row # stack, g))
     | Some wrapped \<Rightarrow> do {
         (wrapped, row) \<leftarrow> move_wide cols wrapped row;
         let spacer = (wrapped \<noteq> [] \<and> has_flag LEADING_WIDE_CHAR_SPACER (last wrapped));
         if spacer \<and> length wrapped = 1
         then do {
           n \<leftarrow> usize_sub cols 1;
           row \<leftarrow> row_index_mut (add_flag WRAPLINE) n row;
           Some (Inr (None, row # stack, g))
         }
         else do {
           let wrapped = (if spacer
              then butlast (butlast wrapped) @ [add_flag WRAPLINE (last (butlast wrapped))] else wrapped);
           let stack = row_last_mut (add_flag WRAPLINE) row # stack;
           if wrapped \<noteq> [] \<and> has_flag WRAPLINE (last wrapped) \<and> i \<ge> 1 \<and> length wrapped < cols
           then Some (Inr (Some (butlast wrapped @ [strip_flag WRAPLINE (last wrapped)]), stack, g))
           else do {
             g \<leftarrow> split_cursor cols i g;
             let g = (if i < g_display_offset g then g\<lparr>g_display_offset := g_display_offset g + 1\<rparr> else g);
             Some (Inl (next_row cols wrapped, stack, g))
           }
         }
       }
   })"

partial_function (option) shrink_rounds ::
    "bool \<Rightarrow> nat \<Rightarrow> nat \<Rightarrow> shrink_state \<Rightarrow> shrink_result option" where
  "shrink_rounds reflow cols i s = do {
     r \<leftarrow> shrink_round reflow cols i s;
     case r of Inl s \<Rightarrow> shrink_rounds reflow cols i s | Inr result \<Rightarrow> Some result
   }"

text \<open>For evaluation: the loop goes on only once the round before is known.\<close>

definition after_round :: "bool \<Rightarrow> nat \<Rightarrow> nat \<Rightarrow> (shrink_state + shrink_result) option \<Rightarrow> shrink_result option" where
  "after_round reflow cols i r = Option.bind r (case_sum (shrink_rounds reflow cols i) Some)"

lemma shrink_rounds_code [code]:
  "shrink_rounds reflow cols i s = after_round reflow cols i (shrink_round reflow cols i s)"
  "after_round reflow cols i None = None"
  "after_round reflow cols i (Some (Inl s)) = shrink_rounds reflow cols i s"
  "after_round reflow cols i (Some (Inr result)) = Some result"
  by (simp_all add: after_round_def shrink_rounds.simps [of reflow cols i s])

definition shrink_row :: "bool \<Rightarrow> nat \<Rightarrow> nat \<times> row \<Rightarrow> shrink_result \<Rightarrow> shrink_result option" where
  "shrink_row reflow cols = (\<lambda>(i, row) (buffered, stack, g). do {
     (row, g) \<leftarrow> (case buffered of
          None \<Rightarrow> Some (row, g)
        | Some cells \<Rightarrow> do {
            buffer_line \<leftarrow> cursor_buffer_line g;
            let g = (if i = buffer_line then put_column (g_column g + length cells) g else g);
            Some (row_append_front cells row, g)
          });
     shrink_rounds reflow cols i (row, stack, g)
   })"

text \<open>The cursor in the end: at a pending wrap, or clamped to the grid.\<close>

definition settle_cursor :: "bool \<Rightarrow> nat \<Rightarrow> grid \<Rightarrow> grid option" where
  "settle_cursor reflow cols g =
     (if \<not> reflow
      then do {
        n \<leftarrow> usize_sub cols 1;
        Some (put_column (min (g_column g) n) g)
      }
      else do {
        pending \<leftarrow> (if g_column g = cols
                   then do {
                     n \<leftarrow> usize_sub cols 1;
                     c \<leftarrow> grid_index (Point (g_line g) n) g;
                     Some (\<not> has_flag WRAPLINE c)
                   }
                   else Some False);
        if pending
        then do {
          c \<leftarrow> usize_sub (g_column g) 1;
          Some (put_column c (put_wrap True g))
        }
        else do {
          p \<leftarrow> point_grid_clamp (grid_dims g) Boundary_Cursor (cur_point (g_cursor g));
          Some (put_point p g)
        }
      })"

definition clamp_saved_column :: "nat \<Rightarrow> grid \<Rightarrow> grid" where
  "clamp_saved_column n g = g\<lparr>g_saved_cursor := (g_saved_cursor g)\<lparr>cur_point :=
     Point (line (cur_point (g_saved_cursor g))) (min (column (cur_point (g_saved_cursor g))) n)\<rparr>\<rparr>"

definition shrink_columns :: "bool \<Rightarrow> nat \<Rightarrow> grid \<Rightarrow> grid option" where
  "shrink_columns reflow cols g = do {
     let g = unwrap_cursor reflow (g\<lparr>g_columns := cols\<rparr>);
     (rows, raw) \<leftarrow> storage_take_all (g_raw g);
     (_, stack, g) \<leftarrow> for_each (shrink_row reflow cols) (rev (List.enumerate 0 rows)) (None, [], g\<lparr>g_raw := raw\<rparr>);
     let g = g\<lparr>g_raw := storage_replace_inner (take (g_max_scroll_limit g + g_lines g) stack) (g_raw g)\<rparr>;
     let g = g\<lparr>g_display_offset := min (g_display_offset g) (grid_history g)\<rparr>;
     g \<leftarrow> settle_cursor reflow cols g;
     n \<leftarrow> usize_sub cols 1;
     Some (clamp_saved_column n g)
   }"

section \<open>The anchor of the cursor\<close>

definition has_wrapline :: "grid \<Rightarrow> int \<Rightarrow> bool option" where
  "has_wrapline g l =
     (if l < topmost_line (grid_dims g) \<or> l > bottommost_line (grid_dims g) then Some False
      else do {
        r \<leftarrow> grid_index_line l g;
        Some (row_len r > 0 \<and> has_flag WRAPLINE (last (row_inner r)))
      })"

definition logical_width :: "grid \<Rightarrow> int \<Rightarrow> nat option" where
  "logical_width g l = do {
     r \<leftarrow> grid_index_line l g;
     Some (if row_len r > 0 \<and> has_flag LEADING_WIDE_CHAR_SPACER (last (row_inner r))
           then row_len r - 1 else row_len r)
   }"

record cursor_anchor =
  logical_lines_below :: nat
  anchor_offset :: nat

text \<open>Up to the first row of a logical line, adding up the columns passed.\<close>

function line_start :: "grid \<Rightarrow> int \<Rightarrow> nat \<Rightarrow> (int \<times> nat) option" where
  "line_start g start offset =
     (if start > topmost_line (grid_dims g)
      then do {
        wraps \<leftarrow> has_wrapline g (start - 1);
        if wraps
        then do {
          width \<leftarrow> logical_width g (start - 1);
          line_start g (start - 1) (offset + width)
        }
        else Some (start, offset)
      }
      else Some (start, offset))"
  by pat_completeness auto
termination
  by (relation "measure (\<lambda>(g, start, offset). nat (start - topmost_line (grid_dims g)))") auto

text \<open>Down to the last row of a logical line.\<close>

function line_end :: "grid \<Rightarrow> int \<Rightarrow> int option" where
  "line_end g l =
     (if l < bottommost_line (grid_dims g)
      then do {
        wraps \<leftarrow> has_wrapline g l;
        if wraps then line_end g (l + 1) else Some l
      }
      else Some l)"
  by pat_completeness auto
termination
  by (relation "measure (\<lambda>(g, l). nat (bottommost_line (grid_dims g) - l))") auto

text \<open>The number of rows without a wrap flag from a line down.\<close>

function count_ends :: "grid \<Rightarrow> int \<Rightarrow> nat \<Rightarrow> nat option" where
  "count_ends g l below =
     (if l \<le> bottommost_line (grid_dims g)
      then do {
        wraps \<leftarrow> has_wrapline g l;
        count_ends g (l + 1) (if wraps then below else below + 1)
      }
      else Some below)"
  by pat_completeness auto
termination
  by (relation "measure (\<lambda>(g, l, below). nat (bottommost_line (grid_dims g) + 1 - l))") auto

definition anchor_cursor :: "grid \<Rightarrow> cursor_anchor option option" where
  "anchor_cursor g =
     (if g_line g < 0 \<or> g_line g > bottommost_line (grid_dims g) then Some None
      else do {
        (start, offset) \<leftarrow> line_start g (g_line g)
          (g_column g + (if cur_input_needs_wrap (g_cursor g) then 1 else 0));
        last_line \<leftarrow> line_end g (g_line g);
        below \<leftarrow> count_ends g (last_line + 1) 0;
        Some (Some \<lparr>logical_lines_below = below, anchor_offset = offset\<rparr>)
      })"

text \<open>
  Up from the bottom past the given number of logical lines. The result is \<open>None\<close> inside when the
  buffer holds fewer lines.
\<close>

function pass_lines :: "grid \<Rightarrow> nat \<Rightarrow> nat \<Rightarrow> int \<Rightarrow> int option option" where
  "pass_lines g below seen l =
     (if seen < below
      then do {
        wraps \<leftarrow> has_wrapline g l;
        if l = topmost_line (grid_dims g) then Some None
        else pass_lines g below (if wraps then seen else seen + 1) (l - 1)
      }
      else Some (Some l))"
  by pat_completeness auto
termination
proof (relation "measures [\<lambda>(g, below, seen, l). nat (l - topmost_line (grid_dims g)), \<lambda>(g, below, seen, l). below - seen]")
qed (auto simp: has_wrapline_def split: if_splits)

text \<open>Down through a logical line, spending the offset.\<close>

function spend_offset :: "grid \<Rightarrow> int \<Rightarrow> int \<Rightarrow> nat \<Rightarrow> (int \<times> nat) option" where
  "spend_offset g last_line l remaining =
     (if l < last_line
      then do {
        width \<leftarrow> logical_width g l;
        if remaining < width then Some (l, remaining)
        else spend_offset g last_line (l + 1) (remaining - width)
      }
      else Some (l, remaining))"
  by pat_completeness auto
termination
  by (relation "measure (\<lambda>(g, last_line, l, remaining). nat (last_line - l))") auto

definition restore_cursor_anchor :: "cursor_anchor \<Rightarrow> grid \<Rightarrow> grid option" where
  "restore_cursor_anchor anchor g = do {
     found \<leftarrow> pass_lines g (logical_lines_below anchor) 0 (bottommost_line (grid_dims g));
     case found of
       None \<Rightarrow> Some g
     | Some last_line \<Rightarrow> do {
         (start, _) \<leftarrow> line_start g last_line 0;
         (l, remaining) \<leftarrow> spend_offset g last_line start (anchor_offset anchor);
         last_column \<leftarrow> usize_sub (g_columns g) 1;
         let g = (if remaining > last_column then put_wrap True (put_column last_column g)
                  else put_wrap False (put_column remaining g));
         Some (put_line (max l 0) g)
       }
   }"

section \<open>Resizing\<close>

definition resize_impl :: "bool \<Rightarrow> bool \<Rightarrow> nat \<Rightarrow> nat \<Rightarrow> grid \<Rightarrow> grid option" where
  "resize_impl reflow conpty lines cols g = do {
     let template = cur_template (g_cursor g);
     let g = map_cursor (\<lambda>c. c\<lparr>cur_template := default_cell\<rparr>) g;
     g \<leftarrow> (if g_lines g < lines then grow_lines conpty lines g
          else if g_lines g > lines then shrink_lines conpty lines g
          else Some g);
     let grows = (g_columns g < cols);
     let shrinks = (g_columns g > cols);
     let splices_rows = (grows \<and> reflow \<and> g_reflow_on_grow g \<or> shrinks \<and> reflow);
     anchor \<leftarrow> (if splices_rows then anchor_cursor g else Some None);
     g \<leftarrow> (if grows then grow_columns (reflow \<and> g_reflow_on_grow g) cols g
          else if shrinks then shrink_columns reflow cols g
          else Some g);
     g \<leftarrow> (case anchor of None \<Rightarrow> Some g | Some a \<Rightarrow> restore_cursor_anchor a g);
     Some (map_cursor (\<lambda>c. c\<lparr>cur_template := template\<rparr>) g)
   }"

definition grid_resize :: "bool \<Rightarrow> nat \<Rightarrow> nat \<Rightarrow> grid \<Rightarrow> grid option" where
  "grid_resize reflow lines cols g = resize_impl reflow False lines cols g"

definition resize_conpty :: "bool \<Rightarrow> nat \<Rightarrow> nat \<Rightarrow> grid \<Rightarrow> grid option" where
  "resize_conpty reflow lines cols g = resize_impl reflow True lines cols g"

end
