(* ===== verification/Resize_Grow.thy ===== *)
theory Resize_Grow
  imports Resize
begin

text \<open>
  Widening a grid (\<open>Grid::grow_columns\<close>) never panics: for a well-formed grid, every row taken out
  of the storage is joined or kept, the screen is refilled, and the new grid is well-formed at the new
  width with the cursors inside it.
\<close>


section \<open>Rows in transit\<close>

text \<open>
  A row on its way from the old to the new storage: of any width, with the bound of occupied cells
  that the row invariant asks for.
\<close>

definition loose_row :: "bool \<Rightarrow> row \<Rightarrow> bool" where
  "loose_row transient r \<longleftrightarrow> row_wf (row_len r) r \<and> (\<not> transient \<longrightarrow> row_clean r)"

lemma loose_rowI:
  assumes "row_occ r \<le> length (row_inner r)" "\<And>c. c \<in> set (drop (row_occ r) (row_inner r)) \<Longrightarrow> \<not> transient_cell c"
    "\<And>c. \<not> transient \<Longrightarrow> c \<in> set (row_inner r) \<Longrightarrow> \<not> transient_cell c"
  shows "loose_row transient r"
  using assms by (auto simp: loose_row_def row_wf_def row_len_def row_clean_def list_all_iff)

lemma loose_rowD:
  assumes "loose_row transient r"
  shows "row_occ r \<le> length (row_inner r)" "c \<in> set (drop (row_occ r) (row_inner r)) \<Longrightarrow> \<not> transient_cell c"
    "\<not> transient \<Longrightarrow> c \<in> set (row_inner r) \<Longrightarrow> \<not> transient_cell c"
  using assms by (auto simp: loose_row_def row_wf_def row_len_def row_clean_def list_all_iff)

lemma loose_row_good: "row_good False n s r \<longleftrightarrow> row_len r = n \<and> loose_row (st_transient s) r"
  by (auto simp: row_good_def loose_row_def row_std_def row_wf_def row_len_def)

lemma loose_full: "(\<not> transient \<Longrightarrow> \<forall>c \<in> set cs. \<not> transient_cell c) \<Longrightarrow> loose_row transient \<lparr>row_inner = cs, row_occ = length cs\<rparr>"
  by (rule loose_rowI) auto

lemma flag_cells [simp]:
  "transient_cell (add_flag f c) = transient_cell c" "transient_cell (strip_flag f c) = transient_cell c"
  "\<not> transient_cell spacer_cell"
proof -
  have *: "transient_cell (c\<lparr>cell_flags := x\<rparr>) = transient_cell c" for c x
    by (simp add: transient_cell_def cell_inline_marker_def)
  show "transient_cell (add_flag f c) = transient_cell c" "transient_cell (strip_flag f c) = transient_cell c"
    "\<not> transient_cell spacer_cell"
    by (simp_all only: * add_flag_def strip_flag_def spacer_cell_def) simp
qed

lemma row_last_mut_cells:
  "row_inner (row_last_mut f r) = (if row_inner r = [] then [] else butlast (row_inner r) @ [f (last (row_inner r))])"
  "row_occ (row_last_mut f r) = length (row_inner r)" "row_len (row_last_mut f r) = row_len r"
  by (simp_all add: row_last_mut_def Let_def row_len_def)

lemma loose_last_mut:
  assumes "loose_row t r" "\<And>c. transient_cell (f c) = transient_cell c"
  shows "loose_row t (row_last_mut f r)"
proof (rule loose_rowI)
  show "\<not> transient_cell c" if "\<not> t" "c \<in> set (row_inner (row_last_mut f r))" for c
    using that loose_rowD(3) [OF assms(1)] assms(2)
    by (auto simp: row_last_mut_cells dest: in_set_butlastD split: if_splits)
qed (auto simp: row_last_mut_cells)

lemma loose_front_split_off:
  assumes "loose_row t r" "n \<le> row_len r"
  shows "\<exists>r'. row_front_split_off n r = Some (take n (row_inner r), r') \<and> loose_row t r' \<and>
    row_inner r' = drop n (row_inner r)"
proof -
  let ?r = "\<lparr>row_inner = drop n (row_inner r), row_occ = row_occ r - n\<rparr>"
  have "set (drop (row_occ r - n) (drop n (row_inner r))) \<subseteq> set (drop (row_occ r) (row_inner r))"
    by (simp add: set_drop_subset_set_drop)
  then have "loose_row t ?r"
    using loose_rowD [OF assms(1)] by (intro loose_rowI) (auto dest: in_set_dropD simp del: drop_drop)
  then show ?thesis using assms(2) by (simp add: row_front_split_off_def panic_free row_len_def)
qed

lemma loose_append:
  assumes "loose_row t r" "row_occ r = length (row_inner r)" "\<not> t \<Longrightarrow> \<forall>c \<in> set cs. \<not> transient_cell c"
  shows "loose_row t (row_append cs r)"
  using loose_rowD [OF assms(1)] assms(2,3) by (intro loose_rowI) (auto simp: row_append_def)

lemma loose_append_front:
  assumes "loose_row t r" "\<not> t \<Longrightarrow> \<forall>c \<in> set cs. \<not> transient_cell c"
  shows "loose_row t (row_append_front cs r)"
  using loose_rowD [OF assms(1)] assms(2) by (intro loose_rowI) (auto simp: row_append_front_def)

lemma loose_grow:
  assumes "loose_row t r" "row_len r \<le> n"
  shows "loose_row t (row_grow n r)" "row_len (row_grow n r) = n"
proof -
  show "row_len (row_grow n r) = n" using assms(2) by (auto simp: row_grow_def row_len_def)
  show "loose_row t (row_grow n r)"
    using loose_rowD [OF assms(1)] by (intro loose_rowI) (auto simp: row_grow_def resize_with_def split: if_splits)
qed

section \<open>The cursor in transit\<close>

text \<open>
  While rows are in transit the code changes nothing of the grid but the position and the pending
  wrap of the cursor and the display offset, and the cursor stays on a line of the screen.
\<close>

definition on_line :: "grid \<Rightarrow> bool" where
  "on_line g \<longleftrightarrow> 0 \<le> g_line g \<and> g_line g < int (g_lines g)"

definition moved :: "grid \<Rightarrow> grid \<Rightarrow> bool" where
  "moved g g' \<longleftrightarrow> on_line g' \<and> g_raw g' = g_raw g \<and> g_columns g' = g_columns g \<and> g_lines g' = g_lines g \<and>
     g_max_scroll_limit g' = g_max_scroll_limit g \<and> g_scrolled_out g' = g_scrolled_out g \<and>
     g_reflow_on_grow g' = g_reflow_on_grow g \<and> g_saved_cursor g' = g_saved_cursor g \<and>
     cur_template (g_cursor g') = cur_template (g_cursor g) \<and> cur_charsets (g_cursor g') = cur_charsets (g_cursor g)"

lemma put_simps [simp]:
  "g_raw (put_point p g) = g_raw g" "g_columns (put_point p g) = g_columns g" "g_lines (put_point p g) = g_lines g"
  "g_display_offset (put_point p g) = g_display_offset g" "g_saved_cursor (put_point p g) = g_saved_cursor g"
  "g_max_scroll_limit (put_point p g) = g_max_scroll_limit g" "cur_point (g_cursor (put_point p g)) = p"
  "cur_template (g_cursor (put_point p g)) = cur_template (g_cursor g)"
  "cur_charsets (g_cursor (put_point p g)) = cur_charsets (g_cursor g)"
  "cur_input_needs_wrap (g_cursor (put_point p g)) = cur_input_needs_wrap (g_cursor g)"
  "g_reflow_on_grow (put_point p g) = g_reflow_on_grow g" "g_scrolled_out (put_point p g) = g_scrolled_out g"
  "g_reflow_on_grow (put_wrap b g) = g_reflow_on_grow g" "g_scrolled_out (put_wrap b g) = g_scrolled_out g"
  "g_raw (put_wrap b g) = g_raw g" "g_columns (put_wrap b g) = g_columns g" "g_lines (put_wrap b g) = g_lines g"
  "g_display_offset (put_wrap b g) = g_display_offset g" "g_saved_cursor (put_wrap b g) = g_saved_cursor g"
  "g_max_scroll_limit (put_wrap b g) = g_max_scroll_limit g" "cur_point (g_cursor (put_wrap b g)) = cur_point (g_cursor g)"
  "cur_template (g_cursor (put_wrap b g)) = cur_template (g_cursor g)"
  "cur_charsets (g_cursor (put_wrap b g)) = cur_charsets (g_cursor g)"
  "cur_input_needs_wrap (g_cursor (put_wrap b g)) = b"
  "grid_dims (put_point p g) = grid_dims g" "grid_dims (put_wrap b g) = grid_dims g"
  "grid_dims (map_cursor f g) = grid_dims g"
  by (simp_all add: put_point_def put_wrap_def map_cursor_def grid_dims_def)

lemma grid_ok_put [simp]:
  "grid_ok strict (put_point p g) = grid_ok strict g" "grid_ok strict (put_wrap b g) = grid_ok strict g"
  "grid_ok strict (map_cursor f g) = grid_ok strict g"
  by (simp_all add: put_point_def put_wrap_def map_cursor_def)

lemmas put_defs = put_line_def put_column_def

lemma movedD:
  assumes "moved g g'"
  shows "on_line g'" "g_raw g' = g_raw g" "g_columns g' = g_columns g" "g_lines g' = g_lines g"
    "g_max_scroll_limit g' = g_max_scroll_limit g" "g_saved_cursor g' = g_saved_cursor g"
    "cur_template (g_cursor g') = cur_template (g_cursor g)" "cur_charsets (g_cursor g') = cur_charsets (g_cursor g)"
    "g_reflow_on_grow g' = g_reflow_on_grow g" "grid_dims g' = grid_dims g"
  using assms by (auto simp: moved_def grid_dims_def)

lemma moved_refl: "on_line g \<Longrightarrow> moved g g"
  by (simp add: moved_def)

lemma moved_steps:
  assumes "moved g g'"
  shows "0 \<le> line p \<Longrightarrow> line p < int (g_lines g) \<Longrightarrow> moved g (put_point p g')"
    "0 \<le> l \<Longrightarrow> l < int (g_lines g) \<Longrightarrow> moved g (put_line l g')"
    "moved g (put_column c g')" "moved g (put_wrap b g')" "moved g (g'\<lparr>g_display_offset := d\<rparr>)"
  using assms by (auto simp: moved_def on_line_def put_defs)

lemma cursor_buffer_line_Some:
  "on_line g \<Longrightarrow> cursor_buffer_line g = Some (g_lines g - nat (g_line g) - 1)"
  by (auto simp: cursor_buffer_line_def on_line_def line_as_usize_def panic_free nat_less_iff)

section \<open>Growing the width never panics\<close>

lemma row_shrink_cells:
  assumes "n \<le> row_len r"
  shows "row_inner (snd (row_shrink n r)) = take n (row_inner r)"
    "row_occ (snd (row_shrink n r)) = min (row_occ r) n \<or> n = row_len r \<and> row_occ (snd (row_shrink n r)) = row_occ r"
  using assms by (auto simp: row_shrink_def row_shrink_with_minimum_def row_len_def Let_def)

text \<open>What pulling cells to the row above does to the two rows.\<close>

definition unwrapped_cells :: "cell list \<Rightarrow> cell list" where
  "unwrapped_cells cs = (let cs = butlast cs @ [strip_flag WRAPLINE (last cs)]
     in if has_flag LEADING_WIDE_CHAR_SPACER (last cs) then butlast cs else cs)"

lemma length_unwrapped_cells:
  "cs \<noteq> [] \<Longrightarrow> length (unwrapped_cells cs) \<le> length cs"
  by (simp add: unwrapped_cells_def Let_def)

lemma pull_cells_Some:
  assumes last_row: "loose_row t last_row" "1 \<le> row_len last_row" "row_len last_row < cols"
    and row: "loose_row t row" "1 \<le> row_len row"
  defines "cs \<equiv> unwrapped_cells (row_inner last_row)"
  defines "k \<equiv> cols - length cs"
  defines "n \<equiv> min (row_len row) k"
  defines "wide \<equiv> has_flag WIDE_CHAR (row_inner row ! (n - 1))"
  shows "\<exists>last_row' row'. pull_cells cols last_row row = Some (last_row', row', if wide then k - 1 else k) \<and>
    row_inner last_row' = cs @ (if wide then take (n - 1) (row_inner row) @ [spacer_cell] else take n (row_inner row)) \<and>
    row_inner row' = drop (if wide then n - 1 else n) (row_inner row) \<and>
    loose_row t last_row' \<and> loose_row t row'"
proof -
  let ?l = "row_last_mut (strip_flag WRAPLINE) last_row"
  have ne: "row_inner last_row \<noteq> []" using last_row(2) by (auto simp: row_len_def)
  then have l: "row_inner ?l = butlast (row_inner last_row) @ [strip_flag WRAPLINE (last (row_inner last_row))]"
    "row_occ ?l = row_len last_row" "row_len ?l = row_len last_row"
    by (simp_all add: row_last_mut_cells row_len_def)
  have loose_l: "loose_row t ?l" using last_row(1) by (rule loose_last_mut) simp
  have row_index: "row_index (row_len last_row - 1) ?l = Some (strip_flag WRAPLINE (last (row_inner last_row)))"
    using ne l(1) by (simp add: row_index_def row_len_def panic_free nth_append)
  let ?sp = "has_flag LEADING_WIDE_CHAR_SPACER (strip_flag WRAPLINE (last (row_inner last_row)))"
  define l' where "l' = (if ?sp then snd (row_shrink (row_len last_row - 1) ?l) else ?l)"
  have l': "row_inner l' = cs" "row_occ l' = length cs" "row_len l' = length cs"
    using row_shrink_cells [of "row_len last_row - 1" ?l] l ne
    by (auto simp: l'_def cs_def unwrapped_cells_def row_len_def butlast_conv_take Let_def)
  have "loose_row t l'"
    by (rule loose_rowI) (use l' loose_rowD(3) [OF loose_l] l(1) in
      \<open>auto simp: cs_def unwrapped_cells_def Let_def dest: in_set_butlastD split: if_splits\<close>)
  note loose_l' = this
  have len: "(if ?sp then row_len last_row - 1 else row_len last_row) = length cs"
    using ne by (simp add: cs_def unwrapped_cells_def Let_def row_len_def)
  have k: "length cs \<le> cols" "1 \<le> k" using last_row(3) len by (auto simp: k_def split: if_splits)
  then have n: "1 \<le> n" "n \<le> row_len row" using row(2) by (auto simp: n_def)
  have c: "row_index (n - 1) row = Some (row_inner row ! (n - 1))"
    using n by (simp add: row_index_def panic_free row_len_def)
  have "n - 1 \<le> row_len row" using n by simp
  then obtain r1 where r1: "row_front_split_off (n - 1) row = Some (take (n - 1) (row_inner row), r1)" "loose_row t r1"
    "row_inner r1 = drop (n - 1) (row_inner row)"
    using loose_front_split_off [OF row(1)] by blast
  obtain r2 where r2: "row_front_split_off n row = Some (take n (row_inner row), r2)" "loose_row t r2"
    "row_inner r2 = drop n (row_inner row)"
    using loose_front_split_off [OF row(1) n(2)] by blast
  have clean: "\<not> t \<Longrightarrow> \<forall>c \<in> set (take m (row_inner row)). \<not> transient_cell c" for m
    using loose_rowD(3) [OF row(1)] by (auto dest: in_set_takeD)
  have eq: "pull_cells cols last_row row = (if wide
      then Some (row_append (take (n - 1) (row_inner row) @ [spacer_cell]) l', r1, k - 1)
      else Some (row_append (take n (row_inner row)) l', r2, k))"
    using last_row(2) row_index len k n c r1 r2
    by (auto simp: pull_cells_def Let_def l(3) panic_free l'_def k_def [symmetric] n_def [symmetric] wide_def)
  show ?thesis
  proof (cases wide)
    case True
    have "loose_row t (row_append (take (n - 1) (row_inner row) @ [spacer_cell]) l')"
      using clean l' by (intro loose_append [OF loose_l']) auto
    then show ?thesis using True eq r1 l' by (simp add: row_append_def)
  next
    case False
    have "loose_row t (row_append (take n (row_inner row)) l')"
      using clean l' by (intro loose_append [OF loose_l']) auto
    then show ?thesis using False eq r2 l' by (simp add: row_append_def)
  qed
qed

lemma point_sub_cursor:
  assumes "1 \<le> columns d" "0 \<le> line p" "line p < int (screen_lines d)"
  shows "\<exists>q. point_sub d Boundary_Cursor n p = Some q \<and> 0 \<le> line q \<and> line q \<le> line p \<and> column q < columns d"
proof -
  let ?c = "(columns d + column p - n mod columns d) mod columns d"
  have "?c < columns d" using assms(1) by (intro mod_less_divisor) simp
  then have "?c \<le> columns d - 1" by simp
  then show ?thesis
    using assms by (auto simp: point_sub_def point_grid_clamp_def last_column_def panic_free Let_def bottommost_line_def min_absorb1)
qed

lemma grid_dims_simps [simp]: "columns (grid_dims g) = g_columns g" "screen_lines (grid_dims g) = g_lines g"
  by (simp_all add: grid_dims_def)

text \<open>The cursor of a grid that is being widened stays inside the new width.\<close>

definition widening :: "nat \<Rightarrow> grid \<Rightarrow> grid \<Rightarrow> bool" where
  "widening cols g g' \<longleftrightarrow> moved g g' \<and> g_columns g = cols \<and> g_column g' < cols"

lemma widening_steps:
  assumes "widening cols g g'"
  shows "0 \<le> l \<Longrightarrow> l < int (g_lines g) \<Longrightarrow> widening cols g (put_line l g')" "c < cols \<Longrightarrow> widening cols g (put_column c g')"
    "widening cols g (put_wrap b g')" "widening cols g (row_removed i g')"
  using assms moved_steps [of g g'] by (auto simp: widening_def row_removed_def put_defs)

lemma reflow_cursor_Some:
  assumes w: "widening cols g g'"
  shows "\<exists>g1 d. reflow_cursor n row g' = Some (g1, d) \<and> widening cols g g1 \<and> 0 \<le> d"
proof -
  note m = movedD [of g g'] and w' = w [unfolded widening_def]
  let ?p = "cur_point (g_cursor g')"
  have p: "1 \<le> columns (grid_dims g')" "0 \<le> line ?p" "line ?p < int (screen_lines (grid_dims g'))"
    using m(1,3) w' by (auto simp: on_line_def)
  obtain q where q: "point_sub (grid_dims g') Boundary_Cursor n ?p = Some q" "0 \<le> line q" "line q \<le> line ?p" "column q < g_columns g'"
    using point_sub_cursor [OF p, of n] by auto
  have "0 \<le> line q" "line q < int (screen_lines (grid_dims g'))" using q p by auto
  then obtain q2 where q2: "point_sub (grid_dims g') Boundary_Cursor 1 q = Some q2" "0 \<le> line q2" "line q2 \<le> line q" "column q2 < g_columns g'"
    using point_sub_cursor [OF p(1), of q 1] by auto
  have c: "column q < cols" "column q2 < cols" using q(4) q2(4) m(3) w' by auto
  then show ?thesis
    using q q2 widening_steps [OF w] widening_steps [OF widening_steps(3) [OF w, of True]]
    by (auto simp: reflow_cursor_def put_defs)
qed

text \<open>Finished and unfinished rows of the stack.\<close>

definition stack_row :: "bool \<Rightarrow> nat \<Rightarrow> row \<Rightarrow> bool" where
  "stack_row t cols r \<longleftrightarrow> loose_row t r \<and> 1 \<le> row_len r \<and> row_len r \<le> cols"

definition grow_inv :: "bool \<Rightarrow> nat \<Rightarrow> grid \<Rightarrow> nat \<Rightarrow> grow_state \<Rightarrow> bool" where
  "grow_inv t cols g k = (\<lambda>(g', stack, delta). widening cols g g' \<and> (\<forall>r \<in> set stack. stack_row t cols r) \<and>
     length stack \<le> k \<and> (0 < k \<longrightarrow> stack \<noteq> []))"

lemma not_clear_len: "\<not> row_is_clear r \<Longrightarrow> 1 \<le> row_len r"
  by (cases "row_inner r") (auto simp: row_is_clear_def row_len_def)

lemma stack_row_wrap: "stack_row t cols r \<Longrightarrow> stack_row t cols (row_last_mut (add_flag f) r)"
  by (auto simp: stack_row_def row_last_mut_cells loose_last_mut)

lemma pulled_rows:
  assumes "stack_row t cols last_row" "should_reflow reflow cols last_row" "loose_row t row" "1 \<le> row_len row"
  shows "\<exists>last_row' row' n. pull_cells cols last_row row = Some (last_row', row', n) \<and>
    stack_row t cols last_row' \<and> loose_row t row' \<and> row_len row' \<le> row_len row"
proof -
  let ?cs = "unwrapped_cells (row_inner last_row)"
  let ?n = "min (row_len row) (cols - length ?cs)"
  let ?w = "has_flag WIDE_CHAR (row_inner row ! (?n - 1))"
  have l: "loose_row t last_row" "1 \<le> row_len last_row" "row_len last_row < cols"
    using assms(1,2) by (auto simp: stack_row_def should_reflow_def)
  obtain l' r' where p: "pull_cells cols last_row row = Some (l', r', if ?w then cols - length ?cs - 1 else cols - length ?cs)"
    "row_inner l' = ?cs @ (if ?w then take (?n - 1) (row_inner row) @ [spacer_cell] else take ?n (row_inner row))"
    "row_inner r' = drop (if ?w then ?n - 1 else ?n) (row_inner row)" "loose_row t l'" "loose_row t r'"
    using pull_cells_Some [OF l assms(3,4)] by blast
  have "length ?cs < cols"
    using length_unwrapped_cells [of "row_inner last_row"] l by (fastforce simp: row_len_def)
  then have "1 \<le> row_len l'" "row_len l' \<le> cols" "row_len r' \<le> row_len row"
    using p(2,3) assms(4) by (auto simp: row_len_def)
  with p show ?thesis by (auto simp: stack_row_def)
qed

lemma grow_row_Some:
  assumes inv: "grow_inv t cols g k (g', stack, delta)" and row: "stack_row t cols row"
  shows "returns (grow_row reflow cols (i, row) (g', stack, delta)) (grow_inv t cols g (Suc k))"
proof (cases stack)
  case Nil
  then show ?thesis using assms by (simp add: grow_row_def grow_inv_def)
next
  case (Cons last_row upper)
  have w: "widening cols g g'" and rows: "stack_row t cols last_row" "\<forall>r \<in> set upper. stack_row t cols r"
    and len: "length upper < k"
    using inv Cons by (auto simp: grow_inv_def)
  show ?thesis
  proof (cases "should_reflow reflow cols last_row")
    case False
    then show ?thesis using Cons w rows len row by (simp add: grow_row_def grow_inv_def)
  next
    case True
    have "loose_row t row" "1 \<le> row_len row" using row by (auto simp: stack_row_def)
    then obtain l' r' n where p: "pull_cells cols last_row row = Some (l', r', n)" "stack_row t cols l'" "loose_row t r'"
      "row_len r' \<le> row_len row"
      using pulled_rows [OF rows(1) True] by blast
    have r': "stack_row t cols r'" if "\<not> row_is_clear r'"
      using not_clear_len [OF that] p(3,4) row by (auto simp: stack_row_def)
    have on: "on_line g'" "g_lines g' = g_lines g" using w movedD by (auto simp: widening_def)
    obtain g1 d where g1: "reflow_cursor n r' g' = Some (g1, d)" "widening cols g g1" "0 \<le> d"
      using reflow_cursor_Some [OF w] by blast
    have step: "widening cols g (put_line (g_line g' + 1) (row_removed i g'))" if "i < g_lines g' - nat (g_line g') - 1"
      using widening_steps(1) [OF widening_steps(4) [OF w]] that on by (auto simp: on_line_def row_removed_def)
    have "g_line (row_removed i g') = g_line g'" by (simp add: row_removed_def)
    then show ?thesis
      using Cons True p(1,2) rows len w g1 r' step stack_row_wrap [OF p(2)] widening_steps(4) [OF w] widening_steps(4) [OF g1(2)]
      by (auto simp: grow_row_def grow_join_def cursor_buffer_line_Some [OF on(1)] grow_inv_def Let_def returns_rules)
  qed
qed

lemma blank_stack_row: "1 \<le> cols \<Longrightarrow> stack_row t cols (blank_row cols col)"
  using blank_row_wf [of cols col] by (simp add: stack_row_def loose_row_def row_len_def row_wf_def)

lemma fill_viewport_Some:
  assumes w: "widening cols g g'" and rows: "\<forall>r \<in> set stack. stack_row t cols r" and lines: "1 \<le> g_lines g"
  shows "returns (fill_viewport cols stack g') (\<lambda>(stack', g1). widening cols g g1 \<and> (\<forall>r \<in> set stack'. stack_row t cols r) \<and>
     length stack' = max (g_lines g) (length stack))"
proof -
  have m: "moved g g'" "g_lines g' = g_lines g" "1 \<le> cols" using w movedD by (auto simp: widening_def)
  have "int (g_lines g' - length stack) \<ge> 0" "on_line g'" using movedD [OF m(1)] by auto
  then have l: "widening cols g (put_line (max (g_line g' - int (g_lines g' - length stack)) 0) g')"
    using lines m by (intro widening_steps(1) [OF w]) (auto simp: on_line_def)
  show ?thesis
    using w rows m l blank_stack_row [OF m(3), of t "Named Background"]
    by (auto simp: fill_viewport_def panic_free Let_def)
qed

lemma pull_down_Some:
  assumes w: "widening cols g g'" and rows: "\<forall>r \<in> set stack. stack_row t cols r"
    and lines: "1 \<le> g_lines g" "g_lines g \<le> length stack"
  shows "returns (pull_down delta stack g') (\<lambda>(stack', g1). widening cols g g1 \<and> (\<forall>r \<in> set stack'. stack_row t cols r) \<and>
     g_lines g \<le> length stack' \<and> length stack' \<le> length stack)"
proof (cases "delta = 0")
  case True
  then show ?thesis using assms by (simp add: pull_down_def)
next
  case False
  have m: "on_line g'" "g_lines g' = g_lines g" using w movedD by (auto simp: widening_def)
  define b where "b = g_lines g' - nat (g_line g') - 1"
  define a where "a = min b (length stack - g_lines g')"
  have a: "delta \<le> length stack + (delta - a)" "g_lines g \<le> length stack + (delta - a) - delta"
    using m(2) lines by (auto simp: a_def)
  have "0 \<le> max (g_line g' - int (delta - a)) 0" "max (g_line g' - int (delta - a)) 0 < int (g_lines g)"
    using m lines by (auto simp: on_line_def)
  then have l: "widening cols g (put_line (max (g_line g' - int (delta - a)) 0) g')" by (rule widening_steps(1) [OF w])
  have "pull_down delta stack g' = Some (drop (length stack - (length stack + (delta - a) - delta)) stack,
      put_line (max (g_line g' - int (delta - a)) 0) g')"
    using False a(1) [unfolded a_def b_def] lines(2) m(2)
    by (simp add: pull_down_def cursor_buffer_line_Some [OF m(1)] panic_free Let_def a_def b_def)
  then show ?thesis using l rows a(2) by (auto dest: in_set_dropD)
qed

text \<open>What a change of the size leaves: a well-formed grid of the new size with both cursors on it.\<close>

definition reshaped :: "nat \<Rightarrow> nat \<Rightarrow> grid \<Rightarrow> grid \<Rightarrow> bool" where
  "reshaped lines cols g g' \<longleftrightarrow> grid_ok False g' \<and> g_lines g' = lines \<and> g_columns g' = cols \<and>
     g_max_scroll_limit g' = g_max_scroll_limit g \<and> g_reflow_on_grow g' = g_reflow_on_grow g \<and>
     on_line g' \<and> g_column g' < cols \<and>
     0 \<le> line (cur_point (g_saved_cursor g')) \<and> line (cur_point (g_saved_cursor g')) < int lines \<and>
     column (cur_point (g_saved_cursor g')) < cols \<and>
     cur_charsets (g_cursor g') = cur_charsets (g_cursor g) \<and> cur_template (g_cursor g') = cur_template (g_cursor g) \<and>
     cur_charsets (g_saved_cursor g') = cur_charsets (g_saved_cursor g) \<and>
     cur_template (g_saved_cursor g') = cur_template (g_saved_cursor g)"

text \<open>A grid whose rows are the given ones, of the given width.\<close>

lemma grid_ok_replace:
  assumes "grid_ok False g" "g_lines g' = g_lines g" "g_max_scroll_limit g' = g_max_scroll_limit g" "g_columns g' = cols" "1 \<le> cols"
    "st_visible_lines (g_raw g') = g_lines g" "g_lines g \<le> length rows" "length rows \<le> g_lines g + g_max_scroll_limit g"
    "\<forall>r \<in> set rows. row_len r = cols \<and> loose_row (st_transient (g_raw g')) r"
  shows "grid_ok False (g'\<lparr>g_raw := storage_replace_inner rows (g_raw g')\<rparr>)"
    "grid_history (g'\<lparr>g_raw := storage_replace_inner rows (g_raw g')\<rparr>) = length rows - g_lines g"
proof -
  have lines: "1 \<le> g_lines g" using assms(1) by (auto simp: grid_ok_def storage_ok_def)
  have "storage_ok False cols (storage_replace_inner rows (g_raw g'))"
    using assms lines by (intro storage_replace_inner_ok) (auto simp: loose_row_good)
  then show "grid_ok False (g'\<lparr>g_raw := storage_replace_inner rows (g_raw g')\<rparr>)"
    using assms(2-4,6,8) by (simp add: grid_ok_def grid_dims_def history_size_def storage_replace_inner_def)
  show "grid_history (g'\<lparr>g_raw := storage_replace_inner rows (g_raw g')\<rparr>) = length rows - g_lines g"
    using assms(2) by (simp add: grid_dims_def history_size_def storage_replace_inner_def)
qed

lemma take_all_rows:
  assumes "grid_ok strict g"
  shows "\<exists>raw. storage_take_all (g_raw g) = Some (map (ring_at (g_raw g)) [0..<st_len (g_raw g)], raw) \<and>
    st_visible_lines raw = g_lines g \<and> st_transient raw = st_transient (g_raw g) \<and>
    (\<forall>k < st_len (g_raw g). row_len (ring_at (g_raw g) k) = g_columns g \<and> loose_row (st_transient (g_raw g)) (ring_at (g_raw g) k))"
proof -
  have ok: "storage_ok strict (g_columns g) (g_raw g)" "st_visible_lines (g_raw g) = g_lines g" using assms by (auto simp: grid_ok_def)
  have "row_len (ring_at (g_raw g) k) = g_columns g \<and> loose_row (st_transient (g_raw g)) (ring_at (g_raw g) k)"
    if "k < st_len (g_raw g)" for k
    using ok(1) that by (auto simp: storage_ok_ring row_std_def row_wf_def row_len_def loose_row_def)
  then show ?thesis using storage_take_all_rows [OF ok(1)] ok(2) by auto
qed

lemma unwrap_cursor_simps [simp]:
  "g_raw (unwrap_cursor reflow g) = g_raw g" "g_columns (unwrap_cursor reflow g) = g_columns g"
  "g_lines (unwrap_cursor reflow g) = g_lines g" "g_max_scroll_limit (unwrap_cursor reflow g) = g_max_scroll_limit g"
  "g_line (unwrap_cursor reflow g) = g_line g" "g_reflow_on_grow (unwrap_cursor reflow g) = g_reflow_on_grow g"
  "g_saved_cursor (unwrap_cursor reflow g) = g_saved_cursor g"
  "cur_template (g_cursor (unwrap_cursor reflow g)) = cur_template (g_cursor g)"
  "cur_charsets (g_cursor (unwrap_cursor reflow g)) = cur_charsets (g_cursor g)"
  "g_display_offset (unwrap_cursor reflow g) = g_display_offset g"
  by (simp_all add: unwrap_cursor_def put_defs)

lemma unwrap_cursor_column: "g_column (unwrap_cursor reflow g) \<le> g_column g + 1"
  by (simp add: unwrap_cursor_def put_defs)

lemma grow_columns_returns:
  assumes ok: "grid_ok False g" and cur: "on_line g" "g_column g < g_columns g"
    and saved: "0 \<le> line (cur_point (g_saved_cursor g))" "line (cur_point (g_saved_cursor g)) < int (g_lines g)"
      "column (cur_point (g_saved_cursor g)) < g_columns g"
    and cols: "g_columns g < cols"
  shows "returns (grow_columns reflow cols g) (\<lambda>g'. reshaped (g_lines g) cols g g' \<and> display_ok g')"
proof -
  obtain raw where raw: "storage_take_all (g_raw g) = Some (map (ring_at (g_raw g)) [0..<st_len (g_raw g)], raw)"
    "st_visible_lines raw = g_lines g" "st_transient raw = st_transient (g_raw g)"
    and rows: "\<And>k. k < st_len (g_raw g) \<Longrightarrow> row_len (ring_at (g_raw g) k) = g_columns g \<and> loose_row (st_transient (g_raw g)) (ring_at (g_raw g) k)"
    using take_all_rows [OF ok] by blast
  let ?t = "st_transient (g_raw g)"
  let ?rows = "map (ring_at (g_raw g)) [0..<st_len (g_raw g)]"
  define g1 where "g1 = (unwrap_cursor reflow (g\<lparr>g_columns := cols\<rparr>))\<lparr>g_raw := raw\<rparr>"
  have lines: "1 \<le> g_columns g" "1 \<le> g_lines g" "g_lines g \<le> st_len (g_raw g)"
    using ok by (auto simp: grid_ok_def storage_ok_def)
  have hist: "st_len (g_raw g) \<le> g_lines g + g_max_scroll_limit g"
    using ok grid_history_len [OF ok] by (simp add: grid_ok_def)
  have w: "widening cols g1 g1"
    using cur cols unwrap_cursor_column [of reflow "g\<lparr>g_columns := cols\<rparr>"]
    by (auto simp: widening_def g1_def on_line_def intro!: moved_refl)
  have g1: "g_lines g1 = g_lines g" "g_max_scroll_limit g1 = g_max_scroll_limit g" "g_raw g1 = raw" "g_columns g1 = cols"
    by (simp_all add: g1_def)
  have loop: "returns (for_each (grow_row reflow cols) (rev (List.enumerate 0 ?rows)) (g1, [], 0)) (grow_inv ?t cols g1 (st_len (g_raw g)))"
  proof -
    have "\<exists>s'. for_each (grow_row reflow cols) (rev (List.enumerate 0 ?rows)) (g1, [], 0) = Some s' \<and>
      grow_inv ?t cols g1 (length (rev (List.enumerate 0 ?rows))) s'"
    proof (rule for_each_rule)
      show "grow_inv ?t cols g1 0 (g1, [], 0)" using w by (simp add: grow_inv_def)
      fix k and s :: grow_state assume k: "k < length (rev (List.enumerate 0 ?rows))" and s: "grow_inv ?t cols g1 k s"
      obtain i r where ir: "rev (List.enumerate 0 ?rows) ! k = (i, r)" by fastforce
      then have "(i, r) \<in> set (rev (List.enumerate 0 ?rows))" using k nth_mem by metis
      then have "\<exists>j < st_len (g_raw g). r = ring_at (g_raw g) j" by (auto simp: in_set_enumerate_eq)
      then have "stack_row ?t cols r" using rows cols lines by (auto simp: stack_row_def)
      then show "\<exists>s'. grow_row reflow cols (rev (List.enumerate 0 ?rows) ! k) s = Some s' \<and> grow_inv ?t cols g1 (Suc k) s'"
        using grow_row_Some [of ?t cols g1 k "fst s" "fst (snd s)" "snd (snd s)" r reflow i] s ir by (simp add: returns_def)
    qed
    then show ?thesis by (simp add: returns_def)
  qed
  then obtain g2 stack delta where s2: "for_each (grow_row reflow cols) (rev (List.enumerate 0 ?rows)) (g1, [], 0) = Some (g2, stack, delta)"
    "widening cols g1 g2" "\<forall>r \<in> set stack. stack_row ?t cols r" "length stack \<le> st_len (g_raw g)"
    by (auto simp: returns_def grow_inv_def)
  obtain stack3 g3 where s3: "fill_viewport cols stack g2 = Some (stack3, g3)" "widening cols g1 g3"
    "\<forall>r \<in> set stack3. stack_row ?t cols r" "length stack3 = max (g_lines g) (length stack)"
    using fill_viewport_Some [OF s2(2,3)] lines g1(1) by (auto simp: returns_def)
  have "g_lines g1 \<le> length stack3" using s3(4) g1(1) by simp
  then obtain stack4 g4 where s4: "pull_down delta stack3 g3 = Some (stack4, g4)" "widening cols g1 g4"
    "\<forall>r \<in> set stack4. stack_row ?t cols r" "g_lines g \<le> length stack4" "length stack4 \<le> length stack3"
    using pull_down_Some [OF s3(2,3), of delta] lines g1(1) by (auto simp: returns_def)
  note m4 = movedD [of g1 g4] and w4 = s4(2) [unfolded widening_def]
  have f4: "on_line g4" "g_raw g4 = raw" "g_columns g4 = cols" "g_lines g4 = g_lines g" "g_max_scroll_limit g4 = g_max_scroll_limit g"
    "g_saved_cursor g4 = g_saved_cursor g" "cur_template (g_cursor g4) = cur_template (g_cursor g)"
    "cur_charsets (g_cursor g4) = cur_charsets (g_cursor g)" "g_reflow_on_grow g4 = g_reflow_on_grow g" "g_column g4 < cols"
    using m4 w4 g1 by (simp_all add: g1_def)
  let ?new = "map (row_grow cols) stack4"
  have new: "\<forall>r \<in> set ?new. row_len r = cols \<and> loose_row (st_transient (g_raw g4)) r"
    using s4(3) loose_grow f4(2) raw(3) by (auto simp: stack_row_def)
  have len: "g_lines g \<le> length ?new" "length ?new \<le> g_lines g + g_max_scroll_limit g"
    using s2(4) s3(4) s4(4,5) hist lines by auto
  have "1 \<le> cols" "st_visible_lines (g_raw g4) = g_lines g" using cols raw(2) f4(2) by auto
  note ok5 = grid_ok_replace [OF ok f4(4,5,3) this len new]
  have eq: "grow_columns reflow cols g = Some (let g5 = g4\<lparr>g_raw := storage_replace_inner ?new (g_raw g4)\<rparr>
      in g5\<lparr>g_display_offset := min (g_display_offset g5) (grid_history g5)\<rparr>)"
    using raw(1) s2(1) s3(1) s4(1) by (simp add: grow_columns_def g1_def Let_def)
  show ?thesis
    using ok5 f4 saved cols unfolding eq
    by (auto simp: reshaped_def Let_def on_line_def display_ok_def grid_dims_def)
qed

end
