(* ===== verification/Resize_Height.thy ===== *)
theory Resize_Height
  imports Resize_Grow
begin

text \<open>
  Changing the height of a grid (\<open>Grid::grow_lines\<close> and \<open>Grid::shrink_lines\<close>): neither panics, and
  the rows above the bottom of the old buffer are the rows of the new one, with the cursor on the same
  row.
\<close>

section \<open>Changing the height\<close>

text \<open>All rows of the buffer, the oldest first.\<close>

definition buffer_rows :: "grid \<Rightarrow> row list" where
  "buffer_rows g = map (row_at g) [topmost_line (grid_dims g)..bottommost_line (grid_dims g)]"

lemma topmost_grid: "topmost_line (grid_dims g) = - int (grid_history g)" "bottommost_line (grid_dims g) = int (g_lines g) - 1"
  by (simp_all add: topmost_line_def bottommost_line_def)

lemma length_buffer_rows: "length (buffer_rows g) = grid_history g + g_lines g"
  by (simp add: buffer_rows_def topmost_grid)

lemma nth_buffer_rows: "j < grid_history g + g_lines g \<Longrightarrow> buffer_rows g ! j = row_at g (int j - int (grid_history g))"
  by (simp add: buffer_rows_def topmost_grid)

lemma grid_ok_weaken: "grid_ok strict g \<Longrightarrow> grid_ok False g"
  by (auto simp: grid_ok_def storage_ok_def row_std_def list_all_iff)

lemma grid_ok_lines: "grid_ok strict g \<Longrightarrow> 1 \<le> g_lines g \<and> 1 \<le> g_columns g"
  by (auto simp: grid_ok_def storage_ok_def)

lemma scroll_out_Some:
  assumes ok: "grid_ok strict g" and p: "p \<le> g_lines g"
  shows "\<exists>raw d n. grid_scroll_up (0, int (g_lines g)) p g = Some (g\<lparr>g_raw := raw, g_display_offset := d, g_scrolled_out := n\<rparr>) \<and>
    grid_ok strict (g\<lparr>g_raw := raw\<rparr>) \<and> st_len raw = g_lines g + min (grid_history g + p) (g_max_scroll_limit g) \<and>
    (\<forall>l. - int (min (grid_history g + p) (g_max_scroll_limit g)) \<le> l \<longrightarrow> l < int (g_lines g) - int p \<longrightarrow> line_at raw l = row_at g (l + int p)) \<and>
    (\<forall>l. int (g_lines g) - int p \<le> l \<longrightarrow> l < int (g_lines g) \<longrightarrow> erased strict g (line_at raw l))"
proof -
  obtain raw d n where raw: "grid_scroll_up (0, int (g_lines g)) p g = Some (g\<lparr>g_raw := raw, g_display_offset := d, g_scrolled_out := n\<rparr>)"
    "storage_ok strict (g_columns g) raw" "st_visible_lines raw = g_lines g"
    "st_len raw = g_lines g + min (grid_history g + p) (g_max_scroll_limit g)"
    "\<And>l. valid_line raw l \<Longrightarrow> (l < int (g_lines g) - int p \<longrightarrow> line_at raw l = row_at g (l + int p)) \<and>
       (int (g_lines g) - int p \<le> l \<and> l < int (g_lines g) \<longrightarrow> erased strict g (line_at raw l))"
    using grid_scroll_up_top [OF ok order_refl, of p, unfolded of_nat_le_iff, OF p] by blast
  have "grid_ok strict (g\<lparr>g_raw := raw\<rparr>)" using raw(2-4) by (simp add: grid_ok_def grid_dims_def history_size_def)
  then show ?thesis
    using raw p by (intro exI [of _ raw] exI [of _ d] exI [of _ n]) (auto simp: valid_line_def top_line_def)
qed

lemma decrease_scroll_limit_Some:
  assumes ok: "grid_ok strict g"
  shows "\<exists>raw d n. decrease_scroll_limit m g = Some (g\<lparr>g_raw := raw, g_display_offset := d, g_scrolled_out := n\<rparr>) \<and>
    grid_ok strict (g\<lparr>g_raw := raw\<rparr>) \<and> st_len raw = g_lines g + (grid_history g - m) \<and>
    (\<forall>l. - int (grid_history g - m) \<le> l \<longrightarrow> l < int (g_lines g) \<longrightarrow> line_at raw l = row_at g l)"
proof (cases "min m (grid_history g) = 0")
  case True
  then have "decrease_scroll_limit m g = Some (g\<lparr>g_raw := g_raw g, g_display_offset := g_display_offset g, g_scrolled_out := g_scrolled_out g\<rparr>)"
    by (simp add: decrease_scroll_limit_def)
  moreover have "grid_history g - m = grid_history g" using True by (auto simp: min_def split: if_splits)
  ultimately show ?thesis using ok grid_history_len [OF ok] by (intro exI [of _ "g_raw g"] exI [of _ "g_display_offset g"] exI [of _ "g_scrolled_out g"]) auto
next
  case False
  let ?c = "min m (grid_history g)"
  obtain raw where raw: "storage_shrink_lines ?c (g_raw g) = Some raw" "storage_ok strict (g_columns g) raw"
    "st_visible_lines raw = g_lines g" "st_len raw = g_lines g + (grid_history g - ?c)" "\<forall>l. valid_line raw l \<longrightarrow> line_at raw l = row_at g l"
    using grid_shrink [OF ok, of ?c] by auto
  have c: "grid_history g - ?c = grid_history g - m" by auto
  have dims: "grid_dims (g\<lparr>g_scrolled_out := x\<rparr>) = grid_dims g" for x by (simp add: grid_dims_def)
  let ?n = "g_scrolled_out g + ?c"
  let ?g = "g\<lparr>g_raw := raw, g_scrolled_out := ?n\<rparr>"
  have "decrease_scroll_limit m g = Some (g\<lparr>g_raw := raw, g_display_offset := min (g_display_offset g) (grid_history ?g), g_scrolled_out := ?n\<rparr>)"
    using False raw(1) dims by (cases g) (simp add: decrease_scroll_limit_def Let_def grid_dims_def)
  moreover have "grid_ok strict (g\<lparr>g_raw := raw\<rparr>)" using raw(2-4) ok by (auto simp: grid_ok_def grid_dims_def history_size_def)
  ultimately show ?thesis
    using raw(3-5) c by (intro exI [of _ raw] exI [of _ "min (g_display_offset g) (grid_history ?g)"] exI [of _ ?n])
      (auto simp: valid_line_def top_line_def)
qed

text \<open>
  A grid of another height: the rows keep their order, every line number moves by \<open>shift\<close>, as does the
  cursor, \<open>h\<close> rows are left in the history and the lines from \<open>bottom\<close> on are blank.
\<close>

definition other_height :: "bool \<Rightarrow> nat \<Rightarrow> nat \<Rightarrow> int \<Rightarrow> int \<Rightarrow> grid \<Rightarrow> grid \<Rightarrow> bool" where
  "other_height strict lines h shift bottom g g' \<longleftrightarrow> grid_ok strict g' \<and> g_lines g' = lines \<and> g_columns g' = g_columns g \<and>
     g_max_scroll_limit g' = g_max_scroll_limit g \<and> g_reflow_on_grow g' = g_reflow_on_grow g \<and> grid_history g' = h \<and>
     g_cursor g' = (g_cursor g)\<lparr>cur_point := Point (g_line g + shift) (g_column g)\<rparr> \<and>
     (\<exists>s. 0 \<le> s \<and> s < int lines \<and>
       g_saved_cursor g' = (g_saved_cursor g)\<lparr>cur_point := Point s (column (cur_point (g_saved_cursor g)))\<rparr>) \<and>
     (\<forall>l. - int h \<le> l \<and> l < bottom \<longrightarrow> row_at g' l = row_at g (l - shift)) \<and>
     (\<forall>l. bottom \<le> l \<and> l < int lines \<longrightarrow> erased strict g (row_at g' l))"

definition saved_on_line :: "grid \<Rightarrow> bool" where
  "saved_on_line g \<longleftrightarrow> 0 \<le> line (cur_point (g_saved_cursor g)) \<and> line (cur_point (g_saved_cursor g)) < int (g_lines g)"

lemma erased_cong: "g_columns g = g_columns g' \<Longrightarrow> g_cursor g = g_cursor g' \<Longrightarrow> erased strict g = erased strict g'"
  by (simp add: erased_def fun_eq_iff)

lemma grow_lines_returns:
  fixes conpty :: bool
  assumes ok: "grid_ok strict g" and target: "g_lines g \<le> target" and saved: "saved_on_line g"
  defines "a \<equiv> target - g_lines g"
  defines "f \<equiv> (if conpty then 0 else min (grid_history g) a)"
  shows "returns (grow_lines conpty target g) (other_height strict target
    (if conpty then min (grid_history g + a) (g_max_scroll_limit g) - a else grid_history g - a) (int f) (int (g_lines g + f)) g)"
proof -
  have st: "storage_ok strict (g_columns g) (g_raw g)" "st_visible_lines (g_raw g) = g_lines g" "grid_history g \<le> g_max_scroll_limit g"
    using ok by (auto simp: grid_ok_def)
  obtain raw1 where raw1: "grow_visible_lines target (g_raw g) = Some raw1" "storage_ok strict (g_columns g) raw1"
    "st_len raw1 = st_len (g_raw g) + a" "st_visible_lines raw1 = target"
    "\<And>l. valid_line (g_raw g) l \<Longrightarrow> line_at raw1 (l + int a) = line_at (g_raw g) l"
    using grow_visible_lines_lines [OF st(1), of target] target st(2) by (auto simp: a_def)
  define g1 where "g1 = g\<lparr>g_raw := raw1, g_lines := target\<rparr>"
  have lines: "1 \<le> g_lines g" "int target = int (g_lines g) + int a" using grid_ok_lines [OF ok] target by (simp_all add: a_def)
  have "grid_history g1 = st_len (g_raw g) + a - target" using raw1(3) by (simp add: g1_def grid_dims_def history_size_def)
  then have h1: "grid_history g1 = grid_history g" using grid_history_len [OF ok] target unfolding a_def by linarith
  have ok1: "grid_ok strict g1" using raw1(2,4) st(3) h1 by (simp add: grid_ok_def g1_def)
  have rows1: "row_at g1 l = row_at g (l - int a)" if "- int (grid_history g) \<le> l - int a" "l < int target" for l
    using raw1(5) [of "l - int a"] valid_line_grid [OF ok, of "l - int a"] that lines by (simp add: g1_def)
  let ?p = "a - f"
  have f: "f \<le> a" "int ?p = int a - int f" by (auto simp: f_def)
  define h2 where "h2 = (if f \<noteq> a then min (grid_history g + ?p) (g_max_scroll_limit g) else grid_history g)"
  have "\<exists>raw d n. (if f \<noteq> a then grid_scroll_up (0, int target) ?p g1 else Some g1) = Some (g1\<lparr>g_raw := raw, g_display_offset := d, g_scrolled_out := n\<rparr>) \<and>
    grid_ok strict (g1\<lparr>g_raw := raw\<rparr>) \<and> st_len raw = target + h2 \<and>
    (\<forall>l. - int h2 \<le> l \<longrightarrow> l < int target - int ?p \<longrightarrow> line_at raw l = row_at g1 (l + int ?p)) \<and>
    (\<forall>l. int target - int ?p \<le> l \<longrightarrow> l < int target \<longrightarrow> erased strict g1 (line_at raw l))"
  proof (cases "f \<noteq> a")
    case True
    have "?p \<le> g_lines g1" using lines by (simp add: g1_def)
    from scroll_out_Some [OF ok1 this] show ?thesis using True h1 by (simp add: g1_def h2_def)
  next
    case False
    have len1: "st_len (g_raw g1) = target + h2" using grid_history_len [OF ok1] h1 False by (simp add: g1_def h2_def)
    have lines1: "g_lines g1 = target" by (simp add: g1_def)
    have rest: "l < int target - int ?p \<Longrightarrow> row_at g1 l = row_at g1 (l + int ?p)" for l using False by simp
    show ?thesis
      using False ok1 len1 lines1 rest
      by (intro exI [of _ "g_raw g1"] exI [of _ "g_display_offset g1"] exI [of _ "g_scrolled_out g1"]) simp
  qed
  then obtain raw2 d2 n2 where raw2: "(if f \<noteq> a then grid_scroll_up (0, int target) ?p g1 else Some g1)
      = Some (g1\<lparr>g_raw := raw2, g_display_offset := d2, g_scrolled_out := n2\<rparr>)"
    "grid_ok strict (g1\<lparr>g_raw := raw2\<rparr>)" "st_len raw2 = target + h2"
    "\<And>l. - int h2 \<le> l \<Longrightarrow> l < int target - int ?p \<Longrightarrow> line_at raw2 l = row_at g1 (l + int ?p)"
    "\<And>l. int target - int ?p \<le> l \<Longrightarrow> l < int target \<Longrightarrow> erased strict g1 (line_at raw2 l)" by blast
  define g3 where "g3 = (let g = g1\<lparr>g_raw := raw2, g_display_offset := d2, g_scrolled_out := n2\<rparr>;
    g = map_saved_line (\<lambda>l. l + int f) g; g = put_line (g_line g + int f) g in g\<lparr>g_display_offset := g_display_offset g - a\<rparr>)"
  have f3: "g_raw g3 = raw2" "g_lines g3 = target" "g_columns g3 = g_columns g" "g_max_scroll_limit g3 = g_max_scroll_limit g"
    "g_reflow_on_grow g3 = g_reflow_on_grow g" "g_cursor g3 = (g_cursor g)\<lparr>cur_point := Point (g_line g + int f) (g_column g)\<rparr>"
    "g_saved_cursor g3 = (g_saved_cursor g)\<lparr>cur_point := Point (line (cur_point (g_saved_cursor g)) + int f) (column (cur_point (g_saved_cursor g)))\<rparr>"
    by (simp_all add: g3_def g1_def Let_def put_line_def put_point_def map_cursor_def map_saved_line_def)
  have h3: "grid_history g3 = h2" using raw2(3) f3 by (simp add: grid_dims_def history_size_def)
  have ok3: "grid_ok strict g3" using raw2(2) f3 h3 by (simp add: grid_ok_def g1_def grid_dims_def)
  obtain raw4 d4 n4 where raw4: "decrease_scroll_limit a g3 = Some (g3\<lparr>g_raw := raw4, g_display_offset := d4, g_scrolled_out := n4\<rparr>)"
    "grid_ok strict (g3\<lparr>g_raw := raw4\<rparr>)" "st_len raw4 = target + (h2 - a)"
    "\<And>l. - int (h2 - a) \<le> l \<Longrightarrow> l < int target \<Longrightarrow> line_at raw4 l = line_at raw2 l"
    using decrease_scroll_limit_Some [OF ok3, of a] f3(1,2) h3 by auto
  let ?g = "g3\<lparr>g_raw := raw4, g_display_offset := d4, g_scrolled_out := n4\<rparr>"
  have sub: "usize_sub target (g_lines g) = Some a" using target by (simp add: a_def)
  have ff: "(if conpty then 0 else min (grid_history g1) a) = f" using h1 by (simp add: f_def)
  have eq: "grow_lines conpty target g = Some ?g"
    unfolding grow_lines_def sub raw1(1) bind.bind_lunit Let_def g1_def [symmetric] ff raw2(1)
    using raw4(1) unfolding g3_def Let_def .
  have h: "h2 - a = (if conpty then min (grid_history g + a) (g_max_scroll_limit g) - a else grid_history g - a)"
    using st(3) by (auto simp: h2_def f_def)
  have low: "int target - int ?p = int (g_lines g + f)" using lines f by simp
  have "row_at ?g l = row_at g (l - int f)" if "- int (h2 - a) \<le> l" "l < int (g_lines g + f)" for l
  proof -
    have l: "- int h2 \<le> l" "l < int target - int ?p" "l < int target" using that lines f by auto
    have "h2 - a + f \<le> grid_history g" using st(3) by (auto simp: h2_def f_def)
    then have "- int (grid_history g) \<le> l + int ?p - int a" using that(1) f(2) by linarith
    then have "row_at g1 (l + int ?p) = row_at g (l + int ?p - int a)" using l by (intro rows1) auto
    then show ?thesis using raw4(4) [of l] raw2(4) [of l] that l f(2) by (simp add: algebra_simps)
  qed
  moreover have "erased strict g (row_at ?g l)" if "int (g_lines g + f) \<le> l" "l < int target" for l
  proof -
    have "erased strict g1 = erased strict g" by (rule erased_cong) (simp_all add: g1_def)
    then show ?thesis using raw4(4) [of l] raw2(5) [of l] that low by simp
  qed
  moreover have "grid_ok strict ?g" "grid_history ?g = h2 - a"
    using raw4(2,3) f3 by (simp_all add: grid_ok_def grid_dims_def history_size_def)
  moreover have "int f \<le> int a" using f by simp
  moreover have "\<exists>s. 0 \<le> s \<and> s < int target \<and>
      g_saved_cursor g3 = (g_saved_cursor g)\<lparr>cur_point := Point s (column (cur_point (g_saved_cursor g)))\<rparr>"
    using f3(7) saved lines(2) f(1)
    by (intro exI [of _ "line (cur_point (g_saved_cursor g)) + int f"]) (simp add: saved_on_line_def)
  ultimately show ?thesis
    using f3(1-6) lines(2) unfolding eq h [symmetric] by (auto simp: other_height_def)
qed

lemma first_occupied_Some:
  assumes ok: "grid_ok strict g" and "\<forall>l \<in> set ls. l < g_lines g"
  shows "\<exists>k. first_occupied (g_raw g) ls = Some k \<and> (k = 0 \<or> k \<in> set ls)"
  using assms(2)
proof (induction ls)
  case (Cons l ls)
  have "valid_line (g_raw g) (int l)" using Cons.prems valid_line_grid [OF ok] by simp
  then have "storage_index (int l) (g_raw g) = Some (row_at g (int l))"
    using ok storage_index_line by (auto simp: grid_ok_def)
  then show ?case using Cons by auto
qed simp

text \<open>
  A narrower screen scrolls by no more lines than it loses, and never further than the cursor can follow.
\<close>

lemma shrink_scroll_amount_Some:
  assumes ok: "grid_ok strict g" and on: "on_line g" and target: "1 \<le> target" "target \<le> g_lines g"
  shows "\<exists>r. shrink_scroll_amount conpty target g = Some r \<and> r \<le> g_lines g - target \<and> int r \<le> g_line g \<and>
    g_line g < int target + int r \<and> (\<not> conpty \<longrightarrow> r = nat (g_line g) + 1 - target)"
proof -
  obtain k where k: "bottommost_occupied_line g = Some k" "k < g_lines g"
    using first_occupied_Some [OF ok, of "rev [0..<g_lines g]"] grid_ok_lines [OF ok]
    by (auto simp: bottommost_occupied_line_def)
  have c: "line_grid_clamp (grid_dims g) Boundary_Cursor (g_line g) = Some (g_line g)" "line_as_usize (g_line g) = nat (g_line g)"
    using on by (auto simp: bottommost_line_def on_line_def line_as_usize_def)
  let ?c = "nat (g_line g)"
  have n: "?c < g_lines g" "int ?c = g_line g" using on by (auto simp: on_line_def)
  define q where "q = ?c + 1 - target"
  define r where "r = max q (min (max ?c k + 1 - target) ?c)"
  have eq: "shrink_scroll_amount conpty target g = Some (if conpty then r else q)"
    using c k(1) by (simp add: shrink_scroll_amount_def Let_def r_def q_def)
  have "q \<le> r" by (simp add: r_def)
  moreover have "r \<le> g_lines g - target" "r \<le> ?c" using n k(2) target by (auto simp: r_def q_def)
  moreover have "?c < target + q" using target by (simp add: q_def)
  ultimately have "q \<le> g_lines g - target" "int r \<le> g_line g" "int q \<le> g_line g" "g_line g < int target + int r"
    "g_line g < int target + int q" "r \<le> g_lines g - target"
    using n(2) by linarith+
  then show ?thesis unfolding eq by (cases conpty) (simp_all add: q_def)
qed

lemma shrink_lines_returns:
  assumes ok: "grid_ok strict g" and on: "on_line g" and target: "1 \<le> target" "target \<le> g_lines g" and saved: "saved_on_line g"
    and r: "shrink_scroll_amount conpty target g = Some r"
  shows "returns (shrink_lines conpty target g)
    (other_height strict target (min (grid_history g + r) (g_max_scroll_limit g)) (- int r) (int target) g)"
proof -
  have r_le: "r \<le> g_lines g - target" "int r \<le> g_line g" "g_line g < int target + int r"
    using shrink_scroll_amount_Some [OF ok on target, of conpty] r by auto
  let ?h = "min (grid_history g + r) (g_max_scroll_limit g)"
  have lim: "grid_history g \<le> g_max_scroll_limit g" using ok by (simp add: grid_ok_def)
  have cl: "int (line_as_usize (g_line g) - min r (line_as_usize (g_line g))) = g_line g - int r"
    using on r_le(2) by (auto simp: line_as_usize_def on_line_def)
  have "\<exists>raw d n. (if r > 0 then do {
         g1 \<leftarrow> grid_scroll_up (0, int (g_lines g)) r g;
         Some (put_line (min (int (line_as_usize (g_line g) - min r (line_as_usize (g_line g)))) (int target - 1)) g1)
       } else Some g) = Some (put_line (g_line g - int r) (g\<lparr>g_raw := raw, g_display_offset := d, g_scrolled_out := n\<rparr>)) \<and>
    grid_ok strict (g\<lparr>g_raw := raw\<rparr>) \<and> st_len raw = g_lines g + ?h \<and>
    (\<forall>l. - int ?h \<le> l \<longrightarrow> l < int (g_lines g) - int r \<longrightarrow> line_at raw l = row_at g (l + int r))"
  proof (cases "r > 0")
    case True
    have "r \<le> g_lines g" using r_le(1) target by simp
    from scroll_out_Some [OF ok this] obtain raw d n where
      raw: "grid_scroll_up (0, int (g_lines g)) r g = Some (g\<lparr>g_raw := raw, g_display_offset := d, g_scrolled_out := n\<rparr>)"
      "grid_ok strict (g\<lparr>g_raw := raw\<rparr>)" "st_len raw = g_lines g + ?h"
      "\<forall>l. - int ?h \<le> l \<longrightarrow> l < int (g_lines g) - int r \<longrightarrow> line_at raw l = row_at g (l + int r)" by blast
    have "min (int (line_as_usize (g_line g) - min r (line_as_usize (g_line g)))) (int target - 1) = g_line g - int r"
      unfolding cl using r_le(3) by simp
    then show ?thesis using True raw by (intro exI [of _ raw] exI [of _ d] exI [of _ n]) (simp del: line_as_usize_nonneg)
  next
    case False
    have "put_line (g_line g - int r) g = g" using False by (cases g) (simp add: put_line_def put_point_def map_cursor_def)
    moreover have "st_len (g_raw g) = g_lines g + ?h" using grid_history_len [OF ok] lim False by simp
    ultimately show ?thesis
      using False ok by (intro exI [of _ "g_raw g"] exI [of _ "g_display_offset g"] exI [of _ "g_scrolled_out g"]) simp
  qed
  then obtain raw d n where raw: "(if r > 0 then do {
         g1 \<leftarrow> grid_scroll_up (0, int (g_lines g)) r g;
         Some (put_line (min (int (line_as_usize (g_line g) - min r (line_as_usize (g_line g)))) (int target - 1)) g1)
       } else Some g) = Some (put_line (g_line g - int r) (g\<lparr>g_raw := raw, g_display_offset := d, g_scrolled_out := n\<rparr>))"
    "grid_ok strict (g\<lparr>g_raw := raw\<rparr>)" "st_len raw = g_lines g + ?h"
    "\<And>l. - int ?h \<le> l \<Longrightarrow> l < int (g_lines g) - int r \<Longrightarrow> line_at raw l = row_at g (l + int r)" by blast
  let ?k = "g_lines g - target"
  define g2 where "g2 = map_saved_line (\<lambda>l. min l (int target - 1))
    (put_line (g_line g - int r) (g\<lparr>g_raw := raw, g_display_offset := d, g_scrolled_out := n\<rparr>))"
  have f2: "g_raw g2 = raw" "g_lines g2 = g_lines g" "g_columns g2 = g_columns g" "g_max_scroll_limit g2 = g_max_scroll_limit g"
    "g_reflow_on_grow g2 = g_reflow_on_grow g" "g_cursor g2 = (g_cursor g)\<lparr>cur_point := Point (g_line g + - int r) (g_column g)\<rparr>"
    "g_saved_cursor g2 = (g_saved_cursor g)\<lparr>cur_point :=
       Point (min (line (cur_point (g_saved_cursor g))) (int target - 1)) (column (cur_point (g_saved_cursor g)))\<rparr>"
    by (simp_all add: g2_def put_line_def put_point_def map_cursor_def map_saved_line_def)
  have st: "storage_ok strict (g_columns g) raw" "st_visible_lines raw = g_lines g" using raw(2) by (simp_all add: grid_ok_def)
  have "\<bar>int ?k\<bar> \<le> int (length (st_inner raw))" using st target by (auto simp: storage_ok_def)
  then obtain raw3 where raw3: "storage_rotate (int ?k) raw = Some raw3" "storage_ok strict (g_columns g) raw3" "st_len raw3 = st_len raw"
    "st_visible_lines raw3 = g_lines g"
    "\<And>l. valid_line raw l \<Longrightarrow> valid_line raw (l - int ?k) \<Longrightarrow> line_at raw3 l = line_at raw (l - int ?k)"
    using storage_rotate_lines [OF st(1)] st(2) by metis
  obtain raw4 where raw4: "shrink_visible_lines target raw3 = Some raw4" "storage_ok strict (g_columns g) raw4"
    "st_len raw4 = st_len raw3 - ?k" "st_visible_lines raw4 = target"
    "\<And>l. valid_line raw4 l \<Longrightarrow> line_at raw4 l = line_at raw3 (l + int ?k)"
    using shrink_visible_lines_lines [OF raw3(2) target(1)] target(2) raw3(4) by auto
  let ?g = "g2\<lparr>g_raw := raw4, g_lines := target\<rparr>"
  have eq: "shrink_lines conpty target g = Some ?g"
    using r raw(1) raw3(1) raw4(1) target(2) f2(1,2)
    by (simp add: shrink_lines_def Let_def g2_def panic_free)
  have len: "st_len raw4 = target + ?h" using raw4(3) raw3(3) raw(3) target(2) by simp
  have rows: "row_at ?g l = row_at g (l - (- int r))" if "- int ?h \<le> l" "l < int target" for l
  proof -
    have "valid_line raw4 l" "valid_line raw l" "valid_line raw (l + int ?k)"
      using that len raw4(4) raw(3) st(2) target(2) by (auto simp: valid_line_def top_line_def)
    then show ?thesis using raw4(5) raw3(5) [of "l + int ?k"] raw(4) [of l] that r_le(1) target(2) by simp
  qed
  have h: "grid_history ?g = ?h" using len by (simp add: grid_dims_def history_size_def)
  have "grid_ok strict ?g" using raw4(2,4) f2 h by (simp add: grid_ok_def)
  then show ?thesis
    using rows h f2 saved target unfolding eq
    by (auto simp: other_height_def saved_on_line_def intro!: exI [of _ "min (line (cur_point (g_saved_cursor g))) (int target - 1)"])
qed

end
