(* ===== verification/Resize_Shrink.thy ===== *)
theory Resize_Shrink
  imports Resize_Grow
begin

text \<open>
  Narrowing a grid (\<open>Grid::shrink_columns\<close>) ends and never panics for at least two columns: each round
  of the inner loop leaves fewer cells to wrap, or leaves as many and settles a flag, and every row it
  pushes has the new width.
\<close>

section \<open>Shrinking the width ends\<close>

text \<open>
  The cells of a row split at the new width: what is kept, and what moves on, with a wide character on
  the edge moved over and a spacer of the old edge dropped.
\<close>

definition kept_cells :: "nat \<Rightarrow> cell list \<Rightarrow> cell list" where
  "kept_cells cols cs =
     (if has_flag WIDE_CHAR (cs ! (cols - 1)) then take (cols - 1) cs @ [spacer_cell] else take cols cs)"

definition moved_cells :: "nat \<Rightarrow> cell list \<Rightarrow> cell list \<Rightarrow> cell list" where
  "moved_cells cols cs wrapped = (if has_flag WIDE_CHAR (cs ! (cols - 1)) then cs ! (cols - 1) # wrapped else wrapped)"

definition ends_in_spacer :: "cell list \<Rightarrow> bool" where
  "ends_in_spacer cs \<longleftrightarrow> cs \<noteq> [] \<and> has_flag LEADING_WIDE_CHAR_SPACER (last cs)"

definition trim_spacer :: "cell list \<Rightarrow> cell list" where
  "trim_spacer cs = (if ends_in_spacer cs then butlast (butlast cs) @ [add_flag WRAPLINE (last (butlast cs))] else cs)"

definition set_last :: "(cell \<Rightarrow> cell) \<Rightarrow> cell list \<Rightarrow> cell list" where
  "set_last f cs = (if cs = [] then [] else butlast cs @ [f (last cs)])"

lemma length_set_last [simp]: "length (set_last f cs) = length cs" "set_last f cs = [] \<longleftrightarrow> cs = []"
  by (auto simp: set_last_def)

lemma row_last_mut_set_last: "row_inner (row_last_mut f r) = set_last f (row_inner r)"
  by (simp add: row_last_mut_cells set_last_def)

lemma length_kept_cells: "1 \<le> cols \<Longrightarrow> cols \<le> length cs \<Longrightarrow> length (kept_cells cols cs) = cols"
  by (auto simp: kept_cells_def)

definition clean_cells :: "bool \<Rightarrow> cell list \<Rightarrow> bool" where
  "clean_cells t cs \<longleftrightarrow> (\<not> t \<longrightarrow> (\<forall>c \<in> set cs. \<not> transient_cell c))"

text \<open>What cutting a row of at least the new width gives.\<close>

lemma cut_row_Some:
  assumes g: "on_line g" and row: "loose_row t row" "cols \<le> row_len row"
  defines "b \<equiv> g_lines g - nat (g_line g) - 1"
  shows "\<exists>cut row1. cut_row reflow cols i row g = Some (cut, row1) \<and> row_inner row1 = take cols (row_inner row) \<and>
    loose_row t row1 \<and>
    (case cut of
       None \<Rightarrow> \<not> reflow \<or> list_all cell_is_empty (drop cols (row_inner row)) \<and> (i = b \<longrightarrow> g_column g < cols)
     | Some w \<Rightarrow> reflow \<and> (\<exists>rest. drop cols (row_inner row) = w @ rest \<and> list_all cell_is_empty rest) \<and>
         (w = [] \<longrightarrow> i = b \<and> cols \<le> g_column g \<and> row_len row = cols) \<and>
         (i = b \<longrightarrow> min (g_column g + 1) (row_len row) \<le> cols + length w))"
proof -
  let ?m = "if reflow \<and> i = b then g_column g + 1 else 0"
  obtain w row1 where s: "row_shrink_with_minimum cols ?m row = (w, row1)" by fastforce
  obtain rest where rest: "row_inner row = row_inner row1 @ (case w of None \<Rightarrow> [] | Some tail \<Rightarrow> tail) @ rest"
    "list_all cell_is_empty rest" "row_len row1 = min cols (row_len row)" "\<And>tail. w = Some tail \<Longrightarrow> tail \<noteq> []"
    "min ?m (row_len row) \<le> row_len row1 + (case w of None \<Rightarrow> 0 | Some tail \<Rightarrow> length tail)"
    using row_shrink_loses_blanks_only [OF s] by blast
  have len: "length (row_inner row1) = cols" using rest(3) row(2) by (simp add: row_len_def)
  have take: "row_inner row1 = take cols (row_inner row)" "drop cols (row_inner row) = (case w of None \<Rightarrow> [] | Some tail \<Rightarrow> tail) @ rest"
    unfolding rest(1) using len by simp_all
  have occ: "row_occ row1 = (if row_len row \<le> cols then row_occ row else min (row_occ row) cols)"
    using s by (auto simp: row_shrink_with_minimum_def row_len_def Let_def split: if_splits)
  then have sub: "set (drop (row_occ row1) (take cols (row_inner row))) \<subseteq> set (drop (row_occ row) (row_inner row))"
    by (auto simp: drop_take min_def dest: in_set_takeD split: if_splits)
  have "row_occ row1 \<le> cols" using occ loose_rowD(1) [OF row(1)] row(2) by (simp add: row_len_def)
  then have loose: "loose_row t row1"
    using loose_rowD(2,3) [OF row(1)] take(1) sub row(2)
    by (intro loose_rowI) (auto simp: row_len_def dest: in_set_takeD)
  have cbl: "cursor_buffer_line g = Some b" using cursor_buffer_line_Some [OF g] by (simp add: b_def)
  have eq: "cut_row reflow cols i row g = (case (if reflow then w else None) of
       Some wrapped \<Rightarrow> Some (Some wrapped, row1)
     | None \<Rightarrow> if reflow \<and> i = b \<and> g_column g \<ge> cols then Some (Some [], row1) else Some (None, row1))"
    by (simp add: cut_row_def cbl s Let_def)
  show ?thesis
  proof (cases "if reflow then w else None")
    case None
    have "row_len row = cols" if "reflow" "i = b" "cols \<le> g_column g"
    proof -
      have "w = None" using None that(1) by simp
      then show ?thesis using rest(5) len that row(2) by (simp add: row_len_def)
    qed
    then show ?thesis using None take rest(2) loose unfolding eq by (auto simp: row_len_def)
  next
    case (Some wrapped)
    then have "w = Some wrapped" "reflow" by (auto split: if_splits)
    then show ?thesis using Some take rest(2,4,5) loose len unfolding eq by (auto simp: row_len_def)
  qed
qed

lemma move_wide_Some:
  assumes "loose_row t row" "row_len row = cols" "1 \<le> cols" "row_inner row = take cols cs" "cols \<le> length cs"
  shows "\<exists>row'. move_wide cols wrapped row = Some (moved_cells cols cs wrapped, row') \<and> loose_row t row' \<and>
    row_inner row' = kept_cells cols cs"
proof -
  have i: "row_index (cols - 1) row = Some (cs ! (cols - 1))"
    using assms by (simp add: row_index_def panic_free)
  show ?thesis
  proof (cases "has_flag WIDE_CHAR (cs ! (cols - 1))")
    case True
    let ?r = "\<lparr>row_inner = (row_inner row)[cols - 1 := spacer_cell], row_occ = max (row_occ row) (cols - 1 + 1)\<rparr>"
    have m: "row_index_mut (\<lambda>_. spacer_cell) (cols - 1) row = Some ?r"
      using assms by (simp add: row_index_mut_def panic_free row_len_def)
    have inner: "row_inner ?r = kept_cells cols cs"
      using assms True by (auto simp: kept_cells_def nth_append nth_list_update intro!: nth_equalityI)
    have "length (row_inner row) = cols" using assms(2) by (simp add: row_len_def)
    then have loose: "loose_row t ?r"
      using loose_rowD(1,3) [OF assms(1)] assms(3)
      by (intro loose_rowI) (auto dest!: set_update_subset_insert [THEN subsetD])
    have "move_wide cols wrapped row = Some (moved_cells cols cs wrapped, ?r)"
      using m i assms(2,3) True by (simp add: move_wide_def panic_free moved_cells_def)
    then show ?thesis using loose inner by blast
  next
    case False
    then show ?thesis using assms i by (simp add: move_wide_def panic_free moved_cells_def kept_cells_def)
  qed
qed

lemma split_cursor_Some:
  assumes "on_line g"
  shows "\<exists>g'. split_cursor cols i g = Some g' \<and> moved g g' \<and>
    g_column g' = (if i = g_lines g - nat (g_line g) - 1 \<and> cols \<le> g_column g then g_column g - cols else g_column g) \<and>
    g_line g' = (if i = g_lines g - nat (g_line g) - 1 \<and> g_column g < cols \<or> i < g_lines g - nat (g_line g) - 1
      then max (g_line g - 1) 0 else g_line g)"
proof -
  have "0 \<le> max (g_line g - 1) 0" "max (g_line g - 1) 0 < int (g_lines g)" using assms by (auto simp: on_line_def)
  then have l: "moved g (put_line (max (g_line g - 1) 0) g)" by (rule moved_steps(2) [OF moved_refl [OF assms]])
  show ?thesis
    using moved_refl [OF assms] l moved_steps(3) [OF moved_refl [OF assms]] moved_steps(3) [OF l]
    by (auto simp: split_cursor_def cursor_buffer_line_Some [OF assms] panic_free put_defs Let_def)
qed

lemma next_row_loose:
  assumes "clean_cells t cs" "1 \<le> cols"
  shows "loose_row t (next_row cols cs)" "row_len (next_row cols cs) = max cols (length cs)"
    "\<exists>n. row_inner (next_row cols cs) = cs @ replicate n default_cell"
proof -
  show "loose_row t (next_row cols cs)"
    using assms(1) by (intro loose_rowI) (auto simp: next_row_def row_from_vec_def resize_with_def clean_cells_def split: if_splits)
  show "row_len (next_row cols cs) = max cols (length cs)" by (simp add: next_row_def row_from_vec_def row_len_def)
  have "row_inner (next_row cols cs) = cs @ replicate (cols - length cs) default_cell"
    by (simp add: next_row_def row_from_vec_def resize_with_def)
  then show "\<exists>n. row_inner (next_row cols cs) = cs @ replicate n default_cell" by blast
qed

text \<open>
  A round of the inner loop, in terms of the cells: \<open>w\<close> is what was cut off the row \<open>cs\<close>, a list
  that lacks only empty cells, and itself empty only for a cursor right of a full row.
\<close>

definition cut_off :: "nat \<Rightarrow> nat \<Rightarrow> grid \<Rightarrow> cell list \<Rightarrow> cell list \<Rightarrow> bool" where
  "cut_off cols i g cs w \<longleftrightarrow> (\<exists>rest. drop cols cs = w @ rest \<and> list_all cell_is_empty rest) \<and>
     (w = [] \<longrightarrow> i = g_lines g - nat (g_line g) - 1 \<and> cols \<le> g_column g \<and> length cs = cols) \<and>
     (i = g_lines g - nat (g_line g) - 1 \<longrightarrow> min (g_column g + 1) (length cs) \<le> cols + length w)"

definition carried_over :: "nat \<Rightarrow> nat \<Rightarrow> cell list \<Rightarrow> bool" where
  "carried_over cols i w \<longleftrightarrow> w \<noteq> [] \<and> has_flag WRAPLINE (last w) \<and> 1 \<le> i \<and> length w < cols"

datatype round_end = Fits | Drops_Spacer | Carries "cell list" | Goes_On "cell list"

definition round_of :: "nat \<Rightarrow> nat \<Rightarrow> grid \<Rightarrow> cell list \<Rightarrow> cell list \<Rightarrow> round_end \<Rightarrow> bool" where
  "round_of cols i g cs w e \<longleftrightarrow> (let w' = moved_cells cols cs w in
     case e of
       Fits \<Rightarrow> False
     | Drops_Spacer \<Rightarrow> cut_off cols i g cs w \<and> ends_in_spacer w' \<and> length w' = 1
     | Carries w2 \<Rightarrow> cut_off cols i g cs w \<and> \<not> (ends_in_spacer w' \<and> length w' = 1) \<and> w2 = trim_spacer w' \<and> carried_over cols i w2
     | Goes_On w2 \<Rightarrow> cut_off cols i g cs w \<and> \<not> (ends_in_spacer w' \<and> length w' = 1) \<and> w2 = trim_spacer w' \<and> \<not> carried_over cols i w2)"

definition row_result :: "nat \<Rightarrow> nat \<Rightarrow> grid \<Rightarrow> row list \<Rightarrow> row \<Rightarrow> round_end \<Rightarrow> (shrink_state + shrink_result) \<Rightarrow> bool" where
  "row_result cols i g stack piece e r \<longleftrightarrow> (case e of
       Fits \<Rightarrow> r = Inr (None, piece # stack, g)
     | Drops_Spacer \<Rightarrow> r = Inr (None, piece # stack, g)
     | Carries w \<Rightarrow> r = Inr (Some (set_last (strip_flag WRAPLINE) w), piece # stack, g)
     | Goes_On w \<Rightarrow> (\<exists>g'. r = Inl (next_row cols w, piece # stack, g') \<and> moved g g' \<and>
         g_column g' = (if i = g_lines g - nat (g_line g) - 1 \<and> cols \<le> g_column g then g_column g - cols else g_column g) \<and>
         g_line g' = (if i = g_lines g - nat (g_line g) - 1 \<and> g_column g < cols \<or> i < g_lines g - nat (g_line g) - 1
      then max (g_line g - 1) 0 else g_line g)))"

lemma kept_clean: "clean_cells t cs \<Longrightarrow> clean_cells t (kept_cells cols cs)"
  by (auto simp: clean_cells_def kept_cells_def dest: in_set_takeD)

lemma set_last_clean:
  "clean_cells t cs \<Longrightarrow> (\<And>c. transient_cell (f c) = transient_cell c) \<Longrightarrow> clean_cells t (set_last f cs)"
  by (auto simp: clean_cells_def set_last_def dest: in_set_butlastD)

lemma moved_clean:
  assumes "clean_cells t cs" "1 \<le> cols" "cols \<le> length cs" "drop cols cs = w @ rest"
  shows "clean_cells t (moved_cells cols cs w)"
proof -
  have "set w \<subseteq> set (drop cols cs)" unfolding assms(4) by simp
  then show ?thesis using assms(1-3) by (auto simp: clean_cells_def moved_cells_def dest: in_set_dropD)
qed

lemma trim_clean:
  assumes "clean_cells t cs" "\<not> (ends_in_spacer cs \<and> length cs = 1)"
  shows "clean_cells t (trim_spacer cs)"
proof (cases "ends_in_spacer cs")
  case True
  then have "butlast cs \<noteq> []" using assms(2) by (cases cs rule: rev_cases) (auto simp: ends_in_spacer_def)
  then have "last (butlast cs) \<in> set cs" using last_in_set in_set_butlastD by metis
  then show ?thesis using assms(1) by (auto simp: clean_cells_def trim_spacer_def dest: in_set_butlastD)
qed (use assms(1) in \<open>simp add: trim_spacer_def\<close>)

lemma set_last_update: "cs \<noteq> [] \<Longrightarrow> cs[length cs - 1 := f (cs ! (length cs - 1))] = set_last f cs"
  by (cases cs rule: rev_cases) (simp_all add: set_last_def)

lemma length_trim_spacer: "\<not> (ends_in_spacer cs \<and> length cs = 1) \<Longrightarrow> length (trim_spacer cs) \<le> length cs"
  by (cases cs rule: rev_cases) (auto simp: trim_spacer_def ends_in_spacer_def)

text \<open>The body of the loop, its tests on the cells named.\<close>

lemma shrink_round_eq:
  "shrink_round reflow cols i (row, stack, g) = do {
     (cut, row) \<leftarrow> cut_row reflow cols i row g;
     case cut of
       None \<Rightarrow> Some (Inr (None, row # stack, g))
     | Some wrapped \<Rightarrow> do {
         (wrapped, row) \<leftarrow> move_wide cols wrapped row;
         if ends_in_spacer wrapped \<and> length wrapped = 1
         then do {
           n \<leftarrow> usize_sub cols 1;
           row \<leftarrow> row_index_mut (add_flag WRAPLINE) n row;
           Some (Inr (None, row # stack, g))
         }
         else if carried_over cols i (trim_spacer wrapped)
         then Some (Inr (Some (set_last (strip_flag WRAPLINE) (trim_spacer wrapped)), row_last_mut (add_flag WRAPLINE) row # stack, g))
         else do {
           g \<leftarrow> split_cursor cols i g;
           Some (Inl (next_row cols (trim_spacer wrapped), row_last_mut (add_flag WRAPLINE) row # stack,
             if i < g_display_offset g then g\<lparr>g_display_offset := g_display_offset g + 1\<rparr> else g))
         }
       }
   }"
proof -
  have carry: "butlast w @ [f (last w)] = set_last f w" if "w \<noteq> []" for w and f :: "cell \<Rightarrow> cell"
    using that by (simp add: set_last_def)
  have sp: "w \<noteq> [] \<and> has_flag LEADING_WIDE_CHAR_SPACER (last w) \<longleftrightarrow> ends_in_spacer w" for w
    by (simp add: ends_in_spacer_def)
  have trim: "(if ends_in_spacer w then butlast (butlast w) @ [add_flag WRAPLINE (last (butlast w))] else w) = trim_spacer w" for w
    by (simp add: trim_spacer_def)
  have co: "w \<noteq> [] \<and> has_flag WRAPLINE (last w) \<and> 1 \<le> i \<and> length w < cols \<longleftrightarrow> carried_over cols i w" for w
    by (simp add: carried_over_def)
  have *: "(if carried_over cols i w then Some (Inr (Some (butlast w @ [strip_flag WRAPLINE (last w)]), stack, g)) else m)
    = (if carried_over cols i w then Some (Inr (Some (set_last (strip_flag WRAPLINE) w), stack, g)) else m)" for w stack g m
    by (auto simp: carried_over_def carry)
  show ?thesis unfolding shrink_round_def case_prod_conv Let_def sp trim co * ..
qed

lemma shrink_round_Some:
  assumes g: "on_line g" and row: "loose_row t row" "cols \<le> row_len row" and cols: "1 \<le> cols"
  shows "\<exists>piece e r. shrink_round reflow cols i (row, stack, g) = Some r \<and> row_result cols i g stack piece e r \<and>
    loose_row t piece \<and> row_len piece = cols \<and>
    (if e = Fits then row_inner piece = take cols (row_inner row) \<and>
       (reflow \<longrightarrow> list_all cell_is_empty (drop cols (row_inner row)) \<and> (i = g_lines g - nat (g_line g) - 1 \<longrightarrow> g_column g < cols))
     else reflow \<and> row_inner piece = set_last (add_flag WRAPLINE) (kept_cells cols (row_inner row)) \<and>
       (\<exists>w. round_of cols i g (row_inner row) w e))"
proof -
  let ?cs = "row_inner row" and ?b = "g_lines g - nat (g_line g) - 1"
  have len: "cols \<le> length ?cs" using row(2) by (simp add: row_len_def)
  obtain cut row1 where c: "cut_row reflow cols i row g = Some (cut, row1)" "row_inner row1 = take cols ?cs" "loose_row t row1"
    "case cut of
       None \<Rightarrow> \<not> reflow \<or> list_all cell_is_empty (drop cols ?cs) \<and> (i = ?b \<longrightarrow> g_column g < cols)
     | Some w \<Rightarrow> reflow \<and> (\<exists>rest. drop cols ?cs = w @ rest \<and> list_all cell_is_empty rest) \<and>
         (w = [] \<longrightarrow> i = ?b \<and> cols \<le> g_column g \<and> row_len row = cols) \<and>
         (i = ?b \<longrightarrow> min (g_column g + 1) (row_len row) \<le> cols + length w)"
    using cut_row_Some [OF g row] by blast
  have len1: "row_len row1 = cols" using c(2) len by (simp add: row_len_def)
  show ?thesis
  proof (cases cut)
    case None
    then show ?thesis
      using c len1 by (intro exI [of _ row1] exI [of _ Fits]) (auto simp: shrink_round_eq row_result_def)
  next
    case (Some w)
    have reflow and w: "cut_off cols i g ?cs w" using c(4) Some by (auto simp: cut_off_def row_len_def)
    let ?w = "moved_cells cols ?cs w"
    obtain row2 where m: "move_wide cols w row1 = Some (?w, row2)" "loose_row t row2" "row_inner row2 = kept_cells cols ?cs"
      using move_wide_Some [OF c(3) len1 cols c(2) len] by blast
    have ne: "row_inner row2 \<noteq> []" "length (row_inner row2) = cols"
      using m(3) length_kept_cells [OF cols len] cols by auto
    let ?piece = "row_last_mut (add_flag WRAPLINE) row2"
    have piece: "loose_row t ?piece" "row_len ?piece = cols" "row_inner ?piece = set_last (add_flag WRAPLINE) (kept_cells cols ?cs)"
      using m(2,3) ne by (simp_all add: loose_last_mut row_last_mut_cells(3) row_last_mut_set_last row_len_def)
    show ?thesis
    proof (cases "ends_in_spacer ?w \<and> length ?w = 1")
      case True
      let ?top2 = "\<lparr>row_inner = (row_inner row2)[cols - 1 := add_flag WRAPLINE (row_inner row2 ! (cols - 1))],
        row_occ = max (row_occ row2) (cols - 1 + 1)\<rparr>"
      have i2: "row_index_mut (add_flag WRAPLINE) (cols - 1) row2 = Some ?top2"
        using ne cols by (simp add: row_index_mut_def panic_free)
      have inner: "row_inner ?top2 = set_last (add_flag WRAPLINE) (kept_cells cols ?cs)"
        using set_last_update [of "row_inner row2" "add_flag WRAPLINE"] ne m(3) by simp
      have "row_occ ?top2 = length (row_inner ?top2)" using loose_rowD(1) [OF m(2)] ne cols by simp
      then have "loose_row t ?top2"
        using loose_rowD(3) [OF m(2)] ne cols set_update_subset_insert [of "row_inner row2"]
        by (intro loose_rowI) fastforce+
      moreover have "row_len ?top2 = cols" using ne by (simp add: row_len_def)
      moreover have "shrink_round reflow cols i (row, stack, g) = Some (Inr (None, ?top2 # stack, g))"
        using c(1) Some m(1) True i2 cols by (simp add: shrink_round_eq panic_free)
      moreover have "round_of cols i g ?cs w Drops_Spacer" using w True by (simp add: round_of_def Let_def)
      ultimately show ?thesis
        using inner \<open>reflow\<close> by (intro exI [of _ ?top2] exI [of _ Drops_Spacer]) (auto simp: row_result_def)
    next
      case False
      let ?w2 = "trim_spacer ?w"
      show ?thesis
      proof (cases "carried_over cols i ?w2")
        case True
        have "shrink_round reflow cols i (row, stack, g) = Some (Inr (Some (set_last (strip_flag WRAPLINE) ?w2), ?piece # stack, g))"
            using c(1) Some m(1) False True by (auto simp: shrink_round_eq)
        moreover have "round_of cols i g ?cs w (Carries ?w2)" using w False True by (simp add: round_of_def Let_def)
        ultimately show ?thesis
          using piece \<open>reflow\<close> by (intro exI [of _ ?piece] exI [of _ "Carries ?w2"]) (auto simp: row_result_def)
      next
        case nc: False
        obtain g1 where g1: "split_cursor cols i g = Some g1" "moved g g1"
          "g_column g1 = (if i = ?b \<and> cols \<le> g_column g then g_column g - cols else g_column g)"
          "g_line g1 = (if i = ?b \<and> g_column g < cols \<or> i < ?b then max (g_line g - 1) 0 else g_line g)"
          using split_cursor_Some [OF g] by blast
        let ?g = "if i < g_display_offset g1 then g1\<lparr>g_display_offset := g_display_offset g1 + 1\<rparr> else g1"
        have "shrink_round reflow cols i (row, stack, g) = Some (Inl (next_row cols ?w2, ?piece # stack, ?g))"
          using c(1) Some m(1) False nc g1(1) by (auto simp: shrink_round_eq)
        moreover have "moved g ?g" "g_column ?g = g_column g1" "g_line ?g = g_line g1" using moved_steps(5) [OF g1(2)] g1(2) by auto
        moreover have "round_of cols i g ?cs w (Goes_On ?w2)" using w False nc by (simp add: round_of_def Let_def)
        ultimately show ?thesis
          using piece \<open>reflow\<close> g1(3,4)
          by (intro exI [of _ ?piece] exI [of _ "Goes_On ?w2"]) (auto simp: row_result_def)
      qed
    qed
  qed
qed

text \<open>Total correctness of the inner loop from a well-founded order on its states.\<close>

lemma shrink_rounds_rule:
  assumes "wf R" "I s"
    and step: "\<And>s. I s \<Longrightarrow> \<exists>r. shrink_round reflow cols i s = Some r \<and>
      (case r of Inl s' \<Rightarrow> I s' \<and> (s', s) \<in> R | Inr result \<Rightarrow> Q result)"
  shows "returns (shrink_rounds reflow cols i s) Q"
  using assms(1,2)
proof (induction s rule: wf_induct_rule)
  case (less s)
  obtain r where r: "shrink_round reflow cols i s = Some r"
    "case r of Inl s' \<Rightarrow> I s' \<and> (s', s) \<in> R | Inr result \<Rightarrow> Q result"
    using step [OF less.prems] by blast
  then show ?case
    using less.IH by (cases r) (auto simp: shrink_rounds.simps [of reflow cols i s])
qed

text \<open>Every round that goes on brings the cursor closer or makes the row shorter.\<close>

definition round_order :: "(shrink_state \<times> shrink_state) set" where
  "round_order = measures [\<lambda>(row, stack, g). g_column g, \<lambda>(row, stack, g). row_len row]"

lemma goes_on_decreases:
  assumes "round_of cols i g (row_inner row) w (Goes_On w2)" "cols \<le> row_len row" "2 \<le> cols"
    and "g_column g' = (if i = g_lines g - nat (g_line g) - 1 \<and> cols \<le> g_column g then g_column g - cols else g_column g)"
    and "row_len row' = max cols (length w2)"
  shows "((row', stack', g'), (row, stack, g)) \<in> round_order"
proof -
  have c: "cut_off cols i g (row_inner row) w" and w2: "w2 = trim_spacer (moved_cells cols (row_inner row) w)"
    "\<not> (ends_in_spacer (moved_cells cols (row_inner row) w) \<and> length (moved_cells cols (row_inner row) w) = 1)"
    using assms(1) by (auto simp: round_of_def Let_def)
  show ?thesis
  proof (cases "w = []")
    case True
    then have "i = g_lines g - nat (g_line g) - 1" "cols \<le> g_column g" using c by (auto simp: cut_off_def)
    then show ?thesis using assms(3,4) by (simp add: round_order_def)
  next
    case False
    obtain rest where "drop cols (row_inner row) = w @ rest" using c by (auto simp: cut_off_def)
    then have "length (drop cols (row_inner row)) = length w + length rest" by simp
    moreover have "0 < length w" using False by simp
    ultimately have len: "length w + cols \<le> row_len row" "cols < row_len row"
      unfolding length_drop row_len_def [symmetric] using assms(2) by linarith+
    have "length w2 \<le> length (moved_cells cols (row_inner row) w)" unfolding w2(1) by (rule length_trim_spacer [OF w2(2)])
    also have "\<dots> \<le> length w + 1" by (simp add: moved_cells_def)
    finally have "row_len row' < row_len row" using len assms(3,5) by simp
    then show ?thesis using assms(4) by (auto simp: round_order_def)
  qed
qed

text \<open>The rows a narrowing has finished, and the cells it carries over.\<close>

definition narrow_row :: "bool \<Rightarrow> nat \<Rightarrow> row \<Rightarrow> bool" where
  "narrow_row t cols r \<longleftrightarrow> loose_row t r \<and> row_len r = cols"

definition carried_ok :: "bool \<Rightarrow> nat \<Rightarrow> cell list option \<Rightarrow> bool" where
  "carried_ok t cols buf \<longleftrightarrow> (\<forall>b. buf = Some b \<longrightarrow> b \<noteq> [] \<and> length b < cols \<and> clean_cells t b)"

lemma moved_trans: "moved g g' \<Longrightarrow> moved g' g'' \<Longrightarrow> moved g g''"
  by (simp add: moved_def)

lemma loose_clean: "loose_row t r \<Longrightarrow> clean_cells t (row_inner r)"
  using loose_rowD(3) by (auto simp: clean_cells_def)

text \<open>The states of the inner loop for one row.\<close>

definition rounds_inv :: "bool \<Rightarrow> nat \<Rightarrow> row list \<Rightarrow> grid \<Rightarrow> shrink_state \<Rightarrow> bool" where
  "rounds_inv t cols stack g = (\<lambda>(row, stack', g'). loose_row t row \<and> cols \<le> row_len row \<and> moved g g' \<and>
    (\<exists>new. stack' = new @ stack \<and> (\<forall>r \<in> set new. narrow_row t cols r)))"

lemma rounds_step:
  assumes I: "rounds_inv t cols stack g s" and cols: "2 \<le> cols"
  shows "\<exists>res. shrink_round reflow cols i s = Some res \<and> (case res of Inl s' \<Rightarrow> rounds_inv t cols stack g s' \<and> (s', s) \<in> round_order
      | Inr result \<Rightarrow> case result of (buf, stack', g') \<Rightarrow> moved g g' \<and> carried_ok t cols buf \<and>
          (\<exists>new. stack' = new @ stack \<and> new \<noteq> [] \<and> (\<forall>r \<in> set new. narrow_row t cols r)))"
proof -
  obtain row' stack' g' where s: "s = (row', stack', g')" by (cases s)
  obtain new where r: "loose_row t row'" "cols \<le> row_len row'" "moved g g'" "stack' = new @ stack" "\<forall>r \<in> set new. narrow_row t cols r"
    using I by (auto simp: rounds_inv_def s)
  have "1 \<le> cols" using cols by simp
  then obtain piece e res where p: "shrink_round reflow cols i s = Some res" "row_result cols i g' stack' piece e res"
    "loose_row t piece" "row_len piece = cols"
    "e \<noteq> Fits \<Longrightarrow> \<exists>w. round_of cols i g' (row_inner row') w e"
    using shrink_round_Some [OF movedD(1) [OF r(3)] r(1,2), where i = i and reflow = reflow and stack = stack'] unfolding s by metis
  have new: "piece # stack' = (piece # new) @ stack" "\<forall>r \<in> set (piece # new). narrow_row t cols r"
    using r(4,5) p(3,4) by (auto simp: narrow_row_def)
  have clean: "clean_cells t w2" if "round_of cols i g' (row_inner row') w e" "e = Carries w2 \<or> e = Goes_On w2" for w w2
  proof -
    have "cut_off cols i g' (row_inner row') w" "w2 = trim_spacer (moved_cells cols (row_inner row') w)"
      "\<not> (ends_in_spacer (moved_cells cols (row_inner row') w) \<and> length (moved_cells cols (row_inner row') w) = 1)"
      using that by (auto simp: round_of_def Let_def)
    then show ?thesis
      using moved_clean [OF loose_clean [OF r(1)], of cols w] r(2) \<open>1 \<le> cols\<close> trim_clean
      by (auto simp: cut_off_def row_len_def)
  qed
  have carried: "carried_ok t cols (Some (set_last (strip_flag WRAPLINE) w2))" if e: "e = Carries w2" for w2
  proof -
    obtain w where w: "round_of cols i g' (row_inner row') w (Carries w2)" using p(5) e by blast
    then have "clean_cells t (set_last (strip_flag WRAPLINE) w2)"
      by (intro set_last_clean) (use clean [OF w [folded e]] e in auto)
    then show ?thesis using w by (auto simp: carried_ok_def round_of_def Let_def carried_over_def)
  qed
  have next_ok: "rounds_inv t cols stack g (next_row cols w2, piece # stack', g'') \<and> ((next_row cols w2, piece # stack', g''), s) \<in> round_order"
    if e: "e = Goes_On w2" "moved g' g''"
      "g_column g'' = (if i = g_lines g' - nat (g_line g') - 1 \<and> cols \<le> g_column g' then g_column g' - cols else g_column g')" for w2 g''
  proof -
    obtain w where w: "round_of cols i g' (row_inner row') w (Goes_On w2)" using p(5) e(1) by blast
    note n = next_row_loose [OF clean [OF w [folded e(1)]] \<open>1 \<le> cols\<close>]
    have "rounds_inv t cols stack g (next_row cols w2, piece # stack', g'')"
      using n e moved_trans [OF r(3) e(2)] new by (auto simp: rounds_inv_def)
    then show ?thesis using goes_on_decreases [OF w r(2) cols e(3)] n(2) e(1) unfolding s by blast
  qed
  show ?thesis
    using p(1,2) r(3) new carried next_ok by (cases e) (fastforce simp: row_result_def carried_ok_def)+
qed

lemma shrink_rounds_returns:
  assumes cols: "2 \<le> cols" and row: "loose_row t row" "cols \<le> row_len row" and g: "on_line g"
  shows "returns (shrink_rounds reflow cols i (row, stack, g)) (\<lambda>(buf, stack', g'). moved g g' \<and> carried_ok t cols buf \<and>
    (\<exists>new. stack' = new @ stack \<and> new \<noteq> [] \<and> (\<forall>r \<in> set new. narrow_row t cols r)))"
  by (rule shrink_rounds_rule [OF _ _ rounds_step [OF _ cols]])
    (use row moved_refl [OF g] in \<open>simp_all add: round_order_def rounds_inv_def\<close>)

section \<open>Shrinking the width never panics\<close>

definition shrink_inv :: "bool \<Rightarrow> nat \<Rightarrow> grid \<Rightarrow> nat \<Rightarrow> shrink_result \<Rightarrow> bool" where
  "shrink_inv t cols g k = (\<lambda>(buf, stack, g'). moved g g' \<and> carried_ok t cols buf \<and>
     k \<le> length stack \<and> (\<forall>r \<in> set stack. narrow_row t cols r))"

lemma shrink_row_returns:
  assumes inv: "shrink_inv t cols g k (buf, stack, g')" and row: "loose_row t row" "cols \<le> row_len row" and cols: "2 \<le> cols"
  shows "returns (shrink_row reflow cols (i, row) (buf, stack, g')) (shrink_inv t cols g (Suc k))"
proof -
  have m: "moved g g'" and buf: "carried_ok t cols buf" and k: "k \<le> length stack" and old: "\<forall>r \<in> set stack. narrow_row t cols r"
    using inv by (auto simp: shrink_inv_def)
  have finish: "returns (shrink_rounds reflow cols i (row', stack, g1)) (shrink_inv t cols g (Suc k))"
    if "loose_row t row'" "cols \<le> row_len row'" "moved g g1" for row' g1
  proof (rule returns_mono [OF shrink_rounds_returns [OF cols that(1,2) movedD(1) [OF that(3)]]])
    fix res assume "case res of (buf, stack', g') \<Rightarrow> moved g1 g' \<and> carried_ok t cols buf \<and>
      (\<exists>new. stack' = new @ stack \<and> new \<noteq> [] \<and> (\<forall>r \<in> set new. narrow_row t cols r))"
    then obtain buf' new g2 where res: "res = (buf', new @ stack, g2)" "moved g1 g2" "carried_ok t cols buf'" "new \<noteq> []"
      "\<forall>r \<in> set new. narrow_row t cols r" by (cases res) blast
    moreover have "1 \<le> length new" using res(4) by (cases new) auto
    ultimately show "shrink_inv t cols g (Suc k) res" using moved_trans [OF that(3) res(2)] k old by (auto simp: shrink_inv_def)
  qed
  show ?thesis
  proof (cases buf)
    case None
    then show ?thesis using finish [OF row m] by (simp add: shrink_row_def)
  next
    case (Some cells)
    have front: "loose_row t (row_append_front cells row)"
      using buf Some by (intro loose_append_front [OF row(1)]) (auto simp: carried_ok_def clean_cells_def)
    have len: "cols \<le> row_len (row_append_front cells row)" using row(2) by (simp add: row_append_front_def row_len_def)
    show ?thesis
      using Some finish [OF front len m] finish [OF front len moved_steps(3) [OF m]]
      by (auto simp: shrink_row_def cursor_buffer_line_Some [OF movedD(1) [OF m]] Let_def)
  qed
qed

lemma settle_cursor_returns:
  assumes ok: "grid_ok False g" and on: "on_line g" and cols: "g_columns g = cols" "2 \<le> cols"
  shows "returns (settle_cursor reflow cols g) (\<lambda>g'. moved g g' \<and> g_column g' < cols \<and> g_display_offset g' = g_display_offset g)"
proof -
  have cell: "grid_index (Point (g_line g) (cols - 1)) g = Some (cell_at g (Point (g_line g) (cols - 1)))"
    using ok on cols by (intro grid_index_cell) (auto simp: on_line_def)
  have clamp: "point_grid_clamp (grid_dims g) Boundary_Cursor (cur_point (g_cursor g)) = Some (Point (g_line g) (min (g_column g) (cols - 1)))"
    using on cols by (auto simp: point_grid_clamp_def last_column_def panic_free bottommost_line_def on_line_def Let_def)
  have m: "moved g (put_point (Point (g_line g) (min (g_column g) (cols - 1))) g)"
    using on by (intro moved_steps(1) [OF moved_refl]) (auto simp: on_line_def)
  note n = moved_refl [OF on]
  have same: "moved g (put_point (cur_point (g_cursor g)) g)"
    using on by (intro moved_steps(1) [OF n]) (auto simp: on_line_def)
  show ?thesis
    using cell clamp cols m same moved_steps(3) [OF n] moved_steps(3) [OF moved_steps(4) [OF n]]
    by (auto simp: settle_cursor_def panic_free put_defs min_def)
qed

lemma shrink_columns_returns:
  assumes ok: "grid_ok False g" and cur: "on_line g"
    and saved: "0 \<le> line (cur_point (g_saved_cursor g))" "line (cur_point (g_saved_cursor g)) < int (g_lines g)"
    and cols: "cols \<le> g_columns g" "2 \<le> cols"
  shows "returns (shrink_columns reflow cols g) (\<lambda>g'. reshaped (g_lines g) cols g g' \<and> display_ok g')"
proof -
  obtain raw where raw: "storage_take_all (g_raw g) = Some (map (ring_at (g_raw g)) [0..<st_len (g_raw g)], raw)"
    "st_visible_lines raw = g_lines g" "st_transient raw = st_transient (g_raw g)"
    and rows: "\<And>k. k < st_len (g_raw g) \<Longrightarrow> row_len (ring_at (g_raw g) k) = g_columns g \<and> loose_row (st_transient (g_raw g)) (ring_at (g_raw g) k)"
    using take_all_rows [OF ok] by blast
  let ?t = "st_transient (g_raw g)"
  let ?rows = "map (ring_at (g_raw g)) [0..<st_len (g_raw g)]"
  define g1 where "g1 = (unwrap_cursor reflow (g\<lparr>g_columns := cols\<rparr>))\<lparr>g_raw := raw\<rparr>"
  have lines: "1 \<le> g_lines g" "g_lines g \<le> st_len (g_raw g)" using ok by (auto simp: grid_ok_def storage_ok_def)
  have on1: "on_line g1" using cur by (simp add: on_line_def g1_def)
  have "\<exists>s'. for_each (shrink_row reflow cols) (rev (List.enumerate 0 ?rows)) (None, [], g1) = Some s' \<and>
    shrink_inv ?t cols g1 (length (rev (List.enumerate 0 ?rows))) s'"
  proof (rule for_each_rule)
    show "shrink_inv ?t cols g1 0 (None, [], g1)" using moved_refl [OF on1] by (simp add: shrink_inv_def carried_ok_def)
    fix k and s :: shrink_result assume k: "k < length (rev (List.enumerate 0 ?rows))" and s: "shrink_inv ?t cols g1 k s"
    obtain i r where ir: "rev (List.enumerate 0 ?rows) ! k = (i, r)" by fastforce
    then have "(i, r) \<in> set (rev (List.enumerate 0 ?rows))" using k nth_mem by metis
    then have "\<exists>j < st_len (g_raw g). r = ring_at (g_raw g) j" by (auto simp: in_set_enumerate_eq)
    then have "loose_row ?t r" "cols \<le> row_len r" using rows cols by auto
    then show "\<exists>s'. shrink_row reflow cols (rev (List.enumerate 0 ?rows) ! k) s = Some s' \<and> shrink_inv ?t cols g1 (Suc k) s'"
      using shrink_row_returns [of ?t cols g1 k "fst s" "fst (snd s)" "snd (snd s)" r reflow i] s ir cols(2) by (simp add: returns_def)
  qed
  then obtain buf stack g2 where s2: "for_each (shrink_row reflow cols) (rev (List.enumerate 0 ?rows)) (None, [], g1) = Some (buf, stack, g2)"
    "moved g1 g2" "st_len (g_raw g) \<le> length stack" "\<forall>r \<in> set stack. narrow_row ?t cols r"
    by (auto simp: shrink_inv_def)
  note m2 = movedD [OF s2(2)]
  have f2: "g_raw g2 = raw" "g_columns g2 = cols" "g_lines g2 = g_lines g" "g_max_scroll_limit g2 = g_max_scroll_limit g"
    "g_saved_cursor g2 = g_saved_cursor g" "cur_template (g_cursor g2) = cur_template (g_cursor g)"
    "cur_charsets (g_cursor g2) = cur_charsets (g_cursor g)" "g_reflow_on_grow g2 = g_reflow_on_grow g"
    using m2(2-9) by (simp_all add: g1_def)
  let ?new = "take (g_max_scroll_limit g2 + g_lines g2) stack"
  have new: "\<forall>r \<in> set ?new. row_len r = cols \<and> loose_row (st_transient (g_raw g2)) r"
    using s2(4) f2(1) raw(3) by (auto simp: narrow_row_def dest: in_set_takeD)
  have len: "g_lines g \<le> length ?new" "length ?new \<le> g_lines g + g_max_scroll_limit g" using s2(3) lines f2 by auto
  have "1 \<le> cols" "st_visible_lines (g_raw g2) = g_lines g" using cols raw(2) f2(1) by auto
  note ok3 = grid_ok_replace [OF ok f2(3,4,2) this len new]
  define g3 where "g3 = g2\<lparr>g_raw := storage_replace_inner ?new (g_raw g2)\<rparr>"
  define g4 where "g4 = g3\<lparr>g_display_offset := min (g_display_offset g3) (grid_history g3)\<rparr>"
  have f4: "on_line g4" "g_columns g4 = cols" "g_lines g4 = g_lines g" "g_max_scroll_limit g4 = g_max_scroll_limit g"
    "g_saved_cursor g4 = g_saved_cursor g" "cur_template (g_cursor g4) = cur_template (g_cursor g)"
    "cur_charsets (g_cursor g4) = cur_charsets (g_cursor g)" "g_reflow_on_grow g4 = g_reflow_on_grow g"
    "grid_ok False g4" "g_display_offset g4 \<le> grid_history g4"
    using f2 m2(1) ok3(1) by (simp_all add: g4_def g3_def on_line_def) (simp add: grid_dims_def)
  obtain g5 where g5: "settle_cursor reflow cols g4 = Some g5" "moved g4 g5" "g_column g5 < cols" "g_display_offset g5 = g_display_offset g4"
    using settle_cursor_returns [OF f4(9,1,2) cols(2), of reflow] by (auto simp: returns_def)
  have eq: "shrink_columns reflow cols g = Some (clamp_saved_column (cols - 1) g5)"
    using raw(1) s2(1) g5(1) [unfolded g4_def g3_def] cols(2)
    by (simp add: shrink_columns_def g1_def [symmetric] panic_free Let_def)
  note m5 = movedD [OF g5(2)]
  have ok5: "grid_ok False g5" using f4(9) m5 by (simp add: grid_ok_def)
  show ?thesis
    using m5 f4 g5(3,4) ok5 saved cols unfolding eq
    by (auto simp: reshaped_def clamp_saved_column_def on_line_def display_ok_def grid_dims_def)
qed

end
