(* ===== verification/Resize_Anchor.thy ===== *)
theory Resize_Anchor
  imports Resize_Height Resize_Shrink
begin

text \<open>
  The anchor that carries the cursor through a change of width, and the whole of \<open>Grid::resize\<close>: counting
  logical lines stays inside the buffer, the restored cursor is on the screen, and so no resize to at
  least one line and two columns panics.
\<close>

section \<open>The anchor never panics\<close>

definition row_wraps :: "row \<Rightarrow> bool" where
  "row_wraps r \<longleftrightarrow> row_inner r \<noteq> [] \<and> has_flag WRAPLINE (last (row_inner r))"

definition row_width :: "row \<Rightarrow> nat" where
  "row_width r = (if ends_in_spacer (row_inner r) then row_len r - 1 else row_len r)"

definition in_buffer :: "grid \<Rightarrow> int \<Rightarrow> bool" where
  "in_buffer g l \<longleftrightarrow> topmost_line (grid_dims g) \<le> l \<and> l \<le> bottommost_line (grid_dims g)"

lemma in_buffer_iff: "in_buffer g l \<longleftrightarrow> - int (grid_history g) \<le> l \<and> l < int (g_lines g)"
  by (auto simp: in_buffer_def topmost_grid)

lemma row_at_Some:
  assumes "grid_ok strict g" "in_buffer g l"
  shows "grid_index_line l g = Some (row_at g l)"
  using assms valid_line_grid [OF assms(1), of l] storage_index_line [of strict "g_columns g" "g_raw g" l]
  by (simp add: grid_index_line_def grid_ok_def in_buffer_iff)

lemma has_wrapline_Some:
  assumes "grid_ok strict g"
  shows "has_wrapline g l = Some (in_buffer g l \<and> row_wraps (row_at g l))"
proof (cases "in_buffer g l")
  case True
  then show ?thesis using row_at_Some [OF assms True] by (simp add: has_wrapline_def in_buffer_def row_wraps_def row_len_def)
qed (auto simp: has_wrapline_def in_buffer_def)

lemma logical_width_Some:
  "grid_ok strict g \<Longrightarrow> in_buffer g l \<Longrightarrow> logical_width g l = Some (row_width (row_at g l))"
  by (simp add: logical_width_def row_at_Some row_width_def ends_in_spacer_def row_len_def)

declare line_start.simps [simp del] line_end.simps [simp del] count_ends.simps [simp del] pass_lines.simps [simp del]
  spend_offset.simps [simp del]

text \<open>
  The walk up stops at the first row of the logical line, having passed rows that wrap.
\<close>

lemma line_start_Some:
  assumes ok: "grid_ok strict g" and l: "in_buffer g l"
  shows "\<exists>s. line_start g l n = Some (s, n + sum_list (map (row_width \<circ> row_at g) [s..l - 1])) \<and> in_buffer g s \<and> s \<le> l \<and>
    (\<forall>k. s \<le> k \<and> k < l \<longrightarrow> row_wraps (row_at g k)) \<and> (in_buffer g (s - 1) \<longrightarrow> \<not> row_wraps (row_at g (s - 1)))"
  using l
proof (induction "nat (l - topmost_line (grid_dims g))" arbitrary: l n)
  case 0
  then have l: "l = topmost_line (grid_dims g)" by (simp add: in_buffer_def)
  then have "line_start g l n = Some (l, n)" by (subst line_start.simps) simp
  then show ?case using 0 l by (intro exI [of _ l]) (auto simp: in_buffer_def)
next
  case (Suc d)
  then have up: "l > topmost_line (grid_dims g)" "in_buffer g (l - 1)" "d = nat (l - 1 - topmost_line (grid_dims g))"
    by (auto simp: in_buffer_def)
  show ?case
  proof (cases "row_wraps (row_at g (l - 1))")
    case False
    then show ?thesis
      using up Suc.prems by (intro exI [of _ l]) (auto simp: line_start.simps [of g l] has_wrapline_Some [OF ok])
  next
    case True
    let ?n = "n + row_width (row_at g (l - 1))"
    obtain s where s: "line_start g (l - 1) ?n = Some (s, ?n + sum_list (map (row_width \<circ> row_at g) [s..l - 1 - 1]))"
      "in_buffer g s" "s \<le> l - 1" "\<forall>k. s \<le> k \<and> k < l - 1 \<longrightarrow> row_wraps (row_at g k)" "in_buffer g (s - 1) \<longrightarrow> \<not> row_wraps (row_at g (s - 1))"
      using Suc.hyps(1) [OF up(3) up(2), of ?n] by blast
    have "[s..l - 1] = [s..l - 1 - 1] @ [l - 1]" using s(3) by (rule upto_rec2)
    then have sum: "?n + sum_list (map (row_width \<circ> row_at g) [s..l - 1 - 1]) = n + sum_list (map (row_width \<circ> row_at g) [s..l - 1])"
      by simp
    have "line_start g l n = line_start g (l - 1) ?n"
      using up True by (simp add: line_start.simps [of g l n] has_wrapline_Some [OF ok] logical_width_Some [OF ok up(2)])
    moreover have "row_wraps (row_at g k)" if "s \<le> k" "k < l" for k
      using s(4) True that by (cases "k = l - 1") auto
    ultimately show ?thesis using s sum by (intro exI [of _ s]) auto
  qed
qed

text \<open>The walk down stops at the last row of the logical line.\<close>

lemma line_end_Some:
  assumes ok: "grid_ok strict g" and l: "in_buffer g l"
  shows "\<exists>e. line_end g l = Some e \<and> in_buffer g e \<and> l \<le> e \<and> (\<forall>k. l \<le> k \<and> k < e \<longrightarrow> row_wraps (row_at g k)) \<and>
    (in_buffer g (e + 1) \<longrightarrow> \<not> row_wraps (row_at g e))"
  using l
proof (induction "nat (bottommost_line (grid_dims g) - l)" arbitrary: l)
  case 0
  then have l: "l = bottommost_line (grid_dims g)" by (simp add: in_buffer_def)
  then have "line_end g l = Some l" by (subst line_end.simps) simp
  then show ?case using 0 l by (intro exI [of _ l]) (auto simp: in_buffer_def)
next
  case (Suc d)
  then have down: "l < bottommost_line (grid_dims g)" "in_buffer g (l + 1)" "d = nat (bottommost_line (grid_dims g) - (l + 1))"
    by (auto simp: in_buffer_def)
  show ?case
  proof (cases "row_wraps (row_at g l)")
    case False
    then show ?thesis
      using down Suc.prems by (intro exI [of _ l]) (auto simp: line_end.simps [of g l] has_wrapline_Some [OF ok])
  next
    case True
    obtain e where e: "line_end g (l + 1) = Some e" "in_buffer g e" "l + 1 \<le> e" "\<forall>k. l + 1 \<le> k \<and> k < e \<longrightarrow> row_wraps (row_at g k)"
      "in_buffer g (e + 1) \<longrightarrow> \<not> row_wraps (row_at g e)"
      using Suc.hyps(1) [OF down(3) down(2)] by blast
    have "row_wraps (row_at g k)" if "l \<le> k" "k < e" for k using e(4) True that by (cases "k = l") auto
    then show ?thesis
      using e down True Suc.prems by (intro exI [of _ e]) (auto simp: line_end.simps [of g l] has_wrapline_Some [OF ok])
  qed
qed

text \<open>The number of rows from a line down that end a logical line.\<close>

definition ends_from :: "grid \<Rightarrow> int \<Rightarrow> nat" where
  "ends_from g l = length (filter (\<lambda>k. \<not> row_wraps (row_at g k)) [l..bottommost_line (grid_dims g)])"

lemma ends_from_step:
  "l \<le> bottommost_line (grid_dims g) \<Longrightarrow> ends_from g l = (if row_wraps (row_at g l) then 0 else 1) + ends_from g (l + 1)"
  by (simp add: ends_from_def upto_rec1)

lemma count_ends_Some:
  assumes ok: "grid_ok strict g" and l: "topmost_line (grid_dims g) \<le> l"
  shows "count_ends g l n = Some (n + ends_from g l)"
  using l
proof (induction "nat (bottommost_line (grid_dims g) + 1 - l)" arbitrary: l n)
  case 0
  then show ?case by (simp add: count_ends.simps [of g l] ends_from_def)
next
  case (Suc d)
  then have "l \<le> bottommost_line (grid_dims g)" "d = nat (bottommost_line (grid_dims g) + 1 - (l + 1))" "in_buffer g l"
    by (auto simp: in_buffer_def)
  then show ?case
    using Suc.hyps(1) [of "l + 1"] Suc.prems
    by (simp add: count_ends.simps [of g l] has_wrapline_Some [OF ok] ends_from_step)
qed

lemma anchor_cursor_Some:
  assumes ok: "grid_ok strict g" and on: "on_line g"
  obtains s e where "anchor_cursor g = Some (Some \<lparr>logical_lines_below = ends_from g (e + 1),
      anchor_offset = g_column g + (if cur_input_needs_wrap (g_cursor g) then 1 else 0) +
        sum_list (map (row_width \<circ> row_at g) [s..g_line g - 1])\<rparr>)"
    "in_buffer g s" "in_buffer g e" "s \<le> g_line g" "g_line g \<le> e" "\<And>k. s \<le> k \<Longrightarrow> k < e \<Longrightarrow> row_wraps (row_at g k)"
    "in_buffer g (s - 1) \<Longrightarrow> \<not> row_wraps (row_at g (s - 1))" "in_buffer g (e + 1) \<Longrightarrow> \<not> row_wraps (row_at g e)"
proof -
  have l: "in_buffer g (g_line g)" using on by (auto simp: in_buffer_iff on_line_def)
  let ?n = "g_column g + (if cur_input_needs_wrap (g_cursor g) then 1 else 0)"
  obtain s where s: "line_start g (g_line g) ?n = Some (s, ?n + sum_list (map (row_width \<circ> row_at g) [s..g_line g - 1]))"
    "in_buffer g s" "s \<le> g_line g" "\<forall>k. s \<le> k \<and> k < g_line g \<longrightarrow> row_wraps (row_at g k)" "in_buffer g (s - 1) \<longrightarrow> \<not> row_wraps (row_at g (s - 1))"
    using line_start_Some [OF ok l, of ?n] by blast
  obtain e where e: "line_end g (g_line g) = Some e" "in_buffer g e" "g_line g \<le> e" "\<forall>k. g_line g \<le> k \<and> k < e \<longrightarrow> row_wraps (row_at g k)"
    "in_buffer g (e + 1) \<longrightarrow> \<not> row_wraps (row_at g e)"
    using line_end_Some [OF ok l] by blast
  have "topmost_line (grid_dims g) \<le> e + 1" using e(2) by (simp add: in_buffer_def)
  then have "anchor_cursor g = Some (Some \<lparr>logical_lines_below = ends_from g (e + 1),
      anchor_offset = ?n + sum_list (map (row_width \<circ> row_at g) [s..g_line g - 1])\<rparr>)"
    using on s(1) e(1) count_ends_Some [OF ok, of "e + 1" 0]
    by (simp add: anchor_cursor_def on_line_def bottommost_line_def)
  moreover have "row_wraps (row_at g k)" if "s \<le> k" "k < e" for k
    using s(4) e(4) that by (cases "k < g_line g") auto
  ultimately show thesis using that s e by blast
qed

text \<open>
  The walk up from the bottom stops above the row that completes the count of ended lines, or
  finds too few of them below the top row.
\<close>

definition ends_within :: "grid \<Rightarrow> int \<Rightarrow> int \<Rightarrow> nat" where
  "ends_within g l m = length (filter (\<lambda>k. \<not> row_wraps (row_at g k)) [l..m])"

lemma ends_within_step: "l \<le> m \<Longrightarrow> ends_within g l m = ends_within g l (m - 1) + (if row_wraps (row_at g m) then 0 else 1)"
  by (simp add: ends_within_def upto_rec2)

lemma ends_within_empty [simp]: "m < l \<Longrightarrow> ends_within g l m = 0"
  by (simp add: ends_within_def)

lemma pass_lines_Some:
  assumes ok: "grid_ok strict g" and l: "in_buffer g l" and n: "seen \<le> below"
  shows "(\<exists>e. pass_lines g below seen l = Some (Some e) \<and> in_buffer g e \<and> e \<le> l \<and> ends_within g (e + 1) l = below - seen \<and>
      (e < l \<longrightarrow> \<not> row_wraps (row_at g (e + 1)))) \<or>
    pass_lines g below seen l = Some None \<and> ends_within g (topmost_line (grid_dims g) + 1) l < below - seen"
  using l n
proof (induction "nat (l - topmost_line (grid_dims g))" arbitrary: l seen)
  case 0
  then have l: "l = topmost_line (grid_dims g)" by (simp add: in_buffer_def)
  have "pass_lines g below seen l = (if seen < below then Some None else Some (Some l))"
    using l by (subst pass_lines.simps) (simp add: has_wrapline_Some [OF ok])
  then show ?case using 0 l by auto
next
  case (Suc d)
  then have up: "topmost_line (grid_dims g) < l" "in_buffer g (l - 1)" "d = nat (l - 1 - topmost_line (grid_dims g))"
    by (auto simp: in_buffer_def)
  show ?case
  proof (cases "seen < below")
    case False
    then have "pass_lines g below seen l = Some (Some l)" by (subst pass_lines.simps) simp
    then show ?thesis using Suc.prems False by auto
  next
    case True
    let ?w = "row_wraps (row_at g l)"
    let ?s = "if ?w then seen else seen + 1"
    have eq: "pass_lines g below seen l = pass_lines g below ?s (l - 1)"
      using True up Suc.prems(1) by (subst pass_lines.simps) (simp add: has_wrapline_Some [OF ok])
    have s: "?s \<le> below" using True by simp
    have step: "ends_within g k l = ends_within g k (l - 1) + (if ?w then 0 else 1)" if "k \<le> l" for k
      using ends_within_step [OF that] .
    from Suc.hyps(1) [OF up(3,2) s] show ?thesis
    proof (elim disjE exE conjE)
      fix e assume e: "pass_lines g below ?s (l - 1) = Some (Some e)" "in_buffer g e" "e \<le> l - 1"
        "ends_within g (e + 1) (l - 1) = below - ?s" "e < l - 1 \<longrightarrow> \<not> row_wraps (row_at g (e + 1))"
      have "ends_within g (e + 1) l = below - seen" using step [of "e + 1"] e(3,4) True by auto
      moreover have "\<not> row_wraps (row_at g (e + 1))"
      proof (cases "e = l - 1")
        case True
        then have "below = ?s" using e(4) s by simp
        then show ?thesis using True \<open>seen < below\<close> by (auto split: if_splits)
      qed (use e in simp)
      ultimately show ?thesis using e eq by auto
    next
      assume "pass_lines g below ?s (l - 1) = Some None" "ends_within g (topmost_line (grid_dims g) + 1) (l - 1) < below - ?s"
      then show ?thesis using step [of "topmost_line (grid_dims g) + 1"] up(1) eq by auto
    qed
  qed
qed

text \<open>Spending the offset stops in the row of the logical line that the offset falls into.\<close>

lemma spend_offset_Some:
  assumes ok: "grid_ok strict g" and l: "in_buffer g l" "in_buffer g e" "l \<le> e"
  shows "\<exists>m r. spend_offset g e l n = Some (m, r) \<and> l \<le> m \<and> m \<le> e \<and>
    n = sum_list (map (row_width \<circ> row_at g) [l..m - 1]) + r \<and> (m < e \<longrightarrow> r < row_width (row_at g m))"
  using l(1,3)
proof (induction "nat (e - l)" arbitrary: l n)
  case 0
  then have "spend_offset g e l n = Some (l, n)" by (subst spend_offset.simps) simp
  then show ?case using 0 by auto
next
  case (Suc d)
  then have d: "l < e" "in_buffer g (l + 1)" "d = nat (e - (l + 1))" using l(2) by (auto simp: in_buffer_def)
  let ?w = "row_width (row_at g l)"
  have eq: "spend_offset g e l n = (if n < ?w then Some (l, n) else spend_offset g e (l + 1) (n - ?w))"
    using d(1) logical_width_Some [OF ok Suc.prems(1)] by (subst spend_offset.simps) simp
  show ?case
  proof (cases "n < ?w")
    case True
    then show ?thesis using eq d(1) by auto
  next
    case False
    obtain m r where m: "spend_offset g e (l + 1) (n - ?w) = Some (m, r)" "l + 1 \<le> m" "m \<le> e"
      "n - ?w = sum_list (map (row_width \<circ> row_at g) [l + 1..m - 1]) + r" "m < e \<longrightarrow> r < row_width (row_at g m)"
      using Suc.hyps(1) [OF d(3,2)] d(1) by fastforce
    have "[l..m - 1] = l # [l + 1..m - 1]" using m(2) by (simp add: upto_rec1)
    then have "n = sum_list (map (row_width \<circ> row_at g) [l..m - 1]) + r" using m(4) False by simp
    then show ?thesis using eq False m by auto
  qed
qed

text \<open>
  Restoring an anchor puts the cursor into the row and column that the offset reaches in the line found, or
  leaves it alone.
\<close>

definition placed :: "grid \<Rightarrow> int \<Rightarrow> nat \<Rightarrow> grid" where
  "placed g m r = put_line (max m 0) (if r > g_columns g - 1 then put_wrap True (put_column (g_columns g - 1) g)
     else put_wrap False (put_column r g))"

lemma restore_cursor_anchor_Some:
  assumes ok: "grid_ok strict g"
  shows "restore_cursor_anchor a g = Some g \<and>
      ends_within g (topmost_line (grid_dims g) + 1) (bottommost_line (grid_dims g)) < logical_lines_below a \<or>
    (\<exists>s e m r. restore_cursor_anchor a g = Some (placed g m r) \<and> in_buffer g s \<and> in_buffer g e \<and> s \<le> m \<and> m \<le> e \<and>
      ends_from g (e + 1) = logical_lines_below a \<and> (in_buffer g (e + 1) \<longrightarrow> \<not> row_wraps (row_at g (e + 1))) \<and>
      (\<forall>k. s \<le> k \<and> k < e \<longrightarrow> row_wraps (row_at g k)) \<and> (in_buffer g (s - 1) \<longrightarrow> \<not> row_wraps (row_at g (s - 1))) \<and>
      anchor_offset a = sum_list (map (row_width \<circ> row_at g) [s..m - 1]) + r \<and> (m < e \<longrightarrow> r < row_width (row_at g m)))"
proof -
  let ?b = "bottommost_line (grid_dims g)"
  have b: "in_buffer g ?b" using grid_ok_lines [OF ok] by (simp add: in_buffer_iff topmost_grid)
  have cols: "1 \<le> g_columns g" using grid_ok_lines [OF ok] by simp
  from pass_lines_Some [OF ok b le0, of "logical_lines_below a"] show ?thesis
  proof (elim disjE exE conjE)
    fix e assume e: "pass_lines g (logical_lines_below a) 0 ?b = Some (Some e)" "in_buffer g e" "e \<le> ?b"
      "ends_within g (e + 1) ?b = logical_lines_below a - 0" "e < ?b \<longrightarrow> \<not> row_wraps (row_at g (e + 1))"
    obtain s where s: "line_start g e 0 = Some (s, 0 + sum_list (map (row_width \<circ> row_at g) [s..e - 1]))" "in_buffer g s" "s \<le> e"
      "\<forall>k. s \<le> k \<and> k < e \<longrightarrow> row_wraps (row_at g k)" "in_buffer g (s - 1) \<longrightarrow> \<not> row_wraps (row_at g (s - 1))"
      using line_start_Some [OF ok e(2)] by blast
    obtain m r where m: "spend_offset g e s (anchor_offset a) = Some (m, r)" "s \<le> m" "m \<le> e"
      "anchor_offset a = sum_list (map (row_width \<circ> row_at g) [s..m - 1]) + r" "m < e \<longrightarrow> r < row_width (row_at g m)"
      using spend_offset_Some [OF ok s(2) e(2) s(3)] by blast
    have "restore_cursor_anchor a g = Some (placed g m r)"
      using e(1) s(1) m(1) cols by (simp add: restore_cursor_anchor_def panic_free placed_def)
    moreover have "in_buffer g (e + 1) \<longrightarrow> \<not> row_wraps (row_at g (e + 1))" using e(5) by (auto simp: in_buffer_def)
    moreover have "ends_from g (e + 1) = logical_lines_below a" using e(4) by (simp add: ends_from_def ends_within_def)
    ultimately show ?thesis
      using e(2) s(2,4,5) m(2-5) by (intro disjI2 exI [of _ s] exI [of _ e] exI [of _ m] exI [of _ r] conjI)
  next
    assume "pass_lines g (logical_lines_below a) 0 ?b = Some None"
      "ends_within g (topmost_line (grid_dims g) + 1) ?b < logical_lines_below a - 0"
    then show ?thesis by (simp add: restore_cursor_anchor_def)
  qed
qed

lemma placed_moved:
  assumes "grid_ok strict g" "on_line g" "m < int (g_lines g)"
  shows "moved g (placed g m r)" "g_column (placed g m r) < g_columns g"
proof -
  have l: "0 \<le> max m 0" "max m 0 < int (g_lines g)" using assms grid_ok_lines by fastforce+
  note n = moved_steps(3) [OF moved_refl [OF assms(2)]]
  show "moved g (placed g m r)" using moved_steps(2) [OF moved_steps(4) [OF n] l] by (simp add: placed_def)
  show "g_column (placed g m r) < g_columns g" using grid_ok_lines [OF assms(1)] by (auto simp: placed_def put_defs)
qed

lemma restore_cursor_anchor_returns:
  assumes ok: "grid_ok strict g" and on: "on_line g" "g_column g < g_columns g"
  shows "returns (restore_cursor_anchor a g) (\<lambda>g'. moved g g' \<and> g_column g' < g_columns g \<and> g_display_offset g' = g_display_offset g)"
  using restore_cursor_anchor_Some [OF ok, of a]
proof (elim disjE exE conjE)
  fix s e m r assume r: "restore_cursor_anchor a g = Some (placed g m r)" and m: "in_buffer g e" "m \<le> e"
  have "m < int (g_lines g)" using m by (simp add: in_buffer_iff)
  moreover have "g_display_offset (placed g m r) = g_display_offset g" by (simp add: placed_def put_defs)
  ultimately show ?thesis using r placed_moved [OF ok on(1)] by simp
qed (use moved_refl [OF on(1)] on(2) in simp)

section \<open>Resizing never panics\<close>

definition cursors_in :: "grid \<Rightarrow> bool" where
  "cursors_in g \<longleftrightarrow> on_line g \<and> g_column g < g_columns g \<and> saved_on_line g \<and> column (cur_point (g_saved_cursor g)) < g_columns g"

lemma cursors_inD:
  assumes "cursors_in g"
  shows "on_line g" "g_column g < g_columns g" "saved_on_line g" "column (cur_point (g_saved_cursor g)) < g_columns g"
    "0 \<le> line (cur_point (g_saved_cursor g))" "line (cur_point (g_saved_cursor g)) < int (g_lines g)"
  using assms by (auto simp: cursors_in_def saved_on_line_def)

lemma reshaped_cursors: "reshaped lines cols g g' \<Longrightarrow> cursors_in g'"
  by (simp add: reshaped_def cursors_in_def saved_on_line_def)

lemma reshaped_grid_ok: "reshaped lines cols g g' \<Longrightarrow> grid_ok False g' \<and> g_lines g' = lines \<and> g_columns g' = cols"
  by (simp add: reshaped_def)

lemma reshaped_trans: "reshaped lines cols g g' \<Longrightarrow> reshaped lines2 cols2 g' g'' \<Longrightarrow> reshaped lines2 cols2 g g''"
  by (simp add: reshaped_def)

lemma grid_ok_moved: "moved g g' \<Longrightarrow> grid_ok strict g' = grid_ok strict g"
  by (simp add: moved_def grid_ok_def grid_dims_def)

lemma reshaped_moved:
  assumes "reshaped lines cols g g'" "moved g' g''" "g_column g'' < cols"
  shows "reshaped lines cols g g''"
  using assms movedD [OF assms(2)] grid_ok_moved [OF assms(2), of False] unfolding reshaped_def by simp

lemma reshaped_refl: "grid_ok False g \<Longrightarrow> cursors_in g \<Longrightarrow> reshaped (g_lines g) (g_columns g) g g"
  by (simp add: reshaped_def cursors_in_def saved_on_line_def)

lemma other_height_reshaped:
  assumes "other_height False lines h shift low g g'" "cursors_in g" "0 \<le> g_line g + shift" "g_line g + shift < int lines"
  shows "reshaped lines (g_columns g) g g'"
  using assms by (auto simp: other_height_def reshaped_def cursors_in_def on_line_def)

text \<open>The height is changed first.\<close>

definition change_height :: "bool \<Rightarrow> nat \<Rightarrow> grid \<Rightarrow> grid option" where
  "change_height conpty lines g =
     (if g_lines g < lines then grow_lines conpty lines g
      else if g_lines g > lines then shrink_lines conpty lines g else Some g)"

lemma change_height_returns:
  assumes ok: "grid_ok False g" and c: "cursors_in g" and lines: "1 \<le> lines"
  shows "returns (change_height conpty lines g) (reshaped lines (g_columns g) g)"
proof -
  note i = cursors_inD [OF c]
  have on: "0 \<le> g_line g" "g_line g < int (g_lines g)" using i(1) by (simp_all add: on_line_def)
  consider "g_lines g < lines" | "g_lines g > lines" | "g_lines g = lines" by linarith
  then show ?thesis
  proof cases
    case 1
    let ?f = "if conpty then 0 else min (grid_history g) (lines - g_lines g)"
    have f: "?f \<le> lines - g_lines g" by simp
    have "0 \<le> g_line g + int ?f" "g_line g + int ?f < int lines" using on f 1 by linarith+
    then show ?thesis
      using 1 grow_lines_returns [OF ok _ i(3), of lines conpty] other_height_reshaped [OF _ c]
      unfolding change_height_def by (auto elim!: returns_mono)
  next
    case 2
    obtain r where r: "shrink_scroll_amount conpty lines g = Some r" "int r \<le> g_line g" "g_line g < int lines + int r"
      using shrink_scroll_amount_Some [OF ok i(1) lines, of conpty] 2 by auto
    then have "0 \<le> g_line g + - int r" "g_line g + - int r < int lines" by linarith+
    then show ?thesis
      using 2 shrink_lines_returns [OF ok i(1) lines _ i(3) r(1)] other_height_reshaped [OF _ c]
      unfolding change_height_def by (auto elim!: returns_mono)
  next
    case 3
    then show ?thesis using reshaped_refl [OF ok c] by (simp add: change_height_def)
  qed
qed

text \<open>Then the width, and the cursor goes back to its content.\<close>

definition change_width :: "bool \<Rightarrow> nat \<Rightarrow> grid \<Rightarrow> grid option" where
  "change_width reflow cols g = do {
     anchor \<leftarrow> (if g_columns g < cols \<and> reflow \<and> g_reflow_on_grow g \<or> g_columns g > cols \<and> reflow then anchor_cursor g else Some None);
     g \<leftarrow> (if g_columns g < cols then grow_columns (reflow \<and> g_reflow_on_grow g) cols g
          else if g_columns g > cols then shrink_columns reflow cols g
          else Some g);
     case anchor of None \<Rightarrow> Some g | Some a \<Rightarrow> restore_cursor_anchor a g
   }"

lemma resize_impl_parts:
  "resize_impl reflow conpty lines cols g = do {
     g1 \<leftarrow> change_height conpty lines (map_cursor (\<lambda>c. c\<lparr>cur_template := default_cell\<rparr>) g);
     g2 \<leftarrow> change_width reflow cols g1;
     Some (map_cursor (\<lambda>c. c\<lparr>cur_template := cur_template (g_cursor g)\<rparr>) g2)
   }"
  by (simp add: resize_impl_def change_height_def change_width_def Let_def bind_assoc)

lemma change_width_returns:
  assumes ok: "grid_ok False g" and c: "cursors_in g" and cols: "2 \<le> cols"
  shows "returns (change_width reflow cols g) (reshaped (g_lines g) cols g)"
proof -
  note i = cursors_inD [OF c]
  obtain a where a: "anchor_cursor g = Some a" using anchor_cursor_Some [OF ok i(1)] by blast
  have width: "returns (if g_columns g < cols then grow_columns (reflow \<and> g_reflow_on_grow g) cols g
      else if g_columns g > cols then shrink_columns reflow cols g else Some g) (reshaped (g_lines g) cols g)"
    using grow_columns_returns [OF ok i(1,2,5,6,4), of cols "reflow \<and> g_reflow_on_grow g"]
      shrink_columns_returns [OF ok i(1,5,6) _ cols, of reflow] reshaped_refl [OF ok c]
    by (auto elim: returns_mono)
  have restore: "returns (case x of None \<Rightarrow> Some g2 | Some a \<Rightarrow> restore_cursor_anchor a g2) (reshaped (g_lines g) cols g)"
    if "reshaped (g_lines g) cols g g2" for x g2
  proof (cases x)
    case (Some a)
    note r = reshaped_grid_ok [OF that] and c2 = cursors_inD [OF reshaped_cursors [OF that]]
    show ?thesis
      using restore_cursor_anchor_returns [of False g2 a] r c2(1,2) reshaped_moved [OF that] Some by (auto elim!: returns_mono)
  qed (use that in simp)
  have "\<exists>x. (if g_columns g < cols \<and> reflow \<and> g_reflow_on_grow g \<or> g_columns g > cols \<and> reflow then anchor_cursor g else Some None) = Some x"
    using a by simp
  then obtain x where "(if g_columns g < cols \<and> reflow \<and> g_reflow_on_grow g \<or> g_columns g > cols \<and> reflow then anchor_cursor g else Some None) = Some x"
    by blast
  then show ?thesis unfolding change_width_def by (simp only: bind.bind_lunit returns_bind) (rule returns_mono [OF width restore])
qed

lemma resize_returns:
  assumes ok: "grid_ok strict g" and c: "cursors_in g" and size: "1 \<le> lines" "2 \<le> cols"
  shows "returns (resize_impl reflow conpty lines cols g) (reshaped lines cols g)"
proof -
  let ?g = "map_cursor (\<lambda>c. c\<lparr>cur_template := default_cell\<rparr>) g"
  have g: "grid_ok False ?g" "cursors_in ?g"
    using grid_ok_weaken [OF ok] c by (simp_all add: map_cursor_def cursors_in_def saved_on_line_def on_line_def)
  obtain g1 where g1: "change_height conpty lines ?g = Some g1" "reshaped lines (g_columns ?g) ?g g1"
    using change_height_returns [OF g size(1), of conpty] by (rule returnsE)
  note r1 = reshaped_grid_ok [OF g1(2)]
  obtain g2 where g2: "change_width reflow cols g1 = Some g2" "reshaped (g_lines g1) cols g1 g2"
    using change_width_returns [OF _ reshaped_cursors [OF g1(2)] size(2), of reflow] r1 by (auto simp: returns_def)
  have "reshaped lines cols ?g g2" using reshaped_trans [OF g1(2) g2(2)] r1 by simp
  then have "reshaped lines cols g (map_cursor (\<lambda>c. c\<lparr>cur_template := cur_template (g_cursor g)\<rparr>) g2)"
    by (simp add: reshaped_def map_cursor_def on_line_def)
  then show ?thesis using g1(1) g2(1) by (simp add: resize_impl_parts)
qed

end
