(* ===== verification/Term_Resize.thy ===== *)
theory Term_Resize
  imports Term_Calls Resize_Anchor
begin

text \<open>
  Resizing a terminal (\<open>Term::resize\<close> of \<open>nebula_terminal/src/term/mod.rs\<close>): both grids take the new size, the
  primary one with reflow, the cursor of vi mode moves with the content, and what depends on the old
  size is renewed or dropped. The invariant of a terminal of the old size becomes that of one of the
  new size.
\<close>

definition resize_primary :: "bool \<Rightarrow> bool \<Rightarrow> nat \<Rightarrow> nat \<Rightarrow> grid \<Rightarrow> grid option" where
  "resize_primary conpty reflow lines cols g =
     (if conpty then resize_conpty reflow lines cols g else grid_resize reflow lines cols g)"

definition term_resize :: "nat \<Rightarrow> nat \<Rightarrow> trm \<Rightarrow> trm option" where
  "term_resize num_cols num_lines t = do {
     let t = cancel_redraw_anchor (t\<lparr>t_presentation_origin := None\<rparr>);
     let old_cols = t_columns t;
     let old_lines = t_lines t;
     if old_cols = num_cols \<and> old_lines = num_lines then Some t
     else do {
       let t = reset_input_cluster t;
       let delta = int num_lines - int old_lines;
       let min_delta = min 0 (int num_lines - line (t_point t) - 1);
       let delta = min (max delta min_delta) (int (grid_history (t_grid t)));
       let t = t\<lparr>t_vi_cursor := Point (line (t_vi_cursor t) + delta) (column (t_vi_cursor t))\<rparr>;
       let is_alt = has_mode t ALT_SCREEN;
       active \<leftarrow> resize_primary (conpty_resize (t_config t) \<and> \<not> is_alt) (\<not> is_alt) num_lines num_cols (t_grid t);
       inactive \<leftarrow> resize_primary (conpty_resize (t_config t) \<and> is_alt) is_alt num_lines num_cols (t_inactive_grid t);
       let t = t\<lparr>t_grid := active, t_inactive_grid := inactive\<rparr>;
       r \<leftarrow> reading_invalidate (t_reading t);
       let t = t\<lparr>t_reading := r\<lparr>rd_prompt_marks := [], rd_prompt_input := None\<rparr>\<rparr>;
       t \<leftarrow> (if old_cols \<noteq> num_cols
            then Some (t\<lparr>t_selection := None, t_tabs := tabs_resize num_cols (t_tabs t)\<rparr>)
            else rotate_selection (0, int (max num_lines old_lines)) (- delta) t);
       let viewport_top = - int (g_display_offset (t_grid t));
       let viewport_bottom = viewport_top + bottommost_line (t_dims t);
       last_column \<leftarrow> usize_sub (t_columns t) 1;
       let t = t\<lparr>t_vi_cursor := Point (max (min (line (t_vi_cursor t)) viewport_bottom) viewport_top)
                                      (min (column (t_vi_cursor t)) last_column)\<rparr>;
       let t = t\<lparr>t_scroll_region := (0, int (t_lines t))\<rparr>;
       Some (t\<lparr>t_damage := damage_resize num_cols num_lines (t_damage t)\<rparr>)
     }
   }"

section \<open>The invariant\<close>

definition resized_shape :: "nat \<Rightarrow> nat \<Rightarrow> shape \<Rightarrow> shape" where
  "resized_shape cols lines k = \<lparr>sh_strict = False, sh_columns = cols, sh_lines = lines, sh_epoch = sh_epoch k + 1\<rparr>"

lemma screen_ok_weaken: "screen_ok k g \<Longrightarrow> screen_ok (k\<lparr>sh_strict := False\<rparr>) g"
  by (auto simp: screen_ok_def cursor_ok_def on_screen_def intro: grid_ok_weaken)

lemma term_ok_weaken: "term_ok k t \<Longrightarrow> term_ok (k\<lparr>sh_strict := False\<rparr>) t"
  by (auto simp: term_ok_def on_screen_def region_ok_def intro: screen_ok_weaken)

lemma term_ok_later: "term_ok k t \<Longrightarrow> sh_epoch k \<le> n \<Longrightarrow> term_ok (k\<lparr>sh_epoch := n\<rparr>) t"
  by (auto simp: term_ok_def screen_ok_def cursor_ok_def on_screen_def region_ok_def)

lemma resize_screen:
  assumes s: "screen_ok k g" and size: "1 \<le> lines" "2 \<le> cols"
  shows "returns (resize_primary conpty reflow lines cols g) (\<lambda>g'. screen_ok (resized_shape cols lines k) g' \<and>
    g_max_scroll_limit g' = g_max_scroll_limit g)"
proof -
  have "cursors_in g"
    using s by (auto simp: screen_ok_def cursor_ok_def on_screen_def cursors_in_def on_line_def saved_on_line_def)
  then have r: "returns (resize_impl reflow c lines cols g) (reshaped lines cols g)" for c
    using s size by (intro resize_returns) (auto simp: screen_ok_def)
  have "screen_ok (resized_shape cols lines k) g' \<and> g_max_scroll_limit g' = g_max_scroll_limit g" if "reshaped lines cols g g'" for g'
    using that s by (auto simp: reshaped_def screen_ok_def cursor_ok_def on_screen_def resized_shape_def on_line_def)
  from returns_mono [OF r this] show ?thesis
    by (simp add: resize_primary_def grid_resize_def resize_conpty_def)
qed

lemma rotate_selection_Some:
  assumes "1 \<le> t_columns t"
  shows "\<exists>s. rotate_selection r d t = Some (t\<lparr>t_selection := s\<rparr>)"
proof (cases "t_selection t")
  case None
  then show ?thesis by (intro exI [of _ None]) (cases t, simp add: rotate_selection_def)
next
  case (Some s)
  obtain x where "selection_rotate (t_dims t) r d s = Some x" using selection_rotate_returns [of "t_dims t" r d s] assms by auto
  then show ?thesis using Some by (intro exI [of _ x]) (simp add: rotate_selection_def)
qed

lemma term_resize_ok:
  assumes t: "term_ok k t" and size: "1 \<le> lines" "2 \<le> cols" and e: "sh_epoch k + 1 < 2 ^ 64"
  shows "returns (term_resize cols lines t) (term_ok (resized_shape cols lines k))"
proof -
  let ?k = "resized_shape cols lines k"
  define t1 where "t1 = cancel_redraw_anchor (t\<lparr>t_presentation_origin := None\<rparr>)"
  have t1: "term_ok k t1" using t term_okD(16) [OF t] by (simp add: t1_def)
  note d = screen_okD [OF t1]
  show ?thesis
  proof (cases "t_columns t1 = cols \<and> t_lines t1 = lines")
    case True
    then have "?k = k\<lparr>sh_strict := False, sh_epoch := sh_epoch k + 1\<rparr>" using d by (simp add: resized_shape_def)
    moreover have "term_ok (k\<lparr>sh_strict := False, sh_epoch := sh_epoch k + 1\<rparr>) t1"
      using term_ok_later [OF term_ok_weaken [OF t1], of "sh_epoch k + 1"] by simp
    ultimately show ?thesis using True by (simp add: term_resize_def t1_def [symmetric] Let_def)
  next
    case False
    define u where "u = reset_input_cluster t1"
    define delta where "delta = min (max (int lines - int (t_lines t1)) (min 0 (int lines - line (t_point u) - 1))) (int (grid_history (t_grid u)))"
    define t2 where "t2 = u\<lparr>t_vi_cursor := Point (line (t_vi_cursor u) + delta) (column (t_vi_cursor u))\<rparr>"
    have t2: "term_ok k t2" using term_ok_reset_input [OF t1] by (simp add: t2_def u_def)
    obtain a where a: "resize_primary (conpty_resize (t_config t2) \<and> \<not> has_mode t2 ALT_SCREEN) (\<not> has_mode t2 ALT_SCREEN) lines cols (t_grid t2) = Some a"
      "screen_ok ?k a" "g_max_scroll_limit a = g_max_scroll_limit (t_grid t2)"
      using resize_screen [OF term_okD(3) [OF t2] size] by (auto simp: returns_def)
    obtain b where b: "resize_primary (conpty_resize (t_config t2) \<and> has_mode t2 ALT_SCREEN) (has_mode t2 ALT_SCREEN) lines cols (t_inactive_grid t2) = Some b"
      "screen_ok ?k b" "g_max_scroll_limit b = g_max_scroll_limit (t_inactive_grid t2)"
      using resize_screen [OF term_okD(4) [OF t2] size] by (auto simp: returns_def)
    obtain r where r: "reading_invalidate (t_reading t2) = Some r" "rd_epoch r = rd_epoch (t_reading t2) + 1"
      using reading_invalidate_ok [OF t2 e] by blast
    have r': "reading_invalidate (t_reading (t2\<lparr>t_grid := a, t_inactive_grid := b\<rparr>)) = Some r" using r(1) by simp
    define t3 where "t3 = t2\<lparr>t_grid := a, t_inactive_grid := b, t_reading := r\<lparr>rd_prompt_marks := [], rd_prompt_input := None\<rparr>\<rparr>"
    have dims: "t_columns t3 = cols" "t_lines t3 = lines" using a(2) by (simp_all add: t3_def screen_ok_def resized_shape_def)
    let ?sel = "if t_columns t1 \<noteq> cols then Some (t3\<lparr>t_selection := None, t_tabs := tabs_resize cols (t_tabs t3)\<rparr>)
      else rotate_selection (0, int (max lines (t_lines t1))) (- delta) t3"
    obtain s where rot: "rotate_selection (0, int (max lines (t_lines t1))) (- delta) t3 = Some (t3\<lparr>t_selection := s\<rparr>)"
      using rotate_selection_Some [of t3 "(0, int (max lines (t_lines t1)))" "- delta"] dims(1) size(2) by auto
    obtain s tabs where sel: "?sel = Some (t3\<lparr>t_selection := s, t_tabs := tabs\<rparr>)" "length tabs = cols"
    proof (cases "t_columns t1 \<noteq> cols")
      case True
      have "length (tabs_resize cols (t_tabs t3)) = cols" by (simp add: tabs_resize_def)
      then show thesis using that [of "tabs_resize cols (t_tabs t3)" None] True by simp
    next
      case False
      have "length (t_tabs t3) = cols" using term_okD(7) [OF t2] d(2) False by (simp add: t3_def)
      then show thesis using that [of "t_tabs t3" s] rot False by simp
    qed
    define t4 where "t4 = t3\<lparr>t_selection := s, t_tabs := tabs\<rparr>"
    define vi where "vi = Point (max (min (line (t_vi_cursor t4)) (- int (g_display_offset (t_grid t4)) + bottommost_line (t_dims t4)))
      (- int (g_display_offset (t_grid t4)))) (min (column (t_vi_cursor t4)) (cols - 1))"
    let ?t = "t4\<lparr>t_vi_cursor := vi, t_scroll_region := (0, int lines), t_damage := damage_resize cols lines (t_damage t4)\<rparr>"
    have dims': "t_columns t4 = cols" "t_lines t4 = lines" using dims by (simp_all add: t4_def)
    have eq: "term_resize cols lines t = Some ?t"
      unfolding term_resize_def Let_def t1_def [symmetric] if_not_P [OF False]
      unfolding u_def [symmetric] delta_def [symmetric] t2_def [symmetric] a(1) b(1) r' bind.bind_lunit t3_def [symmetric] sel(1) t4_def [symmetric]
      using size(2) dims' by (simp add: usize_sub_def vi_def)
    have limit: "(has_mode t2 ALT_SCREEN \<longrightarrow> g_max_scroll_limit a = 0) \<and> (\<not> has_mode t2 ALT_SCREEN \<longrightarrow> g_max_scroll_limit b = 0)"
      using term_okD(5) [OF t2] a(3) b(3) by (simp add: alternate_def split: if_splits)
    have "term_ok k t2" by (rule t2)
    then have "term_ok ?k ?t"
      using a(2) b(2) r(2) limit sel(2) damage_resize_ok [of cols lines "t_damage t4"] size
      by (simp add: term_ok_def t4_def t3_def resized_shape_def region_ok_def alternate_def on_screen_def damage_resize_def)
    then show ?thesis using eq by simp
  qed
qed

end
