(* ===== verification/Machine.thy ===== *)
theory Machine
  imports Prelude
begin

text \<open>
  Components as guarded state machines. A machine has initial states, a step function that may
  panic and a guard that says which input its caller may send in which state. The contract of the
  locale is what a component's own lemmas give, that a step allowed by the guard keeps the invariant;
  the consequences for whole runs are proved here once. The invariant may depend on the number of
  steps taken, and may be promised only within a bound on it, for components with a counter that must
  not overflow.
\<close>

inductive reaches :: "('c \<Rightarrow> 's \<Rightarrow> 's option) \<Rightarrow> ('c \<Rightarrow> 's \<Rightarrow> bool) \<Rightarrow> ('s \<Rightarrow> bool) \<Rightarrow> nat \<Rightarrow> 's \<Rightarrow> bool"
  for step guard initial where
  start: "initial s \<Longrightarrow> reaches step guard initial 0 s"
| step: "reaches step guard initial n s \<Longrightarrow> guard c s \<Longrightarrow> step c s = Some s' \<Longrightarrow> reaches step guard initial (Suc n) s'"

inductive_simps reaches_0 [simp]: "reaches step guard initial 0 s"
inductive_simps reaches_Suc: "reaches step guard initial (Suc n) s"

text \<open>A sequence of inputs that the guard allows one after the other, and its result.\<close>

primrec run :: "('c \<Rightarrow> 's \<Rightarrow> 's option) \<Rightarrow> 'c list \<Rightarrow> 's \<Rightarrow> 's option" where
  "run step [] s = Some s"
| "run step (c # cs) s = Option.bind (step c s) (run step cs)"

primrec allowed :: "('c \<Rightarrow> 's \<Rightarrow> 's option) \<Rightarrow> ('c \<Rightarrow> 's \<Rightarrow> bool) \<Rightarrow> 'c list \<Rightarrow> 's \<Rightarrow> bool" where
  "allowed step guard [] s \<longleftrightarrow> True"
| "allowed step guard (c # cs) s \<longleftrightarrow> guard c s \<and> (\<forall>s'. step c s = Some s' \<longrightarrow> allowed step guard cs s')"

locale machine =
  fixes step :: "'c \<Rightarrow> 's \<Rightarrow> 's option" and guard :: "'c \<Rightarrow> 's \<Rightarrow> bool"
    and initial :: "'s \<Rightarrow> bool" and invariant :: "nat \<Rightarrow> 's \<Rightarrow> bool" and within :: "nat \<Rightarrow> bool"
  assumes start_ok: "initial s \<Longrightarrow> invariant 0 s"
    and step_ok: "invariant n s \<Longrightarrow> guard c s \<Longrightarrow> within (Suc n) \<Longrightarrow> returns (step c s) (invariant (Suc n))"
    and within_less: "within (Suc n) \<Longrightarrow> within n"
begin

lemma within_mono: "within n \<Longrightarrow> m \<le> n \<Longrightarrow> within m"
  by (induction n) (auto simp: le_Suc_eq dest: within_less)


lemma reaches_invariant:
  assumes "reaches step guard initial n s" "within n"
  shows "invariant n s"
  using assms
proof induction
  case (start s)
  then show ?case by (simp add: start_ok)
next
  case (step n s c s')
  then show ?case using step_ok [of n s c] within_less by simp
qed

lemma not_stuck:
  assumes "reaches step guard initial n s" "guard c s" "within (Suc n)"
  shows "returns (step c s) (reaches step guard initial (Suc n))"
  using step_ok [OF reaches_invariant [OF assms(1) within_less [OF assms(3)]] assms(2,3)] reaches.step [OF assms(1,2)]
  by (auto simp: returns_def)

lemma run_returns:
  assumes "reaches step guard initial n s" "allowed step guard cs s" "within (n + length cs)"
  shows "returns (run step cs s) (reaches step guard initial (n + length cs))"
  using assms
proof (induction cs arbitrary: n s)
  case (Cons c cs)
  then obtain s' where "step c s = Some s'" "reaches step guard initial (Suc n) s'"
    using not_stuck [of n s c] within_mono [OF Cons.prems(3), of "Suc n"] by (auto simp: returns_def)
  then show ?case using Cons.IH [of "Suc n" s'] Cons.prems by simp
qed simp

end

end
