(* ===== verification/Terminal.thy ===== *)
theory Terminal
  imports Term_Resize Machine
begin

text \<open>
  The terminal as a state machine: a fresh terminal, the escape sequences of the program, the
  calls of the window and changes of its size in any order. Every reachable state satisfies the
  invariant and no step from it panics.
\<close>

section \<open>The window's operations\<close>

lemma scroll_display_ok:
  assumes t: "term_ok k t"
    and d: "\<And>d. s = Delta d \<Longrightarrow> i32_add (as_i32 (int (g_display_offset (t_grid t)))) d \<noteq> None"
  shows "returns (term_scroll_display s t) (term_ok k)"
proof -
  let ?t = "cancel_redraw_anchor (if \<not> has_mode t ALT_SCREEN
    then t\<lparr>t_presentation_origin := None, t_presentation_scroll_generation := t_presentation_scroll_generation t + 1\<rparr>
    else t\<lparr>t_presentation_origin := None\<rparr>)"
  have ok: "term_ok k ?t" using t term_okD(16) [OF t] by simp
  have same: "t_grid ?t = t_grid t" by (simp add: cancel_redraw_anchor_def)
  have recompute: "term_ok k (vi_mode_recompute_selection t1) = term_ok k t1" for t1
    by (simp add: vi_mode_recompute_selection_def split: option.split)
  have "returns (with_grid (scroll_display s) ?t) (calm k ?t)"
    by (rule with_grid_calm [OF ok], rule scroll_display_keeps) (use screen_okD(1) [OF ok] d same in auto)
  then show ?thesis
    unfolding term_scroll_display_def Let_def
    by (cases "has_mode t ALT_SCREEN") (auto simp: recompute intro!: bind_calm)
qed

lemma damaged_simps [simp]: "t_grid (mark_fully_damaged t) = t_grid t" "t_mode (mark_fully_damaged t) = t_mode t"
  by (simp_all add: mark_fully_damaged_def)

lemma set_line_simps [simp]:
  "t_mode (set_line l t) = t_mode t" "t_lines (set_line l t) = t_lines t"
  "grid_ok strict (t_grid (set_line l t)) = grid_ok strict (t_grid t)"
  by (simp_all add: cursor_updates)

lemma toggle_vi_mode_ok: "term_ok k t \<Longrightarrow> term_ok k (toggle_vi_mode t)"
  by (auto simp: toggle_vi_mode_def Let_def term_ok_mode bit_xor_iff)

text \<open>
  Realigning moves the cursor line to the target, and keeps the invariant when the target is a line
  of the screen.
\<close>

lemma conpty_realign_line:
  assumes t: "term_ok k t" and m: "\<not> has_mode t ALT_SCREEN"
    and near: "n \<noteq> nat (line (t_point t))" "\<bar>int n - line (t_point t)\<bar> < int (sh_lines k)"
  shows "returns (conpty_realign n t) (\<lambda>t'. line (t_point t') = int n \<and> t_mode t' = t_mode t \<and> t_lines t' = t_lines t \<and>
    grid_ok (sh_strict k) (t_grid t') \<and> (n < sh_lines k \<longrightarrow> term_ok k t'))"
proof -
  note s = term_ok_reset_input [OF t]
  let ?c = "nat (line (t_point t))"
  have c: "0 \<le> line (t_point t)" "line (t_point t) < int (sh_lines k)" "t_lines t = sh_lines k" using screen_okD [OF t] by auto
  let ?d = "if ?c \<le> n then n - ?c else ?c - n"
  let ?r = "(0, int (sh_lines k))"
  let ?Q = "\<lambda>t'. line (t_point t') = int n \<and> t_mode t' = t_mode t \<and> t_lines t' = t_lines t \<and>
    grid_ok (sh_strict k) (t_grid t') \<and> (n < sh_lines k \<longrightarrow> term_ok k t')"
  have d: "?d \<noteq> 0" "?d < sh_lines k" using near c by auto
  have final: "?Q (mark_fully_damaged (set_line (int n) t1))" if "calm k (reset_input_cluster t) t1" for t1
    using c screen_okD(1,3) [OF calm_ok [OF that]] term_ok_set_line [OF calm_ok [OF that], of "int n"] that
    by (simp add: calm_def)
  have steps: "returns (do {
      t \<leftarrow> rotate_selection ?r rot (reset_input_cluster t);
      t \<leftarrow> with_grid (f ?r ?d) t;
      Some (mark_fully_damaged (set_line (x (line (t_point t))) t)) }) ?Q"
    if "f = grid_scroll_up \<or> f = grid_scroll_down" "x (line (t_point t)) = int n" for f rot x
  proof (rule bind_calm [OF rotate_selection_calm [OF s]])
    fix t1 assume t1: "calm k (reset_input_cluster t) t1" "term_ok k t1"
    have "returns (with_grid (f ?r ?d) t1) (calm k t1)"
      using scroll_up_calm [OF t1(2), of ?r ?d] scroll_down_calm [OF t1(2), of ?r ?d] d that(1) by auto
    then show "returns (Option.bind (with_grid (f ?r ?d) t1) (\<lambda>t. Some (mark_fully_damaged (set_line (x (line (t_point t))) t)))) ?Q"
    proof (rule bind_calm_trans [OF _ t1(1)])
      fix t2 assume t2: "calm k (reset_input_cluster t) t2"
      then have "x (line (t_point t2)) = int n" using that(2) by (simp add: calm_def)
      then show "returns (Some (mark_fully_damaged (set_line (x (line (t_point t2))) t2))) ?Q"
        using final [OF t2] by simp
    qed
  qed
  show ?thesis
    using m c d steps [of grid_scroll_up "\<lambda>x. x - int ?d"] steps [of grid_scroll_down "\<lambda>x. x + int ?d"]
    by (cases "n < ?c") (simp_all add: conpty_realign_def Let_def bind_assoc)
qed

lemma conpty_realign_ok:
  assumes t: "term_ok k t" and n: "n < sh_lines k"
  shows "returns (conpty_realign n t) (term_ok k)"
proof (cases "has_mode t ALT_SCREEN \<or> n = nat (line (t_point t))")
  case True
  then show ?thesis using t by (auto simp: conpty_realign_def Let_def)
next
  case False
  then show ?thesis
    using returns_mono [OF conpty_realign_line [OF t, of n]] n screen_okD(6,7) [OF t] by auto
qed

lemma term_ok_primary:
  "term_ok k t \<Longrightarrow> screen_ok k g \<Longrightarrow> has_mode t ALT_SCREEN \<Longrightarrow> term_ok k (t\<lparr>t_inactive_grid := g\<rparr>)"
  "term_ok k t \<Longrightarrow> screen_ok k g \<Longrightarrow> \<not> has_mode t ALT_SCREEN \<Longrightarrow> term_ok k (t\<lparr>t_grid := g\<rparr>)"
  by (simp_all add: term_ok_def alternate_def)

lemma update_history_ok: "screen_ok k g \<Longrightarrow> returns (update_history h g) (screen_ok k)"
  by (rule returns_mono [OF update_history_keeps [of "sh_strict k"]]) (auto simp: screen_ok_def frame_def)

lemma update_primary_ok:
  assumes "term_ok k t"
  shows "returns (if has_mode t ALT_SCREEN then do { g \<leftarrow> update_history h (t_inactive_grid t); Some (t\<lparr>t_inactive_grid := g\<rparr>) }
      else with_grid (update_history h) t) (term_ok k)"
  using assms by (auto simp: with_grid_def intro!: bind_step [OF update_history_ok] term_ok_primary term_okD(3,4))

lemma set_options_ok:
  assumes t: "term_ok k t"
  shows "returns (set_options options t) (term_ok k)"
proof -
  have primary: "term_ok k (send_event ev (t\<lparr>t_config := options\<rparr>))" for ev using t by simp
  have "term_ok k (remove_mode KITTY_KEYBOARD_PROTOCOL (t1\<lparr>t_keyboard_stack := [], t_inactive_keyboard_stack := []\<rparr>))"
    if "term_ok k t1" for t1
    by (rule mode_bits_ok) (use that kitty_bit in \<open>simp_all add: term_ok_def\<close>)
  then show ?thesis
    unfolding set_options_def Let_def by - (rule bind_step [OF update_primary_ok [OF primary]], simp)
qed

lemma status_handlers_ok:
  assumes t: "term_ok k t"
  shows "term_ok k (report_program_status r t)" "term_ok k (end_program_status_activity t)"
    "term_ok k (snd (acknowledge_program_status_results t))"
proof -
  obtain c rs where a: "records_apply r (t_program_statuses t) = (c, rs)" by fastforce
  note recs = records_keep [OF term_okD(13) [OF t] a]
  show "term_ok k (report_program_status r t)" "term_ok k (end_program_status_activity t)"
    "term_ok k (snd (acknowledge_program_status_results t))"
    using recs t by (auto simp: report_program_status_def end_program_status_activity_def
        acknowledge_program_status_results_def a Let_def intro!: term_ok_records split: prod.splits)
qed

lemma term_damage_ok:
  assumes t: "term_ok k t"
  shows "returns (term_damage t) (\<lambda>(_, t'). term_ok k t')"
proof -
  define t1 where "t1 = (if has_mode t INSERT then mark_fully_damaged t else t)"
  define t2 where "t2 = t1\<lparr>t_damage := (t_damage t1)\<lparr>ds_last_cursor := t_point t1\<rparr>\<rparr>"
  have t1: "term_ok k t1" using t by (simp add: t1_def)
  have last: "on_screen k (ds_last_cursor (t_damage t1))" by (rule term_okD(17) [OF t1])
  have t2: "term_ok k t2"
    using t1 screen_okD(4) [OF t1] by (simp add: t2_def term_ok_def damage_ok_def cursor_ok_def)
  have previous: "returns (if b then do { d \<leftarrow> damage_point (Viewport_Point (line_as_usize (line p)) (column p)) (t_damage t2);
      Some (t2\<lparr>t_damage := d\<rparr>) } else Some t2) (term_ok k)" if "on_screen k p" for b p
    using that t2 term_damage_line_ok [OF t2, of "line_as_usize (line p)" "column p" "column p"]
    by (auto simp: damage_point_def term_damage_line_def on_screen_def)
  have eq: "term_damage t = (if ds_full (t_damage t2) then Some (Full_Damage, t2)
     else do {
       t \<leftarrow> (if ds_last_cursor (t_damage t2) \<noteq> ds_last_cursor (t_damage t1)
            then do { d \<leftarrow> damage_point (Viewport_Point (line_as_usize (line (ds_last_cursor (t_damage t1)))) (column (ds_last_cursor (t_damage t1)))) (t_damage t2);
              Some (t2\<lparr>t_damage := d\<rparr>) } else Some t2);
       t \<leftarrow> damage_cursor t;
       Some (Partial_Damage (damage_iterator_new (ds_lines (t_damage t)) (g_display_offset (t_grid t))), t) })"
    unfolding term_damage_def t2_def t1_def Let_def ..
  show ?thesis
    unfolding eq by (intro returns_ifI bind_step [OF previous [OF last]] bind_step [OF damage_cursor_ok]) (use t2 in auto)
qed

lemma host_settings_ok:
  assumes t: "term_ok k t"
  shows "term_ok k (set_color_scheme d t)" "term_ok k (set_default_cursor_style st t)" "term_ok k (reset_cursor_style_override t)"
    "term_ok k (reset_dynamic_colors t)" "term_ok k (reset_damage t)"
proof -
  show "term_ok k (set_color_scheme d t)" "term_ok k (set_default_cursor_style st t)" "term_ok k (reset_cursor_style_override t)"
    using t by (simp_all add: set_color_scheme_def report_color_scheme_def set_default_cursor_style_def reset_cursor_style_override_def)
  have "term_ok k (t\<lparr>t_colors := replicate COLOR_COUNT None\<rparr>)" using t by (simp add: term_ok_def)
  then show "term_ok k (reset_dynamic_colors t)" by (simp add: reset_dynamic_colors_def)
  have "term_ok k (t\<lparr>t_damage := damage_reset (sh_columns k) (t_damage t)\<rparr>)"
    using t damage_reset_ok [OF term_okD(9) [OF t]] by (simp add: term_ok_def damage_reset_def)
  then show "term_ok k (reset_damage t)" using screen_okD(2) [OF t] by (simp add: reset_damage_def)
qed

text \<open>
  What the window may ask: a scroll distance that does not overflow and a realignment to a
  line of the screen.
\<close>

definition host_ok :: "host_call \<Rightarrow> trm \<Rightarrow> bool" where
  "host_ok h t = (case h of
     Scroll_Display (Delta d) \<Rightarrow> i32_add (as_i32 (int (g_display_offset (t_grid t)))) d \<noteq> None
   | Conpty_Realign n \<Rightarrow> n < t_lines t
   | _ \<Rightarrow> True)"

lemma handle_host_ok:
  assumes t: "term_ok k t" and h: "host_ok h t"
  shows "returns (handle_host h t) (term_ok k)"
proof (cases h)
  case (Scroll_Display s)
  then show ?thesis using scroll_display_ok [OF t, of s] h by (cases s) (auto simp: host_ok_def)
next
  case Take_Damage
  then show ?thesis using term_damage_ok [OF t] by (auto simp: returns_def)
next
  case (Conpty_Realign n)
  then show ?thesis using conpty_realign_ok [OF t] h screen_okD(3) [OF t] by (simp add: host_ok_def)
qed (use t in \<open>auto intro: toggle_vi_mode_ok set_options_ok host_settings_ok status_handlers_ok\<close>)

section \<open>A fresh terminal\<close>

lemma new_for_terminal_ok:
  assumes "1 \<le> lines" "1 \<le> cols"
  shows "\<exists>g. new_for_terminal lines cols h = Some g \<and> grid_ok strict g \<and> frame g = (cols, lines, default_cursor, default_cursor, h)"
proof -
  have "row_new cols = Some (blank_row cols (Named Background))" using assms(2) by (simp add: panic_free)
  then show ?thesis
    using assms
    by (auto simp: new_for_terminal_def grid_new_def storage_with_capacity_def frame_def grid_ok_def storage_ok_def
        grid_dims_def history_size_def list_all_iff)
qed

definition sized :: "nat \<Rightarrow> nat \<Rightarrow> nat \<Rightarrow> shape" where
  "sized cols lines epochs = \<lparr>sh_strict = True, sh_columns = cols, sh_lines = lines, sh_epoch = epochs\<rparr>"

lemma next_epoch_sized: "next_epoch (sized c l n) = sized c l (Suc n)"
  by (simp add: next_epoch_def sized_def)

lemma term_new_ok:
  assumes "2 \<le> cols" "1 \<le> lines"
  shows "returns (term_new cfg cols lines) (term_ok (sized cols lines 0))"
proof -
  let ?k = "sized cols lines 0"
  have screen: "\<exists>g. new_for_terminal lines cols h = Some g \<and> screen_ok ?k (set_reflow_on_grow True g) \<and> g_max_scroll_limit g = h \<and>
      g_columns g = cols \<and> g_lines g = lines" for h
    using new_for_terminal_ok [of lines cols h True] assms default_cursor_ok [of ?k]
    by (auto simp: screen_ok_def set_reflow_on_grow_def frame_def sized_def)
  obtain g where g: "new_for_terminal lines cols (scrolling_history cfg) = Some g" "screen_ok ?k (set_reflow_on_grow True g)"
      "g_columns g = cols" "g_lines g = lines"
    using screen by blast
  obtain h where h: "new_for_terminal lines cols 0 = Some h" "screen_ok ?k (set_reflow_on_grow True h)" "g_max_scroll_limit h = 0"
    using screen by blast
  have "\<not> bit default_mode 12" by (simp add: default_mode_def bit_or_iff)
  moreover have "on_screen \<lparr>sh_strict = True, sh_columns = cols, sh_lines = lines, sh_epoch = 0\<rparr> (ds_last_cursor (damage_new cols lines))"
    using assms by (simp add: damage_new_def on_screen_def)
  ultimately show ?thesis
    using g h assms
    by (simp add: term_new_def term_ok_def alternate_def alt_screen_bit region_ok_def sized_def set_reflow_on_grow_def damage_new_ok
        default_records_def records_ok_def default_reading_def default_redraw_anchor_def)
qed

section \<open>Reachable terminals\<close>

text \<open>
  A terminal as a guarded machine: the program's escape sequences, the window's calls and new sizes
  in any order. The window never gets smaller than two columns and one line (\<open>MIN_COLUMNS\<close> and
  \<open>MIN_SCREEN_LINES\<close>).
\<close>

datatype input_event = Program handler_call | Window host_call | Resize nat nat

primrec term_step :: "environment \<Rightarrow> input_event \<Rightarrow> trm \<Rightarrow> trm option" where
  "term_step env (Program c) t = handle env c t"
| "term_step env (Window h) t = handle_host h t"
| "term_step env (Resize cols lines) t = term_resize cols lines t"

primrec term_guard :: "environment \<Rightarrow> input_event \<Rightarrow> trm \<Rightarrow> bool" where
  "term_guard env (Program c) t = call_ok env c"
| "term_guard env (Window h) t = host_ok h t"
| "term_guard env (Resize cols lines) t = (2 \<le> cols \<and> 1 \<le> lines)"

definition started :: "config \<Rightarrow> nat \<Rightarrow> nat \<Rightarrow> trm \<Rightarrow> bool" where
  "started cfg cols lines t \<longleftrightarrow> 2 \<le> cols \<and> 1 \<le> lines \<and> term_new cfg cols lines = Some t"

abbreviation reachable :: "environment \<Rightarrow> config \<Rightarrow> nat \<Rightarrow> nat \<Rightarrow> nat \<Rightarrow> trm \<Rightarrow> bool" where
  "reachable env cfg cols lines \<equiv> reaches (term_step env) (term_guard env) (started cfg cols lines)"

lemma sized_simps [simp]: "sh_epoch (sized cols lines n) = n" "sh_lines (sized cols lines n) = lines" "sh_columns (sized cols lines n) = cols"
  by (simp_all add: sized_def)

text \<open>
  The invariant at some size. A resized grid may keep rows whose count of occupied cells is too
  large, so the count is only bounded, not exact.
\<close>

definition loose :: "nat \<Rightarrow> nat \<Rightarrow> nat \<Rightarrow> shape" where
  "loose cols lines n = \<lparr>sh_strict = False, sh_columns = cols, sh_lines = lines, sh_epoch = n\<rparr>"

definition live :: "nat \<Rightarrow> trm \<Rightarrow> bool" where
  "live n t \<longleftrightarrow> (\<exists>cols lines. term_ok (loose cols lines n) t)"

lemma loose_simps [simp]:
  "(sized cols lines n)\<lparr>sh_strict := False\<rparr> = loose cols lines n" "next_epoch (loose cols lines n) = loose cols lines (Suc n)"
  "resized_shape cols lines (loose c l n) = loose cols lines (Suc n)" "sh_epoch (loose cols lines n) = n"
  by (simp_all add: sized_def loose_def next_epoch_def resized_shape_def)

lemma live_cursor:
  assumes "live n t"
  shows "0 \<le> line (t_point t) \<and> line (t_point t) < int (t_lines t) \<and> column (t_point t) < t_columns t"
proof -
  obtain cols lines where "term_ok (loose cols lines n) t" using assms unfolding live_def by blast
  then show ?thesis using screen_okD by metis
qed

interpretation terminal: machine "term_step env" "term_guard env" "started cfg cols lines" live "\<lambda>n. n < 2 ^ 64"
  for env cfg cols lines
proof
  show "live 0 t" if "started cfg cols lines t" for t
    using that term_new_ok [of cols lines cfg] term_ok_weaken [of "sized cols lines 0" t]
    by (auto simp: started_def live_def)
  show "returns (term_step env c t) (live (Suc n))"
    if i: "live n t" and g: "term_guard env c t" and n: "Suc n < 2 ^ 64" for n t c
  proof -
    obtain w h where t: "term_ok (loose w h n) t" using i unfolding live_def by blast
    have live: "term_ok (loose w' h' (Suc n)) t' \<Longrightarrow> live (Suc n) t'" for w' h' t' unfolding live_def by blast
    show ?thesis
    proof (cases c)
      case (Program x)
      have "returns (handle env x t) (term_ok (next_epoch (loose w h n)))"
        by (rule handle_ok [OF t]) (use g n Program in simp_all)
      then show ?thesis using live Program by (auto elim: returns_mono)
    next
      case (Window x)
      have "returns (handle_host x t) (term_ok (loose w h n))" by (rule handle_host_ok [OF t]) (use g Window in simp)
      then show ?thesis using next_epoch_ok [of "loose w h n"] live Window by (auto elim!: returns_mono)
    next
      case (Resize cols lines)
      have "returns (term_resize cols lines t) (term_ok (resized_shape cols lines (loose w h n)))"
        by (rule term_resize_ok [OF t]) (use g n Resize in simp_all)
      then show ?thesis using live Resize by (auto elim: returns_mono)
    qed
  qed
qed simp

section \<open>Properties\<close>

text \<open>
  C2: the invariant of a terminal is kept by everything that can happen to it. On a terminal whose
  screens are well-formed and of equal size, with cursors, scroll region, tab stops, colours and
  damage inside that size, an alternate screen without history and bounded stacks, every
  escape-sequence handler that \<open>call_ok\<close> allows and every call of the window that \<open>host_ok\<close> allows
  returns a terminal of the same kind: colour indices are in the palette, regions count from one,
  input extends no emoji cluster, a scroll distance does not overflow, and a realignment aims at
  a line of the screen.
\<close>

theorem operations_keep_terminal:
  assumes "term_ok k t" "sh_epoch k + 1 < 2 ^ 64"
  shows "(\<forall>c. call_ok env c \<longrightarrow> (\<exists>t'. handle env c t = Some t' \<and> term_ok (next_epoch k) t')) \<and>
    (\<forall>h. host_ok h t \<longrightarrow> (\<exists>t'. handle_host h t = Some t' \<and> term_ok k t'))"
  using handle_ok [OF assms(1) _ assms(2)] handle_host_ok [OF assms(1)] by (auto simp: returns_def)

text \<open>Values for the witnesses.\<close>

definition sample_unicode :: unicode where
  "sample_unicode = \<lparr>u_width = (\<lambda>c. if c < 32 then None else if c < 0x1100 then Some 1 else Some 2),
     u_is_emoji = (\<lambda>c. c > 0xffff), u_str_width = length, u_charset_map = (\<lambda>_ c. c), u_boundary = (\<lambda>_. Next_Chunk)\<rparr>"

definition sample_env :: environment where
  "sample_env = \<lparr>env_unicode = sample_unicode, env_version = ''0.1.0'', env_base64_text = (\<lambda>_. None),
     env_raw_mode = (\<lambda>_. 0), env_raw_private_mode = (\<lambda>_. 0), env_keyboard_bits = card\<rparr>"

definition sample_config :: config where
  "sample_config = \<lparr>scrolling_history = 4, default_cursor_style = \<lparr>cs_shape = Shape_Block, cs_blinking = False\<rparr>,
     vi_mode_cursor_style = None, semantic_escape_chars = [], kitty_keyboard = True, cfg_osc52 = CopyPaste,
     suppress_bringup_da1 = False, conpty_resize = False\<rparr>"

theorem operations_keep_terminal_witness:
  "\<exists>t t' t''. term_new sample_config 5 3 = Some t \<and> handle sample_env (Edit (H_Input 0x4e2d)) t = Some t' \<and>
    handle_host (Scroll_Display ScrollTop) t' = Some t'' \<and> term_ok (sized 5 3 1) t''"
proof -
  obtain t where t: "term_new sample_config 5 3 = Some t" "term_ok (sized 5 3 0) t"
    by (rule returnsE [OF term_new_ok [of 5 3 sample_config]]) auto
  have "call_ok sample_env (Edit (H_Input 0x4e2d))"
    by (simp add: call_ok_def plain_input_def sample_env_def sample_unicode_def)
  then obtain t' where t': "handle sample_env (Edit (H_Input 0x4e2d)) t = Some t'" "term_ok (next_epoch (sized 5 3 0)) t'"
    using operations_keep_terminal [OF t(2), of sample_env] by auto
  have ok: "term_ok (sized 5 3 1) t'" using t'(2) by (simp add: next_epoch_sized)
  have "host_ok (Scroll_Display ScrollTop) t'" by (simp add: host_ok_def)
  then obtain t'' where "handle_host (Scroll_Display ScrollTop) t' = Some t''" "term_ok (sized 5 3 1) t''"
    using conjunct2 [OF operations_keep_terminal [OF ok, of sample_env]] by (auto simp del: handle_host.simps)
  with t(1) t'(1) show ?thesis by blast
qed

text \<open>
  C1: a terminal never panics. From a fresh terminal of at least two columns and one line, after any
  sequence of escape sequences, calls of the window and changes of its size, every further sequence
  of them returns and leaves a terminal with the cursor on the screen; a run never gets stuck.
\<close>

theorem terminal_never_panics:
  assumes "reachable env cfg cols lines n t" "allowed (term_step env) (term_guard env) cs t" "n + length cs < 2 ^ 64"
  shows "\<exists>t'. run (term_step env) cs t = Some t' \<and> reachable env cfg cols lines (n + length cs) t' \<and>
    0 \<le> line (t_point t') \<and> line (t_point t') < int (t_lines t') \<and> column (t_point t') < t_columns t'"
proof -
  obtain t' where t': "run (term_step env) cs t = Some t'" "reachable env cfg cols lines (n + length cs) t'"
    by (rule returnsE [OF terminal.run_returns [OF assms]])
  show ?thesis using t' live_cursor [OF terminal.reaches_invariant [OF t'(2) assms(3)]] by blast
qed

theorem terminal_never_panics_witness:
  "\<exists>t t'. term_new sample_config 5 3 = Some t \<and>
    run (term_step sample_env) [Program (Movement H_Linefeed), Window Toggle_Vi_Mode, Resize 4 2,
      Program (Mode_Change (H_Set_Private_Mode (Named_Private PM_SwapScreenAndSetRestoreCursor)))] t = Some t' \<and>
    line (t_point t') < int (t_lines t') \<and> column (t_point t') < t_columns t'"
proof -
  obtain t where t: "term_new sample_config 5 3 = Some t" by (rule returnsE [OF term_new_ok [of 5 3 sample_config]]) auto
  then have "reachable sample_env sample_config 5 3 0 t" by (simp add: started_def)
  moreover have "allowed (term_step sample_env) (term_guard sample_env) [Program (Movement H_Linefeed), Window Toggle_Vi_Mode, Resize 4 2,
      Program (Mode_Change (H_Set_Private_Mode (Named_Private PM_SwapScreenAndSetRestoreCursor)))] t"
    by (simp add: call_ok_def host_ok_def del: handle.simps)
  ultimately show ?thesis using terminal_never_panics t by fastforce
qed

text \<open>
  C29: realigning to a line below the screen breaks the terminal. \<open>conpty_realign\<close> compares only the
  distance with the height of the screen, so a target at or below the bottom that is close to
  the cursor is accepted: the cursor leaves the screen, and the next character panics.
\<close>

theorem realign_leaves_screen:
  assumes t: "term_ok k t" and m: "\<not> has_mode t ALT_SCREEN"
    and n: "sh_lines k \<le> n" "int n - line (t_point t) < int (sh_lines k)"
  shows "\<exists>t'. conpty_realign n t = Some t' \<and> line (t_point t') = int n \<and> write_at_cursor u c t' = None"
proof -
  obtain t' where t': "conpty_realign n t = Some t'" "line (t_point t') = int n" "t_lines t' = t_lines t"
    "grid_ok (sh_strict k) (t_grid t')"
    by (rule returnsE [OF conpty_realign_line [OF t m, of n]]) (use n screen_okD(6,7) [OF t] in auto)
  have "\<not> valid_line (g_raw (t_grid t')) (int n)"
    using valid_line_grid [OF t'(4)] t'(3) screen_okD(3) [OF t] n(1) by simp
  then have "storage_index_mut f (int n) (g_raw (t_grid t')) = None" for f
    by (auto simp: storage_index_mut_def compute_index_def valid_line_def top_line_def usize_sub_def assert_that_def)
  then have "with_grid (cursor_cell f) t' = None" for f
    using t'(2) by (simp add: with_grid_def cursor_cell_def grid_index_mut_def grid_index_line_mut_def)
  then show ?thesis
    using t' by (cases "charsets_index (cur_charsets (t_cursor t')) (t_active_charset t')") (auto simp: write_at_cursor_def)
qed

theorem realign_leaves_screen_witness:
  "\<exists>t t'. term_ok (sized 5 3 0) t \<and> conpty_realign 3 t = Some t' \<and> line (t_point t') = 3 \<and> write_at_cursor sample_unicode 65 t' = None"
proof -
  obtain t0 where t0: "term_new sample_config 5 3 = Some t0" "term_ok (sized 5 3 0) t0"
    by (rule returnsE [OF term_new_ok [of 5 3 sample_config]]) auto
  let ?t = "set_line 1 t0"
  have t: "term_ok (sized 5 3 0) ?t" using term_ok_set_line [OF t0(2), of 1] by simp
  have "t_mode t0 = default_mode"
    using t0(1) by (auto simp: term_new_def bind_eq_Some_conv Let_def)
  then have "\<not> has_mode ?t ALT_SCREEN" by (simp add: alt_screen_bit default_mode_def bit_or_iff)
  from realign_leaves_screen [OF t this, of 3 sample_unicode 65] t show ?thesis by auto
qed

end
