(* ===== verification/Term_Spec.thy ===== *)
theory Term_Spec
  imports Terminal
begin

text \<open>
  What individual handlers do: the cells after inserting and deleting characters, the keyboard
  modes and their stack, the alternate screen, and the erasure above the cursor.
\<close>

section \<open>Keyboard modes\<close>

primrec keyboard_bit :: "keyboard_flag \<Rightarrow> nat" where
  "keyboard_bit K_Disambiguate = 18"
| "keyboard_bit K_Event_Types = 19"
| "keyboard_bit K_Alternate_Keys = 20"
| "keyboard_bit K_All_Keys = 21"
| "keyboard_bit K_Associated_Text = 22"

lemma single_bit:
  assumes "f = (2 ^ i :: term_mode)" "i < 32"
  shows "bit f n \<longleftrightarrow> n = i"
  using assms by (auto simp: bit_exp_iff)

lemma contains_bit:
  assumes "f = (2 ^ i :: term_mode)" "i < 32"
  shows "mode_contains m f \<longleftrightarrow> bit m i"
proof -
  have "mode_contains m f \<longleftrightarrow> (\<forall>n < 32. bit (m AND f) n = bit f n)"
    by (simp add: mode_contains_def bit_eq_iff [of "m AND f"])
  then show ?thesis using assms(2) by (auto simp: bit_and_iff single_bit [OF assms])
qed

lemma numeral_bits:
  "bit (0x40000 :: term_mode) n \<longleftrightarrow> n = 18" "bit (0x80000 :: term_mode) n \<longleftrightarrow> n = 19"
  "bit (0x100000 :: term_mode) n \<longleftrightarrow> n = 20" "bit (0x200000 :: term_mode) n \<longleftrightarrow> n = 21"
  "bit (0x400000 :: term_mode) n \<longleftrightarrow> n = 22"
  by (rule single_bit; simp)+

lemma keyboard_contains:
  "mode_contains m 0x40000 \<longleftrightarrow> bit m 18" "mode_contains m 0x80000 \<longleftrightarrow> bit m 19"
  "mode_contains m 0x100000 \<longleftrightarrow> bit m 20" "mode_contains m 0x200000 \<longleftrightarrow> bit m 21"
  "mode_contains m 0x400000 \<longleftrightarrow> bit m 22"
  by (rule contains_bit; simp)+

lemma keyboard_flag_ex:
  "(\<exists>f. P f) \<longleftrightarrow> P K_Disambiguate \<or> P K_Event_Types \<or> P K_Alternate_Keys \<or> P K_All_Keys \<or> P K_Associated_Text"
  by (metis keyboard_flag.exhaust)

lemma keyboard_of_mode_bits: "keyboard_of_mode m = {f. bit m (keyboard_bit f)}"
proof -
  have "f \<in> keyboard_of_mode m \<longleftrightarrow> bit m (keyboard_bit f)" for f
    by (cases f) (simp_all add: keyboard_of_mode_def KEYBOARD_FLAGS_def keyboard_contains)
  then show ?thesis by blast
qed

lemma mode_of_keyboard_bits: "bit (mode_of_keyboard v) n \<longleftrightarrow> (\<exists>f. f \<in> v \<and> n = keyboard_bit f)"
  unfolding keyboard_flag_ex keyboard_bit.simps mode_of_keyboard_def KEYBOARD_FLAGS_def fold_simps comp_apply id_apply prod.case
    mode_insert_def mode_remove_def
  by (cases "n = 18"; cases "n = 19"; cases "n = 20"; cases "n = 21"; cases "n = 22")
    (simp_all only: bit_or_iff bit_and_iff bit_not_iff numeral_bits if_distrib [of "\<lambda>w. bit w n"] bit_0_eq bot_apply, simp_all)

lemma kitty_bits: "bit KITTY_KEYBOARD_PROTOCOL n \<longleftrightarrow> (\<exists>f. n = keyboard_bit f)"
  unfolding keyboard_flag_ex keyboard_bit.simps KITTY_KEYBOARD_PROTOCOL_def by (simp only: bit_or_iff numeral_bits)

lemma keyboard_bit_inject [simp]: "keyboard_bit f = keyboard_bit g \<longleftrightarrow> f = g"
  by (cases f; cases g) simp_all

lemma keyboard_roundtrip: "keyboard_of_mode (mode_of_keyboard v) = v"
  by (auto simp: keyboard_of_mode_bits mode_of_keyboard_bits)

lemma mode_roundtrip: "mode_of_keyboard (keyboard_of_mode m) = m AND KITTY_KEYBOARD_PROTOCOL"
  by (rule bit_eqI) (auto simp: mode_of_keyboard_bits keyboard_of_mode_bits bit_and_iff kitty_bits)

lemma replaced_mode:
  assumes "m = (x AND NOT KITTY_KEYBOARD_PROTOCOL) OR mode_of_keyboard v"
  shows "keyboard_of_mode m = v" "m AND NOT KITTY_KEYBOARD_PROTOCOL = x AND NOT KITTY_KEYBOARD_PROTOCOL"
    "v = keyboard_of_mode x \<Longrightarrow> m = x"
proof -
  show "keyboard_of_mode m = v"
    using assms by (auto simp: keyboard_of_mode_bits mode_of_keyboard_bits bit_or_iff bit_and_iff bit_not_iff kitty_bits)
  show "m AND NOT KITTY_KEYBOARD_PROTOCOL = x AND NOT KITTY_KEYBOARD_PROTOCOL"
    using assms by (intro bit_eqI) (auto simp: mode_of_keyboard_bits bit_or_iff bit_and_iff bit_not_iff kitty_bits)
  show "m = x" if "v = keyboard_of_mode x"
    using assms that by (intro bit_eqI)
      (auto simp: keyboard_of_mode_bits mode_of_keyboard_bits bit_or_iff bit_and_iff bit_not_iff kitty_bits)
qed

text \<open>
  The keyboard modes and their stack. Mode bits and keyboard modes convert into each other
  without loss. Pushing a mode onto a stack that is not full makes exactly that mode active and
  leaves all other mode bits alone; popping it again restores the stack and activates the mode
  below it, so that the terminal is the one before when that mode was active.
\<close>

lemma keyboard_stack_roundtrip:
  assumes kitty: "kitty_keyboard (t_config t)" and room: "length (t_keyboard_stack t) < KEYBOARD_MODE_STACK_MAX_DEPTH"
    and t1: "t1 = push_keyboard_mode v t" and t2: "t2 = pop_keyboard_modes 1 t1"
  shows "keyboard_of_mode (mode_of_keyboard v) = v \<and>
    mode_of_keyboard (keyboard_of_mode m) = m AND KITTY_KEYBOARD_PROTOCOL \<and>
    keyboard_of_mode (t_mode t1) = v \<and>
    t_mode t1 AND NOT KITTY_KEYBOARD_PROTOCOL = t_mode t AND NOT KITTY_KEYBOARD_PROTOCOL \<and>
    t_keyboard_stack t1 = t_keyboard_stack t @ [v] \<and> t_keyboard_stack t2 = t_keyboard_stack t \<and>
    keyboard_of_mode (t_mode t2) = last_keyboard_mode (t_keyboard_stack t) \<and>
    (last_keyboard_mode (t_keyboard_stack t) = keyboard_of_mode (t_mode t) \<longrightarrow> t2 = t)"
proof -
  let ?st = "t_keyboard_stack t" and ?K = KITTY_KEYBOARD_PROTOCOL
  have p1: "t1 = t\<lparr>t_keyboard_stack := ?st @ [v], t_mode := (t_mode t AND NOT ?K) OR mode_of_keyboard v\<rparr>"
    using kitty room by (simp add: t1 push_keyboard_mode_def set_keyboard_mode_def Let_def)
  note m1 = replaced_mode [of "t_mode t1" "t_mode t" v]
  have p2: "t2 = t1\<lparr>t_keyboard_stack := ?st, t_mode := (t_mode t1 AND NOT ?K) OR mode_of_keyboard (last_keyboard_mode ?st)\<rparr>"
    using kitty by (simp add: t2 p1 pop_keyboard_modes_def set_keyboard_mode_def Let_def)
  have m2: "t_mode t2 = (t_mode t AND NOT ?K) OR mode_of_keyboard (last_keyboard_mode ?st)"
    using p2 m1(2) p1 by simp
  note r2 = replaced_mode [OF m2]
  have "t2 = t" if "last_keyboard_mode ?st = keyboard_of_mode (t_mode t)"
  proof -
    have "t2 = t\<lparr>t_keyboard_stack := ?st, t_mode := t_mode t2\<rparr>" using p1 p2 by simp
    then show ?thesis using r2(3) [OF that] by simp
  qed
  then show ?thesis
    using m1(1,2) r2(1) p1 p2 keyboard_roundtrip mode_roundtrip by auto
qed

theorem keyboard_stack_roundtrip_witness:
  "\<exists>t. term_new sample_config 5 3 = Some t \<and>
    keyboard_of_mode (t_mode (push_keyboard_mode {K_Disambiguate, K_All_Keys} t)) = {K_Disambiguate, K_All_Keys} \<and>
    t_keyboard_stack (pop_keyboard_modes 1 (push_keyboard_mode {K_Disambiguate, K_All_Keys} t)) = []"
proof -
  obtain t where t: "term_new sample_config 5 3 = Some t" by (rule returnsE [OF term_new_ok [of 5 3 sample_config]]) auto
  have c: "t_config t = sample_config" "t_keyboard_stack t = []"
    using t by (auto simp: term_new_def bind_eq_Some_conv Let_def)
  have "kitty_keyboard (t_config t)" "length (t_keyboard_stack t) < KEYBOARD_MODE_STACK_MAX_DEPTH"
    by (simp_all add: c sample_config_def KEYBOARD_MODE_STACK_MAX_DEPTH_def)
  from keyboard_stack_roundtrip [OF this refl refl, of "{K_Disambiguate, K_All_Keys}"] t c show ?thesis by auto
qed

section \<open>Inserting and deleting characters\<close>

text \<open>Swapping from the right end on moves a stretch of cells to the right.\<close>

lemma shift_right_cells:
  assumes "a \<le> b" "b + n \<le> length cs"
  shows "\<exists>ds. for_each (\<lambda>i. swap_cells (b + i) (a + i)) (rev [0..<n]) cs = Some ds \<and> length ds = length cs \<and>
    (\<forall>i < a. ds ! i = cs ! i) \<and> (\<forall>i < n. ds ! (b + i) = cs ! (a + i)) \<and> (\<forall>i. b + n \<le> i \<longrightarrow> i < length cs \<longrightarrow> ds ! i = cs ! i)"
proof -
  let ?I = "\<lambda>k ds. length ds = length cs \<and> (\<forall>i < a + (n - k). ds ! i = cs ! i) \<and>
    (\<forall>i < n. n - k \<le> i \<longrightarrow> ds ! (b + i) = cs ! (a + i)) \<and> (\<forall>i. b + n \<le> i \<longrightarrow> i < length cs \<longrightarrow> ds ! i = cs ! i)"
  have "\<exists>ds. for_each (\<lambda>i. swap_cells (b + i) (a + i)) (rev [0..<n]) cs = Some ds \<and> ?I (length (rev [0..<n])) ds"
  proof (rule for_each_rule)
    fix k ds assume k: "k < length (rev [0..<n])" and I: "?I k ds"
    obtain j where n: "n = Suc (j + k)" using k by (auto simp: less_iff_Suc_add add.commute)
    have j: "rev [0..<n] ! k = j" using k rev_nth [of k "[0..<n]"] by (simp add: n del: upt_Suc)
    have lt: "a + j < length ds" "b + j < length ds" "b + j < length cs" using I assms n by auto
    have "swap_cells (b + j) (a + j) ds = Some (ds[b + j := ds ! (a + j), a + j := ds ! (b + j)])"
      using lt by (simp add: swap_cells_def vec_get_def)
    moreover have "?I (Suc k) (ds[b + j := ds ! (a + j), a + j := ds ! (b + j)])"
      using I lt assms by (auto simp: nth_list_update n)
    ultimately show "\<exists>s'. swap_cells (b + rev [0..<n] ! k) (a + rev [0..<n] ! k) ds = Some s' \<and> ?I (Suc k) s'"
      unfolding j by blast
  qed simp
  then show ?thesis by auto
qed

text \<open>Swapping from the left end on moves a stretch of cells to the left.\<close>

lemma shift_left_cells:
  assumes "a \<le> b" "b + n \<le> length cs"
  shows "\<exists>ds. for_each (\<lambda>i. swap_cells (a + i) (b + i)) [0..<n] cs = Some ds \<and> length ds = length cs \<and>
    (\<forall>i < a. ds ! i = cs ! i) \<and> (\<forall>i < n. ds ! (a + i) = cs ! (b + i))"
proof -
  let ?I = "\<lambda>k ds. length ds = length cs \<and> (\<forall>i < a. ds ! i = cs ! i) \<and> (\<forall>i < k. ds ! (a + i) = cs ! (b + i)) \<and>
    (\<forall>i. b + k \<le> i \<longrightarrow> i < length cs \<longrightarrow> ds ! i = cs ! i)"
  have "\<exists>ds. for_each (\<lambda>i. swap_cells (a + i) (b + i)) [0..<n] cs = Some ds \<and> ?I (length [0..<n]) ds"
  proof (rule for_each_rule)
    fix k ds assume k: "k < length [0..<n]" and I: "?I k ds"
    have lt: "a + k < length ds" "b + k < length ds" "b + k < length cs" "[0..<n] ! k = k" using I k assms by auto
    have "swap_cells (a + k) (b + k) ds = Some (ds[a + k := ds ! (b + k), b + k := ds ! (a + k)])"
      using lt by (simp add: swap_cells_def vec_get_def)
    moreover have "?I (Suc k) (ds[a + k := ds ! (b + k), b + k := ds ! (a + k)])"
      using I lt assms by (auto simp: nth_list_update less_Suc_eq)
    ultimately show "\<exists>s'. swap_cells (a + [0..<n] ! k) (b + [0..<n] ! k) ds = Some s' \<and> ?I (Suc k) s'"
      unfolding lt(4) by blast
  qed simp
  then show ?thesis by auto
qed

text \<open>Only the row changes, and everything else of the terminal stays.\<close>

lemma row_effect:
  assumes t: "term_ok k t" and l: "0 \<le> l" "l < int (sh_lines k)"
    and f: "f (row_at (t_grid t) l) = Some r" "row_std (sh_strict k) (sh_columns k) r" "row_clean (row_at (t_grid t) l) \<longrightarrow> row_clean r"
  shows "\<exists>raw. with_grid (grid_index_line_mut f l) t = Some (t\<lparr>t_grid := (t_grid t)\<lparr>g_raw := raw\<rparr>\<rparr>) \<and> line_at raw l = r \<and>
    (\<forall>m. 0 \<le> m \<and> m < int (sh_lines k) \<and> m \<noteq> l \<longrightarrow> line_at raw m = row_at (t_grid t) m)"
proof -
  let ?g = "t_grid t"
  have ok: "grid_ok (sh_strict k) ?g" and size: "t_columns t = sh_columns k" "t_lines t = sh_lines k"
    using screen_okD [OF t] by auto
  have st: "storage_ok (sh_strict k) (sh_columns k) (g_raw ?g)" using ok size by (simp add: grid_ok_def)
  have v: "valid_line (g_raw ?g) m" if "0 \<le> m" "m < int (sh_lines k)" for m
    using valid_line_grid [OF ok, of m] size that by simp
  have "row_good (sh_strict k) (sh_columns k) (g_raw ?g) r"
    using line_at_good [OF st v [OF l]] f by (auto simp: row_good_def)
  then obtain raw where "storage_index_mut f l (g_raw ?g) = Some raw"
    "\<And>m. valid_line (g_raw ?g) m \<Longrightarrow> line_at raw m = (if m = l then r else row_at ?g m)"
    using storage_index_mut_line [of "sh_strict k" "sh_columns k" "g_raw ?g" l f r] st v [OF l] f(1) by blast
  then show ?thesis using v l by (auto simp: with_grid_def grid_index_line_mut_def)
qed

lemma row_at_std:
  assumes "term_ok k t" "0 \<le> l" "l < int (sh_lines k)"
  shows "row_std (sh_strict k) (sh_columns k) (row_at (t_grid t) l)" "length (row_inner (row_at (t_grid t) l)) = sh_columns k"
    "grid_index_line l (t_grid t) = Some (row_at (t_grid t) l)"
proof -
  have ok: "grid_ok (sh_strict k) (t_grid t)" "t_columns t = sh_columns k" "- int (grid_history (t_grid t)) \<le> l" "l < int (t_lines t)"
    using screen_okD [OF assms(1)] assms(2,3) by auto
  have "storage_ok (sh_strict k) (sh_columns k) (g_raw (t_grid t))" using ok by (simp add: grid_ok_def)
  then show "row_std (sh_strict k) (sh_columns k) (row_at (t_grid t) l)"
    using line_at_good valid_line_grid [OF ok(1)] ok by (auto simp: row_good_def)
  show "length (row_inner (row_at (t_grid t) l)) = sh_columns k" "grid_index_line l (t_grid t) = Some (row_at (t_grid t) l)"
    using grid_index_line_Some [OF ok(1,3,4)] ok(2) by auto
qed

lemma with_cells_effect:
  assumes t: "term_ok k t" and l: "0 \<le> l" "l < int (sh_lines k)"
    and f: "f (row_inner (row_at (t_grid t) l)) = Some cs" "moves (sh_columns k) (row_inner (row_at (t_grid t) l)) cs"
  shows "\<exists>raw. with_cells f l t = Some (t\<lparr>t_grid := (t_grid t)\<lparr>g_raw := raw\<rparr>\<rparr>) \<and> row_inner (line_at raw l) = cs \<and>
    (\<forall>m. 0 \<le> m \<and> m < int (sh_lines k) \<and> m \<noteq> l \<longrightarrow> line_at raw m = row_at (t_grid t) m)"
proof -
  let ?r = "\<lparr>row_inner = cs, row_occ = length cs\<rparr>"
  note row = row_at_std [OF t l]
  have "row_range_full_mut (\<lambda>_. cs) (row_at (t_grid t) l) = Some ?r"
    using row(2) f(2) by (simp add: row_range_full_mut_def row_slice_mut_def row_len_def moves_def panic_free)
  moreover have "row_std (sh_strict k) (sh_columns k) ?r" "row_clean (row_at (t_grid t) l) \<longrightarrow> row_clean ?r"
    using f(2) by (auto simp: row_std_def row_wf_def row_ok_full row_clean_def list_all_iff moves_def)
  ultimately show ?thesis
    using row_effect [OF t l, of "row_range_full_mut (\<lambda>_. cs)" ?r] row(3) f(1) by (auto simp: with_cells_def)
qed

text \<open>The cells of the cursor's row after inserting and deleting, as a function of the cells before.\<close>

definition inserted :: "nat \<Rightarrow> nat \<Rightarrow> cell \<Rightarrow> cell list \<Rightarrow> cell list" where
  "inserted col n blank cs = take (length cs) (take col cs @ replicate n blank @ drop col cs)"

definition deleted :: "nat \<Rightarrow> nat \<Rightarrow> cell \<Rightarrow> cell list \<Rightarrow> cell list" where
  "deleted col n blank cs = take col cs @ drop (col + n) cs @ replicate (min n (length cs - col)) blank"

lemma inserted_cells:
  assumes "col < length cs" "length cs = cols"
  shows "(do {
      cs \<leftarrow> for_each (\<lambda>i. swap_cells (col + min n (cols - col) + i) (col + i)) (rev [0..<cols - (col + min n (cols - col))]) cs;
      fill_cells col (col + min n (cols - col)) blank cs }) = Some (inserted col n blank cs)"
proof -
  let ?n = "min n (cols - col)"
  obtain ds where ds: "for_each (\<lambda>i. swap_cells (col + ?n + i) (col + i)) (rev [0..<cols - (col + ?n)]) cs = Some ds"
    "length ds = length cs" "\<And>i. i < col \<Longrightarrow> ds ! i = cs ! i" "\<And>i. i < cols - (col + ?n) \<Longrightarrow> ds ! (col + ?n + i) = cs ! (col + i)"
    using shift_right_cells [of col "col + ?n" "cols - (col + ?n)" cs] assms by auto
  have "take col ds = take col cs" using ds(2,3) assms by (intro nth_equalityI) auto
  moreover have "drop (col + ?n) ds = take (cols - col - ?n) (drop col cs)"
    using ds(2,4) assms by (intro nth_equalityI) (auto simp: add.assoc)
  ultimately have "take col ds @ replicate ?n blank @ drop (col + ?n) ds = inserted col n blank cs"
    using assms by (simp add: inserted_def min_def)
  then show ?thesis using ds assms by (simp add: fill_cells_def panic_free)
qed

lemma deleted_cells:
  assumes "col < length cs" "length cs = cols" "n \<le> cols"
  shows "(do {
      cs \<leftarrow> for_each (\<lambda>i. swap_cells (col + i) (min (col + n) (cols - 1) + i)) [0..<cols - min (col + n) (cols - 1)] cs;
      fill_cells (cols - n) (length cs) blank cs }) =
    Some (if col + n \<le> cols then deleted col n blank cs else take (cols - n) cs @ replicate n blank)"
proof -
  let ?e = "min (col + n) (cols - 1)"
  have e: "col \<le> ?e" "?e + (cols - ?e) \<le> length cs" using assms by auto
  obtain ds where ds: "for_each (\<lambda>i. swap_cells (col + i) (?e + i)) [0..<cols - ?e] cs = Some ds"
    "length ds = length cs" "\<And>i. i < col \<Longrightarrow> ds ! i = cs ! i" "\<And>i. i < cols - ?e \<Longrightarrow> ds ! (col + i) = cs ! (?e + i)"
    using shift_left_cells [OF e] by blast
  have "take (cols - n) ds @ replicate n blank = (if col + n \<le> cols then deleted col n blank cs else take (cols - n) cs @ replicate n blank)"
  proof (cases "col + n < cols")
    case True
    have "take (cols - n) ds = take col cs @ drop (col + n) cs"
    proof (rule nth_equalityI)
      fix i assume "i < length (take (cols - n) ds)"
      then show "take (cols - n) ds ! i = (take col cs @ drop (col + n) cs) ! i"
        using ds(2,3) ds(4) [of "i - col"] assms True by (cases "i < col") (auto simp: nth_append)
    qed (use ds(2) assms True in auto)
    then show ?thesis using True assms by (simp add: deleted_def min_def)
  next
    case False
    have "take (cols - n) ds = take (cols - n) cs" using ds(2,3) assms False by (intro nth_equalityI) auto
    moreover have "cols - n = col" if "col + n \<le> cols" using that False by simp
    ultimately show ?thesis using False assms by (auto simp: deleted_def min_def)
  qed
  then show ?thesis using ds assms by (simp add: fill_cells_def panic_free)
qed

lemma edited_moves:
  assumes "length cs = n" "\<not> transient_cell blank"
  shows "moves n cs (inserted col m blank cs)" "col \<le> n \<Longrightarrow> moves n cs (deleted col m blank cs)"
    "m \<le> n \<Longrightarrow> moves n cs (take (n - m) cs @ replicate m blank)"
  using assms by (auto simp: moves_def inserted_def deleted_def dest: in_set_takeD in_set_dropD)

lemma edit_row_effect:
  assumes t: "term_ok k t"
    and f: "f (row_inner (row_at (t_grid t) (line (t_point t)))) = Some cs" "moves (sh_columns k) (row_inner (row_at (t_grid t) (line (t_point t)))) cs"
  shows "\<exists>t'. (do { t' \<leftarrow> term_damage_line (line_as_usize (line (t_point t))) 0 lc (reset_input_cluster t); with_cells f (line (t_point t)) t' }) = Some t' \<and>
    row_inner (row_at (t_grid t') (line (t_point t))) = cs \<and>
    (\<forall>m. 0 \<le> m \<and> m < int (sh_lines k) \<and> m \<noteq> line (t_point t) \<longrightarrow> row_at (t_grid t') m = row_at (t_grid t) m)"
proof -
  note s = term_ok_reset_input [OF t]
  obtain d where d: "damage_line (line_as_usize (line (t_point t))) 0 lc (t_damage (reset_input_cluster t)) = Some d"
    "term_ok k ((reset_input_cluster t)\<lparr>t_damage := d\<rparr>)"
    using damage_line_calm [OF s cursor_line_less [OF t], of 0 lc]
    by (auto simp: term_damage_line_def calm_def returns_bind elim!: returnsE)
  let ?t = "(reset_input_cluster t)\<lparr>t_damage := d\<rparr>"
  obtain raw where raw: "with_cells f (line (t_point t)) ?t = Some (?t\<lparr>t_grid := (t_grid ?t)\<lparr>g_raw := raw\<rparr>\<rparr>)"
    "row_inner (line_at raw (line (t_point t))) = cs"
    "\<And>m. 0 \<le> m \<Longrightarrow> m < int (sh_lines k) \<Longrightarrow> m \<noteq> line (t_point t) \<Longrightarrow> line_at raw m = row_at (t_grid ?t) m"
    using with_cells_effect [OF d(2), of "line (t_point t)" f cs] f screen_okD(6,7) [OF t] by auto
  then show ?thesis using d(1) raw(3) by (auto simp: term_damage_line_def)
qed

text \<open>
  C8: inserting blanks shifts the rest of the cursor's row to the right and deleting characters shifts
  it to the left, with blanks in the background colour of the cursor; cells pushed past the
  right margin are lost and no other row changes. But a deletion that reaches past the right
  margin also blanks cells to the left of the cursor: it clears the last \<open>n\<close> cells of the row
  whatever the column of the cursor is.
\<close>

theorem insert_and_delete_cells:
  assumes t: "term_ok k t" and p: "p = t_point t" and cs: "cs = row_inner (row_at (t_grid t) (line p))"
    and blank: "blank = cell_of_color (cell_bg (cur_template (t_cursor t)))"
  shows "\<exists>t1 t2. insert_blank n t = Some t1 \<and> row_inner (row_at (t_grid t1) (line p)) = inserted (column p) n blank cs \<and>
    delete_chars n t = Some t2 \<and>
    row_inner (row_at (t_grid t2) (line p)) =
      (if column p + n \<le> length cs then deleted (column p) n blank cs
       else take (length cs - n) cs @ replicate (min n (length cs)) blank) \<and>
    (\<forall>m. 0 \<le> m \<and> m < int (sh_lines k) \<and> m \<noteq> line p \<longrightarrow>
       row_at (t_grid t1) m = row_at (t_grid t) m \<and> row_at (t_grid t2) m = row_at (t_grid t) m)"
proof -
  let ?cols = "sh_columns k"
  have c: "column p < ?cols" "t_columns t = ?cols" "2 \<le> ?cols" using screen_okD(2,8) [OF t] term_okD(1) [OF t] p by auto
  have len: "length cs = ?cols"
    using grid_index_line_Some(2) [OF screen_okD(1) [OF t], of "line p"] screen_okD(2,3,6,7) [OF t] p cs by auto
  have tr: "\<not> transient_cell blank" by (simp add: blank)
  note moves = edited_moves [OF len tr]
  let ?d = "if column p + n \<le> length cs then deleted (column p) n blank cs
    else take (length cs - n) cs @ replicate (min n (length cs)) blank"
  let ?I = "\<lambda>cs. do {
      cs \<leftarrow> for_each (\<lambda>i. swap_cells (column p + min n (?cols - column p) + i) (column p + i))
        (rev [0..<?cols - (column p + min n (?cols - column p))]) cs;
      fill_cells (column p) (column p + min n (?cols - column p)) blank cs }"
  let ?D = "\<lambda>cs. do {
      cs \<leftarrow> for_each (\<lambda>i. swap_cells (column p + i) (min (column p + min n ?cols) (?cols - 1) + i))
        [0..<?cols - min (column p + min n ?cols) (?cols - 1)] cs;
      fill_cells (?cols - min n ?cols) (length cs) blank cs }"
  have I: "?I cs = Some (inserted (column p) n blank cs)" using inserted_cells [of "column p" cs ?cols n blank] c len by simp
  have D: "?D cs = Some ?d"
    using deleted_cells [of "column p" cs ?cols "min n ?cols" blank] c len by (auto simp: min_def deleted_def)
  have md: "moves ?cols cs ?d" using moves(2) [of "column p" n] moves(3) [of "min n ?cols"] c len by (auto simp: min_def)
  obtain t1 where t1: "(do { t' \<leftarrow> term_damage_line (line_as_usize (line p)) 0 (?cols - 1) (reset_input_cluster t); with_cells ?I (line p) t' }) = Some t1"
    "row_inner (row_at (t_grid t1) (line p)) = inserted (column p) n blank cs"
    "\<forall>m. 0 \<le> m \<and> m < int (sh_lines k) \<and> m \<noteq> line p \<longrightarrow> row_at (t_grid t1) m = row_at (t_grid t) m"
    using edit_row_effect [OF t, of ?I _ "?cols - 1"] I moves(1) cs p by blast
  obtain t2 where t2: "(do { t' \<leftarrow> term_damage_line (line_as_usize (line p)) 0 (?cols - 1) (reset_input_cluster t); with_cells ?D (line p) t' }) = Some t2"
    "row_inner (row_at (t_grid t2) (line p)) = ?d"
    "\<forall>m. 0 \<le> m \<and> m < int (sh_lines k) \<and> m \<noteq> line p \<longrightarrow> row_at (t_grid t2) m = row_at (t_grid t) m"
    using edit_row_effect [OF t, of ?D _ "?cols - 1"] D md cs p by blast
  have "insert_blank n t = Some t1"
    using t1(1) c by (simp add: insert_blank_def Let_def usize_sub_def p blank)
  moreover have "delete_chars n t = Some t2"
    using t2(1) c by (simp add: delete_chars_def Let_def usize_sub_def p blank)
  ultimately show ?thesis using t1(2,3) t2(2,3) by auto
qed

theorem insert_and_delete_cells_witness:
  "\<exists>t t2. term_ok (sized 5 3 0) t \<and> column (t_point t) = 3 \<and> delete_chars 4 t = Some t2 \<and>
    row_inner (row_at (t_grid t2) 0) = take 1 (row_inner (row_at (t_grid t) 0)) @
      replicate 4 (cell_of_color (cell_bg (cur_template (t_cursor t))))"
proof -
  obtain t0 where t0: "term_new sample_config 5 3 = Some t0" "term_ok (sized 5 3 0) t0"
    by (rule returnsE [OF term_new_ok [of 5 3 sample_config]]) auto
  let ?t = "set_point (Point 0 3) t0"
  have t: "term_ok (sized 5 3 0) ?t" by (rule term_ok_set_point [OF t0(2)]) (simp add: on_screen_def)
  have p: "t_point ?t = Point 0 3" by (simp add: cursor_updates)
  have "length (row_inner (row_at (t_grid ?t) 0)) = 5"
    using grid_index_line_Some(2) [OF screen_okD(1) [OF t], of 0] screen_okD(2,3) [OF t] by simp
  with insert_and_delete_cells [OF t p [symmetric] refl refl, of 4] t p show ?thesis by (auto simp: eval_nat_numeral)
qed

section \<open>Erasing above the cursor\<close>

lemma blank_front_effect:
  assumes t: "term_ok k t" and l: "0 \<le> l" "l < int (sh_lines k)" and b: "b \<le> sh_columns k"
  shows "\<exists>raw. with_grid (grid_index_line_mut (row_range_to_mut (map (\<lambda>_. cell_of_color bg)) b) l) t =
      Some (t\<lparr>t_grid := (t_grid t)\<lparr>g_raw := raw\<rparr>\<rparr>) \<and>
    row_inner (line_at raw l) = replicate b (cell_of_color bg) @ drop b (row_inner (row_at (t_grid t) l)) \<and>
    (\<forall>m. 0 \<le> m \<and> m < int (sh_lines k) \<and> m \<noteq> l \<longrightarrow> line_at raw m = row_at (t_grid t) m)"
proof -
  let ?f = "row_range_to_mut (map (\<lambda>_. cell_of_color bg)) b"
  note row = row_at_std [OF t l]
  obtain r where r: "?f (row_at (t_grid t) l) = Some r" "row_std (sh_strict k) (sh_columns k) r"
    "row_clean (row_at (t_grid t) l) \<longrightarrow> row_clean r"
    using row_blank_keeps(2) [OF row(1) b] by blast
  have "row_inner r = replicate b (cell_of_color bg) @ drop b (row_inner (row_at (t_grid t) l))"
    using r(1) row(2) b by (auto simp: row_range_to_mut_def row_slice_mut_def panic_free map_replicate_const min_def)
  then show ?thesis using row_effect [OF t l, of ?f r] r by auto
qed

lemma reset_above_effect:
  assumes t: "term_ok k t" and l: "1 < l" "l < int (sh_lines k)"
  shows "\<exists>raw. with_grid (reset_region Unbounded (Excluded l)) t = Some (t\<lparr>t_grid := (t_grid t)\<lparr>g_raw := raw\<rparr>\<rparr>) \<and>
    (\<forall>m. 0 \<le> m \<and> m < int (sh_lines k) \<longrightarrow>
      (if m < l then erased (sh_strict k) (t_grid t) (line_at raw m) else line_at raw m = row_at (t_grid t) m))"
proof -
  have ok: "grid_ok (sh_strict k) (t_grid t)" and n: "t_lines t = sh_lines k" using screen_okD [OF t] by auto
  have v: "valid_line (g_raw (t_grid t)) m" if "0 \<le> m" "m < int (sh_lines k)" for m
    using valid_line_grid [OF ok, of m] n that by simp
  obtain raw where raw: "reset_lines (line_range 0 l) (t_grid t) = Some ((t_grid t)\<lparr>g_raw := raw\<rparr>)"
    "lines_erased (sh_strict k) (t_grid t) (set (line_range 0 l)) (g_raw (t_grid t)) raw"
    using reset_lines_grid [OF ok, of "line_range 0 l"] v l by auto
  then show ?thesis
    using lines_erasedD [OF raw(2) v] l n
    by (auto simp: with_grid_def reset_region_def bound_start_def bound_end_def panic_free)
qed

lemma rows_above_effect:
  assumes t: "term_ok k t" and l: "0 \<le> l" "l < int (sh_lines k)"
  shows "\<exists>raw. (if l > 1 then with_grid (reset_region Unbounded (Excluded l)) t else Some t) =
      Some (t\<lparr>t_grid := (t_grid t)\<lparr>g_raw := raw\<rparr>\<rparr>) \<and> term_ok k (t\<lparr>t_grid := (t_grid t)\<lparr>g_raw := raw\<rparr>\<rparr>) \<and>
    (\<forall>m. 0 \<le> m \<longrightarrow> m < int (sh_lines k) \<longrightarrow> (if m < l \<and> 1 < l then erased (sh_strict k) (t_grid t) (line_at raw m)
      else line_at raw m = row_at (t_grid t) m))"
proof (cases "l > 1")
  case True
  have "returns (with_grid (reset_region Unbounded (Excluded l)) t) (calm k t)"
    by (rule reset_region_calm [OF t]) (use True l in \<open>auto simp: bound_start_def bound_end_def\<close>)
  then show ?thesis using reset_above_effect [OF t True l(2)] True by (auto simp: calm_def)
qed (use t in \<open>auto intro!: exI [of _ "g_raw (t_grid t)"]\<close>)

text \<open>
  C28: erasing above the cursor blanks the cursor's row up to the cursor and leaves the rows below
  alone. The rows above are erased, except when the cursor is on the second line: then the first
  line, the only one above it, is left as it was.
\<close>

theorem clear_above_misses_first_line:
  assumes t: "term_ok k t" and p: "p = t_point t"
  shows "\<exists>t'. clear_above t = Some t' \<and>
    row_inner (row_at (t_grid t') (line p)) =
      replicate (column p + 1) (cell_of_color (cell_bg (cur_template (t_cursor t)))) @
      drop (column p + 1) (row_inner (row_at (t_grid t) (line p))) \<and>
    (\<forall>m. 0 \<le> m \<and> m < line p \<longrightarrow>
       (if line p = 1 then row_at (t_grid t') m = row_at (t_grid t) m
        else erased (sh_strict k) (t_grid t) (row_at (t_grid t') m))) \<and>
    (\<forall>m. line p < m \<and> m < int (sh_lines k) \<longrightarrow> row_at (t_grid t') m = row_at (t_grid t) m)"
proof -
  have c: "0 \<le> line p" "line p < int (sh_lines k)" "column p < sh_columns k" "t_columns t = sh_columns k"
    using screen_okD [OF t] p by auto
  let ?bg = "cell_bg (cur_template (t_cursor t))"
  obtain raw where raw: "(if line p > 1 then with_grid (reset_region Unbounded (Excluded (line p))) t else Some t) =
      Some (t\<lparr>t_grid := (t_grid t)\<lparr>g_raw := raw\<rparr>\<rparr>)" "term_ok k (t\<lparr>t_grid := (t_grid t)\<lparr>g_raw := raw\<rparr>\<rparr>)"
    "\<And>m. 0 \<le> m \<Longrightarrow> m < int (sh_lines k) \<Longrightarrow> (if m < line p \<and> 1 < line p then erased (sh_strict k) (t_grid t) (line_at raw m)
        else line_at raw m = row_at (t_grid t) m)"
    using rows_above_effect [OF t c(1,2)] by blast
  let ?t = "t\<lparr>t_grid := (t_grid t)\<lparr>g_raw := raw\<rparr>\<rparr>"
  obtain raw' where raw': "with_grid (grid_index_line_mut (row_range_to_mut (map (\<lambda>_. cell_of_color ?bg)) (column p + 1)) (line p)) ?t =
      Some (?t\<lparr>t_grid := (t_grid ?t)\<lparr>g_raw := raw'\<rparr>\<rparr>)"
    "row_inner (line_at raw' (line p)) = replicate (column p + 1) (cell_of_color ?bg) @ drop (column p + 1) (row_inner (line_at raw (line p)))"
    "\<And>m. 0 \<le> m \<Longrightarrow> m < int (sh_lines k) \<Longrightarrow> m \<noteq> line p \<Longrightarrow> line_at raw' m = line_at raw m"
    using blank_front_effect [OF raw(2) c(1,2), of "column p + 1" ?bg] c(3) by auto
  have sel: "t_grid (filter_selection lo hi x) = t_grid x" for lo hi x by (simp add: filter_selection_def split: option.split)
  have "clear_above t = Some (filter_selection (Included 0) (Included (line p)) (?t\<lparr>t_grid := (t_grid ?t)\<lparr>g_raw := raw'\<rparr>\<rparr>))"
    unfolding clear_above_def Let_def p [symmetric] raw(1) using raw'(1) c by simp
  moreover have "line_at raw (line p) = row_at (t_grid t) (line p)" using raw(3) [of "line p"] c by simp
  ultimately show ?thesis
    using raw'(2,3) raw(3) c by (auto simp: sel split: if_splits)
qed

theorem clear_above_misses_first_line_witness:
  "\<exists>t t'. term_ok (sized 5 3 0) t \<and> t_point t = Point 1 2 \<and> clear_above t = Some t' \<and> row_at (t_grid t') 0 = row_at (t_grid t) 0"
proof -
  obtain t0 where t0: "term_new sample_config 5 3 = Some t0" "term_ok (sized 5 3 0) t0"
    by (rule returnsE [OF term_new_ok [of 5 3 sample_config]]) auto
  let ?t = "set_point (Point 1 2) t0"
  have t: "term_ok (sized 5 3 0) ?t" by (rule term_ok_set_point [OF t0(2)]) (simp add: on_screen_def)
  have p: "t_point ?t = Point 1 2" by (simp add: cursor_updates)
  from clear_above_misses_first_line [OF t p [symmetric]] t p show ?thesis by auto
qed

section \<open>The alternate screen\<close>

lemma swap_frame_simps [simp]:
  "t_grid (set_keyboard_mode m a t) = t_grid t" "t_inactive_grid (set_keyboard_mode m a t) = t_inactive_grid t"
  "t_keyboard_stack (set_keyboard_mode m a t) = t_keyboard_stack t"
  "t_inactive_keyboard_stack (set_keyboard_mode m a t) = t_inactive_keyboard_stack t"
  "t_grid (cancel_redraw_anchor t) = t_grid t" "t_inactive_grid (cancel_redraw_anchor t) = t_inactive_grid t"
  "t_mode (cancel_redraw_anchor t) = t_mode t" "t_keyboard_stack (cancel_redraw_anchor t) = t_keyboard_stack t"
  "t_inactive_keyboard_stack (cancel_redraw_anchor t) = t_inactive_keyboard_stack t"
  "t_inactive_grid (reset_input_cluster t) = t_inactive_grid t" "t_keyboard_stack (reset_input_cluster t) = t_keyboard_stack t"
  "t_inactive_keyboard_stack (reset_input_cluster t) = t_inactive_keyboard_stack t"
  "t_keyboard_stack (mark_fully_damaged t) = t_keyboard_stack t" "t_selection (mark_fully_damaged t) = t_selection t"
  "t_inactive_keyboard_stack (mark_fully_damaged t) = t_inactive_keyboard_stack t"
  "t_inactive_grid (mark_fully_damaged t) = t_inactive_grid t"
  by (simp_all add: set_keyboard_mode_def cancel_redraw_anchor_def reset_input_cluster_def mark_fully_damaged_def Let_def)

lemma keyboard_keeps_alt: "bit (t_mode (set_keyboard_mode (mode_of_keyboard v) a t)) 12 = bit (t_mode t) 12"
  by (simp add: set_keyboard_mode_def Let_def bit_or_iff bit_and_iff bit_not_iff mode_of_keyboard_bit kitty_bit split: apply_behavior.split)

text \<open>What a swap does to the screens, the stacks and the mode.\<close>

definition swapped :: "trm \<Rightarrow> grid \<Rightarrow> trm \<Rightarrow> bool" where
  "swapped t g t' \<longleftrightarrow> t_grid t' = g \<and> t_keyboard_stack t' = t_inactive_keyboard_stack t \<and>
     t_inactive_keyboard_stack t' = t_keyboard_stack t \<and> has_mode t' ALT_SCREEN = (\<not> has_mode t ALT_SCREEN) \<and> t_selection t' = None"

lemma swap_alt_leave:
  assumes t: "term_ok k t" and e: "sh_epoch k + 1 < 2 ^ 64" and m: "has_mode t ALT_SCREEN"
  shows "\<exists>t'. swap_alt t = Some t' \<and> swapped t (t_inactive_grid t) t'"
proof -
  obtain r where "reading_invalidate (t_reading (reset_input_cluster t)) = Some r"
    using reading_invalidate_ok [OF term_ok_reset_input [OF t] e] by blast
  then show ?thesis
    using m by (auto simp: swap_alt_def invalidate_reading_def Let_def swapped_def alt_screen_bit bit_xor_iff keyboard_keeps_alt)
qed

lemma swap_alt_enter:
  assumes t: "term_ok k t" and e: "sh_epoch k + 1 < 2 ^ 64" and m: "\<not> has_mode t ALT_SCREEN"
  shows "\<exists>t' raw. swap_alt t = Some t' \<and> swapped t ((t_inactive_grid t)\<lparr>g_cursor := t_cursor t, g_raw := raw\<rparr>) t' \<and>
    t_inactive_grid t' = (t_grid t)\<lparr>g_saved_cursor := t_cursor t\<rparr> \<and>
    (\<forall>l. 0 \<le> l \<and> l < int (sh_lines k) \<longrightarrow>
       reset_row (sh_strict k) (sh_columns k) (cell_bg (cur_template (t_cursor t))) (line_at raw l))"
proof -
  let ?h = "(t_inactive_grid t)\<lparr>g_cursor := t_cursor t\<rparr>"
  have c: "cursor_ok k (t_cursor t)" by (rule screen_okD(4) [OF t])
  then have copy: "copy_cursor_from (t_grid t) (t_inactive_grid t) = ?h"
    by (intro copy_cursor_clean) (simp add: cursor_ok_def)
  have h: "grid_ok (sh_strict k) ?h" "g_lines ?h = sh_lines k" "g_columns ?h = sh_columns k"
    using term_okD(4) [OF t] by (auto simp: screen_ok_def)
  have v: "valid_line (g_raw ?h) l" if "0 \<le> l" "l < int (sh_lines k)" for l
    using valid_line_grid [OF h(1), of l] h(2) that by simp
  obtain raw where raw: "reset_lines (line_range 0 (int (sh_lines k))) ?h = Some (?h\<lparr>g_raw := raw\<rparr>)"
    "lines_erased (sh_strict k) ?h (set (line_range 0 (int (sh_lines k)))) (g_raw ?h) raw"
    using reset_lines_grid [OF h(1), of "line_range 0 (int (sh_lines k))"] v by auto
  have region: "reset_region Unbounded Unbounded ?h = Some (?h\<lparr>g_raw := raw\<rparr>)"
    using raw(1) h(2) term_okD(2) [OF t] by (simp add: reset_region_def bound_start_def bound_end_def panic_free)
  have rows: "reset_row (sh_strict k) (sh_columns k) (cell_bg (cur_template (t_cursor t))) (line_at raw l)"
    if "0 \<le> l" "l < int (sh_lines k)" for l
    using lines_erasedD(1) [OF raw(2) v [OF that]] that h(3) by (simp add: erased_def)
  obtain r where "reading_invalidate (t_reading (reset_input_cluster t)) = Some r"
    using reading_invalidate_ok [OF term_ok_reset_input [OF t] e] by blast
  then show ?thesis
    using m copy region rows
    by (auto simp: swap_alt_def invalidate_reading_def Let_def swapped_def alt_screen_bit bit_xor_iff keyboard_keeps_alt)
qed

text \<open>
  C7: the alternate screen. Entering it shows a blank screen with the cursor of the primary one, which
  is also saved there. Whatever a program then does to the alternate screen, leaving it shows the
  primary screen again with its rows and its cursor, and gives each screen its own stack of
  keyboard modes back.
\<close>

theorem alternate_screen_roundtrip:
  assumes t: "term_ok k t" and e: "sh_epoch k + 2 < 2 ^ 64" and m: "\<not> has_mode t ALT_SCREEN"
  shows "\<exists>t1. swap_alt t = Some t1 \<and> has_mode t1 ALT_SCREEN \<and> t_cursor t1 = t_cursor t \<and>
    t_keyboard_stack t1 = t_inactive_keyboard_stack t \<and>
    (\<forall>l. 0 \<le> l \<and> l < int (sh_lines k) \<longrightarrow>
       reset_row (sh_strict k) (sh_columns k) (cell_bg (cur_template (t_cursor t))) (row_at (t_grid t1) l)) \<and>
    (\<forall>t2. term_ok (next_epoch k) t2 \<and> has_mode t2 ALT_SCREEN \<and> t_inactive_grid t2 = t_inactive_grid t1 \<and>
       t_inactive_keyboard_stack t2 = t_inactive_keyboard_stack t1 \<longrightarrow>
       (\<exists>t3. swap_alt t2 = Some t3 \<and> \<not> has_mode t3 ALT_SCREEN \<and>
          t_grid t3 = (t_grid t)\<lparr>g_saved_cursor := t_cursor t\<rparr> \<and> t_keyboard_stack t3 = t_keyboard_stack t))"
proof -
  obtain t1 raw where t1: "swap_alt t = Some t1" "swapped t ((t_inactive_grid t)\<lparr>g_cursor := t_cursor t, g_raw := raw\<rparr>) t1"
    "t_inactive_grid t1 = (t_grid t)\<lparr>g_saved_cursor := t_cursor t\<rparr>"
    "\<And>l. 0 \<le> l \<Longrightarrow> l < int (sh_lines k) \<Longrightarrow> reset_row (sh_strict k) (sh_columns k) (cell_bg (cur_template (t_cursor t))) (line_at raw l)"
    using swap_alt_enter [OF t _ m] e by fastforce
  have "\<exists>t3. swap_alt t2 = Some t3 \<and> \<not> has_mode t3 ALT_SCREEN \<and> t_grid t3 = (t_grid t)\<lparr>g_saved_cursor := t_cursor t\<rparr> \<and>
      t_keyboard_stack t3 = t_keyboard_stack t"
    if "term_ok (next_epoch k) t2" "has_mode t2 ALT_SCREEN" "t_inactive_grid t2 = t_inactive_grid t1"
      "t_inactive_keyboard_stack t2 = t_inactive_keyboard_stack t1" for t2
    using swap_alt_leave [OF that(1) _ that(2)] e that(2-4) t1(2,3) by (auto simp: swapped_def)
  then show ?thesis using t1 m by (auto simp: swapped_def)
qed

theorem alternate_screen_roundtrip_witness:
  "\<exists>t t1. term_new sample_config 5 3 = Some t \<and> swap_alt t = Some t1 \<and> has_mode t1 ALT_SCREEN \<and>
    (\<forall>l. 0 \<le> l \<and> l < 3 \<longrightarrow> reset_row True 5 (Named Background) (row_at (t_grid t1) l))"
proof -
  obtain t where t: "term_new sample_config 5 3 = Some t" "term_ok (sized 5 3 0) t"
    by (rule returnsE [OF term_new_ok [of 5 3 sample_config]]) auto
  have "t_mode t = default_mode" "cell_bg (cur_template (t_cursor t)) = Named Background"
    using t(1) by (auto simp: term_new_def bind_eq_Some_conv Let_def new_for_terminal_def grid_new_def set_reflow_on_grow_def
        default_cursor_def default_cell_def)
  moreover have "\<not> mode_contains default_mode ALT_SCREEN" by (simp add: alt_screen_bit default_mode_def bit_or_iff)
  ultimately show ?thesis
    using alternate_screen_roundtrip [OF t(2)] t(1) by (auto simp: sized_def)
qed

end
