(* ===== verification/Resize_Text.thy ===== *)
theory Resize_Text
  imports Resize_Anchor
begin

text \<open>
  Narrowing a grid with reflow keeps its text: the logical lines that the rows of the buffer show,
  without the empty cells at their ends, are the same before and after \<open>Grid::shrink_columns\<close>, for rows
  as the terminal writes them and a cursor that is not past the end of a row that wraps.
\<close>

section \<open>Flags\<close>

lemma single_flag:
  assumes "n < 16"
  shows "flags_contains f (push_bit n 1) \<longleftrightarrow> bit f n"
proof
  assume "flags_contains f (push_bit n 1)"
  then have "bit (f AND push_bit n 1) n = bit (push_bit n (1 :: flags)) n" by (simp add: flags_contains_def)
  then show "bit f n" using assms by (simp add: bit_simps)
next
  assume "bit f n"
  then show "flags_contains f (push_bit n 1)"
    unfolding flags_contains_def by (intro bit_word_eqI) (auto simp: bit_and_iff bit_exp_iff)
qed

lemma wrapline_bit: "WRAPLINE = push_bit 4 1"
  by (simp add: push_bit_eq_mult)

lemma flag_bits:
  "has_flag WRAPLINE c \<longleftrightarrow> bit (cell_flags c) 4" "has_flag WIDE_CHAR c \<longleftrightarrow> bit (cell_flags c) 5"
  "has_flag LEADING_WIDE_CHAR_SPACER c \<longleftrightarrow> bit (cell_flags c) 10" "has_flag WIDE_CHAR_SPACER c \<longleftrightarrow> bit (cell_flags c) 6"
  using single_flag [of 6 "cell_flags c"] single_flag [of 4 "cell_flags c"] single_flag [of 5 "cell_flags c"] single_flag [of 10 "cell_flags c"]
  by (simp_all add: has_flag_def push_bit_eq_mult)

lemma changed_flags:
  fixes f :: flags
  assumes "n < 16"
  shows "bit (f OR push_bit n 1) m \<longleftrightarrow> bit f m \<or> m = n" "bit (f AND NOT (push_bit n 1)) m \<longleftrightarrow> bit f m \<and> m \<noteq> n"
  using assms bit_imp_le_length [of f m] by (auto simp: bit_or_iff bit_and_iff bit_not_iff bit_exp_iff)

lemma changed_bits:
  "bit (cell_flags (add_flag WRAPLINE c)) n \<longleftrightarrow> bit (cell_flags c) n \<or> n = 4"
  "bit (cell_flags (strip_flag WRAPLINE c)) n \<longleftrightarrow> bit (cell_flags c) n \<and> n \<noteq> 4"
  using changed_flags [of 4 "cell_flags c" n]
  by (simp_all add: add_flag_def strip_flag_def flags_insert_def flags_remove_def flip: wrapline_bit)

lemma wrap_flag [simp]:
  "has_flag WRAPLINE (add_flag WRAPLINE c)" "\<not> has_flag WRAPLINE (strip_flag WRAPLINE c)"
  "has_flag LEADING_WIDE_CHAR_SPACER (add_flag WRAPLINE c) = has_flag LEADING_WIDE_CHAR_SPACER c"
  "has_flag LEADING_WIDE_CHAR_SPACER (strip_flag WRAPLINE c) = has_flag LEADING_WIDE_CHAR_SPACER c"
  "has_flag WIDE_CHAR (add_flag WRAPLINE c) = has_flag WIDE_CHAR c"
  "has_flag WIDE_CHAR (strip_flag WRAPLINE c) = has_flag WIDE_CHAR c"
  "has_flag WIDE_CHAR_SPACER (add_flag WRAPLINE c) = has_flag WIDE_CHAR_SPACER c"
  "has_flag WIDE_CHAR_SPACER (strip_flag WRAPLINE c) = has_flag WIDE_CHAR_SPACER c"
  unfolding flag_bits changed_bits by simp_all

lemma strip_plain:
  assumes "\<not> has_flag WRAPLINE c"
  shows "strip_flag WRAPLINE c = c"
proof -
  have "cell_flags (strip_flag WRAPLINE c) = cell_flags c"
    using assms by (intro bit_word_eqI) (auto simp: changed_bits flag_bits)
  then show ?thesis by (simp add: strip_flag_def)
qed

lemma strip_wrap [simp]:
  "strip_flag WRAPLINE (add_flag WRAPLINE c) = strip_flag WRAPLINE c"
  "strip_flag WRAPLINE (strip_flag WRAPLINE c) = strip_flag WRAPLINE c"
proof -
  have "cell_flags (strip_flag WRAPLINE (add_flag WRAPLINE c)) = cell_flags (strip_flag WRAPLINE c)"
    by (rule bit_word_eqI) (auto simp: changed_bits)
  then show "strip_flag WRAPLINE (add_flag WRAPLINE c) = strip_flag WRAPLINE c"
    by (simp add: strip_flag_def add_flag_def)
  show "strip_flag WRAPLINE (strip_flag WRAPLINE c) = strip_flag WRAPLINE c" by (rule strip_plain) simp
qed

lemma spacer_flags [simp]:
  "has_flag LEADING_WIDE_CHAR_SPACER spacer_cell" "\<not> has_flag WRAPLINE spacer_cell" "\<not> has_flag WIDE_CHAR spacer_cell"
  by (simp_all add: spacer_cell_def has_flag_def add_flag_def flags_contains_def flags_insert_def default_cell_def)

lemma empty_flags:
  assumes "cell_is_empty c"
  shows "\<not> has_flag WRAPLINE c" "\<not> has_flag LEADING_WIDE_CHAR_SPACER c" "cell_is_empty (strip_flag WRAPLINE c)"
    "\<not> has_flag WIDE_CHAR_SPACER c"
proof -
  let ?m = "INVERSE OR ALL_UNDERLINES OR STRIKEOUT OR WRAPLINE OR WIDE_CHAR_SPACER OR LEADING_WIDE_CHAR_SPACER"
  have m: "cell_flags c AND ?m = 0" using assms by (simp add: cell_is_empty_def flags_intersects_def)
  have "bit ?m 4" "bit ?m 10" "bit ?m 6" by (simp_all add: ALL_UNDERLINES_def)
  then show "\<not> has_flag WRAPLINE c" "\<not> has_flag LEADING_WIDE_CHAR_SPACER c" "\<not> has_flag WIDE_CHAR_SPACER c"
    using m unfolding flag_bits by (metis bit_0_eq bit_and_iff bot_apply bot_bool_def)+
  then show "cell_is_empty (strip_flag WRAPLINE c)" using assms by (simp add: strip_plain)
qed

section \<open>The text of rows\<close>

text \<open>
  The logical lines a list of rows shows, from the top: a row with the wrap flag continues in the row
  below, the spacer that keeps a wide character off the margin is no text, the wrap flag itself is
  none either, and the empty cells at the end of a line do not count.
\<close>

definition trim_blank :: "cell list \<Rightarrow> cell list" where
  "trim_blank cs = rev (dropWhile cell_is_empty (rev cs))"

definition row_body :: "cell list \<Rightarrow> cell list" where
  "row_body cs = map (strip_flag WRAPLINE) (if ends_in_spacer cs then butlast cs else cs)"

definition wraps :: "cell list \<Rightarrow> bool" where
  "wraps cs \<longleftrightarrow> cs \<noteq> [] \<and> has_flag WRAPLINE (last cs)"

definition join_line :: "cell list \<Rightarrow> bool \<Rightarrow> cell list list \<Rightarrow> cell list list" where
  "join_line body wrapped below =
     (if wrapped \<and> below \<noteq> [] then trim_blank (body @ hd below) # tl below else trim_blank body # below)"

primrec text_lines :: "cell list list \<Rightarrow> cell list list" where
  "text_lines [] = []"
| "text_lines (cs # rows) = join_line (row_body cs) (wraps cs) (text_lines rows)"

lemma text_Cons: "text_lines (cs # rows) = join_line (row_body cs) (wraps cs) (text_lines rows)"
  by simp

lemma trim_blank_append: "list_all cell_is_empty ys \<Longrightarrow> trim_blank (xs @ ys) = trim_blank xs"
  by (simp add: trim_blank_def list_all_iff dropWhile_append)

lemma trim_blank_rest: "\<exists>ys. xs = trim_blank xs @ ys \<and> list_all cell_is_empty ys"
proof -
  have "xs = rev (dropWhile cell_is_empty (rev xs)) @ rev (takeWhile cell_is_empty (rev xs))"
    by (metis rev_append rev_rev_ident takeWhile_dropWhile_id)
  moreover have "list_all cell_is_empty (rev (takeWhile cell_is_empty (rev xs)))"
    by (auto simp: list_all_iff dest: set_takeWhileD)
  ultimately show ?thesis unfolding trim_blank_def by blast
qed

lemma trim_blank_inner: "trim_blank (xs @ trim_blank ys) = trim_blank (xs @ ys)"
proof -
  obtain zs where zs: "ys = trim_blank ys @ zs" "list_all cell_is_empty zs" using trim_blank_rest by blast
  have "trim_blank (xs @ ys) = trim_blank ((xs @ trim_blank ys) @ zs)" by (subst zs(1)) simp
  then show ?thesis unfolding trim_blank_append [OF zs(2)] ..
qed

lemma join_line_ne [simp]: "join_line x w rows \<noteq> []"
  by (simp add: join_line_def)

lemma text_lines_Nil [simp]: "text_lines rows = [] \<longleftrightarrow> rows = []"
  by (cases rows) simp_all

lemma join_join: "join_line x True (join_line y w rows) = join_line (x @ y) w rows"
  by (simp add: join_line_def trim_blank_inner)

lemma join_eq:
  assumes "trim_blank x = trim_blank y" "rows \<noteq> [] \<Longrightarrow> w = w' \<and> (w \<longrightarrow> x = y)"
  shows "join_line x w rows = join_line y w' rows"
  using assms by (auto simp: join_line_def)

lemma text_below: "text_lines xs = text_lines ys \<Longrightarrow> text_lines (rows @ xs) = text_lines (rows @ ys)"
  by (induction rows) simp_all

section \<open>Rows as the terminal writes them\<close>

text \<open>
  A wide character is followed by its spacer, which is none itself. The wrap flag and the leading spacer occur in
  the last cell only, the leading spacer only in a row that wraps and has another row below. The number
  \<open>i\<close> counts the rows below; for the bottom row the wrap flag may be anywhere.
\<close>

fun paired :: "cell list \<Rightarrow> bool" where
  "paired [] \<longleftrightarrow> True"
| "paired [c] \<longleftrightarrow> \<not> has_flag WIDE_CHAR c"
| "paired (c # d # cs) \<longleftrightarrow>
     (has_flag WIDE_CHAR c \<longrightarrow> has_flag WIDE_CHAR_SPACER d \<and> \<not> has_flag WIDE_CHAR d) \<and> paired (d # cs)"

definition tidy :: "nat \<Rightarrow> cell list \<Rightarrow> bool" where
  "tidy i cs \<longleftrightarrow> cs \<noteq> [] \<and> paired cs \<and>
     (\<forall>c \<in> set (butlast cs). \<not> has_flag LEADING_WIDE_CHAR_SPACER c \<and> (1 \<le> i \<longrightarrow> \<not> has_flag WRAPLINE c)) \<and>
     (ends_in_spacer cs \<longrightarrow> \<not> has_flag WIDE_CHAR_SPACER (last cs) \<and> 1 \<le> i \<and> wraps cs)"

lemma paired_append: "paired xs \<Longrightarrow> paired ys \<Longrightarrow> paired (xs @ ys)"
proof (induction xs rule: paired.induct)
  case (2 c)
  then show ?case by (cases ys) simp_all
qed simp_all

lemma paired_drop: "paired cs \<Longrightarrow> paired (drop n cs)"
proof (induction n arbitrary: cs)
  case (Suc n)
  have "paired (tl cs)" using Suc.prems by (cases cs rule: paired.cases) simp_all
  then show ?case using Suc.IH [of "tl cs"] by (simp add: drop_Suc)
qed simp

lemma paired_take:
  "paired cs \<Longrightarrow> n < length cs \<Longrightarrow> paired (take (if has_flag WIDE_CHAR (cs ! n) then n else Suc n) cs)"
proof (induction cs arbitrary: n rule: paired.induct)
  case (3 c d cs)
  show ?case
  proof (cases n)
    case (Suc m)
    then have "paired (take (if has_flag WIDE_CHAR ((d # cs) ! m) then m else Suc m) (d # cs))"
      using "3.IH" [of m] "3.prems" by simp
    then show ?thesis using "3.prems" Suc by (cases m) (auto split: if_splits)
  qed simp
qed auto

lemma paired_front:
  "paired (xs @ ys) \<Longrightarrow> (ys \<noteq> [] \<Longrightarrow> \<not> has_flag WIDE_CHAR_SPACER (hd ys)) \<Longrightarrow> paired xs"
proof (induction xs rule: paired.induct)
  case (2 c)
  then show ?case by (cases ys) auto
qed simp_all

lemma paired_last: "paired cs \<Longrightarrow> cs \<noteq> [] \<Longrightarrow> \<not> has_flag WIDE_CHAR (last cs)"
  by (induction cs rule: paired.induct) simp_all

lemma paired_set_last:
  assumes "\<And>c. has_flag WIDE_CHAR (f c) = has_flag WIDE_CHAR c" "\<And>c. has_flag WIDE_CHAR_SPACER (f c) = has_flag WIDE_CHAR_SPACER c"
  shows "paired (set_last f cs) = paired cs"
  using assms by (induction cs rule: paired.induct) (auto simp: set_last_def)

text \<open>The pieces of a row that is split hold whole characters.\<close>

lemma kept_paired:
  assumes "paired cs" "1 \<le> cols" "cols \<le> length cs"
  shows "paired (kept_cells cols cs)"
proof -
  have "cols - 1 < length cs" "Suc (cols - 1) = cols" using assms(2,3) by simp_all
  then show ?thesis
    using paired_take [OF assms(1), of "cols - 1"] paired_append [of "take (cols - 1) cs" "[spacer_cell]"]
    by (auto simp: kept_cells_def split: if_splits)
qed

lemma fitting_paired:
  assumes "paired cs" "list_all cell_is_empty (drop cols cs)"
  shows "paired (take cols cs)"
  using paired_front [of "take cols cs" "drop cols cs", unfolded append_take_drop_id, OF assms(1)] assms(2) empty_flags(4)
  by (cases "drop cols cs") simp_all

section \<open>Splitting a row keeps the text\<close>

lemma strip_set_last [simp]:
  "map (strip_flag WRAPLINE) (set_last (add_flag WRAPLINE) cs) = map (strip_flag WRAPLINE) cs"
  "map (strip_flag WRAPLINE) (set_last (strip_flag WRAPLINE) cs) = map (strip_flag WRAPLINE) cs"
  by (cases cs rule: rev_cases; simp add: set_last_def)+

lemma set_last_facts [simp]:
  "ends_in_spacer (set_last (add_flag WRAPLINE) cs) = ends_in_spacer cs" "wraps (set_last (add_flag WRAPLINE) cs) \<longleftrightarrow> cs \<noteq> []"
  "butlast (set_last f cs) = butlast cs"
  by (cases cs rule: rev_cases; simp add: set_last_def ends_in_spacer_def wraps_def)+

lemma row_body_set_last [simp]: "row_body (set_last (add_flag WRAPLINE) cs) = row_body cs"
  by (simp add: row_body_def)

lemma blank_strip: "list_all cell_is_empty cs \<Longrightarrow> list_all cell_is_empty (map (strip_flag WRAPLINE) cs)"
  by (simp add: list_all_iff empty_flags(3))

lemma tidyD:
  assumes "tidy i cs"
  shows "cs \<noteq> []" "paired cs" "c \<in> set (butlast cs) \<Longrightarrow> \<not> has_flag LEADING_WIDE_CHAR_SPACER c"
    "c \<in> set (butlast cs) \<Longrightarrow> 1 \<le> i \<Longrightarrow> \<not> has_flag WRAPLINE c" "ends_in_spacer cs \<Longrightarrow> \<not> has_flag WIDE_CHAR_SPACER (last cs)"
    "ends_in_spacer cs \<Longrightarrow> wraps cs" "ends_in_spacer cs \<Longrightarrow> 1 \<le> i"
  using assms by (auto simp: tidy_def)

lemma moved_suffix:
  assumes "drop cols cs = w @ rest" "1 \<le> cols" "cols \<le> length cs"
  shows "\<exists>k \<le> cols. drop k cs = moved_cells cols cs w @ rest"
proof (cases "has_flag WIDE_CHAR (cs ! (cols - 1))")
  case True
  have "drop (cols - 1) cs = cs ! (cols - 1) # drop cols cs"
    using assms(2,3) Cons_nth_drop_Suc [of "cols - 1" cs] by simp
  then show ?thesis using True assms(1) by (intro exI [of _ "cols - 1"]) (simp add: moved_cells_def)
next
  case False
  then show ?thesis using assms(1) by (intro exI [of _ cols]) (simp add: moved_cells_def)
qed

lemma kept_text:
  assumes t: "tidy i cs" and len: "1 \<le> cols" "cols \<le> length cs" and sp: "ends_in_spacer cs \<Longrightarrow> cols < length cs"
  shows "row_body (kept_cells cols cs) @ map (strip_flag WRAPLINE) (moved_cells cols cs w) = map (strip_flag WRAPLINE) (take cols cs @ w)"
proof -
  have snoc: "take cols cs = take (cols - 1) cs @ [cs ! (cols - 1)]" using len take_Suc_conv_app_nth [of "cols - 1" cs] by simp
  have "\<not> ends_in_spacer (take cols cs)" if "\<not> has_flag WIDE_CHAR (cs ! (cols - 1))"
  proof (cases "cols < length cs")
    case True
    then have "cs ! (cols - 1) \<in> set (butlast cs)"
      using len(1) nth_mem [of "cols - 1" "butlast cs"] by (simp add: nth_butlast)
    then show ?thesis using snoc tidyD(3) [OF t] by (simp add: ends_in_spacer_def)
  next
    case full: False
    then show ?thesis using sp len by auto
  qed
  then show ?thesis
    using snoc by (cases "has_flag WIDE_CHAR (cs ! (cols - 1))") (simp_all add: kept_cells_def moved_cells_def row_body_def ends_in_spacer_def)
qed

lemma split_text:
  fixes cols i w cs
  assumes t: "tidy i cs" and len: "2 \<le> cols" "cols \<le> length cs" and w: "cut_off cols i g cs w"
    and c: "1 \<le> i \<Longrightarrow> wraps cs \<Longrightarrow> i = g_lines g - nat (g_line g) - 1 \<Longrightarrow> g_column g < length (row_body cs)"
    and single: "\<not> (ends_in_spacer (moved_cells cols cs w) \<and> length (moved_cells cols cs w) = 1)"
  defines "w2 \<equiv> trim_spacer (moved_cells cols cs w)"
  defines "body \<equiv> row_body (kept_cells cols cs) @ map (strip_flag WRAPLINE) w2"
  shows "trim_blank body = trim_blank (row_body cs) \<and> (1 \<le> i \<longrightarrow> wraps w2 = wraps cs \<and> (wraps cs \<longrightarrow> body = row_body cs)) \<and>
    paired w2 \<and> (\<forall>c \<in> set w2. \<not> has_flag LEADING_WIDE_CHAR_SPACER c) \<and> (\<forall>c \<in> set (butlast w2). 1 \<le> i \<longrightarrow> \<not> has_flag WRAPLINE c)"
proof -
  let ?w = "moved_cells cols cs w"
  obtain rest where rest: "drop cols cs = w @ rest" "list_all cell_is_empty rest" using w by (auto simp: cut_off_def)
  have c1: "1 \<le> cols" using len by simp
  obtain k where k: "k \<le> cols" "drop k cs = ?w @ rest" using moved_suffix [OF rest(1) c1 len(2)] by blast
  have cs: "cs = take cols cs @ w @ rest" using rest(1) append_take_drop_id by metis
  have last_w: "?w \<noteq> [] \<Longrightarrow> rest = [] \<Longrightarrow> last ?w = last cs" using k(2) last_drop [of k cs] by (cases "k < length cs") auto
  have inner: "set (butlast (?w @ rest)) \<subseteq> set (butlast cs)"
    unfolding k(2) [symmetric] by (simp add: butlast_drop set_drop_subset)
  have pair: "paired (?w @ rest)" unfolding k(2) [symmetric] by (rule paired_drop) (rule tidyD(2) [OF t])
  have empty: "w = [] \<Longrightarrow> ?w = []" "w = [] \<Longrightarrow> rest = []" "w = [] \<Longrightarrow> 1 \<le> i \<Longrightarrow> \<not> wraps cs"
  proof -
    assume "w = []"
    then have full: "i = g_lines g - nat (g_line g) - 1" "cols \<le> g_column g" "length cs = cols" using w by (auto simp: cut_off_def)
    then show "?w = []" using paired_last [OF tidyD(2) [OF t] tidyD(1) [OF t]] \<open>w = []\<close> tidyD(1) [OF t] by (auto simp: moved_cells_def last_conv_nth)
    show "rest = []" using rest(1) full(3) \<open>w = []\<close> by simp
    have "length (row_body cs) \<le> cols" using full(3) by (simp add: row_body_def)
    then show "1 \<le> i \<Longrightarrow> \<not> wraps cs" using c full by fastforce
  qed
  consider (corner) "w = []" "ends_in_spacer cs" | (spacer) "w \<noteq> [] \<or> \<not> ends_in_spacer cs" "ends_in_spacer ?w"
    | (plain) "w \<noteq> [] \<or> \<not> ends_in_spacer cs" "\<not> ends_in_spacer ?w" "rest = []"
    | (blanks) "w \<noteq> [] \<or> \<not> ends_in_spacer cs" "\<not> ends_in_spacer ?w" "rest \<noteq> []" by blast
  then show ?thesis
  proof cases
    case corner
    note e = empty [OF corner(1)]
    have "length cs = cols" using cs corner(1) e(2) len(2) by (metis append_Nil2 length_take min_absorb2)
    moreover have "\<not> has_flag WIDE_CHAR (cs ! (cols - 1))"
      using paired_last [OF tidyD(2) [OF t] tidyD(1) [OF t]] tidyD(1) [OF t] \<open>length cs = cols\<close> by (simp add: last_conv_nth)
    ultimately have "kept_cells cols cs = cs" by (simp add: kept_cells_def)
    moreover have "w2 = []" using e(1) by (simp add: w2_def trim_spacer_def ends_in_spacer_def)
    ultimately show ?thesis using tidyD(6) [OF t corner(2)] e(3) by (auto simp: body_def)
  next
    case spacer
    then have "w \<noteq> []" using empty(1) by (auto simp: ends_in_spacer_def)
    then have w_last: "?w \<noteq> []" "last ?w = last w" by (simp_all add: moved_cells_def)
    have "rest = []"
    proof (rule ccontr)
      assume "rest \<noteq> []"
      then have "last ?w \<in> set (butlast cs)" using inner w_last(1) last_in_set [of ?w] by (auto simp: butlast_append)
      then show False using tidyD(3) [OF t] spacer(2) by (simp add: ends_in_spacer_def)
    qed
    note l = last_w [OF w_last(1) this]
    have sp: "ends_in_spacer cs" "\<not> has_flag WIDE_CHAR_SPACER (last ?w)"
      using spacer(2) l tidyD(1,5) [OF t] by (auto simp: ends_in_spacer_def)
    have "length ?w \<noteq> 1" "length ?w \<noteq> 0" using single spacer(2) w_last(1) by blast+
    then have "length (butlast ?w) \<noteq> 0" unfolding length_butlast by linarith
    then have "butlast ?w \<noteq> []" by fastforce
    then have w2: "w2 = set_last (add_flag WRAPLINE) (butlast ?w)" "butlast ?w \<noteq> []"
      using spacer(2) by (auto simp: w2_def trim_spacer_def set_last_def)
    have "length cs \<noteq> cols" using cs \<open>w \<noteq> []\<close> len(2) by (metis append_self_conv append_is_Nil_conv length_take min_absorb2 nat_le_iff_add order_refl take_all_iff)
    moreover have "take cols cs @ w = cs" using cs \<open>rest = []\<close> by simp
    ultimately have "row_body (kept_cells cols cs) @ map (strip_flag WRAPLINE) ?w = map (strip_flag WRAPLINE) cs"
      using kept_text [OF t c1 len(2), of w] len(2) by (simp only: le_neq_implies_less not_sym simp_thms)
    then have "butlast (row_body (kept_cells cols cs) @ map (strip_flag WRAPLINE) ?w) = map (strip_flag WRAPLINE) (butlast cs)"
      by (simp add: map_butlast)
    then have body: "body = row_body cs"
      using w_last(1) sp(1) by (simp add: body_def w2(1) butlast_append map_butlast row_body_def)
    have sub: "set (butlast ?w) \<subseteq> set (butlast cs)" using inner \<open>rest = []\<close> by simp
    then have "last (butlast ?w) \<in> set (butlast cs)" using w2(2) last_in_set by blast
    then have "\<not> has_flag LEADING_WIDE_CHAR_SPACER (last (butlast ?w))" by (rule tidyD(3) [OF t])
    then have "\<not> has_flag LEADING_WIDE_CHAR_SPACER x" if "x \<in> set w2" for x
      using that w2(2) tidyD(3) [OF t] sub
      by (auto simp: w2(1) set_last_def dest: in_set_butlastD)
    moreover have "paired (butlast ?w)"
      using paired_front [of "butlast ?w" "[last ?w]"] pair \<open>rest = []\<close> sp(2) w_last(1) by simp
    ultimately show ?thesis
      using body sub tidyD(4) [OF t] tidyD(6) [OF t sp(1)] w2(2)
      by (auto simp: w2(1) paired_set_last dest: in_set_butlastD)
  next
    case plain
    have w2: "w2 = ?w" using plain(2) by (simp add: w2_def trim_spacer_def)
    have sp: "\<not> ends_in_spacer cs"
    proof (cases "w = []")
      case False
      then have "?w \<noteq> []" by (simp add: moved_cells_def)
      then show ?thesis using last_w [OF _ plain(3)] plain(2) tidyD(1) [OF t] by (simp add: ends_in_spacer_def)
    qed (use plain(1) in simp)
    have all: "take cols cs @ w = cs" using cs plain(3) by simp
    have "body = row_body cs"
      using kept_text [OF t c1 len(2), of w] sp unfolding all by (simp add: body_def w2 row_body_def [of cs])
    moreover have "wraps ?w = wraps cs" if "1 \<le> i"
      using that empty last_w [OF _ plain(3)] tidyD(1) [OF t] by (cases "w = []") (auto simp: wraps_def moved_cells_def)
    moreover have "\<not> has_flag LEADING_WIDE_CHAR_SPACER x" if x: "x \<in> set ?w" for x
    proof -
      have "?w \<noteq> []" using x by auto
      then have "x \<in> set (butlast ?w) \<or> x = last ?w" using x by (metis Un_iff append_butlast_last_id empty_iff insert_iff list.set set_append)
      then show ?thesis using inner plain(2,3) tidyD(3) [OF t] \<open>?w \<noteq> []\<close> by (auto simp: ends_in_spacer_def)
    qed
    ultimately show ?thesis using pair inner plain(3) tidyD(4) [OF t] by (auto simp: w2)
  next
    case blanks
    have w2: "w2 = ?w" using blanks(2) by (simp add: w2_def trim_spacer_def)
    have all: "(take cols cs @ w) @ rest = cs" using cs by simp
    have "last cs = last rest" by (subst all [symmetric]) (rule last_appendR [OF blanks(3)])
    then have "cell_is_empty (last cs)" using rest(2) blanks(3) by (simp add: list_all_iff)
    then have hard: "\<not> wraps cs" "\<not> ends_in_spacer cs" using empty_flags by (auto simp: wraps_def ends_in_spacer_def)
    have sub: "set ?w \<subseteq> set (butlast cs)" using inner blanks(3) by (auto simp: butlast_append)
    have "body = map (strip_flag WRAPLINE) (take cols cs @ w)"
      using kept_text [OF t c1 len(2), of w] hard(2) by (simp add: body_def w2)
    moreover have "row_body cs = map (strip_flag WRAPLINE) (take cols cs @ w) @ map (strip_flag WRAPLINE) rest"
      unfolding map_append [symmetric] all using hard(2) by (simp add: row_body_def)
    ultimately have "trim_blank body = trim_blank (row_body cs)" by (simp only: trim_blank_append [OF blank_strip [OF rest(2)]])
    moreover have "paired ?w"
      using paired_front [OF pair] rest(2) empty_flags(4) blanks(3) by (cases rest) simp_all
    moreover have "\<not> wraps ?w" if "1 \<le> i"
      using that sub tidyD(4) [OF t] last_in_set unfolding wraps_def by blast
    ultimately show ?thesis using hard(1) sub tidyD(3,4) [OF t] by (auto simp: w2 dest: in_set_butlastD)
  qed
qed

section \<open>One row narrowed\<close>

abbreviation row_cells :: "row list \<Rightarrow> cell list list" where "row_cells \<equiv> map row_inner"

abbreviation cursor_index :: "grid \<Rightarrow> nat" where "cursor_index g \<equiv> g_lines g - nat (g_line g) - 1"

text \<open>A cursor on a row that wraps is on a cell of its text.\<close>

definition cursor_within :: "nat \<Rightarrow> grid \<Rightarrow> cell list \<Rightarrow> bool" where
  "cursor_within i g cs \<longleftrightarrow> (1 \<le> i \<and> wraps cs \<and> i = cursor_index g \<longrightarrow> g_column g < length (row_body cs))"

text \<open>The row of the cursor stays ahead until it has been reached, and stays behind from then on.\<close>

definition cursor_track :: "nat \<Rightarrow> grid \<Rightarrow> grid \<Rightarrow> bool" where
  "cursor_track i g g' \<longleftrightarrow> (cursor_index g < i \<longrightarrow> cursor_index g' = cursor_index g \<and> g_column g' = g_column g) \<and>
     (i \<le> cursor_index g \<longrightarrow> i \<le> cursor_index g')"

lemma blank_row_flags:
  assumes "\<forall>c \<in> set w. \<not> has_flag LEADING_WIDE_CHAR_SPACER c"
  shows "\<not> ends_in_spacer (w @ replicate n default_cell)" "row_body (w @ replicate n default_cell) = map (strip_flag WRAPLINE) w @ replicate n default_cell"
    "wraps (w @ replicate n default_cell) \<longleftrightarrow> n = 0 \<and> wraps w"
proof -
  have d: "\<not> has_flag LEADING_WIDE_CHAR_SPACER default_cell" "\<not> has_flag WRAPLINE default_cell" "strip_flag WRAPLINE default_cell = default_cell"
    by (simp_all add: has_flag_def flags_contains_def default_cell_def strip_flag_def flags_remove_def)
  show s: "\<not> ends_in_spacer (w @ replicate n default_cell)"
    using assms d(1) by (cases "n = 0"; cases "w = []") (simp_all add: ends_in_spacer_def last_append)
  show "row_body (w @ replicate n default_cell) = map (strip_flag WRAPLINE) w @ replicate n default_cell"
    using s d(3) by (simp add: row_body_def)
  show "wraps (w @ replicate n default_cell) \<longleftrightarrow> n = 0 \<and> wraps w"
    using d(2) by (cases "n = 0") (auto simp: wraps_def last_append)
qed

lemma row_body_length: "length (row_body cs) \<le> length cs"
  by (simp add: row_body_def)

lemma empty_default [simp]: "cell_is_empty default_cell"
  by (simp add: cell_is_empty_def default_cell_def cell_inline_marker_def flags_intersects_def cell_image_def)

lemma paired_blank [simp]: "paired (replicate n default_cell)"
proof (induction n)
  case (Suc n)
  then show ?case by (cases n) (simp_all add: has_flag_def flags_contains_def default_cell_def)
qed simp

lemma goes_on_text:
  assumes r: "round_of cols i g cs w (Goes_On w2)" and t: "tidy i cs" and len: "2 \<le> cols" "cols \<le> length cs"
    and c: "cursor_within i g cs" and below: "length rows = i"
  defines "piece \<equiv> set_last (add_flag WRAPLINE) (kept_cells cols cs)" and "nr \<equiv> w2 @ replicate (cols - length w2) default_cell"
  shows "text_lines (piece # nr # rows) = text_lines (cs # rows)" "tidy i nr"
    "1 \<le> i \<Longrightarrow> wraps nr \<Longrightarrow> length (row_body cs) \<le> cols + length (row_body nr) \<and> cols \<le> length (row_body nr) \<and> wraps cs"
proof -
  have w: "cut_off cols i g cs w" and w2: "w2 = trim_spacer (moved_cells cols cs w)" and nc: "\<not> carried_over cols i w2"
    and single: "\<not> (ends_in_spacer (moved_cells cols cs w) \<and> length (moved_cells cols cs w) = 1)"
    using r by (auto simp: round_of_def Let_def)
  let ?k = "row_body (kept_cells cols cs)"
  note st = split_text [OF t len w _ single, folded w2]
  have s: "trim_blank (?k @ map (strip_flag WRAPLINE) w2) = trim_blank (row_body cs)"
    "1 \<le> i \<Longrightarrow> wraps w2 = wraps cs" "1 \<le> i \<Longrightarrow> wraps cs \<Longrightarrow> ?k @ map (strip_flag WRAPLINE) w2 = row_body cs" "paired w2"
    "\<forall>c \<in> set w2. \<not> has_flag LEADING_WIDE_CHAR_SPACER c" "\<forall>c \<in> set (butlast w2). 1 \<le> i \<longrightarrow> \<not> has_flag WRAPLINE c"
    using st c by (auto simp: cursor_within_def)
  note n = blank_row_flags [OF s(5), of "cols - length w2", folded nr_def]
  have ne: "kept_cells cols cs \<noteq> []" using length_kept_cells [of cols cs] len by fastforce
  have full: "cols \<le> length w2" if "1 \<le> i" "wraps w2"
    using nc that by (auto simp: carried_over_def wraps_def)
  have wraps: "wraps nr = wraps cs" "wraps cs \<longrightarrow> nr = w2" if "1 \<le> i"
  proof -
    show "wraps nr = wraps cs" using s(2) [OF that] full [OF that] n(3) by auto
    show "wraps cs \<longrightarrow> nr = w2" using s(2) [OF that] full [OF that] by (auto simp: nr_def)
  qed
  have "text_lines (piece # nr # rows) = join_line (?k @ row_body nr) (wraps nr) (text_lines rows)"
    using ne by (simp add: piece_def join_join)
  also have "\<dots> = join_line (row_body cs) (wraps cs) (text_lines rows)"
  proof (rule join_eq)
    have "trim_blank (?k @ row_body nr) = trim_blank ((?k @ map (strip_flag WRAPLINE) w2) @ replicate (cols - length w2) default_cell)"
      by (simp add: n(2))
    also have "\<dots> = trim_blank (?k @ map (strip_flag WRAPLINE) w2)" by (rule trim_blank_append) (simp add: list_all_iff)
    finally show "trim_blank (?k @ row_body nr) = trim_blank (row_body cs)" using s(1) by simp
    assume "text_lines rows \<noteq> []"
    then have i: "1 \<le> i" using below by (cases rows) auto
    then show "wraps nr = wraps cs \<and> (wraps nr \<longrightarrow> ?k @ row_body nr = row_body cs)"
      using wraps s(3) n(2) full by auto
  qed
  finally show "text_lines (piece # nr # rows) = text_lines (cs # rows)" by simp
  have blank: "\<not> has_flag LEADING_WIDE_CHAR_SPACER default_cell" "\<not> has_flag WRAPLINE default_cell"
    using empty_flags [OF empty_default] by simp_all
  have "nr \<noteq> []" using len by (auto simp: nr_def)
  moreover have "\<not> has_flag LEADING_WIDE_CHAR_SPACER x" if "x \<in> set nr" for x
    using that s(5) blank(1) by (auto simp: nr_def split: if_splits)
  moreover have "\<not> has_flag WRAPLINE x" if x: "x \<in> set (butlast nr)" and i: "1 \<le> i" for x
  proof (cases "cols \<le> length w2")
    case True
    then show ?thesis using x i s(6) by (auto simp: nr_def)
  next
    case False
    then have "\<not> wraps w2" using full [OF i] by blast
    then have "\<not> has_flag WRAPLINE y" if "y \<in> set w2" for y
      using that s(6) i by (cases w2 rule: rev_cases) (auto simp: wraps_def)
    then show ?thesis using x blank(2) by (auto simp: nr_def dest!: in_set_butlastD split: if_splits)
  qed
  ultimately show "tidy i nr"
    using paired_append [OF s(4) paired_blank] n(1) by (auto simp: tidy_def nr_def dest: in_set_butlastD)
  show "length (row_body cs) \<le> cols + length (row_body nr) \<and> cols \<le> length (row_body nr) \<and> wraps cs"
    if i: "1 \<le> i" and wr: "wraps nr"
  proof -
    have cs: "wraps cs" "nr = w2" "cols \<le> length w2" using wraps [OF i] wr s(2) [OF i] full [OF i] by auto
    have "length (row_body cs) = length ?k + length w2" using s(3) [OF i cs(1)] by (metis length_append length_map)
    moreover have "length ?k \<le> cols" using row_body_length [of "kept_cells cols cs"] length_kept_cells [of cols cs] len by simp
    ultimately show ?thesis using cs n(2) by simp
  qed
qed

lemma carries_text:
  assumes r: "round_of cols i g cs w (Carries w2)" and t: "tidy i cs" and len: "2 \<le> cols" "cols \<le> length cs"
    and c: "cursor_within i g cs" and below: "tidy (i - 1) r"
  defines "piece \<equiv> set_last (add_flag WRAPLINE) (kept_cells cols cs)" and "front \<equiv> set_last (strip_flag WRAPLINE) w2"
  shows "text_lines (piece # (front @ r) # rows) = text_lines (cs # r # rows)" "tidy (i - 1) (front @ r)"
    "wraps (front @ r) = wraps r" "length (row_body (front @ r)) = length front + length (row_body r)"
proof -
  have w: "cut_off cols i g cs w" and w2: "w2 = trim_spacer (moved_cells cols cs w)" and co: "carried_over cols i w2"
    and single: "\<not> (ends_in_spacer (moved_cells cols cs w) \<and> length (moved_cells cols cs w) = 1)"
    using r by (auto simp: round_of_def Let_def)
  let ?k = "row_body (kept_cells cols cs)"
  have i: "1 \<le> i" "wraps w2" "w2 \<noteq> []" using co by (auto simp: carried_over_def wraps_def)
  note st = split_text [OF t len w _ single, folded w2]
  have s: "wraps cs" "?k @ map (strip_flag WRAPLINE) w2 = row_body cs" "paired w2"
    "\<forall>c \<in> set w2. \<not> has_flag LEADING_WIDE_CHAR_SPACER c" "\<forall>c \<in> set (butlast w2). \<not> has_flag WRAPLINE c"
    using st c i(1,2) by (auto simp: cursor_within_def)
  have ne: "kept_cells cols cs \<noteq> []" "r \<noteq> []" using length_kept_cells [of cols cs] len tidyD(1) [OF below] by fastforce+
  have flags: "\<not> has_flag LEADING_WIDE_CHAR_SPACER x \<and> \<not> has_flag WRAPLINE x" if "x \<in> set front" for x
    using that s(4,5) i(3) last_in_set [OF i(3)] by (auto simp: front_def set_last_def dest: in_set_butlastD)
  have sp: "ends_in_spacer (front @ r) = ends_in_spacer r" "butlast (front @ r) = front @ butlast r"
    using ne(2) by (simp_all add: ends_in_spacer_def butlast_append)
  have body: "row_body (front @ r) = map (strip_flag WRAPLINE) w2 @ row_body r"
    using sp by (simp add: row_body_def front_def)
  then show "length (row_body (front @ r)) = length front + length (row_body r)" by (simp add: front_def)
  show wr: "wraps (front @ r) = wraps r" using ne(2) by (simp add: wraps_def)
  show "tidy (i - 1) (front @ r)"
    using flags s(3) sp wr ne(2) tidyD [OF below] paired_append [of front r]
    by (auto simp: tidy_def front_def paired_set_last)
  have "text_lines (piece # (front @ r) # rows) = join_line (row_body cs) True (join_line (row_body r) (wraps r) (text_lines rows))"
    using ne(1) by (simp add: piece_def join_join body wr s(2) [symmetric])
  then show "text_lines (piece # (front @ r) # rows) = text_lines (cs # r # rows)" using s(1) by simp
qed

lemma spacer_text:
  assumes r: "round_of cols i g cs w Drops_Spacer" and t: "tidy i cs" and len: "2 \<le> cols" "cols \<le> length cs" and below: "length rows = i"
  shows "text_lines (set_last (add_flag WRAPLINE) (kept_cells cols cs) # rows) = text_lines (cs # rows)"
proof -
  let ?w = "moved_cells cols cs w"
  have w: "cut_off cols i g cs w" and sp: "ends_in_spacer ?w" "length ?w = 1" using r by (auto simp: round_of_def Let_def)
  obtain rest where rest: "drop cols cs = w @ rest" "list_all cell_is_empty rest" using w by (auto simp: cut_off_def)
  have c1: "1 \<le> cols" using len by simp
  obtain k where k: "drop k cs = ?w @ rest" using moved_suffix [OF rest(1) c1 len(2)] by blast
  obtain c where c: "?w = [c]" "has_flag LEADING_WIDE_CHAR_SPACER c" using sp by (cases ?w) (auto simp: ends_in_spacer_def)
  have "rest = []"
  proof (rule ccontr)
    assume "rest \<noteq> []"
    then have "c \<in> set (butlast (drop k cs))" using k c(1) by simp
    then have "c \<in> set (butlast cs)" by (auto simp: butlast_drop dest: in_set_dropD)
    then show False using tidyD(3) [OF t] c(2) by blast
  qed
  then have last: "last cs = c" using k c(1) last_drop [of k cs] by (cases "k < length cs") auto
  then have spacer: "ends_in_spacer cs" using c(2) tidyD(1) [OF t] by (simp add: ends_in_spacer_def)
  have "w \<noteq> []"
  proof
    assume "w = []"
    then have "length cs = cols" using w by (simp add: cut_off_def)
    then show False
      using paired_last [OF tidyD(2) [OF t] tidyD(1) [OF t]] c(1) \<open>w = []\<close> tidyD(1) [OF t]
      by (auto simp: moved_cells_def last_conv_nth)
  qed
  then have "length w = 1" "?w = w" using c(1) by (auto simp: moved_cells_def split: if_splits)
  have all: "take cols cs @ w = cs" using rest(1) \<open>rest = []\<close> append_take_drop_id [of cols cs] by simp
  then have "cols < length cs" using \<open>length w = 1\<close> len(2) by (metis length_append length_take less_add_one min_absorb2)
  then have "row_body (kept_cells cols cs) @ map (strip_flag WRAPLINE) w = map (strip_flag WRAPLINE) cs"
    using kept_text [OF t c1 len(2), of w] unfolding all \<open>?w = w\<close> by simp
  moreover obtain d where "w = [d]" using \<open>length w = 1\<close> by (cases w) auto
  ultimately have "map (strip_flag WRAPLINE) cs = row_body (kept_cells cols cs) @ [strip_flag WRAPLINE d]" by simp
  then have "row_body (kept_cells cols cs) = butlast (map (strip_flag WRAPLINE) cs)" by simp
  then have body: "row_body (kept_cells cols cs) = row_body cs" using spacer by (simp add: row_body_def map_butlast)
  have "kept_cells cols cs \<noteq> []" using length_kept_cells [of cols cs] len by fastforce
  moreover have "rows = [] \<or> wraps cs" using tidyD(6) [OF t spacer] below by (cases rows) auto
  ultimately show ?thesis using body by (auto simp: join_line_def)
qed

lemma fits_text:
  assumes t: "tidy i cs" and len: "1 \<le> cols" "cols \<le> length cs" and e: "list_all cell_is_empty (drop cols cs)" and below: "length rows = i"
  shows "text_lines (take cols cs # rows) = text_lines (cs # rows)"
proof (cases "length cs = cols")
  case False
  then have l: "cols < length cs" using len by simp
  have "take cols cs \<noteq> []" using len tidyD(1) [OF t] by auto
  then have inner: "last (take cols cs) \<in> set (butlast cs)"
    using last_in_set set_take_subset_set_take [of cols "length cs - 1" cs] l by (fastforce simp: butlast_conv_take)
  have "cell_is_empty (last cs)" using e l last_in_set [of "drop cols cs"] by (auto simp: list_all_iff last_drop)
  then have hard: "\<not> wraps cs" "\<not> ends_in_spacer cs" using empty_flags by (auto simp: wraps_def ends_in_spacer_def)
  have "row_body cs = map (strip_flag WRAPLINE) (take cols cs) @ map (strip_flag WRAPLINE) (drop cols cs)"
    using hard(2) by (simp add: row_body_def flip: map_append)
  moreover have "row_body (take cols cs) = map (strip_flag WRAPLINE) (take cols cs)"
    using tidyD(3) [OF t inner] by (simp add: row_body_def ends_in_spacer_def)
  ultimately have "trim_blank (row_body (take cols cs)) = trim_blank (row_body cs)"
    by (simp only: trim_blank_append [OF blank_strip [OF e]])
  moreover have "\<not> wraps (take cols cs)" if "1 \<le> i" using tidyD(4) [OF t inner that] by (auto simp: wraps_def)
  ultimately show ?thesis unfolding text_Cons using hard(1) below by (intro join_eq) (cases rows; auto)+
qed simp

section \<open>The inner loop\<close>

definition text_state :: "nat \<Rightarrow> cell list list \<Rightarrow> cell list list \<Rightarrow> grid \<Rightarrow> shrink_state \<Rightarrow> bool" where
  "text_state i text rows g = (\<lambda>(row, stack, g'). tidy i (row_inner row) \<and> cursor_within i g' (row_inner row) \<and>
     cursor_track i g g' \<and> text_lines (row_cells (rev stack) @ row_inner row # rows) = text \<and>
     (\<forall>r \<in> set stack. paired (row_inner r)))"

text \<open>The rows below with the carried cells in front of the first one.\<close>

definition carried :: "cell list option \<Rightarrow> cell list list \<Rightarrow> cell list list" where
  "carried buf rows = (case buf of None \<Rightarrow> rows | Some cells \<Rightarrow> (cells @ hd rows) # tl rows)"

definition text_result :: "nat \<Rightarrow> cell list list \<Rightarrow> cell list list \<Rightarrow> grid \<Rightarrow> shrink_result \<Rightarrow> bool" where
  "text_result i text rows g = (\<lambda>(buf, stack, g'). cursor_track i g g' \<and>
     (\<forall>cells. buf = Some cells \<longrightarrow> rows \<noteq> [] \<and> tidy (i - 1) (cells @ hd rows) \<and> wraps (cells @ hd rows) = wraps (hd rows) \<and>
        length (row_body (cells @ hd rows)) = length cells + length (row_body (hd rows))) \<and>
     text_lines (row_cells (rev stack) @ carried buf rows) = text \<and> (\<forall>r \<in> set stack. paired (row_inner r)))"

lemma cursor_track_trans: "cursor_track i g g' \<Longrightarrow> cursor_track i g' g'' \<Longrightarrow> cursor_track i g g''"
  by (auto simp: cursor_track_def)

lemma cursor_track_refl [simp]: "cursor_track i g g"
  by (simp add: cursor_track_def)

lemma next_row_inner: "row_inner (next_row cols w) = w @ replicate (cols - length w) default_cell"
  by (simp add: next_row_def row_from_vec_def resize_with_def)

lemma goes_on_cursor:
  assumes res: "row_result cols i g stack piece (Goes_On w2) (Inl (row, stack', g'))"
  shows "cursor_track i g g'"
    "cursor_within i g cs \<Longrightarrow> (1 \<le> i \<Longrightarrow> wraps nr \<Longrightarrow> length (row_body cs) \<le> cols + length (row_body nr) \<and> cols \<le> length (row_body nr) \<and> wraps cs)
      \<Longrightarrow> cursor_within i g' nr"
proof -
  have m: "g_lines g' = g_lines g"
    and c: "g_column g' = (if i = cursor_index g \<and> cols \<le> g_column g then g_column g - cols else g_column g)"
    and l: "g_line g' = (if i = cursor_index g \<and> g_column g < cols \<or> i < cursor_index g then max (g_line g - 1) 0 else g_line g)"
    using res movedD(4) by (auto simp: row_result_def)
  have up: "cursor_index g \<le> cursor_index g'" using m l by auto
  show t: "cursor_track i g g'" using up c l m by (auto simp: cursor_track_def)
  assume w: "cursor_within i g cs" and n: "1 \<le> i \<Longrightarrow> wraps nr \<Longrightarrow> length (row_body cs) \<le> cols + length (row_body nr) \<and> cols \<le> length (row_body nr) \<and> wraps cs"
  show "cursor_within i g' nr"
    unfolding cursor_within_def
  proof (intro impI, elim conjE)
    assume i: "1 \<le> i" "wraps nr" "i = cursor_index g'"
    then have "i = cursor_index g" using t up by (auto simp: cursor_track_def)
    then show "g_column g' < length (row_body nr)" using n [OF i(1,2)] w i(1) c by (auto simp: cursor_within_def)
  qed
qed

lemma text_step:
  assumes s: "text_state i text rows g (row, stack, g')" and row: "loose_row t row" "cols \<le> row_len row" and on: "on_line g'"
    and cols: "2 \<le> cols" and below: "length rows = i" "rows \<noteq> [] \<Longrightarrow> tidy (i - 1) (hd rows)"
    and r: "shrink_round True cols i (row, stack, g') = Some r"
  shows "case r of Inl s' \<Rightarrow> text_state i text rows g s' | Inr result \<Rightarrow> text_result i text rows g result"
proof -
  let ?cs = "row_inner row"
  have st: "tidy i ?cs" "cursor_within i g' ?cs" "cursor_track i g g'" "text_lines (row_cells (rev stack) @ ?cs # rows) = text"
    using s by (auto simp: text_state_def)
  have whole: "\<forall>r \<in> set stack. paired (row_inner r)" using s by (simp add: text_state_def)
  have len: "cols \<le> length ?cs" "1 \<le> cols" using row(2) cols by (simp_all add: row_len_def)
  obtain piece e r' where p': "shrink_round True cols i (row, stack, g') = Some r'" "row_result cols i g' stack piece e r'"
    "if e = Fits then row_inner piece = take cols ?cs \<and> (True \<longrightarrow> list_all cell_is_empty (drop cols ?cs) \<and> (i = cursor_index g' \<longrightarrow> g_column g' < cols))
     else True \<and> row_inner piece = set_last (add_flag WRAPLINE) (kept_cells cols ?cs) \<and> (\<exists>w. round_of cols i g' ?cs w e)"
    using shrink_round_Some [OF on row len(2), where i = i and reflow = True and stack = stack] by blast
  have p: "row_result cols i g' stack piece e r"
    "if e = Fits then row_inner piece = take cols ?cs \<and> list_all cell_is_empty (drop cols ?cs)
     else row_inner piece = set_last (add_flag WRAPLINE) (kept_cells cols ?cs) \<and> (\<exists>w. round_of cols i g' ?cs w e)"
    using p' r by (auto split: if_splits)
  have piece: "paired (row_inner piece)"
    using p(2) fitting_paired [OF tidyD(2) [OF st(1)]] kept_paired [OF tidyD(2) [OF st(1)] len(2,1)]
    by (auto simp: paired_set_last split: if_splits)
  have glue: "text_lines (row_cells (rev (piece # stack)) @ xs) = text" if "text_lines (row_inner piece # xs) = text_lines (?cs # rows)" for xs
    using text_below [OF that, of "row_cells (rev stack)"] st(4) by simp
  show ?thesis
  proof (cases e)
    case Fits
    then show ?thesis
      using p glue [of rows] fits_text [OF st(1) len(2,1) _ below(1)] st(3) piece whole by (auto simp: row_result_def text_result_def carried_def)
  next
    case Drops_Spacer
    then show ?thesis
      using p glue [of rows] spacer_text [OF _ st(1) cols len(1) below(1)] st(3) piece whole
      by (auto simp: row_result_def text_result_def carried_def)
  next
    case (Carries w2)
    then obtain w where w: "round_of cols i g' ?cs w (Carries w2)" using p(2) by auto
    have "1 \<le> i" using w by (auto simp: round_of_def carried_over_def Let_def)
    then obtain r' rows' where rows: "rows = r' # rows'" using below(1) by (cases rows) auto
    have tidy: "tidy (i - 1) r'" using below(2) rows by simp
    note c = carries_text [OF w st(1) cols len(1) st(2) tidy]
    show ?thesis
      using p Carries glue [of "(set_last (strip_flag WRAPLINE) w2 @ r') # rows'"] c(1) [of rows'] c(2-4) st(3) rows piece whole
      by (simp add: row_result_def text_result_def carried_def)
  next
    case (Goes_On w2)
    then obtain w where w: "round_of cols i g' ?cs w (Goes_On w2)" using p(2) by auto
    obtain g'' where res: "r = Inl (next_row cols w2, piece # stack, g'')" using p(1) Goes_On by (auto simp: row_result_def)
    note n = goes_on_text [OF w st(1) cols len(1) st(2) below(1), folded next_row_inner]
    note k = goes_on_cursor [OF p(1) [unfolded Goes_On res]]
    show ?thesis
      using piece whole p(2) Goes_On res n(1,2) k(2) [OF st(2) n(3)] cursor_track_trans [OF st(3) k(1)] glue [of "row_inner (next_row cols w2) # rows"]
      by (simp add: text_state_def)
  qed
qed

lemma rounds_text:
  assumes s: "rounds_inv t cols stack g s" "text_state i text rows g s" and cols: "2 \<le> cols"
    and below: "length rows = i" "rows \<noteq> [] \<Longrightarrow> tidy (i - 1) (hd rows)"
  shows "returns (shrink_rounds True cols i s) (\<lambda>(buf, stack', g'). moved g g' \<and> carried_ok t cols buf \<and>
    (\<exists>new. stack' = new @ stack \<and> new \<noteq> [] \<and> (\<forall>r \<in> set new. narrow_row t cols r)) \<and> text_result i text rows g (buf, stack', g'))"
proof (rule shrink_rounds_rule [where R = round_order and I = "\<lambda>s. rounds_inv t cols stack g s \<and> text_state i text rows g s"])
  show "wf round_order" by (simp add: round_order_def)
  show "rounds_inv t cols stack g s \<and> text_state i text rows g s" using s by blast
  fix s assume I: "rounds_inv t cols stack g s \<and> text_state i text rows g s"
  obtain row stack' g' where st: "s = (row, stack', g')" by (cases s)
  obtain res where res: "shrink_round True cols i s = Some res" "case res of Inl s' \<Rightarrow> rounds_inv t cols stack g s' \<and> (s', s) \<in> round_order
      | Inr result \<Rightarrow> case result of (buf, stack', g') \<Rightarrow> moved g g' \<and> carried_ok t cols buf \<and>
          (\<exists>new. stack' = new @ stack \<and> new \<noteq> [] \<and> (\<forall>r \<in> set new. narrow_row t cols r))"
    using rounds_step [OF conjunct1 [OF I] cols] by blast
  have row: "loose_row t row" "cols \<le> row_len row" "on_line g'" using I movedD(1) by (auto simp: st rounds_inv_def)
  have "case res of Inl s' \<Rightarrow> text_state i text rows g s' | Inr result \<Rightarrow> text_result i text rows g result"
    using text_step [OF conjunct2 [OF I, unfolded st] row cols below] res(1) st by simp
  then show "\<exists>r. shrink_round True cols i s = Some r \<and> (case r of
      Inl s' \<Rightarrow> (rounds_inv t cols stack g s' \<and> text_state i text rows g s') \<and> (s', s) \<in> round_order
    | Inr result \<Rightarrow> case result of (buf, stack', g') \<Rightarrow> moved g g' \<and> carried_ok t cols buf \<and>
        (\<exists>new. stack' = new @ stack \<and> new \<noteq> [] \<and> (\<forall>r \<in> set new. narrow_row t cols r)) \<and> text_result i text rows g (buf, stack', g'))"
    using res by (cases res) auto
qed

lemma track_next:
  assumes "cursor_track (Suc i) g g'" "cursor_index g1 = cursor_index g'" "i \<noteq> cursor_index g' \<Longrightarrow> g_column g1 = g_column g'"
    "cursor_track i g1 g2"
  shows "cursor_track i g g2"
  using assms by (auto simp: cursor_track_def)

text \<open>One row of the old buffer, with the cells the row above left over.\<close>

lemma shrink_row_text:
  assumes inv: "shrink_inv t cols g k (buf, stack, g')" and tx: "text_result (Suc i) text (row_inner row # rows) g (buf, stack, g')"
    and row: "loose_row t row" "cols \<le> row_len row" "tidy i (row_inner row)" "cursor_within i g (row_inner row)"
    and cols: "2 \<le> cols" and below: "length rows = i" "rows \<noteq> [] \<Longrightarrow> tidy (i - 1) (hd rows)"
  shows "returns (shrink_row True cols (i, row) (buf, stack, g')) (\<lambda>s. shrink_inv t cols g (Suc k) s \<and> text_result i text rows g s)"
proof -
  have m: "moved g g'" and buf: "carried_ok t cols buf" and k: "k \<le> length stack" and old: "\<forall>r \<in> set stack. narrow_row t cols r"
    using inv by (auto simp: shrink_inv_def)
  have track: "cursor_track (Suc i) g g'" and lines: "text_lines (row_cells (rev stack) @ carried buf (row_inner row # rows)) = text"
    using tx by (simp_all add: text_result_def)
  have whole: "\<forall>r \<in> set stack. paired (row_inner r)" using tx by (simp add: text_result_def)
  have same: "i = cursor_index g' \<Longrightarrow> i = cursor_index g \<and> g_column g' = g_column g"
    using track by (auto simp: cursor_track_def)
  have finish: "returns (shrink_rounds True cols i (row', stack, g1)) (\<lambda>s. shrink_inv t cols g (Suc k) s \<and> text_result i text rows g s)"
    if r: "loose_row t row'" "cols \<le> row_len row'" and g1: "moved g g1" "g_line g1 = g_line g'" "i \<noteq> cursor_index g' \<Longrightarrow> g_column g1 = g_column g'"
      and t: "tidy i (row_inner row')" "cursor_within i g1 (row_inner row')" "text_lines (row_cells (rev stack) @ row_inner row' # rows) = text" for row' g1
  proof (rule returns_mono [OF rounds_text])
    show "rounds_inv t cols stack g1 (row', stack, g1)" using r moved_refl [OF movedD(1) [OF g1(1)]] by (simp add: rounds_inv_def)
    show "text_state i text rows g1 (row', stack, g1)" using t whole by (simp add: text_state_def)
    fix s assume "case s of (buf, stack', g') \<Rightarrow> moved g1 g' \<and> carried_ok t cols buf \<and>
      (\<exists>new. stack' = new @ stack \<and> new \<noteq> [] \<and> (\<forall>r \<in> set new. narrow_row t cols r)) \<and> text_result i text rows g1 (buf, stack', g')"
    then obtain buf' new g2 where s: "s = (buf', new @ stack, g2)" "moved g1 g2" "carried_ok t cols buf'" "new \<noteq> []"
      "\<forall>r \<in> set new. narrow_row t cols r" "text_result i text rows g1 s" by (cases s) blast
    have "1 \<le> length new" using s(4) by (cases new) auto
    then have "shrink_inv t cols g (Suc k) s" using s moved_trans [OF g1(1) s(2)] k old by (auto simp: shrink_inv_def)
    moreover have "cursor_index g1 = cursor_index g'" using g1(2) movedD(4) [OF g1(1)] movedD(4) [OF m] by simp
    then have "cursor_track i g g2" using track_next [OF track _ g1(3)] s(1,6) by (simp add: text_result_def)
    ultimately show "shrink_inv t cols g (Suc k) s \<and> text_result i text rows g s" using s(1,6) by (simp add: text_result_def)
  qed (use cols below in simp_all)
  show ?thesis
  proof (cases buf)
    case None
    have "cursor_within i g' (row_inner row)" using row(4) same by (auto simp: cursor_within_def)
    then show ?thesis using None finish [OF row(1,2) m _ _ row(3)] lines by (simp add: shrink_row_def carried_def)
  next
    case (Some cells)
    have inner: "row_inner (row_append_front cells row) = cells @ row_inner row" by (simp add: row_append_front_def)
    have front: "loose_row t (row_append_front cells row)"
      using buf Some by (intro loose_append_front [OF row(1)]) (auto simp: carried_ok_def clean_cells_def)
    have len: "cols \<le> row_len (row_append_front cells row)" using row(2) by (simp add: row_append_front_def row_len_def)
    have c: "tidy i (cells @ row_inner row)" "wraps (cells @ row_inner row) = wraps (row_inner row)"
      "length (row_body (cells @ row_inner row)) = length cells + length (row_body (row_inner row))"
      using tx Some by (simp_all add: text_result_def)
    define g1 where "g1 = (if i = cursor_index g' then put_column (g_column g' + length cells) g' else g')"
    have g1: "moved g g1" "g_line g1 = g_line g'" "i \<noteq> cursor_index g' \<Longrightarrow> g_column g1 = g_column g'" "g_lines g1 = g_lines g'"
      using m moved_steps(3) [OF m] by (auto simp: g1_def put_defs)
    have "cursor_within i g1 (cells @ row_inner row)"
      unfolding cursor_within_def
    proof (intro impI, elim conjE)
      assume "1 \<le> i" "wraps (cells @ row_inner row)" "i = cursor_index g1"
      then have i: "i = cursor_index g'" "wraps (row_inner row)" using g1(2,4) c(2) by simp_all
      then have "g_column g < length (row_body (row_inner row))" using same [OF i(1)] row(4) \<open>1 \<le> i\<close> by (simp add: cursor_within_def)
      then show "g_column g1 < length (row_body (cells @ row_inner row))" using c(3) same [OF i(1)] i(1) by (simp add: g1_def put_defs)
    qed
    then have "returns (shrink_rounds True cols i (row_append_front cells row, stack, g1)) (\<lambda>s. shrink_inv t cols g (Suc k) s \<and> text_result i text rows g s)"
      using finish [OF front len g1(1,2,3)] c(1) lines Some by (simp add: inner carried_def)
    then show ?thesis using Some by (simp add: shrink_row_def cursor_buffer_line_Some [OF movedD(1) [OF m]] Let_def g1_def)
  qed
qed

lemma shrink_all_text:
  assumes "shrink_inv t cols g k s" "text_result (length rows) text (row_cells (rev rows)) g s" and cols: "2 \<le> cols"
    and "\<And>j. j < length rows \<Longrightarrow> loose_row t (rows ! j) \<and> cols \<le> row_len (rows ! j) \<and> tidy j (row_inner (rows ! j)) \<and>
      cursor_within j g (row_inner (rows ! j))"
  shows "returns (for_each (shrink_row True cols) (rev (List.enumerate 0 rows)) s)
    (\<lambda>(buf, stack, g'). shrink_inv t cols g (k + length rows) (buf, stack, g') \<and>
      text_lines (row_cells (rev stack)) = text \<and> (\<forall>r \<in> set stack. paired (row_inner r)))"
  using assms(1,2,4)
proof (induction rows arbitrary: s k rule: rev_induct)
  case Nil
  then show ?case by (cases s; cases "fst s") (auto simp: text_result_def carried_def)
next
  case (snoc row rows)
  obtain buf stack g' where s: "s = (buf, stack, g')" by (cases s)
  have row: "loose_row t row" "cols \<le> row_len row" "tidy (length rows) (row_inner row)" "cursor_within (length rows) g (row_inner row)"
    using snoc.prems(3) [of "length rows"] by simp_all
  have rows: "loose_row t (rows ! j) \<and> cols \<le> row_len (rows ! j) \<and> tidy j (row_inner (rows ! j)) \<and> cursor_within j g (row_inner (rows ! j))"
    if "j < length rows" for j
    using snoc.prems(3) [of j] that by (simp add: nth_append)
  have below: "row_cells (rev rows) \<noteq> [] \<Longrightarrow> tidy (length rows - 1) (hd (row_cells (rev rows)))"
    using rows [of "length rows - 1"] by (cases rows rule: rev_cases) simp_all
  have first: "returns (shrink_row True cols (length rows, row) s) (\<lambda>s. shrink_inv t cols g (Suc k) s \<and>
      text_result (length rows) text (row_cells (rev rows)) g s)"
    unfolding s by (rule shrink_row_text) (use snoc.prems(1,2) row cols below in \<open>simp_all add: s\<close>)
  show ?case
  proof -
    have "returns (Option.bind (shrink_row True cols (length rows, row) s) (for_each (shrink_row True cols) (rev (List.enumerate 0 rows))))
      (\<lambda>(buf, stack, g'). shrink_inv t cols g (Suc k + length rows) (buf, stack, g') \<and>
      text_lines (row_cells (rev stack)) = text \<and> (\<forall>r \<in> set stack. paired (row_inner r)))"
      unfolding returns_bind by (rule returns_mono [OF first]) (rule snoc.IH; use rows in blast)
    then show ?thesis by (simp add: enumerate_append_eq)
  qed
qed

section \<open>Narrowing a grid keeps its text\<close>

text \<open>The rows of the buffer, from the top, as the terminal writes them.\<close>

primrec tidy_rows :: "cell list list \<Rightarrow> bool" where
  "tidy_rows [] \<longleftrightarrow> True"
| "tidy_rows (cs # rows) \<longleftrightarrow> tidy (length rows) cs \<and> tidy_rows rows"

text \<open>The text of a grid, and a cursor that is not past the end of a row that wraps.\<close>

definition grid_text :: "grid \<Rightarrow> cell list list" where
  "grid_text g = text_lines (row_cells (buffer_rows g))"

definition cursor_in_text :: "grid \<Rightarrow> bool" where
  "cursor_in_text g \<longleftrightarrow> (let cs = row_inner (row_at g (g_line g)) in
     wraps cs \<and> g_line g + 1 < int (g_lines g) \<longrightarrow>
     g_column g + (if cur_input_needs_wrap (g_cursor g) then 1 else 0) < length (row_body cs))"

lemma tidy_rows_nth: "tidy_rows (row_cells (rev rows)) \<Longrightarrow> j < length rows \<Longrightarrow> tidy j (row_inner (rows ! j))"
  by (induction rows arbitrary: j rule: rev_induct) (auto simp: nth_append less_Suc_eq)

lemma buffer_rows_ring:
  assumes "grid_ok strict g"
  shows "buffer_rows g = rev (map (ring_at (g_raw g)) [0..<st_len (g_raw g)])" "st_len (g_raw g) = grid_history g + g_lines g"
proof -
  have st: "st_visible_lines (g_raw g) = g_lines g" using assms by (simp add: grid_ok_def)
  show len: "st_len (g_raw g) = grid_history g + g_lines g" using grid_history_len [OF assms] by linarith
  show "buffer_rows g = rev (map (ring_at (g_raw g)) [0..<st_len (g_raw g)])"
  proof (rule nth_equalityI)
    fix j assume "j < length (buffer_rows g)"
    then have j: "j < grid_history g + g_lines g" by (simp only: length_buffer_rows)
    then have "nat (int (g_lines g) - 1 - (int j - int (grid_history g))) = grid_history g + g_lines g - 1 - j" by linarith
    then show "buffer_rows g ! j = rev (map (ring_at (g_raw g)) [0..<st_len (g_raw g)]) ! j"
      using j len by (simp add: nth_buffer_rows line_at_def st rev_nth)
  qed (simp add: length_buffer_rows len)
qed

lemma buffer_rows_replace:
  assumes "g_raw g = storage_replace_inner rows raw" "grid_ok strict g"
  shows "buffer_rows g = rev rows"
proof -
  have "st_len (g_raw g) = length rows" using assms(1) by (simp add: storage_replace_inner_def)
  moreover have "map (ring_at (g_raw g)) [0..<length rows] = rows"
    by (rule nth_equalityI) (simp_all add: assms(1) ring_at_replace)
  ultimately show ?thesis using buffer_rows_ring(1) [OF assms(2)] by simp
qed

lemma settle_cursor_raw: "settle_cursor reflow cols g = Some g' \<Longrightarrow> g_raw g' = g_raw g"
  by (auto simp: settle_cursor_def put_defs bind_eq_Some_conv split: if_splits)

lemma shrink_columns_raw:
  assumes "shrink_columns reflow cols g = Some g'" "storage_take_all (g_raw g) = Some (rows, raw)"
    "for_each (shrink_row reflow cols) (rev (List.enumerate 0 rows)) (None, [], (unwrap_cursor reflow (g\<lparr>g_columns := cols\<rparr>))\<lparr>g_raw := raw\<rparr>) = Some (buf, stack, g2)"
  shows "g_raw g' = storage_replace_inner (take (g_max_scroll_limit g2 + g_lines g2) stack) (g_raw g2)"
  using assms by (auto simp: shrink_columns_def bind_eq_Some_conv Let_def clamp_saved_column_def dest!: settle_cursor_raw)

lemma cursor_in_text_within:
  assumes ok: "grid_ok strict g" and on: "on_line g" and c: "cursor_in_text g" and j: "j < st_len (g_raw g)"
    and g1: "cursor_index g1 = cursor_index g" "g_column g1 = g_column g + (if cur_input_needs_wrap (g_cursor g) then 1 else 0)"
  shows "cursor_within j g1 (row_inner (ring_at (g_raw g) j))"
  unfolding cursor_within_def
proof (intro impI, elim conjE)
  assume a: "1 \<le> j" "wraps (row_inner (ring_at (g_raw g) j))" "j = cursor_index g1"
  have "int j = int (g_lines g) - 1 - g_line g" using a(3) g1(1) on by (auto simp: on_line_def)
  moreover have "st_visible_lines (g_raw g) = g_lines g" using ok by (simp add: grid_ok_def)
  ultimately have "nat (int (st_visible_lines (g_raw g)) - 1 - g_line g) = j" "g_line g + 1 < int (g_lines g)" using a(1) by linarith+
  then have "row_at g (g_line g) = ring_at (g_raw g) j" "g_line g + 1 < int (g_lines g)" by (simp_all only: line_at_def)
  then show "g_column g1 < length (row_body (row_inner (ring_at (g_raw g) j)))"
    using c a(2) g1(2) by (simp add: cursor_in_text_def Let_def)
qed

lemma shrink_columns_text:
  assumes ok: "grid_ok strict g" and cur: "cursors_in g" and cols: "2 \<le> cols" "cols \<le> g_columns g"
    and tidy: "tidy_rows (row_cells (buffer_rows g))" and c: "cursor_in_text g"
    and g': "shrink_columns True cols g = Some g'" "grid_ok False g'" "g_lines g' = g_lines g" "g_max_scroll_limit g' = g_max_scroll_limit g"
  shows "\<exists>old. text_lines (old @ row_cells (buffer_rows g')) = grid_text g \<and> (old \<noteq> [] \<longrightarrow> grid_history g' = g_max_scroll_limit g') \<and>
    (\<forall>cs \<in> set (row_cells (buffer_rows g')). paired cs)"
proof -
  obtain raw where raw: "storage_take_all (g_raw g) = Some (map (ring_at (g_raw g)) [0..<st_len (g_raw g)], raw)"
    and rows: "\<And>k. k < st_len (g_raw g) \<Longrightarrow> row_len (ring_at (g_raw g) k) = g_columns g \<and> loose_row (st_transient (g_raw g)) (ring_at (g_raw g) k)"
    using take_all_rows [OF ok] by blast
  let ?t = "st_transient (g_raw g)" and ?rows = "map (ring_at (g_raw g)) [0..<st_len (g_raw g)]"
  define g1 where "g1 = (unwrap_cursor True (g\<lparr>g_columns := cols\<rparr>))\<lparr>g_raw := raw\<rparr>"
  have on: "on_line g" using cur by (simp add: cursors_in_def)
  then have on1: "on_line g1" by (simp add: on_line_def g1_def)
  have col1: "g_column g1 = g_column g + (if cur_input_needs_wrap (g_cursor g) then 1 else 0)"
    by (simp add: g1_def unwrap_cursor_def put_defs)
  have index1: "cursor_index g1 = cursor_index g" "g_lines g1 = g_lines g" "g_max_scroll_limit g1 = g_max_scroll_limit g"
    by (simp_all add: g1_def)
  note b = buffer_rows_ring [OF ok]
  have "returns (for_each (shrink_row True cols) (rev (List.enumerate 0 ?rows)) (None, [], g1))
    (\<lambda>(buf, stack, g'). shrink_inv ?t cols g1 (0 + length ?rows) (buf, stack, g') \<and>
      text_lines (row_cells (rev stack)) = grid_text g \<and> (\<forall>r \<in> set stack. paired (row_inner r)))"
  proof (rule shrink_all_text [OF _ _ cols(1)])
    show "shrink_inv ?t cols g1 0 (None, [], g1)" using moved_refl [OF on1] by (simp add: shrink_inv_def carried_ok_def)
    show "text_result (length ?rows) (grid_text g) (row_cells (rev ?rows)) g1 (None, [], g1)"
      using b(1) by (simp add: text_result_def carried_def grid_text_def)
    fix j assume j: "j < length ?rows"
    then have "tidy j (row_inner (?rows ! j))" using tidy b(1) by (intro tidy_rows_nth) simp_all
    then show "loose_row ?t (?rows ! j) \<and> cols \<le> row_len (?rows ! j) \<and> tidy j (row_inner (?rows ! j)) \<and> cursor_within j g1 (row_inner (?rows ! j))"
      using rows [of j] j cols(2) cursor_in_text_within [OF ok on c _ index1(1) col1, of j] by simp
  qed
  then obtain buf stack g2 where s: "for_each (shrink_row True cols) (rev (List.enumerate 0 ?rows)) (None, [], g1) = Some (buf, stack, g2)"
    "moved g1 g2" "text_lines (row_cells (rev stack)) = grid_text g" "\<forall>r \<in> set stack. paired (row_inner r)"
    by (auto simp: returns_def shrink_inv_def)
  let ?n = "g_max_scroll_limit g + g_lines g"
  have "g_raw g' = storage_replace_inner (take ?n stack) (g_raw g2)"
    using shrink_columns_raw [OF g'(1) raw s(1) [unfolded g1_def]] movedD(4,5) [OF s(2)] index1 by simp
  then have rows': "buffer_rows g' = rev (take ?n stack)" by (rule buffer_rows_replace [OF _ g'(2)])
  have "rev stack = rev (drop ?n stack) @ buffer_rows g'" by (simp add: rows' flip: rev_append)
  moreover have "grid_history g' = g_max_scroll_limit g'" if "drop ?n stack \<noteq> []"
  proof -
    have "length (buffer_rows g') = ?n" using that rows' by simp
    then show ?thesis unfolding length_buffer_rows using g'(3,4) by linarith
  qed
  moreover have "\<forall>cs \<in> set (row_cells (buffer_rows g')). paired cs" using s(4) by (auto simp: rows' dest: in_set_takeD)
  ultimately show ?thesis
    using s(3) by (intro exI [of _ "row_cells (rev (drop ?n stack))"]) (auto simp flip: map_append)
qed

end
