(* ===== verification/Resize_Join.thy ===== *)
theory Resize_Join
  imports Resize_Text
begin

text \<open>
  Widening a grid with reflow keeps its text: joining rows in \<open>Grid::grow_columns\<close> changes no logical line,
  and no row is lost at the bottom when the row of the cursor starts a line or is the last one.
\<close>

section \<open>Joining two rows keeps the text\<close>

lemma unwrapped_text:
  assumes t: "tidy i lr" and w: "wraps lr" and i: "1 \<le> i"
  shows "map (strip_flag WRAPLINE) (unwrapped_cells lr) = row_body lr" "paired (unwrapped_cells lr)"
    "\<forall>c \<in> set (unwrapped_cells lr). \<not> has_flag LEADING_WIDE_CHAR_SPACER c \<and> \<not> has_flag WRAPLINE c"
proof -
  have ne: "lr \<noteq> []" by (rule tidyD(1) [OF t])
  have eq: "unwrapped_cells lr = (if ends_in_spacer lr then butlast lr else set_last (strip_flag WRAPLINE) lr)"
    using ne by (simp add: unwrapped_cells_def Let_def ends_in_spacer_def set_last_def)
  show "map (strip_flag WRAPLINE) (unwrapped_cells lr) = row_body lr" by (simp add: eq row_body_def)
  have "paired (butlast lr)" if "ends_in_spacer lr"
    using paired_front [of "butlast lr" "[last lr]"] tidyD(2,5) [OF t] that ne by simp
  then show "paired (unwrapped_cells lr)" using tidyD(2) [OF t] by (simp add: eq paired_set_last)
  show "\<forall>c \<in> set (unwrapped_cells lr). \<not> has_flag LEADING_WIDE_CHAR_SPACER c \<and> \<not> has_flag WRAPLINE c"
    using tidyD(3,4) [OF t] i ne by (auto simp: eq set_last_def ends_in_spacer_def)
qed

lemma tidy_append:
  assumes "paired xs" "\<forall>c \<in> set xs. \<not> has_flag LEADING_WIDE_CHAR_SPACER c \<and> \<not> has_flag WRAPLINE c" "tidy i ys"
  shows "tidy i (xs @ ys)" "row_body (xs @ ys) = map (strip_flag WRAPLINE) xs @ row_body ys" "wraps (xs @ ys) = wraps ys"
proof -
  have ne: "ys \<noteq> []" by (rule tidyD(1) [OF assms(3)])
  then have sp: "ends_in_spacer (xs @ ys) = ends_in_spacer ys" "butlast (xs @ ys) = xs @ butlast ys" "wraps (xs @ ys) = wraps ys"
    by (simp_all add: ends_in_spacer_def wraps_def butlast_append)
  show "wraps (xs @ ys) = wraps ys" by (rule sp(3))
  show "row_body (xs @ ys) = map (strip_flag WRAPLINE) xs @ row_body ys" using sp by (simp add: row_body_def)
  show "tidy i (xs @ ys)"
    using tidyD [OF assms(3)] assms(1,2) sp ne paired_append by (auto simp: tidy_def)
qed

lemma tidy_drop:
  assumes "tidy i cs" "m < length cs"
  shows "tidy i (drop m cs)" "wraps (drop m cs) = wraps cs" "map (strip_flag WRAPLINE) (take m cs) @ row_body (drop m cs) = row_body cs"
proof -
  have sp: "ends_in_spacer (drop m cs) = ends_in_spacer cs" "wraps (drop m cs) = wraps cs" "last (drop m cs) = last cs"
    using assms(2) by (auto simp: ends_in_spacer_def wraps_def last_drop)
  show "wraps (drop m cs) = wraps cs" by (rule sp(2))
  show "tidy i (drop m cs)"
    using assms tidyD [OF assms(1)] paired_drop sp by (auto simp: tidy_def butlast_drop dest: in_set_dropD)
  have "take m cs @ butlast (drop m cs) = butlast cs"
    using assms(2) append_take_drop_id [of m "butlast cs"] by (simp add: butlast_drop take_butlast)
  then have "map (strip_flag WRAPLINE) (take m cs) @ map (strip_flag WRAPLINE) (butlast (drop m cs)) = map (strip_flag WRAPLINE) (butlast cs)"
    by (metis map_append)
  then show "map (strip_flag WRAPLINE) (take m cs) @ row_body (drop m cs) = row_body cs"
    using sp(1) by (simp add: row_body_def flip: map_append)
qed

lemma tidy_take:
  assumes t: "tidy i cs" and n: "1 \<le> n" "n < length cs"
  shows "\<forall>c \<in> set (take n cs). \<not> has_flag LEADING_WIDE_CHAR_SPACER c \<and> (1 \<le> i \<longrightarrow> \<not> has_flag WRAPLINE c)" "take n cs \<noteq> []"
proof -
  have "set (take n cs) \<subseteq> set (butlast cs)" using set_take_subset_set_take [of n "length cs - 1" cs] n by (simp add: butlast_conv_take)
  then show "\<forall>c \<in> set (take n cs). \<not> has_flag LEADING_WIDE_CHAR_SPACER c \<and> (1 \<le> i \<longrightarrow> \<not> has_flag WRAPLINE c)"
    using tidyD(3,4) [OF t] by blast
  show "take n cs \<noteq> []" using n by (cases cs) auto
qed

lemma join_text:
  assumes l: "tidy (Suc i) lr" "wraps lr" "length lr < cols" and r: "tidy i row" and below: "length rows = i"
  defines "cs \<equiv> unwrapped_cells lr"
  defines "n \<equiv> min (length row) (cols - length cs)"
  defines "wide \<equiv> has_flag WIDE_CHAR (row ! (n - 1))"
  defines "lr' \<equiv> cs @ (if wide then take (n - 1) row @ [spacer_cell] else take n row)"
  defines "row' \<equiv> drop (if wide then n - 1 else n) row"
  shows "list_all cell_is_empty row' \<Longrightarrow> text_lines (lr' # rows) = text_lines (lr # row # rows) \<and> tidy i lr' \<and> (1 \<le> i \<longrightarrow> wraps lr' = wraps row)"
    and "\<not> list_all cell_is_empty row' \<Longrightarrow> text_lines (set_last (add_flag WRAPLINE) lr' # row' # rows) = text_lines (lr # row # rows) \<and>
      tidy i row' \<and> wraps row' = wraps row \<and> length lr' = cols"
proof -
  note u = unwrapped_text [OF l(1,2), folded cs_def, simplified]
  have "length cs \<le> length lr" unfolding cs_def by (rule length_unwrapped_cells) (rule tidyD(1) [OF l(1)])
  then have cs: "length cs < cols" using l(3) by simp
  have ne: "row \<noteq> []" by (rule tidyD(1) [OF r])
  then have n: "1 \<le> n" "n \<le> length row" using cs by (cases row; simp add: n_def)+
  have both: "text_lines (lr # row # rows) = join_line (row_body lr @ row_body row) (wraps row) (text_lines rows)"
    using l(2) by (simp add: join_join)
  have wide_next: "n < length row \<and> has_flag WIDE_CHAR_SPACER (row ! n)" if wide
  proof -
    have p: "paired (drop (n - 1) row)" by (rule paired_drop [OF tidyD(2) [OF r]])
    have d: "drop (n - 1) row = row ! (n - 1) # drop n row" using n Cons_nth_drop_Suc [of "n - 1" row] by simp
    show ?thesis
    proof (cases "n < length row")
      case True
      then have "drop n row = row ! n # drop (Suc n) row" by (rule Cons_nth_drop_Suc [symmetric])
      then show ?thesis using p d that True by (simp add: wide_def)
    next
      case False
      then show ?thesis using p d that by (simp add: wide_def)
    qed
  qed
  show "text_lines (lr' # rows) = text_lines (lr # row # rows) \<and> tidy i lr' \<and> (1 \<le> i \<longrightarrow> wraps lr' = wraps row)"
    if e: "list_all cell_is_empty row'"
  proof -
    have "\<not> wide"
    proof
      assume w: wide
      then have "row ! n \<in> set row'" using wide_next n(1) by (auto simp: row'_def in_set_conv_nth intro!: exI [of _ 1])
      then show False using e wide_next [OF w] empty_flags(4) by (auto simp: list_all_iff)
    qed
    then have rows': "lr' = cs @ take n row" "row' = drop n row" by (simp_all add: lr'_def row'_def)
    show ?thesis
    proof (cases "n = length row")
      case True
      then have "lr' = cs @ row" using rows' by simp
      then show ?thesis using tidy_append [OF u(2,3) r] u(1) both by (simp add: lr'_def)
    next
      case False
      then have n': "n < length row" using n by simp
      have "cell_is_empty (last row)" using e n' last_in_set [of "drop n row"] by (auto simp: rows' list_all_iff last_drop)
      then have hard: "\<not> wraps row" "\<not> ends_in_spacer row" using empty_flags by (auto simp: wraps_def ends_in_spacer_def)
      note tk = tidy_take [OF r n(1) n']
      have "hd (drop n row) \<in> set (drop n row)" using n' by simp
      then have "\<not> has_flag WIDE_CHAR_SPACER (hd (drop n row))" using e empty_flags(4) unfolding rows'(2) list_all_iff by blast
      then have p: "paired lr'"
        using paired_append [OF u(2) paired_front [of "take n row" "drop n row"]] tidyD(2) [OF r] by (simp add: rows')
      have sp: "\<not> ends_in_spacer lr'" "1 \<le> i \<Longrightarrow> \<not> wraps lr'"
        using tk last_in_set [OF tk(2)] by (auto simp: rows' ends_in_spacer_def wraps_def)
      have "tidy i lr'"
        using p sp(1) tk u(3) by (auto simp: tidy_def rows' butlast_append dest: in_set_butlastD)
      moreover have "row_body row = map (strip_flag WRAPLINE) (take n row) @ map (strip_flag WRAPLINE) (drop n row)"
        using hard(2) by (simp add: row_body_def flip: map_append)
      then have "trim_blank (row_body lr') = trim_blank (row_body lr @ row_body row)"
        using trim_blank_append [OF blank_strip [OF e], of "row_body lr @ map (strip_flag WRAPLINE) (take n row)"] sp(1) u(1)
        by (simp add: row_body_def [of "cs @ take n row"] rows')
      then have "join_line (row_body lr') (wraps lr') (text_lines rows) = join_line (row_body lr @ row_body row) (wraps row) (text_lines rows)"
        by (rule join_eq) (use hard(1) sp(2) below in \<open>cases rows; auto\<close>)
      ultimately show ?thesis using both hard(1) sp(2) by simp
    qed
  qed
  show "text_lines (set_last (add_flag WRAPLINE) lr' # row' # rows) = text_lines (lr # row # rows) \<and>
      tidy i row' \<and> wraps row' = wraps row \<and> length lr' = cols"
    if e: "\<not> list_all cell_is_empty row'"
  proof -
    let ?m = "if wide then n - 1 else n"
    have "row' \<noteq> []" using e by auto
    then have m: "?m < length row" by (auto simp: row'_def split: if_splits)
    have n': "n < length row" using m wide_next by (auto split: if_splits)
    then have "n = cols - length cs" by (auto simp: n_def min_def split: if_splits)
    then have len: "length lr' = cols" using n n' cs by (simp add: lr'_def)
    have "row_body lr' = row_body lr @ map (strip_flag WRAPLINE) (take ?m row)"
    proof (cases wide)
      case True
      then show ?thesis using u(1) by (simp add: lr'_def row_body_def [of "cs @ _"] ends_in_spacer_def butlast_append)
    next
      case False
      note tk = tidy_take [OF r n(1) n']
      have "\<not> ends_in_spacer (cs @ take n row)" using tk last_in_set [OF tk(2)] by (auto simp: ends_in_spacer_def)
      then show ?thesis using u(1) False by (simp add: lr'_def row_body_def [of "cs @ _"])
    qed
    moreover note d = tidy_drop [OF r m, folded row'_def]
    moreover have "lr' \<noteq> []" using len cs by auto
    ultimately have "text_lines (set_last (add_flag WRAPLINE) lr' # row' # rows) = join_line (row_body lr @ row_body row) (wraps row) (text_lines rows)"
      by (simp add: join_join)
    then show ?thesis using both d(1,2) len by simp
  qed
qed

section \<open>The rows of a wider grid\<close>

text \<open>A finished row: as wide as the grid, or the end of a line.\<close>

definition solid_row :: "nat \<Rightarrow> cell list \<Rightarrow> bool" where
  "solid_row cols cs \<longleftrightarrow> cols \<le> length cs \<or> \<not> wraps cs \<and> \<not> ends_in_spacer cs"

text \<open>The cursor stays at its distance from the bottom until its row has been passed.\<close>

definition index_track :: "nat \<Rightarrow> grid \<Rightarrow> grid \<Rightarrow> bool" where
  "index_track i g g' \<longleftrightarrow> (cursor_index g \<le> i \<longrightarrow> cursor_index g' = cursor_index g) \<and> (i < cursor_index g \<longrightarrow> i \<le> cursor_index g')"

definition grow_text :: "nat \<Rightarrow> nat \<Rightarrow> cell list list \<Rightarrow> cell list list \<Rightarrow> grid \<Rightarrow> grow_state \<Rightarrow> bool" where
  "grow_text cols i text rows g = (\<lambda>(g', stack, delta). index_track i g g' \<and> (delta = 0 \<or> cursor_index g = 0) \<and>
     text_lines (row_cells (rev stack) @ rows) = text \<and>
     (case stack of [] \<Rightarrow> True | r # upper \<Rightarrow> tidy i (row_inner r) \<and>
        (1 \<le> cursor_index g \<and> i = Suc (cursor_index g) \<longrightarrow> \<not> wraps (row_inner r)) \<and> (\<forall>r \<in> set upper. solid_row cols (row_inner r))))"

lemma reflow_cursor_line:
  "reflow_cursor n row g = Some (g1, d) \<Longrightarrow> g_line g1 = g_line g \<and> g_lines g1 = g_lines g"
  by (auto simp: reflow_cursor_def bind_eq_Some_conv put_defs split: if_splits)

lemma row_removed_line [simp]: "g_line (row_removed i g) = g_line g" "g_lines (row_removed i g) = g_lines g"
  by (simp_all add: row_removed_def)

lemma row_last_mut_add: "row_inner (row_last_mut (add_flag f) r) = set_last (add_flag f) (row_inner r)"
  by (rule row_last_mut_set_last)

lemma should_reflow_wraps: "should_reflow True cols r \<longleftrightarrow> wraps (row_inner r) \<and> length (row_inner r) < cols"
  by (auto simp: should_reflow_def wraps_def row_len_def)

text \<open>The grid and the moved lines after a join: of the row of the cursor, or of another one.\<close>

lemma grow_join_parts:
  assumes j: "grow_join True cols i row last_row upper delta g = Some (g', stack', delta')" and on: "on_line g"
    and p: "pull_cells cols last_row row = Some (l, r, n)"
  shows "stack' = (if row_is_clear r then l # upper else r # row_last_mut (add_flag WRAPLINE) l # upper)"
    "g_lines g' = g_lines g" "i \<noteq> cursor_index g \<Longrightarrow> delta' = delta"
    "g_line g' = (if row_is_clear r \<and> i < cursor_index g then g_line g + 1 else g_line g)"
  using j p reflow_cursor_line [of n r g]
  by (auto simp: grow_join_def cursor_buffer_line_Some [OF on] Let_def bind_eq_Some_conv put_defs split: if_splits)

lemma grow_row_text:
  assumes inv: "grow_inv t cols g0 k (g', stack, delta)" and row: "stack_row t cols row"
    and s: "grow_text cols (Suc i) text (row_inner row # rows) g (g', stack, delta)"
    and tidy: "tidy i (row_inner row)" and c: "1 \<le> cursor_index g \<Longrightarrow> i = Suc (cursor_index g) \<Longrightarrow> \<not> wraps (row_inner row)"
    and below: "length rows = i" and r: "grow_row True cols (i, row) (g', stack, delta) = Some s'"
  shows "grow_text cols i text rows g s'"
proof (cases stack)
  case Nil
  then show ?thesis using r s tidy c by (auto simp: grow_row_def grow_text_def index_track_def)
next
  case (Cons last_row upper)
  let ?l = "row_inner last_row" and ?r = "row_inner row"
  have l: "tidy (Suc i) ?l" "1 \<le> cursor_index g \<Longrightarrow> i = cursor_index g \<Longrightarrow> \<not> wraps ?l" "\<forall>r \<in> set upper. solid_row cols (row_inner r)"
    and track: "index_track (Suc i) g g'" and d: "delta = 0 \<or> cursor_index g = 0"
    and lines: "text_lines (row_cells (rev upper) @ ?l # ?r # rows) = text"
    using s Cons by (auto simp: grow_text_def)
  have same: "index_track i g g'" using track by (auto simp: index_track_def)
  show ?thesis
  proof (cases "should_reflow True cols last_row")
    case False
    then have "solid_row cols ?l" using tidyD(6) [OF l(1)] by (auto simp: should_reflow_wraps solid_row_def)
    then show ?thesis
      using False Cons r l(3) tidy c d lines same by (auto simp: grow_row_def grow_text_def)
  next
    case True
    then have w: "wraps ?l" "length ?l < cols" by (simp_all add: should_reflow_wraps)
    have rows: "loose_row t last_row" "1 \<le> row_len last_row" "row_len last_row < cols" "loose_row t row" "1 \<le> row_len row"
      using inv row Cons w(2) by (auto simp: grow_inv_def stack_row_def row_len_def)
    have on: "on_line g'" using inv movedD(1) by (auto simp: grow_inv_def widening_def)
    let ?cs = "unwrapped_cells ?l"
    let ?n = "min (row_len row) (cols - length ?cs)"
    let ?w = "has_flag WIDE_CHAR (?r ! (?n - 1))"
    obtain l' r' n where p: "pull_cells cols last_row row = Some (l', r', n)"
      "row_inner l' = ?cs @ (if ?w then take (?n - 1) ?r @ [spacer_cell] else take ?n ?r)"
      "row_inner r' = drop (if ?w then ?n - 1 else ?n) ?r"
      using pull_cells_Some [OF rows] by blast
    note j = join_text [OF l(1) w tidy below, folded row_len_def, folded p(2,3)]
    obtain g2 stack2 d2 where s': "s' = (g2, stack2, d2)" by (cases s')
    have "grow_join True cols i row last_row upper delta g' = Some (g2, stack2, d2)"
      using r Cons True s' by (simp add: grow_row_def)
    note q = grow_join_parts [OF this on p(1)]
    have track2: "index_track i g g2"
      using track q(2,4) on by (auto simp: index_track_def on_line_def split: if_splits)
    have "i = cursor_index g' \<Longrightarrow> i = cursor_index g" using track by (auto simp: index_track_def)
    then have "i = cursor_index g' \<Longrightarrow> cursor_index g = 0" using l(2) w(1) by (metis less_one linorder_not_le)
    then have d2: "d2 = 0 \<or> cursor_index g = 0" using d q(3) by metis
    show ?thesis
    proof (cases "row_is_clear r'")
      case True
      have e: "list_all cell_is_empty (row_inner r')" using True by (simp add: row_is_clear_def)
      note j1 = j(1) [OF e]
      have "text_lines (row_cells (rev upper) @ row_inner l' # rows) = text"
        using text_below [OF conjunct1 [OF j1], of "row_cells (rev upper)"] lines by simp
      moreover have "1 \<le> cursor_index g \<Longrightarrow> i = Suc (cursor_index g) \<Longrightarrow> \<not> wraps (row_inner l')" using j1 c by auto
      ultimately show ?thesis using s' q(1) True j1 track2 d2 l(3) by (auto simp: grow_text_def)
    next
      case False
      then have "\<not> list_all cell_is_empty (row_inner r')" by (simp add: row_is_clear_def)
      note j2 = j(2) [OF this]
      have "text_lines (row_cells (rev upper) @ set_last (add_flag WRAPLINE) (row_inner l') # row_inner r' # rows) = text"
        using text_below [OF conjunct1 [OF j2], of "row_cells (rev upper)"] lines by simp
      moreover have "solid_row cols (set_last (add_flag WRAPLINE) (row_inner l'))" using j2 by (simp add: solid_row_def)
      ultimately show ?thesis
        using s' q(1) False j2 track2 d2 l(3) c by (auto simp: grow_text_def row_last_mut_set_last)
    qed
  qed
qed

lemma grow_all_text:
  assumes "grow_inv t cols g k s" "grow_text cols (length rows) text (row_cells (rev rows)) g s"
    and "\<And>j. j < length rows \<Longrightarrow> stack_row t cols (rows ! j) \<and> tidy j (row_inner (rows ! j)) \<and>
      (1 \<le> cursor_index g \<longrightarrow> j = Suc (cursor_index g) \<longrightarrow> \<not> wraps (row_inner (rows ! j)))"
  shows "returns (for_each (grow_row True cols) (rev (List.enumerate 0 rows)) s)
    (\<lambda>s. grow_inv t cols g (k + length rows) s \<and> grow_text cols 0 text [] g s)"
  using assms
proof (induction rows arbitrary: s k rule: rev_induct)
  case (snoc row rows)
  obtain g' stack delta where s: "s = (g', stack, delta)" by (cases s)
  have row: "stack_row t cols row" "tidy (length rows) (row_inner row)"
    "1 \<le> cursor_index g \<Longrightarrow> length rows = Suc (cursor_index g) \<Longrightarrow> \<not> wraps (row_inner row)"
    using snoc.prems(3) [of "length rows"] unfolding nth_append_length by simp_all
  have rows: "stack_row t cols (rows ! j) \<and> tidy j (row_inner (rows ! j)) \<and>
      (1 \<le> cursor_index g \<longrightarrow> j = Suc (cursor_index g) \<longrightarrow> \<not> wraps (row_inner (rows ! j)))" if "j < length rows" for j
    using snoc.prems(3) [of j] that by (simp add: nth_append)
  have first: "returns (grow_row True cols (length rows, row) s) (\<lambda>s. grow_inv t cols g (Suc k) s \<and>
      grow_text cols (length rows) text (row_cells (rev rows)) g s)"
  proof -
    obtain s' where s': "grow_row True cols (length rows, row) s = Some s'" "grow_inv t cols g (Suc k) s'"
      using grow_row_Some [OF snoc.prems(1) [unfolded s] row(1), of True "length rows"] by (auto simp: returns_def s)
    have "grow_text cols (length rows) text (row_cells (rev rows)) g s'"
      by (rule grow_row_text [OF snoc.prems(1) [unfolded s] row(1) _ row(2) row(3)]) (use snoc.prems(2) s s'(1) in simp_all)
    then show ?thesis using s' by simp
  qed
  have "returns (Option.bind (grow_row True cols (length rows, row) s) (for_each (grow_row True cols) (rev (List.enumerate 0 rows))))
    (\<lambda>s. grow_inv t cols g (Suc k + length rows) s \<and> grow_text cols 0 text [] g s)"
    unfolding returns_bind by (rule returns_mono [OF first]) (rule snoc.IH; use rows in blast)
  then show ?case by (simp add: enumerate_append_eq)
qed simp

lemma row_grow_inner: "row_inner (row_grow cols r) = row_inner r @ replicate (cols - length (row_inner r)) default_cell"
  by (auto simp: row_grow_def resize_with_def)

lemma grown_body:
  assumes "\<not> ends_in_spacer cs"
  shows "row_body (cs @ replicate n default_cell) = row_body cs @ replicate n default_cell"
proof -
  have d: "\<not> has_flag LEADING_WIDE_CHAR_SPACER default_cell" "\<not> has_flag WRAPLINE default_cell" using empty_flags [OF empty_default] by simp_all
  have "\<not> ends_in_spacer (cs @ replicate n default_cell)"
    using assms d(1) by (cases "n = 0") (auto simp: ends_in_spacer_def last_append)
  then show ?thesis using assms strip_plain [OF d(2)] by (simp add: row_body_def)
qed

lemma solid_grown:
  assumes "solid_row cols cs"
  shows "trim_blank (row_body (cs @ replicate (cols - length cs) default_cell)) = trim_blank (row_body cs)"
    "wraps (cs @ replicate (cols - length cs) default_cell) = wraps cs"
    "wraps cs \<Longrightarrow> cs @ replicate (cols - length cs) default_cell = cs"
proof -
  have d: "\<not> has_flag WRAPLINE default_cell" using empty_flags [OF empty_default] by simp_all
  show "trim_blank (row_body (cs @ replicate (cols - length cs) default_cell)) = trim_blank (row_body cs)"
    using assms grown_body [of cs "cols - length cs"] trim_blank_append [of "replicate (cols - length cs) default_cell"]
    by (auto simp: solid_row_def list_all_iff)
  show "wraps (cs @ replicate (cols - length cs) default_cell) = wraps cs"
    using assms d by (auto simp: solid_row_def wraps_def last_append)
  show "wraps cs \<Longrightarrow> cs @ replicate (cols - length cs) default_cell = cs" using assms by (auto simp: solid_row_def)
qed

lemma grown_text:
  assumes "\<forall>cs \<in> set (butlast rows). solid_row cols cs" "rows \<noteq> [] \<Longrightarrow> \<not> ends_in_spacer (last rows)"
  shows "text_lines (map (\<lambda>cs. cs @ replicate (cols - length cs) default_cell) rows) = text_lines rows"
  using assms
proof (induction rows)
  case (Cons cs rows)
  let ?f = "\<lambda>cs. cs @ replicate (cols - length cs) default_cell"
  show ?case
  proof (cases "rows = []")
    case True
    have "row_body (?f cs) = row_body cs @ replicate (cols - length cs) default_cell"
      using Cons.prems(2) True by (intro grown_body) simp
    then have "trim_blank (row_body (?f cs)) = trim_blank (row_body cs)" by (simp add: trim_blank_append list_all_iff)
    then show ?thesis using True by (simp add: join_line_def)
  next
    case False
    note g = solid_grown [of cols cs]
    have s: "solid_row cols cs" using Cons.prems(1) False by simp
    have "text_lines (map ?f rows) = text_lines rows" using Cons.IH Cons.prems False by simp
    then have "text_lines (map ?f (cs # rows)) = join_line (row_body (?f cs)) (wraps (?f cs)) (text_lines rows)" by simp
    also have "\<dots> = join_line (row_body cs) (wraps cs) (text_lines rows)"
      by (rule join_eq) (use g [OF s] in auto)
    finally show ?thesis by simp
  qed
qed simp

lemma pull_down_same:
  assumes p: "pull_down delta stack g = Some (stack', g')" and on: "on_line g"
    and none: "delta = 0 \<or> cursor_index g = 0 \<or> length stack = g_lines g"
  shows "stack' = stack \<and> g_raw g' = g_raw g"
proof (cases "delta = 0")
  case False
  then have "min (cursor_index g) (length stack - g_lines g) = 0" using none by auto
  then show ?thesis
    using p False by (auto simp: pull_down_def cursor_buffer_line_Some [OF on] bind_eq_Some_conv usize_sub_def Let_def put_defs split: if_splits)
qed (use p in \<open>simp add: pull_down_def\<close>)

text \<open>Nothing is lost below a cursor whose row does not continue the row above, or which is at the bottom.\<close>

definition cursor_line_starts :: "grid \<Rightarrow> bool" where
  "cursor_line_starts g \<longleftrightarrow> g_line g + 1 = int (g_lines g) \<or> g_line g = - int (grid_history g) \<or>
     \<not> wraps (row_inner (row_at g (g_line g - 1)))"

lemma line_starts_index:
  assumes ok: "grid_ok strict g" and on: "on_line g" and h: "cursor_line_starts g"
    and j: "j < st_len (g_raw g)" "1 \<le> cursor_index g" "j = Suc (cursor_index g)"
  shows "\<not> wraps (row_inner (ring_at (g_raw g) j))"
proof -
  have len: "st_len (g_raw g) = grid_history g + g_lines g" by (rule buffer_rows_ring(2) [OF ok])
  have "int j = int (g_lines g) - g_line g" using j(3) on by (auto simp: on_line_def)
  moreover have "st_visible_lines (g_raw g) = g_lines g" using ok by (simp add: grid_ok_def)
  ultimately have "nat (int (st_visible_lines (g_raw g)) - 1 - (g_line g - 1)) = j" "g_line g + 1 \<noteq> int (g_lines g)" "g_line g \<noteq> - int (grid_history g)"
    using j len on by (auto simp: on_line_def)
  then show ?thesis using h by (simp add: cursor_line_starts_def line_at_def)
qed

lemma grow_columns_raw:
  assumes "grow_columns reflow cols g = Some g'" "storage_take_all (g_raw g) = Some (rows, raw)"
    "for_each (grow_row reflow cols) (rev (List.enumerate 0 rows)) ((unwrap_cursor reflow (g\<lparr>g_columns := cols\<rparr>))\<lparr>g_raw := raw\<rparr>, [], 0) = Some (g2, stack, delta)"
    "fill_viewport cols stack g2 = Some (stack3, g3)" "pull_down delta stack3 g3 = Some (stack4, g4)"
  shows "g_raw g' = storage_replace_inner (map (row_grow cols) stack4) (g_raw g4)"
  using assms by (auto simp: grow_columns_def Let_def)

lemma blank_row_inner: "1 \<le> cols \<Longrightarrow> row_new cols = Some r \<Longrightarrow> row_inner r = replicate cols default_cell"
  by (auto simp: row_new_Some blank_row_def cell_of_color_def default_cell_def)

lemma fill_viewport_rows:
  assumes f: "fill_viewport cols stack g = Some (stack', g')" and cols: "1 \<le> cols"
  shows "\<exists>n. row_cells (map (row_grow cols) stack') = replicate n (replicate cols default_cell) @ row_cells (map (row_grow cols) stack) \<and>
    (if n = 0 then stack' = stack \<and> g' = g else length stack' = g_lines g) \<and> g_lines g' = g_lines g"
  using f blank_row_inner [OF cols]
  by (cases "length stack < g_lines g")
    (auto simp: fill_viewport_def bind_eq_Some_conv Let_def put_defs row_grow_inner intro!: exI [of _ "g_lines g - length stack"])

lemma grow_columns_text:
  assumes ok: "grid_ok False g" and cur: "cursors_in g" and cols: "g_columns g < cols"
    and tidy: "tidy_rows (row_cells (buffer_rows g))" and c: "cursor_line_starts g"
    and g': "grow_columns True cols g = Some g'" "grid_ok False g'" "g_lines g' = g_lines g"
  shows "\<exists>rows n. row_cells (buffer_rows g') = rows @ replicate n (replicate cols default_cell) \<and> text_lines rows = grid_text g \<and>
    (0 < n \<longrightarrow> grid_history g' = 0)"
proof -
  obtain raw where raw: "storage_take_all (g_raw g) = Some (map (ring_at (g_raw g)) [0..<st_len (g_raw g)], raw)"
    and rows: "\<And>k. k < st_len (g_raw g) \<Longrightarrow> row_len (ring_at (g_raw g) k) = g_columns g \<and> loose_row (st_transient (g_raw g)) (ring_at (g_raw g) k)"
    using take_all_rows [OF ok] by blast
  let ?t = "st_transient (g_raw g)" and ?rows = "map (ring_at (g_raw g)) [0..<st_len (g_raw g)]"
  define g1 where "g1 = (unwrap_cursor True (g\<lparr>g_columns := cols\<rparr>))\<lparr>g_raw := raw\<rparr>"
  have on: "on_line g" "g_column g < g_columns g" using cur cursors_inD by auto
  have w: "widening cols g1 g1"
    using on cols unwrap_cursor_column [of True "g\<lparr>g_columns := cols\<rparr>"]
    by (auto simp: widening_def g1_def on_line_def intro!: moved_refl)
  have index1: "cursor_index g1 = cursor_index g" "g_lines g1 = g_lines g" by (simp_all add: g1_def)
  have size: "1 \<le> g_columns g" "1 \<le> g_lines g" using grid_ok_lines [OF ok] by auto
  note b = buffer_rows_ring [OF ok]
  have "returns (for_each (grow_row True cols) (rev (List.enumerate 0 ?rows)) (g1, [], 0))
    (\<lambda>s. grow_inv ?t cols g1 (0 + length ?rows) s \<and> grow_text cols 0 (grid_text g) [] g1 s)"
  proof (rule grow_all_text)
    show "grow_inv ?t cols g1 0 (g1, [], 0)" using w by (simp add: grow_inv_def)
    show "grow_text cols (length ?rows) (grid_text g) (row_cells (rev ?rows)) g1 (g1, [], 0)"
      using b(1) by (simp add: grow_text_def grid_text_def index_track_def)
    fix j assume j: "j < length ?rows"
    then have "tidy j (row_inner (?rows ! j))" using tidy b(1) by (intro tidy_rows_nth) simp_all
    then show "stack_row ?t cols (?rows ! j) \<and> tidy j (row_inner (?rows ! j)) \<and>
      (1 \<le> cursor_index g1 \<longrightarrow> j = Suc (cursor_index g1) \<longrightarrow> \<not> wraps (row_inner (?rows ! j)))"
      using rows [of j] j cols size(1) line_starts_index [OF ok on(1) c, of j] unfolding index1(1) by (simp add: stack_row_def)
  qed
  then obtain g2 stack delta where s: "for_each (grow_row True cols) (rev (List.enumerate 0 ?rows)) (g1, [], 0) = Some (g2, stack, delta)"
    "grow_inv ?t cols g1 (length ?rows) (g2, stack, delta)" "grow_text cols 0 (grid_text g) [] g1 (g2, stack, delta)"
    by (auto simp: returns_def)
  have st: "widening cols g1 g2" "\<forall>r \<in> set stack. stack_row ?t cols r" using s(2) by (simp_all add: grow_inv_def)
  have t: "delta = 0 \<or> cursor_index g2 = 0" "text_lines (row_cells (rev stack)) = grid_text g"
    using s(3) by (auto simp: grow_text_def index_track_def)
  obtain stack3 g3 where f3: "fill_viewport cols stack g2 = Some (stack3, g3)" "widening cols g1 g3" "\<forall>r \<in> set stack3. stack_row ?t cols r"
    "length stack3 = max (g_lines g) (length stack)"
    using fill_viewport_Some [OF st] size(2) index1(2) by (auto simp: returns_def)
  have "g_lines g1 \<le> length stack3" using f3(4) index1(2) by simp
  then obtain stack4 g4 where f4: "pull_down delta stack3 g3 = Some (stack4, g4)"
    using pull_down_Some [OF f3(2,3), of delta] size(2) index1(2) by (auto simp: returns_def)
  have "1 \<le> cols" using cols size by simp
  then obtain n where n: "row_cells (map (row_grow cols) stack3) = replicate n (replicate cols default_cell) @ row_cells (map (row_grow cols) stack)"
    "if n = 0 then stack3 = stack \<and> g3 = g2 else length stack3 = g_lines g2" "g_lines g3 = g_lines g2"
    using fill_viewport_rows [OF f3(1)] by blast
  have "on_line g3" using f3(2) movedD(1) by (auto simp: widening_def)
  then have same: "stack4 = stack3" by (rule conjunct1 [OF pull_down_same [OF f4]]) (use n(2,3) t(1) in \<open>auto split: if_splits\<close>)
  have "g_raw g' = storage_replace_inner (map (row_grow cols) stack3) (g_raw g4)"
    using grow_columns_raw [OF g'(1) raw s(1) [unfolded g1_def] f3(1) f4] same by simp
  then have rows': "buffer_rows g' = rev (map (row_grow cols) stack3)" by (rule buffer_rows_replace [OF _ g'(2)])
  let ?old = "row_cells (rev stack)"
  have "row_cells (buffer_rows g') = row_cells (rev (map (row_grow cols) stack)) @ replicate n (replicate cols default_cell)"
    unfolding rows' rev_map [symmetric] n(1) by (simp add: rev_map)
  moreover have "row_cells (rev (map (row_grow cols) stack)) = map (\<lambda>cs. cs @ replicate (cols - length cs) default_cell) ?old"
    by (simp add: row_grow_inner rev_map comp_def)
  moreover have "text_lines (map (\<lambda>cs. cs @ replicate (cols - length cs) default_cell) ?old) = text_lines ?old"
  proof (rule grown_text)
    show "\<forall>cs \<in> set (butlast ?old). solid_row cols cs" using s(3) by (cases stack) (auto simp: grow_text_def)
    show "?old \<noteq> [] \<Longrightarrow> \<not> ends_in_spacer (last ?old)" using s(3) tidyD(7) by (cases stack) (auto simp: grow_text_def)
  qed
  moreover have "grid_history g' = 0" if "0 < n"
  proof -
    have "length (buffer_rows g') = g_lines g2" using that n(2) rows' by simp
    moreover have "g_lines g2 = g_lines g" using st(1) movedD(4) index1(2) by (auto simp: widening_def)
    ultimately show ?thesis unfolding length_buffer_rows using g'(3) by linarith
  qed
  ultimately show ?thesis using t(2) by auto
qed

end
