(* ===== verification/Resize_Spec.thy ===== *)
theory Resize_Spec
  imports Resize_Join
begin

text \<open>
  What a resize of a grid promises, on \<open>Grid::resize\<close> as a whole: it ends without a panic, a change of the
  height keeps the rows, a change of the width keeps the text, and the anchor carries the cursor. Where
  the code falls short of that, the theorems give the grids.
\<close>

section \<open>A change of the width alone\<close>

lemma change_width_rows:
  fixes reflow :: bool
  assumes ok: "grid_ok False g" and c: "cursors_in g" and cols: "2 \<le> cols" "cols \<noteq> g_columns g"
  defines "r \<equiv> (if g_columns g < cols then grow_columns (reflow \<and> g_reflow_on_grow g) cols g else shrink_columns reflow cols g)"
  shows "\<exists>g1 g'. r = Some g1 \<and> reshaped (g_lines g) cols g g1 \<and> change_width reflow cols g = Some g' \<and> moved g1 g'"
proof -
  note i = cursors_inD [OF c]
  obtain a where a: "anchor_cursor g = Some a" using anchor_cursor_Some [OF ok i(1)] by blast
  obtain g1 where g1: "r = Some g1" "reshaped (g_lines g) cols g g1"
    using grow_columns_returns [OF ok i(1,2,5,6,4), of cols "reflow \<and> g_reflow_on_grow g"]
      shrink_columns_returns [OF ok i(1,5,6) _ cols(1), of reflow] cols(2)
    unfolding r_def returns_def by (cases "g_columns g < cols") auto
  have "returns (case x of None \<Rightarrow> Some g1 | Some a \<Rightarrow> restore_cursor_anchor a g1) (moved g1)" for x
  proof (cases x)
    case (Some a)
    note q = reshaped_grid_ok [OF g1(2)] and c1 = cursors_inD [OF reshaped_cursors [OF g1(2)]]
    show ?thesis
      using restore_cursor_anchor_returns [of False g1 a] q c1(1,2) Some by (auto elim!: returns_mono)
  qed (use g1(2) cursors_inD(1) [OF reshaped_cursors] in \<open>auto intro: moved_refl\<close>)
  note restore = this
  let ?b = "g_columns g < cols \<and> reflow \<and> g_reflow_on_grow g \<or> g_columns g > cols \<and> reflow"
  obtain x where x: "(if ?b then anchor_cursor g else Some None) = Some x" using a by (cases ?b) auto
  have "r = (if g_columns g < cols then grow_columns (reflow \<and> g_reflow_on_grow g) cols g
      else if g_columns g > cols then shrink_columns reflow cols g else Some g)"
    using cols(2) by (auto simp: r_def)
  note this [symmetric, unfolded g1(1)]
  then have "change_width reflow cols g = (case x of None \<Rightarrow> Some g1 | Some a \<Rightarrow> restore_cursor_anchor a g1)"
    unfolding change_width_def x bind.bind_lunit by (simp only: bind.bind_lunit)
  then show ?thesis using g1 restore [of x] by (auto simp: returns_def)
qed

lemma mapped_cursor:
  "buffer_rows (map_cursor f g) = buffer_rows g" "g_columns (map_cursor f g) = g_columns g" "g_lines (map_cursor f g) = g_lines g"
  "g_max_scroll_limit (map_cursor f g) = g_max_scroll_limit g" "g_raw (map_cursor f g) = g_raw g"
  "grid_text (map_cursor f g) = grid_text g"
  by (simp_all add: map_cursor_def buffer_rows_def grid_dims_def grid_text_def)

lemma resize_same_height:
  "resize_impl reflow conpty (g_lines g) cols g =
     map_option (map_cursor (\<lambda>c. c\<lparr>cur_template := cur_template (g_cursor g)\<rparr>))
       (change_width reflow cols (map_cursor (\<lambda>c. c\<lparr>cur_template := default_cell\<rparr>) g))"
  by (cases "change_width reflow cols (map_cursor (\<lambda>c. c\<lparr>cur_template := default_cell\<rparr>) g)")
    (simp_all add: resize_impl_parts change_height_def mapped_cursor)

lemma moved_rows: "moved g g' \<Longrightarrow> buffer_rows g' = buffer_rows g \<and> grid_history g' = grid_history g"
  using movedD [of g g'] by (simp add: buffer_rows_def)

text \<open>The rows of a grid of another width are those its \<open>grow_columns\<close> or \<open>shrink_columns\<close> leaves.\<close>

lemma resize_width_rows:
  assumes ok: "grid_ok strict g" and c: "cursors_in g" and cols: "2 \<le> cols" "cols \<noteq> g_columns g"
  defines "g0 \<equiv> map_cursor (\<lambda>c. c\<lparr>cur_template := default_cell\<rparr>) g"
  shows "\<exists>g1 g'. (if g_columns g < cols then grow_columns (reflow \<and> g_reflow_on_grow g) cols g0 else shrink_columns reflow cols g0) = Some g1 \<and>
    reshaped (g_lines g) cols g0 g1 \<and> resize_impl reflow conpty (g_lines g) cols g = Some g' \<and>
    buffer_rows g' = buffer_rows g1 \<and> g_columns g' = cols \<and> grid_history g' = grid_history g1 \<and> g_max_scroll_limit g' = g_max_scroll_limit g"
proof -
  have g0: "grid_ok False g0" "cursors_in g0" "g_columns g0 = g_columns g" "g_lines g0 = g_lines g" "g_reflow_on_grow g0 = g_reflow_on_grow g"
    "g_max_scroll_limit g0 = g_max_scroll_limit g"
    using grid_ok_weaken [OF ok] c by (simp_all add: g0_def map_cursor_def cursors_in_def saved_on_line_def on_line_def)
  obtain g1 g' where g1: "(if g_columns g < cols then grow_columns (reflow \<and> g_reflow_on_grow g) cols g0 else shrink_columns reflow cols g0) = Some g1"
    "reshaped (g_lines g) cols g0 g1" "change_width reflow cols g0 = Some g'" "moved g1 g'"
    using change_width_rows [OF g0(1,2) cols(1), of reflow] cols(2) unfolding g0(3-5) by blast
  have "g_columns g1 = cols" "g_max_scroll_limit g1 = g_max_scroll_limit g" using g1(2) g0(6) by (simp_all add: reshaped_def)
  then show ?thesis
    using g1 moved_rows [OF g1(4)] movedD(3,5) [OF g1(4)]
    by (simp add: resize_same_height g0_def [symmetric] mapped_cursor)
qed

section \<open>A change of the height alone\<close>

lemma width_kept: "change_width reflow (g_columns g) g = Some g"
  by (simp add: change_width_def)

lemma resize_same_width:
  assumes "change_height conpty lines (map_cursor (\<lambda>c. c\<lparr>cur_template := default_cell\<rparr>) g) = Some g1" "g_columns g1 = g_columns g"
  shows "resize_impl reflow conpty lines (g_columns g) g = Some (map_cursor (\<lambda>c. c\<lparr>cur_template := cur_template (g_cursor g)\<rparr>) g1)"
  unfolding resize_impl_parts assms(1) bind.bind_lunit assms(2) [symmetric] width_kept ..

text \<open>How far the rows move down, and what is left of the history.\<close>

definition height_shift :: "bool \<Rightarrow> nat \<Rightarrow> grid \<Rightarrow> int \<Rightarrow> bool" where
  "height_shift conpty lines g shift \<longleftrightarrow>
     (if g_lines g \<le> lines then shift = (if conpty then 0 else int (min (grid_history g) (lines - g_lines g)))
      else (if conpty then max (int lines - int (g_lines g)) (- g_line g) \<le> shift \<and> shift \<le> - max 0 (g_line g + 1 - int lines)
            else shift = - max 0 (g_line g + 1 - int lines)))"

definition height_history :: "bool \<Rightarrow> nat \<Rightarrow> grid \<Rightarrow> int \<Rightarrow> nat" where
  "height_history conpty lines g shift =
     (if g_lines g \<le> lines
      then if conpty then min (grid_history g + (lines - g_lines g)) (g_max_scroll_limit g) - (lines - g_lines g)
           else grid_history g - (lines - g_lines g)
      else min (grid_history g + nat (- shift)) (g_max_scroll_limit g))"

lemma change_height_rows:
  assumes ok: "grid_ok strict g" and c: "cursors_in g" and lines: "1 \<le> lines"
  shows "\<exists>g' shift. change_height conpty lines g = Some g' \<and> height_shift conpty lines g shift \<and>
    other_height strict lines (height_history conpty lines g shift) shift (min (int (g_lines g) + shift) (int lines)) g g'"
proof -
  note i = cursors_inD [OF c]
  have on: "0 \<le> g_line g" "g_line g < int (g_lines g)" using i(1) by (simp_all add: on_line_def)
  show ?thesis
  proof (cases "g_lines g < lines")
    case True
    let ?f = "if conpty then 0 else min (grid_history g) (lines - g_lines g)"
    have f: "min (int (g_lines g) + int ?f) (int lines) = int (g_lines g + ?f)" using True by auto
    obtain g' where g': "grow_lines conpty lines g = Some g'" "other_height strict lines
      (if conpty then min (grid_history g + (lines - g_lines g)) (g_max_scroll_limit g) - (lines - g_lines g) else grid_history g - (lines - g_lines g))
      (int ?f) (int (g_lines g + ?f)) g g'"
      using grow_lines_returns [OF ok _ i(3), of lines conpty] True by (auto simp: returns_def)
    show ?thesis
      using g' True f by (intro exI [of _ g'] exI [of _ "int ?f"]) (simp add: change_height_def height_shift_def height_history_def)
  next
    case False
    show ?thesis
    proof (cases "g_lines g = lines")
      case True
      have "g = g\<lparr>g_cursor := (g_cursor g)\<lparr>cur_point := Point (g_line g) (g_column g)\<rparr>\<rparr>" by (cases "cur_point (g_cursor g)") simp
      then have "g_cursor g = (g_cursor g)\<lparr>cur_point := Point (g_line g + 0) (g_column g)\<rparr>" by (cases "cur_point (g_cursor g)") simp
      moreover have "g_saved_cursor g = (g_saved_cursor g)\<lparr>cur_point := Point (line (cur_point (g_saved_cursor g))) (column (cur_point (g_saved_cursor g)))\<rparr>"
        by (cases "cur_point (g_saved_cursor g)") simp
      ultimately have "other_height strict lines (height_history conpty lines g 0) 0 (min (int (g_lines g) + 0) (int lines)) g g"
        using True ok i(3,5,6) unfolding other_height_def by (auto simp: height_history_def grid_ok_def)
      then show ?thesis using True by (intro exI [of _ g] exI [of _ 0]) (simp add: change_height_def height_shift_def)
    next
      case neq: False
      then have less: "lines \<le> g_lines g" "\<not> g_lines g \<le> lines" using False by auto
      obtain r where r: "shrink_scroll_amount conpty lines g = Some r" "r \<le> g_lines g - lines" "int r \<le> g_line g" "g_line g < int lines + int r"
        "\<not> conpty \<longrightarrow> r = nat (g_line g) + 1 - lines"
        using shrink_scroll_amount_Some [OF ok i(1) lines less(1), of conpty] by blast
      obtain g' where g': "shrink_lines conpty lines g = Some g'"
        "other_height strict lines (min (grid_history g + r) (g_max_scroll_limit g)) (- int r) (int lines) g g'"
        using shrink_lines_returns [OF ok i(1) lines less(1) i(3) r(1)] by (auto simp: returns_def)
      have m: "min (int (g_lines g) + - int r) (int lines) = int lines" using r(2) less(1) by linarith
      have "max (int lines - int (g_lines g)) (- g_line g) \<le> - int r" "- int r \<le> - max 0 (g_line g + 1 - int lines)"
        using r(2-4) less(1) by linarith+
      moreover have "\<not> conpty \<Longrightarrow> int r = max 0 (g_line g + 1 - int lines)" using r(5) on(1) by linarith
      ultimately have "height_shift conpty lines g (- int r)" using less(2) by (cases conpty) (simp_all add: height_shift_def)
      then show ?thesis
        using g' less m by (intro exI [of _ g'] exI [of _ "- int r"]) (simp add: change_height_def height_history_def)
    qed
  qed
qed

lemma resize_height_rows:
  assumes "grid_ok strict g" "cursors_in g" "1 \<le> lines"
  shows "\<exists>g' shift. resize_impl reflow conpty lines (g_columns g) g = Some g' \<and> height_shift conpty lines g shift \<and>
    grid_ok strict g' \<and> cursors_in g' \<and> g_columns g' = g_columns g \<and> g_max_scroll_limit g' = g_max_scroll_limit g \<and> g_lines g' = lines \<and> cur_point (g_cursor g') = Point (g_line g + shift) (g_column g) \<and>
    grid_history g' = height_history conpty lines g shift \<and>
    (\<forall>l. - int (grid_history g') \<le> l \<and> l < min (int (g_lines g) + shift) (int lines) \<longrightarrow> row_at g' l = row_at g (l - shift)) \<and>
    (\<forall>l. min (int (g_lines g) + shift) (int lines) \<le> l \<and> l < int lines \<longrightarrow> (strict \<longrightarrow> row_at g' l = blank_row (g_columns g) (Named Background)))"
proof -
  let ?g = "map_cursor (\<lambda>c. c\<lparr>cur_template := default_cell\<rparr>) g"
  have g: "grid_ok strict ?g" "cursors_in ?g" "grid_dims ?g = grid_dims g" "g_raw ?g = g_raw g" "g_columns ?g = g_columns g" "g_lines ?g = g_lines g"
    "cur_point (g_cursor ?g) = cur_point (g_cursor g)" "g_max_scroll_limit ?g = g_max_scroll_limit g" "cell_bg (cur_template (g_cursor ?g)) = Named Background"
    using assms by (simp_all add: map_cursor_def cursors_in_def saved_on_line_def on_line_def grid_dims_def default_cell_def)
  obtain g1 shift where g1: "change_height conpty lines ?g = Some g1" "height_shift conpty lines ?g shift"
    "other_height strict lines (height_history conpty lines ?g shift) shift (min (int (g_lines ?g) + shift) (int lines)) ?g g1"
    using change_height_rows [OF g(1,2) assms(3)] by blast
  have same: "height_shift conpty lines ?g = height_shift conpty lines g" "height_history conpty lines ?g = height_history conpty lines g"
    using g(3,6-8) by (simp_all add: height_shift_def height_history_def fun_eq_iff)
  have "g_columns g1 = g_columns g" using g1(3) g(5) by (simp add: other_height_def)
  note r = resize_same_width [OF g1(1) this, of reflow]
  have within: "0 \<le> g_line g + shift" "g_line g + shift < int lines"
    using g1(2) cursors_inD(1) [OF assms(2)] assms(3) unfolding same
    by (auto simp: height_shift_def on_line_def split: if_splits)
  let ?g' = "map_cursor (\<lambda>c. c\<lparr>cur_template := cur_template (g_cursor g)\<rparr>) g1"
  have "g_raw ?g' = g_raw g1" "grid_ok strict ?g' = grid_ok strict g1" "grid_history ?g' = grid_history g1" "g_lines ?g' = g_lines g1"
    "cur_point (g_cursor ?g') = cur_point (g_cursor g1)"
    by (simp_all add: map_cursor_def grid_dims_def)
  moreover have "cursors_in ?g'" "g_columns ?g' = g_columns g" "g_max_scroll_limit ?g' = g_max_scroll_limit g"
    using g1(3) g(5,6,8) cursors_inD [OF g(2)] within
    by (auto simp: map_cursor_def other_height_def cursors_in_def on_line_def saved_on_line_def)
  ultimately show ?thesis
    using r g1(2,3) g(4-7,9) unfolding same other_height_def erased_def
    by (intro exI [of _ ?g'] exI [of _ shift]) (simp add: reset_row_def)
qed

section \<open>Grids for the witnesses\<close>

definition char_cell :: "nat \<Rightarrow> cell" where
  "char_cell c = default_cell\<lparr>cell_c := c\<rparr>"

text \<open>A row of the given width that shows the given characters, and wraps or ends there.\<close>

definition char_row :: "bool \<Rightarrow> nat \<Rightarrow> nat list \<Rightarrow> row" where
  "char_row wrapped n cs =
     (let cells = map char_cell cs @ replicate (n - length cs) default_cell
      in \<lparr>row_inner = (if wrapped then set_last (add_flag WRAPLINE) cells else cells), row_occ = n\<rparr>)"

text \<open>A grid of four columns with a history of up to ten rows, its rows from the top, and its cursor.\<close>

definition grid_showing :: "row list \<Rightarrow> nat \<Rightarrow> point \<Rightarrow> bool \<Rightarrow> grid" where
  "grid_showing rows lines p pending =
     \<lparr>g_cursor = default_cursor\<lparr>cur_point := p, cur_input_needs_wrap := pending\<rparr>, g_saved_cursor = default_cursor,
      g_raw = \<lparr>st_inner = rev rows, st_zero = 0, st_visible_lines = lines, st_len = length rows, st_transient = False, st_images = False\<rparr>,
      g_columns = 4, g_lines = lines, g_display_offset = 0, g_max_scroll_limit = 10, g_scrolled_out = 0, g_reflow_on_grow = True\<rparr>"

lemma char_cell_plain [simp]: "\<not> transient_cell (char_cell c)"
  by (simp add: char_cell_def transient_cell_def default_cell_def cell_inline_marker_def)

lemma char_row_loose:
  assumes "length cs \<le> n"
  shows "row_std strict n (char_row w n cs)" "row_clean (char_row w n cs)"
proof -
  let ?cells = "map char_cell cs @ replicate (n - length cs) default_cell"
  have clean: "clean_cells False ?cells" by (auto simp: clean_cells_def)
  then have "clean_cells False (set_last (add_flag WRAPLINE) ?cells)" by (rule set_last_clean) simp
  with clean show "row_clean (char_row w n cs)" by (simp add: char_row_def row_clean_def clean_cells_def list_all_iff Let_def)
  show "row_std strict n (char_row w n cs)"
    using assms by (simp add: char_row_def row_std_def row_wf_def row_ok_def Let_def length_set_last(1))
qed

lemma grid_showing_ok:
  assumes "1 \<le> lines" "lines \<le> length rows" "length rows \<le> lines + 10"
    and "\<forall>r \<in> set rows. row_std strict 4 r \<and> row_clean r"
  shows "grid_ok strict (grid_showing rows lines p pending)"
  using assms by (auto simp: grid_ok_def storage_ok_def grid_showing_def grid_dims_def history_size_def list_all_iff)

lemma showing_simps [simp]:
  "g_lines (grid_showing rows lines p pending) = lines" "g_columns (grid_showing rows lines p pending) = 4"
  by (simp_all add: grid_showing_def)

text \<open>A wrapped line below a single one, the cursor in the first row of the wrapped one.\<close>

definition two_lines :: "nat \<Rightarrow> grid" where
  "two_lines l = grid_showing [char_row False 4 [49], char_row True 4 [50, 51, 52, 53], char_row False 4 [54, 55], char_row False 4 []]
     4 (Point (int l) 1) False"

lemma two_lines_ok: "grid_ok strict (two_lines l)" "l < 4 \<Longrightarrow> cursors_in (two_lines l)"
proof -
  show "grid_ok strict (two_lines l)" unfolding two_lines_def
    by (rule grid_showing_ok) (auto simp: char_row_loose)
  show "cursors_in (two_lines l)" if "l < 4"
    using that by (simp add: two_lines_def grid_showing_def cursors_in_def on_line_def saved_on_line_def default_cursor_def)
qed

section \<open>Properties\<close>

text \<open>
  C5: every resize ends and never panics. Whatever the grid holds, its resize to at least one line and two
  columns, with or without reflow and in either mode, returns a well-formed grid of the new size with
  both cursors on it and the templates and limit of before; the loop that splits rows always ends.
\<close>

theorem resize_ends:
  assumes "grid_ok strict g" "cursors_in g" "1 \<le> lines" "2 \<le> cols"
  shows "\<exists>g'. resize_impl reflow conpty lines cols g = Some g' \<and> grid_ok False g' \<and> cursors_in g' \<and>
    g_lines g' = lines \<and> g_columns g' = cols \<and> g_max_scroll_limit g' = g_max_scroll_limit g \<and>
    cur_template (g_cursor g') = cur_template (g_cursor g)"
proof -
  obtain g' where "resize_impl reflow conpty lines cols g = Some g'" "reshaped lines cols g g'"
    using resize_returns [OF assms] by (rule returnsE)
  then show ?thesis using reshaped_cursors by (auto simp: reshaped_def)
qed

theorem resize_ends_witness:
  "\<exists>g'. resize_impl True False 2 3 (two_lines 1) = Some g' \<and> cursors_in g' \<and> g_lines g' = 2 \<and> g_columns g' = 3"
  using resize_ends [of False "two_lines 1" 2 3 True False] two_lines_ok(1) two_lines_ok(2) [of 1] by auto

text \<open>
  C18: a change of the height keeps the rows and the cursor on its row. Growing pulls rows out of the history
  as far as there are any (not in ConPTY mode) and adds blank rows below; shrinking pushes only
  as many rows into the history as the cursor needs, dropping rows below it; each row keeps its
  content under the shift, and the history changes by exactly the rows pulled or pushed, up to its limit.
\<close>

theorem height_change_keeps_rows:
  assumes "grid_ok True g" "cursors_in g" "1 \<le> lines"
  shows "\<exists>g' shift. resize_impl reflow conpty lines (g_columns g) g = Some g' \<and> height_shift conpty lines g shift \<and>
    grid_ok True g' \<and> g_lines g' = lines \<and> cur_point (g_cursor g') = Point (g_line g + shift) (g_column g) \<and>
    grid_history g' = height_history conpty lines g shift \<and>
    (\<forall>l. - int (grid_history g') \<le> l \<and> l < min (int (g_lines g) + shift) (int lines) \<longrightarrow> row_at g' l = row_at g (l - shift)) \<and>
    (\<forall>l. min (int (g_lines g) + shift) (int lines) \<le> l \<and> l < int lines \<longrightarrow> row_at g' l = blank_row (g_columns g) (Named Background))"
  using resize_height_rows [OF assms, of reflow conpty] by auto

theorem height_change_keeps_rows_witness:
  "\<exists>g'. resize_impl True False 2 4 (two_lines 3) = Some g' \<and> grid_history g' = 2 \<and> g_line g' = 1 \<and>
    row_at g' (- 2) = char_row False 4 [49] \<and> row_at g' 0 = char_row False 4 [54, 55]"
proof -
  have size: "g_columns (two_lines 3) = 4" "g_lines (two_lines 3) = 4" "grid_history (two_lines 3) = 0" "g_line (two_lines 3) = 3"
    "g_max_scroll_limit (two_lines 3) = 10"
    by (simp_all add: two_lines_def grid_showing_def grid_dims_def history_size_def)
  obtain g' shift where g': "resize_impl True False 2 4 (two_lines 3) = Some g'" "height_shift False 2 (two_lines 3) shift"
    "cur_point (g_cursor g') = Point (g_line (two_lines 3) + shift) (g_column (two_lines 3))"
    "grid_history g' = height_history False 2 (two_lines 3) shift"
    "\<forall>l. - int (grid_history g') \<le> l \<and> l < min (int (g_lines (two_lines 3)) + shift) (int 2) \<longrightarrow> row_at g' l = row_at (two_lines 3) (l - shift)"
    using height_change_keeps_rows [OF two_lines_ok(1,2), of 3 2 True False] unfolding size(1) by auto
  have shift: "shift = - 2" using g'(2) size by (simp add: height_shift_def)
  have "grid_history g' = 2" using g'(4) size by (simp add: height_history_def shift)
  moreover have "row_at (two_lines 3) 0 = char_row False 4 [49]" "row_at (two_lines 3) 2 = char_row False 4 [54, 55]"
    by (simp_all add: line_at_def ring_at_def two_lines_def grid_showing_def)
  ultimately show ?thesis using g'(1,3,5) size shift by auto
qed

text \<open>
  C19: lowering a window and raising it again restores the screen. With the cursor in the last line and room in
  the history, shrinking the height and growing it back gives every row of buffer, the history and
  the cursor as they were.
\<close>

theorem height_roundtrip:
  assumes g: "grid_ok True g" "cursors_in g" and lines: "1 \<le> lines" "lines \<le> g_lines g"
    and bottom: "g_line g + 1 = int (g_lines g)" and room: "grid_history g + (g_lines g - lines) \<le> g_max_scroll_limit g"
  shows "\<exists>g1 g2. grid_resize reflow lines (g_columns g) g = Some g1 \<and> grid_resize reflow (g_lines g) (g_columns g) g1 = Some g2 \<and>
    grid_history g1 = grid_history g + (g_lines g - lines) \<and> buffer_rows g2 = buffer_rows g \<and> grid_history g2 = grid_history g \<and>
    cur_point (g_cursor g2) = cur_point (g_cursor g)"
proof -
  let ?d = "g_lines g - lines"
  obtain g1 s1 where g1: "grid_resize reflow lines (g_columns g) g = Some g1" "height_shift False lines g s1" "grid_ok True g1" "cursors_in g1"
    "g_columns g1 = g_columns g" "g_max_scroll_limit g1 = g_max_scroll_limit g" "g_lines g1 = lines"
    "cur_point (g_cursor g1) = Point (g_line g + s1) (g_column g)" "grid_history g1 = height_history False lines g s1"
    "\<And>l. - int (grid_history g1) \<le> l \<Longrightarrow> l < min (int (g_lines g) + s1) (int lines) \<Longrightarrow> row_at g1 l = row_at g (l - s1)"
    using resize_height_rows [OF g lines(1), of reflow False] unfolding grid_resize_def by blast
  have s1: "s1 = - int ?d" using g1(2) lines bottom by (cases "g_lines g = lines") (simp_all add: height_shift_def)
  have h1: "grid_history g1 = grid_history g + ?d" using g1(9) lines room by (auto simp: height_history_def s1)
  have "1 \<le> g_lines g" using lines by simp
  then obtain g2 s2 where g2: "grid_resize reflow (g_lines g) (g_columns g) g1 = Some g2" "height_shift False (g_lines g) g1 s2"
    "g_lines g2 = g_lines g" "cur_point (g_cursor g2) = Point (g_line g1 + s2) (g_column g1)"
    "grid_history g2 = height_history False (g_lines g) g1 s2"
    "\<And>l. - int (grid_history g2) \<le> l \<Longrightarrow> l < min (int (g_lines g1) + s2) (int (g_lines g)) \<Longrightarrow> row_at g2 l = row_at g1 (l - s2)"
    using resize_height_rows [OF g1(3,4), of "g_lines g" reflow False] unfolding grid_resize_def g1(5) by blast
  have s2: "s2 = int ?d" using g2(2) lines(2) h1 g1(7) by (auto simp: height_shift_def)
  have h2: "grid_history g2 = grid_history g" using g2(5) lines(2) h1 g1(7) by (simp add: height_history_def)
  have "row_at g2 l = row_at g l" if "- int (grid_history g) \<le> l" "l < int (g_lines g)" for l
    using g2(6) [of l] g1(10) [of "l - s2"] that lines(2) unfolding h2 h1 g1(7) s1 s2 by simp
  then have "buffer_rows g2 = buffer_rows g" unfolding buffer_rows_def topmost_grid h2 g2(3) by (intro map_cong) auto
  moreover have "cur_point (g_cursor g2) = cur_point (g_cursor g)"
    using g2(4) g1(8) by (cases "cur_point (g_cursor g)") (simp add: s1 s2)
  ultimately show ?thesis using g1(1) g2(1) h1 h2 by blast
qed

theorem height_roundtrip_witness:
  "\<exists>g1 g2. grid_resize True 2 4 (two_lines 3) = Some g1 \<and> grid_resize True 4 4 g1 = Some g2 \<and> grid_history g1 = 2 \<and>
    buffer_rows g2 = buffer_rows (two_lines 3) \<and> g_line g2 = 3"
proof -
  have size: "g_columns (two_lines 3) = 4" "g_lines (two_lines 3) = 4" "grid_history (two_lines 3) = 0" "g_line (two_lines 3) = 3"
    "g_max_scroll_limit (two_lines 3) = 10"
    by (simp_all add: two_lines_def grid_showing_def grid_dims_def history_size_def)
  show ?thesis using height_roundtrip [OF two_lines_ok(1) two_lines_ok(2), of 3 2 True] size unfolding size(1,2) by auto
qed

text \<open>
  C3: narrowing keeps the text. With reflow, a grid made narrower shows the same logical lines, up to
  empty cells at their ends; no wide character is split, each has its spacer beside it in its row; and
  only the oldest rows are dropped, when the history is full. Asked is that the rows are as the
  terminal writes them (\<open>tidy_rows\<close>) and that a cursor in a row that wraps is on a cell of its text
  (\<open>cursor_in_text\<close>).
\<close>

theorem narrowing_keeps_text:
  assumes g: "grid_ok strict g" "cursors_in g" and cols: "2 \<le> cols" "cols < g_columns g"
    and tidy: "tidy_rows (row_cells (buffer_rows g))" and c: "cursor_in_text g"
  shows "\<exists>g' dropped. grid_resize True (g_lines g) cols g = Some g' \<and> g_columns g' = cols \<and>
    text_lines (dropped @ row_cells (buffer_rows g')) = grid_text g \<and> (dropped \<noteq> [] \<longrightarrow> grid_history g' = g_max_scroll_limit g) \<and>
    (\<forall>cs \<in> set (row_cells (buffer_rows g')). paired cs)"
proof -
  let ?g = "map_cursor (\<lambda>c. c\<lparr>cur_template := default_cell\<rparr>) g"
  have "cols \<noteq> g_columns g" "\<not> g_columns g < cols" using cols(2) by simp_all
  then obtain g1 g' where g1: "shrink_columns True cols ?g = Some g1" "reshaped (g_lines g) cols ?g g1"
    "grid_resize True (g_lines g) cols g = Some g'" "buffer_rows g' = buffer_rows g1" "g_columns g' = cols" "grid_history g' = grid_history g1"
    using resize_width_rows [OF g cols(1), of True False] unfolding grid_resize_def by auto
  have same: "grid_ok strict ?g" "cursors_in ?g" "cursor_in_text ?g"
    using g c by (simp_all add: map_cursor_def cursors_in_def saved_on_line_def on_line_def cursor_in_text_def)
  have "cols \<le> g_columns ?g" "tidy_rows (row_cells (buffer_rows ?g))" using cols(2) tidy by (simp_all add: mapped_cursor)
  then obtain dropped where d: "text_lines (dropped @ row_cells (buffer_rows g1)) = grid_text ?g" "dropped \<noteq> [] \<longrightarrow> grid_history g1 = g_max_scroll_limit g1"
    "\<forall>cs \<in> set (row_cells (buffer_rows g1)). paired cs"
    using shrink_columns_text [OF same(1,2) cols(1) _ _ same(3) g1(1)] g1(2) unfolding reshaped_def mapped_cursor by blast
  have "g_max_scroll_limit g1 = g_max_scroll_limit g" using g1(2) by (simp add: reshaped_def mapped_cursor)
  then show ?thesis using g1 d unfolding mapped_cursor by (intro exI [of _ g'] exI [of _ dropped]) simp
qed

lemma two_lines_text: "grid_text (two_lines l) = [[char_cell 49], map char_cell [50, 51, 52, 53, 54, 55], []]"
  by code_simp

lemma two_lines_tidy: "tidy_rows (row_cells (buffer_rows (two_lines l)))" "cursor_in_text (two_lines 1)" "cursor_line_starts (two_lines 1)"
  "g_reflow_on_grow (two_lines l)" "g_columns (two_lines l) = 4" "g_lines (two_lines l) = 4"
  by code_simp+

theorem narrowing_keeps_text_witness:
  "\<exists>g' dropped. grid_resize True 4 3 (two_lines 1) = Some g' \<and>
    text_lines (dropped @ row_cells (buffer_rows g')) = [[char_cell 49], map char_cell [50, 51, 52, 53, 54, 55], []]"
  using narrowing_keeps_text [OF two_lines_ok(1) two_lines_ok(2) _ _ two_lines_tidy(1,2), of 3]
  unfolding two_lines_text two_lines_tidy(5,6) by auto

text \<open>
  C4: widening keeps the text. With reflow, a grid made wider shows the same logical lines, up to empty cells
  at their ends, followed by blank rows only when there is no history to fill the screen. Asked is
  that the grid reflows when it grows (\<open>g_reflow_on_grow\<close>), that the rows are as the terminal writes them
  (\<open>tidy_rows\<close>) and that the row of the cursor starts a line or is the bottom one
  (\<open>cursor_line_starts\<close>).
\<close>

theorem widening_keeps_text:
  assumes g: "grid_ok strict g" "cursors_in g" and cols: "g_columns g < cols" and reflow: "g_reflow_on_grow g"
    and tidy: "tidy_rows (row_cells (buffer_rows g))" and c: "cursor_line_starts g"
  shows "\<exists>g' rows n. grid_resize True (g_lines g) cols g = Some g' \<and> g_columns g' = cols \<and>
    row_cells (buffer_rows g') = rows @ replicate n (replicate cols default_cell) \<and> text_lines rows = grid_text g \<and>
    (0 < n \<longrightarrow> grid_history g' = 0)"
proof -
  let ?g = "map_cursor (\<lambda>c. c\<lparr>cur_template := default_cell\<rparr>) g"
  have two: "2 \<le> cols" "cols \<noteq> g_columns g" using cols grid_ok_lines [OF g(1)] by simp_all
  then obtain g1 g' where g1: "grow_columns True cols ?g = Some g1" "reshaped (g_lines g) cols ?g g1"
    "grid_resize True (g_lines g) cols g = Some g'" "buffer_rows g' = buffer_rows g1" "g_columns g' = cols" "grid_history g' = grid_history g1"
    using resize_width_rows [OF g two, of True False] cols reflow unfolding grid_resize_def by auto
  have same: "grid_ok False ?g" "cursors_in ?g" "cursor_line_starts ?g"
    using grid_ok_weaken [OF g(1)] g(2) c
    by (simp_all add: map_cursor_def cursors_in_def saved_on_line_def on_line_def cursor_line_starts_def grid_dims_def)
  have "g_columns ?g < cols" "tidy_rows (row_cells (buffer_rows ?g))" using cols tidy by (simp_all add: mapped_cursor)
  then obtain rows n where r: "row_cells (buffer_rows g1) = rows @ replicate n (replicate cols default_cell)" "text_lines rows = grid_text ?g"
    "0 < n \<longrightarrow> grid_history g1 = 0"
    using grow_columns_text [OF same(1,2) _ _ same(3) g1(1)] g1(2) unfolding reshaped_def mapped_cursor by blast
  then show ?thesis using g1 unfolding mapped_cursor by (intro exI [of _ g'] exI [of _ rows] exI [of _ n]) simp
qed

theorem widening_keeps_text_witness:
  "\<exists>g' rows n. grid_resize True 4 6 (two_lines 1) = Some g' \<and> row_cells (buffer_rows g') = rows @ replicate n (replicate 6 default_cell) \<and>
    text_lines rows = [[char_cell 49], map char_cell [50, 51, 52, 53, 54, 55], []]"
  using widening_keeps_text [OF two_lines_ok(1) two_lines_ok(2) _ two_lines_tidy(4,1,3), of 6]
  unfolding two_lines_text two_lines_tidy(5,6) by auto

definition widened_below :: grid where
  "widened_below = grid_showing [char_row False 4 [57], char_row True 4 [49, 50, 51, 52], char_row False 4 [53, 54, 55, 56], char_row False 4 [57]]
     3 (Point 1 1) False"

definition pending_wrap :: grid where
  "pending_wrap = grid_showing [char_row True 4 [49, 50, 51, 52], char_row False 4 [53]] 2 (Point 0 3) True"

text \<open>
  Both conditions are needed. Widening a grid whose cursor is in the second row of a wrapped line loses
  the last line of the screen, though the history has room for ten rows; narrowing a grid whose cursor
  waits at the end of a full wrapped row tears the line in two with a blank row.
\<close>

lemma reflow_damages_text:
  "grid_ok True widened_below \<and> cursors_in widened_below \<and> tidy_rows (row_cells (buffer_rows widened_below)) \<and>
   grid_text widened_below = map (map char_cell) [[57], [49, 50, 51, 52, 53, 54, 55, 56], [57]] \<and>
   map_option grid_text (grid_resize True 3 6 widened_below) = Some (map (map char_cell) [[57], [49, 50, 51, 52, 53, 54, 55, 56]]) \<and>
   grid_ok True pending_wrap \<and> cursors_in pending_wrap \<and> tidy_rows (row_cells (buffer_rows pending_wrap)) \<and>
   grid_text pending_wrap = map (map char_cell) [[49, 50, 51, 52, 53]] \<and>
   map_option grid_text (grid_resize True 2 2 pending_wrap) = Some (map (map char_cell) [[49, 50, 51, 52], [53]])"
proof (intro conjI)
  show "grid_ok True widened_below" "grid_ok True pending_wrap"
    unfolding widened_below_def pending_wrap_def by (rule grid_showing_ok; auto simp: char_row_loose)+
  show "cursors_in widened_below" "cursors_in pending_wrap" by code_simp+
  show "tidy_rows (row_cells (buffer_rows widened_below))" "tidy_rows (row_cells (buffer_rows pending_wrap))" by code_simp+
  show "grid_text widened_below = map (map char_cell) [[57], [49, 50, 51, 52, 53, 54, 55, 56], [57]]"
    "grid_text pending_wrap = map (map char_cell) [[49, 50, 51, 52, 53]]" by code_simp+
  show "map_option grid_text (grid_resize True 3 6 widened_below) = Some (map (map char_cell) [[57], [49, 50, 51, 52, 53, 54, 55, 56]])"
    by code_simp
  show "map_option grid_text (grid_resize True 2 2 pending_wrap) = Some (map (map char_cell) [[49, 50, 51, 52], [53]])"
    by code_simp
qed

section \<open>The anchor\<close>

lemma ends_from_mono: "l \<le> m \<Longrightarrow> ends_from g m \<le> ends_from g l"
proof (induction "nat (m - l)" arbitrary: l)
  case (Suc d)
  have "ends_from g (l + 1) \<le> ends_from g l"
    by (cases "l \<le> bottommost_line (grid_dims g)") (simp_all add: ends_from_step, simp add: ends_from_def)
  moreover have "d = nat (m - (l + 1))" "l + 1 \<le> m" using Suc.hyps(2) by linarith+
  ultimately show ?case using Suc.hyps(1) [of "l + 1"] by simp
qed simp

lemma ends_from_unique:
  assumes "ends_from g (e + 1) = ends_from g (e' + 1)" "in_buffer g e" "in_buffer g e'"
    and "in_buffer g (e + 1) \<Longrightarrow> \<not> row_wraps (row_at g (e + 1))" "in_buffer g (e' + 1) \<Longrightarrow> \<not> row_wraps (row_at g (e' + 1))"
  shows "e = e'"
proof -
  have no: False if "x < y" "ends_from g (x + 1) = ends_from g (y + 1)" "in_buffer g x" "in_buffer g y"
    "in_buffer g (x + 1) \<Longrightarrow> \<not> row_wraps (row_at g (x + 1))" for x y
  proof -
    have b: "in_buffer g (x + 1)" using that(1,3,4) by (auto simp: in_buffer_def)
    then have "ends_from g (x + 1) = Suc (ends_from g (x + 2))" using that(5) ends_from_step [of "x + 1" g] by (simp add: in_buffer_def add.assoc)
    moreover have "ends_from g (y + 1) \<le> ends_from g (x + 2)" using that(1) by (intro ends_from_mono) simp
    ultimately show False using that(2) by simp
  qed
  show ?thesis using no [of e e'] no [of e' e] assms by (cases e e' rule: linorder_cases) auto
qed

lemma row_width_le:
  assumes "grid_ok strict g" "in_buffer g l"
  shows "row_width (row_at g l) \<le> g_columns g"
proof -
  have st: "storage_ok strict (g_columns g) (g_raw g)" "st_visible_lines (g_raw g) = g_lines g" "st_len (g_raw g) = grid_history g + g_lines g"
    using assms(1) buffer_rows_ring(2) [OF assms(1)] by (simp_all add: grid_ok_def)
  have "nat (int (g_lines g) - 1 - l) < st_len (g_raw g)" using assms(2) st(3) by (auto simp: in_buffer_iff)
  then have "row_std strict (g_columns g) (row_at g l)"
    using st(1,2) unfolding storage_ok_ring by (simp add: line_at_def)
  then show ?thesis by (auto simp: row_width_def row_len_def row_std_def row_wf_def)
qed

text \<open>A logical line: the rows from \<open>s\<close> to \<open>e\<close>, joined by wrap flags, and none around them.\<close>

definition logical_line :: "grid \<Rightarrow> int \<Rightarrow> int \<Rightarrow> bool" where
  "logical_line g s e \<longleftrightarrow> in_buffer g s \<and> in_buffer g e \<and> s \<le> e \<and> (\<forall>k. s \<le> k \<and> k < e \<longrightarrow> row_wraps (row_at g k)) \<and>
     \<not> row_wraps (row_at g e) \<and> (in_buffer g (s - 1) \<longrightarrow> \<not> row_wraps (row_at g (s - 1)))"

lemma logical_line_start:
  assumes l: "logical_line g s e" and m: "s \<le> m" "m \<le> e" "s' \<le> m" and b: "in_buffer g s'"
    and w: "\<And>k. s' \<le> k \<Longrightarrow> k < m \<Longrightarrow> row_wraps (row_at g k)" "in_buffer g (s' - 1) \<Longrightarrow> \<not> row_wraps (row_at g (s' - 1))"
  shows "s' = s"
proof (cases s' s rule: linorder_cases)
  case less
  then have "in_buffer g (s - 1)" "s - 1 < m" "s' \<le> s - 1" using l m b by (auto simp: logical_line_def in_buffer_def)
  then show ?thesis using w(1) l by (auto simp: logical_line_def)
next
  case greater
  then have "in_buffer g (s' - 1)" "s' - 1 < e" "s \<le> s' - 1" using l m b by (auto simp: logical_line_def in_buffer_def)
  then show ?thesis using w(2) l by (auto simp: logical_line_def)
qed

lemma logical_line_end:
  assumes l: "logical_line g s e" and m: "s \<le> m" "m \<le> e" "m \<le> e'"
    and w: "\<And>k. m \<le> k \<Longrightarrow> k < e' \<Longrightarrow> row_wraps (row_at g k)" "in_buffer g (e' + 1) \<Longrightarrow> \<not> row_wraps (row_at g e')"
  shows "e' = e"
proof (cases e' e rule: linorder_cases)
  case less
  then have "in_buffer g (e' + 1)" using l m by (auto simp: logical_line_def in_buffer_def)
  then show ?thesis using w(2) l m less by (auto simp: logical_line_def)
next
  case greater
  then show ?thesis using w(1) [of e] l m by (auto simp: logical_line_def)
qed

lemma placed_simps:
  "g_raw (placed g m r) = g_raw g" "g_lines (placed g m r) = g_lines g" "grid_dims (placed g m r) = grid_dims g"
  "g_line (placed g m r) = max m 0" "r \<le> g_columns g \<Longrightarrow> 1 \<le> g_columns g \<Longrightarrow>
    g_column (placed g m r) + (if cur_input_needs_wrap (g_cursor (placed g m r)) then 1 else 0) = r"
  "ends_from (placed g m r) l = ends_from g l" "in_buffer (placed g m r) l = in_buffer g l" "buffer_rows (placed g m r) = buffer_rows g"
  by (auto simp: placed_def put_defs ends_from_def in_buffer_def buffer_rows_def)

text \<open>The anchor of a cursor in a logical line, and the place an anchor leads to.\<close>

lemma anchor_in_line:
  assumes ok: "grid_ok strict g" and l: "logical_line g s e" and c: "on_line g" "s \<le> g_line g" "g_line g \<le> e"
  shows "anchor_cursor g = Some (Some \<lparr>logical_lines_below = ends_from g (e + 1),
    anchor_offset = g_column g + (if cur_input_needs_wrap (g_cursor g) then 1 else 0) + sum_list (map (row_width \<circ> row_at g) [s..g_line g - 1])\<rparr>)"
proof -
  obtain s2 e2 where q: "anchor_cursor g = Some (Some \<lparr>logical_lines_below = ends_from g (e2 + 1),
      anchor_offset = g_column g + (if cur_input_needs_wrap (g_cursor g) then 1 else 0) + sum_list (map (row_width \<circ> row_at g) [s2..g_line g - 1])\<rparr>)"
    "in_buffer g s2" "in_buffer g e2" "s2 \<le> g_line g" "g_line g \<le> e2" "\<And>k. s2 \<le> k \<Longrightarrow> k < e2 \<Longrightarrow> row_wraps (row_at g k)"
    "in_buffer g (s2 - 1) \<Longrightarrow> \<not> row_wraps (row_at g (s2 - 1))" "in_buffer g (e2 + 1) \<Longrightarrow> \<not> row_wraps (row_at g e2)"
    using anchor_cursor_Some [OF ok c(1)] by metis
  have "s2 = s" by (rule logical_line_start [OF l c(2,3) q(4,2) _ q(7)]) (use q(5,6) in auto)
  moreover have "e2 = e" by (rule logical_line_end [OF l c(2,3) q(5) _ q(8)]) (use q(4,6) in auto)
  ultimately show ?thesis using q(1) by simp
qed

lemma enough_ends:
  assumes "in_buffer g e"
  shows "\<not> ends_within g (topmost_line (grid_dims g) + 1) (bottommost_line (grid_dims g)) < ends_from g (e + 1)"
proof -
  have "ends_within g (topmost_line (grid_dims g) + 1) (bottommost_line (grid_dims g)) = ends_from g (topmost_line (grid_dims g) + 1)"
    by (simp add: ends_within_def ends_from_def)
  then show ?thesis using ends_from_mono [of "topmost_line (grid_dims g) + 1" "e + 1" g] assms by (simp add: in_buffer_def)
qed

lemma restored_place:
  assumes ok: "grid_ok strict g" and l: "logical_line g s e" and s: "0 \<le> s"
    and below: "in_buffer g (e + 1) \<Longrightarrow> \<not> row_wraps (row_at g (e + 1))"
    and a: "logical_lines_below a = ends_from g (e + 1)" "anchor_offset a \<le> sum_list (map (row_width \<circ> row_at g) [s..e])"
  shows "\<exists>m r. restore_cursor_anchor a g = Some (placed g m r) \<and> s \<le> m \<and> m \<le> e \<and> r \<le> g_columns g \<and>
    anchor_offset a = sum_list (map (row_width \<circ> row_at g) [s..m - 1]) + r"
proof -
  have e: "in_buffer g e" "s \<le> e" using l by (simp_all add: logical_line_def)
  have "\<not> ends_within g (topmost_line (grid_dims g) + 1) (bottommost_line (grid_dims g)) < logical_lines_below a"
    using a(1) enough_ends [OF e(1)] by simp
  then obtain s' e' m r where r: "restore_cursor_anchor a g = Some (placed g m r)" "in_buffer g s'" "in_buffer g e'" "s' \<le> m" "m \<le> e'"
    "ends_from g (e' + 1) = logical_lines_below a" "in_buffer g (e' + 1) \<longrightarrow> \<not> row_wraps (row_at g (e' + 1))"
    "\<And>k. s' \<le> k \<Longrightarrow> k < e' \<Longrightarrow> row_wraps (row_at g k)" "in_buffer g (s' - 1) \<Longrightarrow> \<not> row_wraps (row_at g (s' - 1))"
    "anchor_offset a = sum_list (map (row_width \<circ> row_at g) [s'..m - 1]) + r" "m < e' \<longrightarrow> r < row_width (row_at g m)"
    using restore_cursor_anchor_Some [OF ok, of a] by blast
  have e': "e' = e" using ends_from_unique [of g e' e] r(3,6,7) a(1) e(1) below by auto
  then have "s' = s"
    by (intro logical_line_start [OF l e(2) order_refl, of s']) (use r(2,4,5,8,9) in auto)
  moreover have "s \<le> m" "in_buffer g m" using r(2,4,5) e e' calculation by (auto simp: in_buffer_def)
  moreover have "r \<le> row_width (row_at g m)"
  proof (cases "m < e")
    case False
    then have "[s..e] = [s..m - 1] @ [m]" using r(5) e' calculation(2) by (simp add: upto_rec2)
    then show ?thesis using a(2) r(10) calculation(1) by simp
  qed (use r(11) e' in simp)
  ultimately show ?thesis using r(1,5,10) e' row_width_le [OF ok, of m] by (intro exI [of _ m] exI [of _ r]) simp
qed

text \<open>
  C6: the anchor brings the cursor back to its place in its line. Restoring an anchor in a buffer that holds
  the line it counts to, on the screen and with at least the anchor's cells, changes no row and puts
  the cursor on that line; taking the anchor there again gives the same one. Asked is that the line
  below, if there is one, is a single row.
\<close>

theorem anchor_roundtrip:
  assumes ok: "grid_ok strict g" and l: "logical_line g s e" and s: "0 \<le> s"
    and below: "in_buffer g (e + 1) \<Longrightarrow> \<not> row_wraps (row_at g (e + 1))"
    and a: "logical_lines_below a = ends_from g (e + 1)" "anchor_offset a \<le> sum_list (map (row_width \<circ> row_at g) [s..e])"
  shows "\<exists>g'. restore_cursor_anchor a g = Some g' \<and> buffer_rows g' = buffer_rows g \<and> s \<le> g_line g' \<and> g_line g' \<le> e \<and>
    anchor_cursor g' = Some (Some a)"
proof -
  obtain m r where r: "restore_cursor_anchor a g = Some (placed g m r)" "s \<le> m" "m \<le> e" "r \<le> g_columns g"
    "anchor_offset a = sum_list (map (row_width \<circ> row_at g) [s..m - 1]) + r"
    using restored_place [OF assms] by blast
  note p = placed_simps [where g = g and m = m and r = r]
  have cols: "1 \<le> g_columns g" using grid_ok_lines [OF ok] by simp
  have m: "g_line (placed g m r) = m" "on_line (placed g m r)"
    using p(2,4) r(2,3) s l by (auto simp: on_line_def logical_line_def in_buffer_iff)
  have "logical_line (placed g m r) s e" using l by (simp add: logical_line_def p)
  moreover have "grid_ok strict (placed g m r)" using ok by (simp add: placed_def put_defs)
  ultimately have "anchor_cursor (placed g m r) = Some (Some \<lparr>logical_lines_below = logical_lines_below a, anchor_offset = anchor_offset a\<rparr>)"
    using anchor_in_line [of strict "placed g m r" s e] m r(2,3,5) a(1) p(5) [OF r(4) cols] p(1,6) by simp
  then show ?thesis using r(1-3) m(1) p(8) by simp
qed

theorem anchor_roundtrip_witness:
  "\<exists>g'. restore_cursor_anchor \<lparr>logical_lines_below = 1, anchor_offset = 5\<rparr> (two_lines 0) = Some g' \<and> 1 \<le> g_line g' \<and> g_line g' \<le> 2 \<and>
    anchor_cursor g' = Some (Some \<lparr>logical_lines_below = 1, anchor_offset = 5\<rparr>)"
proof -
  have rows: "row_wraps (row_at (two_lines 0) 0) = False" "row_wraps (row_at (two_lines 0) 1) = True"
    "row_wraps (row_at (two_lines 0) 2) = False" "row_wraps (row_at (two_lines 0) 3) = False"
    "in_buffer (two_lines 0) l \<longleftrightarrow> 0 \<le> l \<and> l < 4"
    "row_width (row_at (two_lines 0) 1) = 4" "row_width (row_at (two_lines 0) 2) = 4" "[1..2] = [1, 2 :: int]" "[3..3] = [3 :: int]" for l
    by (code_simp, code_simp, code_simp, code_simp, simp add: in_buffer_iff two_lines_def grid_showing_def grid_dims_def history_size_def, code_simp+)
  have "row_wraps (row_at (two_lines 0) k)" if "1 \<le> k" "k < 2" for k
  proof -
    have "k = 1" using that by simp
    then show ?thesis using rows(2) by simp
  qed
  then have "logical_line (two_lines 0) 1 2" by (simp add: logical_line_def rows)
  moreover have "ends_from (two_lines 0) (2 + 1) = 1"
    using rows(4,9) by (simp add: ends_from_def topmost_grid two_lines_tidy(6))
  ultimately show ?thesis
    using anchor_roundtrip [OF two_lines_ok(1), of 0 1 2 "\<lparr>logical_lines_below = 1, anchor_offset = 5\<rparr>"] rows by auto
qed

definition above_wrapped :: grid where
  "above_wrapped = grid_showing [char_row False 4 [49], char_row False 4 [50], char_row True 4 [51, 52, 53, 54], char_row False 4 [55, 56, 57]]
     4 (Point 1 0) False"

definition above_joined :: grid where
  "above_joined = grid_showing [char_row True 4 [49, 50, 51, 52], char_row False 4 [53], char_row False 4 [57], char_row False 4 []]
     4 (Point 2 0) False"

text \<open>
  C21: the anchor misses every line above a wrapped one. When the line below the cursor's has several
  rows, taking the anchor and restoring it at once, in a buffer that did not change at all, moves the
  cursor down past the end of its line.
\<close>

theorem anchor_misses_wrapped_line:
  assumes ok: "grid_ok strict g" and l: "logical_line g s e" and c: "on_line g" "s \<le> g_line g" "g_line g \<le> e"
    and below: "in_buffer g (e + 1)" "row_wraps (row_at g (e + 1))"
  shows "\<exists>a g'. anchor_cursor g = Some (Some a) \<and> restore_cursor_anchor a g = Some g' \<and> buffer_rows g' = buffer_rows g \<and>
    e < g_line g'"
proof -
  obtain a where a: "anchor_cursor g = Some (Some a)" "logical_lines_below a = ends_from g (e + 1)"
    using anchor_in_line [OF ok l c] by simp
  have e: "in_buffer g e" "\<not> row_wraps (row_at g e)" using l by (simp_all add: logical_line_def)
  obtain s' e' m r where r: "restore_cursor_anchor a g = Some (placed g m r)" "s' \<le> m"
    "in_buffer g e'" "ends_from g (e' + 1) = ends_from g (e + 1)" "in_buffer g (e' + 1) \<longrightarrow> \<not> row_wraps (row_at g (e' + 1))"
    "\<forall>k. s' \<le> k \<and> k < e' \<longrightarrow> row_wraps (row_at g k)"
    using restore_cursor_anchor_Some [OF ok, of a] enough_ends [OF e(1)] a(2) by fastforce
  have "\<not> e' < e"
  proof
    assume "e' < e"
    then have "ends_from g e \<le> ends_from g (e' + 1)" by (intro ends_from_mono) simp
    then show False using r(4) e ends_from_step [of e g] by (simp add: in_buffer_def)
  qed
  moreover have "e' \<noteq> e" using r(5) below by blast
  ultimately have "e < s'" using r(6) [rule_format, of e] e(2) by (cases "s' \<le> e") auto
  then show ?thesis using a(1) r(1,2) placed_simps(4,8) [of g m r] by (intro exI [of _ a] exI [of _ "placed g m r"]) simp
qed

theorem anchor_misses_wrapped_line_witness:
  "\<exists>a g'. anchor_cursor above_wrapped = Some (Some a) \<and> restore_cursor_anchor a above_wrapped = Some g' \<and> 1 < g_line g'"
proof -
  have rows: "\<not> row_wraps (row_at above_wrapped 0)" "\<not> row_wraps (row_at above_wrapped 1)" "row_wraps (row_at above_wrapped 2)"
    "g_line above_wrapped = 1" "on_line above_wrapped"
    by code_simp+
  have buffer: "in_buffer above_wrapped l \<longleftrightarrow> 0 \<le> l \<and> l < 4" for l
    by (simp add: in_buffer_iff above_wrapped_def grid_showing_def grid_dims_def history_size_def)
  have "logical_line above_wrapped 1 1" using rows(1,2) by (auto simp: logical_line_def buffer)
  moreover have "grid_ok True above_wrapped"
    unfolding above_wrapped_def by (rule grid_showing_ok; auto simp: char_row_loose)
  ultimately show ?thesis
    using anchor_misses_wrapped_line [of True above_wrapped 1 1] rows buffer by auto
qed

text \<open>
  The two ways the anchor misses its line, through a whole resize. When the line below the cursor's is
  wrapped, widening by a column that changes no row at all moves the cursor down into it; and when
  joined rows leave blank ones at the bottom of a screen without history, the cursor stays behind on
  them, a row below its line.
\<close>

lemma anchor_misses_line:
  "row_at above_wrapped (g_line above_wrapped) = char_row False 4 [50] \<and>
   map_option (\<lambda>g. (g_line g, row_inner (row_at g 1))) (grid_resize True 4 5 above_wrapped) = Some (2, row_inner (char_row False 5 [50])) \<and>
   row_at above_joined (g_line above_joined) = char_row False 4 [57] \<and>
   map_option (\<lambda>g. (g_line g, row_inner (row_at g 1), row_inner (row_at g (g_line g)))) (grid_resize True 4 6 above_joined) =
     Some (2, row_inner (char_row False 6 [57]), row_inner (char_row False 6 []))"
  by (intro conjI; code_simp)

section \<open>One column\<close>

text \<open>A round on a wide character and its spacer leaves the same two cells for the next row.\<close>

definition wide_pair :: "row \<Rightarrow> bool" where
  "wide_pair row \<longleftrightarrow> (\<exists>w s. row_inner row = [w, s] \<and> has_flag WIDE_CHAR w \<and> has_flag WIDE_CHAR_SPACER s \<and>
     \<not> has_flag LEADING_WIDE_CHAR_SPACER s \<and> \<not> has_flag WRAPLINE s)"

lemma wide_pair_round:
  assumes "wide_pair row" "on_line g"
  shows "\<exists>row' stack' g'. shrink_round True 1 i (row, stack, g) = Some (Inl (row', stack', g')) \<and> wide_pair row' \<and> on_line g'"
proof -
  obtain w s where c: "row_inner row = [w, s]" "has_flag WIDE_CHAR w" "has_flag WIDE_CHAR_SPACER s"
    "\<not> has_flag LEADING_WIDE_CHAR_SPACER s" "\<not> has_flag WRAPLINE s"
    using assms(1) unfolding wide_pair_def by blast
  have ne: "\<not> cell_is_empty s" using c(3) empty_flags(4) by blast
  let ?r = "row\<lparr>row_inner := [w], row_occ := min (row_occ row) 1\<rparr>"
  have "row_shrink_with_minimum 1 m row = (Some [s], ?r)" for m
    using c(1) ne by (simp add: row_shrink_with_minimum_def Let_def)
  then have cut: "cut_row True 1 i row g = Some (Some [s], ?r)"
    by (simp add: cut_row_def cursor_buffer_line_Some [OF assms(2)] Let_def)
  have move: "\<exists>r'. move_wide 1 [s] ?r = Some ([w, s], r')"
    using c(2) by (simp add: move_wide_def row_len_def row_index_def row_index_mut_def panic_free)
  obtain r' where r': "move_wide 1 [s] ?r = Some ([w, s], r')" using move by blast
  obtain g1 where g1: "split_cursor 1 i g = Some g1" "moved g g1" using split_cursor_Some [OF assms(2)] by blast
  have "trim_spacer [w, s] = [w, s]" "\<not> ends_in_spacer [w, s]" "\<not> carried_over 1 i [w, s]"
    using c(4,5) by (simp_all add: trim_spacer_def ends_in_spacer_def carried_over_def)
  then have "\<exists>stack' g'. shrink_round True 1 i (row, stack, g) = Some (Inl (next_row 1 [w, s], stack', g')) \<and> on_line g'"
    using cut r' g1 movedD(1) [OF g1(2)] by (auto simp: shrink_round_eq on_line_def)
  moreover have "wide_pair (next_row 1 [w, s])" using c by (simp add: wide_pair_def next_row_inner)
  ultimately show ?thesis by blast
qed

lemma wide_pair_loops:
  assumes "shrink_rounds reflow cols i s = Some y"
  shows "\<not> (reflow \<and> cols = 1 \<and> wide_pair (fst s) \<and> on_line (snd (snd s)))"
proof (rule shrink_rounds.raw_induct [OF _ assms])
  fix f :: "bool \<Rightarrow> nat \<Rightarrow> nat \<Rightarrow> shrink_state \<Rightarrow> shrink_result option" and reflow cols i s y
  assume IH: "\<And>reflow cols i s y. f reflow cols i s = Some y \<Longrightarrow> \<not> (reflow \<and> cols = 1 \<and> wide_pair (fst s) \<and> on_line (snd (snd s)))"
    and r: "Option.bind (shrink_round reflow cols i s) (\<lambda>r. case r of Inl s \<Rightarrow> f reflow cols i s | Inr result \<Rightarrow> Some result) = Some y"
  show "\<not> (reflow \<and> cols = 1 \<and> wide_pair (fst s) \<and> on_line (snd (snd s)))"
  proof
    assume a: "reflow \<and> cols = 1 \<and> wide_pair (fst s) \<and> on_line (snd (snd s))"
    obtain row stack g where s: "s = (row, stack, g)" by (cases s)
    then obtain row' stack' g' where "shrink_round True 1 i s = Some (Inl (row', stack', g'))" "wide_pair row'" "on_line g'"
      using wide_pair_round a by fastforce
    then show False using IH [of True 1 i "(row', stack', g')" y] r a by simp
  qed
qed

text \<open>
  The bound of two columns is needed. Narrowed to one column, a row with a wide character and its
  spacer is split forever: each round pushes a row and leaves the same two cells, so the loop
  never returns. \<open>MIN_COLUMNS\<close> of two keeps the program out of it.
\<close>

lemma one_column_never_ends:
  assumes "wide_pair row" "on_line g"
  shows "shrink_rounds True 1 i (row, stack, g) = None"
  using wide_pair_loops [of True 1 i "(row, stack, g)"] assms by (cases "shrink_rounds True 1 i (row, stack, g)") auto

lemma one_column_never_ends_witness:
  "shrink_rounds True 1 3 (\<lparr>row_inner = [add_flag WIDE_CHAR (char_cell 0x4e2d), add_flag WIDE_CHAR_SPACER default_cell], row_occ = 2\<rparr>, [], two_lines 1) = None"
proof (rule one_column_never_ends)
  show "on_line (two_lines 1)" using two_lines_ok(2) [of 1] cursors_inD(1) by simp
  show "wide_pair \<lparr>row_inner = [add_flag WIDE_CHAR (char_cell 0x4e2d), add_flag WIDE_CHAR_SPACER default_cell], row_occ = 2\<rparr>"
    by (simp add: wide_pair_def has_flag_def add_flag_def flags_contains_def flags_insert_def char_cell_def default_cell_def)
qed

end
