(* ===== verification/Split_Tree.thy ===== *)
theory Split_Tree
  imports Complex_Main Prelude
begin

text \<open>
  The layout of split panes (\<open>nebula_split/src/lib.rs\<close> and \<open>dock.rs\<close>): a binary tree whose leaves are
  panes and whose inner nodes divide their rectangle, with the editing operations, the placement of
  rectangles and dividers, the dragging of a divider and the navigation between panes.

  Positions and ratios are \<open>f32\<close>. Its arithmetic is a parameter, the record \<open>f32\<close> of the operations
  the code uses; \<open>flit\<close> is the value of a decimal literal. Nothing is assumed about it unless a
  statement says so. A method with a mutable receiver returns the changed tree with its result.
\<close>

section \<open>Numbers and data\<close>

record 'f f32 =
  flit :: "rat \<Rightarrow> 'f"
  fadd :: "'f \<Rightarrow> 'f \<Rightarrow> 'f"
  fsub :: "'f \<Rightarrow> 'f \<Rightarrow> 'f"
  fmul :: "'f \<Rightarrow> 'f \<Rightarrow> 'f"
  fdiv :: "'f \<Rightarrow> 'f \<Rightarrow> 'f"
  fmax :: "'f \<Rightarrow> 'f \<Rightarrow> 'f"
  fmin :: "'f \<Rightarrow> 'f \<Rightarrow> 'f"
  ffloor :: "'f \<Rightarrow> 'f"
  fround :: "'f \<Rightarrow> 'f"
  fabs :: "'f \<Rightarrow> 'f"
  fclamp :: "'f \<Rightarrow> 'f \<Rightarrow> 'f \<Rightarrow> 'f"
  flt :: "'f \<Rightarrow> 'f \<Rightarrow> bool"
  fle :: "'f \<Rightarrow> 'f \<Rightarrow> bool"

datatype split_direction = LeftRight | TopBottom

datatype split_nav = Nav_Left | Nav_Right | Nav_Up | Nav_Down

record 'f rect =
  rx :: 'f
  ry :: 'f
  rw :: 'f
  rh :: 'f

definition rect_new :: "'f \<Rightarrow> 'f \<Rightarrow> 'f \<Rightarrow> 'f \<Rightarrow> 'f rect" where
  "rect_new x y w h = \<lparr>rx = x, ry = y, rw = w, rh = h\<rparr>"

definition rect_contains :: "'f f32 \<Rightarrow> 'f rect \<Rightarrow> 'f \<Rightarrow> 'f \<Rightarrow> bool" where
  "rect_contains F r x y \<longleftrightarrow> fle F (rx r) x \<and> flt F x (fadd F (rx r) (rw r)) \<and> fle F (ry r) y \<and> flt F y (fadd F (ry r) (rh r))"

definition rect_center :: "'f f32 \<Rightarrow> 'f rect \<Rightarrow> 'f \<times> 'f" where
  "rect_center F r = (fadd F (rx r) (fmul F (rw r) (flit F 0.5)), fadd F (ry r) (fmul F (rh r) (flit F 0.5)))"

record 'f divider =
  dv_rect :: "'f rect"
  dv_direction :: split_direction
  dv_path :: "bool list"
  dv_viewport :: "'f rect"

datatype 'a remove_outcome = NotFound | WasRoot | Collapsed 'a

text \<open>A split has its direction, the committed and the preview ratio, and whether it is dragged.\<close>

record 'f split_data =
  sd_direction :: split_direction
  sd_ratio :: 'f
  sd_preview_ratio :: "'f option"
  sd_dragging :: bool

datatype ('a, 'f) split_tree =
    Leaf 'a
  | Split "'f split_data" "('a, 'f) split_tree" "('a, 'f) split_tree"

record ('a, 'f) split_layout =
  sl_panes :: "('a \<times> 'f rect) list"
  sl_dividers :: "'f divider list"

section \<open>Editing the tree\<close>

definition is_leaf :: "('a, 'f) split_tree \<Rightarrow> bool" where
  "is_leaf t = (case t of Leaf _ \<Rightarrow> True | _ \<Rightarrow> False)"

primrec collect_leaves :: "('a, 'f) split_tree \<Rightarrow> 'a list \<Rightarrow> 'a list" where
  "collect_leaves (Leaf a) out = out @ [a]"
| "collect_leaves (Split d first second) out = collect_leaves second (collect_leaves first out)"

definition leaves :: "('a, 'f) split_tree \<Rightarrow> 'a list" where
  "leaves t = collect_leaves t []"

primrec first_leaf :: "('a, 'f) split_tree \<Rightarrow> 'a" where
  "first_leaf (Leaf a) = a"
| "first_leaf (Split d first second) = first_leaf first"

primrec tree_contains :: "'a \<Rightarrow> ('a, 'f) split_tree \<Rightarrow> bool" where
  "tree_contains target (Leaf a) \<longleftrightarrow> a = target"
| "tree_contains target (Split d first second) \<longleftrightarrow> tree_contains target first \<or> tree_contains target second"

primrec replace_leaf :: "'a \<Rightarrow> 'a \<Rightarrow> ('a, 'f) split_tree \<Rightarrow> bool \<times> ('a, 'f) split_tree" where
  "replace_leaf target replacement (Leaf a) = (if a = target then (True, Leaf replacement) else (False, Leaf a))"
| "replace_leaf target replacement (Split d first second) =
     (case replace_leaf target replacement first of
        (True, first) \<Rightarrow> (True, Split d first second)
      | (False, first) \<Rightarrow>
          (let (found, second) = replace_leaf target replacement second in (found, Split d first second)))"

primrec split_leaf ::
    "'a \<Rightarrow> 'a \<Rightarrow> split_direction \<Rightarrow> 'f \<Rightarrow> ('a, 'f) split_tree \<Rightarrow> bool \<times> ('a, 'f) split_tree" where
  "split_leaf target new direction ratio (Leaf a) =
     (if a = target
      then (True, Split \<lparr>sd_direction = direction, sd_ratio = ratio, sd_preview_ratio = None, sd_dragging = False\<rparr>
                    (Leaf a) (Leaf new))
      else (False, Leaf a))"
| "split_leaf target new direction ratio (Split d first second) =
     (case split_leaf target new direction ratio first of
        (True, first) \<Rightarrow> (True, Split d first second)
      | (False, first) \<Rightarrow>
          (let (found, second) = split_leaf target new direction ratio second in (found, Split d first second)))"

primrec remove_leaf :: "'a \<Rightarrow> ('a, 'f) split_tree \<Rightarrow> 'a remove_outcome \<times> ('a, 'f) split_tree" where
  "remove_leaf target (Leaf a) = (if a = target then WasRoot else NotFound, Leaf a)"
| "remove_leaf target (Split d first second) =
     (if first = Leaf target then (Collapsed (first_leaf second), second)
      else if second = Leaf target then (Collapsed (first_leaf first), first)
      else
        (case remove_leaf target first of
           (NotFound, first) \<Rightarrow>
             (let (outcome, second) = remove_leaf target second in (outcome, Split d first second))
         | (other, first) \<Rightarrow> (other, Split d first second)))"

text \<open>The node a path leads to, and the tree with that node changed through the reference.\<close>

fun node_at :: "bool list \<Rightarrow> ('a, 'f) split_tree \<Rightarrow> ('a, 'f) split_tree option" where
  "node_at [] t = Some t"
| "node_at (b # path) (Split d first second) = node_at path (if b then second else first)"
| "node_at (b # path) (Leaf a) = None"

fun node_update ::
    "(('a, 'f) split_tree \<Rightarrow> ('a, 'f) split_tree) \<Rightarrow> bool list \<Rightarrow> ('a, 'f) split_tree \<Rightarrow> ('a, 'f) split_tree option" where
  "node_update f [] t = Some (f t)"
| "node_update f (True # path) (Split d first second) = map_option (Split d first) (node_update f path second)"
| "node_update f (False # path) (Split d first second) = map_option (\<lambda>t. Split d t second) (node_update f path first)"
| "node_update f (b # path) (Leaf a) = None"

primrec set_leaf_parent_ratio ::
    "'f f32 \<Rightarrow> 'a \<Rightarrow> 'f \<Rightarrow> ('a, 'f) split_tree \<Rightarrow> bool \<times> ('a, 'f) split_tree" where
  "set_leaf_parent_ratio F target target_ratio (Leaf a) = (False, Leaf a)"
| "set_leaf_parent_ratio F target target_ratio (Split d first second) =
     (if first = Leaf target
      then (True, Split (d\<lparr>sd_ratio := target_ratio, sd_preview_ratio := None, sd_dragging := False\<rparr>) first second)
      else if second = Leaf target
      then (True, Split (d\<lparr>sd_ratio := fsub F (flit F 1) target_ratio, sd_preview_ratio := None, sd_dragging := False\<rparr>) first second)
      else if tree_contains target first
      then (let (found, first) = set_leaf_parent_ratio F target target_ratio first in (found, Split d first second))
      else (let (found, second) = set_leaf_parent_ratio F target target_ratio second in (found, Split d first second)))"

subsection \<open>Docking\<close>

primrec swap_in :: "'a \<Rightarrow> 'a \<Rightarrow> ('a, 'f) split_tree \<Rightarrow> ('a, 'f) split_tree" where
  "swap_in a b (Leaf x) = (if x = a then Leaf b else if x = b then Leaf a else Leaf x)"
| "swap_in a b (Split d first second) = Split d (swap_in a b first) (swap_in a b second)"

definition swap_leaves :: "'a \<Rightarrow> 'a \<Rightarrow> ('a, 'f) split_tree \<Rightarrow> bool \<times> ('a, 'f) split_tree" where
  "swap_leaves a b t =
     (if a = b \<or> \<not> tree_contains a t \<or> \<not> tree_contains b t then (False, t) else (True, swap_in a b t))"

definition joined_tree :: "'f f32 \<Rightarrow> ('a, 'f) split_tree \<Rightarrow> split_nav \<Rightarrow> ('a, 'f) split_tree \<Rightarrow> ('a, 'f) split_tree" where
  "joined_tree F source side t =
     (let (direction, before) = (case side of
            Nav_Left \<Rightarrow> (LeftRight, True) | Nav_Right \<Rightarrow> (LeftRight, False)
          | Nav_Up \<Rightarrow> (TopBottom, True) | Nav_Down \<Rightarrow> (TopBottom, False));
          (first, second) = (if before then (source, t) else (t, source))
      in Split \<lparr>sd_direction = direction, sd_ratio = flit F 0.5, sd_preview_ratio = None, sd_dragging = False\<rparr> first second)"

text \<open>The error gives the source back.\<close>

primrec dock_at_leaf ::
    "'f f32 \<Rightarrow> 'a \<Rightarrow> ('a, 'f) split_tree \<Rightarrow> split_nav \<Rightarrow> ('a, 'f) split_tree \<Rightarrow>
      (('a, 'f) split_tree + unit) \<times> ('a, 'f) split_tree" where
  "dock_at_leaf F target source side (Leaf a) =
     (if a = target then (Inr (), joined_tree F source side (Leaf a)) else (Inl source, Leaf a))"
| "dock_at_leaf F target source side (Split d first second) =
     (case dock_at_leaf F target source side first of
        (Inr _, first) \<Rightarrow> (Inr (), Split d first second)
      | (Inl source, first) \<Rightarrow>
          (let (result, second) = dock_at_leaf F target source side second in (result, Split d first second)))"

section \<open>Rectangles\<close>

text \<open>
  The available length is the total without the divider; the first part is rounded down and kept
  between one cell and what leaves a cell for the second, which takes the rest.
\<close>

definition cut :: "'f f32 \<Rightarrow> 'f \<Rightarrow> 'f \<Rightarrow> 'f \<Rightarrow> 'f \<Rightarrow> 'f \<times> 'f" where
  "cut F extent divider cell r =
     (let usable = fmax F (fsub F extent divider) cell;
          first = fmin F (fmax F (ffloor F (fmul F usable r)) cell) (fmax F (fsub F usable cell) cell);
          second = fmax F (fsub F usable first) cell
      in (first, second))"

primrec collect_rects ::
    "'f f32 \<Rightarrow> 'f \<Rightarrow> 'f \<Rightarrow> 'f \<Rightarrow> bool \<Rightarrow> ('a, 'f) split_tree \<Rightarrow> 'f rect \<Rightarrow> bool list \<Rightarrow>
      ('a, 'f) split_layout \<Rightarrow> ('a, 'f) split_layout" where
  "collect_rects F cell_w cell_h divider use_preview (Leaf a) vp path out =
     out\<lparr>sl_panes := sl_panes out @ [(a, vp)]\<rparr>"
| "collect_rects F cell_w cell_h divider use_preview (Split d first second) vp path out =
     (let r = (if use_preview then (case sd_preview_ratio d of Some p \<Rightarrow> p | None \<Rightarrow> sd_ratio d) else sd_ratio d) in
      case sd_direction d of
        LeftRight \<Rightarrow>
          (let (first_w, second_w) = cut F (rw vp) divider cell_w r;
               out = out\<lparr>sl_dividers := sl_dividers out @
                 [\<lparr>dv_rect = rect_new (fadd F (rx vp) first_w) (ry vp) divider (rh vp), dv_direction = sd_direction d,
                   dv_path = path, dv_viewport = vp\<rparr>]\<rparr>;
               out = collect_rects F cell_w cell_h divider use_preview first
                 (rect_new (rx vp) (ry vp) first_w (rh vp)) (path @ [False]) out
           in collect_rects F cell_w cell_h divider use_preview second
                (rect_new (fadd F (fadd F (rx vp) first_w) divider) (ry vp) second_w (rh vp)) (path @ [True]) out)
      | TopBottom \<Rightarrow>
          (let (first_h, second_h) = cut F (rh vp) divider cell_h r;
               out = out\<lparr>sl_dividers := sl_dividers out @
                 [\<lparr>dv_rect = rect_new (rx vp) (fadd F (ry vp) first_h) (rw vp) divider, dv_direction = sd_direction d,
                   dv_path = path, dv_viewport = vp\<rparr>]\<rparr>;
               out = collect_rects F cell_w cell_h divider use_preview first
                 (rect_new (rx vp) (ry vp) (rw vp) first_h) (path @ [False]) out
           in collect_rects F cell_w cell_h divider use_preview second
                (rect_new (rx vp) (fadd F (fadd F (ry vp) first_h) divider) (rw vp) second_h) (path @ [True]) out))"

definition tree_layout ::
    "'f f32 \<Rightarrow> 'f rect \<Rightarrow> 'f \<Rightarrow> 'f \<Rightarrow> 'f \<Rightarrow> bool \<Rightarrow> ('a, 'f) split_tree \<Rightarrow> ('a, 'f) split_layout" where
  "tree_layout F viewport cell_w cell_h divider use_preview t =
     collect_rects F cell_w cell_h divider use_preview t viewport [] \<lparr>sl_panes = [], sl_dividers = []\<rparr>"

section \<open>Dragging and navigation\<close>

definition hit_divider :: "'f f32 \<Rightarrow> 'f divider list \<Rightarrow> 'f \<Rightarrow> 'f \<Rightarrow> 'f \<Rightarrow> 'f divider option" where
  "hit_divider F dividers x y slop = find (\<lambda>d.
     fle F (fsub F (rx (dv_rect d)) slop) x \<and>
     fle F x (fadd F (fadd F (rx (dv_rect d)) (rw (dv_rect d))) slop) \<and>
     fle F (fsub F (ry (dv_rect d)) slop) y \<and>
     fle F y (fadd F (fadd F (ry (dv_rect d)) (rh (dv_rect d))) slop)) dividers"

definition drag_ratio :: "'f f32 \<Rightarrow> split_direction \<Rightarrow> 'f rect \<Rightarrow> 'f \<Rightarrow> 'f \<Rightarrow> 'f \<Rightarrow> 'f \<Rightarrow> 'f" where
  "drag_ratio F direction viewport divider cell x y =
     (let (pos, origin, extent) = (case direction of
            LeftRight \<Rightarrow> (x, rx viewport, rw viewport)
          | TopBottom \<Rightarrow> (y, ry viewport, rh viewport));
          usable = fmax F (fsub F extent divider) cell
      in fdiv F (fsub F (fsub F pos origin) (fmul F divider (flit F 0.5))) usable)"

abbreviation CLOSE_MARGIN :: "'f f32 \<Rightarrow> 'f" where "CLOSE_MARGIN F \<equiv> flit F 0.06"

definition preview_ratio :: "'f f32 \<Rightarrow> 'f \<Rightarrow> 'f" where
  "preview_ratio F raw =
     (if flt F raw (CLOSE_MARGIN F) then flit F 0.02
      else if flt F (fsub F (flit F 1) (CLOSE_MARGIN F)) raw then flit F 0.98
      else fclamp F raw (flit F 0.10) (flit F 0.90))"

definition drag_close_target :: "'f f32 \<Rightarrow> 'f \<Rightarrow> bool option" where
  "drag_close_target F raw =
     (if flt F raw (CLOSE_MARGIN F) then Some False
      else if flt F (fsub F (flit F 1) (CLOSE_MARGIN F)) raw then Some True
      else None)"

definition commit_ratio :: "'f f32 \<Rightarrow> 'f \<Rightarrow> 'f \<Rightarrow> 'f \<Rightarrow> 'f \<Rightarrow> 'f" where
  "commit_ratio F preview extent divider cell =
     (let cell = fmax F cell (flit F 1);
          usable = fmax F (fsub F extent divider) cell
      in fclamp F (fdiv F (fmul F (fround F (fdiv F (fmul F preview usable) cell)) cell) usable) (flit F 0.10) (flit F 0.90))"

text \<open>The distance of a pane in a direction, \<open>None\<close> when it does not lie there.\<close>

definition nav_distance :: "'f f32 \<Rightarrow> split_nav \<Rightarrow> 'f rect \<Rightarrow> 'f rect \<Rightarrow> 'f option" where
  "nav_distance F nav frect rect =
     (let (fcx, fcy) = rect_center F frect; (cx, cy) = rect_center F rect;
          dx = fsub F cx fcx; dy = fsub F cy fcy;
          in_direction = (case nav of
              Nav_Left \<Rightarrow> flt F dx (flit F (-1)) | Nav_Right \<Rightarrow> flt F (flit F 1) dx
            | Nav_Up \<Rightarrow> flt F dy (flit F (-1)) | Nav_Down \<Rightarrow> flt F (flit F 1) dy)
      in if \<not> in_direction then None
         else Some (case nav of
             Nav_Left \<Rightarrow> fadd F (fabs F dx) (fmul F (fabs F dy) (flit F 4))
           | Nav_Right \<Rightarrow> fadd F (fabs F dx) (fmul F (fabs F dy) (flit F 4))
           | Nav_Up \<Rightarrow> fadd F (fabs F dy) (fmul F (fabs F dx) (flit F 4))
           | Nav_Down \<Rightarrow> fadd F (fabs F dy) (fmul F (fabs F dx) (flit F 4))))"

fun nav_loop ::
    "'f f32 \<Rightarrow> 'a \<Rightarrow> split_nav \<Rightarrow> 'f rect \<Rightarrow> ('a \<times> 'f rect) list \<Rightarrow> ('a \<times> 'f) option \<Rightarrow> ('a \<times> 'f) option" where
  "nav_loop F focused nav frect [] best = best"
| "nav_loop F focused nav frect ((a, rect) # panes) best =
     nav_loop F focused nav frect panes
       (if a = focused then best
        else (case nav_distance F nav frect rect of
                None \<Rightarrow> best
              | Some reach \<Rightarrow>
                  if (case best of None \<Rightarrow> True | Some (_, b) \<Rightarrow> flt F reach b) then Some (a, reach) else best))"

definition nav_target :: "'f f32 \<Rightarrow> ('a \<times> 'f rect) list \<Rightarrow> 'a \<Rightarrow> split_nav \<Rightarrow> 'a option" where
  "nav_target F panes focused nav =
     (case find (\<lambda>p. fst p = focused) panes of
        None \<Rightarrow> None
      | Some (_, frect) \<Rightarrow> map_option fst (nav_loop F focused nav frect panes None))"

section \<open>Editing as substitution\<close>

text \<open>
  The reference for the editing operations: every leaf is replaced by a tree that depends on
  the pane. On a tree without repeated panes, replacing, splitting and docking are such a substitution
  at one pane.
\<close>

primrec graft :: "('a \<Rightarrow> ('b, 'f) split_tree) \<Rightarrow> ('a, 'f) split_tree \<Rightarrow> ('b, 'f) split_tree" where
  "graft g (Leaf a) = g a"
| "graft g (Split d first second) = Split d (graft g first) (graft g second)"

abbreviation graft_at :: "'a \<Rightarrow> ('a, 'f) split_tree \<Rightarrow> ('a, 'f) split_tree \<Rightarrow> ('a, 'f) split_tree" where
  "graft_at a s \<equiv> graft (\<lambda>x. if x = a then s else Leaf x)"

lemma collect_leaves_shift: "collect_leaves t (xs @ ys) = xs @ collect_leaves t ys"
  by (induction t arbitrary: ys) auto

lemma collect_leaves_append: "collect_leaves t out = out @ leaves t"
  using collect_leaves_shift [of t out "[]"] by (simp add: leaves_def)

lemma leaves_simps [simp]: "leaves (Leaf a) = [a]" "leaves (Split d first second) = leaves first @ leaves second"
  by (simp_all add: leaves_def) (simp add: collect_leaves_append)

lemma leaves_Nil [simp]: "leaves t \<noteq> []"
  by (induction t) auto

lemma first_leaf_hd: "first_leaf t = hd (leaves t)"
  by (induction t) auto

lemma tree_contains_leaves [simp]: "tree_contains a t \<longleftrightarrow> a \<in> set (leaves t)"
  by (induction t) auto

lemma leaves_graft: "leaves (graft g t) = concat (map (\<lambda>a. leaves (g a)) (leaves t))"
  by (induction t) auto

lemma leaves_rename [simp]: "leaves (graft (\<lambda>a. Leaf (f a)) t) = map f (leaves t)"
  by (induction t) auto

lemma graft_absent [simp]: "a \<notin> set (leaves t) \<Longrightarrow> graft_at a s t = t"
  by (induction t) auto

lemma graft_graft: "graft g (graft h t) = graft (\<lambda>a. graft g (h a)) t"
  by (induction t) auto

lemma graft_Leaf [simp]: "graft Leaf t = t"
  by (induction t) auto

lemma graft_cong: "(\<And>a. a \<in> set (leaves t) \<Longrightarrow> g a = h a) \<Longrightarrow> graft g t = graft h t"
  by (induction t) auto

lemma replace_leaf_graft:
  "distinct (leaves t) \<Longrightarrow> replace_leaf a b t = (a \<in> set (leaves t), graft_at a (Leaf b) t)"
  by (induction t) (auto simp: disjoint_iff intro: graft_absent [symmetric] split: prod.split bool.split)

lemma split_leaf_graft:
  "distinct (leaves t) \<Longrightarrow> split_leaf a b d r t = (a \<in> set (leaves t),
     graft_at a (Split \<lparr>sd_direction = d, sd_ratio = r, sd_preview_ratio = None, sd_dragging = False\<rparr> (Leaf a) (Leaf b)) t)"
  by (induction t) (auto simp: disjoint_iff intro: graft_absent [symmetric] split: prod.split bool.split)

lemma dock_at_leaf_graft:
  "distinct (leaves t) \<Longrightarrow> dock_at_leaf F a s side t =
     (if a \<in> set (leaves t) then Inr () else Inl s, graft_at a (joined_tree F s side (Leaf a)) t)"
  by (induction t) (auto simp: disjoint_iff intro: graft_absent [symmetric] split: prod.split sum.split)

lemma swap_in_graft: "swap_in a b = graft (\<lambda>x. Leaf (if x = a then b else if x = b then a else x))"
proof
  show "swap_in a b t = graft (\<lambda>x. Leaf (if x = a then b else if x = b then a else x)) t" for t
    by (induction t) auto
qed

lemma remove_absent: "a \<notin> set (leaves t) \<Longrightarrow> remove_leaf a t = (NotFound, t)"
  by (induction t) (auto split: prod.split)

text \<open>Removing one of two panes that stand in the place of a leaf gives the tree with the other one.\<close>

lemma remove_grafted:
  assumes "distinct (leaves t)" "a \<in> set (leaves t)" "b \<notin> set (leaves t)"
    and "s = Split d (Leaf a) (Leaf b) \<or> s = Split d (Leaf b) (Leaf a)"
  shows "remove_leaf b (graft_at a s t) = (Collapsed a, t)"
  using assms(1-3)
proof (induction t)
  case (Leaf x)
  then show ?case using assms(4) by auto
next
  case (Split e first second)
  have leaf: "graft_at a s t \<noteq> Leaf b" if "b \<notin> set (leaves t)" for t
    using that assms(4) by (cases t) auto
  show ?case
  proof (cases "a \<in> set (leaves first)")
    case True
    then have "a \<notin> set (leaves second)" "second \<noteq> Leaf b" using Split.prems by auto
    then show ?thesis using Split True leaf [of first] by simp
  next
    case False
    then have "first \<noteq> Leaf b" using Split.prems by auto
    then show ?thesis using Split False leaf [of second] remove_absent [of b first] by simp
  qed
qed

lemma filter_absent: "a \<notin> set xs \<Longrightarrow> filter (\<lambda>x. x \<noteq> a) xs = xs"
  by (induction xs) auto

lemma remove_leaf_outcome:
  assumes "distinct (leaves t)" "a \<in> set (leaves t)" "t \<noteq> Leaf a"
  shows "\<exists>b t'. remove_leaf a t = (Collapsed b, t') \<and> leaves t' = filter (\<lambda>x. x \<noteq> a) (leaves t) \<and> b \<in> set (leaves t')"
  using assms
proof (induction t)
  case (Split d first second)
  consider "first = Leaf a" | "second = Leaf a" "first \<noteq> Leaf a"
    | "a \<in> set (leaves first)" "first \<noteq> Leaf a" "second \<noteq> Leaf a"
    | "a \<in> set (leaves second)" "a \<notin> set (leaves first)" "first \<noteq> Leaf a" "second \<noteq> Leaf a"
    using Split.prems(2) by auto
  then show ?case
  proof cases
    case 3
    then obtain b t' where "remove_leaf a first = (Collapsed b, t')" "leaves t' = filter (\<lambda>x. x \<noteq> a) (leaves first)" "b \<in> set (leaves t')"
      using Split.IH(1) Split.prems by auto
    then show ?thesis using 3 Split.prems filter_absent [of a "leaves second"] by (auto simp: disjoint_iff)
  next
    case 4
    then obtain b t' where "remove_leaf a second = (Collapsed b, t')" "leaves t' = filter (\<lambda>x. x \<noteq> a) (leaves second)" "b \<in> set (leaves t')"
      using Split.IH(2) Split.prems by auto
    then show ?thesis using 4 filter_absent [of a "leaves first"] remove_absent [OF 4(2)] by auto
  qed (use Split.prems filter_absent [of a "leaves first"] filter_absent [of a "leaves second"] in \<open>auto simp: first_leaf_hd\<close>)
qed auto

section \<open>What a layout consists of\<close>

text \<open>The rectangles of the two parts of a split.\<close>

definition ratio_of :: "bool \<Rightarrow> 'f split_data \<Rightarrow> 'f" where
  "ratio_of p d = (if p then (case sd_preview_ratio d of Some r \<Rightarrow> r | None \<Rightarrow> sd_ratio d) else sd_ratio d)"

definition parts :: "'f f32 \<Rightarrow> 'f \<Rightarrow> 'f \<Rightarrow> 'f \<Rightarrow> bool \<Rightarrow> 'f split_data \<Rightarrow> 'f rect \<Rightarrow> 'f rect \<times> 'f rect" where
  "parts F cw ch dv p d vp = (case sd_direction d of
     LeftRight \<Rightarrow> (let (a, b) = cut F (rw vp) dv cw (ratio_of p d) in
       (rect_new (rx vp) (ry vp) a (rh vp), rect_new (fadd F (fadd F (rx vp) a) dv) (ry vp) b (rh vp)))
   | TopBottom \<Rightarrow> (let (a, b) = cut F (rh vp) dv ch (ratio_of p d) in
       (rect_new (rx vp) (ry vp) (rw vp) a, rect_new (rx vp) (fadd F (fadd F (ry vp) a) dv) (rw vp) b)))"

definition bar :: "'f f32 \<Rightarrow> 'f \<Rightarrow> 'f \<Rightarrow> 'f \<Rightarrow> bool \<Rightarrow> 'f split_data \<Rightarrow> 'f rect \<Rightarrow> bool list \<Rightarrow> 'f divider" where
  "bar F cw ch dv p d vp path = \<lparr>dv_rect = (case sd_direction d of
       LeftRight \<Rightarrow> rect_new (fadd F (rx vp) (fst (cut F (rw vp) dv cw (ratio_of p d)))) (ry vp) dv (rh vp)
     | TopBottom \<Rightarrow> rect_new (rx vp) (fadd F (ry vp) (fst (cut F (rh vp) dv ch (ratio_of p d)))) (rw vp) dv),
     dv_direction = sd_direction d, dv_path = path, dv_viewport = vp\<rparr>"

definition under :: "bool list \<Rightarrow> 'f divider \<Rightarrow> 'f divider" where
  "under q d = d\<lparr>dv_path := q @ dv_path d\<rparr>"

lemma under_simps [simp]:
  "dv_path (under q x) = q @ dv_path x" "dv_direction (under q x) = dv_direction x"
  "under q (bar F cw ch dv p d vp path) = bar F cw ch dv p d vp (q @ path)"
  "under [] x = x"
  by (simp_all add: under_def bar_def)

lemma bar_simps [simp]: "dv_path (bar F cw ch dv p d vp path) = path" "dv_direction (bar F cw ch dv p d vp path) = sd_direction d"
  by (simp_all add: bar_def)

lemma collect_rects_Split:
  "collect_rects F cw ch dv p (Split d a b) vp path out =
     collect_rects F cw ch dv p b (snd (parts F cw ch dv p d vp)) (path @ [True])
       (collect_rects F cw ch dv p a (fst (parts F cw ch dv p d vp)) (path @ [False])
         (out\<lparr>sl_dividers := sl_dividers out @ [bar F cw ch dv p d vp path]\<rparr>))"
  by (simp add: parts_def bar_def Let_def ratio_of_def [symmetric] split: split_direction.split prod.split)

lemma panes_shift:
  "sl_panes out = ps @ sl_panes out' \<Longrightarrow>
   sl_panes (collect_rects F cw ch dv p t vp path out) = ps @ sl_panes (collect_rects F cw ch dv p t vp path' out')"
  by (induction t arbitrary: vp path path' out out') (simp, simp del: collect_rects.simps add: collect_rects_Split)

lemma dividers_shift:
  "sl_dividers out = ds @ map (under q) (sl_dividers out') \<Longrightarrow>
   sl_dividers (collect_rects F cw ch dv p t vp (q @ path) out) =
     ds @ map (under q) (sl_dividers (collect_rects F cw ch dv p t vp path out'))"
proof (induction t arbitrary: vp path out out')
  case (Split d a b)
  show ?case
    unfolding collect_rects_Split append_assoc by (intro Split.IH) (simp add: Split.prems)
qed simp

text \<open>Panes and dividers of a split, from those of its parts.\<close>

lemma layout_Leaf [simp]:
  "sl_panes (tree_layout F vp cw ch dv p (Leaf a)) = [(a, vp)]" "sl_dividers (tree_layout F vp cw ch dv p (Leaf a)) = []"
  by (simp_all add: tree_layout_def)

lemma layout_Split:
  fixes F cw ch dv p d vp
  defines "r \<equiv> parts F cw ch dv p d vp"
  shows "sl_panes (tree_layout F vp cw ch dv p (Split d a b)) =
      sl_panes (tree_layout F (fst r) cw ch dv p a) @ sl_panes (tree_layout F (snd r) cw ch dv p b)"
    "sl_dividers (tree_layout F vp cw ch dv p (Split d a b)) = bar F cw ch dv p d vp [] #
      map (under [False]) (sl_dividers (tree_layout F (fst r) cw ch dv p a)) @
      map (under [True]) (sl_dividers (tree_layout F (snd r) cw ch dv p b))"
proof -
  let ?e = "\<lparr>sl_panes = [], sl_dividers = []\<rparr> :: ('b, 'a) split_layout"
  let ?o = "?e\<lparr>sl_dividers := [bar F cw ch dv p d vp []]\<rparr>"
  have eq: "tree_layout F vp cw ch dv p (Split d a b) =
      collect_rects F cw ch dv p b (snd r) [True] (collect_rects F cw ch dv p a (fst r) [False] ?o)"
    by (simp del: collect_rects.simps add: tree_layout_def collect_rects_Split r_def)
  show "sl_panes (tree_layout F vp cw ch dv p (Split d a b)) =
      sl_panes (tree_layout F (fst r) cw ch dv p a) @ sl_panes (tree_layout F (snd r) cw ch dv p b)"
    using panes_shift [where out = ?o and out' = ?e and ps = "[]" and path = "[False]" and path' = "[]"]
      panes_shift [where out = "collect_rects F cw ch dv p a (fst r) [False] ?o" and out' = ?e and path = "[True]" and path' = "[]"
        and ps = "sl_panes (collect_rects F cw ch dv p a (fst r) [False] ?o)"]
    unfolding eq unfolding tree_layout_def by simp
  show "sl_dividers (tree_layout F vp cw ch dv p (Split d a b)) = bar F cw ch dv p d vp [] #
      map (under [False]) (sl_dividers (tree_layout F (fst r) cw ch dv p a)) @
      map (under [True]) (sl_dividers (tree_layout F (snd r) cw ch dv p b))"
    using dividers_shift [where out = ?o and out' = ?e and ds = "[bar F cw ch dv p d vp []]" and q = "[False]" and path = "[]"]
      dividers_shift [where out' = ?e and q = "[True]" and path = "[]" and out = "collect_rects F cw ch dv p a (fst r) [False] ?o"
        and ds = "sl_dividers (collect_rects F cw ch dv p a (fst r) [False] ?o)"]
    unfolding eq unfolding tree_layout_def by simp
qed

lemma panes_graft:
  "sl_panes (tree_layout F vp cw ch dv p (graft g t)) =
     concat (map (\<lambda>(a, r). sl_panes (tree_layout F r cw ch dv p (g a))) (sl_panes (tree_layout F vp cw ch dv p t)))"
  by (induction t arbitrary: vp) (simp_all add: layout_Split)

lemma panes_leaves: "map fst (sl_panes (tree_layout F vp cw ch dv p t)) = leaves t"
  by (induction t arbitrary: vp) (simp_all add: layout_Split)

lemma divider_addresses:
  "x \<in> set (sl_dividers (tree_layout F vp cw ch dv p t)) \<Longrightarrow>
   \<exists>d a b. node_at (dv_path x) t = Some (Split d a b) \<and> sd_direction d = dv_direction x"
  by (induction t arbitrary: vp x) (fastforce simp: layout_Split)+

lemma divider_paths:
  "distinct (map dv_path (sl_dividers (tree_layout F vp cw ch dv p t)))"
  by (induction t arbitrary: vp)
    (auto simp: layout_Split comp_def distinct_map inj_on_def)

lemma divider_count: "Suc (length (sl_dividers (tree_layout F vp cw ch dv p t))) = length (leaves t)"
proof (induction t arbitrary: vp)
  case (Split d a b)
  show ?case by (simp add: layout_Split flip: Split.IH(1) [of "fst (parts F cw ch dv p d vp)"] Split.IH(2) [of "snd (parts F cw ch dv p d vp)"])
qed simp

lemma joined_leaves:
  fixes F :: "'f f32" and side
  defines "d \<equiv> \<lparr>sd_direction = (case side of Nav_Left \<Rightarrow> LeftRight | Nav_Right \<Rightarrow> LeftRight | _ \<Rightarrow> TopBottom),
     sd_ratio = flit F 0.5, sd_preview_ratio = None, sd_dragging = False\<rparr>"
  shows "joined_tree F (Leaf b) side (Leaf a) = Split d (Leaf a) (Leaf b) \<or>
    joined_tree F (Leaf b) side (Leaf a) = Split d (Leaf b) (Leaf a)"
  by (cases side) (simp_all add: joined_tree_def d_def)

text \<open>The loop of the navigation keeps a nearest pane of those seen.\<close>

definition nearest :: "'f f32 \<Rightarrow> 'a \<Rightarrow> split_nav \<Rightarrow> 'f rect \<Rightarrow> ('a \<times> 'f rect) list \<Rightarrow> ('a \<times> 'f) option \<Rightarrow> bool" where
  "nearest F focused nav frect panes best \<longleftrightarrow> (case best of
     None \<Rightarrow> (\<forall>(a, r) \<in> set panes. a \<noteq> focused \<longrightarrow> nav_distance F nav frect r = None)
   | Some (a, m) \<Rightarrow> (\<exists>r. (a, r) \<in> set panes \<and> a \<noteq> focused \<and> nav_distance F nav frect r = Some m) \<and>
       (\<forall>(b, r) \<in> set panes. \<forall>m'. b \<noteq> focused \<and> nav_distance F nav frect r = Some m' \<longrightarrow> \<not> flt F m' m))"

lemma nearest_step:
  assumes "transp (flt F)" "irreflp (flt F)" "nearest F focused nav frect seen best"
  shows "nearest F focused nav frect (seen @ [(a, r)])
    (if a = focused then best
     else (case nav_distance F nav frect r of
             None \<Rightarrow> best
           | Some m \<Rightarrow> if (case best of None \<Rightarrow> True | Some (_, b) \<Rightarrow> flt F m b) then Some (a, m) else best))"
  using assms
  by (auto simp: nearest_def case_prod_unfold irreflp_def dest: transpD split: option.splits if_splits)

lemma nav_loop_nearest:
  assumes "transp (flt F)" "irreflp (flt F)" "nearest F focused nav frect seen best"
  shows "nearest F focused nav frect (seen @ panes) (nav_loop F focused nav frect panes best)"
  using assms(3)
proof (induction panes arbitrary: seen best)
  case (Cons p panes)
  obtain a r where p: "p = (a, r)" by fastforce
  show ?case
    using Cons.IH [OF nearest_step [OF assms(1,2) Cons.prems, of a r]] by (simp add: p)
qed simp

section \<open>Properties\<close>

text \<open>
  C33: the edits of a pane tree undo each other. On a tree without repeated panes, a pane that is split
  off from another one, or docked beside it on any side, is taken away by removing it, which gives the
  focus back to the other pane and restores the tree with all its ratios. Replacing a pane by a new one
  and back, and swapping two panes twice, restore the tree. Removing a pane of a larger tree leaves
  the others in order and focuses one of them.
\<close>

theorem pane_edits_roundtrip:
  assumes t: "distinct (leaves t)" "a \<in> set (leaves t)" and b: "b \<notin> set (leaves t)"
    and c: "c \<in> set (leaves t)" "c \<noteq> a"
  shows "(\<exists>t'. split_leaf a b d r t = (True, t') \<and> remove_leaf b t' = (Collapsed a, t)) \<and>
    (\<exists>t'. dock_at_leaf F a (Leaf b) side t = (Inr (), t') \<and> remove_leaf b t' = (Collapsed a, t)) \<and>
    (\<exists>t'. replace_leaf a b t = (True, t') \<and> replace_leaf b a t' = (True, t)) \<and>
    (\<exists>t'. swap_leaves a c t = (True, t') \<and> swap_leaves a c t' = (True, t)) \<and>
    (\<exists>f t'. remove_leaf a t = (Collapsed f, t') \<and> leaves t' = filter (\<lambda>x. x \<noteq> a) (leaves t) \<and> f \<in> set (leaves t'))"
proof (intro conjI)
  show "\<exists>t'. split_leaf a b d r t = (True, t') \<and> remove_leaf b t' = (Collapsed a, t)"
    using t b by (simp add: split_leaf_graft) (rule remove_grafted, auto)
  show "\<exists>t'. dock_at_leaf F a (Leaf b) side t = (Inr (), t') \<and> remove_leaf b t' = (Collapsed a, t)"
    using t b remove_grafted [OF t b joined_leaves] by (auto simp: dock_at_leaf_graft)
  have leaves: "leaves (graft_at a (Leaf b) t) = map (\<lambda>x. if x = a then b else x) (leaves t)"
    by (simp flip: if_distrib [of Leaf])
  have "distinct (leaves (graft_at a (Leaf b) t))"
    unfolding leaves using t b by (auto simp: distinct_map inj_on_def)
  moreover have "graft_at b (Leaf a) (graft_at a (Leaf b) t) = t"
    unfolding graft_graft by (rule trans [OF graft_cong graft_Leaf]) (use b in auto)
  ultimately show "\<exists>t'. replace_leaf a b t = (True, t') \<and> replace_leaf b a t' = (True, t)"
    using t by (simp add: replace_leaf_graft leaves)
  let ?s = "\<lambda>x. if x = a then c else if x = c then a else x"
  have "leaves (swap_in a c t) = map ?s (leaves t)"
    by (simp add: swap_in_graft)
  moreover have "swap_in a c (swap_in a c t) = t"
    unfolding swap_in_graft graft_graft by (rule trans [OF graft_cong graft_Leaf]) auto
  ultimately show "\<exists>t'. swap_leaves a c t = (True, t') \<and> swap_leaves a c t' = (True, t)"
    using t c by (auto simp: swap_leaves_def image_iff)
  show "\<exists>f t'. remove_leaf a t = (Collapsed f, t') \<and> leaves t' = filter (\<lambda>x. x \<noteq> a) (leaves t) \<and> f \<in> set (leaves t')"
    by (rule remove_leaf_outcome) (use t c in auto)
qed

text \<open>A tree of three panes over the rational numbers.\<close>

definition exact :: "rat f32" where
  "exact = \<lparr>flit = id, fadd = (+), fsub = (-), fmul = (*), fdiv = (/), fmax = max, fmin = min, ffloor = (\<lambda>x. of_int \<lfloor>x\<rfloor>),
     fround = (\<lambda>x. of_int (round x)), fabs = abs, fclamp = (\<lambda>x a b. max a (min x b)), flt = (<), fle = (\<le>)\<rparr>"

definition sample_tree :: "(nat, rat) split_tree" where
  "sample_tree = Split \<lparr>sd_direction = LeftRight, sd_ratio = 0.5, sd_preview_ratio = None, sd_dragging = False\<rparr> (Leaf 1)
     (Split \<lparr>sd_direction = TopBottom, sd_ratio = 0.3, sd_preview_ratio = Some 0.4, sd_dragging = True\<rparr> (Leaf 2) (Leaf 3))"

theorem pane_edits_roundtrip_witness:
  "\<exists>t'. dock_at_leaf exact 2 (Leaf 4) Nav_Up sample_tree = (Inr (), t') \<and> remove_leaf 4 t' = (Collapsed 2, sample_tree)"
  using pane_edits_roundtrip [of sample_tree 2 4 3 LeftRight 0 exact Nav_Up] by (simp add: sample_tree_def)

text \<open>
  C34: a layout follows the tree. Every pane gets one rectangle, in the order of the leaves; the dividers
  are one fewer, each addresses a split of its direction by its path, and no two the same one. Docking a
  tree beside a pane divides the rectangle of that pane and leaves all other rectangles alone, and
  reports a pane that is gone by giving the source back; swapping two panes exchanges their rectangles.
\<close>

theorem layout_follows_tree:
  fixes F :: "'f f32" and cw ch dv p
  defines "panes vp t \<equiv> sl_panes (tree_layout F vp cw ch dv p t)"
    and "dividers vp t \<equiv> sl_dividers (tree_layout F vp cw ch dv p t)"
  assumes t: "distinct (leaves t)"
  shows "map fst (panes vp t) = leaves t \<and>
    length (dividers vp t) + 1 = length (leaves t) \<and> distinct (map dv_path (dividers vp t)) \<and>
    (\<forall>x \<in> set (dividers vp t). \<exists>d l r. node_at (dv_path x) t = Some (Split d l r) \<and> sd_direction d = dv_direction x) \<and>
    (a \<in> set (leaves t) \<longrightarrow> (\<exists>t'. dock_at_leaf F a s side t = (Inr (), t') \<and>
       panes vp t' = concat (map (\<lambda>(x, r). if x = a then panes r (joined_tree F s side (Leaf a)) else [(x, r)]) (panes vp t)))) \<and>
    (a \<notin> set (leaves t) \<longrightarrow> dock_at_leaf F a s side t = (Inl s, t)) \<and>
    panes vp (snd (swap_leaves a b t)) =
      (if fst (swap_leaves a b t)
       then map (\<lambda>(x, r). (if x = a then b else if x = b then a else x, r)) (panes vp t) else panes vp t)"
proof (intro conjI)
  show "map fst (panes vp t) = leaves t" "length (dividers vp t) + 1 = length (leaves t)" "distinct (map dv_path (dividers vp t))"
    by (simp_all add: panes_def dividers_def panes_leaves divider_count divider_paths)
  show "\<forall>x \<in> set (dividers vp t). \<exists>d l r. node_at (dv_path x) t = Some (Split d l r) \<and> sd_direction d = dv_direction x"
    using divider_addresses by (fastforce simp: dividers_def)
  show "a \<in> set (leaves t) \<longrightarrow> (\<exists>t'. dock_at_leaf F a s side t = (Inr (), t') \<and>
      panes vp t' = concat (map (\<lambda>(x, r). if x = a then panes r (joined_tree F s side (Leaf a)) else [(x, r)]) (panes vp t)))"
    by (auto simp: panes_def dock_at_leaf_graft [OF t] panes_graft intro!: arg_cong [of _ _ concat])
  show "a \<notin> set (leaves t) \<longrightarrow> dock_at_leaf F a s side t = (Inl s, t)"
    by (simp add: dock_at_leaf_graft [OF t])
  show "panes vp (snd (swap_leaves a b t)) =
      (if fst (swap_leaves a b t)
       then map (\<lambda>(x, r). (if x = a then b else if x = b then a else x, r)) (panes vp t) else panes vp t)"
    by (simp add: panes_def swap_leaves_def swap_in_graft panes_graft concat_map_singleton case_prod_unfold)
qed

lemma exact_cut:
  "cut exact extent divider cell r =
    (let usable = max (extent - divider) cell; first = min (max (of_int \<lfloor>usable * r\<rfloor>) cell) (max (usable - cell) cell)
     in (first, max (usable - first) cell))"
  "fadd exact x y = x + y" "flit exact q = q"
  by (simp_all add: cut_def exact_def Let_def)

lemma sample_floors: "\<lfloor>(47 :: rat) / 2\<rfloor> = 23"
  by (simp add: floor_eq_iff)

theorem layout_follows_tree_witness:
  "\<exists>t'. dock_at_leaf exact 1 (Leaf 4) Nav_Right sample_tree = (Inr (), t') \<and>
     sl_panes (tree_layout exact \<lparr>rx = 0, ry = 0, rw = 103, rh = 63\<rparr> 10 20 3 False t') =
       [(1, \<lparr>rx = 0, ry = 0, rw = 23, rh = 63\<rparr>), (4, \<lparr>rx = 26, ry = 0, rw = 24, rh = 63\<rparr>),
        (2, \<lparr>rx = 53, ry = 0, rw = 50, rh = 20\<rparr>), (3, \<lparr>rx = 53, ry = 23, rw = 50, rh = 40\<rparr>)]"
proof -
  let ?vp = "\<lparr>rx = 0, ry = 0, rw = 103, rh = 63\<rparr> :: rat rect"
  have "distinct (leaves sample_tree)" "1 \<in> set (leaves sample_tree)" by (simp_all add: sample_tree_def)
  then obtain t' where "dock_at_leaf exact 1 (Leaf 4) Nav_Right sample_tree = (Inr (), t')"
    "sl_panes (tree_layout exact ?vp 10 20 3 False t') =
      concat (map (\<lambda>(x, r). if x = 1 then sl_panes (tree_layout exact r 10 20 3 False (joined_tree exact (Leaf 4) Nav_Right (Leaf 1)))
        else [(x, r)]) (sl_panes (tree_layout exact ?vp 10 20 3 False sample_tree)))"
    using layout_follows_tree [of sample_tree exact ?vp 10 20 3 False 1 "Leaf 4" Nav_Right] by blast
  moreover have "sl_panes (tree_layout exact ?vp 10 20 3 False sample_tree) =
      [(1, \<lparr>rx = 0, ry = 0, rw = 50, rh = 63\<rparr>), (2, \<lparr>rx = 53, ry = 0, rw = 50, rh = 20\<rparr>),
       (3, \<lparr>rx = 53, ry = 23, rw = 50, rh = 40\<rparr>)]"
    by (simp add: sample_tree_def layout_Split parts_def exact_cut ratio_of_def rect_new_def)
  moreover have "sl_panes (tree_layout exact \<lparr>rx = 0, ry = 0, rw = 50, rh = 63\<rparr> 10 20 3 False (joined_tree exact (Leaf 4) Nav_Right (Leaf 1))) =
      [(1, \<lparr>rx = 0, ry = 0, rw = 23, rh = 63\<rparr>), (4 :: nat, \<lparr>rx = 26, ry = 0, rw = 24, rh = 63\<rparr>)]"
    by (simp add: joined_tree_def layout_Split parts_def exact_cut ratio_of_def rect_new_def sample_floors)
  ultimately show ?thesis by (intro exI [of _ t']) simp
qed

text \<open>
  C35: moving the focus finds a nearest pane. With a comparison that is transitive and irreflexive, as the one of
  \<open>f32\<close> is even with NaN, the navigation answers a pane other than the focused one that lies in the
  direction, and no other such pane is closer; it answers none only if no pane lies there, or if
  the focused pane is not shown.
\<close>

theorem nav_target_nearest:
  assumes "transp (flt F)" "irreflp (flt F)"
  shows "(case find (\<lambda>p. fst p = focused) panes of
      None \<Rightarrow> nav_target F panes focused nav = None
    | Some (_, frect) \<Rightarrow>
       (case nav_target F panes focused nav of
          None \<Rightarrow> (\<forall>(a, r) \<in> set panes. a \<noteq> focused \<longrightarrow> nav_distance F nav frect r = None)
        | Some a \<Rightarrow> (\<exists>r m. (a, r) \<in> set panes \<and> a \<noteq> focused \<and> nav_distance F nav frect r = Some m \<and>
            (\<forall>(b, r') \<in> set panes. \<forall>m'. b \<noteq> focused \<and> nav_distance F nav frect r' = Some m' \<longrightarrow> \<not> flt F m' m))))"
proof (cases "find (\<lambda>p. fst p = focused) panes")
  case (Some p)
  have "nearest F focused nav (snd p) panes (nav_loop F focused nav (snd p) panes None)"
    using nav_loop_nearest [OF assms, of focused nav "snd p" "[]" None panes] by (simp add: nearest_def)
  then show ?thesis
    using Some by (auto simp: nav_target_def nearest_def case_prod_unfold split: option.splits)
qed (simp add: nav_target_def)

theorem nav_target_nearest_witness:
  "\<exists>m. nav_distance exact Nav_Right \<lparr>rx = 0, ry = 0, rw = 100, rh = 100\<rparr> \<lparr>rx = 110, ry = 0, rw = 100, rh = 100\<rparr> = Some m \<and>
    nav_target exact [(1 :: nat, \<lparr>rx = 0, ry = 0, rw = 100, rh = 100\<rparr>), (4, \<lparr>rx = 110, ry = 110, rw = 100, rh = 100\<rparr>),
      (2, \<lparr>rx = 110, ry = 0, rw = 100, rh = 100\<rparr>)] 1 Nav_Right = Some 2"
proof -
  have "transp (flt exact)" "irreflp (flt exact)" by (simp_all add: exact_def)
  from nav_target_nearest [OF this, where focused = 1 and nav = Nav_Right and panes = "[(1 :: nat, \<lparr>rx = 0, ry = 0, rw = 100, rh = 100\<rparr>), (4, \<lparr>rx = 110, ry = 110, rw = 100, rh = 100\<rparr>),
      (2, \<lparr>rx = 110, ry = 0, rw = 100, rh = 100\<rparr>)]"]
  show ?thesis
    by (auto simp: nav_distance_def rect_center_def exact_def Let_def split: option.splits)
qed

end
