(* ===== verification/Secure_Channel.thy ===== *)
theory Secure_Channel
  imports Machine
begin

text \<open>
  The encrypted link between a phone and a desktop (\<open>mobile/link/src/crypto.rs\<close>): the handshake, and the
  framing that cuts a message into packets and puts it together again. The Noise protocol itself is a
  library; the record \<open>noise\<close> holds the calls the code makes to it, \<open>None\<close> being an error. Buffers that
  are wiped when dropped are plain byte lists.
\<close>

section \<open>Data\<close>

type_synonym octets = "8 word list"

datatype link_error = Err_Credential | Err_Random | Err_State | Err_Frame | Err_Authentication

record ('h, 't) noise =
  hs_write :: "nat \<Rightarrow> 'h \<Rightarrow> (octets \<times> 'h) option"
  hs_read :: "octets \<Rightarrow> 'h \<Rightarrow> 'h option"
  hs_finished :: "'h \<Rightarrow> bool"
  hs_hash :: "'h \<Rightarrow> octets"
  hs_into_transport :: "'h \<Rightarrow> 't option"
  tr_write :: "octets \<Rightarrow> 't \<Rightarrow> (octets \<times> 't) option"
  tr_read :: "octets \<Rightarrow> 't \<Rightarrow> (octets \<times> 't) option"

datatype ('h, 't) link_state = Handshake 'h | Transport 't | Link_Closed

record ('h, 't) channel =
  ch_state :: "('h, 't) link_state"
  ch_assembly :: octets
  ch_expected_size :: nat
  ch_verification :: "string option"

abbreviation MAX_PACKET :: nat where "MAX_PACKET \<equiv> 65535"
abbreviation MAX_MESSAGE :: nat where "MAX_MESSAGE \<equiv> 2097152"
abbreviation CHUNK :: nat where "CHUNK \<equiv> 61440"
abbreviation HEADER :: nat where "HEADER \<equiv> 8"

text \<open>\<open>(n as u32).to_be_bytes()\<close> and \<open>u32::from_be_bytes\<close>, and six decimal digits.\<close>

definition to_be_bytes :: "nat \<Rightarrow> octets" where
  "to_be_bytes n = map (\<lambda>k. word_of_nat (n div 256 ^ k)) [3, 2, 1, 0]"

definition from_be_bytes :: "octets \<Rightarrow> nat" where
  "from_be_bytes bs = foldl (\<lambda>acc b. acc * 256 + unat b) 0 bs"

definition six_digits :: "nat \<Rightarrow> string" where
  "six_digits n = map (\<lambda>k. char_of (48 + n div 10 ^ k mod 10)) [5, 4, 3, 2, 1, 0]"

text \<open>\<open>slice::chunks\<close>.\<close>

function chunks :: "nat \<Rightarrow> 'a list \<Rightarrow> 'a list list" where
  "chunks n xs = (if n = 0 \<or> xs = [] then [] else take n xs # chunks n (drop n xs))"
  by pat_completeness auto
termination
  by (relation "measure (length \<circ> snd)") auto

declare chunks.simps [simp del]

section \<open>The channel\<close>

definition handshake :: "'h \<Rightarrow> ('h, 't) channel" where
  "handshake h = \<lparr>ch_state = Handshake h, ch_assembly = [], ch_expected_size = 0, ch_verification = None\<rparr>"

definition established :: "('h, 't) channel \<Rightarrow> bool" where
  "established c = (case ch_state c of Transport _ \<Rightarrow> True | _ \<Rightarrow> False)"

definition close :: "('h, 't) channel \<Rightarrow> ('h, 't) channel" where
  "close c = c\<lparr>ch_state := Link_Closed, ch_assembly := [], ch_expected_size := 0, ch_verification := None\<rparr>"

definition finish_handshake ::
    "('h, 't) noise \<Rightarrow> ('h, 't) channel \<Rightarrow> ((link_error + unit) \<times> ('h, 't) channel) option" where
  "finish_handshake N c = (case ch_state c of
     Handshake h \<Rightarrow>
       (if hs_finished N h then do {
          let c = c\<lparr>ch_state := Link_Closed\<rparr>;
          assert_that (4 \<le> length (hs_hash N h));
          let value = from_be_bytes (take 4 (hs_hash N h));
          let c = c\<lparr>ch_verification := Some (six_digits (value mod 1000000))\<rparr>;
          (case hs_into_transport N h of
             None \<Rightarrow> Some (Inl Err_Authentication, c)
           | Some t \<Rightarrow> Some (Inr (), c\<lparr>ch_state := Transport t\<rparr>))
        }
        else Some (Inr (), c))
   | _ \<Rightarrow> Some (Inr (), c))"

definition write_handshake ::
    "('h, 't) noise \<Rightarrow> ('h, 't) channel \<Rightarrow> ((link_error + octets) \<times> ('h, 't) channel) option" where
  "write_handshake N c = (case ch_state c of
     Handshake h \<Rightarrow>
       (case hs_write N 128 h of
          Some (bytes, h) \<Rightarrow> do {
            (r, c) \<leftarrow> finish_handshake N (c\<lparr>ch_state := Handshake h\<rparr>);
            Some (case r of Inl e \<Rightarrow> Inl e | Inr _ \<Rightarrow> Inr bytes, c)
          }
        | None \<Rightarrow> Some (Inl Err_Authentication, close c))
   | _ \<Rightarrow> Some (Inl Err_State, close c))"

definition read_handshake ::
    "('h, 't) noise \<Rightarrow> octets \<Rightarrow> ('h, 't) channel \<Rightarrow> ((link_error + unit) \<times> ('h, 't) channel) option" where
  "read_handshake N bytes c =
     (let result = (case ch_state c of
            Handshake h \<Rightarrow> (if length bytes \<le> 128 then hs_read N bytes h else None)
          | _ \<Rightarrow> None)
      in case result of
           None \<Rightarrow> Some (Inl Err_Authentication, close c)
         | Some h \<Rightarrow> finish_handshake N (c\<lparr>ch_state := Handshake h\<rparr>))"

text \<open>Every chunk is sent after the total length and its offset.\<close>

definition link_frame :: "nat \<Rightarrow> nat \<Rightarrow> octets \<Rightarrow> octets" where
  "link_frame whole index chunk = to_be_bytes whole @ to_be_bytes (index * CHUNK) @ chunk"

fun seal_loop :: "('h, 't) noise \<Rightarrow> nat \<Rightarrow> nat \<Rightarrow> octets list \<Rightarrow> 't \<Rightarrow> octets list \<Rightarrow> (octets list \<times> 't) option" where
  "seal_loop N whole index [] t packets = Some (packets, t)"
| "seal_loop N whole index (chunk # rest) t packets = do {
     (packet, t) \<leftarrow> tr_write N (link_frame whole index chunk) t;
     seal_loop N whole (index + 1) rest t (packets @ [packet])
   }"

definition seal_inner ::
    "('h, 't) noise \<Rightarrow> octets \<Rightarrow> ('h, 't) channel \<Rightarrow> (link_error + octets list) \<times> ('h, 't) channel" where
  "seal_inner N message c =
     (if message = [] \<or> length message > MAX_MESSAGE then (Inl Err_Frame, c)
      else (case ch_state c of
              Transport t \<Rightarrow>
                (case seal_loop N (length message) 0 (chunks CHUNK message) t [] of
                   None \<Rightarrow> (Inl Err_Authentication, c)
                 | Some (packets, t) \<Rightarrow> (Inr packets, c\<lparr>ch_state := Transport t\<rparr>))
            | _ \<Rightarrow> (Inl Err_State, c)))"

definition seal ::
    "('h, 't) noise \<Rightarrow> octets \<Rightarrow> ('h, 't) channel \<Rightarrow> (link_error + octets list) \<times> ('h, 't) channel" where
  "seal N message c = (case seal_inner N message c of
     (Inl e, c) \<Rightarrow> (Inl e, close c)
   | (Inr packets, c) \<Rightarrow> (Inr packets, c))"

definition open_inner ::
    "('h, 't) noise \<Rightarrow> octets \<Rightarrow> ('h, 't) channel \<Rightarrow> (link_error + octets option) \<times> ('h, 't) channel" where
  "open_inner N packet c =
     (if \<not> (HEADER + 17 \<le> length packet \<and> length packet \<le> MAX_PACKET) then (Inl Err_Frame, c)
      else (case ch_state c of
              Transport t \<Rightarrow>
                (case tr_read N packet t of
                   None \<Rightarrow> (Inl Err_Authentication, c)
                 | Some (plain, t) \<Rightarrow>
                     (let c = c\<lparr>ch_state := Transport t\<rparr> in
                      if length plain \<le> HEADER then (Inl Err_Frame, c)
                      else
                        (let whole = from_be_bytes (take 4 plain);
                             offset = from_be_bytes (take 4 (drop 4 plain));
                             payload = drop HEADER plain
                         in if whole = 0 \<or> whole > MAX_MESSAGE \<or> offset \<noteq> length (ch_assembly c) \<or> length payload > CHUNK \<or>
                               offset + length payload > whole \<or> (offset > 0 \<and> whole \<noteq> ch_expected_size c)
                            then (Inl Err_Frame, c)
                            else
                              (let c = (if offset = 0 then c\<lparr>ch_expected_size := whole\<rparr> else c);
                                   c = c\<lparr>ch_assembly := ch_assembly c @ payload\<rparr>
                               in if length (ch_assembly c) = whole
                                  then (Inr (Some (ch_assembly c)), c\<lparr>ch_expected_size := 0, ch_assembly := []\<rparr>)
                                  else (Inr None, c)))))
            | _ \<Rightarrow> (Inl Err_State, c)))"

definition open_packet ::
    "('h, 't) noise \<Rightarrow> octets \<Rightarrow> ('h, 't) channel \<Rightarrow> (link_error + octets option) \<times> ('h, 't) channel" where
  "open_packet N packet c = (case open_inner N packet c of
     (Inl e, c) \<Rightarrow> (Inl e, close c)
   | (Inr m, c) \<Rightarrow> (Inr m, c))"

text \<open>The messages delivered by opening packets one after the other.\<close>

fun open_all :: "('h, 't) noise \<Rightarrow> octets list \<Rightarrow> ('h, 't) channel \<Rightarrow> octets list \<times> ('h, 't) channel" where
  "open_all N [] c = ([], c)"
| "open_all N (p # ps) c = (let (r, c) = open_packet N p c; (ms, c) = open_all N ps c
     in (case r of Inr (Some m) \<Rightarrow> m # ms | _ \<Rightarrow> ms, c))"

section \<open>Chunks and headers\<close>

lemma chunks_Nil [simp]: "chunks n [] = []"
  by (simp add: chunks.simps)

lemma chunks_Cons: "0 < n \<Longrightarrow> xs \<noteq> [] \<Longrightarrow> chunks n xs = take n xs # chunks n (drop n xs)"
  by (subst chunks.simps) simp

lemma concat_chunks: "0 < n \<Longrightarrow> concat (chunks n xs) = xs"
  by (induction n xs rule: chunks.induct) (subst chunks.simps, simp)

lemma chunks_bounds: "0 < n \<Longrightarrow> x \<in> set (chunks n xs) \<Longrightarrow> x \<noteq> [] \<and> length x \<le> n"
  by (induction n xs rule: chunks.induct) (subst (asm) (2) chunks.simps, auto split: if_splits)

lemma chunks_eq_Nil [simp]: "0 < n \<Longrightarrow> chunks n xs = [] \<longleftrightarrow> xs = []"
  by (simp add: chunks.simps)

text \<open>All chunks before the last are full, so the offset of a chunk is its number times the size.\<close>

lemma chunks_offset:
  "0 < n \<Longrightarrow> k < length (chunks n xs) \<Longrightarrow> length (concat (take k (chunks n xs))) = k * n"
proof (induction n xs arbitrary: k rule: chunks.induct)
  case (1 n xs)
  show ?case
  proof (cases "xs = []")
    case False
    show ?thesis
    proof (cases k)
      case (Suc j)
      then have j: "j < length (chunks n (drop n xs))" using 1 False by (simp add: chunks_Cons)
      then have "n < length xs" using 1(2) by (cases "drop n xs = []") auto
      then show ?thesis using 1 False Suc j by (simp add: chunks_Cons)
    qed simp
  qed (use 1 in simp)
qed

lemma length_to_be_bytes [simp]: "length (to_be_bytes n) = 4"
  by (simp add: to_be_bytes_def)

lemma from_to_be_bytes:
  assumes "n < 2 ^ 32"
  shows "from_be_bytes (to_be_bytes n) = n"
proof -
  have byte: "unat (word_of_nat m :: 8 word) = m mod 256" for m by (simp add: unat_of_nat)
  have "n div 16777216 = n div 65536 div 256" "n div 65536 = n div 256 div 256"
    by (simp_all flip: div_mult2_eq)
  moreover have "n div 16777216 < 256" using assms by (simp add: div_less_iff_less_mult)
  moreover have "n = n div 256 * 256 + n mod 256" "n div 256 = n div 256 div 256 * 256 + n div 256 mod 256"
      "n div 65536 = n div 65536 div 256 * 256 + n div 65536 mod 256"
    by (simp_all only: div_mult_mod_eq)
  ultimately show ?thesis by (simp add: to_be_bytes_def from_be_bytes_def byte)
qed

lemma link_frame_parts [simp]:
  "take 4 (link_frame w i x) = to_be_bytes w" "take 4 (drop 4 (link_frame w i x)) = to_be_bytes (i * CHUNK)"
  "drop 8 (link_frame w i x) = x" "length (link_frame w i x) = 8 + length x"
  by (simp_all add: link_frame_def)

text \<open>The plaintexts a message is cut into.\<close>

definition frames :: "octets \<Rightarrow> octets list" where
  "frames m = map (\<lambda>(i, x). link_frame (length m) i x) (enumerate 0 (chunks CHUNK m))"

lemma length_frames [simp]: "length (frames m) = length (chunks CHUNK m)"
  by (simp add: frames_def)

lemma frames_nth: "k < length (chunks CHUNK m) \<Longrightarrow> frames m ! k = link_frame (length m) k (chunks CHUNK m ! k)"
  by (simp add: frames_def nth_enumerate_eq)

text \<open>What the receiver does with the next plaintext of a message.\<close>

lemma open_frame:
  assumes c: "ch_state c = Transport t" and read: "tr_read N p t = Some (frames m ! k, t')"
    and p: "HEADER + 17 \<le> length p" "length p \<le> MAX_PACKET"
    and m: "length m \<le> MAX_MESSAGE" and k: "k < length (frames m)"
    and before: "ch_assembly c = concat (take k (chunks CHUNK m))" "0 < k \<Longrightarrow> ch_expected_size c = length m"
  shows "open_packet N p c =
    (if Suc k = length (frames m)
     then (Inr (Some m), c\<lparr>ch_state := Transport t', ch_expected_size := 0, ch_assembly := []\<rparr>)
     else (Inr None, c\<lparr>ch_state := Transport t', ch_expected_size := length m, ch_assembly := concat (take (Suc k) (chunks CHUNK m))\<rparr>))"
proof -
  let ?cs = "chunks CHUNK m"
  have k': "k < length ?cs" using k by simp
  have plain: "frames m ! k = link_frame (length m) k (?cs ! k)" by (rule frames_nth [OF k'])
  have x: "?cs ! k \<noteq> []" "length (?cs ! k) \<le> CHUNK" using chunks_bounds [of CHUNK "?cs ! k" m] k' by auto
  have offset: "length (ch_assembly c) = k * CHUNK" using chunks_offset [of CHUNK k m] k' before(1) by simp
  have next_: "ch_assembly c @ ?cs ! k = concat (take (Suc k) ?cs)"
    using k' before(1) by (simp add: take_Suc_conv_app_nth)
  have rest: "m = concat (take (Suc k) ?cs) @ concat (drop (Suc k) ?cs)"
    using concat_chunks [of CHUNK m] by (simp flip: concat_append)
  have len: "length (ch_assembly c) + length (?cs ! k) \<le> length m"
    using arg_cong [OF rest, of length] arg_cong [OF next_, of length] by simp
  have full: "length (concat (take (Suc k) ?cs)) = length m \<longleftrightarrow> Suc k = length ?cs"
  proof
    assume "length (concat (take (Suc k) ?cs)) = length m"
    then have "concat (drop (Suc k) ?cs) = []" using arg_cong [OF rest, of length] by simp
    then have "\<forall>x \<in> set (drop (Suc k) ?cs). x = []" by simp
    moreover have "\<forall>x \<in> set (drop (Suc k) ?cs). x \<noteq> []" using chunks_bounds [of CHUNK _ m] in_set_dropD by fastforce
    ultimately have "drop (Suc k) ?cs = []" by (metis list.set_intros(1) neq_Nil_conv)
    then show "Suc k = length ?cs" using k' by simp
  qed (simp add: concat_chunks)
  have m0: "m \<noteq> []" "length m < 2 ^ 32" using k' m by auto
  have off: "k * CHUNK < 2 ^ 32" using len offset m by simp
  have full: "k * CHUNK + length (?cs ! k) = length m \<longleftrightarrow> Suc k = length ?cs"
    using full offset by (simp flip: next_)
  have parts: "from_be_bytes (take 4 (frames m ! k)) = length m" "from_be_bytes (take 4 (drop 4 (frames m ! k))) = length (ch_assembly c)"
      "drop HEADER (frames m ! k) = ?cs ! k" "length (frames m ! k) = 8 + length (?cs ! k)"
    using m0(2) off offset by (simp_all add: plain from_to_be_bytes)
  have fine: "length m \<noteq> 0" "\<not> length m > MAX_MESSAGE" "\<not> length (?cs ! k) > CHUNK"
      "\<not> length (ch_assembly c) + length (?cs ! k) > length m" "\<not> length (frames m ! k) \<le> HEADER"
    using m0(1) m x len by (simp_all add: plain)
  have consistent: "\<not> (length (ch_assembly c) > 0 \<and> length m \<noteq> ch_expected_size c)"
    using before(2) offset by (cases "k = 0") simp_all
  have delivered: "Suc k = length ?cs \<Longrightarrow> concat (take (Suc k) ?cs) = m" by (simp add: concat_chunks)
  then have one: "Suc k = length ?cs \<Longrightarrow> ch_assembly c @ ?cs ! k = m" by (simp only: next_)
  have kept: "c\<lparr>ch_state := t1, ch_assembly := a\<rparr> = c\<lparr>ch_state := t1, ch_expected_size := length m, ch_assembly := a\<rparr>"
    if "0 < k" for t1 a
    using before(2) [OF that] by (cases c) simp
  show ?thesis
  proof (cases "k = 0")
    case True
    then have "ch_assembly c = []" using before(1) by simp
    then show ?thesis
      using p full [unfolded True] fine [unfolded True] one [unfolded True]
      by (simp add: open_packet_def open_inner_def c read [unfolded True] parts [unfolded True] Let_def True
          flip: next_ [unfolded True])
  next
    case False
    then show ?thesis
      using p full offset delivered fine consistent kept
      by (simp add: open_packet_def open_inner_def c read parts Let_def next_)
  qed
qed

section \<open>What the Noise library promises\<close>

text \<open>
  A writing and a reading end are paired when what one writes next the other reads back, sixteen bytes
  longer on the way, for any plaintext that fits into a packet.
\<close>

definition keeps_pairs :: "('h, 't) noise \<Rightarrow> ('t \<Rightarrow> 't \<Rightarrow> bool) \<Rightarrow> bool" where
  "keeps_pairs N paired \<longleftrightarrow> (\<forall>w r x. paired w r \<and> length x + 16 \<le> MAX_PACKET \<longrightarrow>
     (\<exists>p w' r'. tr_write N x w = Some (p, w') \<and> length p = length x + 16 \<and> tr_read N p r = Some (x, r') \<and> paired w' r'))"

lemma keeps_pairsE:
  assumes "keeps_pairs N paired" "paired w r" "length x + 16 \<le> MAX_PACKET"
  obtains p w' r' where "tr_write N x w = Some (p, w')" "length p = length x + 16" "tr_read N p r = Some (x, r')" "paired w' r'"
  using assms unfolding keeps_pairs_def by blast

text \<open>
  Authenticated reading: of all byte strings, an end accepts only the plaintext that the writer
  wrote as the next one of its stream.
\<close>

definition reads_only :: "('h, 't) noise \<Rightarrow> octets list \<Rightarrow> ('t \<Rightarrow> nat) \<Rightarrow> bool" where
  "reads_only N stream number \<longleftrightarrow> (\<forall>p t x t'. tr_read N p t = Some (x, t') \<longrightarrow>
     number t < length stream \<and> x = stream ! number t \<and> number t' = Suc (number t))"

section \<open>Sealing and opening\<close>

lemma seal_open_loop:
  assumes N: "keeps_pairs N paired" and m: "length m \<le> MAX_MESSAGE"
  shows "cs = drop i (chunks CHUNK m) \<Longrightarrow> cs \<noteq> [] \<Longrightarrow> paired w r \<Longrightarrow> ch_state c = Transport r \<Longrightarrow>
    ch_assembly c = concat (take i (chunks CHUNK m)) \<Longrightarrow> (0 < i \<Longrightarrow> ch_expected_size c = length m) \<Longrightarrow>
    \<exists>ps w' r'. seal_loop N (length m) i cs w acc = Some (acc @ ps, w') \<and> paired w' r' \<and>
      (\<forall>p \<in> set ps. length p \<le> MAX_PACKET) \<and>
      open_all N ps c = ([m], c\<lparr>ch_state := Transport r', ch_expected_size := 0, ch_assembly := []\<rparr>)"
proof (induction cs arbitrary: i w r c acc)
  case (Cons x cs)
  let ?cs = "chunks CHUNK m"
  have "i < length ?cs" using Cons.prems(1) by (rule_tac ccontr) simp
  then have i: "i < length ?cs" "x = ?cs ! i" "cs = drop (Suc i) ?cs"
    using Cons.prems(1) by (simp_all flip: Cons_nth_drop_Suc)
  have x: "x \<noteq> []" "length x \<le> CHUNK" using chunks_bounds [of CHUNK x m] i(1,2) by auto
  obtain p w1 r1 where p: "tr_write N (link_frame (length m) i x) w = Some (p, w1)" "length p = length x + 24"
      "tr_read N p r = Some (link_frame (length m) i x, r1)" "paired w1 r1"
    by (rule keeps_pairsE [OF N Cons.prems(3), of "link_frame (length m) i x"]) (use x(2) in auto)
  have "Suc 0 \<le> length x" using x(1) by (cases x) auto
  then have opened: "open_packet N p c = (if Suc i = length ?cs
      then (Inr (Some m), c\<lparr>ch_state := Transport r1, ch_expected_size := 0, ch_assembly := []\<rparr>)
      else (Inr None, c\<lparr>ch_state := Transport r1, ch_expected_size := length m, ch_assembly := concat (take (Suc i) ?cs)\<rparr>))"
    using open_frame [of c r N p m i r1] Cons.prems p x i m by (simp add: frames_nth)
  show ?case
  proof (cases "cs = []")
    case True
    then show ?thesis using p opened i x(2) by (intro exI [of _ "[p]"] exI [of _ w1] exI [of _ r1]) simp
  next
    case False
    let ?c = "c\<lparr>ch_state := Transport r1, ch_expected_size := length m, ch_assembly := concat (take (Suc i) ?cs)\<rparr>"
    obtain ps w' r' where "seal_loop N (length m) (Suc i) cs w1 (acc @ [p]) = Some ((acc @ [p]) @ ps, w')" "paired w' r'"
        "\<forall>p \<in> set ps. length p \<le> MAX_PACKET"
        "open_all N ps ?c = ([m], ?c\<lparr>ch_state := Transport r', ch_expected_size := 0, ch_assembly := []\<rparr>)"
      using Cons.IH [OF i(3) False p(4), of ?c "acc @ [p]"] by auto
    then show ?thesis
      using p opened i x(2) False by (intro exI [of _ "p # ps"] exI [of _ w'] exI [of _ r']) simp
  qed
qed simp

lemma open_all_closed: "\<not> established c \<Longrightarrow> fst (open_all N ps c) = []"
proof (induction ps arbitrary: c)
  case (Cons p ps)
  have "\<exists>e. open_packet N p c = (Inl e, close c)"
    using Cons.prems by (auto simp: open_packet_def open_inner_def established_def split: link_state.splits)
  then show ?case using Cons.IH [of "close c"] by (auto simp: established_def close_def split: prod.splits)
qed simp

lemma open_reads:
  assumes "ch_state c = Transport t" "open_packet N p c = (Inr d, c')"
  obtains x t' where "HEADER + 17 \<le> length p" "length p \<le> MAX_PACKET" "tr_read N p t = Some (x, t')"
  using assms
  by (cases "tr_read N p t") (auto simp: open_packet_def open_inner_def split: prod.splits sum.splits if_splits)

text \<open>
  A receiver that has read \<open>k\<close> plaintexts of the first of the remaining messages delivers a prefix of
  these messages, whatever packets it gets.
\<close>

lemma open_all_prefix:
  assumes N: "reads_only N stream number" and short: "\<forall>m \<in> set ms. m \<noteq> [] \<and> length m \<le> MAX_MESSAGE"
  shows "ch_state c = Transport t \<Longrightarrow> drop (number t) stream = drop k (concat (map frames ms)) \<Longrightarrow>
    (case ms of [] \<Rightarrow> k = 0
     | m # _ \<Rightarrow> k < length (frames m) \<and> ch_assembly c = concat (take k (chunks CHUNK m)) \<and>
         (0 < k \<longrightarrow> ch_expected_size c = length m)) \<Longrightarrow> (ms = [] \<Longrightarrow> ch_assembly c = []) \<Longrightarrow>
    \<exists>j. fst (open_all N ps c) = take j ms"
  using short
proof (induction ps arbitrary: c t k ms)
  case (Cons p ps)
  show ?case
  proof (cases "open_packet N p c")
    case (Pair r c')
    show ?thesis
    proof (cases r)
      case (Inl e)
      then have "\<not> established c'"
        using Pair by (auto simp: open_packet_def established_def close_def split: prod.splits sum.splits)
      then show ?thesis using Pair Inl open_all_closed [of c' N ps] by (intro exI [of _ 0]) (simp split: prod.split)
    next
      case (Inr d)
      then obtain x t' where range: "HEADER + 17 \<le> length p" "length p \<le> MAX_PACKET" and read: "tr_read N p t = Some (x, t')"
        using open_reads [OF Cons.prems(1)] Pair by blast
      then have x: "number t < length stream" "x = stream ! number t" "number t' = Suc (number t)"
        using N unfolding reads_only_def by blast+
      then have stream: "drop (number t) stream = x # drop (number t') stream" by (simp add: Cons_nth_drop_Suc)
      with Cons.prems(2,3) obtain m rest where ms: "ms = m # rest" by (cases ms) auto
      with Cons.prems(3) have k: "k < length (frames m)" and before: "ch_assembly c = concat (take k (chunks CHUNK m))"
          "0 < k \<Longrightarrow> ch_expected_size c = length m" by auto
      have m: "length m \<le> MAX_MESSAGE" using Cons.prems(5) ms by simp
      have split: "drop k (concat (map frames ms)) = frames m ! k # drop (Suc k) (frames m) @ concat (map frames rest)"
        using k ms by (simp add: Cons_nth_drop_Suc)
      have xk: "x = frames m ! k" and after: "drop (number t') stream = drop (Suc k) (frames m) @ concat (map frames rest)"
        using stream Cons.prems(2) split by simp_all
      note opened = open_frame [OF Cons.prems(1) read [unfolded xk] range m k before]
      show ?thesis
      proof (cases "Suc k = length (frames m)")
        case True
        let ?c = "c\<lparr>ch_state := Transport t', ch_expected_size := 0, ch_assembly := []\<rparr>"
        have "\<exists>j. fst (open_all N ps ?c) = take j rest"
        proof (rule Cons.IH)
          show "drop (number t') stream = drop 0 (concat (map frames rest))" using after True by simp
          show "case rest of [] \<Rightarrow> 0 = (0 :: nat) | m # _ \<Rightarrow> 0 < length (frames m) \<and> ch_assembly ?c = concat (take 0 (chunks CHUNK m)) \<and>
              (0 < (0 :: nat) \<longrightarrow> ch_expected_size ?c = length m)"
            using Cons.prems(5) ms by (cases rest) auto
        qed (use Cons.prems(5) ms in auto)
        then obtain j where "fst (open_all N ps ?c) = take j rest" ..
        then show ?thesis using opened True ms by (intro exI [of _ "Suc j"]) (simp add: case_prod_unfold Let_def)
      next
        case False
        let ?c = "c\<lparr>ch_state := Transport t', ch_expected_size := length m, ch_assembly := concat (take (Suc k) (chunks CHUNK m))\<rparr>"
        have "\<exists>j. fst (open_all N ps ?c) = take j ms"
        proof (rule Cons.IH)
          show "drop (number t') stream = drop (Suc k) (concat (map frames ms))" using after k ms by simp
          show "case ms of [] \<Rightarrow> Suc k = 0 | m # _ \<Rightarrow> Suc k < length (frames m) \<and>
              ch_assembly ?c = concat (take (Suc k) (chunks CHUNK m)) \<and> (0 < Suc k \<longrightarrow> ch_expected_size ?c = length m)"
            using k False ms by simp
        qed (use Cons.prems(5) ms in auto)
        then show ?thesis using opened False by (simp add: case_prod_unfold Let_def)
      qed
    qed
  qed
qed (auto intro: exI [of _ 0])

section \<open>The channel as a machine\<close>

datatype link_call = Write_Handshake | Read_Handshake octets | Seal octets | Open octets | Close

text \<open>The error a call reports, if any, and the channel after it.\<close>

definition failure :: "(link_error + 'a) \<Rightarrow> link_error option" where
  "failure r = (case r of Inl e \<Rightarrow> Some e | Inr _ \<Rightarrow> None)"

primrec link_result ::
    "('h, 't) noise \<Rightarrow> link_call \<Rightarrow> ('h, 't) channel \<Rightarrow> (link_error option \<times> ('h, 't) channel) option" where
  "link_result N Write_Handshake c = map_option (apfst failure) (write_handshake N c)"
| "link_result N (Read_Handshake bytes) c = map_option (apfst failure) (read_handshake N bytes c)"
| "link_result N (Seal m) c = Some (apfst failure (seal N m c))"
| "link_result N (Open p) c = Some (apfst failure (open_packet N p c))"
| "link_result N Close c = Some (None, close c)"

definition link_step :: "('h, 't) noise \<Rightarrow> link_call \<Rightarrow> ('h, 't) channel \<Rightarrow> ('h, 't) channel option" where
  "link_step N call c = map_option snd (link_result N call c)"

definition channel_ok :: "('h, 't) channel \<Rightarrow> bool" where
  "channel_ok c \<longleftrightarrow> (established c \<or> ch_assembly c = []) \<and>
     (ch_assembly c = [] \<or> length (ch_assembly c) < ch_expected_size c \<and> ch_expected_size c \<le> MAX_MESSAGE)"

definition hash_ok :: "('h, 't) noise \<Rightarrow> bool" where
  "hash_ok N \<longleftrightarrow> (\<forall>h. hs_finished N h \<longrightarrow> 4 \<le> length (hs_hash N h))"

text \<open>What every call guarantees: an error closes the channel, and a closed one stays closed.\<close>

definition call_post :: "('h, 't) channel \<Rightarrow> link_call \<Rightarrow> link_error option \<times> ('h, 't) channel \<Rightarrow> bool" where
  "call_post c call = (\<lambda>(e, c'). channel_ok c' \<and> (e \<noteq> None \<longrightarrow> ch_state c' = Link_Closed) \<and>
     (ch_state c = Link_Closed \<longrightarrow> ch_state c' = Link_Closed \<and> (call \<noteq> Close \<longrightarrow> e \<noteq> None)))"

lemma close_ok [simp]: "channel_ok (close c)" "ch_state (close c) = Link_Closed"
  by (simp_all add: close_def channel_ok_def)

lemma finish_handshake_ok:
  assumes "hash_ok N" "ch_assembly c = []" "ch_state c = Handshake h"
  shows "returns (finish_handshake N c) (\<lambda>(r, c'). channel_ok c' \<and> (failure r \<noteq> None \<longrightarrow> ch_state c' = Link_Closed))"
  using assms
  by (auto simp: finish_handshake_def hash_ok_def assert_that_def channel_ok_def failure_def Let_def split: option.split)

lemma handshake_assembly: "channel_ok c \<Longrightarrow> ch_state c = Handshake h \<Longrightarrow> ch_assembly c = []"
  by (simp add: channel_ok_def established_def)

lemma write_handshake_ok:
  assumes "hash_ok N" "channel_ok c"
  shows "returns (link_result N Write_Handshake c) (call_post c Write_Handshake)"
proof (cases "ch_state c")
  case (Handshake h)
  have finish: "returns (finish_handshake N (c\<lparr>ch_state := Handshake h'\<rparr>))
      (\<lambda>(r, c'). channel_ok c' \<and> (failure r \<noteq> None \<longrightarrow> ch_state c' = Link_Closed))" for h'
    by (rule finish_handshake_ok [OF assms(1)]) (use handshake_assembly [OF assms(2) Handshake] in auto)
  show ?thesis
  proof (cases "hs_write N 128 h")
    case None
    then show ?thesis using Handshake by (simp add: write_handshake_def call_post_def failure_def)
  next
    case (Some x)
    obtain r c' where "finish_handshake N (c\<lparr>ch_state := Handshake (snd x)\<rparr>) = Some (r, c')" "channel_ok c'"
        "failure r \<noteq> None \<Longrightarrow> ch_state c' = Link_Closed"
      using finish [of "snd x"] by (auto simp: returns_def)
    then show ?thesis using Handshake Some
      by (cases r; cases x) (simp_all add: write_handshake_def call_post_def failure_def)
  qed
qed (simp_all add: write_handshake_def call_post_def failure_def)

lemma read_handshake_ok:
  assumes "hash_ok N" "channel_ok c"
  shows "returns (link_result N (Read_Handshake bytes) c) (call_post c (Read_Handshake bytes))"
proof (cases "ch_state c")
  case (Handshake h)
  have finish: "returns (finish_handshake N (c\<lparr>ch_state := Handshake h'\<rparr>))
      (\<lambda>(r, c'). channel_ok c' \<and> (failure r \<noteq> None \<longrightarrow> ch_state c' = Link_Closed))" for h'
    by (rule finish_handshake_ok [OF assms(1)]) (use handshake_assembly [OF assms(2) Handshake] in auto)
  show ?thesis
  proof (cases "if length bytes \<le> 128 then hs_read N bytes h else None")
    case None
    then show ?thesis using Handshake by (simp add: read_handshake_def call_post_def failure_def)
  next
    case (Some x)
    obtain r c' where "finish_handshake N (c\<lparr>ch_state := Handshake x\<rparr>) = Some (r, c')" "channel_ok c'"
        "failure r \<noteq> None \<Longrightarrow> ch_state c' = Link_Closed"
      using finish [of x] by (auto simp: returns_def)
    then show ?thesis using Handshake Some
      by (cases r) (simp_all add: read_handshake_def call_post_def failure_def)
  qed
qed (simp_all add: read_handshake_def call_post_def failure_def)

lemma seal_ok: "channel_ok c \<Longrightarrow> call_post c (Seal m) (apfst failure (seal N m c))"
  by (auto simp: seal_def seal_inner_def call_post_def failure_def channel_ok_def established_def close_def
      split: sum.split link_state.splits option.splits if_splits)

lemma open_inner_ok:
  assumes "channel_ok c" "open_inner N p c = (Inr m, c')"
  shows "channel_ok c'" "ch_state c \<noteq> Link_Closed"
proof -
  show "ch_state c \<noteq> Link_Closed" using assms(2) by (auto simp: open_inner_def split: if_splits)
  then obtain t where t: "ch_state c = Transport t" using assms(2)
    by (cases "ch_state c") (auto simp: open_inner_def split: if_splits)
  obtain plain t' where read: "tr_read N p t = Some (plain, t')" using assms(2) t
    by (cases "tr_read N p t") (auto simp: open_inner_def split: if_splits)
  show "channel_ok c'"
    using assms t read by (simp add: open_inner_def Let_def split: if_splits) (auto simp: channel_ok_def established_def)
qed

lemma open_ok: "channel_ok c \<Longrightarrow> call_post c (Open p) (apfst failure (open_packet N p c))"
  using open_inner_ok [of c N p]
  by (cases "open_inner N p c"; cases "fst (open_inner N p c)") (auto simp: open_packet_def call_post_def failure_def)

lemma link_result_ok:
  assumes "hash_ok N" "channel_ok c"
  shows "returns (link_result N call c) (call_post c call)"
  using assms write_handshake_ok read_handshake_ok
  by (cases call) (auto simp: seal_ok open_ok call_post_def [of c Close])

interpretation link: machine "link_step N" "\<lambda>_ _. hash_ok N" "\<lambda>c. \<exists>h. c = handshake h" "\<lambda>_. channel_ok" "\<lambda>_. True" for N
proof
  show "returns (link_step N call c) channel_ok" if "channel_ok c" "hash_ok N" for call and c :: "('a, 'b) channel"
    using link_result_ok [OF that(2,1), of call] by (auto simp: link_step_def returns_def call_post_def)
qed (auto simp: handshake_def channel_ok_def)

section \<open>Properties\<close>

text \<open>
  C11: errors of the link are final. From a fresh handshake on, no sequence of calls panics, whatever bytes
  the other side sends; an error closes the channel, a closed channel refuses every further call
  but closing, and the buffer for incoming chunks never exceeds the largest message and is empty
  once the channel is closed.
\<close>

theorem link_errors_are_final:
  assumes N: "hash_ok N" and c: "reaches (link_step N) (\<lambda>_ _. True) (\<lambda>c. \<exists>h. c = handshake h) n c"
  shows "\<exists>e c'. link_result N call c = Some (e, c') \<and>
    (e \<noteq> None \<longrightarrow> ch_state c' = Link_Closed) \<and>
    (ch_state c = Link_Closed \<longrightarrow> ch_state c' = Link_Closed \<and> (call \<noteq> Close \<longrightarrow> e \<noteq> None)) \<and>
    length (ch_assembly c') \<le> MAX_MESSAGE \<and> (ch_state c' = Link_Closed \<longrightarrow> ch_assembly c' = [])"
proof -
  have "reaches (link_step N) (\<lambda>_ _. hash_ok N) (\<lambda>c. \<exists>h. c = handshake h) n c" using c N by simp
  then have "channel_ok c" by (rule link.reaches_invariant) simp
  then show ?thesis using link_result_ok [OF N, of c call]
    by (auto simp: returns_def call_post_def channel_ok_def established_def)
qed

text \<open>
  C10: sealing and opening a message restores it. Between two established ends whose encryption is in
  step, every message of up to two megabytes is cut into packets within the packet size; opening
  them in order delivers exactly that message, once, and leaves both ends ready for the next one.
\<close>

theorem seal_open_roundtrip:
  assumes N: "keeps_pairs N paired" and m: "m \<noteq> []" "length m \<le> MAX_MESSAGE"
    and s: "ch_state s = Transport w" and r: "ch_state r = Transport v" "ch_assembly r = []" and p: "paired w v"
  shows "\<exists>packets r' w' v'. seal N m s = (Inr packets, s\<lparr>ch_state := Transport w'\<rparr>) \<and>
    (\<forall>p \<in> set packets. length p \<le> MAX_PACKET) \<and>
    open_all N packets r = ([m], r') \<and> ch_state r' = Transport v' \<and> ch_assembly r' = [] \<and> paired w' v'"
proof -
  obtain ps w' v' where "seal_loop N (length m) 0 (chunks CHUNK m) w [] = Some ([] @ ps, w')" "paired w' v'"
      "\<forall>p \<in> set ps. length p \<le> MAX_PACKET"
      "open_all N ps r = ([m], r\<lparr>ch_state := Transport v', ch_expected_size := 0, ch_assembly := []\<rparr>)"
    using seal_open_loop [OF N m(2), of "chunks CHUNK m" 0 w v r "[]"] m(1) p r by auto
  then show ?thesis using m s by (intro exI [of _ ps] exI [of _ w']) (auto simp: seal_def seal_inner_def)
qed

text \<open>
  C9: a receiver delivers only what was sent, in order. If the encryption accepts nothing but the next
  plaintext of the sender's stream, then whatever packets arrive (lost, repeated, reordered, forged),
  the messages delivered are an initial part of the messages sent, none of them twice or in parts.
\<close>

theorem delivered_is_prefix_of_sent:
  assumes N: "reads_only N (concat (map frames ms)) number" and ms: "\<forall>m \<in> set ms. m \<noteq> [] \<and> length m \<le> MAX_MESSAGE"
    and r: "ch_state r = Transport t" "number t = 0" "ch_assembly r = []"
  shows "\<exists>j. fst (open_all N packets r) = take j ms"
  by (rule open_all_prefix [OF N ms r(1), of 0]) (use r ms in \<open>auto split: list.split\<close>)

text \<open>
  Encryption that appends sixteen bytes with the number of the packet, and reads back only what comes
  next.
\<close>

definition counting :: "(unit, nat) noise" where
  "counting = \<lparr>hs_write = (\<lambda>_ _. None), hs_read = (\<lambda>_ _. None), hs_finished = (\<lambda>_. False), hs_hash = (\<lambda>_. []),
     hs_into_transport = (\<lambda>_. None), tr_write = (\<lambda>x n. Some (x @ replicate 16 (word_of_nat n), Suc n)),
     tr_read = (\<lambda>p n. if 16 \<le> length p \<and> drop (length p - 16) p = replicate 16 (word_of_nat n)
       then Some (take (length p - 16) p, Suc n) else None)\<rparr>"

definition listening :: "octets list \<Rightarrow> (unit, nat) noise" where
  "listening stream = counting\<lparr>tr_read := (\<lambda>p n. if n < length stream \<and> p = stream ! n @ replicate 16 0
     then Some (stream ! n, Suc n) else None)\<rparr>"

lemma counting_pairs: "keeps_pairs counting (=)"
  by (auto simp: keeps_pairs_def counting_def)

theorem link_errors_are_final_witness:
  "\<exists>e c'. link_result counting (Seal [1]) (handshake ()) = Some (Some e, c') \<and> ch_state c' = Link_Closed"
proof -
  have "hash_ok counting" by (simp add: hash_ok_def counting_def)
  from link_errors_are_final [OF this, of 0 "handshake ()" "Seal [1]"]
  have "\<exists>e c'. link_result counting (Seal [1]) (handshake ()) = Some (e, c') \<and> (e \<noteq> None \<longrightarrow> ch_state c' = Link_Closed)"
    by auto
  then show ?thesis by (auto simp: handshake_def seal_def seal_inner_def failure_def)
qed

theorem seal_open_roundtrip_witness:
  "\<exists>packets r'. fst (seal counting [1, 2, 3] (handshake ()\<lparr>ch_state := Transport 5\<rparr>)) = Inr packets \<and>
     open_all counting packets (handshake ()\<lparr>ch_state := Transport 5\<rparr>) = ([[1, 2, 3]], r')"
  using seal_open_roundtrip [OF counting_pairs, of "[1, 2, 3]" "handshake ()\<lparr>ch_state := Transport 5\<rparr>" 5
      "handshake ()\<lparr>ch_state := Transport 5\<rparr>" 5]
  by (auto simp: handshake_def)

theorem delivered_is_prefix_of_sent_witness:
  "\<exists>j. fst (open_all (listening (frames [7])) [[1], frames [7] ! 0 @ replicate 16 0] (handshake ()\<lparr>ch_state := Transport 0\<rparr>))
     = take j [[7]]"
  by (rule delivered_is_prefix_of_sent [where number = id]) (auto simp: reads_only_def listening_def handshake_def)

end
