(* ===== verification/Relay.thy ===== *)
theory Relay
  imports Machine
begin

text \<open>
  The relay between phones and desktops: credentials (\<open>mobile/link/src/identity.rs\<close>) and the registry of
  rooms (\<open>mobile/link/src/relay/registry.rs\<close>). A room has one place for the desktop and one for the
  phone; a lease holds a place, and dropping it frees the place and cancels the other side.

  The generation of a peer names what it owns: its queue (a bounded channel), its cancellation token and
  whether its receiver still listens. The registry is behind a mutex that only a panic could poison, and
  a theorem below says that no operation panics, so the branch for a poisoned lock is left out. Base64
  and SHA-256 are a library, the record \<open>codec\<close>; random values are arguments, \<open>None\<close> when the source fails.
\<close>

section \<open>Credentials\<close>

type_synonym secret = "8 word list"

record codec =
  b64_decode :: "string \<Rightarrow> 8 word list option"
  b64_encode :: "8 word list \<Rightarrow> string"
  sha256 :: "8 word list \<Rightarrow> 8 word list"

definition secret_from_bytes :: "8 word list \<Rightarrow> secret option" where
  "secret_from_bytes bytes = (if length bytes = 32 then Some bytes else None)"

definition secret_decode :: "codec \<Rightarrow> string \<Rightarrow> secret option" where
  "secret_decode C value =
     (if length value \<noteq> 43 then None
      else (case b64_decode C value of
              None \<Rightarrow> None
            | Some bytes \<Rightarrow> if length bytes \<noteq> 32 \<or> b64_encode C bytes \<noteq> value then None else Some bytes))"

definition expose_encoded :: "codec \<Rightarrow> secret \<Rightarrow> string" where
  "expose_encoded C s = b64_encode C s"

definition secret_hash :: "codec \<Rightarrow> secret \<Rightarrow> string" where
  "secret_hash C s = b64_encode C (sha256 C s)"

definition matches_hash :: "codec \<Rightarrow> secret \<Rightarrow> string \<Rightarrow> bool" where
  "matches_hash C s encoded = (case secret_decode C encoded of
     None \<Rightarrow> False
   | Some expected \<Rightarrow> sha256 C s = expected)"

definition ascii_alphanumeric :: "char \<Rightarrow> bool" where
  "ascii_alphanumeric c \<longleftrightarrow> (let n = of_char c :: nat in 48 \<le> n \<and> n \<le> 57 \<or> 65 \<le> n \<and> n \<le> 90 \<or> 97 \<le> n \<and> n \<le> 122)"

definition valid_id :: "string \<Rightarrow> bool" where
  "valid_id value \<longleftrightarrow> value \<noteq> [] \<and> length value \<le> 64 \<and>
     (\<forall>b \<in> set value. ascii_alphanumeric b \<or> b = CHR ''_'' \<or> b = CHR ''-'')"

section \<open>The registry\<close>

abbreviation QUEUE_PACKETS :: nat where "QUEUE_PACKETS \<equiv> 8"

datatype relay_role = Desktop | Mobile

definition role_parse :: "string \<Rightarrow> relay_role option" where
  "role_parse value = (if value = ''desktop'' then Some Desktop else if value = ''mobile'' then Some Mobile else None)"

primrec role_peer :: "relay_role \<Rightarrow> relay_role" where
  "role_peer Desktop = Mobile"
| "role_peer Mobile = Desktop"

datatype relay_message = Relay_Waiting | Relay_Paired string | Relay_Binary "8 word list"

datatype status_code = UNAUTHORIZED | SERVICE_UNAVAILABLE | CONFLICT

record peer =
  pe_generation :: nat
  pe_active :: bool

record room =
  rm_hashes :: "relay_role \<Rightarrow> string"
  rm_peers :: "relay_role \<Rightarrow> peer option"

record room_config =
  rc_id :: string
  rc_desktop_token_hash :: string
  rc_mobile_token_hash :: string

record registry =
  rg_rooms :: "string \<rightharpoonup> room"
  rg_generation :: nat
  rg_queue :: "nat \<Rightarrow> relay_message list"
  rg_listening :: "nat set"
  rg_cancelled :: "nat set"

record lease =
  le_room :: string
  le_role :: relay_role
  le_generation :: nat

text \<open>Later rooms of the configuration replace earlier ones of the same name, as in a hash map.\<close>

definition registry_new :: "room_config list \<Rightarrow> registry" where
  "registry_new configs =
     \<lparr>rg_rooms = fold (\<lambda>c m. m(rc_id c \<mapsto>
          \<lparr>rm_hashes = (\<lambda>r. case r of Desktop \<Rightarrow> rc_desktop_token_hash c | Mobile \<Rightarrow> rc_mobile_token_hash c),
            rm_peers = (\<lambda>_. None)\<rparr>)) configs Map.empty,
      rg_generation = 0, rg_queue = (\<lambda>_. []), rg_listening = {}, rg_cancelled = {}\<rparr>"

definition set_peer :: "string \<Rightarrow> relay_role \<Rightarrow> peer option \<Rightarrow> room \<Rightarrow> registry \<Rightarrow> registry" where
  "set_peer name role p entry reg = reg\<lparr>rg_rooms := (rg_rooms reg)(name \<mapsto> entry\<lparr>rm_peers := (rm_peers entry)(role := p)\<rparr>)\<rparr>"

definition reserve ::
    "codec \<Rightarrow> string \<Rightarrow> relay_role \<Rightarrow> string \<Rightarrow> registry \<Rightarrow> ((status_code + lease) \<times> registry) option" where
  "reserve C name role token reg = (case secret_decode C token of
     None \<Rightarrow> Some (Inl UNAUTHORIZED, reg)
   | Some secret \<Rightarrow>
       (case rg_rooms reg name of
          None \<Rightarrow> Some (Inl UNAUTHORIZED, reg)
        | Some entry \<Rightarrow>
            if \<not> matches_hash C secret (rm_hashes entry role) then Some (Inl UNAUTHORIZED, reg)
            else if rm_peers entry role \<noteq> None then Some (Inl CONFLICT, reg)
            else if 2 ^ 64 \<le> rg_generation reg + 1 then Some (Inl SERVICE_UNAVAILABLE, reg)
            else do {
              let generation = rg_generation reg + 1;
              let reg = reg\<lparr>rg_generation := generation, rg_queue := (rg_queue reg)(generation := []),
                rg_listening := insert generation (rg_listening reg)\<rparr>;
              entry \<leftarrow> rg_rooms reg name;
              Some (Inr \<lparr>le_room = name, le_role = role, le_generation = generation\<rparr>,
                set_peer name role (Some \<lparr>pe_generation = generation, pe_active = False\<rparr>) entry reg)
            }))"

text \<open>\<open>mpsc::Sender::try_send\<close> on the channel of a peer: it fails when full or when nobody listens.\<close>

definition try_send :: "nat \<Rightarrow> relay_message \<Rightarrow> registry \<Rightarrow> registry option" where
  "try_send g message reg =
     (if g \<in> rg_listening reg \<and> length (rg_queue reg g) < QUEUE_PACKETS
      then Some (reg\<lparr>rg_queue := (rg_queue reg)(g := rg_queue reg g @ [message])\<rparr>) else None)"

text \<open>The loop that notifies the peers stops at the first channel that refuses the message.\<close>

fun notify :: "(relay_role \<times> peer option) list \<Rightarrow> bool \<Rightarrow> relay_role \<Rightarrow> relay_message \<Rightarrow> registry \<Rightarrow> (unit + unit) \<times> registry" where
  "notify [] paired own message reg = (Inr (), reg)"
| "notify ((index, None) # rest) paired own message reg = notify rest paired own message reg"
| "notify ((index, Some p) # rest) paired own message reg =
     (if \<not> paired \<and> index \<noteq> own then notify rest paired own message reg
      else (case try_send (pe_generation p) message reg of
              None \<Rightarrow> (Inl (), reg)
            | Some reg \<Rightarrow> notify rest paired own message reg))"

definition both_ready :: "(relay_role \<Rightarrow> peer option) \<Rightarrow> registry \<Rightarrow> bool" where
  "both_ready peers reg \<longleftrightarrow> (\<forall>role \<in> {Desktop, Mobile}. case peers role of
     None \<Rightarrow> False | Some p \<Rightarrow> pe_active p \<and> pe_generation p \<notin> rg_cancelled reg)"

definition announce :: "codec \<Rightarrow> secret option \<Rightarrow> lease \<Rightarrow> registry \<Rightarrow> (unit + unit) \<times> registry" where
  "announce C fresh l reg = (case rg_rooms reg (le_room l) of
     None \<Rightarrow> (Inl (), reg)
   | Some entry \<Rightarrow>
       (case rm_peers entry (le_role l) of
          None \<Rightarrow> (Inl (), reg)
        | Some own \<Rightarrow>
            if pe_generation own \<noteq> le_generation l \<or> pe_active own \<or> le_generation l \<in> rg_cancelled reg then (Inl (), reg)
            else
              (let own = own\<lparr>pe_active := True\<rparr>;
                   peers = (rm_peers entry)(le_role l := Some own);
                   reg = set_peer (le_room l) (le_role l) (Some own) entry reg;
                   paired = both_ready peers reg;
                   message = (if paired then map_option (\<lambda>s. Relay_Paired (secret_hash C s)) fresh else Some Relay_Waiting)
               in case message of
                    None \<Rightarrow> (Inl (), reg)
                  | Some message \<Rightarrow> notify [(Desktop, peers Desktop), (Mobile, peers Mobile)] paired (le_role l) message reg)))"

definition forward :: "8 word list \<Rightarrow> lease \<Rightarrow> registry \<Rightarrow> (unit + unit) \<times> registry" where
  "forward packet l reg = (case rg_rooms reg (le_room l) of
     None \<Rightarrow> (Inl (), reg)
   | Some entry \<Rightarrow>
       if le_generation l \<in> rg_cancelled reg then (Inl (), reg)
       else (case rm_peers entry (role_peer (le_role l)) of
          None \<Rightarrow> (Inl (), reg)
        | Some target \<Rightarrow>
            if \<not> pe_active target \<or> pe_generation target \<in> rg_cancelled reg then (Inl (), reg)
            else (case try_send (pe_generation target) (Relay_Binary packet) reg of
                    Some reg \<Rightarrow> (Inr (), reg)
                  | None \<Rightarrow> (Inl (), reg\<lparr>rg_cancelled := insert (pe_generation target) (rg_cancelled reg)\<rparr>))))"

definition drop_lease :: "lease \<Rightarrow> registry \<Rightarrow> registry" where
  "drop_lease l reg = (case rg_rooms reg (le_room l) of
     None \<Rightarrow> reg
   | Some entry \<Rightarrow>
       (if (case rm_peers entry (le_role l) of None \<Rightarrow> False | Some p \<Rightarrow> pe_generation p = le_generation l)
        then
          (let reg = set_peer (le_room l) (le_role l) None entry reg
           in case rm_peers entry (role_peer (le_role l)) of
                None \<Rightarrow> reg
              | Some p \<Rightarrow> reg\<lparr>rg_cancelled := insert (pe_generation p) (rg_cancelled reg)\<rparr>)
        else reg))"

text \<open>The other end of a channel: taking the next message, and going away.\<close>

definition receive :: "nat \<Rightarrow> registry \<Rightarrow> relay_message option \<times> registry" where
  "receive g reg = (case rg_queue reg g of
     [] \<Rightarrow> (None, reg)
   | message # rest \<Rightarrow> (Some message, reg\<lparr>rg_queue := (rg_queue reg)(g := rest)\<rparr>))"

definition hang_up :: "nat \<Rightarrow> registry \<Rightarrow> registry" where
  "hang_up g reg = reg\<lparr>rg_listening := rg_listening reg - {g}, rg_queue := (rg_queue reg)(g := [])\<rparr>"

section \<open>The relay as a machine\<close>

text \<open>
  The sockets of the server hold the leases. A socket announces its lease once, forwards packets
  only after that succeeded (\<open>run_socket\<close> in \<open>server.rs\<close>), and drops the lease when it ends. For the
  statements below the system also records, for every queue, who changed it by forwarding a packet.
\<close>

record relay_system =
  sy_registry :: registry
  sy_leases :: "lease set"
  sy_announced :: "nat set"
  sy_heard :: "nat \<Rightarrow> nat set"

datatype relay_call =
    Reserve string relay_role string | Announce lease "secret option" | Forward lease "8 word list"
  | Drop lease | Receive nat | Hang_Up nat

definition partner :: "lease \<Rightarrow> registry \<Rightarrow> nat option" where
  "partner l reg = Option.bind (rg_rooms reg (le_room l)) (\<lambda>entry.
     map_option pe_generation (rm_peers entry (role_peer (le_role l))))"

primrec relay_step :: "codec \<Rightarrow> relay_call \<Rightarrow> relay_system \<Rightarrow> relay_system option" where
  "relay_step C (Reserve name role token) sy = do {
     (r, reg) \<leftarrow> reserve C name role token (sy_registry sy);
     Some (sy\<lparr>sy_registry := reg, sy_leases := (case r of Inl _ \<Rightarrow> sy_leases sy | Inr l \<Rightarrow> insert l (sy_leases sy))\<rparr>)
   }"
| "relay_step C (Announce l fresh) sy =
     (let (r, reg) = announce C fresh l (sy_registry sy) in
      Some (sy\<lparr>sy_registry := reg,
        sy_announced := (case r of Inl _ \<Rightarrow> sy_announced sy | Inr _ \<Rightarrow> insert (le_generation l) (sy_announced sy))\<rparr>))"
| "relay_step C (Forward l packet) sy =
     (let (r, reg) = forward packet l (sy_registry sy) in
      Some (sy\<lparr>sy_registry := reg,
        sy_heard := (\<lambda>g. if rg_queue reg g \<noteq> rg_queue (sy_registry sy) g
            then insert (le_generation l) (sy_heard sy g) else sy_heard sy g)\<rparr>))"
| "relay_step C (Drop l) sy = Some (sy\<lparr>sy_registry := drop_lease l (sy_registry sy), sy_leases := sy_leases sy - {l}\<rparr>)"
| "relay_step C (Receive g) sy = Some (sy\<lparr>sy_registry := snd (receive g (sy_registry sy))\<rparr>)"
| "relay_step C (Hang_Up g) sy = Some (sy\<lparr>sy_registry := hang_up g (sy_registry sy)\<rparr>)"

primrec relay_guard :: "relay_call \<Rightarrow> relay_system \<Rightarrow> bool" where
  "relay_guard (Reserve name role token) sy \<longleftrightarrow> True"
| "relay_guard (Announce l fresh) sy \<longleftrightarrow> l \<in> sy_leases sy"
| "relay_guard (Forward l packet) sy \<longleftrightarrow> l \<in> sy_leases sy \<and> le_generation l \<in> sy_announced sy"
| "relay_guard (Drop l) sy \<longleftrightarrow> l \<in> sy_leases sy"
| "relay_guard (Receive g) sy \<longleftrightarrow> True"
| "relay_guard (Hang_Up g) sy \<longleftrightarrow> True"

definition relay_start :: "room_config list \<Rightarrow> relay_system" where
  "relay_start configs = \<lparr>sy_registry = registry_new configs, sy_leases = {}, sy_announced = {}, sy_heard = (\<lambda>_. {})\<rparr>"

text \<open>The generation that holds a place.\<close>

definition holder :: "registry \<Rightarrow> string \<Rightarrow> relay_role \<Rightarrow> nat option" where
  "holder reg name role = Option.bind (rg_rooms reg name) (\<lambda>entry. map_option pe_generation (rm_peers entry role))"

lemma partner_holder: "partner l reg = holder reg (le_room l) (role_peer (le_role l))"
  by (simp add: partner_def holder_def)

definition registry_ok :: "registry \<Rightarrow> bool" where
  "registry_ok reg \<longleftrightarrow> rg_generation reg < 2 ^ 64 \<and> (\<forall>g. length (rg_queue reg g) \<le> QUEUE_PACKETS) \<and>
     (\<forall>g > rg_generation reg. g \<notin> rg_cancelled reg \<and> rg_queue reg g = [])"

definition leases_ok :: "registry \<Rightarrow> lease set \<Rightarrow> bool" where
  "leases_ok reg ls \<longleftrightarrow>
     (\<forall>l. l \<in> ls \<longleftrightarrow> holder reg (le_room l) (le_role l) = Some (le_generation l)) \<and>
     (\<forall>l \<in> ls. le_generation l \<le> rg_generation reg) \<and> inj_on le_generation ls"

definition heard_ok :: "registry \<Rightarrow> lease set \<Rightarrow> (nat \<Rightarrow> nat set) \<Rightarrow> bool" where
  "heard_ok reg ls heard \<longleftrightarrow> (\<forall>g. (\<forall>a \<in> heard g. \<forall>b \<in> heard g. a = b) \<and> (heard g \<noteq> {} \<longrightarrow> g \<le> rg_generation reg)) \<and>
     (\<forall>l \<in> ls. le_generation l \<notin> rg_cancelled reg \<longrightarrow>
        (\<forall>a \<in> heard (le_generation l). holder reg (le_room l) (role_peer (le_role l)) = Some a))"

definition relay_ok :: "relay_system \<Rightarrow> bool" where
  "relay_ok sy \<longleftrightarrow> registry_ok (sy_registry sy) \<and> leases_ok (sy_registry sy) (sy_leases sy) \<and>
     heard_ok (sy_registry sy) (sy_leases sy) (sy_heard sy)"

section \<open>The operations keep the invariant\<close>

lemma role_peer_simps [simp]: "role_peer (role_peer r) = r" "role_peer r \<noteq> r" "r \<noteq> role_peer r"
  by (cases r; simp)+

lemma try_send_frame:
  assumes "try_send g m reg = Some reg'"
  shows "rg_rooms reg' = rg_rooms reg" "rg_generation reg' = rg_generation reg" "rg_cancelled reg' = rg_cancelled reg"
    "holder reg' = holder reg"
  using assms by (auto simp: try_send_def holder_def fun_eq_iff split: if_splits)

lemma registry_ok_send:
  assumes "try_send g m reg = Some reg'" "registry_ok reg" "g \<le> rg_generation reg"
  shows "registry_ok reg'"
  using assms by (auto simp: try_send_def registry_ok_def split: if_splits)

lemma registry_ok_rooms [simp]: "registry_ok (reg\<lparr>rg_rooms := m\<rparr>) = registry_ok reg"
  by (simp add: registry_ok_def)

lemma holder_set_peer:
  assumes "rg_rooms reg name = Some entry"
  shows "holder (set_peer name role p entry reg) n r =
    (if n = name \<and> r = role then map_option pe_generation p else holder reg n r)"
  using assms by (simp add: holder_def set_peer_def)

lemma set_peer_simps [simp]:
  "rg_generation (set_peer n r p e reg) = rg_generation reg" "rg_queue (set_peer n r p e reg) = rg_queue reg"
  "rg_cancelled (set_peer n r p e reg) = rg_cancelled reg" "rg_listening (set_peer n r p e reg) = rg_listening reg"
  "registry_ok (set_peer n r p e reg) = registry_ok reg"
  by (simp_all add: set_peer_def)

lemma notify_keeps:
  assumes "registry_ok reg" "\<forall>(i, p) \<in> set ps. \<forall>q. p = Some q \<longrightarrow> pe_generation q \<le> rg_generation reg"
  shows "registry_ok (snd (notify ps b own m reg)) \<and> holder (snd (notify ps b own m reg)) = holder reg \<and>
    rg_cancelled (snd (notify ps b own m reg)) = rg_cancelled reg \<and> rg_generation (snd (notify ps b own m reg)) = rg_generation reg"
  using assms
proof (induction ps b own m reg rule: notify.induct)
  case (3 index p rest paired own message reg)
  show ?case
  proof (cases "try_send (pe_generation p) message reg")
    case (Some reg')
    then show ?thesis using 3 try_send_frame [OF Some] registry_ok_send [OF Some] by simp
  qed (use 3 in simp)
qed auto

lemma holder_place: "holder reg n r = Some g \<longleftrightarrow> (\<exists>e p. rg_rooms reg n = Some e \<and> rm_peers e r = Some p \<and> pe_generation p = g)"
  by (auto simp: holder_def bind_eq_Some_conv)

lemma leases_ok_cong: "holder reg' = holder reg \<Longrightarrow> rg_generation reg' = rg_generation reg \<Longrightarrow> leases_ok reg' ls = leases_ok reg ls"
  by (simp add: leases_ok_def)

lemma heard_ok_cong:
  "holder reg' = holder reg \<Longrightarrow> rg_generation reg' = rg_generation reg \<Longrightarrow> rg_cancelled reg \<subseteq> rg_cancelled reg' \<Longrightarrow>
   heard_ok reg ls heard \<Longrightarrow> heard_ok reg' ls heard"
  by (auto simp: heard_ok_def)

lemma leases_okD:
  assumes "leases_ok reg ls"
  shows "l \<in> ls \<longleftrightarrow> holder reg (le_room l) (le_role l) = Some (le_generation l)"
    "l \<in> ls \<Longrightarrow> le_generation l \<le> rg_generation reg"
    "l \<in> ls \<Longrightarrow> l' \<in> ls \<Longrightarrow> le_generation l = le_generation l' \<Longrightarrow> l = l'"
  using assms by (simp_all add: leases_ok_def inj_on_def)

lemma relay_okD:
  assumes "relay_ok sy"
  shows "registry_ok (sy_registry sy)" "leases_ok (sy_registry sy) (sy_leases sy)"
    "heard_ok (sy_registry sy) (sy_leases sy) (sy_heard sy)"
  using assms by (simp_all add: relay_ok_def)

lemma holder_generation:
  assumes "leases_ok reg ls" "holder reg n r = Some g"
  shows "g \<le> rg_generation reg"
proof -
  let ?l = "\<lparr>le_room = n, le_role = r, le_generation = g\<rparr>"
  have "?l \<in> ls" using assms by (simp add: leases_ok_def)
  then show ?thesis using leases_okD(2) [OF assms(1), of ?l] by simp
qed

lemma reserve_ok:
  assumes "relay_ok sy"
  shows "returns (relay_step C (Reserve name role token) sy) relay_ok"
proof -
  let ?reg = "sy_registry sy"
  have keep: "relay_ok (sy\<lparr>sy_registry := ?reg, sy_leases := sy_leases sy\<rparr>)" using assms by simp
  show ?thesis
  proof (cases "secret_decode C token = None \<or> rg_rooms ?reg name = None")
    case True
    then show ?thesis using keep by (cases "secret_decode C token") (auto simp: reserve_def)
  next
    case False
    then obtain s e where s: "secret_decode C token = Some s" and e: "rg_rooms ?reg name = Some e" by auto
    let ?g = "rg_generation ?reg + 1"
    let ?reg1 = "?reg\<lparr>rg_generation := ?g, rg_queue := (rg_queue ?reg)(?g := []), rg_listening := insert ?g (rg_listening ?reg)\<rparr>"
    let ?reg2 = "set_peer name role (Some \<lparr>pe_generation = ?g, pe_active = False\<rparr>) e ?reg1"
    let ?l = "\<lparr>le_room = name, le_role = role, le_generation = ?g\<rparr>"
    show ?thesis
    proof (cases "\<not> matches_hash C s (rm_hashes e role) \<or> rm_peers e role \<noteq> None \<or> 2 ^ 64 \<le> ?g")
      case True
      then show ?thesis using keep s e by (auto simp: reserve_def)
    next
      case free: False
      have hold: "holder ?reg2 n r = (if n = name \<and> r = role then Some ?g else holder ?reg n r)" for n r
        using holder_set_peer [of ?reg1 name e] e by (simp add: holder_def set_peer_def)
      have none: "holder ?reg name role = None" using e free by (simp add: holder_def)
      have ok: "registry_ok ?reg2" using assms free by (auto simp: relay_ok_def registry_ok_def)
      have ls: "leases_ok ?reg2 (insert ?l (sy_leases sy))"
        unfolding leases_ok_def hold
      proof (intro conjI allI ballI)
        fix l :: lease
        have "l \<in> sy_leases sy \<Longrightarrow> \<not> (le_room l = name \<and> le_role l = role)"
          using assms none by (auto simp: relay_ok_def leases_ok_def)
        then show "l \<in> insert ?l (sy_leases sy) \<longleftrightarrow>
            (if le_room l = name \<and> le_role l = role then Some ?g else holder ?reg (le_room l) (le_role l)) = Some (le_generation l)"
          using assms by (cases l) (auto simp: relay_ok_def leases_ok_def)
      next
        show "le_generation l \<le> rg_generation ?reg2" if "l \<in> insert ?l (sy_leases sy)" for l
          using that leases_okD(2) [OF relay_okD(2) [OF assms], of l] by auto
        show "inj_on le_generation (insert ?l (sy_leases sy))"
          using leases_okD(2,3) [OF relay_okD(2) [OF assms]] by (fastforce simp: inj_on_def)
      qed
      have fresh: "sy_heard sy ?g = {}" using assms by (auto simp: relay_ok_def heard_ok_def)
      have "heard_ok ?reg2 (insert ?l (sy_leases sy)) (sy_heard sy)"
        using assms fresh none unfolding heard_ok_def hold relay_ok_def leases_ok_def
        by (auto simp: le_SucI)
      then show ?thesis using s e free ok ls by (simp add: reserve_def relay_ok_def Let_def)
    qed
  qed
qed

lemma announce_keeps:
  assumes reg: "registry_ok reg" and ls: "leases_ok reg ls"
  shows "registry_ok (snd (announce C fresh l reg)) \<and> holder (snd (announce C fresh l reg)) = holder reg \<and>
    rg_cancelled (snd (announce C fresh l reg)) = rg_cancelled reg \<and> rg_generation (snd (announce C fresh l reg)) = rg_generation reg"
proof (cases "rg_rooms reg (le_room l)")
  case (Some e)
  show ?thesis
  proof (cases "rm_peers e (le_role l)")
    case own: (Some own)
    let ?own = "own\<lparr>pe_active := True\<rparr>"
    let ?reg = "set_peer (le_room l) (le_role l) (Some ?own) e reg"
    let ?ps = "[(Desktop, ((rm_peers e)(le_role l := Some ?own)) Desktop), (Mobile, ((rm_peers e)(le_role l := Some ?own)) Mobile)]"
    have hold: "holder ?reg = holder reg"
      using holder_set_peer [OF Some] Some own by (auto simp: fun_eq_iff holder_def)
    have "pe_generation q \<le> rg_generation reg" if "rm_peers e r = Some q" for r q
      using holder_generation [OF ls, of "le_room l" r "pe_generation q"] Some that by (simp add: holder_def)
    then have "\<forall>(i, p) \<in> set ?ps. \<forall>q. p = Some q \<longrightarrow> pe_generation q \<le> rg_generation ?reg" using own by auto
    then have notified: "registry_ok (snd (notify ?ps b r m ?reg)) \<and> holder (snd (notify ?ps b r m ?reg)) = holder reg \<and>
        rg_cancelled (snd (notify ?ps b r m ?reg)) = rg_cancelled reg \<and>
        rg_generation (snd (notify ?ps b r m ?reg)) = rg_generation reg" for b r m
      using notify_keeps [of ?reg ?ps b r m] reg hold by simp
    have "announce C fresh l reg \<in> {(Inl (), reg), (Inl (), ?reg)} \<or> (\<exists>b m. announce C fresh l reg = notify ?ps b (le_role l) m ?reg)"
      using Some own by (auto simp: announce_def Let_def simp del: fun_upd_apply notify.simps split: option.split)
    then show ?thesis using notified reg hold by fastforce
  qed (use Some reg in \<open>simp add: announce_def\<close>)
qed (use reg in \<open>simp add: announce_def\<close>)

lemma announce_ok:
  assumes "relay_ok sy"
  shows "returns (relay_step C (Announce l fresh) sy) relay_ok"
  using announce_keeps [OF relay_okD(1,2) [OF assms], of C fresh l] relay_okD [OF assms]
    heard_ok_cong [of "snd (announce C fresh l (sy_registry sy))" "sy_registry sy"]
    leases_ok_cong [of "snd (announce C fresh l (sy_registry sy))" "sy_registry sy"]
  by (simp add: relay_ok_def case_prod_unfold Let_def)

text \<open>Forwarding either reports an error, perhaps cancelling the target, or fills one queue.\<close>

lemma forward_cases:
  obtains (failed) reg' where "forward packet l reg = (Inl (), reg')" "reg' = reg"
  | (full) reg' g where "forward packet l reg = (Inl (), reg')" "partner l reg = Some g"
      "reg' = reg\<lparr>rg_cancelled := insert g (rg_cancelled reg)\<rparr>"
  | (sent) reg' g where "forward packet l reg = (Inr (), reg')" "partner l reg = Some g" "g \<notin> rg_cancelled reg"
      "le_generation l \<notin> rg_cancelled reg" "try_send g (Relay_Binary packet) reg = Some reg'"
proof (cases "rg_rooms reg (le_room l)")
  case (Some e)
  show ?thesis
  proof (cases "rm_peers e (role_peer (le_role l))")
    case None
    then show ?thesis using Some failed by (simp add: forward_def)
  next
    case p: (Some p)
    have part: "partner l reg = Some (pe_generation p)" using Some p by (simp add: partner_def)
    show ?thesis
    proof (cases "le_generation l \<in> rg_cancelled reg \<or> \<not> pe_active p \<or> pe_generation p \<in> rg_cancelled reg")
      case True
      then show ?thesis using Some p failed by (auto simp: forward_def)
    next
      case False
      then show ?thesis
        using Some p part full sent by (cases "try_send (pe_generation p) (Relay_Binary packet) reg") (auto simp: forward_def)
    qed
  qed
qed (use failed in \<open>simp add: forward_def\<close>)

lemma forward_ok:
  assumes ok: "relay_ok sy" and l: "l \<in> sy_leases sy"
  shows "returns (relay_step C (Forward l packet) sy) relay_ok"
proof (cases rule: forward_cases [of packet l "sy_registry sy"])
  case (failed reg')
  then show ?thesis using ok by simp
next
  case (full reg' g)
  have "g \<le> rg_generation (sy_registry sy)"
    using full(2) holder_generation [OF relay_okD(2) [OF ok]] by (simp add: partner_holder)
  then have "registry_ok reg'" using relay_okD(1) [OF ok] full by (auto simp: registry_ok_def)
  moreover have "holder reg' = holder (sy_registry sy)" using full by (simp add: holder_def fun_eq_iff)
  ultimately show ?thesis
    using full relay_okD [OF ok] leases_ok_cong [of reg'] heard_ok_cong [of reg' "sy_registry sy"] by (auto simp: relay_ok_def)
next
  case (sent reg' g)
  let ?reg = "sy_registry sy"
  let ?heard = "(sy_heard sy)(g := insert (le_generation l) (sy_heard sy g))"
  let ?t = "\<lparr>le_room = le_room l, le_role = role_peer (le_role l), le_generation = g\<rparr>"
  note frame = try_send_frame [OF sent(5)]
  have g: "holder ?reg (le_room l) (role_peer (le_role l)) = Some g" using sent(2) by (simp add: partner_holder)
  have own: "holder ?reg (le_room l) (le_role l) = Some (le_generation l)" using leases_okD(1) [OF relay_okD(2) [OF ok]] l by simp
  have t: "?t \<in> sy_leases sy" using leases_okD(1) [OF relay_okD(2) [OF ok], of ?t] g by simp
  have gen: "g \<le> rg_generation ?reg" by (rule holder_generation [OF relay_okD(2) [OF ok] g])
  have only: "sy_heard sy g \<subseteq> {le_generation l}"
    using relay_okD(3) [OF ok] t sent(3) own by (auto simp: heard_ok_def dest!: bspec [of _ _ ?t])
  have "heard_ok reg' (sy_leases sy) ?heard"
    unfolding heard_ok_def frame
  proof (intro conjI allI ballI impI)
    show "a = b" if "a \<in> ?heard x" "b \<in> ?heard x" for x a b
      using that only relay_okD(3) [OF ok] by (auto simp: heard_ok_def split: if_splits)
    show "x \<le> rg_generation ?reg" if "?heard x \<noteq> {}" for x
      using that gen relay_okD(3) [OF ok] by (auto simp: heard_ok_def split: if_splits)
    show "holder ?reg (le_room k) (role_peer (le_role k)) = Some a"
      if k: "k \<in> sy_leases sy" "le_generation k \<notin> rg_cancelled ?reg" "a \<in> ?heard (le_generation k)" for k a
    proof (cases "le_generation k = g")
      case True
      then have "k = ?t" using leases_okD(3) [OF relay_okD(2) [OF ok] k(1) t] by simp
      moreover have "a = le_generation l" using k(3) True only by auto
      ultimately show ?thesis using own by simp
    next
      case False
      then show ?thesis using k relay_okD(3) [OF ok] by (auto simp: heard_ok_def)
    qed
  qed
  moreover have "registry_ok reg'" by (rule registry_ok_send [OF sent(5) relay_okD(1) [OF ok] gen])
  moreover have "(\<lambda>x. if rg_queue reg' x \<noteq> rg_queue ?reg x then insert (le_generation l) (sy_heard sy x) else sy_heard sy x) = ?heard"
    using sent(5) by (auto simp: try_send_def fun_eq_iff split: if_splits)
  ultimately show ?thesis using sent frame leases_ok_cong [of reg' ?reg] relay_okD(2) [OF ok] by (simp add: relay_ok_def)
qed

lemma drop_ok:
  assumes ok: "relay_ok sy" and l: "l \<in> sy_leases sy"
  shows "relay_ok (sy\<lparr>sy_registry := drop_lease l (sy_registry sy), sy_leases := sy_leases sy - {l}\<rparr>)"
proof -
  let ?reg = "sy_registry sy"
  have own: "holder ?reg (le_room l) (le_role l) = Some (le_generation l)" using leases_okD(1) [OF relay_okD(2) [OF ok]] l by simp
  then obtain e p where e: "rg_rooms ?reg (le_room l) = Some e" "rm_peers e (le_role l) = Some p" "pe_generation p = le_generation l"
    by (auto simp: holder_place)
  let ?new = "drop_lease l ?reg"
  have hold: "holder ?new n r = (if n = le_room l \<and> r = le_role l then None else holder ?reg n r)" for n r
    using e holder_set_peer [OF e(1), of "le_role l" None n r]
    by (auto simp: drop_lease_def Let_def holder_def set_peer_def split: option.splits)
  have gen: "rg_generation ?new = rg_generation ?reg" "rg_queue ?new = rg_queue ?reg"
    using e by (auto simp: drop_lease_def Let_def split: option.split)
  have cancelled: "rg_cancelled ?new = rg_cancelled ?reg \<union> set_option (partner l ?reg)"
    using e by (auto simp: drop_lease_def Let_def partner_def split: option.split)
  have reg: "registry_ok ?new"
    using relay_okD(1) [OF ok] holder_generation [OF relay_okD(2) [OF ok]] cancelled gen
    by (auto simp: registry_ok_def partner_holder) (metis leD)
  have ls: "leases_ok ?new (sy_leases sy - {l})"
    using relay_okD(2) [OF ok] own unfolding leases_ok_def hold gen by (auto simp: inj_on_diff)
  have "heard_ok ?new (sy_leases sy - {l}) (sy_heard sy)"
    unfolding heard_ok_def hold gen
  proof (intro conjI allI ballI impI)
    fix k a assume k: "k \<in> sy_leases sy - {l}" "le_generation k \<notin> rg_cancelled ?new" "a \<in> sy_heard sy (le_generation k)"
    have at: "holder ?reg (le_room k) (le_role k) = Some (le_generation k)" using leases_okD(1) [OF relay_okD(2) [OF ok]] k(1) by simp
    have "\<not> (le_room k = le_room l \<and> role_peer (le_role k) = le_role l)"
    proof
      assume same: "le_room k = le_room l \<and> role_peer (le_role k) = le_role l"
      then have "le_role k = role_peer (le_role l)" by (metis role_peer_simps(1))
      then have "partner l ?reg = Some (le_generation k)" using at same by (auto simp: partner_holder)
      then show False using k(2) cancelled by simp
    qed
    then show "(if le_room k = le_room l \<and> role_peer (le_role k) = le_role l then None
        else holder ?reg (le_room k) (role_peer (le_role k))) = Some a"
      using k relay_okD(3) [OF ok] cancelled by (auto simp: heard_ok_def)
  qed (use relay_okD(3) [OF ok] in \<open>auto simp: heard_ok_def\<close>)
  then show ?thesis using reg ls by (simp add: relay_ok_def)
qed

lemma queue_ends_ok:
  assumes "relay_ok sy"
  shows "relay_ok (sy\<lparr>sy_registry := snd (receive g (sy_registry sy))\<rparr>)" "relay_ok (sy\<lparr>sy_registry := hang_up g (sy_registry sy)\<rparr>)"
proof -
  have queue: "relay_ok (sy\<lparr>sy_registry := reg\<rparr>)"
    if "rg_rooms reg = rg_rooms (sy_registry sy)" "rg_generation reg = rg_generation (sy_registry sy)"
      "rg_cancelled reg = rg_cancelled (sy_registry sy)"
      "\<And>g. length (rg_queue reg g) \<le> length (rg_queue (sy_registry sy) g)" for reg
  proof -
    have "holder reg = holder (sy_registry sy)" using that(1) by (simp add: holder_def fun_eq_iff)
    moreover have "registry_ok reg"
      using relay_okD(1) [OF assms] that unfolding registry_ok_def by (metis le_trans le_zero_eq length_0_conv)
    ultimately show ?thesis
      using that relay_okD [OF assms] leases_ok_cong [of reg] heard_ok_cong [of reg "sy_registry sy"] by (simp add: relay_ok_def)
  qed
  show "relay_ok (sy\<lparr>sy_registry := snd (receive g (sy_registry sy))\<rparr>)"
    by (rule queue) (auto simp: receive_def split: list.split)
  show "relay_ok (sy\<lparr>sy_registry := hang_up g (sy_registry sy)\<rparr>)"
    by (rule queue) (auto simp: hang_up_def)
qed

lemma start_relay_ok: "relay_ok (relay_start configs)"
proof -
  have folded: "\<forall>n e r. fold (\<lambda>c m. m(rc_id c \<mapsto> \<lparr>rm_hashes = h c, rm_peers = (\<lambda>_. None)\<rparr>)) cs m0 n = Some e \<longrightarrow> rm_peers e r = None"
    if "\<forall>n e r. m0 n = Some e \<longrightarrow> rm_peers e r = None" for h and cs :: "room_config list" and m0 :: "string \<rightharpoonup> room"
    using that
  proof (induction cs arbitrary: m0)
    case (Cons c cs)
    show ?case unfolding fold.simps comp_apply by (rule Cons.IH) (use Cons.prems in auto)
  qed simp
  have "rm_peers e r = None" if "rg_rooms (registry_new configs) n = Some e" for n e r
    using folded [of Map.empty "\<lambda>c r. case r of Desktop \<Rightarrow> rc_desktop_token_hash c | Mobile \<Rightarrow> rc_mobile_token_hash c" configs] that
    by (simp add: registry_new_def)
  then have "holder (registry_new configs) n r = None" for n r
    by (cases "rg_rooms (registry_new configs) n") (auto simp: holder_def)
  then show ?thesis by (simp add: relay_ok_def relay_start_def registry_ok_def leases_ok_def heard_ok_def registry_new_def)
qed

interpretation relay: machine "relay_step C" relay_guard "\<lambda>sy. sy = relay_start configs" "\<lambda>_. relay_ok" "\<lambda>_. True" for C configs
proof
  show "returns (relay_step C call sy) relay_ok" if "relay_ok sy" "relay_guard call sy" for call sy
    using that reserve_ok announce_ok forward_ok drop_ok queue_ends_ok
    by (cases call) (simp_all del: relay_step.simps(1-3))
qed (auto simp: start_relay_ok)

section \<open>Properties\<close>

text \<open>
  C12: the relay isolates its rooms. No sequence of calls panics; in every state, every place of a room
  belongs to exactly one live lease and all generations differ, no queue holds more than eight
  messages, and all packets that were ever put into one queue came from a single peer. As long as
  the owner of the queue is not cancelled, that peer still holds the opposite place of its room.
\<close>

theorem relay_isolates_rooms:
  assumes "reaches (relay_step C) relay_guard (\<lambda>sy. sy = relay_start configs) n sy"
  shows "(relay_guard call sy \<longrightarrow> relay_step C call sy \<noteq> None) \<and>
    (\<forall>l. l \<in> sy_leases sy \<longleftrightarrow> holder (sy_registry sy) (le_room l) (le_role l) = Some (le_generation l)) \<and>
    inj_on le_generation (sy_leases sy) \<and> (\<forall>g. length (rg_queue (sy_registry sy) g) \<le> QUEUE_PACKETS) \<and>
    (\<forall>g a b. a \<in> sy_heard sy g \<and> b \<in> sy_heard sy g \<longrightarrow> a = b) \<and>
    (\<forall>l \<in> sy_leases sy. \<forall>a \<in> sy_heard sy (le_generation l). le_generation l \<notin> rg_cancelled (sy_registry sy) \<longrightarrow>
       holder (sy_registry sy) (le_room l) (role_peer (le_role l)) = Some a)"
proof -
  have ok: "relay_ok sy" by (rule relay.reaches_invariant [OF assms]) simp
  have "relay_guard call sy \<longrightarrow> relay_step C call sy \<noteq> None"
    using relay.step_ok [OF ok, of call C] by (auto simp: returns_def)
  then show ?thesis
    using ok unfolding relay_ok_def registry_ok_def leases_ok_def heard_ok_def by blast
qed

text \<open>
  Both peers of a room are connected: the one that announced first was told to wait, both were told the
  link, each packet of one is put into the queue of the other and of nobody else, and when either goes
  away the other one is cancelled and can send nothing more.
\<close>

definition connected :: "string \<Rightarrow> (relay_role \<Rightarrow> lease) \<Rightarrow> relay_role \<Rightarrow> registry \<Rightarrow> bool" where
  "connected link l first reg \<longleftrightarrow>
     rg_queue reg (le_generation (l first)) = [Relay_Waiting, Relay_Paired link] \<and>
     rg_queue reg (le_generation (l (role_peer first))) = [Relay_Paired link] \<and>
     (\<forall>x packet.
        (\<exists>reg'. forward packet (l x) reg = (Inr (), reg') \<and>
          rg_queue reg' = (rg_queue reg)(le_generation (l (role_peer x)) :=
            rg_queue reg (le_generation (l (role_peer x))) @ [Relay_Binary packet])) \<and>
        le_generation (l (role_peer x)) \<in> rg_cancelled (drop_lease (l x) reg) \<and>
        fst (forward packet (l (role_peer x)) (drop_lease (l x) reg)) = Inl ())"

lemma all_roles: "(\<forall>x. P x) \<longleftrightarrow> P Desktop \<and> P Mobile"
  by (metis relay_role.exhaust)

text \<open>
  C13: two peers of a room get connected, and losing either ends the other. Both sides of a room with
  free places present their tokens, in any order, and announce themselves, in any order: both before
  they announce, or the second only after the first has announced. Then both are told the same link,
  each packet of one reaches exactly the queue of the other, and when either side goes away the
  other is cancelled and can send nothing more.
\<close>

theorem peers_get_connected:
  assumes reg: "rg_rooms reg name = Some entry" "rm_peers entry = (\<lambda>_. None)" "rg_generation reg + 2 < 2 ^ 64"
    and unused: "rg_generation reg + 1 \<notin> rg_cancelled reg" "rg_generation reg + 2 \<notin> rg_cancelled reg"
    and tokens: "\<And>x. secret_decode C (token x) = Some (sec x)" "\<And>x. matches_hash C (sec x) (rm_hashes entry x)"
  shows "\<exists>l.
    (\<exists>reg1 reg2 reg3 reg4.
      reserve C name r (token r) reg = Some (Inr (l r), reg1) \<and>
      reserve C name (role_peer r) (token (role_peer r)) reg1 = Some (Inr (l (role_peer r)), reg2) \<and>
      announce C (Some s) (l q) reg2 = (Inr (), reg3) \<and>
      announce C (Some s') (l (role_peer q)) reg3 = (Inr (), reg4) \<and> connected (secret_hash C s') l q reg4) \<and>
    (\<exists>reg1 reg2 reg3 reg4.
      reserve C name r (token r) reg = Some (Inr (l r), reg1) \<and> announce C (Some s) (l r) reg1 = (Inr (), reg2) \<and>
      reserve C name (role_peer r) (token (role_peer r)) reg2 = Some (Inr (l (role_peer r)), reg3) \<and>
      announce C (Some s') (l (role_peer r)) reg3 = (Inr (), reg4) \<and> connected (secret_hash C s') l r reg4)"
proof -
  define l where "l = (\<lambda>x. \<lparr>le_room = name, le_role = x,
    le_generation = (if x = r then rg_generation reg + 1 else rg_generation reg + 2)\<rparr>)"
  show ?thesis
    by (rule exI [of _ l], cases r; cases q)
      (use assms in \<open>simp_all add: l_def connected_def all_roles reserve_def set_peer_def announce_def both_ready_def
        forward_def drop_lease_def try_send_def Let_def\<close>)
qed

text \<open>A codec that keeps bytes as characters, and a room with one token of each kind.\<close>

definition sample_codec :: codec where
  "sample_codec = \<lparr>b64_decode = (\<lambda>v. Some (map (\<lambda>c. word_of_nat (of_char c)) (take 32 v))), b64_encode = (\<lambda>b. map (\<lambda>x. char_of (unat x)) b @ replicate 11 CHR ''x''),
     sha256 = id\<rparr>"

definition desktop_token :: string where "desktop_token = replicate 32 CHR ''x'' @ replicate 11 CHR ''x''"
definition mobile_token :: string where "mobile_token = replicate 32 CHR ''y'' @ replicate 11 CHR ''x''"

lemma sample_chars: "char_of (120 :: nat) = CHR ''x''" "char_of (121 :: nat) = CHR ''y''"
  by code_simp+

lemma sample_tokens:
  "secret_decode sample_codec desktop_token = Some (replicate 32 120)" "secret_decode sample_codec mobile_token = Some (replicate 32 121)"
  "matches_hash sample_codec (replicate 32 120) desktop_token" "matches_hash sample_codec (replicate 32 121) mobile_token"
  by (simp_all add: secret_decode_def matches_hash_def sample_codec_def desktop_token_def mobile_token_def sample_chars)

theorem relay_isolates_rooms_witness:
  "sy_leases (relay_start []) = {} \<and> relay_step sample_codec (Reserve ''room'' Desktop desktop_token) (relay_start []) \<noteq> None"
  using relay_isolates_rooms [OF reaches.start, where sy = "relay_start []" and configs = "[]" and C = sample_codec and
      call = "Reserve ''room'' Desktop desktop_token"]
  by (auto simp: relay_start_def)

theorem peers_get_connected_witness:
  "\<exists>l reg1 reg2 reg3 reg4.
     reserve sample_codec ''room'' Mobile mobile_token (registry_new [\<lparr>rc_id = ''room'', rc_desktop_token_hash = desktop_token,
       rc_mobile_token_hash = mobile_token\<rparr>]) = Some (Inr (l Mobile), reg1) \<and>
     announce sample_codec (Some []) (l Mobile) reg1 = (Inr (), reg2) \<and>
     reserve sample_codec ''room'' Desktop desktop_token reg2 = Some (Inr (l Desktop), reg3) \<and>
     announce sample_codec (Some []) (l Desktop) reg3 = (Inr (), reg4) \<and> connected (secret_hash sample_codec []) l Mobile reg4"
proof -
  let ?reg = "registry_new [\<lparr>rc_id = ''room'', rc_desktop_token_hash = desktop_token, rc_mobile_token_hash = mobile_token\<rparr>]"
  let ?token = "\<lambda>x. case x of Desktop \<Rightarrow> desktop_token | Mobile \<Rightarrow> mobile_token"
  let ?sec = "\<lambda>x. case x of Desktop \<Rightarrow> replicate 32 120 | Mobile \<Rightarrow> replicate 32 121"
  obtain e where e: "rg_rooms ?reg ''room'' = Some e" "rm_peers e = (\<lambda>_. None)" "rg_generation ?reg = 0" "rg_cancelled ?reg = {}"
    "rm_hashes e Desktop = desktop_token" "rm_hashes e Mobile = mobile_token"
    by (simp add: registry_new_def)
  have tokens: "secret_decode sample_codec (?token x) = Some (?sec x)" "matches_hash sample_codec (?sec x) (rm_hashes e x)" for x
    using sample_tokens e(5,6) by (cases x; simp)+
  show ?thesis
    using peers_get_connected [OF e(1,2), of sample_codec ?token ?sec Mobile "[]" Mobile "[]"] e(3,4) tokens
    by simp blast
qed

end
