(* ===== verification/Pairing.thy ===== *)
theory Pairing
  imports Secure_Channel Relay "HOL-Library.AList" "HOL-Library.List_Lexorder" "HOL-Library.Char_ord"
begin

text \<open>
  Granting devices access to a desktop (\<open>mobile/link/src\<close>: \<open>pairing.rs\<close>, \<open>endpoint/approval.rs\<close>,
  \<open>endpoint/pairing_code.rs\<close>, \<open>endpoint/access.rs\<close>, \<open>endpoint/host.rs\<close>, \<open>Authorization\<close> of
  \<open>endpoint/runtime.rs\<close>): invitations that a phone redeems after the user approved it, the grants of the
  devices, their sessions, and what is written to the credential store.

  Hash maps are association lists with distinct keys, whose order no statement depends on; the
  ordered map of the approvals is kept sorted. Every use of the random generator is an argument,
  \<open>None\<close> when it fails. JSON, base64, SHA-256 and the parsing of an address are parameters.
\<close>

section \<open>Data\<close>

abbreviation MAX_DEVICES :: nat where "MAX_DEVICES \<equiv> 32"
abbreviation INVITATION_TTL :: nat where "INVITATION_TTL \<equiv> 600"

datatype io_error = Io_Invalid | Io_Authentication | Io_Link link_error | Io_Persist

record invite =
  iv_id :: string
  iv_expires_at :: nat
  iv_secret :: secret

record device_grant =
  dg_id :: string
  dg_name :: "uchar list"
  dg_allow_input :: bool
  dg_secret :: secret

record pending_invite =
  pi_issued_at :: nat
  pi_expires_at :: nat
  pi_secret :: secret
  pi_allow_input :: bool

record pairing_book =
  bk_pending :: "(string \<times> pending_invite) list"
  bk_devices :: "(string \<times> device_grant) list"

record device_entry =
  en_id :: string
  en_name :: "uchar list"
  en_allow_input :: bool
  en_secret :: string

record saved_host =
  sv_version :: nat
  sv_private_key :: string
  sv_public_key :: string
  sv_devices :: octets

record invite_offer =
  of_url :: string
  of_room :: string
  of_token :: string
  of_tls_pin :: string
  of_name :: "uchar list"
  of_host :: string
  of_grant :: string
  of_secret :: string
  of_expires_at :: nat

record host_json =
  js_write_devices :: "device_entry list \<Rightarrow> octets option"
  js_read_devices :: "octets \<Rightarrow> device_entry list option"
  js_write_saved :: "saved_host \<Rightarrow> octets option"
  js_read_saved :: "octets \<Rightarrow> saved_host option"
  js_offer :: "invite_offer \<Rightarrow> string"
  js_grant :: "string \<Rightarrow> string option option"

text \<open>The \<open>len()\<close> of a string in bytes and \<open>char::is_control\<close>; a name on a device.\<close>

definition text_bytes :: "uchar list \<Rightarrow> nat" where
  "text_bytes s = sum_list (map utf8_len s)"

definition is_control :: "uchar \<Rightarrow> bool" where
  "is_control c \<longleftrightarrow> c < 32 \<or> 127 \<le> c \<and> c \<le> 159"

definition bad_name :: "uchar list \<Rightarrow> bool" where
  "bad_name name \<longleftrightarrow> name = [] \<or> 160 < text_bytes name \<or> list_ex is_control name"

text \<open>\<open>std::str::from_utf8\<close>.\<close>

fun utf8_valid :: "octets \<Rightarrow> bool" where
  "utf8_valid [] \<longleftrightarrow> True"
| "utf8_valid (a # bs) \<longleftrightarrow>
     (if a < 0x80 then utf8_valid bs
      else if 0xC2 \<le> a \<and> a \<le> 0xDF then (case bs of b # bs \<Rightarrow> 0x80 \<le> b \<and> b \<le> 0xBF \<and> utf8_valid bs | _ \<Rightarrow> False)
      else if 0xE0 \<le> a \<and> a \<le> 0xEF
        then (case bs of b # c # bs \<Rightarrow> (if a = 0xE0 then 0xA0 else 0x80) \<le> b \<and> b \<le> (if a = 0xED then 0x9F else 0xBF) \<and>
                0x80 \<le> c \<and> c \<le> 0xBF \<and> utf8_valid bs | _ \<Rightarrow> False)
      else if 0xF0 \<le> a \<and> a \<le> 0xF4
        then (case bs of b # c # d # bs \<Rightarrow> (if a = 0xF0 then 0x90 else 0x80) \<le> b \<and> b \<le> (if a = 0xF4 then 0x8F else 0xBF) \<and>
                0x80 \<le> c \<and> c \<le> 0xBF \<and> 0x80 \<le> d \<and> d \<le> 0xBF \<and> utf8_valid bs | _ \<Rightarrow> False)
      else False)"

section \<open>The book of invitations and grants\<close>

definition book_default :: pairing_book where
  "book_default = \<lparr>bk_pending = [], bk_devices = []\<rparr>"

definition device_entry_of :: "codec \<Rightarrow> device_grant \<Rightarrow> device_entry" where
  "device_entry_of C g = \<lparr>en_id = dg_id g, en_name = dg_name g, en_allow_input = dg_allow_input g,
     en_secret = expose_encoded C (dg_secret g)\<rparr>"

definition export_devices :: "codec \<Rightarrow> host_json \<Rightarrow> pairing_book \<Rightarrow> link_error + octets" where
  "export_devices C J book =
     (let values = map (device_entry_of C \<circ> snd) (bk_devices book)
      in case js_write_devices J values of None \<Rightarrow> Inl Err_State | Some bytes \<Rightarrow> Inr bytes)"

fun restore_entries :: "codec \<Rightarrow> device_entry list \<Rightarrow> pairing_book \<Rightarrow> link_error + pairing_book" where
  "restore_entries C [] book = Inr book"
| "restore_entries C (v # vs) book =
     (if \<not> valid_id (en_id v) \<or> bad_name (en_name v) \<or> map_of (bk_devices book) (en_id v) \<noteq> None then Inl Err_Credential
      else (case secret_decode C (en_secret v) of
              None \<Rightarrow> Inl Err_Credential
            | Some s \<Rightarrow> restore_entries C vs (book\<lparr>bk_devices := AList.update (en_id v)
                \<lparr>dg_id = en_id v, dg_name = en_name v, dg_allow_input = en_allow_input v, dg_secret = s\<rparr> (bk_devices book)\<rparr>)))"

definition restore_devices :: "codec \<Rightarrow> host_json \<Rightarrow> octets \<Rightarrow> link_error + pairing_book" where
  "restore_devices C J bytes =
     (if 32 * 1024 < length bytes then Inl Err_Credential
      else (case js_read_devices J bytes of
              None \<Rightarrow> Inl Err_Credential
            | Some values \<Rightarrow> if MAX_DEVICES < length values then Inl Err_Credential
                else restore_entries C values book_default))"

definition book_issue ::
    "codec \<Rightarrow> nat \<Rightarrow> bool \<Rightarrow> secret option \<Rightarrow> secret option \<Rightarrow> pairing_book \<Rightarrow> (link_error + invite) \<times> pairing_book" where
  "book_issue C now allow_input fresh fresh_id book =
     (let book = book\<lparr>bk_pending := filter (\<lambda>(_, i). pi_issued_at i \<le> now \<and> now < pi_expires_at i) (bk_pending book)\<rparr>
      in if MAX_DEVICES \<le> length (bk_devices book) + length (bk_pending book) then (Inl Err_State, book)
         else if 2 ^ 64 \<le> now + INVITATION_TTL then (Inl Err_State, book)
         else (case (fresh, fresh_id) of
                 (Some s, Some r) \<Rightarrow>
                   (case secret_decode C (expose_encoded C s) of
                      None \<Rightarrow> (Inl Err_Credential, book)
                    | Some stored \<Rightarrow>
                        (Inr \<lparr>iv_id = secret_hash C r, iv_expires_at = now + INVITATION_TTL, iv_secret = s\<rparr>,
                         book\<lparr>bk_pending := AList.update (secret_hash C r) \<lparr>pi_issued_at = now, pi_expires_at = now + INVITATION_TTL,
                           pi_secret = stored, pi_allow_input = allow_input\<rparr> (bk_pending book)\<rparr>))
               | _ \<Rightarrow> (Inl Err_Random, book)))"

definition invitation_secret :: "string \<Rightarrow> nat \<Rightarrow> pairing_book \<Rightarrow> link_error + secret" where
  "invitation_secret key now book = (case map_of (bk_pending book) key of
     None \<Rightarrow> Inl Err_Credential
   | Some p \<Rightarrow> if now < pi_issued_at p \<or> pi_expires_at p \<le> now then Inl Err_Credential else Inr (pi_secret p))"

definition approve_authenticated ::
    "codec \<Rightarrow> string \<Rightarrow> uchar list \<Rightarrow> nat \<Rightarrow> secret option \<Rightarrow> secret option \<Rightarrow> pairing_book
      \<Rightarrow> ((link_error + device_grant) \<times> pairing_book) option" where
  "approve_authenticated C iid name now fresh fresh_id book = (case invitation_secret iid now book of
     Inl e \<Rightarrow> Some (Inl e, book)
   | Inr _ \<Rightarrow>
       if bad_name name then Some (Inl Err_Frame, book)
       else (case (fresh, fresh_id) of
               (Some s, Some r) \<Rightarrow>
                 (case map_of (bk_pending book) iid of
                    None \<Rightarrow> Some (Inl Err_Credential, book)
                  | Some p \<Rightarrow> do {
                      let key = secret_hash C r;
                      let book = book\<lparr>bk_pending := AList.delete iid (bk_pending book),
                        bk_devices := AList.update key \<lparr>dg_id = key, dg_name = name,
                          dg_allow_input = pi_allow_input p, dg_secret = s\<rparr> (bk_devices book)\<rparr>;
                      grant \<leftarrow> map_of (bk_devices book) key;
                      Some (Inr grant, book)
                    })
             | _ \<Rightarrow> Some (Inl Err_Random, book)))"

definition set_book_permission :: "string \<Rightarrow> bool \<Rightarrow> pairing_book \<Rightarrow> bool \<times> pairing_book" where
  "set_book_permission key allow_input book = (case map_of (bk_devices book) key of
     None \<Rightarrow> (False, book)
   | Some g \<Rightarrow> (True, book\<lparr>bk_devices := AList.update key (g\<lparr>dg_allow_input := allow_input\<rparr>) (bk_devices book)\<rparr>))"

definition book_revoke :: "string \<Rightarrow> pairing_book \<Rightarrow> bool \<times> pairing_book" where
  "book_revoke key book = (map_of (bk_devices book) key \<noteq> None, book\<lparr>bk_devices := AList.delete key (bk_devices book)\<rparr>)"

definition book_cancel :: "string \<Rightarrow> pairing_book \<Rightarrow> pairing_book" where
  "book_cancel key book = book\<lparr>bk_pending := AList.delete key (bk_pending book)\<rparr>"

section \<open>Requests that wait for the user\<close>

datatype route = Lan | Relay_Route

record pairing_request =
  pr_id :: string
  pr_name :: "uchar list"
  pr_route :: route
  pr_peer :: "string option"
  pr_verification_code :: string
  pr_expires_at :: nat
  pr_approving :: bool

record approval =
  ap_summary :: pairing_request
  ap_invitation :: string
  ap_decision :: bool
  ap_allowed_input :: "bool option"

text \<open>
  The queue of requests. The sender of a decision is part of an entry (\<open>ap_decision\<close> tells whether it is
  still there); the receivers belong to the connections of the phones: \<open>as_waiting\<close> holds those
  that still exist, \<open>as_answer\<close> what was sent to them.
\<close>

record approvals =
  as_pending :: "(string \<times> approval) list"
  as_waiting :: "string set"
  as_answer :: "string \<Rightarrow> bool option"

definition approvals_default :: approvals where
  "approvals_default = \<lparr>as_pending = [], as_waiting = {}, as_answer = (\<lambda>_. None)\<rparr>"

definition approval_request ::
    "codec \<Rightarrow> string \<Rightarrow> uchar list \<Rightarrow> route \<Rightarrow> string option \<Rightarrow> string \<Rightarrow> nat \<Rightarrow> secret option \<Rightarrow> approvals
      \<Rightarrow> (io_error + string) \<times> approvals" where
  "approval_request C iid name via from_peer code expires_at fresh_id as =
     (if 8 \<le> length (as_pending as) \<or> list_ex (\<lambda>(_, p). ap_invitation p = iid) (as_pending as)
      then (Inl Io_Authentication, as)
      else (case fresh_id of
              None \<Rightarrow> (Inl (Io_Link Err_Random), as)
            | Some r \<Rightarrow>
                (let key = secret_hash C r;
                     summary = \<lparr>pr_id = key, pr_name = name, pr_route = via, pr_peer = from_peer, pr_verification_code = code,
                       pr_expires_at = expires_at, pr_approving = False\<rparr>;
                     p = \<lparr>ap_summary = summary, ap_invitation = iid, ap_decision = True, ap_allowed_input = None\<rparr>
                 in (Inr key, as\<lparr>as_pending := insort_key fst (key, p) (AList.delete key (as_pending as)),
                       as_waiting := insert key (as_waiting as), as_answer := (as_answer as)(key := None)\<rparr>))))"

definition snapshots :: "nat \<Rightarrow> approvals \<Rightarrow> pairing_request list" where
  "snapshots now as = map (ap_summary \<circ> snd) (filter (\<lambda>(_, p). now < pr_expires_at (ap_summary p)) (as_pending as))"

definition approval_invitation :: "string \<Rightarrow> approvals \<Rightarrow> string option" where
  "approval_invitation key as = map_option ap_invitation (map_of (as_pending as) key)"

definition decide :: "string \<Rightarrow> bool option \<Rightarrow> nat \<Rightarrow> approvals \<Rightarrow> (io_error + unit) \<times> approvals" where
  "decide key allow_input now as = (case map_of (as_pending as) key of
     None \<Rightarrow> (Inl Io_Authentication, as)
   | Some p \<Rightarrow>
       if pr_expires_at (ap_summary p) \<le> now
       then (Inl Io_Authentication, as\<lparr>as_pending := AList.delete key (as_pending as)\<rparr>)
       else if \<not> ap_decision p then (Inl Io_Authentication, as)
       else (let p = p\<lparr>ap_decision := False, ap_allowed_input := allow_input,
                   ap_summary := (ap_summary p)\<lparr>pr_approving := allow_input \<noteq> None\<rparr>\<rparr>;
                 as = as\<lparr>as_pending := AList.update key p (as_pending as)\<rparr>
             in if key \<in> as_waiting as
                then (Inr (), as\<lparr>as_answer := (as_answer as)(key \<mapsto> allow_input \<noteq> None)\<rparr>)
                else (Inl Io_Authentication, as)))"

definition take_approved :: "string \<Rightarrow> string \<Rightarrow> uchar list \<Rightarrow> nat \<Rightarrow> approvals \<Rightarrow> (io_error + bool) \<times> approvals" where
  "take_approved key iid name now as = (case map_of (as_pending as) key of
     None \<Rightarrow> (Inl Io_Authentication, as)
   | Some p \<Rightarrow>
       if ap_invitation p \<noteq> iid \<or> pr_name (ap_summary p) \<noteq> name \<or> pr_expires_at (ap_summary p) \<le> now
       then (Inl Io_Authentication, as)
       else (case ap_allowed_input p of
               None \<Rightarrow> (Inl Io_Authentication, as)
             | Some allow_input \<Rightarrow> (Inr allow_input, as\<lparr>as_pending := AList.delete key (as_pending as)\<rparr>)))"

definition approval_cancel :: "string \<Rightarrow> approvals \<Rightarrow> approvals" where
  "approval_cancel key as = as\<lparr>as_pending := AList.delete key (as_pending as)\<rparr>"

definition approval_cancel_invitation :: "string \<Rightarrow> approvals \<Rightarrow> approvals" where
  "approval_cancel_invitation iid as = as\<lparr>as_pending := filter (\<lambda>(_, p). ap_invitation p \<noteq> iid) (as_pending as)\<rparr>"

section \<open>Access to a relay\<close>

record uri =
  ur_scheme :: "string option"
  ur_authority :: "(string \<times> string) option"
  ur_path_and_query :: "string option"

record access_library =
  al_parse :: "string \<Rightarrow> uri option"
  al_decode :: "string \<Rightarrow> octets option"
  al_encode :: "octets \<Rightarrow> string"

record relay_access =
  ra_version :: nat
  ra_url :: string
  ra_room :: string
  ra_tls_pin :: string
  ra_desktop_token :: string
  ra_mobile_token :: string

definition pin_bytes :: "access_library \<Rightarrow> relay_access \<Rightarrow> io_error + octets" where
  "pin_bytes A a =
     (if take 7 (ra_tls_pin a) \<noteq> ''sha256/'' then Inl Io_Invalid
      else let encoded = drop 7 (ra_tls_pin a)
           in case al_decode A encoded of
                None \<Rightarrow> Inl Io_Invalid
              | Some bytes \<Rightarrow> if length bytes \<noteq> 32 \<or> al_encode A bytes \<noteq> encoded then Inl Io_Invalid else Inr bytes)"

definition validate_access :: "codec \<Rightarrow> access_library \<Rightarrow> relay_access \<Rightarrow> io_error + unit" where
  "validate_access C A a = (case al_parse A (ra_url a) of
     None \<Rightarrow> Inl Io_Invalid
   | Some uri \<Rightarrow>
       (case ur_authority uri of
          None \<Rightarrow> Inl Io_Invalid
        | Some (authority, host) \<Rightarrow>
            if ra_version a \<noteq> 2 \<or> ur_scheme uri \<noteq> Some ''wss'' \<or> CHR ''@'' \<in> set authority \<or> host = [] \<or>
               ur_path_and_query uri \<notin> {None, Some [], Some ''/''} \<or> CHR ''#'' \<in> set (ra_url a) \<or> \<not> valid_id (ra_room a) \<or>
               ra_desktop_token a = ra_mobile_token a \<or> secret_decode C (ra_desktop_token a) = None \<or>
               secret_decode C (ra_mobile_token a) = None
            then Inl Io_Invalid
            else (case pin_bytes A a of Inl e \<Rightarrow> Inl e | Inr _ \<Rightarrow> Inr ())))"

section \<open>The state of the desktop\<close>

text \<open>
  An \<open>Authorization\<close> and the flag that a session is connected are shared between the table of active
  sessions and the connection that runs one. They are objects on a store, \<open>ho_sessions\<close>, and both sides
  hold their number. \<open>ho_stored\<close> is the content of the credential store, which a successful call
  of \<open>PersistHost\<close> replaces.
\<close>

record host_key =
  hk_secret :: secret
  hk_public :: octets

record session =
  se_input :: bool
  se_cancelled :: bool
  se_connected :: bool

record host =
  ho_key :: host_key
  ho_book :: pairing_book
  ho_active :: "(string \<times> nat \<times> route) list"
  ho_approvals :: approvals
  ho_sessions :: "session list"
  ho_stored :: "octets option"

record hello =
  he_host :: string
  he_grant :: string
  he_invitation :: bool

definition authorization_new :: "bool \<Rightarrow> session" where
  "authorization_new allow_input = \<lparr>se_input = allow_input, se_cancelled = False, se_connected = False\<rparr>"

definition is_active :: "session \<Rightarrow> bool" where
  "is_active s \<longleftrightarrow> \<not> se_cancelled s"

definition allow_input :: "session \<Rightarrow> bool" where
  "allow_input s \<longleftrightarrow> is_active s \<and> se_input s"

definition with_session :: "nat \<Rightarrow> (session \<Rightarrow> session) \<Rightarrow> host \<Rightarrow> host" where
  "with_session n f h = h\<lparr>ho_sessions := (ho_sessions h)[n := f (ho_sessions h ! n)]\<rparr>"

definition cancel_session :: "nat \<Rightarrow> host \<Rightarrow> host" where
  "cancel_session n = with_session n (\<lambda>s. s\<lparr>se_cancelled := True\<rparr>)"

definition set_input :: "bool \<Rightarrow> nat \<Rightarrow> host \<Rightarrow> host" where
  "set_input allow n = with_session n (\<lambda>s. s\<lparr>se_input := allow\<rparr>)"

definition mark_connected :: "nat \<Rightarrow> host \<Rightarrow> host" where
  "mark_connected n = with_session n (\<lambda>s. s\<lparr>se_connected := True\<rparr>)"

definition host_new :: "host_key \<Rightarrow> host" where
  "host_new k = \<lparr>ho_key = k, ho_book = book_default, ho_active = [], ho_approvals = approvals_default, ho_sessions = [], ho_stored = None\<rparr>"

definition host_encode :: "codec \<Rightarrow> host_json \<Rightarrow> host \<Rightarrow> io_error + octets" where
  "host_encode C J h = (case export_devices C J (ho_book h) of
     Inl e \<Rightarrow> Inl (Io_Link e)
   | Inr devices \<Rightarrow>
       if \<not> utf8_valid devices then Inl Io_Invalid
       else (case js_write_saved J \<lparr>sv_version = 2, sv_private_key = expose_encoded C (hk_secret (ho_key h)),
                    sv_public_key = b64_encode C (hk_public (ho_key h)), sv_devices = devices\<rparr> of
               None \<Rightarrow> Inl Io_Invalid
             | Some bytes \<Rightarrow> Inr bytes))"

definition host_restore :: "codec \<Rightarrow> host_json \<Rightarrow> octets \<Rightarrow> io_error + host" where
  "host_restore C J bytes =
     (if 48 * 1024 < length bytes then Inl Io_Invalid
      else (case js_read_saved J bytes of
              None \<Rightarrow> Inl Io_Invalid
            | Some saved \<Rightarrow>
                if sv_version saved \<noteq> 2 then Inl Io_Invalid
                else (case b64_decode C (sv_public_key saved) of
                        None \<Rightarrow> Inl Io_Invalid
                      | Some public \<Rightarrow>
                          if length public \<noteq> 32 then Inl Io_Invalid
                          else (case secret_decode C (sv_private_key saved) of
                                  None \<Rightarrow> Inl Io_Invalid
                                | Some private \<Rightarrow>
                                    (case restore_devices C J (sv_devices saved) of
                                       Inl _ \<Rightarrow> Inl Io_Invalid
                                     | Inr book \<Rightarrow> Inr ((host_new \<lparr>hk_secret = private, hk_public = public\<rparr>)\<lparr>ho_book := book\<rparr>))))))"

definition host_issue ::
    "codec \<Rightarrow> host_json \<Rightarrow> access_library \<Rightarrow> relay_access \<Rightarrow> uchar list \<Rightarrow> bool \<Rightarrow> nat \<Rightarrow> secret option \<Rightarrow> secret option \<Rightarrow> host
      \<Rightarrow> (io_error + string) \<times> host" where
  "host_issue C J A access name allow now fresh fresh_id h = (case validate_access C A access of
     Inl e \<Rightarrow> (Inl e, h)
   | Inr _ \<Rightarrow>
       if bad_name name then (Inl Io_Invalid, h)
       else (case book_issue C now allow fresh fresh_id (ho_book h) of
               (Inl e, book) \<Rightarrow> (Inl (Io_Link e), h\<lparr>ho_book := book\<rparr>)
             | (Inr issued, book) \<Rightarrow>
                 (Inr (js_offer J \<lparr>of_url = ra_url access, of_room = ra_room access, of_token = ra_mobile_token access,
                    of_tls_pin = ra_tls_pin access, of_name = name, of_host = b64_encode C (hk_public (ho_key h)),
                    of_grant = iv_id issued, of_secret = expose_encoded C (iv_secret issued), of_expires_at = iv_expires_at issued\<rparr>),
                  h\<lparr>ho_book := book\<rparr>)))"

definition cancel_invitation :: "string \<Rightarrow> host \<Rightarrow> host" where
  "cancel_invitation key h = h\<lparr>ho_book := book_cancel key (ho_book h),
     ho_approvals := approval_cancel_invitation key (ho_approvals h)\<rparr>"

definition invitation_valid :: "string \<Rightarrow> nat \<Rightarrow> host \<Rightarrow> bool" where
  "invitation_valid key now h \<longleftrightarrow> (case invitation_secret key now (ho_book h) of Inl _ \<Rightarrow> False | Inr _ \<Rightarrow> True)"

definition pairing_requests :: "nat \<Rightarrow> host \<Rightarrow> pairing_request list" where
  "pairing_requests now h = snapshots now (ho_approvals h)"

definition decide_pairing :: "string \<Rightarrow> bool option \<Rightarrow> nat \<Rightarrow> host \<Rightarrow> (io_error + unit) \<times> host" where
  "decide_pairing key allow now h =
     (let invitation = approval_invitation key (ho_approvals h);
          (r, as) = decide key allow now (ho_approvals h);
          h = h\<lparr>ho_approvals := as\<rparr>
      in case r of
           Inl e \<Rightarrow> (Inl e, h)
         | Inr _ \<Rightarrow>
             (Inr (), if allow = None
                then (case invitation of None \<Rightarrow> h | Some i \<Rightarrow> cancel_invitation i h)
                else h))"

definition request_pairing ::
    "codec \<Rightarrow> hello \<Rightarrow> uchar list \<Rightarrow> route \<Rightarrow> string option \<Rightarrow> string \<Rightarrow> nat \<Rightarrow> secret option \<Rightarrow> host \<Rightarrow> (io_error + string) \<times> host" where
  "request_pairing C hello name via from_peer code now fresh_id h = (case invitation_secret (he_grant hello) now (ho_book h) of
     Inl _ \<Rightarrow> (Inl Io_Authentication, h)
   | Inr _ \<Rightarrow>
       (let (r, as) = approval_request C (he_grant hello) name via from_peer code (min (now + 120) (2 ^ 64 - 1)) fresh_id (ho_approvals h)
        in (r, h\<lparr>ho_approvals := as\<rparr>)))"

definition cancel_pairing :: "string \<Rightarrow> host \<Rightarrow> host" where
  "cancel_pairing key h = h\<lparr>ho_approvals := approval_cancel key (ho_approvals h)\<rparr>"

text \<open>\<open>context\<close> binds a handshake to the host, the grant and the link; \<open>noise_responder\<close> is the library.\<close>

definition link_context :: "string \<Rightarrow> string \<Rightarrow> bool \<Rightarrow> string \<Rightarrow> io_error + string" where
  "link_context host grant invitation epoch =
     (if \<not> list_all valid_id [host, grant, epoch] then Inl Io_Invalid
      else Inr (concat [''pebrel.mobile.v2'', [CHR 0x0A], host, [CHR 0x0A], grant, [CHR 0x0A],
        if invitation then ''invite'' else ''device'', [CHR 0x0A], epoch]))"

definition host_handshake ::
    "codec \<Rightarrow> (host_key \<Rightarrow> secret \<Rightarrow> string \<Rightarrow> 'c option) \<Rightarrow> hello \<Rightarrow> string \<Rightarrow> nat \<Rightarrow> host \<Rightarrow> io_error + 'c" where
  "host_handshake C responder hello epoch now h =
     (if he_host hello \<noteq> b64_encode C (hk_public (ho_key h)) then Inl Io_Authentication
      else (case (if he_invitation hello then (case invitation_secret (he_grant hello) now (ho_book h) of Inl _ \<Rightarrow> None | Inr s \<Rightarrow> Some s)
                  else map_option dg_secret (map_of (bk_devices (ho_book h)) (he_grant hello))) of
              None \<Rightarrow> Inl Io_Authentication
            | Some s \<Rightarrow>
                (case link_context (he_host hello) (he_grant hello) (he_invitation hello) epoch of
                   Inl e \<Rightarrow> Inl e
                 | Inr ctx \<Rightarrow> (case responder (ho_key h) s ctx of None \<Rightarrow> Inl Io_Authentication | Some c \<Rightarrow> Inr c))))"

datatype enrolment = Secure_Enrolled string string | Secure_Accepted string

text \<open>Storing the state: the callback may refuse.\<close>

definition persist_host :: "(octets \<Rightarrow> bool) \<Rightarrow> octets \<Rightarrow> host \<Rightarrow> host option" where
  "persist_host persist bytes h = (if persist bytes then Some (h\<lparr>ho_stored := Some bytes\<rparr>) else None)"

text \<open>The first half of \<open>enroll\<close>: a phone with an invitation becomes a device, another one must be one.\<close>

definition admit ::
    "codec \<Rightarrow> host_json \<Rightarrow> hello \<Rightarrow> uchar list \<Rightarrow> nat \<Rightarrow> (octets \<Rightarrow> bool) \<Rightarrow> string option \<Rightarrow> secret option \<Rightarrow> secret option \<Rightarrow> host
      \<Rightarrow> ((io_error + enrolment \<times> bool \<times> string) \<times> host) option" where
  "admit C J hello name now persist approval fresh fresh_id h =
     (if \<not> he_invitation hello
      then (case map_of (bk_devices (ho_book h)) (he_grant hello) of
              None \<Rightarrow> Some (Inl Io_Authentication, h)
            | Some g \<Rightarrow> Some (Inr (Secure_Accepted (dg_id g), dg_allow_input g, dg_id g), h))
      else (case approval of
              None \<Rightarrow> Some (Inl Io_Authentication, h)
            | Some ticket \<Rightarrow>
                (case take_approved ticket (he_grant hello) name now (ho_approvals h) of
                   (Inl e, as) \<Rightarrow> Some (Inl e, h\<lparr>ho_approvals := as\<rparr>)
                 | (Inr allow, as) \<Rightarrow> do {
                     let h = h\<lparr>ho_approvals := as\<rparr>;
                     (r, book) \<leftarrow> approve_authenticated C (he_grant hello) name now fresh fresh_id (ho_book h);
                     (case r of
                        Inl _ \<Rightarrow> Some (Inl Io_Authentication, h\<lparr>ho_book := book\<rparr>)
                      | Inr grant \<Rightarrow>
                          (let key = dg_id grant;
                               h = h\<lparr>ho_book := snd (set_book_permission key allow book)\<rparr>
                           in case host_encode C J h of
                                Inl e \<Rightarrow> Some (Inl e, h)
                              | Inr bytes \<Rightarrow>
                                  (case persist_host persist bytes h of
                                     None \<Rightarrow> Some (Inl Io_Persist, h\<lparr>ho_book := snd (book_revoke key (ho_book h))\<rparr>)
                                   | Some h \<Rightarrow> Some (Inr (Secure_Enrolled key (expose_encoded C (dg_secret grant)), allow, key), h))))
                   })))"

text \<open>The second half of \<open>enroll\<close>: a new session, unless a relay connection would displace a local one.\<close>

definition open_session :: "enrolment \<Rightarrow> bool \<Rightarrow> string \<Rightarrow> route \<Rightarrow> host \<Rightarrow> (io_error + enrolment \<times> bool \<times> nat) \<times> host" where
  "open_session response allow key via h =
     (if (case map_of (ho_active h) key of
            None \<Rightarrow> False
          | Some (n, other) \<Rightarrow> via = Relay_Route \<and> other = Lan \<and> is_active (ho_sessions h ! n) \<and> se_connected (ho_sessions h ! n))
      then (Inl Io_Authentication, h)
      else (let n = length (ho_sessions h);
                previous = map_of (ho_active h) key;
                h = h\<lparr>ho_sessions := ho_sessions h @ [authorization_new allow], ho_active := AList.update key (n, via) (ho_active h)\<rparr>
            in (Inr (response, allow, n), case previous of None \<Rightarrow> h | Some (m, _) \<Rightarrow> cancel_session m h)))"

definition enroll ::
    "codec \<Rightarrow> host_json \<Rightarrow> hello \<Rightarrow> uchar list \<Rightarrow> nat \<Rightarrow> (octets \<Rightarrow> bool) \<Rightarrow> string option \<Rightarrow> route \<Rightarrow> secret option \<Rightarrow> secret option \<Rightarrow> host
      \<Rightarrow> ((io_error + enrolment \<times> bool \<times> nat) \<times> host) option" where
  "enroll C J hello name now persist approval via fresh fresh_id h = do {
     (r, h) \<leftarrow> admit C J hello name now persist approval fresh fresh_id h;
     Some (case r of
       Inl e \<Rightarrow> (Inl e, h)
     | Inr (response, allow, key) \<Rightarrow> open_session response allow key via h)
   }"

definition host_revoke :: "codec \<Rightarrow> host_json \<Rightarrow> string \<Rightarrow> (octets \<Rightarrow> bool) \<Rightarrow> host \<Rightarrow> (io_error + bool) \<times> host" where
  "host_revoke C J key persist h = (case host_encode C J h of
     Inl e \<Rightarrow> (Inl e, h)
   | Inr bytes \<Rightarrow>
       (case host_restore C J bytes of
          Inl e \<Rightarrow> (Inl e, h)
        | Inr replacement \<Rightarrow>
            (let (found, book) = book_revoke key (ho_book replacement)
             in if \<not> found then (Inr False, h)
                else (case host_encode C J (replacement\<lparr>ho_book := book\<rparr>) of
                        Inl e \<Rightarrow> (Inl e, h)
                      | Inr bytes \<Rightarrow>
                          (case persist_host persist bytes h of
                             None \<Rightarrow> (Inl Io_Persist, h)
                           | Some h \<Rightarrow>
                               (let active = map_of (ho_active h) key;
                                    h = h\<lparr>ho_book := snd (book_revoke key (ho_book h)), ho_active := AList.delete key (ho_active h)\<rparr>
                                in (Inr True, case active of None \<Rightarrow> h | Some (n, _) \<Rightarrow> cancel_session n h)))))))"

definition set_input_permission :: "codec \<Rightarrow> host_json \<Rightarrow> string \<Rightarrow> bool \<Rightarrow> (octets \<Rightarrow> bool) \<Rightarrow> host \<Rightarrow> (io_error + bool) \<times> host" where
  "set_input_permission C J key allow persist h = (case host_encode C J h of
     Inl e \<Rightarrow> (Inl e, h)
   | Inr bytes \<Rightarrow>
       (case host_restore C J bytes of
          Inl e \<Rightarrow> (Inl e, h)
        | Inr replacement \<Rightarrow>
            (let (found, book) = set_book_permission key allow (ho_book replacement)
             in if \<not> found then (Inr False, h)
                else (case host_encode C J (replacement\<lparr>ho_book := book\<rparr>) of
                        Inl e \<Rightarrow> (Inl e, h)
                      | Inr bytes \<Rightarrow>
                          (case persist_host persist bytes h of
                             None \<Rightarrow> (Inl Io_Persist, h)
                           | Some h \<Rightarrow>
                               (let h = h\<lparr>ho_book := snd (set_book_permission key allow (ho_book h))\<rparr>
                                in (Inr True, case map_of (ho_active h) key of None \<Rightarrow> h | Some (n, _) \<Rightarrow> set_input allow n h)))))))"

record device_summary =
  ds_id :: string
  ds_name :: "uchar list"
  ds_allow_input :: bool
  ds_connected :: bool
  ds_route :: "route option"

definition device_summary_of :: "host \<Rightarrow> device_grant \<Rightarrow> device_summary" where
  "device_summary_of h g =
     (let active = map_of (ho_active h) (dg_id g)
      in \<lparr>ds_id = dg_id g, ds_name = dg_name g, ds_allow_input = dg_allow_input g,
          ds_connected = (case active of None \<Rightarrow> False | Some (n, _) \<Rightarrow> is_active (ho_sessions h ! n) \<and> se_connected (ho_sessions h ! n)),
          ds_route = (case active of None \<Rightarrow> None | Some (n, via) \<Rightarrow> if is_active (ho_sessions h ! n) then Some via else None)\<rparr>)"

definition devices :: "host \<Rightarrow> device_summary list" where
  "devices h = sort_key ds_name (sort_key ds_id (map (device_summary_of h \<circ> snd) (bk_devices (ho_book h))))"

section \<open>The short code\<close>

record pairing_code =
  pc_code :: string
  pc_invitation :: string
  pc_grant :: string
  pc_attempts :: nat
  pc_consumed :: bool

definition eight_digits :: "nat \<Rightarrow> string" where
  "eight_digits n = map (\<lambda>k. char_of (48 + n div 10 ^ k mod 10)) [7, 6, 5, 4, 3, 2, 1, 0]"

text \<open>The loop draws until a value falls below the last multiple; the list holds the draws, \<open>None\<close> being a failure.\<close>

fun code_number :: "32 word option list \<Rightarrow> (io_error + nat) option" where
  "code_number [] = None"
| "code_number (None # draws) = Some (Inl (Io_Link Err_Random))"
| "code_number (Some w # draws) = (if unat w < 4200000000 then Some (Inr (unat w mod 100000000)) else code_number draws)"

definition pairing_code_new :: "string \<Rightarrow> string \<Rightarrow> 32 word option list \<Rightarrow> (io_error + pairing_code) option" where
  "pairing_code_new invitation grant draws = map_option (\<lambda>r. case r of
     Inl e \<Rightarrow> Inl e
   | Inr number \<Rightarrow> Inr \<lparr>pc_code = eight_digits number, pc_invitation = invitation, pc_grant = grant, pc_attempts = 0, pc_consumed = False\<rparr>)
     (code_number draws)"

definition visible_code :: "host \<Rightarrow> nat \<Rightarrow> pairing_code \<Rightarrow> string option" where
  "visible_code h now pc = (if \<not> pc_consumed pc \<and> pc_attempts pc < 5 \<and> invitation_valid (pc_grant pc) now h then Some (pc_code pc) else None)"

definition redeem :: "host_json \<Rightarrow> string \<Rightarrow> host \<Rightarrow> nat \<Rightarrow> pairing_code \<Rightarrow> (io_error + string) \<times> pairing_code" where
  "redeem J code h now pc =
     (if visible_code h now pc = None then (Inl Io_Authentication, pc)
      else (let pc = pc\<lparr>pc_attempts := pc_attempts pc + 1\<rparr>
            in if length code \<noteq> 8 \<or> code \<noteq> pc_code pc then (Inl Io_Authentication, pc)
               else (case js_grant J (pc_invitation pc) of
                       None \<Rightarrow> (Inl Io_Invalid, pc)
                     | Some grant \<Rightarrow> if grant \<noteq> Some (pc_grant pc) then (Inl Io_Invalid, pc)
                         else (Inr (pc_invitation pc), pc\<lparr>pc_consumed := True\<rparr>))))"

end
