(* ===== verification/Pairing_Codec.thy ===== *)
theory Pairing_Codec
  imports Pairing
begin

text \<open>
  Libraries that \<open>Pairing\<close> leaves open, as concrete functions: base64 with the URL alphabet and
  no padding, and a format in the place of JSON. They show that what is assumed of the libraries can hold.
\<close>

section \<open>Assumptions about the libraries\<close>

text \<open>
  What the code relies on in its libraries: base64 is invertible on 32 bytes, SHA-256 has 32 bytes, and JSON
  written for at most 32 well-formed devices is UTF-8 that fits the limits and is read back.
\<close>

definition is_scalar :: "uchar \<Rightarrow> bool" where
  "is_scalar c \<longleftrightarrow> c < 0x110000"

definition codec_ok :: "codec \<Rightarrow> bool" where
  "codec_ok C \<longleftrightarrow> (\<forall>s. length s = 32 \<longrightarrow> b64_decode C (b64_encode C s) = Some s \<and> length (b64_encode C s) = 43 \<and>
     valid_id (b64_encode C s)) \<and> (\<forall>s. length (sha256 C s) = 32)"

definition entry_ok :: "device_entry \<Rightarrow> bool" where
  "entry_ok e \<longleftrightarrow> valid_id (en_id e) \<and> \<not> bad_name (en_name e) \<and> list_all is_scalar (en_name e) \<and>
     length (en_secret e) = 43 \<and> valid_id (en_secret e)"

definition json_ok :: "host_json \<Rightarrow> bool" where
  "json_ok J \<longleftrightarrow>
     (\<forall>es. list_all entry_ok es \<and> length es \<le> MAX_DEVICES \<longrightarrow>
        (\<exists>bytes. js_write_devices J es = Some bytes \<and> js_read_devices J bytes = Some es \<and> length bytes \<le> 32 * 1024 \<and>
           utf8_valid bytes \<and>
           (\<forall>private public. length private = 43 \<and> valid_id private \<and> length public = 43 \<and> valid_id public \<longrightarrow>
              (let saved = \<lparr>sv_version = 2, sv_private_key = private, sv_public_key = public, sv_devices = bytes\<rparr>
               in \<exists>file. js_write_saved J saved = Some file \<and> js_read_saved J file = Some saved \<and> length file \<le> 48 * 1024)))) \<and>
     (\<forall>bytes es. js_read_devices J bytes = Some es \<longrightarrow> (\<forall>e \<in> set es. list_all is_scalar (en_name e)))"

section \<open>Base64\<close>

definition sextet_char :: "nat \<Rightarrow> char" where
  "sextet_char n = char_of (if n < 26 then n + 65 else if n < 52 then n + 71 else if n < 62 then n - 4 else if n = 62 then 45 else 95)"

definition char_sextet :: "char \<Rightarrow> nat option" where
  "char_sextet c = (let n = of_char c :: nat in
     if 65 \<le> n \<and> n \<le> 90 then Some (n - 65) else if 97 \<le> n \<and> n \<le> 122 then Some (n - 71)
     else if 48 \<le> n \<and> n \<le> 57 then Some (n + 4) else if n = 45 then Some 62 else if n = 95 then Some 63 else None)"

fun to_sextets :: "nat list \<Rightarrow> nat list" where
  "to_sextets [] = []"
| "to_sextets [a] = [a div 4, a mod 4 * 16]"
| "to_sextets [a, b] = [a div 4, a mod 4 * 16 + b div 16, b mod 16 * 4]"
| "to_sextets (a # b # c # rest) = a div 4 # (a mod 4 * 16 + b div 16) # (b mod 16 * 4 + c div 64) # c mod 64 # to_sextets rest"

fun from_sextets :: "nat list \<Rightarrow> nat list option" where
  "from_sextets [] = Some []"
| "from_sextets [x] = None"
| "from_sextets [x, y] = (if y mod 16 = 0 then Some [x * 4 + y div 16] else None)"
| "from_sextets [x, y, z] = (if z mod 4 = 0 then Some [x * 4 + y div 16, y mod 16 * 16 + z div 4] else None)"
| "from_sextets (x # y # z # w # rest) =
     map_option (\<lambda>bs. (x * 4 + y div 16) # (y mod 16 * 16 + z div 4) # (z mod 4 * 64 + w) # bs) (from_sextets rest)"

fun all_sextets :: "string \<Rightarrow> nat list option" where
  "all_sextets [] = Some []"
| "all_sextets (c # cs) = (case (char_sextet c, all_sextets cs) of (Some n, Some ns) \<Rightarrow> Some (n # ns) | _ \<Rightarrow> None)"

definition base64url :: codec where
  "base64url = \<lparr>b64_decode = (\<lambda>v. map_option (map word_of_nat) (Option.bind (all_sextets v) from_sextets)),
     b64_encode = (\<lambda>b. map sextet_char (to_sextets (map unat b))), sha256 = (\<lambda>b. take 32 (b @ replicate 32 0))\<rparr>"

lemma char_sextet_char [simp]: "n < 64 \<Longrightarrow> char_sextet (sextet_char n) = Some n"
  by (auto simp: char_sextet_def sextet_char_def Let_def)

lemma all_sextets_chars: "list_all (\<lambda>n. n < 64) ns \<Longrightarrow> all_sextets (map sextet_char ns) = Some ns"
  by (induction ns) auto

lemma valid_sextet: "n < 64 \<Longrightarrow> ascii_alphanumeric (sextet_char n) \<or> sextet_char n = CHR ''_'' \<or> sextet_char n = CHR ''-''"
proof -
  assume "n < 64"
  then consider "n < 62" | "n = 62" | "n = 63" by linarith
  then show ?thesis
  proof cases
    case 1
    then show ?thesis by (auto simp: ascii_alphanumeric_def sextet_char_def Let_def)
  next
    case 2
    moreover have "sextet_char 62 = CHR ''-''" by code_simp
    ultimately show ?thesis by simp
  next
    case 3
    moreover have "sextet_char 63 = CHR ''_''" by code_simp
    ultimately show ?thesis by simp
  qed
qed

lemma sextets_small: "list_all (\<lambda>n. n < 256) bs \<Longrightarrow> list_all (\<lambda>n. n < 64) (to_sextets bs)"
  by (induction bs rule: to_sextets.induct) (auto simp: div_less_iff_less_mult)

lemma sextets_back: "list_all (\<lambda>n. n < 256) bs \<Longrightarrow> from_sextets (to_sextets bs) = Some bs"
proof (induction bs rule: to_sextets.induct)
  case (4 a b c rest)
  have "a div 4 * 4 + (a mod 4 * 16 + b div 16) div 16 = a" "(a mod 4 * 16 + b div 16) mod 16 * 16 + (b mod 16 * 4 + c div 64) div 4 = b"
    "(b mod 16 * 4 + c div 64) mod 4 * 64 + c mod 64 = c"
    using 4(2) by auto
  then show ?case using 4 by simp
next
  case (3 a b)
  have "a div 4 * 4 + (a mod 4 * 16 + b div 16) div 16 = a" "(a mod 4 * 16 + b div 16) mod 16 * 16 + (b mod 16 * 4) div 4 = b"
    using 3 by auto
  then show ?case by simp
qed auto

lemma length_sextets: "length (to_sextets bs) = (length bs * 4 + 2) div 3"
  by (induction bs rule: to_sextets.induct) auto

lemma base64url_ok: "codec_ok base64url"
proof -
  have "b64_decode base64url (b64_encode base64url s) = Some s \<and> length (b64_encode base64url s) = 43 \<and> valid_id (b64_encode base64url s)"
    if s: "length s = 32" for s :: "8 word list"
  proof -
    have small: "list_all (\<lambda>n. n < 256) (map unat s)" using unsigned_less [of "_ :: 8 word"] by (auto simp: list_all_iff)
    have "list_all (\<lambda>n. n < 64) (to_sextets (map unat s))" by (rule sextets_small [OF small])
    moreover have "map word_of_nat (map unat s) = s" by (simp add: map_idI)
    moreover have "length (to_sextets (map unat s)) = 43" using s by (simp add: length_sextets)
    ultimately show ?thesis
      using sextets_back [OF small] valid_sextet by (auto simp: base64url_def all_sextets_chars valid_id_def list_all_iff)
  qed
  moreover have "length (sha256 base64url s) = 32" for s by (simp add: base64url_def min_def)
  ultimately show ?thesis by (simp add: codec_ok_def)
qed

section \<open>A format for the credential store\<close>

text \<open>
  An entry is the length and the characters of the identifier, the length of the name and three bytes for each of
  its characters, the permission, and the 43 characters of the secret. All bytes are below 128.
\<close>

definition byte_of :: "nat \<Rightarrow> 8 word" where
  "byte_of n = word_of_nat n"

definition chars_out :: "string \<Rightarrow> octets" where
  "chars_out = map (\<lambda>c. byte_of (of_char c))"

definition chars_in :: "octets \<Rightarrow> string" where
  "chars_in = map (\<lambda>b. char_of (unat b))"

definition name_out :: "uchar list \<Rightarrow> octets" where
  "name_out name = concat (map (\<lambda>c. [byte_of (c div 16384), byte_of (c div 128 mod 128), byte_of (c mod 128)]) name)"

fun name_in :: "nat \<Rightarrow> octets \<Rightarrow> (uchar list \<times> octets) option" where
  "name_in 0 bs = Some ([], bs)"
| "name_in (Suc n) (x # y # z # bs) = map_option (\<lambda>(cs, bs). ((unat x * 16384 + unat y * 128 + unat z) # cs, bs)) (name_in n bs)"
| "name_in (Suc n) bs = None"

definition entry_out :: "device_entry \<Rightarrow> octets" where
  "entry_out e = byte_of (length (en_id e)) # chars_out (en_id e) @ byte_of (length (en_name e) div 128) # byte_of (length (en_name e) mod 128) #
     name_out (en_name e) @ byte_of (if en_allow_input e then 1 else 0) # chars_out (en_secret e)"

definition entry_in :: "octets \<Rightarrow> (device_entry \<times> octets) option" where
  "entry_in bs = (case bs of
     [] \<Rightarrow> None
   | n # bs \<Rightarrow>
       (case drop (unat n) bs of
          h # l # cs \<Rightarrow>
            (case name_in (unat h * 128 + unat l) cs of
               Some (name, b # ds) \<Rightarrow>
                 Some (\<lparr>en_id = chars_in (take (unat n) bs), en_name = name, en_allow_input = (b = 1), en_secret = chars_in (take 43 ds)\<rparr>, drop 43 ds)
             | _ \<Rightarrow> None)
        | _ \<Rightarrow> None))"

fun entries_in :: "nat \<Rightarrow> octets \<Rightarrow> device_entry list option" where
  "entries_in 0 bs = (if bs = [] then Some [] else None)"
| "entries_in (Suc n) bs = (if bs = [] then Some []
     else (case entry_in bs of None \<Rightarrow> None | Some (e, bs) \<Rightarrow> map_option (Cons e) (entries_in n bs)))"

definition plain_format :: host_json where
  "plain_format =
     \<lparr>js_write_devices = (\<lambda>es. Some (concat (map entry_out es))),
      js_read_devices = (\<lambda>bs. case entries_in (length bs) bs of
         None \<Rightarrow> None
       | Some es \<Rightarrow> if list_all (\<lambda>e. list_all is_scalar (en_name e)) es then Some es else None),
      js_write_saved = (\<lambda>s. Some (byte_of (sv_version s) # chars_out (sv_private_key s) @ chars_out (sv_public_key s) @ sv_devices s)),
      js_read_saved = (\<lambda>bs. case bs of
         [] \<Rightarrow> None
       | v # cs \<Rightarrow> Some \<lparr>sv_version = unat v, sv_private_key = chars_in (take 43 cs), sv_public_key = chars_in (take 43 (drop 43 cs)),
           sv_devices = drop 86 cs\<rparr>),
      js_offer = of_grant, js_grant = (\<lambda>s. Some (Some s))\<rparr>"

lemma unat_byte [simp]: "n < 256 \<Longrightarrow> unat (byte_of n) = n"
  by (simp add: byte_of_def unat_of_nat)

lemma valid_id_bytes: "valid_id v \<Longrightarrow> c \<in> set v \<Longrightarrow> of_char c < (128 :: nat)"
  by (auto simp: valid_id_def ascii_alphanumeric_def Let_def)

lemma valid_id_length: "valid_id v \<Longrightarrow> length v \<le> 64"
  by (simp add: valid_id_def)

lemma length_chars [simp]: "length (chars_out v) = length v"
  by (simp add: chars_out_def)

lemma chars_back [simp]: "chars_in (chars_out v) = v"
  by (simp add: chars_in_def chars_out_def map_idI)

lemma name_back: "list_all is_scalar name \<Longrightarrow> name_in (length name) (name_out name @ bs) = Some (name, bs)"
proof (induction name)
  case (Cons c name)
  then have c: "c div 16384 < 256" by (simp add: is_scalar_def div_less_iff_less_mult)
  have "c div 16384 * 16384 + c div 128 mod 128 * 128 + c mod 128 = c"
  proof -
    have "c div 16384 = c div 128 div 128" by (simp add: div_mult2_eq [symmetric])
    then have "c div 16384 * 16384 + c div 128 mod 128 * 128 = c div 128 * 128"
      using div_mult_mod_eq [of "c div 128" 128] by linarith
    then show ?thesis by simp
  qed
  then show ?case using Cons c by (simp add: name_out_def)
qed (simp add: name_out_def)

lemma name_length: "length (name_out name) = 3 * length name"
  by (induction name) (simp_all add: name_out_def)

lemma name_fits: "\<not> bad_name name \<Longrightarrow> length name \<le> 160"
proof -
  have "length name \<le> text_bytes name" by (induction name) (auto simp: text_bytes_def utf8_len_def)
  then show "\<not> bad_name name \<Longrightarrow> length name \<le> 160" by (simp add: bad_name_def)
qed

lemma entry_back:
  assumes "entry_ok e"
  shows "entry_in (entry_out e @ bs) = Some (e, bs)"
proof -
  have "length (en_id e) < 256" "length (en_name e) < 256"
    using assms valid_id_length [of "en_id e"] name_fits [of "en_name e"] by (simp_all add: entry_ok_def)
  moreover have "byte_of 1 = 1" "byte_of 0 \<noteq> 1" by (simp_all add: byte_of_def)
  ultimately show ?thesis
    using assms by (cases e) (simp add: entry_in_def entry_out_def entry_ok_def name_back)
qed

lemma entry_length: "entry_ok e \<Longrightarrow> length (entry_out e) \<le> 591 \<and> 1 \<le> length (entry_out e)"
  using valid_id_length [of "en_id e"] name_fits [of "en_name e"] by (simp add: entry_out_def entry_ok_def name_length)

lemma entries_back: "list_all entry_ok es \<Longrightarrow> length es \<le> n \<Longrightarrow> entries_in n (concat (map entry_out es)) = Some es"
proof (induction es arbitrary: n)
  case Nil
  then show ?case by (cases n) auto
next
  case (Cons e es)
  then obtain m where "n = Suc m" "length es \<le> m" by (cases n) auto
  then show ?case using Cons entry_back [of e] by (auto simp: entry_out_def)
qed

lemma entries_length: "list_all entry_ok es \<Longrightarrow> length es \<le> length (concat (map entry_out es)) \<and> length (concat (map entry_out es)) \<le> 591 * length es"
proof (induction es)
  case (Cons e es)
  then show ?case using entry_length [of e] by auto
qed simp

lemma ascii_utf8: "list_all (\<lambda>b. b < 128) bs \<Longrightarrow> utf8_valid bs"
  by (induction bs) auto

lemma byte_small: "n < 128 \<Longrightarrow> byte_of n < 128"
  by (simp add: word_less_nat_alt)

lemma entry_ascii: "entry_ok e \<Longrightarrow> list_all (\<lambda>b. b < 128) (entry_out e)"
  using valid_id_length [of "en_id e"] name_fits [of "en_name e"] valid_id_bytes [of "en_id e"] valid_id_bytes [of "en_secret e"]
  by (auto simp: entry_out_def entry_ok_def name_out_def chars_out_def list_all_iff is_scalar_def intro!: byte_small)

lemma plain_format_ok: "json_ok plain_format"
  unfolding json_ok_def
proof (intro conjI allI impI)
  fix es assume es: "list_all entry_ok es \<and> length es \<le> MAX_DEVICES"
  let ?bs = "concat (map entry_out es)"
  have "list_all (\<lambda>e. list_all is_scalar (en_name e)) es" using es by (auto simp: list_all_iff entry_ok_def)
  moreover have "entries_in (length ?bs) ?bs = Some es" using es entries_length [of es] entries_back by blast
  moreover have len: "length ?bs \<le> 32 * 1024" using es entries_length [of es] by auto
  moreover have "utf8_valid ?bs" using es entry_ascii by (intro ascii_utf8) (auto simp: list_all_iff)
  ultimately show "\<exists>bytes. js_write_devices plain_format es = Some bytes \<and> js_read_devices plain_format bytes = Some es \<and> length bytes \<le> 32 * 1024 \<and>
      utf8_valid bytes \<and> (\<forall>private public. length private = 43 \<and> valid_id private \<and> length public = 43 \<and> valid_id public \<longrightarrow>
        (let saved = \<lparr>sv_version = 2, sv_private_key = private, sv_public_key = public, sv_devices = bytes\<rparr>
         in \<exists>bs. js_write_saved plain_format saved = Some bs \<and> js_read_saved plain_format bs = Some saved \<and> length bs \<le> 48 * 1024))"
    by (intro exI [of _ ?bs]) (simp add: plain_format_def)
qed (auto simp: plain_format_def list_all_iff split: option.splits if_splits)

end
