(* ===== verification/Pairing_Host.thy ===== *)
theory Pairing_Host
  imports Pairing_Codec
begin

text \<open>
  The desktop that grants access as a machine (\<open>Pairing\<close>): what holds in every state its calls can reach.
\<close>

section \<open>The desktop as a machine\<close>

text \<open>
  Besides the state of the host the system records all identifiers generated so far, the
  decisions of the user, and which ticket and invitation each new device came from.
\<close>

record pairing_system =
  ps_host :: host
  ps_ids :: "string set"
  ps_restored :: "string set"
  ps_decided :: "(string \<times> string \<times> uchar list \<times> bool) set"
  ps_enrolled :: "(string \<times> string \<times> string) set"

datatype pairing_call =
    Issue relay_access "uchar list" bool nat "secret option" "secret option"
  | Cancel_Invitation string
  | Request hello "uchar list" route "string option" string nat "secret option"
  | Cancel_Request string
  | Stop_Waiting string
  | Decide string "bool option" nat
  | Enroll hello "uchar list" nat "octets \<Rightarrow> bool" "string option" route "secret option" "secret option"
  | Revoke string "octets \<Rightarrow> bool"
  | Permit string bool "octets \<Rightarrow> bool"
  | Mark_Connected nat
  | Leave nat

definition new_id :: "codec \<Rightarrow> secret option \<Rightarrow> string set" where
  "new_id C r = (case r of None \<Rightarrow> {} | Some s \<Rightarrow> {secret_hash C s})"

text \<open>What the user grants by an answer: the answer itself, for the request shown, when it is open.\<close>

definition decision_of :: "string \<Rightarrow> bool option \<Rightarrow> nat \<Rightarrow> host \<Rightarrow> (string \<times> string \<times> uchar list \<times> bool) set" where
  "decision_of key allow now h = (case (map_of (as_pending (ho_approvals h)) key, allow) of
     (Some p, Some b) \<Rightarrow>
       if ap_decision p \<and> now < pr_expires_at (ap_summary p) then {(key, ap_invitation p, pr_name (ap_summary p), b)} else {}
   | _ \<Rightarrow> {})"

definition enrolment_of :: "hello \<Rightarrow> string option \<Rightarrow> io_error + enrolment \<times> bool \<times> nat \<Rightarrow> (string \<times> string \<times> string) set" where
  "enrolment_of hello approval r = (case (r, approval) of
     (Inr (Secure_Enrolled key _, _, _), Some ticket) \<Rightarrow> {(key, ticket, he_grant hello)}
   | _ \<Rightarrow> {})"

primrec pairing_step :: "codec \<Rightarrow> host_json \<Rightarrow> access_library \<Rightarrow> pairing_call \<Rightarrow> pairing_system \<Rightarrow> pairing_system option" where
  "pairing_step C J A (Issue access name allow now fresh fresh_id) sy =
     Some (sy\<lparr>ps_host := snd (host_issue C J A access name allow now fresh fresh_id (ps_host sy)), ps_ids := ps_ids sy \<union> new_id C fresh_id\<rparr>)"
| "pairing_step C J A (Cancel_Invitation key) sy = Some (sy\<lparr>ps_host := cancel_invitation key (ps_host sy)\<rparr>)"
| "pairing_step C J A (Request hello name via from_peer code now fresh_id) sy =
     Some (sy\<lparr>ps_host := snd (request_pairing C hello name via from_peer code now fresh_id (ps_host sy)), ps_ids := ps_ids sy \<union> new_id C fresh_id\<rparr>)"
| "pairing_step C J A (Cancel_Request key) sy = Some (sy\<lparr>ps_host := cancel_pairing key (ps_host sy)\<rparr>)"
| "pairing_step C J A (Stop_Waiting key) sy = Some (sy\<lparr>ps_host := (ps_host sy)\<lparr>ho_approvals :=
     (ho_approvals (ps_host sy))\<lparr>as_waiting := as_waiting (ho_approvals (ps_host sy)) - {key}\<rparr>\<rparr>\<rparr>)"
| "pairing_step C J A (Decide key allow now) sy =
     Some (sy\<lparr>ps_host := snd (decide_pairing key allow now (ps_host sy)),
       ps_decided := ps_decided sy \<union> decision_of key allow now (ps_host sy)\<rparr>)"
| "pairing_step C J A (Enroll hello name now persist approval via fresh fresh_id) sy = do {
     (r, h) \<leftarrow> enroll C J hello name now persist approval via fresh fresh_id (ps_host sy);
     Some (sy\<lparr>ps_host := h, ps_ids := ps_ids sy \<union> new_id C fresh_id, ps_enrolled := ps_enrolled sy \<union> enrolment_of hello approval r\<rparr>)
   }"
| "pairing_step C J A (Revoke key persist) sy = Some (sy\<lparr>ps_host := snd (host_revoke C J key persist (ps_host sy))\<rparr>)"
| "pairing_step C J A (Permit key allow persist) sy = Some (sy\<lparr>ps_host := snd (set_input_permission C J key allow persist (ps_host sy))\<rparr>)"
| "pairing_step C J A (Mark_Connected n) sy = Some (sy\<lparr>ps_host := mark_connected n (ps_host sy)\<rparr>)"
| "pairing_step C J A (Leave n) sy = Some (sy\<lparr>ps_host := cancel_session n (ps_host sy)\<rparr>)"

text \<open>Random secrets have 32 bytes, their hashes are new, and names consist of scalar values.\<close>

definition random_ok :: "secret option \<Rightarrow> bool" where
  "random_ok r \<longleftrightarrow> (\<forall>s. r = Some s \<longrightarrow> length s = 32)"

primrec pairing_guard :: "codec \<Rightarrow> pairing_call \<Rightarrow> pairing_system \<Rightarrow> bool" where
  "pairing_guard C (Issue access name allow now fresh fresh_id) sy \<longleftrightarrow> random_ok fresh \<and> random_ok fresh_id \<and> new_id C fresh_id \<inter> ps_ids sy = {}"
| "pairing_guard C (Cancel_Invitation key) sy \<longleftrightarrow> True"
| "pairing_guard C (Request hello name via from_peer code now fresh_id) sy \<longleftrightarrow> random_ok fresh_id \<and> new_id C fresh_id \<inter> ps_ids sy = {}"
| "pairing_guard C (Cancel_Request key) sy \<longleftrightarrow> True"
| "pairing_guard C (Stop_Waiting key) sy \<longleftrightarrow> True"
| "pairing_guard C (Decide key allow now) sy \<longleftrightarrow> True"
| "pairing_guard C (Enroll hello name now persist approval via fresh fresh_id) sy \<longleftrightarrow>
     random_ok fresh \<and> random_ok fresh_id \<and> new_id C fresh_id \<inter> ps_ids sy = {} \<and> list_all is_scalar name"
| "pairing_guard C (Revoke key persist) sy \<longleftrightarrow> True"
| "pairing_guard C (Permit key allow persist) sy \<longleftrightarrow> True"
| "pairing_guard C (Mark_Connected n) sy \<longleftrightarrow> n < length (ho_sessions (ps_host sy))"
| "pairing_guard C (Leave n) sy \<longleftrightarrow> n < length (ho_sessions (ps_host sy))"

text \<open>The service starts with a new key, or with what the credential store holds.\<close>

definition system_of :: "host \<Rightarrow> pairing_system" where
  "system_of h = \<lparr>ps_host = h, ps_ids = fst ` set (bk_devices (ho_book h)), ps_restored = fst ` set (bk_devices (ho_book h)),
     ps_decided = {}, ps_enrolled = {}\<rparr>"

definition pairing_start :: "codec \<Rightarrow> host_json \<Rightarrow> pairing_system \<Rightarrow> bool" where
  "pairing_start C J sy \<longleftrightarrow> codec_ok C \<and> json_ok J \<and>
     ((\<exists>k. length (hk_secret k) = 32 \<and> length (hk_public k) = 32 \<and> sy = system_of (host_new k)) \<or>
      (\<exists>bytes h. host_restore C J bytes = Inr h \<and> sy = system_of (h\<lparr>ho_stored := Some bytes\<rparr>)))"

section \<open>Invariants\<close>

definition book_ok :: "pairing_book \<Rightarrow> bool" where
  "book_ok b \<longleftrightarrow> distinct (map fst (bk_pending b)) \<and> distinct (map fst (bk_devices b)) \<and>
     (\<forall>k g. map_of (bk_devices b) k = Some g \<longrightarrow> dg_id g = k \<and> valid_id k \<and> \<not> bad_name (dg_name g) \<and>
        list_all is_scalar (dg_name g) \<and> length (dg_secret g) = 32) \<and>
     (\<forall>k p. map_of (bk_pending b) k = Some p \<longrightarrow> pi_expires_at p = pi_issued_at p + INVITATION_TTL) \<and>
     length (bk_devices b) + length (bk_pending b) \<le> MAX_DEVICES"

definition approvals_ok :: "approvals \<Rightarrow> bool" where
  "approvals_ok as \<longleftrightarrow> distinct (map fst (as_pending as)) \<and> length (as_pending as) \<le> 8 \<and>
     (\<forall>k p. map_of (as_pending as) k = Some p \<longrightarrow> pr_id (ap_summary p) = k \<and> (ap_allowed_input p \<noteq> None \<longrightarrow> \<not> ap_decision p)) \<and>
     (\<forall>k k' p p'. map_of (as_pending as) k = Some p \<longrightarrow> map_of (as_pending as) k' = Some p' \<longrightarrow>
        ap_invitation p = ap_invitation p' \<longrightarrow> k = k')"

definition sessions_ok :: "host \<Rightarrow> bool" where
  "sessions_ok h \<longleftrightarrow>
     (\<forall>k n via. map_of (ho_active h) k = Some (n, via) \<longrightarrow> n < length (ho_sessions h) \<and>
        (\<exists>g. map_of (bk_devices (ho_book h)) k = Some g \<and> se_input (ho_sessions h ! n) = dg_allow_input g)) \<and>
     (\<forall>k k' n via via'. map_of (ho_active h) k = Some (n, via) \<longrightarrow> map_of (ho_active h) k' = Some (n, via') \<longrightarrow> k = k') \<and>
     (\<forall>n < length (ho_sessions h). is_active (ho_sessions h ! n) \<longrightarrow> (\<exists>k via. map_of (ho_active h) k = Some (n, via)))"

definition stored_ok :: "codec \<Rightarrow> host_json \<Rightarrow> host \<Rightarrow> bool" where
  "stored_ok C J h \<longleftrightarrow> length (hk_secret (ho_key h)) = 32 \<and> length (hk_public (ho_key h)) = 32 \<and>
     (case ho_stored h of
        None \<Rightarrow> bk_devices (ho_book h) = []
      | Some bytes \<Rightarrow> \<exists>h'. host_restore C J bytes = Inr h' \<and> ho_key h' = ho_key h \<and> bk_devices (ho_book h') = bk_devices (ho_book h))"

text \<open>
  Where things come from: \<open>P\<close> are the identifiers of the open invitations, \<open>D\<close> the devices, \<open>Q\<close> the requests.
  An approval that was recorded is a decision of the user, a redeemed invitation and its ticket are gone
  and served one device only, and every device was there from the start or stems from a decision.
\<close>

definition traced ::
    "string set \<Rightarrow> (string \<Rightarrow> device_grant option) \<Rightarrow> (string \<Rightarrow> approval option) \<Rightarrow> string set \<Rightarrow> string set
      \<Rightarrow> (string \<times> string \<times> uchar list \<times> bool) set \<Rightarrow> (string \<times> string \<times> string) set \<Rightarrow> bool" where
  "traced P D Q ids restored decided enrolled \<longleftrightarrow>
     P \<union> dom D \<union> dom Q \<subseteq> ids \<and>
     (\<forall>t p allow. Q t = Some p \<longrightarrow> ap_allowed_input p = Some allow \<longrightarrow> (t, ap_invitation p, pr_name (ap_summary p), allow) \<in> decided) \<and>
     (\<forall>d t i. (d, t, i) \<in> enrolled \<longrightarrow> d \<in> ids \<and> t \<in> ids - dom Q \<and> i \<in> ids - P) \<and>
     (\<forall>d t i d' t' i'. (d, t, i) \<in> enrolled \<longrightarrow> (d', t', i') \<in> enrolled \<longrightarrow> d = d' \<or> t = t' \<or> i = i' \<longrightarrow> d = d' \<and> t = t' \<and> i = i') \<and>
     (\<forall>d g. D d = Some g \<longrightarrow> d \<in> restored \<or> (\<exists>t i allow. (d, t, i) \<in> enrolled \<and> (t, i, dg_name g, allow) \<in> decided))"

definition traced_ok :: "pairing_system \<Rightarrow> bool" where
  "traced_ok sy \<longleftrightarrow> traced (dom (map_of (bk_pending (ho_book (ps_host sy))))) (map_of (bk_devices (ho_book (ps_host sy))))
     (map_of (as_pending (ho_approvals (ps_host sy)))) (ps_ids sy) (ps_restored sy) (ps_decided sy) (ps_enrolled sy)"

definition pairing_ok :: "codec \<Rightarrow> host_json \<Rightarrow> pairing_system \<Rightarrow> bool" where
  "pairing_ok C J sy \<longleftrightarrow> codec_ok C \<and> json_ok J \<and> book_ok (ho_book (ps_host sy)) \<and> approvals_ok (ho_approvals (ps_host sy)) \<and>
     sessions_ok (ps_host sy) \<and> stored_ok C J (ps_host sy) \<and> traced_ok sy"

section \<open>Association lists and single operations\<close>

lemmas alist_simps = update_conv' delete_conv'

lemma update_fresh: "map_of al k = None \<Longrightarrow> AList.update k v al = al @ [(k, v)]"
  by (induction al) (auto split: if_splits)

lemma length_update: "length (AList.update k v al) = (if map_of al k = None then length al + 1 else length al)"
  by (induction al) auto

lemma length_delete: "distinct (map fst al) \<Longrightarrow> length (AList.delete k al) = (if map_of al k = None then length al else length al - 1)"
  by (subst (1 2 3) length_map [of fst, symmetric], simp only: delete_keys)
    (simp add: distinct_remove1_removeAll [symmetric] length_remove1 map_of_eq_None_iff)

lemma delete_update_fresh: "map_of al k = None \<Longrightarrow> AList.delete k (AList.update k v al) = al"
  by (simp add: delete_update_same map_of_eq_None_iff)

lemma map_of_filter_values:
  assumes "distinct (map fst al)"
  shows "map_of (filter (\<lambda>(_, v). P v) al) k = (case map_of al k of None \<Rightarrow> None | Some v \<Rightarrow> if P v then Some v else None)"
  using assms by (induction al) (auto simp: map_of_eq_None_iff image_iff split: option.splits)

lemma map_of_insort: "map_of al k = None \<Longrightarrow> map_of (insort_key fst (k, v) al) = (map_of al)(k \<mapsto> v)"
  by (induction al) (auto simp: fun_eq_iff split: if_splits)

lemma distinct_keys_insort: "map_of al k = None \<Longrightarrow> distinct (map fst al) \<Longrightarrow> distinct (map fst (insort_key fst (k, v) al))"
  by (induction al) (auto simp: map_of_eq_None_iff set_insort_key split: if_splits)

lemma distinct_keys_filter: "distinct (map fst al) \<Longrightarrow> distinct (map fst (filter P al))"
  by (simp add: distinct_map_filter)

lemma secret_decode_encode: "codec_ok C \<Longrightarrow> length s = 32 \<Longrightarrow> secret_decode C (b64_encode C s) = Some s"
  by (auto simp: codec_ok_def secret_decode_def)

lemma hash_valid: "codec_ok C \<Longrightarrow> valid_id (secret_hash C s) \<and> length (secret_hash C s) = 43"
  by (simp add: codec_ok_def secret_hash_def)


lemma new_id_simps [simp]: "new_id C None = {}" "new_id C (Some s) = {secret_hash C s}"
  by (simp_all add: new_id_def)

lemma insert_pending_ok:
  assumes "book_ok b" "length (bk_devices b) + length (bk_pending b) < MAX_DEVICES" "pi_expires_at p = pi_issued_at p + INVITATION_TTL"
  shows "book_ok (b\<lparr>bk_pending := AList.update k p (bk_pending b)\<rparr>)"
  using assms by (simp add: book_ok_def alist_simps distinct_update length_update del: map_of_eq_Some_iff)

lemma book_issue_ok:
  assumes "book_ok b"
  shows "book_ok (snd (book_issue C now allow fresh fresh_id b)) \<and> bk_devices (snd (book_issue C now allow fresh fresh_id b)) = bk_devices b \<and>
    (\<forall>k. map_of (bk_pending (snd (book_issue C now allow fresh fresh_id b))) k \<noteq> None \<longrightarrow>
       map_of (bk_pending b) k \<noteq> None \<or> k \<in> new_id C fresh_id)"
proof -
  let ?b = "b\<lparr>bk_pending := filter (\<lambda>(_, i). pi_issued_at i \<le> now \<and> now < pi_expires_at i) (bk_pending b)\<rparr>"
  have kept: "book_ok ?b" "\<forall>k. map_of (bk_pending ?b) k \<noteq> None \<longrightarrow> map_of (bk_pending b) k \<noteq> None"
    using assms length_filter_le [of "\<lambda>(_, i). pi_issued_at i \<le> now \<and> now < pi_expires_at i" "bk_pending b"]
    by (auto simp: book_ok_def distinct_keys_filter map_of_filter_values split: option.splits if_splits simp del: length_filter_le)
  consider (err) e where "book_issue C now allow fresh fresh_id b = (Inl e, ?b)"
    | (ok) r stored where "fresh_id = Some r" "length (bk_devices b) + length (bk_pending ?b) < MAX_DEVICES"
        "snd (book_issue C now allow fresh fresh_id b) = ?b\<lparr>bk_pending := AList.update (secret_hash C r)
           \<lparr>pi_issued_at = now, pi_expires_at = now + INVITATION_TTL, pi_secret = stored, pi_allow_input = allow\<rparr> (bk_pending ?b)\<rparr>"
  proof (cases "\<exists>e. book_issue C now allow fresh fresh_id b = (Inl e, ?b)")
    case False
    then obtain s r stored where "fresh = Some s" "fresh_id = Some r" "secret_decode C (expose_encoded C s) = Some stored"
        "length (bk_devices b) + length (bk_pending ?b) < MAX_DEVICES" "now + INVITATION_TTL < 2 ^ 64"
      by (auto simp: book_issue_def Let_def split: option.splits if_splits)
    then show ?thesis by (intro ok [of r stored]) (auto simp: book_issue_def Let_def)
  qed (use err in blast)
  then show ?thesis
  proof cases
    case err
    then show ?thesis using kept by simp
  next
    case ok
    then show ?thesis
      using kept(2) insert_pending_ok [OF kept(1)] by (auto simp: alist_simps split: if_splits simp del: map_of_eq_Some_iff)
  qed
qed

lemma book_cancel_ok:
  assumes "book_ok b"
  shows "book_ok (book_cancel k b)"
  using assms length_delete_le [of k "bk_pending b"]
  by (auto simp: book_ok_def book_cancel_def alist_simps distinct_delete)

lemma book_revoke_ok:
  assumes "book_ok b"
  shows "book_ok (snd (book_revoke k b))"
  using assms length_delete_le [of k "bk_devices b"]
  by (auto simp: book_ok_def book_revoke_def alist_simps distinct_delete)

lemma set_book_permission_ok:
  assumes "book_ok b"
  shows "book_ok (snd (set_book_permission k allow b))"
proof (cases "map_of (bk_devices b) k")
  case (Some g)
  then show ?thesis
    using assms by (simp add: book_ok_def set_book_permission_def alist_simps distinct_update length_update del: map_of_eq_Some_iff)
qed (use assms in \<open>simp add: set_book_permission_def\<close>)

text \<open>Turning an invitation into a device, and the one way in which that succeeds.\<close>

lemma approve_cases [consumes 1, case_names err ok]:
  assumes "book_ok b"
  obtains (err) e where "approve_authenticated C i name now fresh fresh_id b = Some (Inl e, b)"
  | (ok) s r p g where "fresh = Some s" "fresh_id = Some r" "map_of (bk_pending b) i = Some p" "\<not> bad_name name"
      "pi_issued_at p \<le> now" "now < pi_expires_at p"
      "g = \<lparr>dg_id = secret_hash C r, dg_name = name, dg_allow_input = pi_allow_input p, dg_secret = s\<rparr>"
      "approve_authenticated C i name now fresh fresh_id b = Some (Inr g,
         b\<lparr>bk_pending := AList.delete i (bk_pending b), bk_devices := AList.update (secret_hash C r) g (bk_devices b)\<rparr>)"
proof (cases "\<exists>e. approve_authenticated C i name now fresh fresh_id b = Some (Inl e, b)")
  case False
  then obtain p s r where p: "map_of (bk_pending b) i = Some p" "\<not> now < pi_issued_at p" "\<not> pi_expires_at p \<le> now" "\<not> bad_name name"
    "fresh = Some s" "fresh_id = Some r"
    by (auto simp: approve_authenticated_def invitation_secret_def split: option.splits if_splits)
  then show ?thesis
    by (intro ok [of s r p]) (auto simp: approve_authenticated_def invitation_secret_def Let_def alist_simps)
qed (use err in blast)

lemma approve_ok:
  assumes "book_ok b" "map_of (bk_pending b) i = Some p" "\<not> bad_name name" "list_all is_scalar name" "valid_id k" "length s = 32"
    "map_of (bk_devices b) k = None"
  shows "book_ok (b\<lparr>bk_pending := AList.delete i (bk_pending b),
    bk_devices := AList.update k \<lparr>dg_id = k, dg_name = name, dg_allow_input = allow, dg_secret = s\<rparr> (bk_devices b)\<rparr>)"
proof -
  obtain n where "length (bk_pending b) = Suc n" using assms(2) by (cases "bk_pending b") auto
  then show ?thesis
    using assms by (auto simp: book_ok_def alist_simps distinct_update distinct_delete length_update length_delete)
qed

section \<open>Storing and restoring\<close>

lemma grant_eta [simp]: "\<lparr>dg_id = dg_id g, dg_name = dg_name g, dg_allow_input = dg_allow_input g, dg_secret = dg_secret g\<rparr> = g"
  by (cases g) simp

lemma host_key_eta [simp]: "\<lparr>hk_secret = hk_secret k, hk_public = hk_public k\<rparr> = k"
  by (cases k) simp

lemma restore_entries_of:
  assumes "codec_ok C" "distinct (map fst (bk_devices b) @ map dg_id gs)"
    "\<And>g. g \<in> set gs \<Longrightarrow> valid_id (dg_id g) \<and> \<not> bad_name (dg_name g) \<and> length (dg_secret g) = 32"
  shows "restore_entries C (map (device_entry_of C) gs) b = Inr (b\<lparr>bk_devices := bk_devices b @ map (\<lambda>g. (dg_id g, g)) gs\<rparr>)"
  using assms
proof (induction gs arbitrary: b)
  case (Cons g gs)
  have fresh: "map_of (bk_devices b) (dg_id g) = None" using Cons.prems(2) by (auto simp: map_of_eq_None_iff)
  have "\<not> bad_name (dg_name g) \<and> valid_id (dg_id g) \<and> secret_decode C (b64_encode C (dg_secret g)) = Some (dg_secret g)"
    using Cons.prems(1,3) by (auto intro: secret_decode_encode)
  then show ?case
    using Cons.IH [of "b\<lparr>bk_devices := bk_devices b @ [(dg_id g, g)]\<rparr>"] Cons.prems fresh
    by (simp add: device_entry_of_def expose_encoded_def update_fresh)
qed simp

lemma devices_by_id:
  assumes "book_ok b"
  shows "map (\<lambda>g. (dg_id g, g)) (map snd (bk_devices b)) = bk_devices b" "map dg_id (map snd (bk_devices b)) = map fst (bk_devices b)"
  using assms by (auto simp: book_ok_def intro!: map_idI map_cong)

lemma stored_devices:
  assumes "book_ok b" "(k, g) \<in> set (bk_devices b)"
  shows "dg_id g = k \<and> valid_id k \<and> \<not> bad_name (dg_name g) \<and> list_all is_scalar (dg_name g) \<and> length (dg_secret g) = 32"
  using assms by (auto simp: book_ok_def)

lemma entries_ok:
  assumes "codec_ok C" "book_ok b"
  shows "list_all entry_ok (map (device_entry_of C \<circ> snd) (bk_devices b))"
  using stored_devices [OF assms(2)] assms(1)
  by (auto simp: list_all_iff entry_ok_def device_entry_of_def expose_encoded_def codec_ok_def)

lemma restore_exported:
  assumes "codec_ok C" "json_ok J" "book_ok b"
  obtains bytes where "export_devices C J b = Inr bytes" "utf8_valid bytes"
    "restore_devices C J bytes = Inr (book_default\<lparr>bk_devices := bk_devices b\<rparr>)"
    "\<And>private public. length private = 43 \<Longrightarrow> valid_id private \<Longrightarrow> length public = 43 \<Longrightarrow> valid_id public \<Longrightarrow>
       \<exists>bs. js_write_saved J \<lparr>sv_version = 2, sv_private_key = private, sv_public_key = public, sv_devices = bytes\<rparr> = Some bs \<and>
         js_read_saved J bs = Some \<lparr>sv_version = 2, sv_private_key = private, sv_public_key = public, sv_devices = bytes\<rparr> \<and>
         length bs \<le> 48 * 1024"
proof -
  have len: "length (bk_devices b) \<le> MAX_DEVICES" using assms(3) by (simp add: book_ok_def)
  then obtain bytes where bytes: "js_write_devices J (map (device_entry_of C \<circ> snd) (bk_devices b)) = Some bytes"
      "js_read_devices J bytes = Some (map (device_entry_of C \<circ> snd) (bk_devices b))" "length bytes \<le> 32 * 1024" "utf8_valid bytes"
      "\<forall>private public. length private = 43 \<and> valid_id private \<and> length public = 43 \<and> valid_id public \<longrightarrow>
         (let saved = \<lparr>sv_version = 2, sv_private_key = private, sv_public_key = public, sv_devices = bytes\<rparr>
          in \<exists>bs. js_write_saved J saved = Some bs \<and> js_read_saved J bs = Some saved \<and> length bs \<le> 48 * 1024)"
    using assms(2) entries_ok [OF assms(1,3)] unfolding json_ok_def by fastforce
  have "restore_entries C (map (device_entry_of C) (map snd (bk_devices b))) book_default =
      Inr (book_default\<lparr>bk_devices := bk_devices b\<rparr>)"
  proof -
    have "restore_entries C (map (device_entry_of C) (map snd (bk_devices b))) book_default =
        Inr (book_default\<lparr>bk_devices := bk_devices book_default @ map (\<lambda>g. (dg_id g, g)) (map snd (bk_devices b))\<rparr>)"
    proof (rule restore_entries_of [OF assms(1)])
      show "distinct (map fst (bk_devices book_default) @ map dg_id (map snd (bk_devices b)))"
        using assms(3) by (simp only: devices_by_id(2) [OF assms(3)]) (simp add: book_ok_def book_default_def)
    qed (use stored_devices [OF assms(3)] in auto)
    then show ?thesis by (simp only: devices_by_id(1) [OF assms(3)]) (simp add: book_default_def)
  qed
  then show ?thesis
    using that [of bytes] bytes len by (simp add: export_devices_def restore_devices_def Let_def)
qed

lemma restore_encoded:
  assumes "codec_ok C" "json_ok J" "book_ok (ho_book h)" "length (hk_secret (ho_key h)) = 32" "length (hk_public (ho_key h)) = 32"
  obtains bytes where "host_encode C J h = Inr bytes"
    "host_restore C J bytes = Inr ((host_new (ho_key h))\<lparr>ho_book := book_default\<lparr>bk_devices := bk_devices (ho_book h)\<rparr>\<rparr>)"
proof -
  obtain devices where d: "export_devices C J (ho_book h) = Inr devices" "utf8_valid devices"
    "restore_devices C J devices = Inr (book_default\<lparr>bk_devices := bk_devices (ho_book h)\<rparr>)"
    "\<And>private public. length private = 43 \<Longrightarrow> valid_id private \<Longrightarrow> length public = 43 \<Longrightarrow> valid_id public \<Longrightarrow>
       \<exists>bs. js_write_saved J \<lparr>sv_version = 2, sv_private_key = private, sv_public_key = public, sv_devices = devices\<rparr> = Some bs \<and>
         js_read_saved J bs = Some \<lparr>sv_version = 2, sv_private_key = private, sv_public_key = public, sv_devices = devices\<rparr> \<and>
         length bs \<le> 48 * 1024"
    by (rule restore_exported [OF assms(1-3)]) blast
  have enc: "length (b64_encode C (hk_secret (ho_key h))) = 43" "valid_id (b64_encode C (hk_secret (ho_key h)))"
      "length (b64_encode C (hk_public (ho_key h))) = 43" "valid_id (b64_encode C (hk_public (ho_key h)))"
      "b64_decode C (b64_encode C (hk_public (ho_key h))) = Some (hk_public (ho_key h))"
    using assms(1,4,5) by (auto simp: codec_ok_def)
  obtain bs where f: "js_write_saved J \<lparr>sv_version = 2, sv_private_key = b64_encode C (hk_secret (ho_key h)),
        sv_public_key = b64_encode C (hk_public (ho_key h)), sv_devices = devices\<rparr> = Some bs"
      "js_read_saved J bs = Some \<lparr>sv_version = 2, sv_private_key = b64_encode C (hk_secret (ho_key h)),
        sv_public_key = b64_encode C (hk_public (ho_key h)), sv_devices = devices\<rparr>" "length bs \<le> 48 * 1024"
    using d(4) [OF enc(1-4)] by blast
  show ?thesis
    by (rule that [of bs]) (use d f enc secret_decode_encode [OF assms(1,4)] assms(5)
      in \<open>simp_all add: host_encode_def expose_encoded_def host_restore_def\<close>)
qed

section \<open>The operations keep the invariant\<close>

lemma pairing_okD:
  assumes "pairing_ok C J sy"
  shows "codec_ok C" "json_ok J" "book_ok (ho_book (ps_host sy))" "approvals_ok (ho_approvals (ps_host sy))"
    "sessions_ok (ps_host sy)" "stored_ok C J (ps_host sy)" "traced_ok sy"
  using assms by (simp_all add: pairing_ok_def)

text \<open>Lookups stay lookups: the simplifier would turn them into memberships.\<close>

lemmas keep_maps = map_of_eq_Some_iff

lemma tracedD:
  assumes "traced P D Q ids re dec en"
  shows "P \<union> dom D \<union> dom Q \<subseteq> ids"
    "\<And>t p allow. Q t = Some p \<Longrightarrow> ap_allowed_input p = Some allow \<Longrightarrow> (t, ap_invitation p, pr_name (ap_summary p), allow) \<in> dec"
    "\<And>d t i. (d, t, i) \<in> en \<Longrightarrow> d \<in> ids \<and> t \<in> ids - dom Q \<and> i \<in> ids - P"
    "\<And>d t i d' t' i'. (d, t, i) \<in> en \<Longrightarrow> (d', t', i') \<in> en \<Longrightarrow> d = d' \<or> t = t' \<or> i = i' \<Longrightarrow> d = d' \<and> t = t' \<and> i = i'"
    "\<And>d g. D d = Some g \<Longrightarrow> d \<in> re \<or> (\<exists>t i allow. (d, t, i) \<in> en \<and> (t, i, dg_name g, allow) \<in> dec)"
proof -
  note tr = assms [unfolded traced_def]
  show "P \<union> dom D \<union> dom Q \<subseteq> ids" by (rule conjunct1 [OF tr])
  show "(t, ap_invitation p, pr_name (ap_summary p), allow) \<in> dec" if "Q t = Some p" "ap_allowed_input p = Some allow" for t p allow
    using tr [THEN conjunct2, THEN conjunct1] that by blast
  show "d \<in> ids \<and> t \<in> ids - dom Q \<and> i \<in> ids - P" if "(d, t, i) \<in> en" for d t i
    using tr [THEN conjunct2, THEN conjunct2, THEN conjunct1] that by blast
  show "d = d' \<and> t = t' \<and> i = i'" if "(d, t, i) \<in> en" "(d', t', i') \<in> en" "d = d' \<or> t = t' \<or> i = i'" for d t i d' t' i'
    using tr [THEN conjunct2, THEN conjunct2, THEN conjunct2, THEN conjunct1] that by blast
  show "d \<in> re \<or> (\<exists>t i allow. (d, t, i) \<in> en \<and> (t, i, dg_name g, allow) \<in> dec)" if "D d = Some g" for d g
    using tr [THEN conjunct2, THEN conjunct2, THEN conjunct2, THEN conjunct2] that by blast
qed

lemma tracedI:
  assumes "P \<union> dom D \<union> dom Q \<subseteq> ids"
    "\<And>t p allow. Q t = Some p \<Longrightarrow> ap_allowed_input p = Some allow \<Longrightarrow> (t, ap_invitation p, pr_name (ap_summary p), allow) \<in> dec"
    "\<And>d t i. (d, t, i) \<in> en \<Longrightarrow> d \<in> ids \<and> t \<in> ids - dom Q \<and> i \<in> ids - P"
    "\<And>d t i d' t' i'. (d, t, i) \<in> en \<Longrightarrow> (d', t', i') \<in> en \<Longrightarrow> d = d' \<or> t = t' \<or> i = i' \<Longrightarrow> d = d' \<and> t = t' \<and> i = i'"
    "\<And>d g. D d = Some g \<Longrightarrow> d \<in> re \<or> (\<exists>t i allow. (d, t, i) \<in> en \<and> (t, i, dg_name g, allow) \<in> dec)"
  shows "traced P D Q ids re dec en"
  unfolding traced_def using assms by blast

lemma traced_pending:
  assumes tr: "traced P D Q ids re dec en" and sub: "P' \<subseteq> P \<union> N" and fresh: "N \<inter> ids = {}"
  shows "traced P' D Q (ids \<union> N) re dec en"
proof (rule tracedI)
  show "P' \<union> dom D \<union> dom Q \<subseteq> ids \<union> N" using tracedD(1) [OF tr] sub by blast
  show "d \<in> ids \<union> N \<and> t \<in> ids \<union> N - dom Q \<and> i \<in> ids \<union> N - P'" if "(d, t, i) \<in> en" for d t i
    using tracedD(3) [OF tr that] sub fresh by blast
qed (use tracedD(2,4,5) [OF tr] in blast)+

lemma traced_requests:
  assumes tr: "traced P D Q ids re dec en" and fresh: "N \<inter> ids = {}"
    and old: "\<And>k p. Q' k = Some p \<Longrightarrow> Q k = Some p \<or> k \<in> N \<and> ap_allowed_input p = None"
  shows "traced P D Q' (ids \<union> N) re dec en"
proof (rule tracedI)
  have dom: "dom Q' \<subseteq> dom Q \<union> N" using old by blast
  then show "P \<union> dom D \<union> dom Q' \<subseteq> ids \<union> N" using tracedD(1) [OF tr] by blast
  show "d \<in> ids \<union> N \<and> t \<in> ids \<union> N - dom Q' \<and> i \<in> ids \<union> N - P" if "(d, t, i) \<in> en" for d t i
    using tracedD(3) [OF tr that] dom fresh by blast
  show "(t, ap_invitation p, pr_name (ap_summary p), allow) \<in> dec" if "Q' t = Some p" "ap_allowed_input p = Some allow" for t p allow
    using old [OF that(1)] that(2) tracedD(2) [OF tr] by auto
qed (use tracedD(4,5) [OF tr] in blast)+

lemma traced_devices:
  assumes tr: "traced P D Q ids re dec en" and old: "\<And>k g. D' k = Some g \<Longrightarrow> \<exists>g'. D k = Some g' \<and> dg_name g' = dg_name g"
  shows "traced P D' Q ids re dec en"
proof (rule tracedI)
  show "P \<union> dom D' \<union> dom Q \<subseteq> ids" using tracedD(1) [OF tr] old by blast
  show "d \<in> re \<or> (\<exists>t i allow. (d, t, i) \<in> en \<and> (t, i, dg_name g, allow) \<in> dec)" if "D' d = Some g" for d g
    using old [OF that] tracedD(5) [OF tr] by metis
qed (use tracedD(2,3,4) [OF tr] in blast)+

lemma stored_ok_cong:
  "ho_key h' = ho_key h \<Longrightarrow> ho_stored h' = ho_stored h \<Longrightarrow> bk_devices (ho_book h') = bk_devices (ho_book h) \<Longrightarrow>
     stored_ok C J h' = stored_ok C J h"
  by (simp add: stored_ok_def split: option.split)

lemma sessions_ok_cong:
  "ho_active h' = ho_active h \<Longrightarrow> ho_sessions h' = ho_sessions h \<Longrightarrow> bk_devices (ho_book h') = bk_devices (ho_book h) \<Longrightarrow>
     sessions_ok h' = sessions_ok h"
  by (simp add: sessions_ok_def)

lemma change_pending:
  assumes ok: "pairing_ok C J sy" and b: "book_ok b'" "bk_devices b' = bk_devices (ho_book (ps_host sy))"
    and pend: "dom (map_of (bk_pending b')) \<subseteq> dom (map_of (bk_pending (ho_book (ps_host sy)))) \<union> N"
    and fresh: "N \<inter> ps_ids sy = {}"
  shows "pairing_ok C J (sy\<lparr>ps_host := (ps_host sy)\<lparr>ho_book := b'\<rparr>, ps_ids := ps_ids sy \<union> N\<rparr>)"
proof -
  have "traced_ok (sy\<lparr>ps_host := (ps_host sy)\<lparr>ho_book := b'\<rparr>, ps_ids := ps_ids sy \<union> N\<rparr>)"
    using traced_pending [OF pairing_okD(7) [OF ok, unfolded traced_ok_def] pend fresh] b(2) by (simp add: traced_ok_def)
  then show ?thesis
    using pairing_okD(1-6) [OF ok] b sessions_ok_cong [of "(ps_host sy)\<lparr>ho_book := b'\<rparr>" "ps_host sy"]
      stored_ok_cong [of "(ps_host sy)\<lparr>ho_book := b'\<rparr>" "ps_host sy" C J]
    by (simp add: pairing_ok_def)
qed

lemma change_approvals:
  assumes ok: "pairing_ok C J sy" and as: "approvals_ok as"
    and old: "\<And>k p. map_of (as_pending as) k = Some p \<Longrightarrow>
       map_of (as_pending (ho_approvals (ps_host sy))) k = Some p \<or> k \<in> N \<and> ap_allowed_input p = None"
    and fresh: "N \<inter> ps_ids sy = {}"
  shows "pairing_ok C J (sy\<lparr>ps_host := (ps_host sy)\<lparr>ho_approvals := as\<rparr>, ps_ids := ps_ids sy \<union> N\<rparr>)"
proof -
  have "traced_ok (sy\<lparr>ps_host := (ps_host sy)\<lparr>ho_approvals := as\<rparr>, ps_ids := ps_ids sy \<union> N\<rparr>)"
    using traced_requests [OF pairing_okD(7) [OF ok, unfolded traced_ok_def] fresh old] by (simp add: traced_ok_def)
  then show ?thesis
    using pairing_okD(1-6) [OF ok] as sessions_ok_cong [of "(ps_host sy)\<lparr>ho_approvals := as\<rparr>" "ps_host sy"]
      stored_ok_cong [of "(ps_host sy)\<lparr>ho_approvals := as\<rparr>" "ps_host sy" C J]
    by (simp add: pairing_ok_def)
qed

lemma ids_unchanged: "sy\<lparr>ps_host := h, ps_ids := ps_ids sy \<union> {}\<rparr> = sy\<lparr>ps_host := h\<rparr>"
  by (cases sy) simp

lemmas drop_pending = change_pending [where N = "{}", unfolded ids_unchanged]
lemmas drop_approvals = change_approvals [where N = "{}", unfolded ids_unchanged]

lemma approvals_ok_filter:
  assumes "approvals_ok as"
  shows "approvals_ok (as\<lparr>as_pending := filter (\<lambda>(_, p). P p) (as_pending as)\<rparr>)" "approvals_ok (as\<lparr>as_pending := AList.delete k (as_pending as)\<rparr>)"
    "approvals_ok (as\<lparr>as_waiting := W\<rparr>)"
  using assms length_filter_le [of "\<lambda>(_, p). P p" "as_pending as"] length_delete_le [of k "as_pending as"]
  by (auto simp: approvals_ok_def map_of_filter_values alist_simps distinct_keys_filter distinct_delete
      split: option.splits if_splits simp del: keep_maps length_filter_le)

lemma approval_cancel_ok:
  assumes "approvals_ok as"
  shows "approvals_ok (approval_cancel_invitation i as)" "approvals_ok (approval_cancel i as)"
    "map_of (as_pending (approval_cancel_invitation i as)) k = Some p \<Longrightarrow> map_of (as_pending as) k = Some p"
    "map_of (as_pending (approval_cancel i as)) k = Some p \<Longrightarrow> map_of (as_pending as) k = Some p"
proof -
  show "approvals_ok (approval_cancel_invitation i as)" "approvals_ok (approval_cancel i as)"
    unfolding approval_cancel_invitation_def approval_cancel_def by (rule approvals_ok_filter [OF assms])+
  have "distinct (map fst (as_pending as))" using assms by (simp add: approvals_ok_def)
  then show "map_of (as_pending (approval_cancel_invitation i as)) k = Some p \<Longrightarrow> map_of (as_pending as) k = Some p"
    by (simp add: approval_cancel_invitation_def map_of_filter_values del: keep_maps split: option.splits if_splits)
  show "map_of (as_pending (approval_cancel i as)) k = Some p \<Longrightarrow> map_of (as_pending as) k = Some p"
    by (simp add: approval_cancel_def alist_simps del: keep_maps split: if_splits)
qed

lemma issue_ok:
  assumes ok: "pairing_ok C J sy" and fresh: "new_id C fresh_id \<inter> ps_ids sy = {}"
  shows "pairing_ok C J (sy\<lparr>ps_host := snd (host_issue C J A access name allow now fr fresh_id (ps_host sy)), ps_ids := ps_ids sy \<union> new_id C fresh_id\<rparr>)"
proof -
  let ?b = "ho_book (ps_host sy)"
  have "snd (host_issue C J A access name allow now fr fresh_id (ps_host sy)) = (ps_host sy)\<lparr>ho_book := ?b\<rparr> \<or>
      snd (host_issue C J A access name allow now fr fresh_id (ps_host sy)) = (ps_host sy)\<lparr>ho_book := snd (book_issue C now allow fr fresh_id ?b)\<rparr>"
    by (simp add: host_issue_def split: sum.split prod.split)
  then show ?thesis
  proof
    assume 1: "snd (host_issue C J A access name allow now fr fresh_id (ps_host sy)) = (ps_host sy)\<lparr>ho_book := ?b\<rparr>"
    then show ?thesis using change_pending [OF ok pairing_okD(3) [OF ok] refl _ fresh] by simp
  next
    assume "snd (host_issue C J A access name allow now fr fresh_id (ps_host sy)) = (ps_host sy)\<lparr>ho_book := snd (book_issue C now allow fr fresh_id ?b)\<rparr>"
    then show ?thesis
      using book_issue_ok [OF pairing_okD(3) [OF ok], of C now allow fr fresh_id] by (auto intro!: change_pending [OF ok _ _ _ fresh])
  qed
qed

lemma cancel_invitation_ok:
  assumes ok: "pairing_ok C J sy"
  shows "pairing_ok C J (sy\<lparr>ps_host := cancel_invitation k (ps_host sy)\<rparr>)"
proof -
  have "pairing_ok C J (sy\<lparr>ps_host := (ps_host sy)\<lparr>ho_book := book_cancel k (ho_book (ps_host sy))\<rparr>\<rparr>)"
    by (rule drop_pending [OF ok book_cancel_ok [OF pairing_okD(3) [OF ok]]]) (auto simp: book_cancel_def alist_simps simp del: keep_maps split: if_splits)
  from drop_approvals [OF this, of "approval_cancel_invitation k (ho_approvals (ps_host sy))"]
  show ?thesis
    using approval_cancel_ok [OF pairing_okD(4) [OF ok], of k] by (simp add: cancel_invitation_def)
qed

lemma request_ok:
  assumes ok: "pairing_ok C J sy" and fresh: "new_id C fresh_id \<inter> ps_ids sy = {}"
  shows "pairing_ok C J (sy\<lparr>ps_host := snd (request_pairing C hello name via p code now fresh_id (ps_host sy)), ps_ids := ps_ids sy \<union> new_id C fresh_id\<rparr>)"
proof (cases "snd (request_pairing C hello name via p code now fresh_id (ps_host sy)) = ps_host sy")
  case True
  then show ?thesis
    using change_approvals [OF ok pairing_okD(4) [OF ok] _ fresh] by simp
next
  case False
  let ?as = "ho_approvals (ps_host sy)"
  obtain r where r: "fresh_id = Some r" "length (as_pending ?as) < 8" "\<not> list_ex (\<lambda>(_, p). ap_invitation p = he_grant hello) (as_pending ?as)"
    using False by (auto simp: request_pairing_def approval_request_def split: sum.splits option.splits if_splits)
  let ?k = "secret_hash C r"
  have new: "map_of (as_pending ?as) ?k = None"
    using pairing_okD(7) [OF ok] fresh r(1) by (auto simp: traced_ok_def traced_def simp del: keep_maps)
  obtain a as where as: "snd (request_pairing C hello name via p code now fresh_id (ps_host sy)) = (ps_host sy)\<lparr>ho_approvals := as\<rparr>"
      "as_pending as = insort_key fst (?k, a) (as_pending ?as)" "ap_allowed_input a = None" "ap_invitation a = he_grant hello" "pr_id (ap_summary a) = ?k"
    using False r new
    by (auto simp: request_pairing_def approval_request_def Let_def map_of_eq_None_iff split: sum.splits option.splits if_splits)
  have other: "ap_invitation q \<noteq> he_grant hello" if "map_of (as_pending ?as) k = Some q" for k q
    using r(3) map_of_SomeD [OF that] by (auto simp: list_ex_iff)
  have "approvals_ok as"
    using pairing_okD(4) [OF ok] as(2-) new r(2) other
    by (simp add: approvals_ok_def map_of_insort distinct_keys_insort del: keep_maps) metis
  then show ?thesis
    unfolding as(1) using r(1) as(2,3) new
    by (intro change_approvals [OF ok _ _ fresh]) (auto simp: map_of_insort split: if_splits simp del: keep_maps)
qed

lemma cancel_request_ok:
  assumes ok: "pairing_ok C J sy"
  shows "pairing_ok C J (sy\<lparr>ps_host := cancel_pairing k (ps_host sy)\<rparr>)"
  using drop_approvals [OF ok, of "approval_cancel k (ho_approvals (ps_host sy))"] approval_cancel_ok [OF pairing_okD(4) [OF ok], of k]
  by (simp add: cancel_pairing_def)

lemma stop_waiting_ok:
  assumes ok: "pairing_ok C J sy"
  shows "pairing_ok C J (sy\<lparr>ps_host := (ps_host sy)\<lparr>ho_approvals := (ho_approvals (ps_host sy))\<lparr>as_waiting := W\<rparr>\<rparr>\<rparr>)"
  using drop_approvals [OF ok, of "(ho_approvals (ps_host sy))\<lparr>as_waiting := W\<rparr>"] approvals_ok_filter(3) [OF pairing_okD(4) [OF ok], of W]
  by simp

text \<open>A decision removes an expired request, or records the answer of the user in the request.\<close>

lemma decide_cases:
  obtains (same) "decide k allow now as = (Inl Io_Authentication, as)"
  | (expired) "decide k allow now as = (Inl Io_Authentication, approval_cancel k as)"
  | (decided) p r answer where "map_of (as_pending as) k = Some p" "ap_decision p" "now < pr_expires_at (ap_summary p)"
      "decide k allow now as = (r, as\<lparr>as_pending := AList.update k (p\<lparr>ap_decision := False, ap_allowed_input := allow,
         ap_summary := (ap_summary p)\<lparr>pr_approving := allow \<noteq> None\<rparr>\<rparr>) (as_pending as), as_answer := answer\<rparr>)"
proof (cases "map_of (as_pending as) k")
  case None
  then show ?thesis by (intro same) (simp add: decide_def)
next
  case (Some p)
  show ?thesis
  proof (cases "now < pr_expires_at (ap_summary p) \<and> ap_decision p")
    case True
    then show ?thesis
      using Some by (intro decided [of p "fst (decide k allow now as)" "as_answer (snd (decide k allow now as))"]) (simp_all add: decide_def Let_def)
  next
    case False
    then show ?thesis
      using Some same expired by (cases "ap_decision p"; cases "pr_expires_at (ap_summary p) \<le> now") (auto simp: decide_def approval_cancel_def)
  qed
qed

lemma traced_decision:
  assumes tr: "traced P D Q ids re dec en" and Q: "Q k = Some p" "ap_invitation p' = ap_invitation p" "pr_name (ap_summary p') = pr_name (ap_summary p)"
    and dec': "dec \<subseteq> dec'" "\<And>b. ap_allowed_input p' = Some b \<Longrightarrow> (k, ap_invitation p, pr_name (ap_summary p), b) \<in> dec'"
  shows "traced P D (Q(k \<mapsto> p')) ids re dec' en"
proof (rule tracedI)
  have dom: "dom (Q(k \<mapsto> p')) = dom Q" using Q(1) by auto
  then show "P \<union> dom D \<union> dom (Q(k \<mapsto> p')) \<subseteq> ids" using tracedD(1) [OF tr] by blast
  show "d \<in> ids \<and> t \<in> ids - dom (Q(k \<mapsto> p')) \<and> i \<in> ids - P" if "(d, t, i) \<in> en" for d t i
    using tracedD(3) [OF tr that] unfolding dom .
  show "(t, ap_invitation q, pr_name (ap_summary q), allow) \<in> dec'" if "(Q(k \<mapsto> p')) t = Some q" "ap_allowed_input q = Some allow" for t q allow
  proof (cases "t = k")
    case True
    then have "q = p'" using that(1) by simp
    then show ?thesis using dec'(2) [of allow] that(2) Q(2,3) True by simp
  next
    case False
    then have "Q t = Some q" using that(1) by simp
    then show ?thesis using tracedD(2) [OF tr _ that(2)] dec'(1) by blast
  qed
  show "d \<in> re \<or> (\<exists>t i allow. (d, t, i) \<in> en \<and> (t, i, dg_name g, allow) \<in> dec')" if "D d = Some g" for d g
    using tracedD(5) [OF tr that] dec'(1) by blast
qed (use tracedD(4) [OF tr] in blast)

lemma traced_more: "traced P D Q ids re dec en \<Longrightarrow> dec \<subseteq> dec' \<Longrightarrow> traced P D Q ids re dec' en"
  unfolding traced_def by blast

lemma more_decisions:
  assumes "pairing_ok C J sy"
  shows "pairing_ok C J (sy\<lparr>ps_decided := ps_decided sy \<union> X\<rparr>)"
  using assms traced_more [of _ _ _ _ _ "ps_decided sy" _ "ps_decided sy \<union> X"] by (simp add: pairing_ok_def traced_ok_def)

lemma approvals_ok_update:
  assumes ok: "approvals_ok as" and p: "map_of (as_pending as) k = Some p"
    and as': "as_pending as' = AList.update k p' (as_pending as)" "ap_invitation p' = ap_invitation p"
      "pr_name (ap_summary p') = pr_name (ap_summary p)" "pr_id (ap_summary p') = pr_id (ap_summary p)" "\<not> ap_decision p'"
  shows "approvals_ok as'"
proof -
  have old: "\<exists>q'. map_of (as_pending as) t = Some q' \<and> ap_invitation q' = ap_invitation q \<and> pr_id (ap_summary q') = pr_id (ap_summary q) \<and>
      (q = q' \<or> \<not> ap_decision q)" if "map_of (as_pending as') t = Some q" for t q
    using that p as' by (cases "t = k") (auto simp: alist_simps simp del: keep_maps)
  have "distinct (map fst (as_pending as'))" "length (as_pending as') \<le> 8"
    using ok p as'(1) by (simp_all add: approvals_ok_def distinct_update length_update del: keep_maps)
  moreover have "pr_id (ap_summary q) = t \<and> (ap_allowed_input q \<noteq> None \<longrightarrow> \<not> ap_decision q)" if "map_of (as_pending as') t = Some q" for t q
    using old [OF that] ok unfolding approvals_ok_def by metis
  moreover have "t = t'" if "map_of (as_pending as') t = Some q" "map_of (as_pending as') t' = Some q'" "ap_invitation q = ap_invitation q'" for t t' q q'
    using old [OF that(1)] old [OF that(2)] that(3) ok unfolding approvals_ok_def by metis
  ultimately show ?thesis unfolding approvals_ok_def by blast
qed

lemma record_decision:
  assumes ok: "pairing_ok C J sy" and p: "map_of (as_pending (ho_approvals (ps_host sy))) k = Some p"
    and as: "as_pending as = AList.update k p' (as_pending (ho_approvals (ps_host sy)))" "ap_invitation p' = ap_invitation p"
      "pr_name (ap_summary p') = pr_name (ap_summary p)" "pr_id (ap_summary p') = pr_id (ap_summary p)" "\<not> ap_decision p'"
    and X: "\<And>b. ap_allowed_input p' = Some b \<Longrightarrow> (k, ap_invitation p, pr_name (ap_summary p), b) \<in> X"
  shows "pairing_ok C J (sy\<lparr>ps_host := (ps_host sy)\<lparr>ho_approvals := as\<rparr>, ps_decided := ps_decided sy \<union> X\<rparr>)"
proof -
  have "approvals_ok as" by (rule approvals_ok_update [OF pairing_okD(4) [OF ok] p as])
  moreover have "traced_ok (sy\<lparr>ps_host := (ps_host sy)\<lparr>ho_approvals := as\<rparr>, ps_decided := ps_decided sy \<union> X\<rparr>)"
    using traced_decision [OF pairing_okD(7) [OF ok, unfolded traced_ok_def] p as(2,3), of "ps_decided sy \<union> X"] X as(1)
    by (simp add: traced_ok_def alist_simps)
  ultimately show ?thesis
    using pairing_okD(1-6) [OF ok] sessions_ok_cong [of "(ps_host sy)\<lparr>ho_approvals := as\<rparr>" "ps_host sy"]
      stored_ok_cong [of "(ps_host sy)\<lparr>ho_approvals := as\<rparr>" "ps_host sy" C J]
    by (simp add: pairing_ok_def)
qed

lemma host_then_decided: "sy\<lparr>ps_host := h', ps_decided := d, ps_host := h\<rparr> = sy\<lparr>ps_host := h, ps_decided := d\<rparr>"
  by (cases sy) simp

lemma decide_ok:
  assumes ok: "pairing_ok C J sy"
  shows "pairing_ok C J (sy\<lparr>ps_host := snd (decide_pairing k allow now (ps_host sy)),
    ps_decided := ps_decided sy \<union> decision_of k allow now (ps_host sy)\<rparr>)"
proof -
  let ?as = "ho_approvals (ps_host sy)"
  have drop: "pairing_ok C J (sy\<lparr>ps_host := (ps_host sy)\<lparr>ho_approvals := as\<rparr>, ps_decided := ps_decided sy \<union> X\<rparr>)"
    if "as = ?as \<or> as = approval_cancel k ?as" for as X
    using drop_approvals [OF ok, of as] more_decisions [of C J "sy\<lparr>ps_host := (ps_host sy)\<lparr>ho_approvals := as\<rparr>\<rparr>" X]
      that approval_cancel_ok(2,4) [OF pairing_okD(4) [OF ok], of k] pairing_okD(4) [OF ok] by auto
  show ?thesis
  proof (cases rule: decide_cases [of k allow now ?as])
    case same
    then show ?thesis using drop [of ?as] by (simp add: decide_pairing_def Let_def)
  next
    case expired
    then show ?thesis using drop [of "approval_cancel k ?as"] by (simp add: decide_pairing_def Let_def)
  next
    case (decided p r answer)
    let ?p = "p\<lparr>ap_decision := False, ap_allowed_input := allow, ap_summary := (ap_summary p)\<lparr>pr_approving := allow \<noteq> None\<rparr>\<rparr>"
    let ?h = "(ps_host sy)\<lparr>ho_approvals := ?as\<lparr>as_pending := AList.update k ?p (as_pending ?as), as_answer := answer\<rparr>\<rparr>"
    have rec: "pairing_ok C J (sy\<lparr>ps_host := ?h, ps_decided := ps_decided sy \<union> X\<rparr>)"
      if "\<And>b. allow = Some b \<Longrightarrow> (k, ap_invitation p, pr_name (ap_summary p), b) \<in> X" for X
      by (rule record_decision [OF ok decided(1), of _ ?p]) (use that in simp_all)
    show ?thesis
    proof (cases "\<exists>i. snd (decide_pairing k allow now (ps_host sy)) = cancel_invitation i ?h \<and> allow = None")
      case True
      then obtain i where i: "snd (decide_pairing k allow now (ps_host sy)) = cancel_invitation i ?h" "allow = None" by blast
      show ?thesis
        unfolding i(1) using cancel_invitation_ok [OF rec, of "decision_of k allow now (ps_host sy)" i, unfolded host_then_decided] i(2) by simp
    next
      case False
      then have h: "snd (decide_pairing k allow now (ps_host sy)) = ?h"
        using decided(4) by (auto simp: decide_pairing_def Let_def split: sum.splits option.splits)
      show ?thesis
        unfolding h by (rule rec) (use decided(1-3) in \<open>simp add: decision_of_def\<close>)
    qed
  qed
qed

lemma sessions_okD:
  assumes "sessions_ok h"
  shows "\<And>k n v. map_of (ho_active h) k = Some (n, v) \<Longrightarrow> n < length (ho_sessions h)"
    "\<And>k n v. map_of (ho_active h) k = Some (n, v) \<Longrightarrow> \<exists>g. map_of (bk_devices (ho_book h)) k = Some g \<and> se_input (ho_sessions h ! n) = dg_allow_input g"
    "\<And>k k' n v v'. map_of (ho_active h) k = Some (n, v) \<Longrightarrow> map_of (ho_active h) k' = Some (n, v') \<Longrightarrow> k = k'"
    "\<And>n. n < length (ho_sessions h) \<Longrightarrow> is_active (ho_sessions h ! n) \<Longrightarrow> \<exists>k v. map_of (ho_active h) k = Some (n, v)"
  using assms unfolding sessions_ok_def by blast+

lemma sessions_okI:
  assumes "\<And>k n v. map_of (ho_active h) k = Some (n, v) \<Longrightarrow> n < length (ho_sessions h)"
    "\<And>k n v. map_of (ho_active h) k = Some (n, v) \<Longrightarrow> \<exists>g. map_of (bk_devices (ho_book h)) k = Some g \<and> se_input (ho_sessions h ! n) = dg_allow_input g"
    "\<And>k k' n v v'. map_of (ho_active h) k = Some (n, v) \<Longrightarrow> map_of (ho_active h) k' = Some (n, v') \<Longrightarrow> k = k'"
    "\<And>n. n < length (ho_sessions h) \<Longrightarrow> is_active (ho_sessions h ! n) \<Longrightarrow> \<exists>k v. map_of (ho_active h) k = Some (n, v)"
  shows "sessions_ok h"
  using assms unfolding sessions_ok_def by blast

lemma change_sessions:
  assumes ok: "pairing_ok C J sy" and n: "n < length (ho_sessions (ps_host sy))"
    and f: "\<And>s. se_input (f s) = se_input s" "\<And>s. is_active (f s) \<Longrightarrow> is_active s"
  shows "pairing_ok C J (sy\<lparr>ps_host := with_session n f (ps_host sy)\<rparr>)"
proof -
  have "sessions_ok (with_session n f (ps_host sy))"
    using pairing_okD(5) [OF ok] n f unfolding sessions_ok_def with_session_def
    by (simp add: nth_list_update del: keep_maps)
  then show ?thesis
    using pairing_okD [OF ok] stored_ok_cong [of "with_session n f (ps_host sy)" "ps_host sy" C J]
    by (simp add: pairing_ok_def with_session_def traced_ok_def)
qed

lemma mark_ok: "pairing_ok C J sy \<Longrightarrow> n < length (ho_sessions (ps_host sy)) \<Longrightarrow> pairing_ok C J (sy\<lparr>ps_host := mark_connected n (ps_host sy)\<rparr>)"
  unfolding mark_connected_def by (rule change_sessions) (simp_all add: is_active_def)

lemma leave_ok: "pairing_ok C J sy \<Longrightarrow> n < length (ho_sessions (ps_host sy)) \<Longrightarrow> pairing_ok C J (sy\<lparr>ps_host := cancel_session n (ps_host sy)\<rparr>)"
  unfolding cancel_session_def by (rule change_sessions) (simp_all add: is_active_def)

section \<open>Admitting a device\<close>

lemma take_approved_cases:
  obtains (refused) e where "take_approved t i name now as = (Inl e, as)"
  | (taken) p allow where "map_of (as_pending as) t = Some p" "ap_invitation p = i" "pr_name (ap_summary p) = name"
      "now < pr_expires_at (ap_summary p)" "ap_allowed_input p = Some allow"
      "take_approved t i name now as = (Inr allow, approval_cancel t as)"
proof (cases "\<exists>e. take_approved t i name now as = (Inl e, as)")
  case False
  then obtain p allow where "map_of (as_pending as) t = Some p" "ap_invitation p = i" "pr_name (ap_summary p) = name"
      "\<not> pr_expires_at (ap_summary p) \<le> now" "ap_allowed_input p = Some allow"
    by (auto simp: take_approved_def split: option.splits if_splits)
  then show ?thesis by (intro taken [of p allow]) (simp_all add: take_approved_def approval_cancel_def)
qed (use refused in blast)

text \<open>The entry that a phone with an approved invitation gets.\<close>

definition granted :: "codec \<Rightarrow> string \<Rightarrow> string \<Rightarrow> device_grant \<Rightarrow> host \<Rightarrow> host" where
  "granted C t i g h = h\<lparr>ho_approvals := approval_cancel t (ho_approvals h),
     ho_book := (ho_book h)\<lparr>bk_pending := AList.delete i (bk_pending (ho_book h)), bk_devices := AList.update (dg_id g) g (bk_devices (ho_book h))\<rparr>\<rparr>"

lemma admit_cases:
  assumes ok: "pairing_ok C J sy" and fresh: "new_id C fresh_id \<inter> ps_ids sy = {}"
    and names: "list_all is_scalar name" "random_ok fresh" "random_ok fresh_id"
  obtains (accepted) g where "\<not> he_invitation hello" "map_of (bk_devices (ho_book (ps_host sy))) (he_grant hello) = Some g"
      "admit C J hello name now persist approval fresh fresh_id (ps_host sy) = Some (Inr (Secure_Accepted (he_grant hello), dg_allow_input g, he_grant hello), ps_host sy)"
  | (refused) e h where "admit C J hello name now persist approval fresh fresh_id (ps_host sy) = Some (Inl e, h)" "pairing_ok C J (sy\<lparr>ps_host := h\<rparr>)"
      "bk_devices (ho_book h) = bk_devices (ho_book (ps_host sy))" "ho_sessions h = ho_sessions (ps_host sy)" "ho_stored h = ho_stored (ps_host sy)"
  | (enrolled) t p allow s g bytes where "he_invitation hello" "approval = Some t"
      "map_of (as_pending (ho_approvals (ps_host sy))) t = Some p" "ap_invitation p = he_grant hello" "pr_name (ap_summary p) = name"
      "now < pr_expires_at (ap_summary p)" "ap_allowed_input p = Some allow" "map_of (bk_pending (ho_book (ps_host sy))) (he_grant hello) \<noteq> None"
      "invitation_valid (he_grant hello) now (ps_host sy)"
      "\<not> bad_name name" "fresh = Some s" "length s = 32" "new_id C fresh_id = {dg_id g}" "valid_id (dg_id g)" "g = \<lparr>dg_id = dg_id g, dg_name = name, dg_allow_input = allow, dg_secret = s\<rparr>"
      "host_encode C J (granted C t (he_grant hello) g (ps_host sy)) = Inr bytes" "persist bytes"
      "admit C J hello name now persist approval fresh fresh_id (ps_host sy) =
         Some (Inr (Secure_Enrolled (dg_id g) (expose_encoded C s), allow, dg_id g), (granted C t (he_grant hello) g (ps_host sy))\<lparr>ho_stored := Some bytes\<rparr>)"
proof -
  let ?h = "ps_host sy"
  show ?thesis
  proof (cases "he_invitation hello \<and> approval \<noteq> None")
    case False
    then consider "\<not> he_invitation hello" | "he_invitation hello" "approval = None" by blast
    then show ?thesis
    proof cases
      case 1
      show ?thesis
      proof (cases "map_of (bk_devices (ho_book ?h)) (he_grant hello)")
        case None
        then show ?thesis using 1 ok by (intro refused [of Io_Authentication ?h]) (simp_all add: admit_def)
      next
        case (Some g)
        moreover have "dg_id g = he_grant hello" using pairing_okD(3) [OF ok] Some by (simp add: book_ok_def del: keep_maps)
        ultimately show ?thesis using 1 by (intro accepted [of g]) (simp_all add: admit_def)
      qed
    next
      case 2
      then show ?thesis using ok by (intro refused [of Io_Authentication ?h]) (simp_all add: admit_def)
    qed
  next
    case True
    then obtain t where t: "he_invitation hello" "approval = Some t" by blast
    show ?thesis
    proof (cases rule: take_approved_cases [of t "he_grant hello" name now "ho_approvals ?h"])
      case (refused e)
      then show ?thesis using t ok by (intro that(2) [of e ?h]) (simp_all add: admit_def)
    next
      case (taken p allow)
      let ?h1 = "?h\<lparr>ho_approvals := approval_cancel t (ho_approvals ?h)\<rparr>" and ?b = "ho_book ?h" and ?i = "he_grant hello"
      have ok1: "pairing_ok C J (sy\<lparr>ps_host := ?h1\<rparr>)" using cancel_request_ok [OF ok, of t] by (simp add: cancel_pairing_def)
      from pairing_okD(3) [OF ok] show ?thesis
      proof (cases rule: approve_cases [where C = C and i = ?i and name = name and now = now and fresh = fresh and fresh_id = fresh_id])
        case (err e)
        then show ?thesis
          using t taken ok1 by (intro refused [of Io_Authentication ?h1]) (simp_all add: admit_def)
      next
        case (ok s r q g)
        let ?g = "g\<lparr>dg_allow_input := allow\<rparr>" and ?h2 = "granted C t ?i (g\<lparr>dg_allow_input := allow\<rparr>) ?h"
        have g: "?g = \<lparr>dg_id = secret_hash C r, dg_name = name, dg_allow_input = allow, dg_secret = s\<rparr>" using ok(7) by simp
        have new: "map_of (bk_devices ?b) (secret_hash C r) = None"
          using tracedD(1) [OF pairing_okD(7) [OF assms(1), unfolded traced_ok_def]] fresh ok(2) by auto
        have valid: "valid_id (secret_hash C r)" using hash_valid [OF pairing_okD(1) [OF assms(1)]] by blast
        have len: "length s = 32" using ok(1) names(2) by (simp add: random_ok_def)
        have "book_ok (ho_book ?h2)"
          using approve_ok [OF pairing_okD(3) [OF assms(1)] ok(3,4) names(1) valid len new] unfolding granted_def g by simp
        then obtain bytes where bytes: "host_encode C J ?h2 = Inr bytes"
          using restore_encoded [OF pairing_okD(1,2) [OF assms(1)], of ?h2] pairing_okD(6) [OF assms(1)]
          by (auto simp: stored_ok_def granted_def)
        have book: "snd (set_book_permission (secret_hash C r) allow
            (?b\<lparr>bk_pending := AList.delete ?i (bk_pending ?b), bk_devices := AList.update (secret_hash C r) g (bk_devices ?b)\<rparr>)) = ho_book ?h2"
          using ok(7) by (simp add: set_book_permission_def granted_def alist_simps)
        have step: "admit C J hello name now persist approval fresh fresh_id ?h = Some (case persist_host persist bytes ?h2 of
             None \<Rightarrow> (Inl Io_Persist, ?h2\<lparr>ho_book := snd (book_revoke (secret_hash C r) (ho_book ?h2))\<rparr>)
           | Some h \<Rightarrow> (Inr (Secure_Enrolled (secret_hash C r) (expose_encoded C s), allow, secret_hash C r), h))"
          using t taken ok bytes book by (simp add: admit_def Let_def granted_def split: option.split)
        show ?thesis
        proof (cases "persist bytes")
          case True
          then show ?thesis
            using step t taken ok g valid len bytes
            by (intro enrolled [of t p allow s ?g bytes]) (simp_all add: persist_host_def invitation_valid_def invitation_secret_def)
        next
          case False
          let ?h3 = "?h1\<lparr>ho_book := book_cancel ?i ?b\<rparr>"
          have "?h2\<lparr>ho_book := snd (book_revoke (secret_hash C r) (ho_book ?h2))\<rparr> = ?h3"
            using ok(7) new by (simp add: granted_def book_revoke_def book_cancel_def delete_update_fresh)
          moreover have "pairing_ok C J (sy\<lparr>ps_host := ?h3\<rparr>)"
            using drop_pending [OF ok1 book_cancel_ok [OF pairing_okD(3) [OF ok1], of ?i]]
            by (auto simp: book_cancel_def alist_simps simp del: keep_maps split: if_splits)
          ultimately show ?thesis
            using step False by (intro refused [of Io_Persist ?h3]) (simp_all add: persist_host_def book_cancel_def)
        qed
      qed
    qed
  qed
qed

lemma traced_enrol:
  assumes tr: "traced P D Q ids re dec en" and Q: "Q t = Some p" "ap_allowed_input p = Some allow"
    and new: "k \<notin> ids" and P: "ap_invitation p \<in> P" and name: "dg_name g = pr_name (ap_summary p)"
  shows "traced (P - {ap_invitation p}) (D(k \<mapsto> g)) (Q(t := None)) (ids \<union> {k}) re dec (en \<union> {(k, t, ap_invitation p)})"
proof (rule tracedI)
  let ?i = "ap_invitation p"
  have known: "t \<in> ids" "?i \<in> ids" using tracedD(1) [OF tr] Q(1) P by blast+
  show "P - {?i} \<union> dom (D(k \<mapsto> g)) \<union> dom (Q(t := None)) \<subseteq> ids \<union> {k}" using tracedD(1) [OF tr] by auto
  show "(u, ap_invitation q, pr_name (ap_summary q), b) \<in> dec" if "(Q(t := None)) u = Some q" "ap_allowed_input q = Some b" for u q b
    using that tracedD(2) [OF tr, of u q b] by (simp split: if_splits)
  show "d \<in> ids \<union> {k} \<and> u \<in> ids \<union> {k} - dom (Q(t := None)) \<and> i \<in> ids \<union> {k} - (P - {?i})"
    if "(d, u, i) \<in> en \<union> {(k, t, ?i)}" for d u i
    using that tracedD(3) [OF tr, of d u i] known by auto
  have apart: "d \<noteq> k" "u \<noteq> t" "i \<noteq> ?i" if "(d, u, i) \<in> en" for d u i
    using tracedD(3) [OF tr that] new Q(1) P by auto
  show "d = d' \<and> u = u' \<and> i = i'"
    if "(d, u, i) \<in> en \<union> {(k, t, ?i)}" "(d', u', i') \<in> en \<union> {(k, t, ?i)}" "d = d' \<or> u = u' \<or> i = i'" for d u i d' u' i'
  proof (cases "(d, u, i) \<in> en"; cases "(d', u', i') \<in> en")
    assume en: "(d, u, i) \<in> en" "(d', u', i') \<in> en"
    show ?thesis by (rule tracedD(4) [OF tr en that(3)])
  qed (use that apart in blast)+
  show "d \<in> re \<or> (\<exists>u i b. (d, u, i) \<in> en \<union> {(k, t, ?i)} \<and> (u, i, dg_name g', b) \<in> dec)" if "(D(k \<mapsto> g)) d = Some g'" for d g'
  proof (cases "d = k")
    case True
    then show ?thesis using that tracedD(2) [OF tr Q] name by auto
  next
    case False
    then show ?thesis using that tracedD(5) [OF tr, of d g'] by auto
  qed
qed

lemma more_ids:
  assumes "pairing_ok C J sy"
  shows "pairing_ok C J (sy\<lparr>ps_ids := ps_ids sy \<union> N\<rparr>)"
proof -
  note tr = pairing_okD(7) [OF assms, unfolded traced_ok_def]
  have "traced_ok (sy\<lparr>ps_ids := ps_ids sy \<union> N\<rparr>)"
    unfolding traced_ok_def by (simp, rule tracedI) (use tracedD [OF tr] in blast)+
  then show ?thesis using assms by (simp add: pairing_ok_def)
qed

lemma is_active_cancelled [simp]: "\<not> is_active (s\<lparr>se_cancelled := True\<rparr>)"
  by (simp add: is_active_def)

lemma cancelled_entry:
  assumes "i < length xs"
  shows "se_input (xs[m := (xs ! m)\<lparr>se_cancelled := True\<rparr>] ! i) = se_input (xs ! i)"
    "is_active (xs[m := (xs ! m)\<lparr>se_cancelled := True\<rparr>] ! i) \<longleftrightarrow> i \<noteq> m \<and> is_active (xs ! i)"
  using assms by (cases "i = m"; simp add: is_active_def)+

lemma open_session_result:
  assumes "snd (open_session resp allow k via h) \<noteq> h"
    and "\<And>m v. map_of (ho_active h) k = Some (m, v) \<Longrightarrow> m < length (ho_sessions h)"
  shows "snd (open_session resp allow k via h) = h\<lparr>ho_sessions := case map_of (ho_active h) k of
      None \<Rightarrow> ho_sessions h @ [authorization_new allow]
    | Some (m, _) \<Rightarrow> (ho_sessions h @ [authorization_new allow])[m := (ho_sessions h ! m)\<lparr>se_cancelled := True\<rparr>],
    ho_active := AList.update k (length (ho_sessions h), via) (ho_active h)\<rparr>"
proof (cases "map_of (ho_active h) k")
  case None
  then show ?thesis using assms(1) by (simp add: open_session_def Let_def)
next
  case (Some x)
  obtain m v where "x = (m, v)" by (cases x)
  then show ?thesis
    using Some assms by (auto simp: open_session_def Let_def cancel_session_def with_session_def nth_append split: if_splits)
qed

lemma open_session_ok:
  assumes ok: "pairing_ok C J sy" and g: "map_of (bk_devices (ho_book (ps_host sy))) k = Some g" "allow = dg_allow_input g"
  shows "pairing_ok C J (sy\<lparr>ps_host := snd (open_session resp allow k via (ps_host sy))\<rparr>)"
proof -
  let ?h = "ps_host sy" and ?n = "length (ho_sessions (ps_host sy))"
  have s: "sessions_ok ?h" by (rule pairing_okD(5) [OF ok])
  have old: "n < ?n \<and> (\<exists>g. map_of (bk_devices (ho_book ?h)) k' = Some g \<and> se_input (ho_sessions ?h ! n) = dg_allow_input g)"
    if "map_of (ho_active ?h) k' = Some (n, v)" for k' n v
    using s that unfolding sessions_ok_def by blast
  have once: "k' = k''" if "map_of (ho_active ?h) k' = Some (n, v)" "map_of (ho_active ?h) k'' = Some (n, v')" for k' k'' n v v'
    using s that unfolding sessions_ok_def by blast
  have live: "\<exists>k v. map_of (ho_active ?h) k = Some (n, v)" if "n < ?n" "is_active (ho_sessions ?h ! n)" for n
    using s that unfolding sessions_ok_def by blast
  show ?thesis
  proof (cases "snd (open_session resp allow k via ?h) = ?h")
    case True
    then show ?thesis using ok by simp
  next
    case False
    define S where "S = (case map_of (ho_active ?h) k of None \<Rightarrow> ho_sessions ?h @ [authorization_new allow]
      | Some (m, _) \<Rightarrow> (ho_sessions ?h @ [authorization_new allow])[m := (ho_sessions ?h ! m)\<lparr>se_cancelled := True\<rparr>])"
    have h': "snd (open_session resp allow k via ?h) = ?h\<lparr>ho_sessions := S, ho_active := AList.update k (?n, via) (ho_active ?h)\<rparr>"
      by (rule open_session_result [OF False, folded S_def]) (use old in blast)
    have S: "length S = Suc ?n" "S ! ?n = authorization_new allow"
        "\<And>i. i < ?n \<Longrightarrow> se_input (S ! i) = se_input (ho_sessions ?h ! i)" "\<And>i. i < ?n \<Longrightarrow> is_active (S ! i) \<Longrightarrow> is_active (ho_sessions ?h ! i)"
        "\<And>i v. map_of (ho_active ?h) k = Some (i, v) \<Longrightarrow> \<not> is_active (S ! i)"
    proof -
      have entry: "S = (case map_of (ho_active ?h) k of None \<Rightarrow> ho_sessions ?h @ [authorization_new allow]
        | Some (m, _) \<Rightarrow> (ho_sessions ?h)[m := (ho_sessions ?h ! m)\<lparr>se_cancelled := True\<rparr>] @ [authorization_new allow])"
        unfolding S_def using old [of k] by (auto simp: list_update_append split: option.split simp del: keep_maps)
      show "length S = Suc ?n" "S ! ?n = authorization_new allow"
        unfolding entry by (auto simp: nth_append split: option.split)
      show "se_input (S ! i) = se_input (ho_sessions ?h ! i)" "is_active (S ! i) \<Longrightarrow> is_active (ho_sessions ?h ! i)" if "i < ?n" for i
        using that unfolding entry by (simp_all add: nth_append cancelled_entry split: option.splits prod.splits)
      show "\<not> is_active (S ! i)" if "map_of (ho_active ?h) k = Some (i, v)" for i v
        using that old [OF that] unfolding entry by (simp add: nth_append is_active_def del: keep_maps)
    qed
    have parts: "ho_sessions (snd (open_session resp allow k via ?h)) = S" "ho_book (snd (open_session resp allow k via ?h)) = ho_book ?h"
      "ho_active (snd (open_session resp allow k via ?h)) = AList.update k (?n, via) (ho_active ?h)"
      by (simp_all add: h')
    have "sessions_ok (snd (open_session resp allow k via ?h))"
      unfolding sessions_ok_def parts
    proof (intro conjI allI impI)
      fix k' n v
      assume k': "map_of (AList.update k (?n, via) (ho_active ?h)) k' = Some (n, v)"
      show "n < length S" using k' old [of k' n v] S(1) by (auto simp: alist_simps simp del: keep_maps split: if_splits)
      show "\<exists>g. map_of (bk_devices (ho_book ?h)) k' = Some g \<and> se_input (S ! n) = dg_allow_input g"
      proof (cases "k' = k")
        case True
        then show ?thesis using k' S(2) g by (simp add: alist_simps authorization_new_def del: keep_maps)
      next
        case False
        then have "map_of (ho_active ?h) k' = Some (n, v)" using k' by (simp add: alist_simps del: keep_maps)
        then show ?thesis using old [of k' n v] S(3) [of n] by auto
      qed
      fix k'' v'
      assume "map_of (AList.update k (?n, via) (ho_active ?h)) k'' = Some (n, v')"
      with k' show "k' = k''"
        using old [of k' n v] old [of k'' n v'] once [of k' n v k'' v'] by (auto simp: alist_simps simp del: keep_maps split: if_splits)
    next
      fix n
      assume n: "n < length S" "is_active (S ! n)"
      show "\<exists>k' v. map_of (AList.update k (?n, via) (ho_active ?h)) k' = Some (n, v)"
      proof (cases "n = ?n")
        case True
        then show ?thesis by (auto simp: alist_simps simp del: keep_maps)
      next
        case False
        then have "n < ?n" using n(1) S(1) by simp
        then obtain k' v where k': "map_of (ho_active ?h) k' = Some (n, v)" using live S(4) n(2) by blast
        then have "k' \<noteq> k" using S(5) n(2) by blast
        then show ?thesis using k' by (intro exI [of _ k'] exI [of _ v]) (simp add: alist_simps del: keep_maps)
      qed
    qed
    then show ?thesis
      using pairing_okD [OF ok] stored_ok_cong [of "snd (open_session resp allow k via ?h)" ?h C J] by (simp add: pairing_ok_def traced_ok_def h')
  qed
qed

lemma stored_encoded:
  assumes libs: "codec_ok C" "json_ok J" and book: "book_ok (ho_book h)"
    and keys: "length (hk_secret (ho_key h)) = 32" "length (hk_public (ho_key h)) = 32" and bytes: "host_encode C J h = Inr bytes"
  shows "stored_ok C J (h\<lparr>ho_stored := Some bytes\<rparr>)"
proof -
  obtain bytes' where "host_encode C J h = Inr bytes'"
    and r: "host_restore C J bytes' = Inr ((host_new (ho_key h))\<lparr>ho_book := book_default\<lparr>bk_devices := bk_devices (ho_book h)\<rparr>\<rparr>)"
    by (rule restore_encoded [OF libs book keys])
  then have "bytes' = bytes" using bytes by simp
  with r keys show ?thesis by (simp add: stored_ok_def host_new_def)
qed

lemma granted_ok:
  assumes ok: "pairing_ok C J sy" and new: "dg_id g \<notin> ps_ids sy"
    and p: "map_of (as_pending (ho_approvals (ps_host sy))) t = Some p" "ap_allowed_input p = Some allow"
      "map_of (bk_pending (ho_book (ps_host sy))) (ap_invitation p) \<noteq> None"
    and g: "g = \<lparr>dg_id = dg_id g, dg_name = pr_name (ap_summary p), dg_allow_input = allow, dg_secret = s\<rparr>" "length s = 32" "valid_id (dg_id g)"
      "\<not> bad_name (pr_name (ap_summary p))" "list_all is_scalar (pr_name (ap_summary p))"
    and bytes: "host_encode C J (granted C t (ap_invitation p) g (ps_host sy)) = Inr bytes"
  shows "pairing_ok C J (sy\<lparr>ps_host := (granted C t (ap_invitation p) g (ps_host sy))\<lparr>ho_stored := Some bytes\<rparr>,
    ps_ids := ps_ids sy \<union> {dg_id g}, ps_enrolled := ps_enrolled sy \<union> {(dg_id g, t, ap_invitation p)}\<rparr>)"
proof -
  let ?h = "ps_host sy" and ?h2 = "granted C t (ap_invitation p) g (ps_host sy)" and ?b = "ho_book (ps_host sy)"
  note tr = pairing_okD(7) [OF ok, unfolded traced_ok_def]
  have fresh: "map_of (bk_devices ?b) (dg_id g) = None" using tracedD(1) [OF tr] new by blast
  obtain q where q: "map_of (bk_pending ?b) (ap_invitation p) = Some q" using p(3) by blast
  have "AList.update (dg_id g) g (bk_devices ?b) = AList.update (dg_id g) \<lparr>dg_id = dg_id g, dg_name = pr_name (ap_summary p),
      dg_allow_input = allow, dg_secret = s\<rparr> (bk_devices ?b)"
    by (rule arg_cong [OF g(1)])
  then have book: "book_ok (ho_book ?h2)"
    using approve_ok [OF pairing_okD(3) [OF ok] q g(4,5,3,2) fresh, of allow] by (simp add: granted_def)
  have approvals: "approvals_ok (ho_approvals ?h2)"
    using approval_cancel_ok(2) [OF pairing_okD(4) [OF ok]] by (simp add: granted_def)
  have stored: "stored_ok C J (?h2\<lparr>ho_stored := Some bytes\<rparr>)"
    by (rule stored_encoded [OF pairing_okD(1,2) [OF ok] book _ _ bytes])
      (use pairing_okD(6) [OF ok] in \<open>simp_all add: stored_ok_def granted_def\<close>)
  have parts: "ho_active ?h2 = ho_active ?h" "ho_sessions ?h2 = ho_sessions ?h"
      "map_of (bk_devices (ho_book ?h2)) = (map_of (bk_devices ?b))(dg_id g \<mapsto> g)"
    by (simp_all add: granted_def alist_simps)
  have "sessions_ok ?h2"
  proof (rule sessions_okI, unfold parts)
    fix k n v
    assume "map_of (ho_active ?h) k = Some (n, v)"
    from sessions_okD(2) [OF pairing_okD(5) [OF ok] this] fresh
    show "\<exists>g'. ((map_of (bk_devices ?b))(dg_id g \<mapsto> g)) k = Some g' \<and> se_input (ho_sessions ?h ! n) = dg_allow_input g'" by auto
  qed (fact sessions_okD(1,3,4) [OF pairing_okD(5) [OF ok]])+
  then have sessions: "sessions_ok (?h2\<lparr>ho_stored := Some bytes\<rparr>)" using sessions_ok_cong [of "?h2\<lparr>ho_stored := Some bytes\<rparr>" ?h2] by simp
  have P: "ap_invitation p \<in> dom (map_of (bk_pending ?b))" using p(3) by blast
  have name: "dg_name g = pr_name (ap_summary p)" using g(1) by (metis device_grant.select_convs(2))
  have "dom (map_of (AList.delete (ap_invitation p) (bk_pending ?b))) = dom (map_of (bk_pending ?b)) - {ap_invitation p}"
    by (auto simp: alist_simps simp del: keep_maps)
  then have "traced_ok (sy\<lparr>ps_host := ?h2\<lparr>ho_stored := Some bytes\<rparr>, ps_ids := ps_ids sy \<union> {dg_id g},
      ps_enrolled := ps_enrolled sy \<union> {(dg_id g, t, ap_invitation p)}\<rparr>)"
    using traced_enrol [OF tr p(1,2) new P name] by (simp add: traced_ok_def granted_def approval_cancel_def alist_simps)
  then show ?thesis
    using pairing_okD(1,2) [OF ok] book approvals stored sessions by (simp add: pairing_ok_def)
qed

lemma ids_after: "sy\<lparr>ps_host := h, ps_ids := I, ps_enrolled := ps_enrolled sy\<rparr> = sy\<lparr>ps_host := h, ps_ids := I\<rparr>"
  "sy\<lparr>ps_ids := I, ps_host := h\<rparr> = sy\<lparr>ps_host := h, ps_ids := I\<rparr>"
  "sy\<lparr>ps_host := h', ps_ids := I, ps_enrolled := X, ps_host := h\<rparr> = sy\<lparr>ps_host := h, ps_ids := I, ps_enrolled := X\<rparr>"
  by (cases sy; simp)+

lemma enroll_ok:
  assumes ok: "pairing_ok C J sy" and fresh: "new_id C fresh_id \<inter> ps_ids sy = {}"
    and names: "list_all is_scalar name" "random_ok fresh" "random_ok fresh_id"
  shows "returns (enroll C J hello name now persist approval via fresh fresh_id (ps_host sy)) (\<lambda>(r, h).
    pairing_ok C J (sy\<lparr>ps_host := h, ps_ids := ps_ids sy \<union> new_id C fresh_id, ps_enrolled := ps_enrolled sy \<union> enrolment_of hello approval r\<rparr>))"
  using assms
proof (cases rule: admit_cases [where hello = hello and now = now and persist = persist and approval = approval])
  case (accepted g)
  have none: "enrolment_of hello approval (fst (open_session (Secure_Accepted k) allow d via h)) = {}" for k allow d h
    by (auto simp: enrolment_of_def open_session_def Let_def split: option.split)
  show ?thesis
    using open_session_ok [OF more_ids [OF ok, of "new_id C fresh_id"], of "he_grant hello" g "dg_allow_input g" "Secure_Accepted (he_grant hello)" via]
      accepted none by (simp add: enroll_def returns_def ids_after split_beta)
next
  case (refused e h)
  then show ?thesis
    using more_ids [OF refused(2), of "new_id C fresh_id"] by (simp add: enroll_def returns_def enrolment_of_def ids_after)
next
  case (enrolled t p allow s g bytes)
  let ?h = "(granted C t (he_grant hello) g (ps_host sy))\<lparr>ho_stored := Some bytes\<rparr>"
  let ?sy = "sy\<lparr>ps_host := ?h, ps_ids := ps_ids sy \<union> {dg_id g}, ps_enrolled := ps_enrolled sy \<union> {(dg_id g, t, he_grant hello)}\<rparr>"
  have new: "dg_id g \<notin> ps_ids sy" using fresh enrolled(13) by simp
  have ok2: "pairing_ok C J ?sy"
    using granted_ok [OF ok new enrolled(3,7), of s bytes] enrolled(4,5,8,10,12,14,15,16) names(1) by metis
  have "map_of (bk_devices (ho_book (ps_host sy))) (dg_id g) = None"
    using tracedD(1) [OF pairing_okD(7) [OF ok, unfolded traced_ok_def]] new by blast
  then have "map_of (ho_active (ps_host sy)) (dg_id g) = None"
    using sessions_okD(2) [OF pairing_okD(5) [OF ok], of "dg_id g"] by (cases "map_of (ho_active (ps_host sy)) (dg_id g)") auto
  then have "map_of (ho_active ?h) (dg_id g) = None" by (simp add: granted_def)
  then obtain n h3 where open_s: "open_session (Secure_Enrolled (dg_id g) (expose_encoded C s)) allow (dg_id g) via ?h =
      (Inr (Secure_Enrolled (dg_id g) (expose_encoded C s), allow, n), h3)"
    by (simp add: open_session_def Let_def del: keep_maps)
  have g: "map_of (bk_devices (ho_book (ps_host ?sy))) (dg_id g) = Some g" by (simp add: granted_def alist_simps)
  have "allow = dg_allow_input g" using enrolled(15) by (metis device_grant.select_convs(3))
  from open_session_ok [OF ok2 g this, of "Secure_Enrolled (dg_id g) (expose_encoded C s)" via]
  show ?thesis
    using enrolled(2,13,18) open_s by (simp add: enroll_def returns_def enrolment_of_def ids_after)
qed

section \<open>Changing a stored grant\<close>

text \<open>What revoking and changing a permission leave behind once the new content is stored.\<close>

definition revoked :: "string \<Rightarrow> octets \<Rightarrow> host \<Rightarrow> host" where
  "revoked k bytes h = (let h' = h\<lparr>ho_stored := Some bytes, ho_book := (ho_book h)\<lparr>bk_devices := AList.delete k (bk_devices (ho_book h))\<rparr>,
       ho_active := AList.delete k (ho_active h)\<rparr>
     in case map_of (ho_active h) k of None \<Rightarrow> h' | Some (n, _) \<Rightarrow> cancel_session n h')"

definition permitted :: "string \<Rightarrow> bool \<Rightarrow> device_grant \<Rightarrow> octets \<Rightarrow> host \<Rightarrow> host" where
  "permitted k allow g bytes h = (let h' = h\<lparr>ho_stored := Some bytes,
       ho_book := (ho_book h)\<lparr>bk_devices := AList.update k (g\<lparr>dg_allow_input := allow\<rparr>) (bk_devices (ho_book h))\<rparr>\<rparr>
     in case map_of (ho_active h) k of None \<Rightarrow> h' | Some (n, _) \<Rightarrow> set_input allow n h')"

text \<open>Restoring what is stored, changing the devices and storing it again.\<close>

lemma store_changed:
  assumes ok: "pairing_ok C J sy" and book: "book_ok (book_default\<lparr>bk_devices := ds\<rparr>)"
  obtains bytes r where "host_encode C J ((host_new (ho_key (ps_host sy)))\<lparr>ho_book := book_default\<lparr>bk_devices := ds\<rparr>\<rparr>) = Inr bytes"
    "host_restore C J bytes = Inr r" "ho_key r = ho_key (ps_host sy)" "bk_devices (ho_book r) = ds"
proof -
  let ?r = "(host_new (ho_key (ps_host sy)))\<lparr>ho_book := book_default\<lparr>bk_devices := ds\<rparr>\<rparr>"
  have keys: "length (hk_secret (ho_key ?r)) = 32" "length (hk_public (ho_key ?r)) = 32"
    using pairing_okD(6) [OF ok] by (simp_all add: stored_ok_def host_new_def)
  have "book_ok (ho_book ?r)" using book by simp
  from restore_encoded [OF pairing_okD(1,2) [OF ok] this keys] obtain bytes where
    "host_encode C J ?r = Inr bytes" "host_restore C J bytes = Inr ((host_new (ho_key ?r))\<lparr>ho_book := book_default\<lparr>bk_devices := bk_devices (ho_book ?r)\<rparr>\<rparr>)"
    by blast
  then show ?thesis by (intro that [of bytes ?r]) (simp_all add: host_new_def)
qed

lemma stored_roundtrip:
  assumes ok: "pairing_ok C J sy"
  obtains bytes where "host_encode C J (ps_host sy) = Inr bytes"
    "host_restore C J bytes = Inr ((host_new (ho_key (ps_host sy)))\<lparr>ho_book := book_default\<lparr>bk_devices := bk_devices (ho_book (ps_host sy))\<rparr>\<rparr>)"
  using restore_encoded [OF pairing_okD(1-3) [OF ok]] pairing_okD(6) [OF ok] unfolding stored_ok_def by blast

lemma devices_only:
  assumes "book_ok b"
  shows "book_ok (book_default\<lparr>bk_devices := bk_devices b\<rparr>)"
  using assms by (simp add: book_ok_def book_default_def del: keep_maps)

lemma revoke_cases [consumes 1, case_names unknown refused revoked]:
  assumes ok: "pairing_ok C J sy"
  obtains "map_of (bk_devices (ho_book (ps_host sy))) k = None" "host_revoke C J k persist (ps_host sy) = (Inr False, ps_host sy)"
  | bytes where "map_of (bk_devices (ho_book (ps_host sy))) k \<noteq> None" "\<not> persist bytes" "host_revoke C J k persist (ps_host sy) = (Inl Io_Persist, ps_host sy)"
  | g bytes r where "map_of (bk_devices (ho_book (ps_host sy))) k = Some g" "persist bytes" "host_restore C J bytes = Inr r"
      "ho_key r = ho_key (ps_host sy)" "bk_devices (ho_book r) = AList.delete k (bk_devices (ho_book (ps_host sy)))"
      "host_revoke C J k persist (ps_host sy) = (Inr True, revoked k bytes (ps_host sy))"
proof -
  let ?h = "ps_host sy" and ?ds = "bk_devices (ho_book (ps_host sy))"
  obtain bytes where b: "host_encode C J ?h = Inr bytes"
    "host_restore C J bytes = Inr ((host_new (ho_key ?h))\<lparr>ho_book := book_default\<lparr>bk_devices := ?ds\<rparr>\<rparr>)"
    by (rule stored_roundtrip [OF ok])
  have "book_ok (book_default\<lparr>bk_devices := AList.delete k ?ds\<rparr>)"
    using devices_only [OF book_revoke_ok [OF pairing_okD(3) [OF ok], of k]] by (simp add: book_revoke_def)
  from store_changed [OF ok this] obtain bytes' r where
    c: "host_encode C J ((host_new (ho_key ?h))\<lparr>ho_book := book_default\<lparr>bk_devices := AList.delete k ?ds\<rparr>\<rparr>) = Inr bytes'"
      "host_restore C J bytes' = Inr r" "ho_key r = ho_key ?h" "bk_devices (ho_book r) = AList.delete k ?ds"
    by blast
  show ?thesis
  proof (cases "map_of ?ds k")
    case None
    then show ?thesis using b by (intro that(1)) (simp_all add: host_revoke_def book_revoke_def)
  next
    case (Some g)
    show ?thesis
    proof (cases "persist bytes'")
      case True
      then show ?thesis
        using b c Some by (intro that(3) [of g bytes' r]) (simp_all add: host_revoke_def book_revoke_def persist_host_def revoked_def Let_def)
    next
      case False
      then show ?thesis
        using b c Some by (intro that(2) [of bytes']) (simp_all add: host_revoke_def book_revoke_def persist_host_def)
    qed
  qed
qed

lemma permit_cases [consumes 1, case_names unknown refused permitted]:
  assumes ok: "pairing_ok C J sy"
  obtains "map_of (bk_devices (ho_book (ps_host sy))) k = None" "set_input_permission C J k allow persist (ps_host sy) = (Inr False, ps_host sy)"
  | bytes where "map_of (bk_devices (ho_book (ps_host sy))) k \<noteq> None" "\<not> persist bytes" "set_input_permission C J k allow persist (ps_host sy) = (Inl Io_Persist, ps_host sy)"
  | g bytes r where "map_of (bk_devices (ho_book (ps_host sy))) k = Some g" "persist bytes" "host_restore C J bytes = Inr r"
      "ho_key r = ho_key (ps_host sy)" "bk_devices (ho_book r) = AList.update k (g\<lparr>dg_allow_input := allow\<rparr>) (bk_devices (ho_book (ps_host sy)))"
      "set_input_permission C J k allow persist (ps_host sy) = (Inr True, permitted k allow g bytes (ps_host sy))"
proof (cases "map_of (bk_devices (ho_book (ps_host sy))) k")
  case None
  obtain bytes where "host_encode C J (ps_host sy) = Inr bytes" "host_restore C J bytes = Inr ((host_new (ho_key (ps_host sy)))\<lparr>ho_book :=
      book_default\<lparr>bk_devices := bk_devices (ho_book (ps_host sy))\<rparr>\<rparr>)"
    by (rule stored_roundtrip [OF ok])
  then show ?thesis using None by (intro that(1)) (simp_all add: set_input_permission_def set_book_permission_def)
next
  case (Some g)
  let ?h = "ps_host sy" and ?ds = "bk_devices (ho_book (ps_host sy))"
  let ?ds' = "AList.update k (g\<lparr>dg_allow_input := allow\<rparr>) ?ds"
  obtain bytes where b: "host_encode C J ?h = Inr bytes"
    "host_restore C J bytes = Inr ((host_new (ho_key ?h))\<lparr>ho_book := book_default\<lparr>bk_devices := ?ds\<rparr>\<rparr>)"
    by (rule stored_roundtrip [OF ok])
  have "book_ok (book_default\<lparr>bk_devices := ?ds'\<rparr>)"
    using devices_only [OF set_book_permission_ok [OF pairing_okD(3) [OF ok], of k allow]] Some by (simp add: set_book_permission_def)
  from store_changed [OF ok this] obtain bytes' r where
    c: "host_encode C J ((host_new (ho_key ?h))\<lparr>ho_book := book_default\<lparr>bk_devices := ?ds'\<rparr>\<rparr>) = Inr bytes'"
      "host_restore C J bytes' = Inr r" "ho_key r = ho_key ?h" "bk_devices (ho_book r) = ?ds'"
    by blast
  show ?thesis
  proof (cases "persist bytes'")
    case True
    then show ?thesis
      using b c Some by (intro that(3) [of g bytes' r]) (simp_all add: set_input_permission_def set_book_permission_def persist_host_def permitted_def Let_def)
  next
    case False
    then show ?thesis
      using b c Some by (intro that(2) [of bytes']) (simp_all add: set_input_permission_def set_book_permission_def persist_host_def)
  qed
qed

lemma revoked_parts:
  "ho_key (revoked k bytes h) = ho_key h" "ho_approvals (revoked k bytes h) = ho_approvals h" "ho_stored (revoked k bytes h) = Some bytes"
  "ho_book (revoked k bytes h) = (ho_book h)\<lparr>bk_devices := AList.delete k (bk_devices (ho_book h))\<rparr>"
  "ho_active (revoked k bytes h) = AList.delete k (ho_active h)"
  "ho_sessions (revoked k bytes h) = (case map_of (ho_active h) k of None \<Rightarrow> ho_sessions h
     | Some (n, _) \<Rightarrow> (ho_sessions h)[n := (ho_sessions h ! n)\<lparr>se_cancelled := True\<rparr>])"
  by (simp_all add: revoked_def cancel_session_def with_session_def Let_def split: option.split)

lemma permitted_parts:
  "ho_key (permitted k allow g bytes h) = ho_key h" "ho_approvals (permitted k allow g bytes h) = ho_approvals h"
  "ho_stored (permitted k allow g bytes h) = Some bytes" "ho_active (permitted k allow g bytes h) = ho_active h"
  "ho_book (permitted k allow g bytes h) = (ho_book h)\<lparr>bk_devices := AList.update k (g\<lparr>dg_allow_input := allow\<rparr>) (bk_devices (ho_book h))\<rparr>"
  "ho_sessions (permitted k allow g bytes h) = (case map_of (ho_active h) k of None \<Rightarrow> ho_sessions h
     | Some (n, _) \<Rightarrow> (ho_sessions h)[n := (ho_sessions h ! n)\<lparr>se_input := allow\<rparr>])"
  by (simp_all add: permitted_def set_input_def with_session_def Let_def split: option.split)

lemma revoked_sessions:
  assumes ok: "sessions_ok h"
  shows "sessions_ok (revoked k bytes h)"
proof (rule sessions_okI)
  let ?S = "ho_sessions (revoked k bytes h)"
  have len: "length ?S = length (ho_sessions h)" by (simp add: revoked_parts split: option.split)
  have inputs: "se_input (?S ! i) = se_input (ho_sessions h ! i)"
      "is_active (?S ! i) \<longleftrightarrow> is_active (ho_sessions h ! i) \<and> (\<forall>v. map_of (ho_active h) k \<noteq> Some (i, v))" if "i < length (ho_sessions h)" for i
    using that by (auto simp: revoked_parts cancelled_entry simp del: keep_maps split: option.split)
  fix k' n v
  assume "map_of (ho_active (revoked k bytes h)) k' = Some (n, v)"
  then have k': "k' \<noteq> k" "map_of (ho_active h) k' = Some (n, v)" by (auto simp: revoked_parts alist_simps simp del: keep_maps split: if_splits)
  show "n < length ?S" using sessions_okD(1) [OF ok k'(2)] len by simp
  show "\<exists>g. map_of (bk_devices (ho_book (revoked k bytes h))) k' = Some g \<and> se_input (?S ! n) = dg_allow_input g"
    using sessions_okD(2) [OF ok k'(2)] inputs(1) [OF sessions_okD(1) [OF ok k'(2)]] k'(1) by (simp add: revoked_parts(4) alist_simps del: keep_maps)
  fix k'' v'
  assume "map_of (ho_active (revoked k bytes h)) k'' = Some (n, v')"
  then have "map_of (ho_active h) k'' = Some (n, v')" by (auto simp: revoked_parts alist_simps simp del: keep_maps split: if_splits)
  then show "k' = k''" by (rule sessions_okD(3) [OF ok k'(2)])
next
  let ?S = "ho_sessions (revoked k bytes h)"
  fix n
  assume n: "n < length ?S" "is_active (?S ! n)"
  have len: "length ?S = length (ho_sessions h)" by (simp add: revoked_parts split: option.split)
  have act: "is_active (ho_sessions h ! n)" "\<And>v. map_of (ho_active h) k \<noteq> Some (n, v)"
    using n len by (auto simp: revoked_parts cancelled_entry simp del: keep_maps split: option.splits)
  then obtain k' v where "map_of (ho_active h) k' = Some (n, v)" using sessions_okD(4) [OF ok, of n] n(1) len by auto
  moreover have "k' \<noteq> k" using act(2) calculation by blast
  ultimately show "\<exists>k' v. map_of (ho_active (revoked k bytes h)) k' = Some (n, v)"
    by (intro exI [of _ k'] exI [of _ v]) (simp add: revoked_parts(5) alist_simps del: keep_maps)
qed

lemma permitted_entry:
  assumes "i < length xs"
  shows "is_active (xs[m := (xs ! m)\<lparr>se_input := b\<rparr>] ! i) = is_active (xs ! i)"
    "se_input (xs[m := (xs ! m)\<lparr>se_input := b\<rparr>] ! i) = (if i = m then b else se_input (xs ! i))"
  using assms by (cases "i = m"; simp add: is_active_def)+

lemma permitted_sessions:
  assumes ok: "sessions_ok h" and g: "map_of (bk_devices (ho_book h)) k = Some g"
  shows "sessions_ok (permitted k allow g bytes h)"
proof (rule sessions_okI, unfold permitted_parts(4))
  let ?S = "ho_sessions (permitted k allow g bytes h)"
  have len: "length ?S = length (ho_sessions h)" by (simp add: permitted_parts split: option.split)
  have inputs: "is_active (?S ! i) = is_active (ho_sessions h ! i)"
      "se_input (?S ! i) = (if \<exists>v. map_of (ho_active h) k = Some (i, v) then allow else se_input (ho_sessions h ! i))" if "i < length (ho_sessions h)" for i
    using that by (auto simp: permitted_parts permitted_entry simp del: keep_maps split: option.split)
  show "n < length ?S" if "map_of (ho_active h) k' = Some (n, v)" for k' n v using sessions_okD(1) [OF ok that] len by simp
  show "k' = k''" if "map_of (ho_active h) k' = Some (n, v)" "map_of (ho_active h) k'' = Some (n, v')" for k' k'' n v v'
    by (rule sessions_okD(3) [OF ok that])
  show "\<exists>k' v. map_of (ho_active h) k' = Some (n, v)" if "n < length ?S" "is_active (?S ! n)" for n
    using that len inputs(1) [of n] sessions_okD(4) [OF ok, of n] by simp
  show "\<exists>g'. map_of (bk_devices (ho_book (permitted k allow g bytes h))) k' = Some g' \<and> se_input (?S ! n) = dg_allow_input g'"
    if k': "map_of (ho_active h) k' = Some (n, v)" for k' n v
  proof (cases "k' = k")
    case True
    then show ?thesis using k' inputs(2) [OF sessions_okD(1) [OF ok k']] by (auto simp: permitted_parts(5) alist_simps simp del: keep_maps)
  next
    case False
    then have "\<not> (\<exists>v. map_of (ho_active h) k = Some (n, v))" using sessions_okD(3) [OF ok k'] by blast
    then show ?thesis
      using False sessions_okD(2) [OF ok k'] inputs(2) [OF sessions_okD(1) [OF ok k']] by (simp add: permitted_parts(5) alist_simps del: keep_maps)
  qed
qed

lemma changed_host_ok:
  assumes ok: "pairing_ok C J sy" and h: "ho_key h = ho_key (ps_host sy)" "ho_approvals h = ho_approvals (ps_host sy)"
      "bk_pending (ho_book h) = bk_pending (ho_book (ps_host sy))" "ho_stored h = Some bytes"
    and ok': "book_ok (ho_book h)" "sessions_ok h"
    and r: "host_restore C J bytes = Inr r" "ho_key r = ho_key (ps_host sy)" "bk_devices (ho_book r) = bk_devices (ho_book h)"
    and old: "\<And>k g. map_of (bk_devices (ho_book h)) k = Some g \<Longrightarrow> \<exists>g'. map_of (bk_devices (ho_book (ps_host sy))) k = Some g' \<and> dg_name g' = dg_name g"
  shows "pairing_ok C J (sy\<lparr>ps_host := h\<rparr>)"
proof -
  have "stored_ok C J h" using pairing_okD(6) [OF ok] h(1,4) r by (simp add: stored_ok_def)
  moreover have "traced_ok (sy\<lparr>ps_host := h\<rparr>)"
    using traced_devices [OF pairing_okD(7) [OF ok, unfolded traced_ok_def] old] h(2,3) by (simp add: traced_ok_def)
  ultimately show ?thesis using pairing_okD(1,2,4) [OF ok] h(2) ok' by (simp add: pairing_ok_def)
qed

lemma revoke_ok:
  assumes ok: "pairing_ok C J sy"
  shows "pairing_ok C J (sy\<lparr>ps_host := snd (host_revoke C J k persist (ps_host sy))\<rparr>)"
  using ok
proof (cases rule: revoke_cases [where k = k and persist = persist])
  case (revoked g bytes r)
  have "pairing_ok C J (sy\<lparr>ps_host := revoked k bytes (ps_host sy)\<rparr>)"
  proof (rule changed_host_ok [OF ok _ _ _ _ _ _ revoked(3,4)])
    show "book_ok (ho_book (revoked k bytes (ps_host sy)))"
      using book_revoke_ok [OF pairing_okD(3) [OF ok], of k] by (simp add: revoked_parts book_revoke_def)
    show "sessions_ok (revoked k bytes (ps_host sy))" by (rule revoked_sessions [OF pairing_okD(5) [OF ok]])
    show "\<exists>g'. map_of (bk_devices (ho_book (ps_host sy))) k' = Some g' \<and> dg_name g' = dg_name g"
      if "map_of (bk_devices (ho_book (revoked k bytes (ps_host sy)))) k' = Some g" for k' g
      using that by (auto simp: revoked_parts alist_simps simp del: keep_maps split: if_splits)
  qed (simp_all add: revoked_parts(1-4) revoked(5))
  then show ?thesis using revoked(6) by simp
qed (use ok in simp_all)

lemma permit_ok:
  assumes ok: "pairing_ok C J sy"
  shows "pairing_ok C J (sy\<lparr>ps_host := snd (set_input_permission C J k allow persist (ps_host sy))\<rparr>)"
  using ok
proof (cases rule: permit_cases [where k = k and persist = persist and allow = allow])
  case (permitted g bytes r)
  have "pairing_ok C J (sy\<lparr>ps_host := permitted k allow g bytes (ps_host sy)\<rparr>)"
  proof (rule changed_host_ok [OF ok _ _ _ _ _ _ permitted(3,4)])
    show "book_ok (ho_book (permitted k allow g bytes (ps_host sy)))"
      using set_book_permission_ok [OF pairing_okD(3) [OF ok], of k allow] permitted(1) by (simp add: permitted_parts set_book_permission_def)
    show "sessions_ok (permitted k allow g bytes (ps_host sy))" by (rule permitted_sessions [OF pairing_okD(5) [OF ok] permitted(1)])
    show "\<exists>g'. map_of (bk_devices (ho_book (ps_host sy))) k' = Some g' \<and> dg_name g' = dg_name q"
      if "map_of (bk_devices (ho_book (permitted k allow g bytes (ps_host sy)))) k' = Some q" for k' q
      using that permitted(1) by (auto simp: permitted_parts alist_simps simp del: keep_maps split: if_splits)
  qed (simp_all add: permitted_parts(1-5) permitted(5))
  then show ?thesis using permitted(6) by simp
qed (use ok in simp_all)

section \<open>Starting\<close>

lemma restore_entries_ok:
  assumes "restore_entries C vs b = Inr b'" "book_ok b" "\<forall>v \<in> set vs. list_all is_scalar (en_name v)"
    "length (bk_devices b) + length (bk_pending b) + length vs \<le> MAX_DEVICES"
  shows "book_ok b' \<and> bk_pending b' = bk_pending b"
  using assms
proof (induction vs arbitrary: b)
  case (Cons v vs)
  obtain x where v: "valid_id (en_id v)" "\<not> bad_name (en_name v)" "map_of (bk_devices b) (en_id v) = None" "secret_decode C (en_secret v) = Some x"
    using Cons.prems(1) by (auto split: if_splits option.splits)
  let ?g = "\<lparr>dg_id = en_id v, dg_name = en_name v, dg_allow_input = en_allow_input v, dg_secret = x\<rparr>"
  have "length x = 32" using v(4) by (auto simp: secret_decode_def split: if_splits option.splits)
  then have ok: "book_ok (b\<lparr>bk_devices := AList.update (en_id v) ?g (bk_devices b)\<rparr>)"
    using Cons.prems(2-4) v by (simp add: book_ok_def alist_simps distinct_update length_update del: keep_maps)
  show ?case
    using Cons.IH [OF _ ok] Cons.prems v by (simp add: length_update del: keep_maps)
qed simp

lemma restored_host:
  assumes libs: "codec_ok C" "json_ok J" and r: "host_restore C J bytes = Inr h"
  shows "book_ok (ho_book h) \<and> bk_pending (ho_book h) = [] \<and> length (hk_secret (ho_key h)) = 32 \<and> length (hk_public (ho_key h)) = 32 \<and>
    ho_active h = [] \<and> ho_sessions h = [] \<and> ho_approvals h = approvals_default"
proof -
  obtain saved public prv book where s: "js_read_saved J bytes = Some saved" "length public = 32" "secret_decode C (sv_private_key saved) = Some prv"
      "restore_devices C J (sv_devices saved) = Inr book" "h = (host_new \<lparr>hk_secret = prv, hk_public = public\<rparr>)\<lparr>ho_book := book\<rparr>"
    using r by (auto simp: host_restore_def split: if_splits option.splits sum.splits)
  have "length prv = 32" using s(3) by (auto simp: secret_decode_def split: if_splits option.splits)
  moreover obtain vs where vs: "js_read_devices J (sv_devices saved) = Some vs" "length vs \<le> MAX_DEVICES" "restore_entries C vs book_default = Inr book"
    using s(4) by (auto simp: restore_devices_def not_less split: if_splits option.splits)
  moreover have "book_ok book_default" by (simp add: book_ok_def book_default_def)
  ultimately show ?thesis
    using restore_entries_ok [OF vs(3)] libs(2) s(2) unfolding s(5) json_ok_def by (auto simp: host_new_def book_default_def)
qed

lemma start_pairing_ok:
  assumes "pairing_start C J sy"
  shows "pairing_ok C J sy"
proof -
  have libs: "codec_ok C" "json_ok J" using assms by (auto simp: pairing_start_def)
  obtain h where sy: "sy = system_of h" and stored: "stored_ok C J h" and h: "book_ok (ho_book h)" "bk_pending (ho_book h) = []" "ho_active h = []"
      "ho_sessions h = []" "ho_approvals h = approvals_default"
    using assms unfolding pairing_start_def
  proof (elim conjE disjE exE)
    fix k assume "length (hk_secret k) = 32" "length (hk_public k) = 32" "sy = system_of (host_new k)"
    then show ?thesis by (intro that [of "host_new k"]) (simp_all add: host_new_def stored_ok_def book_ok_def book_default_def)
  next
    fix bytes h assume r: "host_restore C J bytes = Inr h" "sy = system_of (h\<lparr>ho_stored := Some bytes\<rparr>)"
    then show ?thesis
      using restored_host [OF libs r(1)] by (intro that [of "h\<lparr>ho_stored := Some bytes\<rparr>"]) (simp_all add: stored_ok_def)
  qed
  have "sessions_ok h" using h by (simp add: sessions_ok_def)
  moreover have "approvals_ok (ho_approvals h)" using h by (simp add: approvals_ok_def approvals_default_def)
  moreover have "traced_ok (system_of h)"
    using h by (auto simp: traced_ok_def traced_def system_of_def approvals_default_def dom_map_of_conv_image_fst dest!: map_of_SomeD intro: rev_image_eqI)
  ultimately show ?thesis using libs stored h(1) unfolding sy by (simp add: pairing_ok_def system_of_def)
qed

interpretation pairing: machine "pairing_step C J A" "pairing_guard C" "pairing_start C J" "\<lambda>_. pairing_ok C J" "\<lambda>_. True" for C J A
proof
  show "returns (pairing_step C J A call sy) (pairing_ok C J)" if "pairing_ok C J sy" "pairing_guard C call sy" for call sy
  proof (cases call)
    case (Enroll hello name now persist approval via fresh fresh_id)
    then show ?thesis
      using that enroll_ok [of C J sy fresh_id name fresh hello now persist approval via] by (auto simp: returns_def)
  qed (use that in \<open>simp_all add: issue_ok cancel_invitation_ok request_ok cancel_request_ok stop_waiting_ok decide_ok revoke_ok permit_ok mark_ok leave_ok Let_def\<close>)
qed (auto simp: start_pairing_ok)

section \<open>Properties\<close>

lemma enroll_granted:
  assumes ok: "pairing_ok C J sy" and new: "secret_hash C r \<notin> ps_ids sy" and rand: "length s = 32" and name: "list_all is_scalar name" "\<not> bad_name name"
    and inv: "he_invitation hello" "invitation_valid (he_grant hello) now (ps_host sy)"
    and p: "map_of (as_pending (ho_approvals (ps_host sy))) t = Some p" "ap_invitation p = he_grant hello" "pr_name (ap_summary p) = name"
      "now < pr_expires_at (ap_summary p)" "ap_allowed_input p = Some allow"
    and g: "g = \<lparr>dg_id = secret_hash C r, dg_name = name, dg_allow_input = allow, dg_secret = s\<rparr>"
    and bytes: "persist bytes" "host_encode C J (granted C t (he_grant hello) g (ps_host sy)) = Inr bytes"
  obtains m h' q where "enroll C J hello name now persist (Some t) via (Some s) (Some r) (ps_host sy) =
      Some (Inr (Secure_Enrolled (dg_id g) (expose_encoded C (dg_secret g)), allow, m), h')"
    "map_of (bk_devices (ho_book h')) (dg_id g) = Some g" "ho_stored h' = Some bytes"
    "host_restore C J bytes = Inr q" "map_of (bk_devices (ho_book q)) (dg_id g) = Some g"
    "allow_input (ho_sessions h' ! m) = allow" "\<And>now'. \<not> invitation_valid (he_grant hello) now' h'"
proof -
  let ?h = "ps_host sy" and ?i = "he_grant hello" and ?k = "secret_hash C r"
  let ?h2 = "(granted C t ?i g ?h)\<lparr>ho_stored := Some bytes\<rparr>"
  obtain x where x: "map_of (bk_pending (ho_book ?h)) ?i = Some x" "\<not> now < pi_issued_at x" "\<not> pi_expires_at x \<le> now"
    using inv(2) by (auto simp: invitation_valid_def invitation_secret_def simp del: keep_maps split: option.splits if_splits)
  have id: "dg_id g = ?k" "dg_secret g = s" "dg_allow_input g = allow" by (simp_all add: g)
  have book: "snd (set_book_permission ?k allow ((ho_book ?h)\<lparr>bk_pending := AList.delete ?i (bk_pending (ho_book ?h)),
      bk_devices := AList.update ?k \<lparr>dg_id = ?k, dg_name = name, dg_allow_input = pi_allow_input x, dg_secret = s\<rparr> (bk_devices (ho_book ?h))\<rparr>)) =
      ho_book (granted C t ?i g ?h)"
    by (simp add: set_book_permission_def granted_def alist_simps g)
  have same: "?h\<lparr>ho_approvals := approval_cancel t (ho_approvals ?h), ho_book := ho_book (granted C t ?i g ?h)\<rparr> = granted C t ?i g ?h"
    by (simp add: granted_def)
  have take: "take_approved t ?i name now (ho_approvals ?h) = (Inr allow, approval_cancel t (ho_approvals ?h))"
    using p by (simp add: take_approved_def approval_cancel_def)
  have admit: "admit C J hello name now persist (Some t) (Some s) (Some r) ?h = Some (Inr (Secure_Enrolled ?k (expose_encoded C s), allow, ?k), ?h2)"
    using inv(1) x name(2) book bytes take same
    by (simp add: admit_def approve_authenticated_def invitation_secret_def persist_host_def Let_def alist_simps)
  have "map_of (bk_devices (ho_book ?h)) ?k = None"
    using tracedD(1) [OF pairing_okD(7) [OF ok, unfolded traced_ok_def]] new by blast
  then have "map_of (ho_active ?h) ?k = None"
    using sessions_okD(2) [OF pairing_okD(5) [OF ok], of ?k] by (cases "map_of (ho_active ?h) ?k") auto
  then have open_s: "open_session resp allow ?k via ?h2 = (Inr (resp, allow, length (ho_sessions ?h)),
      ?h2\<lparr>ho_sessions := ho_sessions ?h @ [authorization_new allow], ho_active := AList.update ?k (length (ho_sessions ?h), via) (ho_active ?h)\<rparr>)" for resp
    by (simp add: open_session_def Let_def granted_def del: keep_maps)
  have valid: "valid_id ?k" using hash_valid [OF pairing_okD(1) [OF ok]] by blast
  have "pairing_ok C J (sy\<lparr>ps_host := ?h2, ps_ids := ps_ids sy \<union> {dg_id g}, ps_enrolled := ps_enrolled sy \<union> {(dg_id g, t, ap_invitation p)}\<rparr>)"
    using granted_ok [OF ok _ p(1,5), of g s bytes] new valid name rand x(1) bytes(2) p(2,3) id by (simp add: g)
  from pairing_okD(6) [OF this] obtain q where q: "host_restore C J bytes = Inr q" "bk_devices (ho_book q) = bk_devices (ho_book ?h2)"
    by (auto simp: stored_ok_def)
  let ?h3 = "?h2\<lparr>ho_sessions := ho_sessions ?h @ [authorization_new allow], ho_active := AList.update ?k (length (ho_sessions ?h), via) (ho_active ?h)\<rparr>"
  have dev: "map_of (bk_devices (ho_book ?h2)) (dg_id g) = Some g" by (simp add: granted_def alist_simps)
  show ?thesis
  proof (rule that [of "length (ho_sessions ?h)" ?h3 q])
    show "enroll C J hello name now persist (Some t) via (Some s) (Some r) ?h =
        Some (Inr (Secure_Enrolled (dg_id g) (expose_encoded C (dg_secret g)), allow, length (ho_sessions ?h)), ?h3)"
      using admit open_s id by (simp add: enroll_def)
    show "\<not> invitation_valid ?i now' ?h3" for now'
      by (simp add: invitation_valid_def invitation_secret_def granted_def alist_simps)
  qed (use q dev in \<open>simp_all add: allow_input_def is_active_def authorization_new_def\<close>)
qed

lemma enrolled_only_if:
  assumes ok: "pairing_ok C J sy" and fresh: "new_id C fresh_id \<inter> ps_ids sy = {}" and names: "list_all is_scalar name" "random_ok fresh" "random_ok fresh_id"
    and inv: "he_invitation hello" and r: "enroll C J hello name now persist (Some t) via fresh fresh_id (ps_host sy) = Some (Inr (resp, allow, m), h')"
  obtains p s r bytes where "map_of (as_pending (ho_approvals (ps_host sy))) t = Some p" "ap_invitation p = he_grant hello" "pr_name (ap_summary p) = name"
    "now < pr_expires_at (ap_summary p)" "ap_allowed_input p = Some allow" "(t, he_grant hello, name, allow) \<in> ps_decided sy"
    "invitation_valid (he_grant hello) now (ps_host sy)" "\<not> bad_name name" "fresh = Some s" "length s = 32" "fresh_id = Some r" "persist bytes"
    "host_encode C J (granted C t (he_grant hello) \<lparr>dg_id = secret_hash C r, dg_name = name, dg_allow_input = allow, dg_secret = s\<rparr> (ps_host sy)) = Inr bytes"
  using ok fresh names
proof (cases rule: admit_cases [where hello = hello and now = now and persist = persist and approval = "Some t"])
  case (accepted g)
  then show ?thesis using inv by simp
next
  case (refused e h)
  then show ?thesis using r by (simp add: enroll_def)
next
  case (enrolled u p b s g bytes)
  obtain r where r': "fresh_id = Some r" "dg_id g = secret_hash C r" using enrolled(13) by (cases fresh_id) auto
  have b: "b = allow" using r enrolled(18) by (auto simp: enroll_def open_session_def Let_def split: if_splits)
  have u: "u = t" using enrolled(2) by simp
  have "(t, he_grant hello, name, allow) \<in> ps_decided sy"
    using tracedD(2) [OF pairing_okD(7) [OF ok, unfolded traced_ok_def] enrolled(3,7)] enrolled(4,5) b u by simp
  moreover have "host_encode C J (granted C t (he_grant hello) \<lparr>dg_id = secret_hash C r, dg_name = name, dg_allow_input = allow, dg_secret = s\<rparr> (ps_host sy)) = Inr bytes"
  proof -
    have "g = \<lparr>dg_id = secret_hash C r, dg_name = name, dg_allow_input = allow, dg_secret = s\<rparr>"
      using enrolled(15) unfolding r'(2) b .
    then show ?thesis using enrolled(16) u by simp
  qed
  ultimately show ?thesis using that [of p s r bytes] enrolled r'(1) b u by simp
qed

lemma pairing_reached:
  assumes "reaches (pairing_step C J A) (pairing_guard C) (pairing_start C J) n sy"
  shows "pairing_ok C J sy"
  by (rule pairing.reaches_invariant [OF assms]) simp

text \<open>
  C14: every device stems from an approval. In every state that calls of the desktop can reach no call panics, there are at most
  32 grants and invitations and eight waiting requests, and every device was in the credential store
  at the start or was enrolled with a ticket and an invitation that the user approved for that name.
  No ticket and no invitation gives two devices. Every session that is still authorised belongs
  to a device of the book and may send input exactly if the grant of the device allows it.
\<close>

theorem devices_are_approved:
  assumes "reaches (pairing_step C J A) (pairing_guard C) (pairing_start C J) n sy"
  shows "(pairing_guard C call sy \<longrightarrow> pairing_step C J A call sy \<noteq> None) \<and>
    length (bk_devices (ho_book (ps_host sy))) + length (bk_pending (ho_book (ps_host sy))) \<le> MAX_DEVICES \<and>
    length (as_pending (ho_approvals (ps_host sy))) \<le> 8 \<and>
    (\<forall>d g. map_of (bk_devices (ho_book (ps_host sy))) d = Some g \<longrightarrow>
       d \<in> ps_restored sy \<or> (\<exists>t i allow. (d, t, i) \<in> ps_enrolled sy \<and> (t, i, dg_name g, allow) \<in> ps_decided sy)) \<and>
    (\<forall>d t i d' t' i'. (d, t, i) \<in> ps_enrolled sy \<longrightarrow> (d', t', i') \<in> ps_enrolled sy \<longrightarrow> t = t' \<or> i = i' \<longrightarrow> d = d') \<and>
    (\<forall>m < length (ho_sessions (ps_host sy)). is_active (ho_sessions (ps_host sy) ! m) \<longrightarrow>
       (\<exists>k via g. map_of (ho_active (ps_host sy)) k = Some (m, via) \<and> map_of (bk_devices (ho_book (ps_host sy))) k = Some g \<and>
          allow_input (ho_sessions (ps_host sy) ! m) = dg_allow_input g))"
proof (intro conjI allI impI)
  have ok: "pairing_ok C J sy" by (rule pairing_reached [OF assms])
  note tr = pairing_okD(7) [OF ok, unfolded traced_ok_def]
  show "pairing_step C J A call sy \<noteq> None" if "pairing_guard C call sy"
    using pairing.step_ok [OF ok that, where A = A] by (auto simp: returns_def)
  show "length (bk_devices (ho_book (ps_host sy))) + length (bk_pending (ho_book (ps_host sy))) \<le> MAX_DEVICES"
    using pairing_okD(3) [OF ok] by (simp add: book_ok_def)
  show "length (as_pending (ho_approvals (ps_host sy))) \<le> 8" using pairing_okD(4) [OF ok] by (simp add: approvals_ok_def)
  show "d \<in> ps_restored sy \<or> (\<exists>t i allow. (d, t, i) \<in> ps_enrolled sy \<and> (t, i, dg_name g, allow) \<in> ps_decided sy)"
    if "map_of (bk_devices (ho_book (ps_host sy))) d = Some g" for d g by (rule tracedD(5) [OF tr that])
  show "d = d'" if "(d, t, i) \<in> ps_enrolled sy" "(d', t', i') \<in> ps_enrolled sy" "t = t' \<or> i = i'" for d t i d' t' i'
    using tracedD(4) [OF tr that(1,2)] that(3) by blast
  fix m assume m: "m < length (ho_sessions (ps_host sy))" "is_active (ho_sessions (ps_host sy) ! m)"
  then obtain k via where k: "map_of (ho_active (ps_host sy)) k = Some (m, via)" using sessions_okD(4) [OF pairing_okD(5) [OF ok]] by blast
  from sessions_okD(2) [OF pairing_okD(5) [OF ok] k] k m(2)
  show "\<exists>k via g. map_of (ho_active (ps_host sy)) k = Some (m, via) \<and> map_of (bk_devices (ho_book (ps_host sy))) k = Some g \<and>
      allow_input (ho_sessions (ps_host sy) ! m) = dg_allow_input g"
    by (auto simp: allow_input_def simp del: keep_maps)
qed

text \<open>
  C15: enrolment needs a decision, and a decision suffices. A phone with an invitation gets a grant only if the user
  approved this very request, the name is the one that was approved, and neither the request nor the invitation has expired.
  The new device then has that name and permission, it is in the credential store before the
  answer is sent, the session has the permission, and the invitation is used up. When these conditions
  hold, randomness is available and the store accepts the content, the enrolment succeeds.
\<close>

theorem enrolment_needs_approval:
  assumes reach: "reaches (pairing_step C J A) (pairing_guard C) (pairing_start C J) n sy"
    and guard: "pairing_guard C (Enroll hello name now persist (Some t) via fresh fresh_id) sy" and inv: "he_invitation hello"
  shows "(\<exists>resp m h'. enroll C J hello name now persist (Some t) via fresh fresh_id (ps_host sy) = Some (Inr (resp, allow, m), h') \<and>
      (\<exists>g bytes r. resp = Secure_Enrolled (dg_id g) (expose_encoded C (dg_secret g)) \<and> dg_name g = name \<and> dg_allow_input g = allow \<and>
         map_of (bk_devices (ho_book h')) (dg_id g) = Some g \<and> persist bytes \<and> ho_stored h' = Some bytes \<and>
         host_restore C J bytes = Inr r \<and> map_of (bk_devices (ho_book r)) (dg_id g) = Some g \<and>
         allow_input (ho_sessions h' ! m) = allow \<and> (\<forall>now'. \<not> invitation_valid (he_grant hello) now' h'))) \<longleftrightarrow>
    (\<exists>p. map_of (as_pending (ho_approvals (ps_host sy))) t = Some p \<and> ap_invitation p = he_grant hello \<and> pr_name (ap_summary p) = name \<and>
       now < pr_expires_at (ap_summary p) \<and> ap_allowed_input p = Some allow \<and> (t, he_grant hello, name, allow) \<in> ps_decided sy) \<and>
    invitation_valid (he_grant hello) now (ps_host sy) \<and> \<not> bad_name name \<and>
    (\<exists>s r bytes. fresh = Some s \<and> fresh_id = Some r \<and> persist bytes \<and>
       host_encode C J (granted C t (he_grant hello) \<lparr>dg_id = secret_hash C r, dg_name = name, dg_allow_input = allow, dg_secret = s\<rparr> (ps_host sy)) = Inr bytes)"
  (is "?L \<longleftrightarrow> ?R")
proof
  have ok: "pairing_ok C J sy" by (rule pairing_reached [OF reach])
  have g: "new_id C fresh_id \<inter> ps_ids sy = {}" "list_all is_scalar name" "random_ok fresh" "random_ok fresh_id" using guard by simp_all
  show ?R if ?L
  proof -
    from that obtain resp m h' where "enroll C J hello name now persist (Some t) via fresh fresh_id (ps_host sy) = Some (Inr (resp, allow, m), h')"
      by (elim exE conjE)
    from enrolled_only_if [OF ok g inv this] show ?R by metis
  qed
  assume ?R
  then obtain p s r bytes where c: "map_of (as_pending (ho_approvals (ps_host sy))) t = Some p" "ap_invitation p = he_grant hello" "pr_name (ap_summary p) = name"
      "now < pr_expires_at (ap_summary p)" "ap_allowed_input p = Some allow" "invitation_valid (he_grant hello) now (ps_host sy)" "\<not> bad_name name"
      "fresh = Some s" "fresh_id = Some r" "persist bytes"
      "host_encode C J (granted C t (he_grant hello) \<lparr>dg_id = secret_hash C r, dg_name = name, dg_allow_input = allow, dg_secret = s\<rparr> (ps_host sy)) = Inr bytes"
    by blast
  have rand: "secret_hash C r \<notin> ps_ids sy" "length s = 32" using g(1,3) c(8,9) by (simp_all add: random_ok_def)
  define g0 where "g0 = \<lparr>dg_id = secret_hash C r, dg_name = name, dg_allow_input = allow, dg_secret = s\<rparr>"
  obtain m h' q where e: "enroll C J hello name now persist (Some t) via fresh fresh_id (ps_host sy) =
        Some (Inr (Secure_Enrolled (dg_id g0) (expose_encoded C (dg_secret g0)), allow, m), h')"
      "map_of (bk_devices (ho_book h')) (dg_id g0) = Some g0" "ho_stored h' = Some bytes" "host_restore C J bytes = Inr q"
      "map_of (bk_devices (ho_book q)) (dg_id g0) = Some g0" "allow_input (ho_sessions h' ! m) = allow"
      "\<And>now'. \<not> invitation_valid (he_grant hello) now' h'"
    using enroll_granted [where persist = persist and bytes = bytes and via = via, OF ok rand g(2) c(7) inv c(6) c(1-5) g0_def c(10)] c(11)
    unfolding c(8,9) g0_def [symmetric] by blast
  have "dg_name g0 = name" "dg_allow_input g0 = allow" by (simp_all add: g0_def)
  then show ?L using e c(10) by blast
qed

text \<open>
  C16: grants change only after the new content is stored. In every reachable state the credential store restores
  exactly the key and the devices in memory. If it refuses new content, revoking a device and changing its
  permission report that and leave everything as it was. Otherwise a revoked device is gone, its session is cancelled and
  it cannot start a handshake any more, and a changed permission holds for the
  grant and the running session, which stays authorised.
\<close>

theorem grants_change_after_storing:
  assumes reach: "reaches (pairing_step C J A) (pairing_guard C) (pairing_start C J) n sy"
  shows "(case ho_stored (ps_host sy) of
      None \<Rightarrow> bk_devices (ho_book (ps_host sy)) = []
    | Some bytes \<Rightarrow> \<exists>r. host_restore C J bytes = Inr r \<and> ho_key r = ho_key (ps_host sy) \<and>
        map_of (bk_devices (ho_book r)) = map_of (bk_devices (ho_book (ps_host sy)))) \<and>
    (\<forall>r h'. host_revoke C J k persist (ps_host sy) = (r, h') \<longrightarrow>
       (r = Inr False \<or> r = Inl Io_Persist) \<and> h' = ps_host sy \<or>
       r = Inr True \<and> (\<exists>bytes. persist bytes \<and> ho_stored h' = Some bytes) \<and>
       map_of (bk_devices (ho_book h')) = (map_of (bk_devices (ho_book (ps_host sy))))(k := None) \<and>
       (\<forall>m via. map_of (ho_active (ps_host sy)) k = Some (m, via) \<longrightarrow> \<not> is_active (ho_sessions h' ! m)) \<and>
       (\<forall>hello epoch now. he_grant hello = k \<and> \<not> he_invitation hello \<longrightarrow> host_handshake C responder hello epoch now h' = Inl Io_Authentication)) \<and>
    (\<forall>r h'. set_input_permission C J k allow persist (ps_host sy) = (r, h') \<longrightarrow>
       (r = Inr False \<or> r = Inl Io_Persist) \<and> h' = ps_host sy \<or>
       r = Inr True \<and> (\<exists>bytes. persist bytes \<and> ho_stored h' = Some bytes) \<and>
       (\<exists>g. map_of (bk_devices (ho_book h')) = (map_of (bk_devices (ho_book (ps_host sy))))(k \<mapsto> g\<lparr>dg_allow_input := allow\<rparr>)) \<and>
       (\<forall>m via. map_of (ho_active (ps_host sy)) k = Some (m, via) \<longrightarrow> is_active (ho_sessions h' ! m) = is_active (ho_sessions (ps_host sy) ! m) \<and>
          se_input (ho_sessions h' ! m) = allow))"
proof (intro conjI allI impI)
  have ok: "pairing_ok C J sy" by (rule pairing_reached [OF reach])
  show "case ho_stored (ps_host sy) of None \<Rightarrow> bk_devices (ho_book (ps_host sy)) = []
    | Some bytes \<Rightarrow> \<exists>r. host_restore C J bytes = Inr r \<and> ho_key r = ho_key (ps_host sy) \<and>
        map_of (bk_devices (ho_book r)) = map_of (bk_devices (ho_book (ps_host sy)))"
    using pairing_okD(6) [OF ok] by (auto simp: stored_ok_def split: option.splits)
  note session = sessions_okD(1) [OF pairing_okD(5) [OF ok]]
  fix r h'
  show "(r = Inr False \<or> r = Inl Io_Persist) \<and> h' = ps_host sy \<or>
      r = Inr True \<and> (\<exists>bytes. persist bytes \<and> ho_stored h' = Some bytes) \<and>
      map_of (bk_devices (ho_book h')) = (map_of (bk_devices (ho_book (ps_host sy))))(k := None) \<and>
      (\<forall>m via. map_of (ho_active (ps_host sy)) k = Some (m, via) \<longrightarrow> \<not> is_active (ho_sessions h' ! m)) \<and>
      (\<forall>hello epoch now. he_grant hello = k \<and> \<not> he_invitation hello \<longrightarrow> host_handshake C responder hello epoch now h' = Inl Io_Authentication)"
    if r: "host_revoke C J k persist (ps_host sy) = (r, h')"
    using ok
  proof (cases rule: revoke_cases [where k = k and persist = persist])
    case (revoked g bytes q)
    then have "r = Inr True" "h' = Pairing_Host.revoked k bytes (ps_host sy)" using r by simp_all
    then show ?thesis
      using revoked(2) session [of k] by (auto simp: revoked_parts host_handshake_def alist_simps simp del: keep_maps)
  qed (use r in simp_all)
  show "(r = Inr False \<or> r = Inl Io_Persist) \<and> h' = ps_host sy \<or>
      r = Inr True \<and> (\<exists>bytes. persist bytes \<and> ho_stored h' = Some bytes) \<and>
      (\<exists>g. map_of (bk_devices (ho_book h')) = (map_of (bk_devices (ho_book (ps_host sy))))(k \<mapsto> g\<lparr>dg_allow_input := allow\<rparr>)) \<and>
      (\<forall>m via. map_of (ho_active (ps_host sy)) k = Some (m, via) \<longrightarrow> is_active (ho_sessions h' ! m) = is_active (ho_sessions (ps_host sy) ! m) \<and>
         se_input (ho_sessions h' ! m) = allow)"
    if r: "set_input_permission C J k allow persist (ps_host sy) = (r, h')"
    using ok
  proof (cases rule: permit_cases [where k = k and persist = persist and allow = allow])
    case (permitted g bytes q)
    then have h': "r = Inr True" "h' = Pairing_Host.permitted k allow g bytes (ps_host sy)" using r by simp_all
    have "is_active (ho_sessions h' ! m) = is_active (ho_sessions (ps_host sy) ! m) \<and> se_input (ho_sessions h' ! m) = allow"
      if "map_of (ho_active (ps_host sy)) k = Some (m, via)" for m via
      using that session [OF that] by (simp add: h' permitted_parts is_active_def del: keep_maps)
    then show ?thesis
      using permitted(2) by (auto simp: h' permitted_parts(3,5) alist_simps simp del: keep_maps)
  qed (use r in simp_all)
qed

section \<open>The short code is guessed five times at most\<close>

text \<open>A sequence of attempts, each with the state of the host and the time it finds; the results tell whether the code was open.\<close>

fun redeem_all :: "host_json \<Rightarrow> (string \<times> host \<times> nat) list \<Rightarrow> pairing_code \<Rightarrow> (bool \<times> (io_error + string)) list \<times> pairing_code" where
  "redeem_all J [] pc = ([], pc)"
| "redeem_all J ((code, h, now) # tries) pc =
     (let open_before = visible_code h now pc \<noteq> None;
          (r, pc) = redeem J code h now pc;
          (rs, pc) = redeem_all J tries pc
      in ((open_before, r) # rs, pc))"

lemma redeem_closed: "pc_consumed pc \<or> 5 \<le> pc_attempts pc \<Longrightarrow> redeem J code h now pc = (Inl Io_Authentication, pc)"
  by (auto simp: redeem_def visible_code_def)

lemma redeem_open:
  assumes "visible_code h now pc \<noteq> None"
  shows "pc_attempts (snd (redeem J code h now pc)) = pc_attempts pc + 1" "pc_attempts pc < 5" "\<not> pc_consumed pc"
    "fst (redeem J code h now pc) = Inr v \<Longrightarrow> pc_consumed (snd (redeem J code h now pc)) \<and> code = pc_code pc \<and> v = pc_invitation pc"
  using assms by (auto simp: redeem_def visible_code_def Let_def split: if_splits option.splits)

lemma redeem_same: "visible_code h now pc = None \<Longrightarrow> redeem J code h now pc = (Inl Io_Authentication, pc)"
  by (simp add: redeem_def)

lemma redeem_keeps: "pc_code (snd (redeem J code h now pc)) = pc_code pc" "pc_invitation (snd (redeem J code h now pc)) = pc_invitation pc"
  by (simp_all add: redeem_def Let_def split: option.split)

lemma redeem_all_Cons: "fst (redeem_all J ((code, h, now) # tries) pc) =
    (visible_code h now pc \<noteq> None, fst (redeem J code h now pc)) # fst (redeem_all J tries (snd (redeem J code h now pc)))"
  by (simp add: Let_def split_beta)

lemma guesses_bounded: "length (filter fst (fst (redeem_all J tries pc))) \<le> 5 - pc_attempts pc"
proof (induction tries arbitrary: pc)
  case (Cons x tries)
  obtain code h now where x: "x = (code, h, now)" by (cases x) auto
  show ?case
  proof (cases "visible_code h now pc = None")
    case True
    then show ?thesis using Cons [of pc] unfolding x redeem_all_Cons by (simp add: redeem_same)
  next
    case False
    then show ?thesis
      using Cons [of "snd (redeem J code h now pc)"] redeem_open(1) [OF False, where J = J and code = code] redeem_open(2) [OF False] unfolding x redeem_all_Cons by simp
  qed
qed simp

lemma consumed_stays: "pc_consumed pc \<Longrightarrow> filter (\<lambda>(_, r). \<not> isl r) (fst (redeem_all J tries pc)) = []"
proof (induction tries)
  case (Cons x tries)
  obtain code h now where x: "x = (code, h, now)" by (cases x) auto
  show ?case using Cons unfolding x redeem_all_Cons by (simp add: redeem_closed)
qed simp

lemma redeemed_once: "length (filter (\<lambda>(_, r). \<not> isl r) (fst (redeem_all J tries pc))) \<le> 1"
proof (induction tries arbitrary: pc)
  case (Cons x tries)
  obtain code h now where x: "x = (code, h, now)" by (cases x) auto
  show ?case
  proof (cases "fst (redeem J code h now pc)")
    case (Inl e)
    then show ?thesis using Cons unfolding x redeem_all_Cons by simp
  next
    case (Inr v)
    have "visible_code h now pc \<noteq> None" using Inr by (metis Inl_Inr_False fst_conv redeem_same)
    then have "pc_consumed (snd (redeem J code h now pc))" using redeem_open(4) [OF _ Inr] by blast
    from consumed_stays [OF this] show ?thesis unfolding x redeem_all_Cons by (simp add: Inr)
  qed
qed simp

lemma redeemed_by_code:
  "j < length tries \<Longrightarrow> snd (fst (redeem_all J tries pc) ! j) = Inr v \<Longrightarrow> fst (tries ! j) = pc_code pc \<and> v = pc_invitation pc"
proof (induction tries arbitrary: pc j)
  case (Cons x tries)
  obtain code h now where x: "x = (code, h, now)" by (cases x) auto
  show ?case
  proof (cases j)
    case 0
    then have r: "fst (redeem J code h now pc) = Inr v" using Cons.prems unfolding x redeem_all_Cons by simp
    then have "visible_code h now pc \<noteq> None" by (metis Inl_Inr_False fst_conv redeem_same)
    then show ?thesis using redeem_open(4) [OF _ r] 0 by (simp add: x)
  next
    case (Suc i)
    then show ?thesis
      using Cons.IH [of i "snd (redeem J code h now pc)"] Cons.prems unfolding x redeem_all_Cons by (simp add: redeem_keeps)
  qed
qed simp

text \<open>Each code is drawn by 42 of the 4.2 billion accepted values.\<close>

lemma code_draws: "k < 100000000 \<Longrightarrow> card {w :: 32 word. code_number [Some w] = Some (Inr k)} = 42"
proof -
  assume k: "k < 100000000"
  define f where "f j = (word_of_nat (k + j * 100000000) :: 32 word)" for j
  have small: "unat (f j) = k + j * 100000000" if "j < 42" for j
    unfolding f_def unat_of_nat using that k by simp
  have "bij_betw f {..<42} {w. code_number [Some w] = Some (Inr k)}"
  proof (rule bij_betw_imageI)
    show "inj_on f {..<42}"
    proof (rule inj_onI)
      fix i j assume ij: "i \<in> {..<42}" "j \<in> {..<42}" "f i = f j"
      then have "unat (f i) = unat (f j)" by simp
      then show "i = j" using small [of i] small [of j] ij(1,2) by simp
    qed
    show "f ` {..<42} = {w. code_number [Some w] = Some (Inr k)}"
    proof (intro equalityI subsetI)
      fix w assume "w \<in> f ` {..<42}"
      then obtain j where "j < 42" "w = f j" by blast
      then show "w \<in> {w. code_number [Some w] = Some (Inr k)}" using small [of j] k by simp
    next
      fix w :: "32 word" assume "w \<in> {w. code_number [Some w] = Some (Inr k)}"
      then have w: "unat w < 4200000000" "unat w mod 100000000 = k" by (simp_all split: if_splits)
      have "unat w div 100000000 < 42" using w(1) by (simp add: div_less_iff_less_mult)
      moreover have "w = f (unat w div 100000000)"
      proof (rule unsigned_word_eqI [where 'a = nat])
        show "unat w = unat (f (unat w div 100000000))"
          using small [OF calculation] w(2) div_mult_mod_eq [of "unat w" 100000000] by linarith
      qed
      ultimately show "w \<in> f ` {..<42}" by blast
    qed
  qed
  from bij_betw_same_card [OF this] show ?thesis by simp
qed

text \<open>
  C17: the short code is guessed at most five times. Whatever the attempts, at most five are compared with the code, at most one
  succeeds, and one that does has presented exactly the code and receives the invitation it stands for.
  All 100 million codes are equally likely: 42 of the accepted random values lead to each.
\<close>

theorem short_code_guessing:
  assumes "code_number draws = Some (Inr k)" "pairing_code_new invitation grant draws = Some (Inr pc)"
  shows "length (filter fst (fst (redeem_all J tries pc))) \<le> 5 \<and>
    length (filter (\<lambda>(_, r). \<not> isl r) (fst (redeem_all J tries pc))) \<le> 1 \<and>
    (\<forall>j < length tries. \<forall>v. snd (fst (redeem_all J tries pc) ! j) = Inr v \<longrightarrow> fst (tries ! j) = eight_digits k \<and> v = invitation) \<and>
    card {w. code_number [Some w] = Some (Inr k)} = 42"
proof -
  have pc: "pc_code pc = eight_digits k" "pc_attempts pc = 0" "pc_invitation pc = invitation"
    using assms by (auto simp: pairing_code_new_def)
  have "k < 100000000" using assms(1)
    by (induction draws rule: code_number.induct) (auto split: if_splits)
  then show ?thesis
    using guesses_bounded [of J tries pc] redeemed_once [of J tries pc] redeemed_by_code [of _ tries J pc] code_draws [of k] pc by auto
qed

text \<open>A rejection that finds the phone gone reports an error and leaves the invitation as it was.\<close>

lemma rejection_of_gone_request:
  assumes "map_of (as_pending (ho_approvals h)) t = Some p" "ap_decision p" "now < pr_expires_at (ap_summary p)"
    and "t \<notin> as_waiting (ho_approvals h)"
  shows "fst (decide_pairing t None now h) = Inl Io_Authentication \<and>
    invitation_valid i now' (snd (decide_pairing t None now h)) = invitation_valid i now' h"
  using assms by (simp add: decide_pairing_def decide_def Let_def invitation_valid_def)

section \<open>A pairing from beginning to end\<close>

definition secret_of :: "8 word \<Rightarrow> secret" where
  "secret_of b = replicate 32 b"

definition sample_id :: "8 word \<Rightarrow> string" where
  "sample_id b = b64_encode base64url (secret_of b)"

definition sample_access :: relay_access where
  "sample_access = \<lparr>ra_version = 2, ra_url = ''wss://relay'', ra_room = sample_id 0, ra_tls_pin = ''sha256/pin'',
     ra_desktop_token = sample_id 1, ra_mobile_token = sample_id 2\<rparr>"

definition sample_library :: access_library where
  "sample_library = \<lparr>al_parse = (\<lambda>_. Some \<lparr>ur_scheme = Some ''wss'', ur_authority = Some (''relay'', ''relay''), ur_path_and_query = None\<rparr>),
     al_decode = (\<lambda>_. Some (secret_of 0)), al_encode = (\<lambda>_. ''pin'')\<rparr>"

definition sample_host :: host where
  "sample_host = host_new \<lparr>hk_secret = secret_of 3, hk_public = secret_of 4\<rparr>"

definition sample_hello :: hello where
  "sample_hello = \<lparr>he_host = sample_id 4, he_grant = sample_id 5, he_invitation = True\<rparr>"

definition sample_book :: pairing_book where
  "sample_book = \<lparr>bk_pending = [(sample_id 5, \<lparr>pi_issued_at = 100, pi_expires_at = 700, pi_secret = secret_of 6, pi_allow_input = False\<rparr>)], bk_devices = []\<rparr>"

definition sample_request :: "bool \<Rightarrow> approval" where
  "sample_request waiting = \<lparr>ap_summary = \<lparr>pr_id = sample_id 7, pr_name = [65], pr_route = Lan, pr_peer = None, pr_verification_code = ''123456'',
     pr_expires_at = 221, pr_approving = \<not> waiting\<rparr>, ap_invitation = sample_id 5, ap_decision = waiting, ap_allowed_input = (if waiting then None else Some True)\<rparr>"

definition sample_issued :: pairing_system where
  "sample_issued = (system_of sample_host)\<lparr>ps_host := sample_host\<lparr>ho_book := sample_book\<rparr>, ps_ids := {sample_id 5}\<rparr>"

definition sample_asked :: pairing_system where
  "sample_asked = (system_of sample_host)\<lparr>ps_host := sample_host\<lparr>ho_book := sample_book, ho_approvals :=
       \<lparr>as_pending = [(sample_id 7, sample_request True)], as_waiting = {sample_id 7}, as_answer = (\<lambda>_. None)\<rparr>\<rparr>,
     ps_ids := {sample_id 5, sample_id 7}\<rparr>"

definition sample_decided :: pairing_system where
  "sample_decided = (system_of sample_host)\<lparr>ps_host := sample_host\<lparr>ho_book := sample_book, ho_approvals :=
       \<lparr>as_pending = [(sample_id 7, sample_request False)], as_waiting = {sample_id 7}, as_answer = [sample_id 7 \<mapsto> True]\<rparr>\<rparr>,
     ps_ids := {sample_id 5, sample_id 7}, ps_decided := {(sample_id 7, sample_id 5, [65], True)}\<rparr>"

lemma secret_of_simps [simp]: "length (secret_of b) = 32" "secret_of b = secret_of c \<longleftrightarrow> b = c"
  by (simp_all add: secret_of_def)

lemma sample_id_simps [simp]:
  "sample_id b = sample_id c \<longleftrightarrow> b = c" "secret_hash base64url (secret_of b) = sample_id b" "secret_decode base64url (sample_id b) = Some (secret_of b)"
  "expose_encoded base64url (secret_of b) = sample_id b"
proof -
  show decode: "secret_decode base64url (sample_id b) = Some (secret_of b)" for b
    unfolding sample_id_def by (rule secret_decode_encode [OF base64url_ok]) simp
  show "sample_id b = sample_id c \<longleftrightarrow> b = c" by (metis decode option.inject secret_of_simps(2))
  have "sha256 base64url (secret_of b) = secret_of b" by (simp add: base64url_def secret_of_def)
  then show "secret_hash base64url (secret_of b) = sample_id b" by (simp add: secret_hash_def sample_id_def)
  show "expose_encoded base64url (secret_of b) = sample_id b" by (simp add: expose_encoded_def sample_id_def)
qed

lemma sample_start: "pairing_start base64url plain_format (system_of sample_host)"
  unfolding pairing_start_def sample_host_def
  by (intro conjI base64url_ok plain_format_ok disjI1 exI [of _ "\<lparr>hk_secret = secret_of 3, hk_public = secret_of 4\<rparr>"]) simp_all

lemma sample_steps:
  "pairing_step base64url plain_format sample_library (Issue sample_access [65] False 100 (Some (secret_of 6)) (Some (secret_of 5))) (system_of sample_host) = Some sample_issued"
  "pairing_step base64url plain_format sample_library (Request sample_hello [65] Lan None ''123456'' 101 (Some (secret_of 7))) sample_issued = Some sample_asked"
  "pairing_step base64url plain_format sample_library (Decide (sample_id 7) (Some True) 102) sample_asked = Some sample_decided"
proof -
  have access: "validate_access base64url sample_library sample_access = Inr ()"
  proof -
    have "valid_id (sample_id 0)" using base64url_ok by (simp add: codec_ok_def sample_id_def)
    then show ?thesis by (simp add: validate_access_def sample_library_def sample_access_def pin_bytes_def)
  qed
  have name: "\<not> bad_name [65]" by (simp add: bad_name_def text_bytes_def utf8_len_def is_control_def)
  show "pairing_step base64url plain_format sample_library (Issue sample_access [65] False 100 (Some (secret_of 6)) (Some (secret_of 5))) (system_of sample_host) = Some sample_issued"
    using access name by (simp add: host_issue_def book_issue_def system_of_def sample_issued_def sample_host_def host_new_def book_default_def sample_book_def Let_def)
  show "pairing_step base64url plain_format sample_library (Request sample_hello [65] Lan None ''123456'' 101 (Some (secret_of 7))) sample_issued = Some sample_asked"
    by (simp add: request_pairing_def approval_request_def invitation_secret_def system_of_def sample_issued_def sample_asked_def sample_host_def host_new_def
        book_default_def sample_book_def sample_hello_def approvals_default_def sample_request_def Let_def insert_commute)
  show "pairing_step base64url plain_format sample_library (Decide (sample_id 7) (Some True) 102) sample_asked = Some sample_decided"
    by (simp add: decide_pairing_def decide_def decision_of_def system_of_def sample_asked_def sample_decided_def sample_host_def host_new_def
        book_default_def sample_request_def Let_def)
qed

lemmas sample_reach = reaches.step [where step = "pairing_step base64url plain_format sample_library" and guard = "pairing_guard base64url"
  and initial = "pairing_start base64url plain_format"]

lemma sample_decided_reached:
  "reaches (pairing_step base64url plain_format sample_library) (pairing_guard base64url) (pairing_start base64url plain_format) 3 sample_decided"
proof -
  have "reaches (pairing_step base64url plain_format sample_library) (pairing_guard base64url) (pairing_start base64url plain_format) 0 (system_of sample_host)"
    by (rule reaches.start, rule sample_start)
  from sample_reach [OF this _ sample_steps(1)]
  have "reaches (pairing_step base64url plain_format sample_library) (pairing_guard base64url) (pairing_start base64url plain_format) (Suc 0) sample_issued"
    by (simp add: random_ok_def system_of_def sample_host_def host_new_def book_default_def)
  from sample_reach [OF this _ sample_steps(2)]
  have "reaches (pairing_step base64url plain_format sample_library) (pairing_guard base64url) (pairing_start base64url plain_format) (Suc (Suc 0)) sample_asked"
    by (simp add: random_ok_def sample_issued_def)
  from sample_reach [OF this _ sample_steps(3)] show ?thesis by (simp add: numeral_3_eq_3)
qed

theorem devices_are_approved_witness:
  "pairing_step base64url plain_format sample_library (Revoke (sample_id 9) (\<lambda>_. True)) sample_decided \<noteq> None \<and>
     length (as_pending (ho_approvals (ps_host sample_decided))) \<le> 8"
  using devices_are_approved [OF sample_decided_reached, of "Revoke (sample_id 9) (\<lambda>_. True)"] by simp

theorem enrolment_needs_approval_witness:
  "\<exists>resp m h'. enroll base64url plain_format sample_hello [65] 103 (\<lambda>_. True) (Some (sample_id 7)) Lan (Some (secret_of 8)) (Some (secret_of 9)) (ps_host sample_decided) =
     Some (Inr (resp, True, m), h') \<and> (\<forall>now'. \<not> invitation_valid (sample_id 5) now' h')"
proof -
  let ?g = "\<lparr>dg_id = sample_id 9, dg_name = [65], dg_allow_input = True, dg_secret = secret_of 8\<rparr>"
  have name: "\<not> bad_name [65]" by (simp add: bad_name_def text_bytes_def utf8_len_def is_control_def)
  have host: "ps_host sample_decided = sample_host\<lparr>ho_book := sample_book, ho_approvals := \<lparr>as_pending = [(sample_id 7, sample_request False)],
      as_waiting = {sample_id 7}, as_answer = [sample_id 7 \<mapsto> True]\<rparr>\<rparr>"
    by (simp add: sample_decided_def)
  let ?h = "granted base64url (sample_id 7) (sample_id 5) ?g (ps_host sample_decided)"
  have "valid_id (sample_id 9)" using base64url_ok by (simp add: codec_ok_def sample_id_def)
  then have "book_ok (ho_book ?h)"
    using name by (simp add: granted_def host sample_book_def book_ok_def is_scalar_def)
  moreover have "length (hk_secret (ho_key ?h)) = 32" "length (hk_public (ho_key ?h)) = 32" by (simp_all add: granted_def host sample_host_def host_new_def)
  ultimately obtain bytes where "host_encode base64url plain_format ?h = Inr bytes"
    by (rule restore_encoded [OF base64url_ok plain_format_ok])
  moreover have "invitation_valid (sample_id 5) 103 (ps_host sample_decided)"
    by (simp add: invitation_valid_def invitation_secret_def host sample_book_def)
  ultimately show ?thesis
    using enrolment_needs_approval [OF sample_decided_reached, of sample_hello "[65]" 103 "\<lambda>_. True" "sample_id 7" Lan "Some (secret_of 8)" "Some (secret_of 9)" True] name
    by (auto simp: sample_hello_def sample_decided_def sample_request_def random_ok_def is_scalar_def)
qed

theorem grants_change_after_storing_witness:
  "\<exists>sy h'. pairing_start base64url plain_format sy \<and> map_of (bk_devices (ho_book (ps_host sy))) (sample_id 9) \<noteq> None \<and>
     host_revoke base64url plain_format (sample_id 9) (\<lambda>_. True) (ps_host sy) = (Inr True, h') \<and>
     map_of (bk_devices (ho_book h')) (sample_id 9) = None"
proof -
  let ?h = "sample_host\<lparr>ho_book := book_default\<lparr>bk_devices := [(sample_id 9,
      \<lparr>dg_id = sample_id 9, dg_name = [65], dg_allow_input = True, dg_secret = secret_of 8\<rparr>)]\<rparr>\<rparr>"
  have "valid_id (sample_id 9)" using base64url_ok by (simp add: codec_ok_def sample_id_def)
  then have "book_ok (ho_book ?h)"
    by (simp add: book_default_def book_ok_def is_scalar_def bad_name_def text_bytes_def utf8_len_def is_control_def)
  moreover have "length (hk_secret (ho_key ?h)) = 32" "length (hk_public (ho_key ?h)) = 32" by (simp_all add: sample_host_def host_new_def)
  ultimately obtain bytes where r: "host_restore base64url plain_format bytes =
      Inr ((host_new (ho_key ?h))\<lparr>ho_book := book_default\<lparr>bk_devices := bk_devices (ho_book ?h)\<rparr>\<rparr>)"
    by (rule restore_encoded [OF base64url_ok plain_format_ok])
  define sy where "sy = system_of ((host_new (ho_key ?h))\<lparr>ho_book := book_default\<lparr>bk_devices := bk_devices (ho_book ?h)\<rparr>, ho_stored := Some bytes\<rparr>)"
  have start: "pairing_start base64url plain_format sy"
    unfolding pairing_start_def sy_def using r base64url_ok plain_format_ok by blast
  have device: "map_of (bk_devices (ho_book (ps_host sy))) (sample_id 9) \<noteq> None" by (simp add: sy_def system_of_def)
  obtain h' where h': "host_revoke base64url plain_format (sample_id 9) (\<lambda>_. True) (ps_host sy) = (Inr True, h')"
    using start_pairing_ok [OF start] by (cases rule: revoke_cases [where k = "sample_id 9" and persist = "\<lambda>_. True"]) (use device in auto)
  have "reaches (pairing_step base64url plain_format sample_library) (pairing_guard base64url) (pairing_start base64url plain_format) 0 sy"
    by (rule reaches.start, rule start)
  from grants_change_after_storing [where responder = "\<lambda>_ _ _. None :: unit option", OF this, THEN conjunct2, THEN conjunct1, rule_format, OF h']
  have "map_of (bk_devices (ho_book h')) (sample_id 9) = None" by auto
  with start device h' show ?thesis by blast
qed

theorem short_code_guessing_witness:
  "length (filter fst (fst (redeem_all plain_format [(eight_digits 8, sample_host, 100), (eight_digits 7, sample_host, 101)]
     \<lparr>pc_code = eight_digits 7, pc_invitation = sample_id 5, pc_grant = sample_id 5, pc_attempts = 0, pc_consumed = False\<rparr>))) \<le> 5"
  using short_code_guessing [of "[Some 4294967295, Some 7]" 7 "sample_id 5" "sample_id 5" "\<lparr>pc_code = eight_digits 7, pc_invitation = sample_id 5,
      pc_grant = sample_id 5, pc_attempts = 0, pc_consumed = False\<rparr>" plain_format "[(eight_digits 8, sample_host, 100), (eight_digits 7, sample_host, 101)]"]
  by (simp add: pairing_code_new_def)

end
