(* ===== verification/Spec2Isabelle.thy ===== *)
theory Spec2Isabelle
  imports Zmodem Term_Spec Resize_Spec Split_Tree Secure_Channel Relay Pairing_Host
begin

text \<open>
  \<^bold>\<open>The cores of pebrel.\<close> The program is a terminal emulator: \<open>nebula_terminal\<close> is the terminal library,
  \<open>nebula_split\<close> the layout of split panes, \<open>mobile/link\<close> the link through which a phone watches and
  controls a desktop, and \<open>nebula_app\<close> the application around them. This development models the logic of
  the first three.

  \<^bold>\<open>The terminal\<close> (source files under \<open>nebula_terminal/src\<close>):

  \<^item> \<open>Prelude\<close>: the option type for panicking code (\<open>returns\<close>, \<open>panic_free\<close>), machine integers, vectors,
    loops over lists. \<open>Machine\<close>: guarded state machines, reachable states and runs, as a locale.
  \<^item> \<open>Index\<close> (\<open>index.rs\<close>): points, lines, columns, clamping and wrapping arithmetic; the locale
    \<open>dimensions\<close> is the trait \<open>Dimensions\<close>.
  \<^item> \<open>Cell\<close>, \<open>Row\<close>, \<open>Storage\<close>, \<open>Grid\<close> (\<open>term/cell.rs\<close>, \<open>grid/row.rs\<close>, \<open>grid/storage.rs\<close>, \<open>grid/mod.rs\<close>): cells with
    their shared extra, rows with the bound of occupied cells, the ring of rows, and the screen with its
    history, cursors and display offset. The locale \<open>line_buffer\<close> in \<open>Storage\<close> states what the grid needs
    of the ring. \<open>Grid_Frame\<close>: what the operations of a grid leave alone.
  \<^item> \<open>Resize\<close> (\<open>grid/resize.rs\<close>): changes of height and width with reflow, the inner loop of a narrowing as
    the partial function \<open>shrink_rounds\<close>, and the anchor of the cursor. \<open>Resize_Grow\<close>, \<open>Resize_Shrink\<close>,
    \<open>Resize_Height\<close> and \<open>Resize_Anchor\<close>: each part returns and keeps the grid well-formed. \<open>Resize_Text\<close> and
    \<open>Resize_Join\<close>: what narrowing and widening do to the logical lines. \<open>Resize_Spec\<close>: the properties.
  \<^item> \<open>Damage\<close> (\<open>term/damage.rs\<close>), \<open>Zmodem\<close> (\<open>zmodem.rs\<close>), \<open>Program_Status\<close> (\<open>program_status.rs\<close>), \<open>Search\<close>
    (\<open>term/search.rs\<close>), \<open>Selection\<close> (\<open>selection.rs\<close>): changed columns per line, the detector of file
    transfers, the bounded store of program reports, logical lines and semantic words, and the
    selected cells.
  \<^item> \<open>Term_State\<close>, \<open>Term_Ops\<close>, \<open>Term_Handler\<close> (\<open>term/mod.rs\<close> with \<open>input.rs\<close>, \<open>clear.rs\<close>, \<open>keyboard.rs\<close>,
    \<open>redraw_anchor.rs\<close>, \<open>program_status.rs\<close>, \<open>title.rs\<close>): the record \<open>trm\<close> of a \<open>Term\<close>, its operations and one
    definition per handler of an escape sequence. \<open>handle\<close> dispatches the calls of the parser and
    \<open>handle_host\<close> those of the window. \<open>Term_Resize\<close>: \<open>Term::resize\<close>.
  \<^item> \<open>Term_Safety\<close>, \<open>Term_Calls\<close>, \<open>Terminal\<close>: the invariant \<open>term_ok\<close> of a terminal of a given shape, its
    preservation by every handler, and the terminal, with changes of its size, as an instance of the
    locale \<open>machine\<close>. \<open>Term_Spec\<close>: what individual handlers do.

  \<^bold>\<open>Split panes.\<close> \<open>Split_Tree\<close> (\<open>nebula_split/src/lib.rs\<close>, \<open>dock.rs\<close>): the tree of panes, its edits, layout and
  the movement of the focus, over the arithmetic of a record \<open>f32\<close>.

  \<^bold>\<open>The mobile link\<close> (source files under \<open>mobile/link/src\<close>):

  \<^item> \<open>Secure_Channel\<close> (\<open>crypto.rs\<close>): handshake, framing of messages into packets and their reassembly. The
    Noise library is the record \<open>noise\<close>.
  \<^item> \<open>Relay\<close> (\<open>identity.rs\<close>, \<open>relay/registry.rs\<close>): credentials, and the registry of rooms that joins a desktop
    and a phone; the server around it is a \<open>machine\<close>.
  \<^item> \<open>Pairing\<close> (\<open>pairing.rs\<close>, \<open>endpoint/approval.rs\<close>, \<open>endpoint/pairing_code.rs\<close>, \<open>endpoint/access.rs\<close>,
    \<open>endpoint/host.rs\<close>, \<open>endpoint/runtime.rs\<close>): invitations, approval by the user, the short code, the
    desktop with its devices and sessions, and what it keeps in the credential store. \<open>Pairing_Codec\<close>
    gives concrete functions for base64 and JSON, which show that the assumptions can be met;
    \<open>Pairing_Host\<close> has the desktop as a \<open>machine\<close> and the properties.

  \<^bold>\<open>How the parts interact.\<close> A \<open>Term\<close> owns two grids (the primary and the alternate screen), the damage
  of the visible lines, a selection, the program records and the reading state. A handler resets the
  pending emoji cluster, changes the active grid through the operations of \<open>Grid\<close>, rotates the
  selection with scrolled content, records the damage and may send events to the window. A resize
  changes both grids, the primary one with reflow, and drops or moves what refers to the old size. On
  the link, the relay only forwards packets between the two ends of a room; the ends run the secure
  channel over it, and the desktop admits a phone by its identity once an invitation was used up.

  \<^bold>\<open>Conventions.\<close> The code is modelled with its run-time checks: an index out of range, a subtraction below
  zero and a failed assertion are \<open>None\<close>, so a theorem that an operation returns \<open>Some\<close> says that it does
  not panic. A \<open>usize\<close> is a natural number; sizes and counters stay far below \<open>2 ^ 64\<close> except for the
  reading epoch, whose bound is a hypothesis, and the number in \<open>version_number\<close>, whose input is the version
  of the program. A line number is an integer, and a negative one read as a \<open>usize\<close> is a huge number
  (\<open>line_as_usize\<close>); of its sums the one that a caller can make overflow its 32 bits, in
  \<open>Grid::scroll_display\<close>, is checked, and that of \<open>goto\<close> is not, whose lines the parser keeps to 16 bits. Flags and
  modes are words. References
  shared by cells are values. Code of libraries is a parameter: the record \<open>unicode\<close> has the
  character widths, the emoji table, the charset maps and the grapheme segmentation, the record
  \<open>environment\<close> the version string, the decoding of base64 and the numbers of raw modes, the records of the
  link the hash, the encryption, base64 and JSON. Where a property needs something of them, that is a
  named hypothesis (\<open>codec_ok\<close>, \<open>json_ok\<close>: decoding inverts encoding), with an instance that has it.
  Events are the list of what was sent; the type \<open>event\<close> has those a \<open>Term\<close> sends.

  \<^bold>\<open>What the lemmas show.\<close>

  \<^item> Storage and grid: the ring is a sequence of lines numbered from the oldest line of the history to the
    bottom of the screen; rotation, resizing and reset keep every surviving line, and scrolling keeps
    the absolute number of each line and the position of a scrolled-back view. The iterator over the
    displayed area ends and yields each cell once.
  \<^item> Rows and cells: the shortcut of resetting only occupied cells is sound, and where it is not. The
    parameter \<open>strict\<close> of \<open>grid_ok\<close> says whether the occupancy of all rows is sound: then a row that is
    \<open>erased\<close> is exactly blank; without it, as after a widening, the row is known to have the width of the
    grid and no images or markers.
  \<^item> Resizing: it always returns a well-formed grid of the new size, from two columns and one line up; a
    change of height keeps every row that stays in the buffer; a change of width keeps the text. The
    text is \<open>grid_text\<close>, the logical lines without the empty cells at their ends. That it is kept asks
    for rows as the terminal writes them (\<open>tidy_rows\<close>: wide characters have their spacer, wrap flags
    are at the end of a row) and for a cursor on the text of a row that wraps (\<open>cursor_in_text\<close>, when
    narrowing) or in the first row of its line (\<open>cursor_line_starts\<close>, when widening); the lemma
    \<open>reflow_damages_text\<close> has grids that violate the latter two and lose text. The anchor brings a cursor
    back to its line if that is on the screen and the line below it is a single row, and never if the
    line below has several rows.
  \<^item> Search and selection: logical lines and words are maximal; the selected cells are those between the
    edges of the anchors, except in two constellations of half cells, and a selection follows the text
    that scrolls inside a region within the screen or with the whole screen.
  \<^item> Terminal: every handler, every call of the window and every resize keeps the invariant, so no run
    of a fresh terminal panics; insertion, deletion, erasure above the cursor, the keyboard stack and
    the alternate screen do what they promise, with the cases in which the code does not.
  \<^item> Split panes: edits undo each other, the layout follows the tree, the focus moves to a nearest pane.
  \<^item> Link: messages arrive unchanged and in order, every error closes the channel, rooms are isolated,
    devices stem from decisions of the user, and a short code takes at most five guesses.
  \<^item> Smaller parts: damage is never lost, the ZMODEM detector does not depend on how its input is cut and
    offers what the checked digits of a header encode, its checksum being the remainder of a polynomial
    division, and the store of program reports is bounded.

  \<^bold>\<open>Loops, bounds and fuel.\<close> Loops over iterators are recursions with measures; the scanning loops of the
  searches, the loop that splits a row and the emoji segmentation, which ends only if the segmenter
  answers, are partial functions into \<open>option\<close>. No definition runs on fuel. The bound of two columns is the
  code's \<open>MIN_COLUMNS\<close>; with one column the splitting of a wide character never ends. The invariant of a
  terminal counts the epochs of the reading state: every step raises it by at most one, so runs of
  fewer than \<open>2 ^ 64\<close> steps are covered.

  \<^bold>\<open>Limits of the safety theorem.\<close> The calls allowed by \<open>call_ok\<close> have a palette index below the number of
  colours and a region counted from one, as the parser sends them, and input that extends no emoji
  cluster: with a table that has emoji, ASCII and the characters up to U+FFFF whose width is not zero;
  with a table without emoji, any character. The calls allowed by \<open>host_ok\<close> scroll by a distance that does
  not overflow and realign the cursor to a line of the screen; a realignment below it does leave the
  screen. The redraw anchor is off, as it is until the window enables it.

  \<^bold>\<open>Not modelled.\<close> Vi motions, the text of selections, prompt marks, reading queries and the
  regular-expression searches; titles that carry inline images and the images themselves, whose
  decoding is library code; the sockets, TLS and the tasks around the link; the event loop, the pseudo
  terminal, rendering and the application, which are threads, operating system calls and user
  interface.
\<close>

end
